(* ===== verification/Prelude.thy ===== *)
theory Prelude
  imports Main "HOL-Library.Word"
begin

text \<open>
  Shared vocabulary of the development: Python exceptions as values, the result
  type and its sequencing, bytes, the Python integer and bytearray primitives the
  sources call (bit_length, to_bytes, bytearray.append), the collections of
  rewrite rules, and generic lemmas on lists and results.
\<close>

unbundle bit_operations_syntax

section \<open>Python exceptions as values\<close>

datatype py_error =
    AssertionError
  | ValueError
  | TypeError
  | KeyError
  | IndexError
  | OverflowError
  | AttributeError
  | RuntimeError
  | NotImplementedError
  | TileTypeError
  | TileValueError
  | TileInternalError
  | TileUnsupportedFeatureError
  | BroadcastError
  | ZeroDivisionError

type_synonym 'a res = "py_error + 'a"

definition and_then :: "'a res \<Rightarrow> ('a \<Rightarrow> 'b res) \<Rightarrow> 'b res" where
  "and_then m f = (case m of Inl e \<Rightarrow> Inl e | Inr x \<Rightarrow> f x)"

definition py_assert :: "bool \<Rightarrow> unit res" where
  "py_assert b = (if b then Inr () else Inl AssertionError)"

text \<open>Statements that thread one state, run in order; the first exception ends the run.\<close>

fun run_steps :: "('s \<Rightarrow> 's res) list \<Rightarrow> 's \<Rightarrow> 's res" where
  "run_steps [] s = Inr s"
| "run_steps (f # fs) s = and_then (f s) (run_steps fs)"

text \<open>A list comprehension whose body may raise.\<close>

fun map_res :: "('a \<Rightarrow> 'b res) \<Rightarrow> 'a list \<Rightarrow> 'b list res" where
  "map_res f [] = Inr []"
| "map_res f (x # xs) =
     and_then (f x) (\<lambda>y. and_then (map_res f xs) (\<lambda>ys. Inr (y # ys)))"

text \<open>A for loop over a list that updates one state.\<close>

fun fold_res :: "('a \<Rightarrow> 's \<Rightarrow> 's res) \<Rightarrow> 'a list \<Rightarrow> 's \<Rightarrow> 's res" where
  "fold_res f [] s = Inr s"
| "fold_res f (x # xs) s = and_then (f x s) (fold_res f xs)"

lemma and_then_simps [simp]:
  "and_then (Inl e) f = Inl e"
  "and_then (Inr x) f = f x"
  by (simp_all add: and_then_def)

lemma and_then_Inr_iff:
  "and_then m f = Inr y \<longleftrightarrow> (\<exists>x. m = Inr x \<and> f x = Inr y)"
  by (cases m) auto

lemma and_then_Inl_iff:
  "and_then m f = Inl e \<longleftrightarrow> m = Inl e \<or> (\<exists>x. m = Inr x \<and> f x = Inl e)"
  by (cases m) auto

lemma and_then_assoc: "and_then (and_then m f) g = and_then m (\<lambda>x. and_then (f x) g)"
  by (cases m) auto

lemma and_then_cong [fundef_cong]:
  "m = m' \<Longrightarrow> (\<And>x. m' = Inr x \<Longrightarrow> f x = f' x) \<Longrightarrow> and_then m f = and_then m' f'"
  by (cases m') auto

lemma py_assert_simps [simp]:
  "py_assert True = Inr ()" "py_assert False = Inl AssertionError"
  by (simp_all add: py_assert_def)

lemma py_assert_Inr_iff: "py_assert b = Inr u \<longleftrightarrow> b"
  by (cases b) auto

lemma run_steps_append: "run_steps (fs @ gs) s = and_then (run_steps fs s) (run_steps gs)"
  by (induction fs arbitrary: s) (auto simp: and_then_def split: sum.splits)

lemma fold_res_append:
  "fold_res f (xs @ ys) s = and_then (fold_res f xs s) (fold_res f ys)"
  by (induction xs arbitrary: s) (auto simp: and_then_def split: sum.splits)

lemma map_res_length: "map_res f xs = Inr ys \<Longrightarrow> length ys = length xs"
  by (induction xs arbitrary: ys) (auto simp: and_then_Inr_iff)

lemma map_res_all: "(\<And>x. x \<in> set xs \<Longrightarrow> f x = Inr (g x)) \<Longrightarrow> map_res f xs = Inr (map g xs)"
  by (induction xs) auto

section \<open>Bytes and the bytearray\<close>

type_synonym byte = "8 word"
type_synonym bytes = "byte list"

text \<open>\<open>bytearray.append(x)\<close> raises ValueError when x is not in range(0, 256).\<close>

definition buf_append :: "int \<Rightarrow> bytes \<Rightarrow> bytes res" where
  "buf_append x buf =
     (if 0 \<le> x \<and> x < 256 then Inr (buf @ [word_of_int x]) else Inl ValueError)"

text \<open>\<open>bytearray.extend\<close> of a bytes object.\<close>

definition buf_extend :: "bytes \<Rightarrow> bytes \<Rightarrow> bytes" where
  "buf_extend bs buf = buf @ bs"

text \<open>
  \<open>str.encode()\<close>: a string is kept as the list of its UTF-8 code units.
\<close>

definition str_encode :: "string \<Rightarrow> bytes" where
  "str_encode s = map (\<lambda>c. word_of_nat (of_char c)) s"

lemma word_of_char_inj: "(word_of_nat (of_char c) :: byte) = word_of_nat (of_char d) \<Longrightarrow> c = d"
proof -
  assume "(word_of_nat (of_char c) :: byte) = word_of_nat (of_char d)"
  then have "unat (word_of_nat (of_char c) :: byte) = unat (word_of_nat (of_char d) :: byte)"
    by simp
  then have "(of_char c :: nat) mod 256 = of_char d mod 256"
    by (simp add: unat_of_nat)
  then have "(of_char c :: nat) = of_char d"
    by (simp add: of_char_mod_256)
  then show "c = d" by (simp add: of_char_eq_iff)
qed

lemma str_encode_inj: "str_encode s = str_encode t \<longleftrightarrow> s = t"
proof
  show "str_encode s = str_encode t \<Longrightarrow> s = t"
    unfolding str_encode_def
    by (rule list.inj_map_strong [of s t]) (auto intro: word_of_char_inj)
qed simp

section \<open>Python integers\<close>

function bit_length_pos :: "int \<Rightarrow> int" where
  "bit_length_pos x = (if x \<le> 0 then 0 else 1 + bit_length_pos (x div 2))"
  by pat_completeness auto
termination by (relation "measure nat") auto

declare bit_length_pos.simps [simp del]

text \<open>\<open>int.bit_length()\<close>: the number of bits of the absolute value.\<close>

definition bit_length :: "int \<Rightarrow> int" where
  "bit_length x = bit_length_pos \<bar>x\<bar>"

lemma bit_length_pos_0 [simp]: "x \<le> 0 \<Longrightarrow> bit_length_pos x = 0"
  by (simp add: bit_length_pos.simps)

lemma bit_length_pos_step: "0 < x \<Longrightarrow> bit_length_pos x = 1 + bit_length_pos (x div 2)"
  by (simp add: bit_length_pos.simps [of x])

lemma bit_length_pos_nonneg [simp]: "0 \<le> bit_length_pos x"
proof (induction x rule: bit_length_pos.induct)
  case (1 x)
  then show ?case by (cases "x \<le> 0") (simp_all add: bit_length_pos_step)
qed

lemma bit_length_pos_le_iff: "0 \<le> x \<Longrightarrow> bit_length_pos x \<le> int k \<longleftrightarrow> x < 2 ^ k"
proof (induction x arbitrary: k rule: bit_length_pos.induct)
  case (1 x)
  show ?case
  proof (cases "x = 0")
    case False
    with "1.prems" have pos: "0 < x" by simp
    note step = bit_length_pos_step [OF pos]
    show ?thesis
    proof (cases k)
      case 0
      have "\<not> 1 + bit_length_pos (x div 2) \<le> 0"
        using bit_length_pos_nonneg [of "x div 2"] by linarith
      then show ?thesis using 0 pos step by simp
    next
      case (Suc j)
      have "bit_length_pos (x div 2) \<le> int j \<longleftrightarrow> x div 2 < 2 ^ j"
        using "1.IH" [of j] pos by simp
      then show ?thesis using step Suc by auto
    qed
  qed simp
qed

lemma bit_length_le_iff: "0 \<le> x \<Longrightarrow> bit_length x \<le> int k \<longleftrightarrow> x < 2 ^ k"
  by (simp add: bit_length_def bit_length_pos_le_iff)

lemma bit_length_nonneg [simp]: "0 \<le> bit_length x"
  by (simp add: bit_length_def)

lemma bit_length_0 [simp]: "bit_length 0 = 0"
  by (simp add: bit_length_def)

text \<open>Little-endian digits of a nonnegative number, and \<open>int.to_bytes\<close>.\<close>

fun le_bytes :: "nat \<Rightarrow> int \<Rightarrow> bytes" where
  "le_bytes 0 x = []"
| "le_bytes (Suc w) x = word_of_int x # le_bytes w (x div 256)"

fun from_le_bytes :: "bytes \<Rightarrow> int" where
  "from_le_bytes [] = 0"
| "from_le_bytes (b # bs) = uint b + 256 * from_le_bytes bs"

definition to_bytes_unsigned :: "nat \<Rightarrow> int \<Rightarrow> bytes res" where
  "to_bytes_unsigned w x =
     (if 0 \<le> x \<and> x < 2 ^ (8 * w) then Inr (le_bytes w x) else Inl OverflowError)"

definition to_bytes_signed :: "nat \<Rightarrow> int \<Rightarrow> bytes res" where
  "to_bytes_signed w x =
     (if - (2 ^ (8 * w - 1)) \<le> x \<and> x < 2 ^ (8 * w - 1) then Inr (le_bytes w x)
      else Inl OverflowError)"

lemma length_le_bytes [simp]: "length (le_bytes w x) = w"
  by (induction w arbitrary: x) auto

lemma from_le_bytes_le_bytes: "from_le_bytes (le_bytes w x) = x mod 2 ^ (8 * w)"
proof (induction w arbitrary: x)
  case 0
  show ?case by simp
next
  case (Suc w)
  have "from_le_bytes (le_bytes (Suc w) x) = x mod 256 + 256 * ((x div 256) mod 2 ^ (8 * w))"
    using Suc by (simp add: unsigned_of_int take_bit_eq_mod)
  also have "\<dots> = x mod (256 * 2 ^ (8 * w))"
    by (simp add: zmod_zmult2_eq)
  finally show ?case by (simp add: power_add)
qed

section \<open>Generic lemmas\<close>

lemma take_length_append [simp]: "n = length xs \<Longrightarrow> take n (xs @ ys) = xs"
  by simp

lemma drop_length_append [simp]: "n = length xs \<Longrightarrow> drop n (xs @ ys) = ys"
  by simp

lemma map_of_append_Some [simp]:
  "map_of xs k = Some v \<Longrightarrow> map_of (xs @ ys) k = Some v"
  by (simp add: map_add_def)

lemma int_and_127: "(x :: int) AND 127 = x mod 128"
  using take_bit_eq_mask [of 7 x] by (simp add: take_bit_eq_mod mask_eq_exp_minus_1)

lemma int_mod_128_or_128: "((x :: int) mod 128) OR 128 = x mod 128 + 128"
proof -
  have "(x mod 128) AND 128 = 0"
  proof (rule bit_eqI)
    fix n
    show "bit ((x mod 128) AND 128) n \<longleftrightarrow> bit (0::int) n"
      using bit_take_bit_iff [of 7 x n] bit_exp_iff [of 7 n, where 'a = int]
      by (auto simp: bit_and_iff take_bit_eq_mod)
  qed
  then show ?thesis
    using plus_and_or [of "x mod 128" 128] by simp
qed

end
