(* ===== verification/BcBasic.thy ===== *)
theory BcBasic
  imports Prelude
begin

text \<open>
  \<^verbatim>\<open>_bytecode/basic.py\<close>: the interning tables and the integer encodings every
  other part of the bytecode writer is made of, with a decoder for each encoding.
  The locale \<open>codec\<close> is the contract between an encoding and its decoder, the locale
  \<open>writer\<close> adds the routine that appends the encoding to a buffer; their
  interpretations below serve the type, attribute, operation and file layers.
\<close>

section \<open>Interning tables\<close>

text \<open>
  \<^verbatim>\<open>class Table(dict)\<close>: a dictionary in insertion order whose \<^verbatim>\<open>__missing__\<close> gives
  a new key the next identifier. \<open>start\<close> is the class attribute \<^verbatim>\<open>_starting_id\<close>.
\<close>

type_synonym table = "(bytes \<times> nat) list"

definition table_missing :: "nat \<Rightarrow> bytes \<Rightarrow> table \<Rightarrow> nat \<times> table" where
  "table_missing start k t = (let ret = length t + start in (ret, t @ [(k, ret)]))"

definition table_getitem :: "nat \<Rightarrow> bytes \<Rightarrow> table \<Rightarrow> nat \<times> table" where
  "table_getitem start k t =
     (case map_of t k of Some i \<Rightarrow> (i, t) | None \<Rightarrow> table_missing start k t)"

definition string_table_getitem :: "bytes \<Rightarrow> table \<Rightarrow> nat \<times> table" where
  "string_table_getitem k t = table_getitem 0 k t"

text \<open>Identifiers are consecutive in insertion order and no key occurs twice.\<close>

definition table_wf :: "nat \<Rightarrow> table \<Rightarrow> bool" where
  "table_wf start t \<longleftrightarrow> map snd t = [start ..< start + length t] \<and> distinct (map fst t)"

text \<open>\<open>table_ext t t'\<close>: \<open>t'\<close> is \<open>t\<close> with entries added at the end.\<close>

definition table_ext :: "table \<Rightarrow> table \<Rightarrow> bool" where
  "table_ext t t' \<longleftrightarrow> (\<exists>new. t' = t @ new)"

lemma table_wf_Nil [simp]: "table_wf start []"
  by (simp add: table_wf_def)

lemma table_ext_refl [simp, intro]: "table_ext t t"
  by (simp add: table_ext_def)

lemma table_ext_trans [trans]: "table_ext a b \<Longrightarrow> table_ext b c \<Longrightarrow> table_ext a c"
  by (auto simp: table_ext_def)

lemma table_ext_lookup: "table_ext t t' \<Longrightarrow> map_of t k = Some i \<Longrightarrow> map_of t' k = Some i"
  by (auto simp: table_ext_def)

lemma table_getitem_ext: "table_getitem start k t = (i, t') \<Longrightarrow> table_ext t t'"
  by (auto simp: table_getitem_def table_missing_def table_ext_def Let_def split: option.splits)

lemma table_getitem_wf:
  assumes "table_wf start t" and "table_getitem start k t = (i, t')"
  shows "table_wf start t'"
  using assms
  by (auto simp: table_getitem_def table_missing_def table_wf_def Let_def map_of_eq_None_iff
      split: option.splits)

lemma table_getitem_lookup: "table_getitem start k t = (i, t') \<Longrightarrow> map_of t' k = Some i"
  by (auto simp: table_getitem_def table_missing_def Let_def map_add_def split: option.splits)

lemma table_wf_lookup_nth:
  assumes "table_wf start t" and "map_of t k = Some i"
  shows "start \<le> i \<and> i < start + length t \<and> map fst t ! (i - start) = k"
proof -
  from assms(2) have "(k, i) \<in> set t" by (rule map_of_SomeD)
  then obtain j where j: "j < length t" "t ! j = (k, i)" by (auto simp: in_set_conv_nth)
  from assms(1) have "map snd t ! j = [start ..< start + length t] ! j"
    by (simp add: table_wf_def)
  with j have "i = start + j" by simp
  with j show ?thesis by simp
qed

text \<open>Two different keys of a well-formed table never share an identifier.\<close>

lemma table_wf_inj:
  "table_wf start t \<Longrightarrow> map_of t k = Some i \<Longrightarrow> map_of t k' = Some i \<Longrightarrow> k = k'"
  using table_wf_lookup_nth by metis

section \<open>Variable-length integers\<close>

text \<open>
  The loop of \<^verbatim>\<open>encode_varint\<close>: \<open>n\<close> more times, append seven bits with the
  continuation bit and shift.
\<close>

fun varint_loop :: "nat \<Rightarrow> int \<Rightarrow> bytes \<Rightarrow> (int \<times> bytes) res" where
  "varint_loop 0 x buf = Inr (x, buf)"
| "varint_loop (Suc n) x buf =
     and_then (buf_append ((x AND 127) OR 128) buf)
       (\<lambda>buf. varint_loop n (drop_bit 7 x) buf)"

definition encode_varint :: "int \<Rightarrow> bytes \<Rightarrow> bytes res" where
  "encode_varint x buf =
     and_then (py_assert (0 \<le> x)) (\<lambda>_.
     and_then (varint_loop (nat ((bit_length x - 1) div 7)) x buf) (\<lambda>(x, buf).
     buf_append x buf))"

definition encode_signed_varint :: "int \<Rightarrow> bytes \<Rightarrow> bytes res" where
  "encode_signed_varint x buf =
     (let x = push_bit 1 x; x = (if x < 0 then NOT x else x) in encode_varint x buf)"

definition encode_int_list :: "int list \<Rightarrow> nat \<Rightarrow> bytes \<Rightarrow> bytes res" where
  "encode_int_list lst byte_width buf =
     and_then (encode_varint (int (length lst)) buf)
       (fold_res (\<lambda>x buf. and_then (to_bytes_signed byte_width x)
                               (\<lambda>bs. Inr (buf_extend bs buf))) lst)"

definition encode_varint_list :: "int list \<Rightarrow> bytes \<Rightarrow> bytes res" where
  "encode_varint_list lst buf =
     and_then (encode_varint (int (length lst)) buf) (fold_res encode_varint lst)"

section \<open>Reference encodings and decoders\<close>

fun varint_nat :: "nat \<Rightarrow> bytes" where
  "varint_nat n =
     (if n < 128 then [word_of_nat n]
      else word_of_nat (n mod 128 + 128) # varint_nat (n div 128))"

declare varint_nat.simps [simp del]

definition varint :: "int \<Rightarrow> bytes" where
  "varint x = varint_nat (nat x)"

definition zigzag :: "int \<Rightarrow> int" where
  "zigzag x = (if x < 0 then - 2 * x - 1 else 2 * x)"

definition unzigzag :: "int \<Rightarrow> int" where
  "unzigzag y = (if even y then y div 2 else - ((y + 1) div 2))"

fun dec_varint_nat :: "bytes \<Rightarrow> (nat \<times> bytes) option" where
  "dec_varint_nat [] = None"
| "dec_varint_nat (b # bs) =
     (if unat b < 128 then Some (unat b, bs)
      else case dec_varint_nat bs of
             None \<Rightarrow> None
           | Some (n, r) \<Rightarrow> Some (unat b - 128 + 128 * n, r))"

definition dec_varint :: "bytes \<Rightarrow> (int \<times> bytes) option" where
  "dec_varint bs = map_option (\<lambda>(n, r). (int n, r)) (dec_varint_nat bs)"

definition dec_signed_varint :: "bytes \<Rightarrow> (int \<times> bytes) option" where
  "dec_signed_varint bs = map_option (\<lambda>(n, r). (unzigzag n, r)) (dec_varint bs)"

definition dec_fixed :: "nat \<Rightarrow> bytes \<Rightarrow> (int \<times> bytes) option" where
  "dec_fixed w bs =
     (if length bs < w then None
      else let x = from_le_bytes (take w bs)
           in Some (if x < 2 ^ (8 * w - 1) then x else x - 2 ^ (8 * w), drop w bs))"

fun dec_times :: "(bytes \<Rightarrow> ('a \<times> bytes) option) \<Rightarrow> nat \<Rightarrow> bytes \<Rightarrow> ('a list \<times> bytes) option" where
  "dec_times d 0 bs = Some ([], bs)"
| "dec_times d (Suc n) bs =
     (case d bs of None \<Rightarrow> None
      | Some (x, r) \<Rightarrow> (case dec_times d n r of None \<Rightarrow> None
                      | Some (xs, r') \<Rightarrow> Some (x # xs, r')))"

lemma dec_times_map:
  "(\<And>x r. x \<in> set xs \<Longrightarrow> d (e x @ r) = Some (g x, r)) \<Longrightarrow>
     dec_times d (length xs) (concat (map e xs) @ r) = Some (map g xs, r)"
  by (induction xs) auto

definition dec_counted :: "(bytes \<Rightarrow> ('a \<times> bytes) option) \<Rightarrow> bytes \<Rightarrow> ('a list \<times> bytes) option" where
  "dec_counted d bs =
     (case dec_varint bs of None \<Rightarrow> None | Some (n, r) \<Rightarrow> dec_times d (nat n) r)"

definition enc_counted :: "('a \<Rightarrow> bytes) \<Rightarrow> 'a list \<Rightarrow> bytes" where
  "enc_counted e xs = varint (int (length xs)) @ concat (map e xs)"

section \<open>The encoding contract\<close>

text \<open>
  \<open>dec\<close> reads back what \<open>enc\<close> wrote and stops exactly at its end: encodings can be
  written one after the other with nothing between them.
\<close>

locale codec =
  fixes enc :: "'a \<Rightarrow> bytes"
    and dec :: "bytes \<Rightarrow> ('a \<times> bytes) option"
    and ok :: "'a \<Rightarrow> bool"
  assumes dec_enc: "ok x \<Longrightarrow> dec (enc x @ r) = Some (x, r)"
begin

lemma prefix_free: "ok x \<Longrightarrow> ok y \<Longrightarrow> enc x @ r = enc y @ s \<Longrightarrow> x = y \<and> r = s"
  by (metis dec_enc option.inject prod.inject)

lemma enc_inj: "ok x \<Longrightarrow> ok y \<Longrightarrow> enc x = enc y \<Longrightarrow> x = y"
  using prefix_free [of x y "[]" "[]"] by simp

lemma dec_times_enc:
  "\<forall>x \<in> set xs. ok x \<Longrightarrow> dec_times dec (length xs) (concat (map enc xs) @ r) = Some (xs, r)"
  by (induction xs) (auto simp: dec_enc)

end

text \<open>A buffer routine that appends \<open>enc x\<close> when \<open>ok x\<close> and raises otherwise.\<close>

locale writer = codec enc dec ok
  for enc :: "'a \<Rightarrow> bytes" and dec :: "bytes \<Rightarrow> ('a \<times> bytes) option" and ok :: "'a \<Rightarrow> bool" +
  fixes wr :: "'a \<Rightarrow> bytes \<Rightarrow> bytes res" and err :: "py_error"
  assumes write_ok: "ok x \<Longrightarrow> wr x buf = Inr (buf @ enc x)"
    and write_err: "\<not> ok x \<Longrightarrow> wr x buf = Inl err"
begin

lemma write_eq: "wr x buf = (if ok x then Inr (buf @ enc x) else Inl err)"
  by (simp add: write_ok write_err)

lemma fold_write:
  "fold_res wr xs buf =
     (if \<forall>x \<in> set xs. ok x then Inr (buf @ concat (map enc xs)) else Inl err)"
  by (induction xs arbitrary: buf) (auto simp: write_eq)

lemma write_then_read: "wr x [] = Inr bs \<Longrightarrow> dec (bs @ r) = Some (x, r)"
  by (auto simp: write_eq dec_enc split: if_splits)

end

section \<open>The encoders append their reference encodings\<close>

lemma varint_nat_small: "n < 128 \<Longrightarrow> varint_nat n = [word_of_nat n]"
  by (simp add: varint_nat.simps)

lemma varint_nat_large:
  "\<not> n < 128 \<Longrightarrow> varint_nat n = word_of_nat (n mod 128 + 128) # varint_nat (n div 128)"
  by (simp add: varint_nat.simps [of n])

lemma varint_small [simp]: "0 \<le> x \<Longrightarrow> x < 128 \<Longrightarrow> varint x = [word_of_int x]"
  by (simp add: varint_def varint_nat_small nat_less_iff of_nat_nat)

lemma dec_varint_nat_varint: "dec_varint_nat (varint_nat n @ r) = Some (n, r)"
proof (induction n rule: varint_nat.induct)
  case (1 n)
  show ?case
  proof (cases "n < 128")
    case True
    then show ?thesis by (simp add: varint_nat_small unat_of_nat)
  next
    case False
    have "unat (word_of_nat (n mod 128 + 128) :: byte) = n mod 128 + 128"
      by (simp add: unat_of_nat del: of_nat_add)
    with False 1 show ?thesis
      by (simp add: varint_nat_large del: of_nat_add)
  qed
qed

interpretation vi: codec varint dec_varint "\<lambda>x. 0 \<le> x"
  by unfold_locales (simp add: varint_def dec_varint_def dec_varint_nat_varint)

lemma buf_append_ok: "0 \<le> x \<Longrightarrow> x < 256 \<Longrightarrow> buf_append x buf = Inr (buf @ [word_of_int x])"
  by (simp add: buf_append_def)

lemma varint_step:
  assumes "128 \<le> x"
  shows "varint x = word_of_int (x mod 128 + 128) # varint (x div 128)"
proof -
  have big: "\<not> nat x < 128" using assms by simp
  have "int (nat x mod 128 + 128) = x mod 128 + 128"
    using assms by (simp add: zmod_int)
  then have "(word_of_nat (nat x mod 128 + 128) :: byte) = word_of_int (x mod 128 + 128)"
    by (metis of_int_of_nat_eq)
  moreover have "nat x div 128 = nat (x div 128)"
    using assms by (simp add: nat_div_distrib)
  ultimately show ?thesis
    by (simp add: varint_def varint_nat_large [OF big] del: of_nat_add of_int_add)
qed

lemma varint_loop_eq:
  assumes "0 \<le> x" and "n \<noteq> 0 \<Longrightarrow> 128 ^ n \<le> x" and "x < 128 ^ Suc n"
  shows "and_then (varint_loop n x buf) (\<lambda>(x, buf). buf_append x buf) = Inr (buf @ varint x)"
  using assms
proof (induction n arbitrary: x buf)
  case 0
  then show ?case by (simp add: buf_append_ok)
next
  case (Suc n)
  have pos: "(1::int) \<le> 128 ^ n" by simp
  from Suc.prems(2) have lo: "128 * 128 ^ n \<le> x" by simp
  with pos have big: "128 \<le> x" by linarith
  have "128 ^ n \<le> x div 128" and "x div 128 < 128 ^ Suc n"
    using lo Suc.prems(3) by auto
  then have IH: "and_then (varint_loop n (x div 128) (buf @ [word_of_int (x mod 128 + 128)]))
        (\<lambda>(x, buf). buf_append x buf)
      = Inr ((buf @ [word_of_int (x mod 128 + 128)]) @ varint (x div 128))"
    using Suc.prems(1) by (intro Suc.IH) auto
  have "buf_append ((x AND 127) OR 128) buf = Inr (buf @ [word_of_int (x mod 128 + 128)])"
    by (simp add: int_and_127 int_mod_128_or_128 buf_append_ok
        del: of_int_add)
  moreover have "drop_bit 7 x = x div 128" by (simp add: drop_bit_eq_div)
  ultimately show ?case
    using IH big by (simp add: varint_step del: of_int_add)
qed

lemma varint_groups:
  fixes x :: int
  assumes "0 \<le> x" defines "n \<equiv> nat ((bit_length x - 1) div 7)"
  shows "n \<noteq> 0 \<Longrightarrow> 128 ^ n \<le> x" and "x < 128 ^ Suc n"
proof -
  have pow: "(128::int) ^ k = 2 ^ (7 * k)" for k by (simp add: power_mult)
  have "bit_length x \<le> int (7 * Suc n)" unfolding n_def by auto
  then show "x < 128 ^ Suc n"
    unfolding pow using bit_length_le_iff [OF assms(1)] by blast
  show "128 ^ n \<le> x" if "n \<noteq> 0"
  proof (rule ccontr)
    assume "\<not> 128 ^ n \<le> x"
    then have "bit_length x \<le> int (7 * n)"
      unfolding pow using bit_length_le_iff [OF assms(1), of "7 * n"] by linarith
    with that show False unfolding n_def by linarith
  qed
qed

lemma encode_varint_eq:
  "encode_varint x buf = (if 0 \<le> x then Inr (buf @ varint x) else Inl AssertionError)"
  using varint_loop_eq [OF _ varint_groups, of x buf]
  by (simp add: encode_varint_def)

interpretation vi: writer varint dec_varint "\<lambda>x. 0 \<le> x" encode_varint AssertionError
  by unfold_locales (simp_all add: encode_varint_eq)

lemma zigzag_nonneg [simp]: "0 \<le> zigzag x"
  by (simp add: zigzag_def)

lemma unzigzag_zigzag [simp]: "unzigzag (zigzag x) = x"
  by (auto simp: zigzag_def unzigzag_def)

lemma encode_signed_varint_eq: "encode_signed_varint x buf = Inr (buf @ varint (zigzag x))"
proof -
  have "(if push_bit 1 x < 0 then NOT (push_bit 1 x) else push_bit 1 x) = zigzag x"
    by (simp add: zigzag_def push_bit_eq_mult not_int_def)
  then show ?thesis
    unfolding encode_signed_varint_def Let_def by (simp only: encode_varint_eq zigzag_nonneg if_True)
qed

interpretation sv: writer "\<lambda>x. varint (zigzag x)" dec_signed_varint "\<lambda>_. True"
  encode_signed_varint AssertionError
  by unfold_locales
    (simp_all add: dec_signed_varint_def vi.dec_enc encode_signed_varint_eq)

definition fits_signed :: "nat \<Rightarrow> int \<Rightarrow> bool" where
  "fits_signed w x \<longleftrightarrow> - (2 ^ (8 * w - 1)) \<le> x \<and> x < 2 ^ (8 * w - 1)"

lemma from_le_bytes_signed:
  assumes "0 < w" and "fits_signed w x"
  shows "(let y = from_le_bytes (le_bytes w x)
          in if y < 2 ^ (8 * w - 1) then y else y - 2 ^ (8 * w)) = x"
proof -
  define h :: int where "h = 2 ^ (8 * w - Suc 0)"
  have p: "2 ^ (8 * w) = 2 * h"
    using assms(1) unfolding h_def by (simp flip: power_Suc)
  from assms(2) have b: "- h \<le> x" "x < h" by (simp_all add: fits_signed_def h_def)
  have "x mod (2 * h) = (if x < 0 then x + 2 * h else x)"
  proof (cases "x < 0")
    case True
    have "x mod (2 * h) = (x + 2 * h) mod (2 * h)" by simp
    also have "\<dots> = x + 2 * h" using True b by (intro mod_pos_pos_trivial) auto
    finally show ?thesis using True by simp
  next
    case False
    then show ?thesis using b by simp
  qed
  then show ?thesis using b by (simp add: from_le_bytes_le_bytes Let_def p h_def [symmetric])
qed

lemma fixed_writer:
  "0 < w \<Longrightarrow> writer (le_bytes w) (dec_fixed w) (fits_signed w)
     (\<lambda>x buf. and_then (to_bytes_signed w x) (\<lambda>bs. Inr (buf_extend bs buf))) OverflowError"
  using from_le_bytes_signed [of w]
  by unfold_locales
    (auto simp: dec_fixed_def to_bytes_signed_def fits_signed_def buf_extend_def Let_def)

section \<open>Counted sequences\<close>

text \<open>
  A length followed by the elements: the layout of integer lists, type sequences,
  dictionaries and operand lists. The contract of the elements gives that of the list.
\<close>

context codec
begin

lemma dec_counted_enc:
  "\<forall>x \<in> set xs. ok x \<Longrightarrow> dec_counted dec (enc_counted enc xs @ r) = Some (xs, r)"
  by (simp add: dec_counted_def enc_counted_def vi.dec_enc dec_times_enc)

lemma counted_codec: "codec (enc_counted enc) (dec_counted dec) (\<lambda>xs. \<forall>x \<in> set xs. ok x)"
  by unfold_locales (rule dec_counted_enc)

end

definition write_counted :: "('a \<Rightarrow> bytes \<Rightarrow> bytes res) \<Rightarrow> 'a list \<Rightarrow> bytes \<Rightarrow> bytes res" where
  "write_counted w xs buf =
     and_then (encode_varint (int (length xs)) buf) (fold_res w xs)"

context writer
begin

lemma counted_writer:
  "writer (enc_counted enc) (dec_counted dec) (\<lambda>xs. \<forall>x \<in> set xs. ok x)
     (write_counted wr) err"
  by unfold_locales
    ((rule dec_counted_enc, assumption)
     | simp add: write_counted_def enc_counted_def encode_varint_eq fold_write)+

end

lemma encode_int_list_counted:
  "encode_int_list xs w buf =
     write_counted (\<lambda>x buf. and_then (to_bytes_signed w x) (\<lambda>bs. Inr (buf_extend bs buf))) xs buf"
  by (simp add: encode_int_list_def write_counted_def)

lemma encode_varint_list_counted: "encode_varint_list = write_counted encode_varint"
  by (simp add: fun_eq_iff encode_varint_list_def write_counted_def)

definition int_list_bytes :: "nat \<Rightarrow> int list \<Rightarrow> bytes" where
  "int_list_bytes w xs = enc_counted (le_bytes w) xs"

definition dec_int_list :: "nat \<Rightarrow> bytes \<Rightarrow> (int list \<times> bytes) option" where
  "dec_int_list w = dec_counted (dec_fixed w)"

lemma int_list_writer:
  assumes "0 < w"
  shows "writer (int_list_bytes w) (dec_int_list w) (\<lambda>xs. \<forall>x \<in> set xs. fits_signed w x)
           (\<lambda>xs. encode_int_list xs w) OverflowError"
  using writer.counted_writer [OF fixed_writer [OF assms]]
  by (simp add: int_list_bytes_def [abs_def] dec_int_list_def [abs_def]
      encode_int_list_counted [abs_def])

interpretation il8: writer "int_list_bytes 8" "dec_int_list 8"
  "\<lambda>xs. \<forall>x \<in> set xs. fits_signed 8 x" "\<lambda>xs. encode_int_list xs 8" OverflowError
  by (rule int_list_writer) simp

interpretation il4: writer "int_list_bytes 4" "dec_int_list 4"
  "\<lambda>xs. \<forall>x \<in> set xs. fits_signed 4 x" "\<lambda>xs. encode_int_list xs 4" OverflowError
  by (rule int_list_writer) simp

interpretation il1: writer "int_list_bytes 1" "dec_int_list 1"
  "\<lambda>xs. \<forall>x \<in> set xs. fits_signed 1 x" "\<lambda>xs. encode_int_list xs 1" OverflowError
  by (rule int_list_writer) simp

interpretation vl: writer "enc_counted varint" "dec_counted dec_varint"
  "\<lambda>xs. \<forall>x \<in> set xs. 0 \<le> x" encode_varint_list AssertionError
  unfolding encode_varint_list_counted by (rule vi.counted_writer)

section \<open>Properties of the integer encodings\<close>

text \<open>
  C26. The variable-length encoding of a nonnegative integer is appended to the buffer,
  and decoding it, whatever follows, gives the integer back and leaves what follows.
\<close>

theorem varint_roundtrip:
  assumes "encode_varint x buf = Inr buf'"
  shows "\<exists>bs. buf' = buf @ bs \<and> (\<forall>r. dec_varint (bs @ r) = Some (x, r))"
  using assms vi.dec_enc by (auto simp: encode_varint_eq split: if_splits)

theorem varint_roundtrip_witness:
  "\<exists>bs. [7, 172, 2] = [7] @ bs \<and> (\<forall>r. dec_varint (bs @ r) = Some (300, r))"
  by (rule varint_roundtrip) (simp add: encode_varint_eq varint_step)

end
