(* ===== verification/BcType.thy ===== *)
theory BcType
  imports BcBasic
begin

text \<open>
  \<^verbatim>\<open>_bytecode/version.py\<close>, \<^verbatim>\<open>type_base.py\<close> and \<^verbatim>\<open>type.py\<close>: bytecode versions and the type
  table, which interns the byte encoding of a type. A type description with its own
  encoding and decoder specifies the table: the identifiers are canonical.
\<close>

section \<open>Versions\<close>

datatype bytecode_version = V_13_1 | V_13_2 | V_13_3 | V_13_4

fun version_value :: "bytecode_version \<Rightarrow> int" where
  "version_value V_13_1 = 130100"
| "version_value V_13_2 = 130200"
| "version_value V_13_3 = 130300"
| "version_value V_13_4 = 130400"

definition version_major :: "bytecode_version \<Rightarrow> int" where
  "version_major v = version_value v div 10000"

definition version_minor :: "bytecode_version \<Rightarrow> int" where
  "version_minor v = (version_value v div 100) mod 100"

definition version_tag :: "bytecode_version \<Rightarrow> int" where
  "version_tag v = version_value v mod 100"

text \<open>The enumeration is an \<^verbatim>\<open>IntEnum\<close>: versions compare by their values.\<close>

instantiation bytecode_version :: linorder
begin

definition less_eq_bytecode_version :: "bytecode_version \<Rightarrow> bytecode_version \<Rightarrow> bool" where
  "less_eq_bytecode_version a b \<longleftrightarrow> version_value a \<le> version_value b"

definition less_bytecode_version :: "bytecode_version \<Rightarrow> bytecode_version \<Rightarrow> bool" where
  "less_bytecode_version a b \<longleftrightarrow> version_value a < version_value b"

instance
proof
  fix a b :: bytecode_version
  show "a \<le> b \<Longrightarrow> b \<le> a \<Longrightarrow> a = b"
    by (cases a; cases b) (simp_all add: less_eq_bytecode_version_def)
qed (auto simp: less_eq_bytecode_version_def less_bytecode_version_def)

end

lemma version_le_simps [simp]:
  "V_13_4 \<le> v \<longleftrightarrow> v = V_13_4"
  "V_13_3 \<le> v \<longleftrightarrow> v = V_13_3 \<or> v = V_13_4"
  "V_13_2 \<le> v \<longleftrightarrow> v \<noteq> V_13_1"
  by (cases v; simp add: less_eq_bytecode_version_def)+

section \<open>Type identifiers and the enumerations of the type encoding\<close>

datatype TypeId = TypeId (type_id: nat)

datatype PaddingValue =
    PadMissing | PadZero | PadNegZero | PadNan | PadPosInf | PadNegInf

fun PaddingValue_value :: "PaddingValue \<Rightarrow> bytes" where
  "PaddingValue_value PadMissing = []"
| "PaddingValue_value PadZero = [0]"
| "PaddingValue_value PadNegZero = [1]"
| "PaddingValue_value PadNan = [2]"
| "PaddingValue_value PadPosInf = [3]"
| "PaddingValue_value PadNegInf = [4]"

datatype PtrAttr = PtrMissing | PtrDefault | PtrUnicast | PtrMulticast

fun PtrAttr_value :: "PtrAttr \<Rightarrow> bytes" where
  "PtrAttr_value PtrMissing = []"
| "PtrAttr_value PtrDefault = [0]"
| "PtrAttr_value PtrUnicast = [1]"
| "PtrAttr_value PtrMulticast = [2]"

definition encode_typeid :: "TypeId \<Rightarrow> bytes \<Rightarrow> bytes res" where
  "encode_typeid t buf = encode_varint (int (type_id t)) buf"

definition encode_sized_typeid_seq :: "TypeId list \<Rightarrow> bytes \<Rightarrow> bytes res" where
  "encode_sized_typeid_seq ts buf =
     and_then (encode_varint (int (length ts)) buf)
       (fold_res (\<lambda>t. encode_varint (int (type_id t))) ts)"

datatype SimpleType =
    I1 | I8 | I16 | I32 | I64 | F16 | BF16 | F32 | TF32 | F64 | F8E4M3FN | F8E5M2
  | Token | F8E8M0FNU | F4E2M1FN | I4

fun SimpleType_value :: "SimpleType \<Rightarrow> bytes" where
  "SimpleType_value I1 = [0x00]"
| "SimpleType_value I8 = [0x01]"
| "SimpleType_value I16 = [0x02]"
| "SimpleType_value I32 = [0x03]"
| "SimpleType_value I64 = [0x04]"
| "SimpleType_value F16 = [0x05]"
| "SimpleType_value BF16 = [0x06]"
| "SimpleType_value F32 = [0x07]"
| "SimpleType_value TF32 = [0x08]"
| "SimpleType_value F64 = [0x09]"
| "SimpleType_value F8E4M3FN = [0x0a]"
| "SimpleType_value F8E5M2 = [0x0b]"
| "SimpleType_value Token = [0x11]"
| "SimpleType_value F8E8M0FNU = [0x12]"
| "SimpleType_value F4E2M1FN = [0x13]"
| "SimpleType_value I4 = [0x16]"

datatype CompositeType =
    CPointer | CTile | CTensorView | CPartitionView | CFunction | CGatherScatterView | CStridedView

fun CompositeType_value :: "CompositeType \<Rightarrow> bytes" where
  "CompositeType_value CPointer = [0x0c]"
| "CompositeType_value CTile = [0x0d]"
| "CompositeType_value CTensorView = [0x0e]"
| "CompositeType_value CPartitionView = [0x0f]"
| "CompositeType_value CFunction = [0x10]"
| "CompositeType_value CGatherScatterView = [0x14]"
| "CompositeType_value CStridedView = [0x15]"

definition I1_TYPE_ID :: TypeId where "I1_TYPE_ID = TypeId 0"
definition I32_TYPE_ID :: TypeId where "I32_TYPE_ID = TypeId 1"

section \<open>The type table\<close>

record type_table =
  tt_version :: bytecode_version
  tt_items :: table

definition type_table_getitem :: "bytes \<Rightarrow> type_table \<Rightarrow> TypeId \<times> type_table" where
  "type_table_getitem k tt =
     (let (i, items) = table_getitem 0 k (tt_items tt) in (TypeId i, tt\<lparr>tt_items := items\<rparr>))"

definition predefine :: "bytes \<Rightarrow> TypeId \<Rightarrow> type_table \<Rightarrow> type_table res" where
  "predefine tag expected_id tt =
     (let (t, tt) = type_table_getitem tag tt
      in if type_id t \<noteq> type_id expected_id then Inl RuntimeError else Inr tt)"

definition type_table_init :: "bytecode_version \<Rightarrow> type_table res" where
  "type_table_init version =
     run_steps [predefine (SimpleType_value I1) I1_TYPE_ID, predefine (SimpleType_value I32) I32_TYPE_ID]
       \<lparr>tt_version = version, tt_items = []\<rparr>"

definition tt_simple :: "SimpleType \<Rightarrow> type_table \<Rightarrow> TypeId \<times> type_table" where
  "tt_simple t tt = type_table_getitem (SimpleType_value t) tt"

text \<open>A type whose encoding is assembled in a fresh buffer and then looked up.\<close>

definition intern_built :: "bytes res \<Rightarrow> type_table \<Rightarrow> (TypeId \<times> type_table) res" where
  "intern_built m tt = and_then m (\<lambda>buf. Inr (type_table_getitem buf tt))"

text \<open>The last part of the pointer and tensor view encodings: the pointer attribute.\<close>

definition append_ptr_attr :: "bytecode_version \<Rightarrow> PtrAttr \<Rightarrow> bytes \<Rightarrow> bytes res" where
  "append_ptr_attr version ptrAttr buf =
     (if version \<ge> V_13_4 then Inr (buf_extend (PtrAttr_value ptrAttr) buf)
      else if ptrAttr \<noteq> PtrMissing then Inl ValueError
      else Inr buf)"

definition tt_pointer :: "TypeId \<Rightarrow> PtrAttr \<Rightarrow> type_table \<Rightarrow> (TypeId \<times> type_table) res" where
  "tt_pointer pointeeType ptrAttr tt =
     (let use_unified_bitfield = (tt_version tt \<ge> V_13_3);
          optional_flags = (if ptrAttr \<noteq> PtrMissing then 1 else 0)
      in intern_built
        (run_steps
          [\<lambda>buf. if tt_version tt \<ge> V_13_4 \<and> use_unified_bitfield
                 then encode_varint optional_flags buf else Inr buf,
           encode_varint (int (type_id pointeeType)),
           append_ptr_attr (tt_version tt) ptrAttr]
          (CompositeType_value CPointer)) tt)"

definition tt_tile :: "TypeId \<Rightarrow> int list \<Rightarrow> type_table \<Rightarrow> (TypeId \<times> type_table) res" where
  "tt_tile elementType shape tt =
     intern_built
       (run_steps
         [encode_varint (int (type_id elementType)),
          encode_int_list shape 8]
         (CompositeType_value CTile)) tt"

definition tt_tensor_view ::
  "TypeId \<Rightarrow> int list \<Rightarrow> int list \<Rightarrow> PtrAttr \<Rightarrow> type_table \<Rightarrow> (TypeId \<times> type_table) res" where
  "tt_tensor_view elementType shape strides ptrAttr tt =
     (let use_unified_bitfield = (tt_version tt \<ge> V_13_3);
          optional_flags = (if ptrAttr \<noteq> PtrMissing then 1 else 0)
      in intern_built
        (run_steps
          [\<lambda>buf. if tt_version tt \<ge> V_13_4 \<and> use_unified_bitfield
                 then encode_varint optional_flags buf else Inr buf,
           encode_varint (int (type_id elementType)),
           encode_int_list shape 8,
           encode_int_list strides 8,
           append_ptr_attr (tt_version tt) ptrAttr]
          (CompositeType_value CTensorView)) tt)"

definition tt_partition_view ::
  "int list \<Rightarrow> TypeId \<Rightarrow> int list \<Rightarrow> PaddingValue \<Rightarrow> type_table \<Rightarrow> (TypeId \<times> type_table) res" where
  "tt_partition_view tile_shape tensor_view dim_map padding_value tt =
     (let use_unified_bitfield = (tt_version tt \<ge> V_13_3);
          optional_flags = (if padding_value \<noteq> PadMissing then 1 else 0)
      in intern_built
        (run_steps
          [\<lambda>buf. if use_unified_bitfield then encode_varint optional_flags buf else Inr buf,
           encode_int_list tile_shape 4,
           encode_varint (int (type_id tensor_view)),
           encode_int_list dim_map 4,
           \<lambda>buf. if use_unified_bitfield then Inr (buf_extend (PaddingValue_value padding_value) buf)
                 else and_then (encode_varint (of_bool (padding_value \<noteq> PadMissing)) buf)
                        (\<lambda>buf. Inr (buf_extend (PaddingValue_value padding_value) buf))]
          (CompositeType_value CPartitionView)) tt)"

definition tt_gather_scatter_view ::
  "int list \<Rightarrow> TypeId \<Rightarrow> int \<Rightarrow> PaddingValue \<Rightarrow> type_table \<Rightarrow> (TypeId \<times> type_table) res" where
  "tt_gather_scatter_view tile_shape tensor_view sparse_dim padding_value tt =
     (let optional_flags = (if padding_value \<noteq> PadMissing then 1 else 0)
      in intern_built
        (run_steps
          [encode_varint optional_flags,
           encode_int_list tile_shape 4,
           encode_varint (int (type_id tensor_view)),
           encode_varint sparse_dim,
           \<lambda>buf. Inr (buf_extend (PaddingValue_value padding_value) buf)]
          (CompositeType_value CGatherScatterView)) tt)"

definition tt_strided_view ::
  "int list \<Rightarrow> int list \<Rightarrow> TypeId \<Rightarrow> int list \<Rightarrow> PaddingValue \<Rightarrow> type_table \<Rightarrow> (TypeId \<times> type_table) res" where
  "tt_strided_view tile_shape traversal_strides tensor_view dim_map padding_value tt =
     (let optional_flags = (if padding_value \<noteq> PadMissing then 1 else 0)
      in intern_built
        (run_steps
          [encode_varint optional_flags,
           encode_int_list tile_shape 4,
           encode_int_list traversal_strides 4,
           encode_varint (int (type_id tensor_view)),
           encode_int_list dim_map 4,
           \<lambda>buf. Inr (buf_extend (PaddingValue_value padding_value) buf)]
          (CompositeType_value CStridedView)) tt)"

definition tt_function :: "TypeId list \<Rightarrow> TypeId list \<Rightarrow> type_table \<Rightarrow> (TypeId \<times> type_table) res" where
  "tt_function parameter_types result_types tt =
     intern_built
       (run_steps
         [encode_sized_typeid_seq parameter_types,
          encode_sized_typeid_seq result_types]
         (CompositeType_value CFunction)) tt"

section \<open>The specification: type descriptions\<close>

text \<open>
  What a caller of the type table asks for, the bytes the table interns for it, and a
  decoder of those bytes.
\<close>

datatype type_desc =
    DSimple SimpleType
  | DPointer TypeId PtrAttr
  | DTile TypeId "int list"
  | DTensorView TypeId "int list" "int list" PtrAttr
  | DPartitionView "int list" TypeId "int list" PaddingValue
  | DGatherScatterView "int list" TypeId int PaddingValue
  | DStridedView "int list" "int list" TypeId "int list" PaddingValue
  | DFunction "TypeId list" "TypeId list"

fun intern_type :: "type_desc \<Rightarrow> type_table \<Rightarrow> (TypeId \<times> type_table) res" where
  "intern_type (DSimple t) tt = Inr (tt_simple t tt)"
| "intern_type (DPointer p a) tt = tt_pointer p a tt"
| "intern_type (DTile e sh) tt = tt_tile e sh tt"
| "intern_type (DTensorView e sh st a) tt = tt_tensor_view e sh st a tt"
| "intern_type (DPartitionView sh v dm p) tt = tt_partition_view sh v dm p tt"
| "intern_type (DGatherScatterView sh v d p) tt = tt_gather_scatter_view sh v d p tt"
| "intern_type (DStridedView sh st v dm p) tt = tt_strided_view sh st v dm p tt"
| "intern_type (DFunction ps rs) tt = tt_function ps rs tt"

definition typeid_bytes :: "TypeId \<Rightarrow> bytes" where
  "typeid_bytes t = varint (int (type_id t))"

definition dec_typeid :: "bytes \<Rightarrow> (TypeId \<times> bytes) option" where
  "dec_typeid bs = map_option (\<lambda>(n, r). (TypeId (nat n), r)) (dec_varint bs)"

interpretation tid: writer typeid_bytes dec_typeid "\<lambda>_. True" encode_typeid AssertionError
  by unfold_locales
    (simp_all add: typeid_bytes_def dec_typeid_def vi.dec_enc encode_typeid_def encode_varint_eq)

lemma encode_sized_typeid_seq_counted: "encode_sized_typeid_seq = write_counted encode_typeid"
  by (simp add: fun_eq_iff encode_sized_typeid_seq_def write_counted_def encode_typeid_def [abs_def])

interpretation tids: writer "enc_counted typeid_bytes" "dec_counted dec_typeid"
  "\<lambda>ts. \<forall>t \<in> set ts. True" encode_sized_typeid_seq AssertionError
  unfolding encode_sized_typeid_seq_counted by (rule tid.counted_writer)

definition flag_bytes :: "bool \<Rightarrow> bool \<Rightarrow> bytes" where
  "flag_bytes present b = (if present then varint (of_bool b) else [])"

fun type_bytes :: "bytecode_version \<Rightarrow> type_desc \<Rightarrow> bytes" where
  "type_bytes v (DSimple t) = SimpleType_value t"
| "type_bytes v (DPointer p a) =
     [0x0c] @ flag_bytes (V_13_4 \<le> v) (a \<noteq> PtrMissing) @ typeid_bytes p @ PtrAttr_value a"
| "type_bytes v (DTile e sh) = [0x0d] @ typeid_bytes e @ int_list_bytes 8 sh"
| "type_bytes v (DTensorView e sh st a) =
     [0x0e] @ flag_bytes (V_13_4 \<le> v) (a \<noteq> PtrMissing) @ typeid_bytes e
     @ int_list_bytes 8 sh @ int_list_bytes 8 st @ PtrAttr_value a"
| "type_bytes v (DPartitionView sh t dm p) =
     [0x0f] @ flag_bytes (V_13_3 \<le> v) (p \<noteq> PadMissing) @ int_list_bytes 4 sh @ typeid_bytes t
     @ int_list_bytes 4 dm @ flag_bytes (\<not> V_13_3 \<le> v) (p \<noteq> PadMissing) @ PaddingValue_value p"
| "type_bytes v (DGatherScatterView sh t d p) =
     [0x14] @ flag_bytes True (p \<noteq> PadMissing) @ int_list_bytes 4 sh @ typeid_bytes t
     @ varint d @ PaddingValue_value p"
| "type_bytes v (DStridedView sh st t dm p) =
     [0x15] @ flag_bytes True (p \<noteq> PadMissing) @ int_list_bytes 4 sh @ int_list_bytes 4 st
     @ typeid_bytes t @ int_list_bytes 4 dm @ PaddingValue_value p"
| "type_bytes v (DFunction ps rs) =
     [0x10] @ enc_counted typeid_bytes ps @ enc_counted typeid_bytes rs"

abbreviation fits_all :: "nat \<Rightarrow> int list \<Rightarrow> bool" where
  "fits_all w xs \<equiv> \<forall>x \<in> set xs. fits_signed w x"

fun type_ok :: "bytecode_version \<Rightarrow> type_desc \<Rightarrow> bool" where
  "type_ok v (DSimple t) = True"
| "type_ok v (DPointer p a) = (V_13_4 \<le> v \<or> a = PtrMissing)"
| "type_ok v (DTile e sh) = fits_all 8 sh"
| "type_ok v (DTensorView e sh st a) =
     (fits_all 8 sh \<and> fits_all 8 st \<and> (V_13_4 \<le> v \<or> a = PtrMissing))"
| "type_ok v (DPartitionView sh t dm p) = (fits_all 4 sh \<and> fits_all 4 dm)"
| "type_ok v (DGatherScatterView sh t d p) = (fits_all 4 sh \<and> 0 \<le> d)"
| "type_ok v (DStridedView sh st t dm p) = (fits_all 4 sh \<and> fits_all 4 st \<and> fits_all 4 dm)"
| "type_ok v (DFunction ps rs) = True"

definition dec_ptr_attr :: "bytes \<Rightarrow> PtrAttr option" where
  "dec_ptr_attr bs =
     find (\<lambda>a. PtrAttr_value a = bs) [PtrMissing, PtrDefault, PtrUnicast, PtrMulticast]"

definition dec_padding :: "bytes \<Rightarrow> PaddingValue option" where
  "dec_padding bs =
     find (\<lambda>p. PaddingValue_value p = bs)
       [PadMissing, PadZero, PadNegZero, PadNan, PadPosInf, PadNegInf]"

definition dec_simple :: "bytes \<Rightarrow> SimpleType option" where
  "dec_simple bs =
     find (\<lambda>t. SimpleType_value t = bs)
       [I1, I8, I16, I32, I64, F16, BF16, F32, TF32, F64, F8E4M3FN, F8E5M2, Token,
        F8E8M0FNU, F4E2M1FN, I4]"

definition dec_flag :: "bool \<Rightarrow> bytes \<Rightarrow> bytes option" where
  "dec_flag present bs = (if present then map_option snd (dec_varint bs) else Some bs)"

definition dec_type_body :: "bytecode_version \<Rightarrow> byte \<Rightarrow> bytes \<Rightarrow> type_desc option" where
  "dec_type_body v tag bs =
     (if tag = 0x0c then
        Option.bind (dec_flag (V_13_4 \<le> v) bs) (\<lambda>bs. Option.bind (dec_typeid bs) (\<lambda>(p, bs).
        map_option (DPointer p) (dec_ptr_attr bs)))
      else if tag = 0x0d then
        Option.bind (dec_typeid bs) (\<lambda>(e, bs). Option.bind (dec_int_list 8 bs) (\<lambda>(sh, bs).
        Some (DTile e sh)))
      else if tag = 0x0e then
        Option.bind (dec_flag (V_13_4 \<le> v) bs) (\<lambda>bs. Option.bind (dec_typeid bs) (\<lambda>(e, bs).
        Option.bind (dec_int_list 8 bs) (\<lambda>(sh, bs). Option.bind (dec_int_list 8 bs) (\<lambda>(st, bs).
        map_option (DTensorView e sh st) (dec_ptr_attr bs)))))
      else if tag = 0x0f then
        Option.bind (dec_flag (V_13_3 \<le> v) bs) (\<lambda>bs. Option.bind (dec_int_list 4 bs) (\<lambda>(sh, bs).
        Option.bind (dec_typeid bs) (\<lambda>(t, bs). Option.bind (dec_int_list 4 bs) (\<lambda>(dm, bs).
        Option.bind (dec_flag (\<not> V_13_3 \<le> v) bs) (\<lambda>bs.
        map_option (DPartitionView sh t dm) (dec_padding bs))))))
      else if tag = 0x14 then
        Option.bind (dec_flag True bs) (\<lambda>bs. Option.bind (dec_int_list 4 bs) (\<lambda>(sh, bs).
        Option.bind (dec_typeid bs) (\<lambda>(t, bs). Option.bind (dec_varint bs) (\<lambda>(d, bs).
        map_option (DGatherScatterView sh t d) (dec_padding bs)))))
      else if tag = 0x15 then
        Option.bind (dec_flag True bs) (\<lambda>bs. Option.bind (dec_int_list 4 bs) (\<lambda>(sh, bs).
        Option.bind (dec_int_list 4 bs) (\<lambda>(st, bs). Option.bind (dec_typeid bs) (\<lambda>(t, bs).
        Option.bind (dec_int_list 4 bs) (\<lambda>(dm, bs).
        map_option (DStridedView sh st t dm) (dec_padding bs))))))
      else if tag = 0x10 then
        Option.bind (dec_counted dec_typeid bs) (\<lambda>(ps, bs).
        Option.bind (dec_counted dec_typeid bs) (\<lambda>(rs, bs). Some (DFunction ps rs)))
      else None)"

definition dec_type :: "bytecode_version \<Rightarrow> bytes \<Rightarrow> type_desc option" where
  "dec_type v bs =
     (case dec_simple bs of Some t \<Rightarrow> Some (DSimple t)
      | None \<Rightarrow> (case bs of [] \<Rightarrow> None | b # r \<Rightarrow> dec_type_body v b r))"

section \<open>Encodings of types decode\<close>

lemma dec_ptr_attr_value [simp]: "dec_ptr_attr (PtrAttr_value a) = Some a"
  by (cases a) (simp_all add: dec_ptr_attr_def)

lemma dec_padding_value [simp]: "dec_padding (PaddingValue_value p) = Some p"
  by (cases p) (simp_all add: dec_padding_def)

lemma dec_simple_value [simp]: "dec_simple (SimpleType_value t) = Some t"
  by (cases t) (simp_all add: dec_simple_def)

lemma dec_simple_composite:
  "dec_simple (0x0c # r) = None" "dec_simple (0x0d # r) = None" "dec_simple (0x0e # r) = None"
  "dec_simple (0x0f # r) = None" "dec_simple (0x10 # r) = None" "dec_simple (0x14 # r) = None"
  "dec_simple (0x15 # r) = None"
  by (simp_all add: dec_simple_def)

lemma dec_flag_bytes [simp]: "dec_flag present (flag_bytes present b @ r) = Some r"
proof -
  have "dec_varint (varint (of_bool b) @ r) = Some (of_bool b, r)"
    by (rule vi.dec_enc) simp
  then show ?thesis by (simp add: dec_flag_def flag_bytes_def del: varint_small of_bool_eq_iff)
qed

lemmas type_dec_simps =
  tid.dec_enc il8.dec_enc il4.dec_enc vi.dec_enc tids.dec_enc
  il8.dec_enc [where r = "[]", simplified] il4.dec_enc [where r = "[]", simplified]
  tids.dec_enc [where r = "[]", simplified]

lemma dec_type_bytes: "type_ok v d \<Longrightarrow> dec_type v (type_bytes v d) = Some d"
  by (cases d)
    (simp_all add: dec_type_def dec_simple_composite dec_type_body_def type_dec_simps)

section \<open>The table implements the specification\<close>

lemma encode_varint_typeid: "encode_varint (int (type_id t)) buf = Inr (buf @ typeid_bytes t)"
  by (simp add: encode_varint_eq typeid_bytes_def)

lemma encode_flag: "encode_varint (of_bool b) buf = Inr (buf @ varint (of_bool b))"
  by (simp add: encode_varint_eq del: varint_small)

lemma append_ptr_attr_eq:
  "append_ptr_attr v a buf =
     (if V_13_4 \<le> v \<or> a = PtrMissing then Inr (buf @ PtrAttr_value a) else Inl ValueError)"
  by (simp add: append_ptr_attr_def buf_extend_def)

lemmas type_write_simps =
  typeid_bytes_def encode_flag append_ptr_attr_eq il8.write_eq il4.write_eq
  tids.write_eq encode_varint_eq buf_extend_def intern_built_def Let_def flag_bytes_def
  if_distrib [of encode_varint] and_then_def

lemma intern_type_ok:
  "type_ok (tt_version tt) d \<Longrightarrow>
     intern_type d tt = Inr (type_table_getitem (type_bytes (tt_version tt) d) tt)"
  by (cases d)
    (auto simp: tt_simple_def tt_pointer_def tt_tile_def tt_tensor_view_def
      tt_partition_view_def tt_gather_scatter_view_def tt_strided_view_def tt_function_def
      type_write_simps)

lemma intern_type_error:
  "\<not> type_ok (tt_version tt) d \<Longrightarrow>
     \<exists>e \<in> {ValueError, OverflowError, AssertionError}. intern_type d tt = Inl e"
  by (cases d)
    (auto simp: tt_simple_def tt_pointer_def tt_tile_def tt_tensor_view_def
      tt_partition_view_def tt_gather_scatter_view_def tt_strided_view_def tt_function_def
      type_write_simps)

lemma intern_type_Inr_iff:
  "intern_type d tt = Inr r \<longleftrightarrow>
     type_ok (tt_version tt) d \<and> r = type_table_getitem (type_bytes (tt_version tt) d) tt"
proof (cases "type_ok (tt_version tt) d")
  case True
  then show ?thesis by (auto simp: intern_type_ok)
next
  case False
  then show ?thesis using intern_type_error [OF False] by auto
qed

lemma type_table_getitem_version: "type_table_getitem k tt = (t, tt') \<Longrightarrow> tt_version tt' = tt_version tt"
  by (auto simp: type_table_getitem_def split: prod.splits)

lemma type_table_getitem_items:
  "type_table_getitem k tt = (t, tt') \<Longrightarrow>
     table_getitem 0 k (tt_items tt) = (type_id t, tt_items tt')"
  by (auto simp: type_table_getitem_def split: prod.splits)

definition type_table_wf :: "type_table \<Rightarrow> bool" where
  "type_table_wf tt \<longleftrightarrow> table_wf 0 (tt_items tt)"

definition type_table_ext :: "type_table \<Rightarrow> type_table \<Rightarrow> bool" where
  "type_table_ext tt tt' \<longleftrightarrow> tt_version tt' = tt_version tt \<and> table_ext (tt_items tt) (tt_items tt')"

lemma type_table_getitem_wf:
  "type_table_wf tt \<Longrightarrow> type_table_getitem k tt = (t, tt') \<Longrightarrow> type_table_wf tt'"
  by (auto simp: type_table_wf_def dest!: type_table_getitem_items intro: table_getitem_wf)

lemma intern_type_table:
  assumes "intern_type d tt = Inr (t, tt')"
  shows "type_table_ext tt tt'"
    and "map_of (tt_items tt') (type_bytes (tt_version tt) d) = Some (type_id t)"
    and "type_table_wf tt \<Longrightarrow> type_table_wf tt'"
proof -
  from assms have get: "type_table_getitem (type_bytes (tt_version tt) d) tt = (t, tt')"
    by (simp add: intern_type_Inr_iff)
  note items = type_table_getitem_items [OF get]
  show "type_table_ext tt tt'"
    using type_table_getitem_version [OF get] table_getitem_ext [OF items]
    by (simp add: type_table_ext_def)
  show "map_of (tt_items tt') (type_bytes (tt_version tt) d) = Some (type_id t)"
    by (rule table_getitem_lookup [OF items])
  show "type_table_wf tt \<Longrightarrow> type_table_wf tt'"
    using type_table_getitem_wf [OF _ get] by blast
qed

lemma type_bytes_inj:
  "type_ok v d \<Longrightarrow> type_ok v d' \<Longrightarrow> type_bytes v d = type_bytes v d' \<longleftrightarrow> d = d'"
  by (metis dec_type_bytes option.inject)

lemma type_table_init_eq:
  "type_table_init v = Inr \<lparr>tt_version = v, tt_items = [([0], 0), ([3], 1)]\<rparr>"
  by (simp add: type_table_init_def predefine_def type_table_getitem_def table_getitem_def
      table_missing_def I1_TYPE_ID_def I32_TYPE_ID_def)

section \<open>Properties of the type table\<close>

text \<open>
  C25. Type identifiers are canonical: in one table, two requests, the second any number of
  requests after the first, get the same identifier exactly when they describe the same type.
\<close>

theorem type_ids_canonical:
  assumes "type_table_wf tt" and "intern_type d tt = Inr (t, tt1)"
    and "type_table_wf tt2" and "type_table_ext tt1 tt2"
    and "intern_type d' tt2 = Inr (t', tt3)"
  shows "t = t' \<longleftrightarrow> d = d'"
proof -
  let ?v = "tt_version tt"
  have v: "tt_version tt1 = ?v" "tt_version tt2 = ?v"
    using intern_type_table(1) [OF assms(2)] assms(4) by (simp_all add: type_table_ext_def)
  have ext: "table_ext (tt_items tt1) (tt_items tt3)"
    using assms(4) intern_type_table(1) [OF assms(5)]
    by (auto simp: type_table_ext_def intro: table_ext_trans)
  have l1: "map_of (tt_items tt3) (type_bytes ?v d) = Some (type_id t)"
    using ext intern_type_table(2) [OF assms(2)] by (rule table_ext_lookup)
  have l2: "map_of (tt_items tt3) (type_bytes ?v d') = Some (type_id t')"
    using intern_type_table(2) [OF assms(5)] by (simp add: v)
  have wf: "table_wf 0 (tt_items tt3)"
    using intern_type_table(3) [OF assms(5,3)] by (simp add: type_table_wf_def)
  have ok: "type_ok ?v d" "type_ok ?v d'"
    using assms(2,5) by (simp_all add: intern_type_Inr_iff v)
  have "type_id t = type_id t' \<longleftrightarrow> type_bytes ?v d = type_bytes ?v d'"
    using l1 l2 table_wf_inj [OF wf l1] by (metis option.inject)
  then show ?thesis using type_bytes_inj [OF ok] TypeId.expand [of t t'] by auto
qed

definition sample_type_table :: type_table where
  "sample_type_table = \<lparr>tt_version = V_13_3, tt_items = [([0], 0), ([3], 1)]\<rparr>"

theorem type_ids_canonical_witness:
  "(TypeId 2 = TypeId 3) = (DTile (TypeId 1) [16] = DTile (TypeId 1) [16, 4])"
proof -
  let ?tt1 = "sample_type_table\<lparr>tt_items := [([0], 0), ([3], 1),
     ([0x0d, 1, 1, 16, 0, 0, 0, 0, 0, 0, 0], 2)]\<rparr>"
  let ?tt3 = "sample_type_table\<lparr>tt_items := [([0], 0), ([3], 1),
     ([0x0d, 1, 1, 16, 0, 0, 0, 0, 0, 0, 0], 2),
     ([0x0d, 1, 2, 16, 0, 0, 0, 0, 0, 0, 0, 4, 0, 0, 0, 0, 0, 0, 0], 3)]\<rparr>"
  have "type_table_wf sample_type_table" "type_table_wf ?tt1"
    by code_simp+
  moreover have "intern_type (DTile (TypeId 1) [16]) sample_type_table = Inr (TypeId 2, ?tt1)"
    by code_simp
  moreover have "intern_type (DTile (TypeId 1) [16, 4]) ?tt1 = Inr (TypeId 3, ?tt3)"
    by code_simp
  ultimately show ?thesis
    by (intro type_ids_canonical [where tt = sample_type_table and ?tt1.0 = ?tt1 and ?tt2.0 = ?tt1
          and ?tt3.0 = ?tt3])
      (simp_all add: type_table_ext_def)
qed

end
