(* ===== verification/BcFloat.thy ===== *)
theory BcFloat
  imports BcType
begin

text \<open>
  \<^verbatim>\<open>_bytecode/float.py\<close>: conversion of a Python float to the bit pattern of a target
  format and back. A Python float is its IEEE binary64 pattern (an \<open>int\<close> below \<open>2 ^ 64\<close>,
  what \<^verbatim>\<open>struct.pack("<d")\<close> gives). The conversion's float operations (frexp, ldexp, scaling by
  a power of two, subtraction of 1.0 from a value in [1, 2)) are exact on binary64: a finite
  value is modelled as a numerator over a power of two and the operations act on the pair.
\<close>

section \<open>Formats\<close>

datatype NonFiniteBehavior = IEEE | NanOnlyAllOnes | FiniteOnly

record FloatSpec =
  bitwidth :: nat
  emin :: int
  emax :: int
  exp_bits :: nat
  precision :: nat
  non_finite_behavior :: NonFiniteBehavior
  have_sign :: bool
  have_zero_and_subnormals :: bool

definition ieee_spec :: "nat \<Rightarrow> int \<Rightarrow> int \<Rightarrow> nat \<Rightarrow> nat \<Rightarrow> NonFiniteBehavior \<Rightarrow> FloatSpec" where
  "ieee_spec bw lo hi eb p nf =
     \<lparr>bitwidth = bw, emin = lo, emax = hi, exp_bits = eb, precision = p,
      non_finite_behavior = nf, have_sign = True, have_zero_and_subnormals = True\<rparr>"

fun float_specs :: "SimpleType \<Rightarrow> FloatSpec option" where
  "float_specs F16 = Some (ieee_spec 16 (-14) 15 5 10 IEEE)"
| "float_specs BF16 = Some (ieee_spec 16 (-126) 127 8 7 IEEE)"
| "float_specs F32 = Some (ieee_spec 32 (-126) 127 8 23 IEEE)"
| "float_specs TF32 = Some (ieee_spec 19 (-126) 127 8 10 IEEE)"
| "float_specs F8E4M3FN = Some (ieee_spec 8 (-6) 8 4 3 NanOnlyAllOnes)"
| "float_specs F8E5M2 = Some (ieee_spec 8 (-14) 15 5 2 IEEE)"
| "float_specs F8E8M0FNU =
     Some ((ieee_spec 8 (-127) 127 8 0 NanOnlyAllOnes)
       \<lparr>have_sign := False, have_zero_and_subnormals := False\<rparr>)"
| "float_specs F4E2M1FN = Some (ieee_spec 4 0 2 2 1 FiniteOnly)"
| "float_specs _ = None"

definition get_spec :: "SimpleType \<Rightarrow> FloatSpec res" where
  "get_spec ty = (case float_specs ty of None \<Rightarrow> Inl KeyError | Some s \<Rightarrow> Inr s)"

definition float_bit_size :: "SimpleType \<Rightarrow> nat res" where
  "float_bit_size ty =
     (if ty = F64 then Inr 64 else and_then (get_spec ty) (\<lambda>s. Inr (bitwidth s)))"

section \<open>Binary64 values\<close>

definition d_sign :: "int \<Rightarrow> int" where
  "d_sign b = drop_bit 63 b AND 1"

definition d_exp :: "int \<Rightarrow> int" where
  "d_exp b = drop_bit 52 b AND 2047"

definition d_mant :: "int \<Rightarrow> int" where
  "d_mant b = b AND (2 ^ 52 - 1)"

definition is_finite :: "int \<Rightarrow> bool" where
  "is_finite b \<longleftrightarrow> d_exp b \<noteq> 2047"

definition is_nan :: "int \<Rightarrow> bool" where
  "is_nan b \<longleftrightarrow> d_exp b = 2047 \<and> d_mant b \<noteq> 0"

definition is_zero :: "int \<Rightarrow> bool" where
  "is_zero b \<longleftrightarrow> d_exp b = 0 \<and> d_mant b = 0"

text \<open>The magnitude of a finite value is \<open>sig b * 2 powi scale b\<close>.\<close>

definition d_sig :: "int \<Rightarrow> int" where
  "d_sig b = (if d_exp b = 0 then d_mant b else d_mant b + 2 ^ 52)"

definition d_scale :: "int \<Rightarrow> int" where
  "d_scale b = (if d_exp b = 0 then - 1074 else d_exp b - 1075)"

definition inf_bits :: "int \<Rightarrow> int" where
  "inf_bits sign = (if sign = 1 then 0xfff0000000000000 else 0x7ff0000000000000)"

text \<open>
  \<^verbatim>\<open>m, e = math.frexp(val); m *= 2; e -= 1\<close>: the significand in [1, 2) is \<open>sig\<close> over
  \<open>2 ^ (bit_length sig - 1)\<close>.
\<close>

definition frexp_den :: "int \<Rightarrow> nat" where
  "frexp_den b = nat (bit_length (d_sig b) - 1)"

definition frexp_exp :: "int \<Rightarrow> int" where
  "frexp_exp b = bit_length (d_sig b) - 1 + d_scale b"

text \<open>Python's \<^verbatim>\<open>round\<close> of \<open>n / 2 ^ d\<close>: nearest, ties to even.\<close>

definition round_half_even :: "int \<Rightarrow> nat \<Rightarrow> int" where
  "round_half_even n d =
     (let q = n div 2 ^ d; r = n mod 2 ^ d
      in if 2 * r < 2 ^ d then q
         else if 2 * r > 2 ^ d then q + 1
         else if even q then q else q + 1)"

section \<open>The conversions\<close>

definition convert_nonfinite :: "int \<Rightarrow> FloatSpec \<Rightarrow> int res" where
  "convert_nonfinite val s =
     (case non_finite_behavior s of
        NanOnlyAllOnes \<Rightarrow>
          Inr (push_bit (bitwidth s - 1) (d_sign val) OR (push_bit (bitwidth s - 1) 1 - 1))
      | FiniteOnly \<Rightarrow>
          if is_nan val then Inl ValueError
          else Inr (push_bit (bitwidth s - 1) (d_sign val) OR (push_bit (bitwidth s - 1) 1 - 1))
      | IEEE \<Rightarrow>
          (let hi_bits = push_bit (precision s) (drop_bit (63 - exp_bits s) val);
               precision_bits =
                 (if is_nan val \<and> val AND push_bit 51 1 = 0 then 1
                  else drop_bit (52 - precision s) val AND (push_bit (precision s) 1 - 1))
           in Inr (hi_bits OR precision_bits)))"

definition convert_fXeXm0fnu :: "int \<Rightarrow> FloatSpec \<Rightarrow> int res" where
  "convert_fXeXm0fnu val s =
     (let nan = push_bit (bitwidth s) 1 - 1;
          smallest_representable = 0;
          bias = - emin s
      in if d_sign val = 1 then Inl ValueError
         else if is_zero val then Inr smallest_representable
         else if \<not> is_finite val then Inr nan
         else
           let e = frexp_exp val
           in if e > emax s then Inr nan
              else if e < emin s then Inr smallest_representable
              else
                let num = d_sig val - 2 ^ frexp_den val;
                    e = e + bias;
                    round_up = (2 * num \<ge> 2 ^ frexp_den val)
                in if round_up
                   then (let e = e + 1 in if e > emax s + bias then Inr nan else Inr e)
                   else Inr e)"

definition convert_float :: "int \<Rightarrow> FloatSpec \<Rightarrow> int res" where
  "convert_float val s =
     (if is_zero val then Inr (push_bit (bitwidth s - 1) (d_sign val))
      else if \<not> is_finite val then convert_nonfinite val s
      else
        let sign = d_sign val; e = frexp_exp val
        in if e > emax s then convert_nonfinite (inf_bits sign) s
           else
             let (num, den, e) =
                   (if e < emin s then (d_sig val, nat (int (frexp_den val) + (emin s - e)), 0)
                    else (d_sig val - 2 ^ frexp_den val, frexp_den val, e + (- emin s + 1)))
             in and_then (py_assert (precision s > 0)) (\<lambda>_.
                let m = round_half_even (num * push_bit (precision s) 1) den
                in if m = push_bit (precision s) 1
                   then (let m = 0; e = e + 1
                         in if e > emax s - emin s + 1
                            then convert_nonfinite (inf_bits sign) s
                            else Inr (push_bit (bitwidth s - 1) sign OR push_bit (precision s) e OR m))
                   else Inr (push_bit (bitwidth s - 1) sign OR push_bit (precision s) e OR m)))"

definition float_to_bits :: "int \<Rightarrow> SimpleType \<Rightarrow> int res" where
  "float_to_bits val ty =
     (if ty = F64 then Inr val
      else and_then (get_spec ty) (\<lambda>s.
        if have_sign s \<and> have_zero_and_subnormals s then convert_float val s
        else and_then (py_assert (\<not> have_sign s \<and> \<not> have_zero_and_subnormals s)) (\<lambda>_.
             and_then (py_assert (precision s = 0 \<and> exp_bits s = bitwidth s)) (\<lambda>_.
             convert_fXeXm0fnu val s))))"

definition float_from_bits :: "int \<Rightarrow> SimpleType \<Rightarrow> int res" where
  "float_from_bits bits ty =
     (if ty = F64 then Inr bits
      else and_then (get_spec ty) (\<lambda>s.
        let m_mask = NOT (push_bit (precision s) (-1));
            m = bits AND m_mask;
            e_mask = NOT (push_bit (exp_bits s) (-1));
            e = drop_bit (precision s) bits AND e_mask;
            bits = push_bit 63 (if have_sign s then drop_bit (bitwidth s - 1) bits else 0);
            (bits, m, e) =
              (if e = e_mask \<and> (non_finite_behavior s = IEEE
                              \<or> non_finite_behavior s = NanOnlyAllOnes \<and> m = m_mask)
               then (if precision s = 0 then bits OR push_bit 51 1 else bits, m, 0x7ff)
               else if e = 0 \<and> have_zero_and_subnormals s
               then (if m \<noteq> 0
                     then (let shift = int (precision s) - bit_length m + 1
                           in (bits, push_bit (nat shift) m AND m_mask, emin s + 1023 - shift))
                     else (bits, m, e))
               else (bits, m, (e - of_bool (have_zero_and_subnormals s)) + emin s + 1023))
        in Inr (bits OR (push_bit 52 e OR push_bit (52 - precision s) m))))"

end
