(* ===== verification/BcAttr.thy ===== *)
theory BcAttr
  imports BcFloat
begin

text \<open>
  \<^verbatim>\<open>_bytecode/constant.py\<close>, \<^verbatim>\<open>debug_info.py\<close> and \<^verbatim>\<open>attribute.py\<close>: the constant table, the
  debug attribute table and the tagged attributes, whose encodings refer to the shared
  string table by identifier. Encodings of attributes are specified relative to any
  later string table and decode back to the attribute.
\<close>

section \<open>The constant table\<close>

datatype ConstantId = ConstantId (constant_id: nat)

definition dense_constant :: "bytes \<Rightarrow> table \<Rightarrow> (ConstantId \<times> table) res" where
  "dense_constant data t =
     and_then (encode_varint (int (length data)) []) (\<lambda>buf.
       let (i, t) = table_getitem 0 (buf_extend data buf) t in Inr (ConstantId i, t))"

section \<open>Debug attributes\<close>

datatype DebugAttrId = DebugAttrId (debug_attr_id: nat)

definition MISSING_DEBUG_ATTR_ID :: DebugAttrId where
  "MISSING_DEBUG_ATTR_ID = DebugAttrId 0"

datatype DebugTag = DICompileUnit | DIFile | DILexicalBlock | DILoc | DISubprogram | CallSite

fun DebugTag_value :: "DebugTag \<Rightarrow> bytes" where
  "DebugTag_value DICompileUnit = [0x01]"
| "DebugTag_value DIFile = [0x02]"
| "DebugTag_value DILexicalBlock = [0x03]"
| "DebugTag_value DILoc = [0x04]"
| "DebugTag_value DISubprogram = [0x05]"
| "DebugTag_value CallSite = [0x06]"

text \<open>
  A \<^verbatim>\<open>DebugAttrTable\<close> holds the string table of its writer. The state of its methods is
  the pair of the two tables; while a buffer is built it is \<open>(strings, buffer)\<close>.
\<close>

type_synonym str_buf = "table \<times> bytes"

definition put_varint :: "int \<Rightarrow> str_buf \<Rightarrow> str_buf res" where
  "put_varint x sb = (case sb of (st, buf) \<Rightarrow> and_then (encode_varint x buf) (\<lambda>buf. Inr (st, buf)))"

text \<open>\<^verbatim>\<open>encode_varint(string_table[s.encode()].string_id, buf)\<close>\<close>

definition put_string :: "string \<Rightarrow> str_buf \<Rightarrow> str_buf res" where
  "put_string s sb =
     (case sb of (st, buf) \<Rightarrow>
        (let (i, st) = string_table_getitem (str_encode s) st in put_varint (int i) (st, buf)))"

definition debug_intern ::
  "(str_buf \<Rightarrow> str_buf res) list \<Rightarrow> DebugTag \<Rightarrow> table \<times> table \<Rightarrow> (DebugAttrId \<times> (table \<times> table)) res" where
  "debug_intern steps tag tabs =
     (case tabs of (st, t) \<Rightarrow>
       and_then (run_steps steps (st, DebugTag_value tag)) (\<lambda>(st, buf).
         let (i, t) = table_getitem 1 buf t in Inr (DebugAttrId i, (st, t))))"

definition debug_file :: "string \<Rightarrow> string \<Rightarrow> table \<times> table \<Rightarrow> (DebugAttrId \<times> (table \<times> table)) res" where
  "debug_file name directory = debug_intern [put_string name, put_string directory] DIFile"

definition debug_compile_unit :: "DebugAttrId \<Rightarrow> table \<times> table \<Rightarrow> (DebugAttrId \<times> (table \<times> table)) res" where
  "debug_compile_unit file = debug_intern [put_varint (int (debug_attr_id file))] DICompileUnit"

definition debug_lexical_block ::
  "DebugAttrId \<Rightarrow> DebugAttrId \<Rightarrow> int \<Rightarrow> int \<Rightarrow> table \<times> table \<Rightarrow> (DebugAttrId \<times> (table \<times> table)) res" where
  "debug_lexical_block parent_scope file line column =
     debug_intern
       [put_varint (int (debug_attr_id parent_scope)), put_varint (int (debug_attr_id file)),
        put_varint line, put_varint column] DILexicalBlock"

definition debug_subprogram ::
  "DebugAttrId \<Rightarrow> int \<Rightarrow> string \<Rightarrow> string \<Rightarrow> DebugAttrId \<Rightarrow> int \<Rightarrow> table \<times> table
     \<Rightarrow> (DebugAttrId \<times> (table \<times> table)) res" where
  "debug_subprogram file line name linkage_name compile_unit scope_line =
     debug_intern
       [put_varint (int (debug_attr_id file)), put_varint line, put_string name,
        put_string linkage_name, put_varint (int (debug_attr_id compile_unit)),
        put_varint scope_line] DISubprogram"

definition debug_call_site ::
  "DebugAttrId \<Rightarrow> DebugAttrId \<Rightarrow> table \<times> table \<Rightarrow> (DebugAttrId \<times> (table \<times> table)) res" where
  "debug_call_site callee caller =
     debug_intern
       [put_varint (int (debug_attr_id callee)), put_varint (int (debug_attr_id caller))] CallSite"

definition debug_loc ::
  "DebugAttrId \<Rightarrow> string \<Rightarrow> int \<Rightarrow> int \<Rightarrow> table \<times> table \<Rightarrow> (DebugAttrId \<times> (table \<times> table)) res" where
  "debug_loc scope filename line column =
     debug_intern
       [put_varint (int (debug_attr_id scope)), put_string filename, put_varint line,
        put_varint column] DILoc"

section \<open>Tagged attributes\<close>

datatype AttributeTag =
    TagInteger | TagFloat | TagBool | TagType | TagString | TagArray | TagDenseElements
  | TagDivBy | TagSameElements | TagDictionary | TagOptimizationHints | TagBounded

fun AttributeTag_value :: "AttributeTag \<Rightarrow> bytes" where
  "AttributeTag_value TagInteger = [0x01]"
| "AttributeTag_value TagFloat = [0x02]"
| "AttributeTag_value TagBool = [0x03]"
| "AttributeTag_value TagType = [0x04]"
| "AttributeTag_value TagString = [0x05]"
| "AttributeTag_value TagArray = [0x06]"
| "AttributeTag_value TagDenseElements = [0x07]"
| "AttributeTag_value TagDivBy = [0x08]"
| "AttributeTag_value TagSameElements = [0x09]"
| "AttributeTag_value TagDictionary = [0x0a]"
| "AttributeTag_value TagOptimizationHints = [0x0b]"
| "AttributeTag_value TagBounded = [0x0c]"

text \<open>The subclasses of \<^verbatim>\<open>TaggedAttribute\<close>, with the fields their encoders read.\<close>

datatype attr =
    Dictionary "(string \<times> attr) list"
  | OptimizationHints "(string \<times> attr) list"
  | DivBy int "int option" "int option"
  | SameElements "int list"
  | Bounded "int option" "int option"
  | FloatAttr TypeId int nat
  | IntegerAttr TypeId nat int
  | BoolAttr bool

text \<open>\<^verbatim>\<open>isinstance(val, AssumePredicate)\<close>\<close>

fun is_AssumePredicate :: "attr \<Rightarrow> bool" where
  "is_AssumePredicate (DivBy d every along) = True"
| "is_AssumePredicate (SameElements values) = True"
| "is_AssumePredicate (Bounded lb ub) = True"
| "is_AssumePredicate _ = False"

definition put_byte :: "int \<Rightarrow> str_buf \<Rightarrow> str_buf res" where
  "put_byte x sb = (case sb of (st, buf) \<Rightarrow> and_then (buf_append x buf) (\<lambda>buf. Inr (st, buf)))"

definition put_bytes :: "bytes \<Rightarrow> str_buf \<Rightarrow> str_buf res" where
  "put_bytes bs sb = (case sb of (st, buf) \<Rightarrow> Inr (st, buf_extend bs buf))"

definition put_typeid :: "TypeId \<Rightarrow> str_buf \<Rightarrow> str_buf res" where
  "put_typeid t sb = (case sb of (st, buf) \<Rightarrow> and_then (encode_typeid t buf) (\<lambda>buf. Inr (st, buf)))"

definition put_optional_signed :: "int option \<Rightarrow> str_buf \<Rightarrow> str_buf res" where
  "put_optional_signed x sb =
     (case sb of (st, buf) \<Rightarrow>
       (case x of None \<Rightarrow> Inr (st, buf)
        | Some x \<Rightarrow> and_then (encode_signed_varint x buf) (\<lambda>buf. Inr (st, buf))))"

definition encode_ap_int :: "int \<Rightarrow> nat \<Rightarrow> bytes \<Rightarrow> bytes res" where
  "encode_ap_int val bit_width buf =
     and_then (py_assert (0 \<le> val)) (\<lambda>_.
       if bit_width \<le> 8 then buf_append val buf
       else if bit_width \<le> 64 then encode_signed_varint val buf
       else Inl NotImplementedError)"

definition put_ap_int :: "int \<Rightarrow> nat \<Rightarrow> str_buf \<Rightarrow> str_buf res" where
  "put_ap_int v w sb = (case sb of (st, buf) \<Rightarrow> and_then (encode_ap_int v w buf) (\<lambda>buf. Inr (st, buf)))"

definition presence_bits :: "'a option \<Rightarrow> 'b option \<Rightarrow> int" where
  "presence_bits a b = of_bool (a \<noteq> None) OR push_bit 1 (of_bool (b \<noteq> None))"

fun encode_tagged :: "attr \<Rightarrow> str_buf \<Rightarrow> str_buf res"
  and encode_dictionary_untagged :: "(string \<times> attr) list \<Rightarrow> str_buf \<Rightarrow> str_buf res"
  and encode_dictionary_items :: "(string \<times> attr) list \<Rightarrow> str_buf \<Rightarrow> str_buf res" where
  "encode_tagged (Dictionary items) sb =
     and_then (put_bytes (AttributeTag_value TagDictionary) sb) (encode_dictionary_untagged items)"
| "encode_tagged (OptimizationHints hints_by_arch) sb =
     and_then (put_bytes (AttributeTag_value TagOptimizationHints) sb)
       (encode_dictionary_untagged hints_by_arch)"
| "encode_tagged (DivBy divisor every along) sb =
     run_steps
       [put_bytes (AttributeTag_value TagDivBy), put_varint divisor,
        put_byte (presence_bits every along), put_optional_signed every, put_optional_signed along] sb"
| "encode_tagged (SameElements values) sb = Inl NotImplementedError"
| "encode_tagged (Bounded lb ub) sb =
     run_steps
       [put_bytes (AttributeTag_value TagBounded), put_byte (presence_bits lb ub),
        put_optional_signed lb, put_optional_signed ub] sb"
| "encode_tagged (FloatAttr t value_bits bit_size) sb =
     run_steps
       [put_bytes (AttributeTag_value TagFloat), put_typeid t, put_ap_int value_bits bit_size] sb"
| "encode_tagged (IntegerAttr t width value) sb =
     run_steps
       [put_bytes (AttributeTag_value TagInteger), put_typeid t,
        put_varint (value AND (push_bit width 1 - 1))] sb"
| "encode_tagged (BoolAttr value) sb =
     run_steps [put_bytes (AttributeTag_value TagBool), put_byte (of_bool value)] sb"
| "encode_dictionary_untagged items sb =
     and_then (put_varint (int (length items)) sb) (encode_dictionary_items items)"
| "encode_dictionary_items [] sb = Inr sb"
| "encode_dictionary_items ((k, v) # items) sb =
     and_then (put_string k sb) (\<lambda>sb. and_then (encode_tagged v sb) (encode_dictionary_items items))"

text \<open>The constructors of attributes.\<close>

definition Integer_create_i32 :: "int \<Rightarrow> attr" where
  "Integer_create_i32 value = IntegerAttr I32_TYPE_ID 32 value"

definition Float_init :: "int \<Rightarrow> SimpleType \<Rightarrow> type_table \<Rightarrow> (attr \<times> type_table) res" where
  "Float_init value ty tt =
     (let (t, tt) = tt_simple ty tt
      in and_then (float_to_bits value ty) (\<lambda>value_bits.
         and_then (float_bit_size ty) (\<lambda>bit_size. Inr (FloatAttr t value_bits bit_size, tt))))"

record EntryHints =
  num_cta_in_cga :: "int option"
  occupancy :: "int option"
  num_worker_warps_per_cta :: "int option"

definition optional_i32 :: "string \<Rightarrow> int option \<Rightarrow> (string \<times> attr) list" where
  "optional_i32 name x = (case x of None \<Rightarrow> [] | Some v \<Rightarrow> [(name, Integer_create_i32 v)])"

definition EntryHints_as_dictionary :: "EntryHints \<Rightarrow> attr" where
  "EntryHints_as_dictionary h =
     Dictionary
       (optional_i32 ''num_cta_in_cga'' (num_cta_in_cga h)
        @ optional_i32 ''occupancy'' (occupancy h)
        @ optional_i32 ''num_worker_warps_per_cta'' (num_worker_warps_per_cta h))"

definition make_entry_hints :: "(string \<times> EntryHints) list \<Rightarrow> attr" where
  "make_entry_hints hints_by_arch =
     OptimizationHints (map (\<lambda>(arch, hints). (arch, EntryHints_as_dictionary hints)) hints_by_arch)"

record LoadStoreHints =
  latency :: "int option"
  allow_tma :: bool

definition LoadStoreHints_as_dictionary :: "LoadStoreHints \<Rightarrow> attr" where
  "LoadStoreHints_as_dictionary h =
     Dictionary
       ((if \<not> allow_tma h then [(''allow_tma'', BoolAttr False)] else [])
        @ optional_i32 ''latency'' (latency h))"

definition make_load_store_hints :: "(string \<times> LoadStoreHints) list \<Rightarrow> attr" where
  "make_load_store_hints hints_by_arch =
     OptimizationHints (map (\<lambda>(arch, hints). (arch, LoadStoreHints_as_dictionary hints)) hints_by_arch)"

section \<open>What a writing step appends\<close>

text \<open>
  \<open>appends S f e\<close>: when the step \<open>f\<close> returns, it has only added entries to the string
  table, every string of \<open>S\<close> is in it, and it has appended to the buffer exactly the bytes
  \<open>e\<close>, computed with the identifiers of the strings in that or any later table.
\<close>

definition string_id :: "table \<Rightarrow> string \<Rightarrow> nat" where
  "string_id st s = the (map_of st (str_encode s))"

definition has_strings :: "string set \<Rightarrow> table \<Rightarrow> bool" where
  "has_strings S st \<longleftrightarrow> (\<forall>s \<in> S. map_of st (str_encode s) \<noteq> None)"

definition appends :: "string set \<Rightarrow> (str_buf \<Rightarrow> str_buf res) \<Rightarrow> ((string \<Rightarrow> nat) \<Rightarrow> bytes) \<Rightarrow> bool" where
  "appends S f e \<longleftrightarrow>
     (\<forall>st buf st' buf'. f (st, buf) = Inr (st', buf') \<longrightarrow>
        table_ext st st' \<and> (table_wf 0 st \<longrightarrow> table_wf 0 st') \<and> has_strings S st' \<and>
        (\<forall>st''. table_ext st' st'' \<longrightarrow> buf' = buf @ e (string_id st'')))"

named_theorems appends_intros \<open>what the writing steps append\<close>

lemma has_strings_ext: "has_strings S st \<Longrightarrow> table_ext st st' \<Longrightarrow> has_strings S st'"
  by (fastforce simp: has_strings_def dest: table_ext_lookup)

lemma has_strings_Un: "has_strings (S \<union> T) st \<longleftrightarrow> has_strings S st \<and> has_strings T st"
  by (auto simp: has_strings_def)

lemma appendsD:
  assumes "appends S f e" and "f (st, buf) = Inr (st', buf')"
  shows "table_ext st st'" and "table_wf 0 st \<Longrightarrow> table_wf 0 st'" and "has_strings S st'"
    and "table_ext st' st'' \<Longrightarrow> buf' = buf @ e (string_id st'')"
  using assms unfolding appends_def by blast+

lemma appends_then:
  assumes f: "appends S f e" and g: "appends T g e'"
  shows "appends (S \<union> T) (\<lambda>sb. and_then (f sb) g) (\<lambda>i. e i @ e' i)"
  unfolding appends_def
proof (intro allI impI)
  fix st buf st' buf'
  assume "and_then (f (st, buf)) g = Inr (st', buf')"
  then obtain st1 buf1 where 1: "f (st, buf) = Inr (st1, buf1)" and 2: "g (st1, buf1) = Inr (st', buf')"
    by (auto simp: and_then_Inr_iff)
  note F = appendsD [OF f 1] and G = appendsD [OF g 2]
  show "table_ext st st' \<and> (table_wf 0 st \<longrightarrow> table_wf 0 st') \<and> has_strings (S \<union> T) st' \<and>
     (\<forall>st''. table_ext st' st'' \<longrightarrow> buf' = buf @ e (string_id st'') @ e' (string_id st''))"
    using table_ext_trans [OF F(1) G(1)] F(2) G(2) G(3) G(4) has_strings_ext [OF F(3) G(1)]
      F(4) [OF table_ext_trans [OF G(1)]]
    by (simp add: has_strings_Un)
qed

lemma appends_run_Nil [appends_intros]: "appends {} (run_steps []) (\<lambda>_. [])"
  by (simp add: appends_def has_strings_def)

lemma appends_run_Cons [appends_intros]:
  "appends S f e \<Longrightarrow> appends T (run_steps fs) e' \<Longrightarrow>
     appends (S \<union> T) (run_steps (f # fs)) (\<lambda>i. e i @ e' i)"
  using appends_then [of S f e T "run_steps fs" e'] by (simp add: appends_def)

lemma appends_put_varint [appends_intros]: "appends {} (put_varint x) (\<lambda>_. varint x)"
  by (auto simp: appends_def put_varint_def encode_varint_eq and_then_Inr_iff has_strings_def
      split: if_splits)

lemma appends_put_bytes [appends_intros]: "appends {} (put_bytes bs) (\<lambda>_. bs)"
  by (auto simp: appends_def put_bytes_def buf_extend_def has_strings_def)

lemma appends_put_byte [appends_intros]: "appends {} (put_byte x) (\<lambda>_. [word_of_int x])"
  by (auto simp: appends_def put_byte_def buf_append_def and_then_Inr_iff has_strings_def
      split: if_splits)

lemma appends_put_typeid [appends_intros]: "appends {} (put_typeid t) (\<lambda>_. typeid_bytes t)"
  by (auto simp: appends_def put_typeid_def tid.write_eq has_strings_def)

definition optional_signed_bytes :: "int option \<Rightarrow> bytes" where
  "optional_signed_bytes x = (case x of None \<Rightarrow> [] | Some x \<Rightarrow> varint (zigzag x))"

lemma appends_put_optional_signed [appends_intros]:
  "appends {} (put_optional_signed x) (\<lambda>_. optional_signed_bytes x)"
  by (auto simp: appends_def put_optional_signed_def encode_signed_varint_eq has_strings_def
      optional_signed_bytes_def split: option.splits)

definition ap_int_bytes :: "int \<Rightarrow> nat \<Rightarrow> bytes" where
  "ap_int_bytes v w = (if w \<le> 8 then [word_of_int v] else varint (zigzag v))"

lemma appends_put_ap_int [appends_intros]:
  "appends {} (put_ap_int v w) (\<lambda>_. ap_int_bytes v w)"
  by (auto simp: appends_def put_ap_int_def encode_ap_int_def encode_signed_varint_eq
      has_strings_def ap_int_bytes_def and_then_Inr_iff buf_append_def split: if_splits)

lemma appends_put_string [appends_intros]:
  "appends {s} (put_string s) (\<lambda>i. varint (int (i s)))"
  unfolding appends_def
proof (intro allI impI)
  fix st buf st' buf'
  assume run: "put_string s (st, buf) = Inr (st', buf')"
  obtain i st1 where get: "table_getitem 0 (str_encode s) st = (i, st1)" by fastforce
  with run have st': "st' = st1" and buf': "buf' = buf @ varint (int i)"
    by (auto simp: put_string_def string_table_getitem_def put_varint_def encode_varint_eq)
  have look: "map_of st' (str_encode s) = Some i"
    using table_getitem_lookup [OF get] by (simp add: st')
  show "table_ext st st' \<and> (table_wf 0 st \<longrightarrow> table_wf 0 st') \<and> has_strings {s} st' \<and>
     (\<forall>st''. table_ext st' st'' \<longrightarrow> buf' = buf @ varint (int (string_id st'' s)))"
    using table_getitem_ext [OF get] table_getitem_wf [OF _ get] look
    by (auto simp: st' buf' has_strings_def string_id_def dest: table_ext_lookup)
qed

section \<open>The encoding of attributes\<close>

fun attr_bytes :: "(string \<Rightarrow> nat) \<Rightarrow> attr \<Rightarrow> bytes"
  and dict_bytes :: "(string \<Rightarrow> nat) \<Rightarrow> (string \<times> attr) list \<Rightarrow> bytes"
  and items_bytes :: "(string \<Rightarrow> nat) \<Rightarrow> (string \<times> attr) list \<Rightarrow> bytes" where
  "attr_bytes i (Dictionary items) = [0x0a] @ dict_bytes i items"
| "attr_bytes i (OptimizationHints items) = [0x0b] @ dict_bytes i items"
| "attr_bytes i (DivBy d every along) =
     [0x08] @ varint d @ [word_of_int (presence_bits every along)]
     @ optional_signed_bytes every @ optional_signed_bytes along"
| "attr_bytes i (SameElements vs) = []"
| "attr_bytes i (Bounded lb ub) =
     [0x0c] @ [word_of_int (presence_bits lb ub)]
     @ optional_signed_bytes lb @ optional_signed_bytes ub"
| "attr_bytes i (FloatAttr t v w) = [0x02] @ typeid_bytes t @ ap_int_bytes v w"
| "attr_bytes i (IntegerAttr t w v) = [0x01] @ typeid_bytes t @ varint (v AND (push_bit w 1 - 1))"
| "attr_bytes i (BoolAttr b) = [0x03] @ [word_of_int (of_bool b)]"
| "dict_bytes i items = varint (int (length items)) @ items_bytes i items"
| "items_bytes i [] = []"
| "items_bytes i ((k, v) # items) = varint (int (i k)) @ attr_bytes i v @ items_bytes i items"

fun attr_strings :: "attr \<Rightarrow> string set"
  and items_strings :: "(string \<times> attr) list \<Rightarrow> string set" where
  "attr_strings (Dictionary items) = items_strings items"
| "attr_strings (OptimizationHints items) = items_strings items"
| "attr_strings _ = {}"
| "items_strings [] = {}"
| "items_strings ((k, v) # items) = {k} \<union> (attr_strings v \<union> items_strings items)"

lemma appends_cong:
  "appends S f e \<Longrightarrow> S = S' \<Longrightarrow> (\<And>sb. f sb = f' sb) \<Longrightarrow> (\<And>i. e i = e' i) \<Longrightarrow> appends S' f' e'"
  unfolding appends_def by simp

lemma appends_via:
  "(\<And>sb. f' sb = f sb) \<Longrightarrow> appends S f e \<Longrightarrow> S = S' \<Longrightarrow> (\<And>i. e i = e' i) \<Longrightarrow> appends S' f' e'"
  unfolding appends_def by simp

lemma appends_never: "(\<And>sb. f sb = Inl err) \<Longrightarrow> appends S f e"
  by (simp add: appends_def)

lemma appends_attr:
  "appends (attr_strings a) (encode_tagged a) (\<lambda>i. attr_bytes i a)"
  "appends (items_strings items) (encode_dictionary_untagged items) (\<lambda>i. dict_bytes i items)"
  "appends (items_strings items) (encode_dictionary_items items) (\<lambda>i. items_bytes i items)"
proof (induction a and items and items rule: attr_bytes_dict_bytes_items_bytes.induct)
  case (1 i items)
  then show ?case
    by (rule appends_cong [OF appends_then [OF appends_put_bytes]])
      (simp_all del: encode_dictionary_untagged.simps)
next
  case (2 i items)
  then show ?case
    by (rule appends_cong [OF appends_then [OF appends_put_bytes]])
      (simp_all del: encode_dictionary_untagged.simps)
next
  case (3 i d every along)
  show ?case by (rule appends_via, rule encode_tagged.simps, (rule appends_intros)+) simp_all
next
  case (4 i vs)
  show ?case by (rule appends_never) simp
next
  case (5 i lb ub)
  show ?case by (rule appends_via, rule encode_tagged.simps, (rule appends_intros)+) simp_all
next
  case (6 i t v w)
  show ?case by (rule appends_via, rule encode_tagged.simps, (rule appends_intros)+) simp_all
next
  case (7 i t w v)
  show ?case by (rule appends_via, rule encode_tagged.simps, (rule appends_intros)+) simp_all
next
  case (8 i b)
  show ?case by (rule appends_via, rule encode_tagged.simps, (rule appends_intros)+) simp_all
next
  case (9 i items)
  then show ?case by (rule appends_cong [OF appends_then [OF appends_put_varint]]) auto
next
  case (10 i)
  show ?case by (rule appends_cong [OF appends_run_Nil]) auto
next
  case (11 i k v items)
  show ?case
    by (rule appends_cong [OF appends_then [OF appends_put_string appends_then [OF 11]]]) simp_all
qed

lemmas appends_encode_tagged [appends_intros] = appends_attr(1)
lemmas appends_encode_dictionary [appends_intros] = appends_attr(2)

section \<open>Reading attributes back\<close>

text \<open>
  The reader knows the string table (\<open>strs\<close>) and the widths of the integer and float
  types; \<open>fuel\<close> bounds the nesting of dictionaries.
\<close>

definition dec_byte :: "bytes \<Rightarrow> (byte \<times> bytes) option" where
  "dec_byte bs = (case bs of [] \<Rightarrow> None | b # r \<Rightarrow> Some (b, r))"

definition dec_optional_signed :: "bool \<Rightarrow> bytes \<Rightarrow> (int option \<times> bytes) option" where
  "dec_optional_signed present bs =
     (if present then map_option (\<lambda>(x, r). (Some x, r)) (dec_signed_varint bs) else Some (None, bs))"

definition dec_ap_int :: "nat \<Rightarrow> bytes \<Rightarrow> (int \<times> bytes) option" where
  "dec_ap_int w bs =
     (if w \<le> 8 then map_option (\<lambda>(b, r). (uint b, r)) (dec_byte bs) else dec_signed_varint bs)"

definition dec_string :: "(nat \<Rightarrow> string option) \<Rightarrow> bytes \<Rightarrow> (string \<times> bytes) option" where
  "dec_string strs bs =
     Option.bind (dec_varint bs) (\<lambda>(i, r). map_option (\<lambda>s. (s, r)) (strs (nat i)))"

record attr_env =
  env_strings :: "nat \<Rightarrow> string option"
  env_int_width :: "TypeId \<Rightarrow> nat"
  env_float_width :: "TypeId \<Rightarrow> nat"

fun dec_attr :: "nat \<Rightarrow> attr_env \<Rightarrow> bytes \<Rightarrow> (attr \<times> bytes) option"
  and dec_dict :: "nat \<Rightarrow> attr_env \<Rightarrow> bytes \<Rightarrow> ((string \<times> attr) list \<times> bytes) option" where
  "dec_attr 0 env bs = None"
| "dec_attr (Suc fuel) env bs =
     Option.bind (dec_byte bs) (\<lambda>(tag, bs).
       if tag = 0x0a then map_option (\<lambda>(xs, r). (Dictionary xs, r)) (dec_dict fuel env bs)
       else if tag = 0x0b then map_option (\<lambda>(xs, r). (OptimizationHints xs, r)) (dec_dict fuel env bs)
       else if tag = 0x08 then
         Option.bind (dec_varint bs) (\<lambda>(d, bs). Option.bind (dec_byte bs) (\<lambda>(f, bs).
         Option.bind (dec_optional_signed (f = 1 \<or> f = 3) bs) (\<lambda>(every, bs).
         Option.bind (dec_optional_signed (f = 2 \<or> f = 3) bs) (\<lambda>(along, bs).
         Some (DivBy d every along, bs)))))
       else if tag = 0x0c then
         Option.bind (dec_byte bs) (\<lambda>(f, bs).
         Option.bind (dec_optional_signed (f = 1 \<or> f = 3) bs) (\<lambda>(lb, bs).
         Option.bind (dec_optional_signed (f = 2 \<or> f = 3) bs) (\<lambda>(ub, bs).
         Some (Bounded lb ub, bs))))
       else if tag = 0x02 then
         Option.bind (dec_typeid bs) (\<lambda>(t, bs).
         Option.bind (dec_ap_int (env_float_width env t) bs) (\<lambda>(v, bs).
         Some (FloatAttr t v (env_float_width env t), bs)))
       else if tag = 0x01 then
         Option.bind (dec_typeid bs) (\<lambda>(t, bs).
         Option.bind (dec_varint bs) (\<lambda>(v, bs).
         Some (IntegerAttr t (env_int_width env t) v, bs)))
       else if tag = 0x03 then
         Option.bind (dec_byte bs) (\<lambda>(b, bs). Some (BoolAttr (b \<noteq> 0), bs))
       else None)"
| "dec_dict 0 env bs = None"
| "dec_dict (Suc fuel) env bs =
     Option.bind (dec_varint bs) (\<lambda>(n, bs).
       dec_times (\<lambda>bs. Option.bind (dec_string (env_strings env) bs) (\<lambda>(k, bs).
                       map_option (\<lambda>(v, r). ((k, v), r)) (dec_attr fuel env bs))) (nat n) bs)"

text \<open>
  What a decoder can give back: integers reduced to their width, all else unchanged. The
  widths written down must be those of the type, and the values must have an encoding.
\<close>

fun attr_norm :: "attr \<Rightarrow> attr" where
  "attr_norm (Dictionary items) = Dictionary (map (\<lambda>(k, v). (k, attr_norm v)) items)"
| "attr_norm (OptimizationHints items) = OptimizationHints (map (\<lambda>(k, v). (k, attr_norm v)) items)"
| "attr_norm (IntegerAttr t w v) = IntegerAttr t w (v mod 2 ^ w)"
| "attr_norm a = a"

fun attr_ok :: "attr_env \<Rightarrow> attr \<Rightarrow> bool" where
  "attr_ok env (Dictionary items) \<longleftrightarrow> (\<forall>kv \<in> set items. attr_ok env (snd kv))"
| "attr_ok env (OptimizationHints items) \<longleftrightarrow> (\<forall>kv \<in> set items. attr_ok env (snd kv))"
| "attr_ok env (DivBy d every along) \<longleftrightarrow> 0 \<le> d"
| "attr_ok env (SameElements vs) \<longleftrightarrow> False"
| "attr_ok env (Bounded lb ub) \<longleftrightarrow> True"
| "attr_ok env (FloatAttr t v w) \<longleftrightarrow> env_float_width env t = w \<and> 0 \<le> v \<and> (w \<le> 8 \<longrightarrow> v < 256) \<and> w \<le> 64"
| "attr_ok env (IntegerAttr t w v) \<longleftrightarrow> env_int_width env t = w"
| "attr_ok env (BoolAttr b) \<longleftrightarrow> True"

fun attr_depth :: "attr \<Rightarrow> nat" where
  "attr_depth (Dictionary items) = 2 + Max (insert 0 (set (map (\<lambda>kv. attr_depth (snd kv)) items)))"
| "attr_depth (OptimizationHints items) = 2 + Max (insert 0 (set (map (\<lambda>kv. attr_depth (snd kv)) items)))"
| "attr_depth _ = 1"

lemma items_bytes_concat:
  "items_bytes i items = concat (map (\<lambda>(k, v). varint (int (i k)) @ attr_bytes i v) items)"
  by (induction items) auto

lemma items_strings_member:
  "(k, v) \<in> set items \<Longrightarrow> k \<in> items_strings items \<and> attr_strings v \<subseteq> items_strings items"
  by (induction items) auto

lemma dec_byte_Cons [simp]: "dec_byte (b # r) = Some (b, r)"
  by (simp add: dec_byte_def)

lemma presence_bits_eq: "presence_bits a b = of_bool (a \<noteq> None) + 2 * of_bool (b \<noteq> None)"
  by (cases a; cases b) (simp_all add: presence_bits_def)

lemma presence_bits_word:
  "((word_of_int (presence_bits a b) :: byte) = 1 \<or> (word_of_int (presence_bits a b) :: byte) = 3)
     \<longleftrightarrow> a \<noteq> None"
  "((word_of_int (presence_bits a b) :: byte) = 2 \<or> (word_of_int (presence_bits a b) :: byte) = 3)
     \<longleftrightarrow> b \<noteq> None"
  by (cases a; cases b; simp add: presence_bits_eq)+

lemma dec_optional_signed_bytes:
  "dec_optional_signed (x \<noteq> None) (optional_signed_bytes x @ r) = Some (x, r)"
  by (cases x) (simp_all add: dec_optional_signed_def optional_signed_bytes_def sv.dec_enc)

lemma dec_ap_int_bytes:
  "0 \<le> v \<Longrightarrow> (w \<le> 8 \<longrightarrow> v < 256) \<Longrightarrow> dec_ap_int w (ap_int_bytes v w @ r) = Some (v, r)"
  by (auto simp: dec_ap_int_def ap_int_bytes_def sv.dec_enc uint_word_of_int)

lemma dec_string_bytes:
  "strs (i s) = Some s \<Longrightarrow> dec_string strs (varint (int (i s)) @ r) = Some (s, r)"
  by (simp add: dec_string_def vi.dec_enc)

lemma int_and_mask: "(v :: int) AND (2 ^ w - 1) = v mod 2 ^ w"
  using take_bit_eq_mask [of w v]
  by (simp add: take_bit_eq_mod mask_eq_exp_minus_1)

lemma depth_items:
  "2 + Max (insert 0 (set (map (\<lambda>kv. attr_depth (snd kv)) items))) \<le> fuel \<Longrightarrow>
     \<exists>f. fuel = Suc (Suc f) \<and> (\<forall>kv \<in> set items. attr_depth (snd kv) \<le> f)"
proof -
  let ?M = "Max (insert 0 (set (map (\<lambda>kv. attr_depth (snd kv)) items)))"
  assume "2 + ?M \<le> fuel"
  then obtain f where f: "fuel = Suc (Suc f)" "?M \<le> f"
    by (cases fuel; cases "fuel - 1") auto
  have "attr_depth (snd kv) \<le> ?M" if "kv \<in> set items" for kv
    using that by (intro Max_ge) auto
  with f show ?thesis by fastforce
qed

lemma dec_dict_bytes:
  assumes "\<And>k v r. (k, v) \<in> set items \<Longrightarrow> dec_attr f env (attr_bytes i v @ r) = Some (attr_norm v, r)"
    and "\<forall>s \<in> items_strings items. env_strings env (i s) = Some s"
  shows "dec_dict (Suc f) env (dict_bytes i items @ r)
       = Some (map (\<lambda>(k, v). (k, attr_norm v)) items, r)"
proof -
  have key: "env_strings env (i k) = Some k" if "(k, v) \<in> set items" for k v
    using assms(2) items_strings_member [OF that] by blast
  show ?thesis
    unfolding dict_bytes.simps items_bytes_concat dec_dict.simps append_assoc
    by (simp add: vi.dec_enc, rule dec_times_map)
      (auto simp: dec_string_bytes key assms(1))
qed

lemma dec_attr_bytes:
  "attr_ok env a \<Longrightarrow> \<forall>s \<in> attr_strings a. env_strings env (i s) = Some s \<Longrightarrow> attr_depth a \<le> fuel
    \<Longrightarrow> dec_attr fuel env (attr_bytes i a @ r) = Some (attr_norm a, r)"
proof (induction a arbitrary: fuel r)
  case (Dictionary items)
  from Dictionary.prems(3) obtain f where f: "fuel = Suc (Suc f)"
    and d: "\<forall>kv \<in> set items. attr_depth (snd kv) \<le> f"
    using depth_items by auto
  have "dec_dict (Suc f) env (dict_bytes i items @ r) = Some (map (\<lambda>(k, v). (k, attr_norm v)) items, r)"
    using Dictionary d by (intro dec_dict_bytes) (fastforce dest: items_strings_member)+
  then show ?case by (simp add: f del: dict_bytes.simps dec_dict.simps)
next
  case (OptimizationHints items)
  from OptimizationHints.prems(3) obtain f where f: "fuel = Suc (Suc f)"
    and d: "\<forall>kv \<in> set items. attr_depth (snd kv) \<le> f"
    using depth_items by auto
  have "dec_dict (Suc f) env (dict_bytes i items @ r) = Some (map (\<lambda>(k, v). (k, attr_norm v)) items, r)"
    using OptimizationHints d by (intro dec_dict_bytes) (fastforce dest: items_strings_member)+
  then show ?case by (simp add: f del: dict_bytes.simps dec_dict.simps)
next
  case (IntegerAttr t w v)
  then obtain f where "fuel = Suc f" by (cases fuel) auto
  with IntegerAttr show ?case by (simp add: tid.dec_enc vi.dec_enc int_and_mask)
next
  case (DivBy d every along)
  then obtain f where "fuel = Suc f" by (cases fuel) auto
  with DivBy show ?case
    by (simp add: vi.dec_enc presence_bits_word dec_optional_signed_bytes del: not_None_eq)
next
  case (Bounded lb ub)
  then obtain f where "fuel = Suc f" by (cases fuel) auto
  then show ?case 
    by (simp add: presence_bits_word dec_optional_signed_bytes del: not_None_eq)
next
  case (FloatAttr t v w)
  then obtain f where "fuel = Suc f" by (cases fuel) auto
  with FloatAttr show ?case by (simp add: tid.dec_enc dec_ap_int_bytes)
next
  case (BoolAttr b)
  then obtain f where "fuel = Suc f" by (cases fuel) auto
  then show ?case by simp
qed simp

section \<open>Properties of the attribute encoding\<close>

text \<open>The string a table stores under an identifier.\<close>

definition table_string :: "table \<Rightarrow> nat \<Rightarrow> string option" where
  "table_string st i =
     map_option (\<lambda>(k, _). map (\<lambda>b. char_of (unat b)) k) (find (\<lambda>(k, j). j = i) st)"

lemma decode_str_encode: "map (\<lambda>b :: byte. char_of (unat b)) (str_encode s) = s"
proof (induction s)
  case (Cons c s)
  have "(of_char c :: nat) mod 256 = of_char c" by (rule of_char_mod_256)
  with Cons show ?case by (simp add: str_encode_def unat_of_nat)
qed (simp add: str_encode_def)

lemma table_string_id:
  assumes "table_wf n st" and "map_of st (str_encode s) = Some i"
  shows "table_string st i = Some s"
proof -
  have mem: "(str_encode s, i) \<in> set st" using assms(2) by (rule map_of_SomeD)
  have dis: "distinct (map snd st)" and dk: "distinct (map fst st)"
    using assms(1) by (simp_all add: table_wf_def)
  from mem obtain p where p: "find (\<lambda>(k, j). j = i) st = Some p"
    by (cases "find (\<lambda>(k, j). j = i) st") (auto simp: find_None_iff)
  then have "p \<in> set st" "snd p = i" by (auto simp: find_Some_iff dest: nth_mem)
  with mem dis have "p = (str_encode s, i)"
    by (metis distinct_map inj_onD snd_conv)
  with p show ?thesis by (simp add: table_string_def decode_str_encode)
qed

text \<open>
  C15. Attributes survive the bytecode: what \<^verbatim>\<open>encode_tagged\<close> appends, read with the final
  string table and the type widths, is the attribute (integers reduced to their width) and
  the reader stops where the writer stopped.
\<close>

theorem attribute_roundtrip:
  assumes "encode_tagged a (st, buf) = Inr (st', buf')"
    and "table_wf 0 st" and "table_ext st' final" and "table_wf 0 final"
    and "env_strings env = table_string final" and "attr_ok env a"
  shows "\<exists>bs. buf' = buf @ bs \<and>
     (\<forall>r. dec_attr (attr_depth a) env (bs @ r) = Some (attr_norm a, r))"
proof (intro exI conjI allI)
  note A = appendsD [OF appends_attr(1) assms(1)]
  show "buf' = buf @ attr_bytes (string_id final) a" using A(4) [OF assms(3)] .
  have "has_strings (attr_strings a) final" using A(3) assms(3) by (rule has_strings_ext)
  then have "\<forall>s \<in> attr_strings a. env_strings env (string_id final s) = Some s"
    using table_string_id [OF assms(4)] by (auto simp: has_strings_def string_id_def assms(5))
  then show "dec_attr (attr_depth a) env (attr_bytes (string_id final) a @ r) = Some (attr_norm a, r)"
    for r by (rule dec_attr_bytes [OF assms(6) _ order_refl])
qed

definition sample_attr :: attr where
  "sample_attr = Dictionary [(''latency'', IntegerAttr (TypeId 1) 32 (-1)), (''b'', Bounded (Some 0) None)]"

definition sample_env :: "table \<Rightarrow> attr_env" where
  "sample_env st = \<lparr>env_strings = table_string st, env_int_width = (\<lambda>_. 32), env_float_width = (\<lambda>_. 16)\<rparr>"

theorem attribute_roundtrip_witness:
  "\<exists>st' buf' bs. encode_tagged sample_attr ([], [9]) = Inr (st', buf') \<and> buf' = [9] @ bs \<and>
     (\<forall>r. dec_attr (attr_depth sample_attr) (sample_env st') (bs @ r) = Some (attr_norm sample_attr, r))"
proof -
  obtain st' buf' where run: "encode_tagged sample_attr ([], [9]) = Inr (st', buf')"
  proof -
    have "\<not> isl (encode_tagged sample_attr ([], [9]))" by code_simp
    then show ?thesis using that by (cases "encode_tagged sample_attr ([], [9])") auto
  qed
  have wf: "table_wf 0 st'" using appendsD(2) [OF appends_attr(1) run] by simp
  have "\<exists>bs. buf' = [9] @ bs \<and>
     (\<forall>r. dec_attr (attr_depth sample_attr) (sample_env st') (bs @ r) = Some (attr_norm sample_attr, r))"
    by (rule attribute_roundtrip [OF run _ table_ext_refl wf])
      (simp_all add: sample_env_def sample_attr_def)
  with run show ?thesis by blast
qed

end
