(* ===== verification/BcDebug.thy ===== *)
theory BcDebug
  imports BcAttr
begin

text \<open>
  \<^verbatim>\<open>_bytecode/debug_info.py\<close>: what the debug attribute table stores. \<open>debug_desc\<close> is the
  call made on the table, \<open>debug_op\<close> performs it and \<open>dec_debug\<close> reads an entry back.
\<close>

datatype debug_desc =
    DescFile string string
  | DescCompileUnit DebugAttrId
  | DescLexicalBlock DebugAttrId DebugAttrId int int
  | DescSubprogram DebugAttrId int string string DebugAttrId int
  | DescCallSite DebugAttrId DebugAttrId
  | DescLoc DebugAttrId string int int

fun debug_op :: "debug_desc \<Rightarrow> table \<times> table \<Rightarrow> (DebugAttrId \<times> (table \<times> table)) res" where
  "debug_op (DescFile n d) = debug_file n d"
| "debug_op (DescCompileUnit f) = debug_compile_unit f"
| "debug_op (DescLexicalBlock p f l c) = debug_lexical_block p f l c"
| "debug_op (DescSubprogram f l n k u s) = debug_subprogram f l n k u s"
| "debug_op (DescCallSite c r) = debug_call_site c r"
| "debug_op (DescLoc s f l c) = debug_loc s f l c"

fun debug_ok :: "debug_desc \<Rightarrow> bool" where
  "debug_ok (DescLexicalBlock p f l c) = (0 \<le> l \<and> 0 \<le> c)"
| "debug_ok (DescSubprogram f l n k u s) = (0 \<le> l \<and> 0 \<le> s)"
| "debug_ok (DescLoc s f l c) = (0 \<le> l \<and> 0 \<le> c)"
| "debug_ok d = True"

fun debug_strings :: "debug_desc \<Rightarrow> string set" where
  "debug_strings (DescFile n d) = {n, d}"
| "debug_strings (DescSubprogram f l n k u s) = {n, k}"
| "debug_strings (DescLoc s f l c) = {f}"
| "debug_strings d = {}"

definition id_bytes :: "DebugAttrId \<Rightarrow> bytes" where
  "id_bytes a = varint (int (debug_attr_id a))"

fun debug_bytes :: "(string \<Rightarrow> nat) \<Rightarrow> debug_desc \<Rightarrow> bytes" where
  "debug_bytes i (DescFile n d) = 2 # varint (int (i n)) @ varint (int (i d))"
| "debug_bytes i (DescCompileUnit f) = 1 # id_bytes f"
| "debug_bytes i (DescLexicalBlock p f l c) = 3 # id_bytes p @ id_bytes f @ varint l @ varint c"
| "debug_bytes i (DescSubprogram f l n k u s) =
     5 # id_bytes f @ varint l @ varint (int (i n)) @ varint (int (i k)) @ id_bytes u @ varint s"
| "debug_bytes i (DescCallSite c r) = 6 # id_bytes c @ id_bytes r"
| "debug_bytes i (DescLoc s f l c) = 4 # id_bytes s @ varint (int (i f)) @ varint l @ varint c"

definition dec_id :: "bytes \<Rightarrow> (DebugAttrId \<times> bytes) option" where
  "dec_id bs = map_option (\<lambda>(n, r). (DebugAttrId (nat n), r)) (dec_varint bs)"

text \<open>An entry of the table is read to its end.\<close>

definition at_end :: "'a \<Rightarrow> bytes \<Rightarrow> 'a option" where
  "at_end x r = (if r = [] then Some x else None)"

definition dec_debug :: "(nat \<Rightarrow> string option) \<Rightarrow> bytes \<Rightarrow> debug_desc option" where
  "dec_debug strs bs =
     Option.bind (dec_byte bs) (\<lambda>(tag, bs).
       if tag = 1 then Option.bind (dec_id bs) (\<lambda>(f, bs). at_end (DescCompileUnit f) bs)
       else if tag = 2 then
         Option.bind (dec_string strs bs) (\<lambda>(n, bs). Option.bind (dec_string strs bs) (\<lambda>(d, bs).
           at_end (DescFile n d) bs))
       else if tag = 3 then
         Option.bind (dec_id bs) (\<lambda>(p, bs). Option.bind (dec_id bs) (\<lambda>(f, bs).
         Option.bind (dec_varint bs) (\<lambda>(l, bs). Option.bind (dec_varint bs) (\<lambda>(c, bs).
           at_end (DescLexicalBlock p f l c) bs))))
       else if tag = 4 then
         Option.bind (dec_id bs) (\<lambda>(s, bs). Option.bind (dec_string strs bs) (\<lambda>(f, bs).
         Option.bind (dec_varint bs) (\<lambda>(l, bs). Option.bind (dec_varint bs) (\<lambda>(c, bs).
           at_end (DescLoc s f l c) bs))))
       else if tag = 5 then
         Option.bind (dec_id bs) (\<lambda>(f, bs). Option.bind (dec_varint bs) (\<lambda>(l, bs).
         Option.bind (dec_string strs bs) (\<lambda>(n, bs). Option.bind (dec_string strs bs) (\<lambda>(k, bs).
         Option.bind (dec_id bs) (\<lambda>(u, bs). Option.bind (dec_varint bs) (\<lambda>(s, bs).
           at_end (DescSubprogram f l n k u s) bs))))))
       else if tag = 6 then
         Option.bind (dec_id bs) (\<lambda>(c, bs). Option.bind (dec_id bs) (\<lambda>(r, bs).
           at_end (DescCallSite c r) bs))
       else None)"

interpretation did: codec id_bytes dec_id "\<lambda>_. True"
  by unfold_locales (simp add: id_bytes_def dec_id_def vi.dec_enc)

lemma at_end_Nil [simp]: "at_end x [] = Some x"
  by (simp add: at_end_def)

lemma dec_debug_bytes:
  assumes "debug_ok d" and "\<forall>s \<in> debug_strings d. strs (i s) = Some s"
  shows "dec_debug strs (debug_bytes i d) = Some d"
proof -
  have last: "dec_varint (varint x) = Some (x, [])" if "0 \<le> x" for x
    using vi.dec_enc [OF that, of "[]"] by simp
  have last_id: "dec_id (id_bytes a) = Some (a, [])" for a
    using did.dec_enc [of a "[]"] by simp
  have last_str: "dec_string strs (varint (int (i s))) = Some (s, [])" if "strs (i s) = Some s" for s
    using dec_string_bytes [where strs = strs and i = i and s = s and r = "[]"] that by simp
  show ?thesis
    using assms
    by (cases d) (simp_all add: dec_debug_def vi.dec_enc did.dec_enc dec_string_bytes last last_id last_str)
qed

section \<open>The table operations\<close>

lemma put_varint_err: "\<not> 0 \<le> x \<Longrightarrow> put_varint x sb = Inl AssertionError"
  by (simp add: put_varint_def encode_varint_eq case_prod_beta)

text \<open>
  The contract of one call: the string table grows, the entry's bytes are those of the
  description for every later string table, and the entry is interned.
\<close>

definition debug_contract ::
  "debug_desc \<Rightarrow> (table \<times> table \<Rightarrow> (DebugAttrId \<times> (table \<times> table)) res) \<Rightarrow> bool" where
  "debug_contract d f \<longleftrightarrow>
     (\<forall>st t a st' t'. f (st, t) = Inr (a, (st', t')) \<longrightarrow>
        debug_ok d \<and> table_ext st st' \<and> (table_wf 0 st \<longrightarrow> table_wf 0 st')
        \<and> has_strings (debug_strings d) st' \<and>
        (\<exists>b. (\<forall>st''. table_ext st' st'' \<longrightarrow> b = debug_bytes (string_id st'') d)
           \<and> table_getitem 1 b t = (debug_attr_id a, t')))"

lemma debug_intern_contract:
  assumes "appends S (run_steps steps) e" and "\<And>i. DebugTag_value tag @ e i = debug_bytes i d"
    and "S = debug_strings d" and "\<And>sb r. run_steps steps sb = Inr r \<Longrightarrow> debug_ok d"
  shows "debug_contract d (debug_intern steps tag)"
  unfolding debug_contract_def
proof (intro allI impI)
  fix st t a st' t'
  assume run: "debug_intern steps tag (st, t) = Inr (a, (st', t'))"
  then obtain b where steps: "run_steps steps (st, DebugTag_value tag) = Inr (st', b)"
    and get: "table_getitem 1 b t = (debug_attr_id a, t')"
    by (auto simp: debug_intern_def and_then_Inr_iff Let_def case_prod_beta prod_eq_iff)
  note A = appendsD [OF assms(1) steps]
  show "debug_ok d \<and> table_ext st st' \<and> (table_wf 0 st \<longrightarrow> table_wf 0 st')
        \<and> has_strings (debug_strings d) st' \<and>
        (\<exists>b. (\<forall>st''. table_ext st' st'' \<longrightarrow> b = debug_bytes (string_id st'') d)
           \<and> table_getitem 1 b t = (debug_attr_id a, t'))"
  proof (intro conjI impI)
    show "debug_ok d" using assms(4) steps by blast
    show "has_strings (debug_strings d) st'" using A(3) assms(3) by simp
    have "\<forall>st''. table_ext st' st'' \<longrightarrow> b = debug_bytes (string_id st'') d"
      using A(4) assms(2) by simp
    with get show "\<exists>b. (\<forall>st''. table_ext st' st'' \<longrightarrow> b = debug_bytes (string_id st'') d)
           \<and> table_getitem 1 b t = (debug_attr_id a, t')" by (intro exI conjI)
  qed (use A in simp_all)
qed

lemma put_varint_ok: "put_varint x sb = Inr r \<Longrightarrow> 0 \<le> x"
  by (cases "0 \<le> x") (simp_all add: put_varint_err)

text \<open>What the writing calls of each operation append.\<close>

lemmas file_run = appends_run_Cons [OF appends_put_string appends_run_Cons [OF appends_put_string appends_run_Nil]]
lemmas unit_run = appends_run_Cons [OF appends_put_varint appends_run_Nil]
lemmas lexical_run = appends_run_Cons [OF appends_put_varint appends_run_Cons [OF appends_put_varint appends_run_Cons [OF appends_put_varint appends_run_Cons [OF appends_put_varint appends_run_Nil]]]]
lemmas subprogram_run = appends_run_Cons [OF appends_put_varint appends_run_Cons [OF appends_put_varint appends_run_Cons [OF appends_put_string appends_run_Cons [OF appends_put_string appends_run_Cons [OF appends_put_varint appends_run_Cons [OF appends_put_varint appends_run_Nil]]]]]]
lemmas callsite_run = appends_run_Cons [OF appends_put_varint appends_run_Cons [OF appends_put_varint appends_run_Nil]]
lemmas loc_run = appends_run_Cons [OF appends_put_varint appends_run_Cons [OF appends_put_string appends_run_Cons [OF appends_put_varint appends_run_Cons [OF appends_put_varint appends_run_Nil]]]]

lemma debug_op_contract: "debug_contract d (debug_op d)"
proof (cases d)
  case (DescFile n k)
  show ?thesis
    unfolding DescFile debug_op.simps debug_file_def
    by (rule debug_intern_contract [OF file_run])
      (auto simp: id_bytes_def and_then_Inr_iff dest: put_varint_ok)
next
  case (DescCompileUnit f)
  show ?thesis
    unfolding DescCompileUnit debug_op.simps debug_compile_unit_def
    by (rule debug_intern_contract [OF unit_run])
      (auto simp: id_bytes_def and_then_Inr_iff dest: put_varint_ok)
next
  case (DescLexicalBlock p f l c)
  show ?thesis
    unfolding DescLexicalBlock debug_op.simps debug_lexical_block_def
    by (rule debug_intern_contract [OF lexical_run])
      (auto simp: id_bytes_def and_then_Inr_iff dest: put_varint_ok)
next
  case (DescSubprogram f l n k u s)
  show ?thesis
    unfolding DescSubprogram debug_op.simps debug_subprogram_def
    by (rule debug_intern_contract [OF subprogram_run])
      (auto simp: id_bytes_def and_then_Inr_iff dest: put_varint_ok)
next
  case (DescCallSite c r)
  show ?thesis
    unfolding DescCallSite debug_op.simps debug_call_site_def
    by (rule debug_intern_contract [OF callsite_run])
      (auto simp: id_bytes_def and_then_Inr_iff dest: put_varint_ok)
next
  case (DescLoc s f l c)
  show ?thesis
    unfolding DescLoc debug_op.simps debug_loc_def
    by (rule debug_intern_contract [OF loc_run])
      (auto simp: id_bytes_def and_then_Inr_iff dest: put_varint_ok)
qed

lemma debug_op_tables:
  assumes "debug_op d (st, t) = Inr (a, (st', t'))"
  shows "table_ext st st'" and "table_ext t t'"
    and "table_wf 0 st \<Longrightarrow> table_wf 0 st'" and "table_wf 1 t \<Longrightarrow> table_wf 1 t'"
  using debug_op_contract [of d] assms unfolding debug_contract_def
  by (blast intro: table_getitem_ext table_getitem_wf)+

section \<open>Properties of the debug attribute table\<close>

text \<open>The bytes a table stores under an identifier.\<close>

definition table_entry :: "table \<Rightarrow> nat \<Rightarrow> bytes option" where
  "table_entry t i = map_option fst (find (\<lambda>(k, j). j = i) t)"

lemma table_entry_lookup:
  assumes "table_wf n t" "map_of t k = Some i"
  shows "table_entry t i = Some k"
proof -
  have mem: "(k, i) \<in> set t" using assms(2) by (rule map_of_SomeD)
  have dis: "distinct (map snd t)" using assms(1) by (simp add: table_wf_def)
  from mem obtain p where p: "find (\<lambda>(k, j). j = i) t = Some p"
    by (cases "find (\<lambda>(k, j). j = i) t") (auto simp: find_None_iff)
  then have "p \<in> set t" "snd p = i" by (auto simp: find_Some_iff dest: nth_mem)
  with mem dis have "p = (k, i)" by (metis distinct_map inj_onD snd_conv)
  with p show ?thesis by (simp add: table_entry_def)
qed

text \<open>
  C27. A debug attribute can be read back under its identifier from every later state of the
  debug attribute table and the string table: the entry decodes to the scope, file, line,
  column and names the call was made with, and it is read to its end.
\<close>

theorem debug_attr_roundtrip:
  assumes "debug_op d (st, t) = Inr (a, (st', t'))" and "table_wf 0 st" and "table_wf 1 t"
    and "table_ext st' st2" and "table_wf 0 st2" and "table_ext t' t2" and "table_wf 1 t2"
  shows "\<exists>b. table_entry t2 (debug_attr_id a) = Some b \<and> dec_debug (table_string st2) b = Some d"
proof -
  from debug_op_contract [of d, unfolded debug_contract_def, rule_format, OF assms(1)]
  obtain b where ok: "debug_ok d"
    and str: "has_strings (debug_strings d) st'"
    and b: "\<forall>st''. table_ext st' st'' \<longrightarrow> b = debug_bytes (string_id st'') d"
    and get: "table_getitem 1 b t = (debug_attr_id a, t')"
    by (elim conjE exE)
  have "map_of t2 b = Some (debug_attr_id a)"
    using table_ext_lookup [OF assms(6) table_getitem_lookup [OF get]] .
  then have e: "table_entry t2 (debug_attr_id a) = Some b"
    by (rule table_entry_lookup [OF assms(7)])
  have "has_strings (debug_strings d) st2" using str assms(4) by (rule has_strings_ext)
  then have s: "\<forall>s \<in> debug_strings d. table_string st2 (string_id st2 s) = Some s"
    using table_string_id [OF assms(5)] by (auto simp: has_strings_def string_id_def)
  have "b = debug_bytes (string_id st2) d" using b assms(4) by blast
  with dec_debug_bytes [OF ok s] have "dec_debug (table_string st2) b = Some d" by (simp only:)
  with e show ?thesis by (intro exI conjI)
qed

lemma sample_debug_op:
  "debug_op (DescLoc (DebugAttrId 3) ''k.py'' 200 7) ([], []) =
     Inr (DebugAttrId 1, ([([107, 46, 112, 121], 0)], [([4, 3, 0, 200, 1, 7], 1)]))"
  by code_simp

theorem debug_attr_roundtrip_witness:
  "\<exists>b. table_entry [([4, 3, 0, 200, 1, 7], 1)] 1 = Some b \<and>
     dec_debug (table_string [([107, 46, 112, 121], 0)]) b = Some (DescLoc (DebugAttrId 3) ''k.py'' 200 7)"
  using debug_attr_roundtrip [OF sample_debug_op _ _ table_ext_refl _ table_ext_refl]
  by (simp add: table_wf_def)

end
