(* ===== verification/BcCode.thy ===== *)
theory BcCode
  imports BcDebug
begin

text \<open>
  \<^verbatim>\<open>_bytecode/code_builder.py\<close>: the builder that writes the operations of one function, its
  nested blocks and its operand encoders. A \<open>field\<close> is one writing call of an operation
  encoder and \<open>emit\<close> performs it; what a field appends is specified relative to the final
  string and constant tables.
\<close>

datatype Value = Value (value_id: nat)

record code_builder =
  buf :: bytes
  cb_version :: bytecode_version
  string_table :: table
  constant_table :: table
  debug_attr_per_op :: "DebugAttrId list"
  next_value_id :: nat
  cur_debug_attr :: DebugAttrId
  num_ops :: nat

section \<open>Values and operations\<close>

definition make_value_tuple :: "nat \<Rightarrow> code_builder \<Rightarrow> Value list \<times> code_builder" where
  "make_value_tuple n cb =
     (let end = next_value_id cb + n
      in (map Value [next_value_id cb ..< end], cb\<lparr>next_value_id := end\<rparr>))"

definition record_op :: "code_builder \<Rightarrow> code_builder" where
  "record_op cb =
     cb\<lparr>debug_attr_per_op := debug_attr_per_op cb @ [cur_debug_attr cb], num_ops := num_ops cb + 1\<rparr>"

text \<open>\<^verbatim>\<open>new_op(None)\<close> returns one value, \<^verbatim>\<open>new_op(n)\<close> a tuple, empty (None) for zero.\<close>

definition new_op :: "code_builder \<Rightarrow> Value \<times> code_builder" where
  "new_op cb =
     (let cb = record_op cb
      in (Value (next_value_id cb), cb\<lparr>next_value_id := next_value_id cb + 1\<rparr>))"

definition new_op_n :: "nat \<Rightarrow> code_builder \<Rightarrow> Value list \<times> code_builder" where
  "new_op_n num_results cb =
     (let cb = record_op cb
      in if num_results = 0 then ([], cb) else make_value_tuple num_results cb)"

definition lift_buf :: "(bytes \<Rightarrow> bytes res) \<Rightarrow> code_builder \<Rightarrow> code_builder res" where
  "lift_buf f cb = and_then (f (buf cb)) (\<lambda>b. Inr (cb\<lparr>buf := b\<rparr>))"

definition lift_str :: "(str_buf \<Rightarrow> str_buf res) \<Rightarrow> code_builder \<Rightarrow> code_builder res" where
  "lift_str f cb =
     and_then (f (string_table cb, buf cb)) (\<lambda>(st, b). Inr (cb\<lparr>string_table := st, buf := b\<rparr>))"

text \<open>\<^verbatim>\<open>with builder.debug_attr(id): body\<close>\<close>

definition with_debug_attr ::
  "DebugAttrId \<Rightarrow> (code_builder \<Rightarrow> code_builder res) \<Rightarrow> code_builder \<Rightarrow> code_builder res" where
  "with_debug_attr attr_id body cb =
     (let old = cur_debug_attr cb
      in and_then (body (cb\<lparr>cur_debug_attr := attr_id\<rparr>)) (\<lambda>cb. Inr (cb\<lparr>cur_debug_attr := old\<rparr>)))"

section \<open>Nested blocks\<close>

record NestedBlockBuilder =
  nb_num_results :: nat
  nb_num_blocks :: nat

definition new_op_with_nested_blocks ::
  "nat \<Rightarrow> nat \<Rightarrow> code_builder \<Rightarrow> (NestedBlockBuilder \<times> code_builder) res" where
  "new_op_with_nested_blocks num_results num_blocks cb =
     and_then (lift_buf (encode_varint (int num_blocks)) (record_op cb)) (\<lambda>cb.
       Inr (\<lparr>nb_num_results = num_results, nb_num_blocks = num_blocks\<rparr>, cb))"

text \<open>
  \<^verbatim>\<open>with nested.new_block(arg_type_ids) as args: body\<close> is a generator: \<open>new_block_enter\<close> is
  its code before the \<^verbatim>\<open>yield\<close> and returns the values saved for after it, \<open>new_block_exit\<close>
  the code after the \<^verbatim>\<open>yield\<close> with its \<^verbatim>\<open>finally\<close>. The body writes into a fresh buffer with
  the operation count at zero; the value numbering is restored afterwards.
\<close>

record block_saved =
  orig_buf :: bytes
  orig_next_value_id :: nat
  orig_num_ops :: nat

definition new_block_enter ::
  "TypeId list \<Rightarrow> NestedBlockBuilder \<times> code_builder
     \<Rightarrow> (Value list \<times> block_saved \<times> code_builder) res" where
  "new_block_enter arg_type_ids nc =
     (case nc of (nb, cb) \<Rightarrow>
       and_then (py_assert (nb_num_blocks nb > 0)) (\<lambda>_.
       and_then
         (run_steps
           [lift_buf (buf_append 1),
            lift_buf (encode_varint (int (length arg_type_ids))),
            lift_buf (fold_res encode_typeid arg_type_ids)] cb) (\<lambda>cb.
       let saved = \<lparr>orig_buf = buf cb, orig_next_value_id = next_value_id cb,
                    orig_num_ops = num_ops cb\<rparr>;
           (args, cb) = make_value_tuple (length arg_type_ids) (cb\<lparr>num_ops := 0, buf := []\<rparr>)
       in Inr (args, saved, cb))))"

definition new_block_exit ::
  "block_saved \<Rightarrow> NestedBlockBuilder \<times> code_builder \<Rightarrow> (NestedBlockBuilder \<times> code_builder) res" where
  "new_block_exit saved nc =
     (case nc of (nb, cb) \<Rightarrow>
       and_then (encode_varint (int (num_ops cb)) (orig_buf saved)) (\<lambda>b.
         Inr (nb\<lparr>nb_num_blocks := nb_num_blocks nb - 1\<rparr>,
              cb\<lparr>next_value_id := orig_next_value_id saved, num_ops := orig_num_ops saved,
                 buf := buf_extend (buf cb) b\<rparr>)))"

definition new_block ::
  "TypeId list \<Rightarrow> (Value list \<Rightarrow> code_builder \<Rightarrow> code_builder res)
     \<Rightarrow> NestedBlockBuilder \<times> code_builder \<Rightarrow> (NestedBlockBuilder \<times> code_builder) res" where
  "new_block arg_type_ids body nc =
     and_then (new_block_enter arg_type_ids nc) (\<lambda>(args, saved, cb).
     and_then (body args cb) (\<lambda>cb. new_block_exit saved (fst nc, cb)))"

definition nested_done ::
  "NestedBlockBuilder \<times> code_builder \<Rightarrow> (Value list \<times> code_builder) res" where
  "nested_done nc =
     (case nc of (nb, cb) \<Rightarrow>
       and_then (py_assert (nb_num_blocks nb = 0)) (\<lambda>_.
       Inr (make_value_tuple (nb_num_results nb) cb)))"

section \<open>Operation attributes and operands\<close>

definition encode_opattr_bool :: "bool \<Rightarrow> code_builder \<Rightarrow> code_builder res" where
  "encode_opattr_bool val = lift_buf (buf_append (of_bool val))"

definition encode_opattr_int :: "int \<Rightarrow> code_builder \<Rightarrow> code_builder res" where
  "encode_opattr_int val = lift_buf (encode_varint val)"

text \<open>The enumeration member is passed as its value, a bytes object.\<close>

definition encode_opattr_enum :: "bytes \<Rightarrow> code_builder \<Rightarrow> code_builder res" where
  "encode_opattr_enum val = lift_buf (\<lambda>b. Inr (buf_extend val b))"

definition encode_opattr_str :: "string \<Rightarrow> code_builder \<Rightarrow> code_builder res" where
  "encode_opattr_str val = lift_str (put_string val)"

definition encode_opattr_typeid :: "TypeId \<Rightarrow> code_builder \<Rightarrow> code_builder res" where
  "encode_opattr_typeid t = lift_buf (encode_typeid t)"

definition encode_opattr_tagged :: "attr \<Rightarrow> code_builder \<Rightarrow> code_builder res" where
  "encode_opattr_tagged val = lift_str (encode_tagged val)"

definition encode_opattr_array :: "attr list \<Rightarrow> code_builder \<Rightarrow> code_builder res" where
  "encode_opattr_array arr cb =
     and_then (lift_buf (encode_varint (int (length arr))) cb) (fold_res encode_opattr_tagged arr)"

definition encode_opattr_dense_typed_elements :: "bytes \<Rightarrow> code_builder \<Rightarrow> code_builder res" where
  "encode_opattr_dense_typed_elements val cb =
     and_then (dense_constant val (constant_table cb)) (\<lambda>(cid, ct).
       lift_buf (encode_varint (int (constant_id cid))) (cb\<lparr>constant_table := ct\<rparr>))"

definition encode_opattr_dense_int32_array :: "int list \<Rightarrow> code_builder \<Rightarrow> code_builder res" where
  "encode_opattr_dense_int32_array val = lift_buf (encode_int_list val 4)"

definition encode_opattr_dense_bool_array :: "bool list \<Rightarrow> code_builder \<Rightarrow> code_builder res" where
  "encode_opattr_dense_bool_array val = lift_buf (encode_int_list (map of_bool val) 1)"

definition encode_opattr_optimization_hints ::
  "(string \<times> attr) list \<Rightarrow> code_builder \<Rightarrow> code_builder res" where
  "encode_opattr_optimization_hints hints_by_arch = lift_str (encode_dictionary_untagged hints_by_arch)"

definition encode_operand :: "Value \<Rightarrow> bytes \<Rightarrow> bytes res" where
  "encode_operand val = encode_varint (int (value_id val))"

definition encode_optional_operand :: "Value option \<Rightarrow> bytes \<Rightarrow> bytes res" where
  "encode_optional_operand val b =
     (case val of None \<Rightarrow> Inr b | Some v \<Rightarrow> encode_varint (int (value_id v)) b)"

definition encode_unsized_variadic_operands :: "Value list \<Rightarrow> bytes \<Rightarrow> bytes res" where
  "encode_unsized_variadic_operands vals = fold_res (\<lambda>v. encode_varint (int (value_id v))) vals"

definition encode_sized_variadic_operands :: "Value list \<Rightarrow> bytes \<Rightarrow> bytes res" where
  "encode_sized_variadic_operands vals b =
     and_then (encode_varint (int (length vals)) b) (encode_unsized_variadic_operands vals)"

section \<open>Operations as sequences of writing calls\<close>

text \<open>
  One constructor per writing call an operation encoder makes; \<open>Require\<close> is an assertion
  or a conditional raise between the calls.
\<close>

datatype field =
    Varint int
  | ResType TypeId
  | ResTypes "TypeId list"
  | AttrBool bool
  | AttrEnum bytes
  | AttrInt int
  | AttrStr string
  | AttrTypeId TypeId
  | AttrArray "attr list"
  | AttrTagged attr
  | AttrDense bytes
  | AttrInt32Array "int list"
  | AttrBoolArray "bool list"
  | AttrHints "(string \<times> attr) list"
  | Operand Value
  | OptOperand "Value option"
  | UnsizedOperands "Value list"
  | SizedOperands "Value list"
  | Require bool py_error

fun emit :: "field \<Rightarrow> code_builder \<Rightarrow> code_builder res" where
  "emit (Varint x) = lift_buf (encode_varint x)"
| "emit (ResType t) = lift_buf (encode_typeid t)"
| "emit (ResTypes ts) = lift_buf (encode_sized_typeid_seq ts)"
| "emit (AttrBool b) = encode_opattr_bool b"
| "emit (AttrEnum v) = encode_opattr_enum v"
| "emit (AttrInt x) = encode_opattr_int x"
| "emit (AttrStr s) = encode_opattr_str s"
| "emit (AttrTypeId t) = encode_opattr_typeid t"
| "emit (AttrArray xs) = encode_opattr_array xs"
| "emit (AttrTagged a) = encode_opattr_tagged a"
| "emit (AttrDense bs) = encode_opattr_dense_typed_elements bs"
| "emit (AttrInt32Array xs) = encode_opattr_dense_int32_array xs"
| "emit (AttrBoolArray xs) = encode_opattr_dense_bool_array xs"
| "emit (AttrHints h) = encode_opattr_optimization_hints h"
| "emit (Operand v) = lift_buf (encode_operand v)"
| "emit (OptOperand v) = lift_buf (encode_optional_operand v)"
| "emit (UnsizedOperands vs) = lift_buf (encode_unsized_variadic_operands vs)"
| "emit (SizedOperands vs) = lift_buf (encode_sized_variadic_operands vs)"
| "emit (Require b e) = (\<lambda>cb. if b then Inr cb else Inl e)"

definition emit_all :: "field list \<Rightarrow> code_builder \<Rightarrow> code_builder res" where
  "emit_all fs = run_steps (map emit fs)"

text \<open>The four endings of an encoder: \<^verbatim>\<open>new_op()\<close>, \<^verbatim>\<open>new_op(0)\<close>, \<^verbatim>\<open>new_op(n)\<close>, nested blocks.\<close>

definition op_one :: "field list \<Rightarrow> code_builder \<Rightarrow> (Value \<times> code_builder) res" where
  "op_one fs cb = and_then (emit_all fs cb) (\<lambda>cb. Inr (new_op cb))"

definition op_none :: "field list \<Rightarrow> code_builder \<Rightarrow> code_builder res" where
  "op_none fs cb = and_then (emit_all fs cb) (\<lambda>cb. Inr (snd (new_op_n 0 cb)))"

definition op_many :: "nat \<Rightarrow> field list \<Rightarrow> code_builder \<Rightarrow> (Value list \<times> code_builder) res" where
  "op_many n fs cb = and_then (emit_all fs cb) (\<lambda>cb. Inr (new_op_n n cb))"

definition op_blocks ::
  "nat \<Rightarrow> nat \<Rightarrow> field list \<Rightarrow> code_builder \<Rightarrow> (NestedBlockBuilder \<times> code_builder) res" where
  "op_blocks num_results num_blocks fs cb =
     and_then (emit_all fs cb) (new_op_with_nested_blocks num_results num_blocks)"

section \<open>What a field appends\<close>

text \<open>
  \<open>cb_ext\<close>: the builder has only appended to its buffer and added table entries; the
  counters, the version and the debug attributes are as before.
\<close>

definition cb_ext :: "code_builder \<Rightarrow> code_builder \<Rightarrow> bool" where
  "cb_ext cb cb' \<longleftrightarrow>
     (\<exists>bs st ct. cb' = cb\<lparr>buf := buf cb @ bs, string_table := st, constant_table := ct\<rparr>
        \<and> table_ext (string_table cb) st \<and> table_ext (constant_table cb) ct
        \<and> (table_wf 0 (string_table cb) \<longrightarrow> table_wf 0 st)
        \<and> (table_wf 0 (constant_table cb) \<longrightarrow> table_wf 0 ct))"

lemma cb_ext_refl [simp, intro]: "cb_ext cb cb"
  unfolding cb_ext_def by (intro exI [of _ "[]"] exI [of _ "string_table cb"] exI [of _ "constant_table cb"]) simp

lemma cb_ext_trans: "cb_ext a b \<Longrightarrow> cb_ext b c \<Longrightarrow> cb_ext a c"
  unfolding cb_ext_def by clarsimp (blast intro: table_ext_trans)

text \<open>Steps on the buffer alone that only append.\<close>

definition only_appends :: "(bytes \<Rightarrow> bytes res) \<Rightarrow> bool" where
  "only_appends f \<longleftrightarrow> (\<forall>b b'. f b = Inr b' \<longrightarrow> (\<exists>bs. b' = b @ bs))"

lemma only_appends_varint [appends_intros]: "only_appends (encode_varint x)"
  by (auto simp: only_appends_def encode_varint_eq split: if_splits)

lemma only_appends_append [appends_intros]: "only_appends (buf_append x)"
  by (auto simp: only_appends_def buf_append_def split: if_splits)

lemma only_appends_extend [appends_intros]: "only_appends (\<lambda>b. Inr (buf_extend bs b))"
  by (auto simp: only_appends_def buf_extend_def)

lemma only_appends_typeid [appends_intros]: "only_appends (encode_typeid t)"
  by (auto simp: only_appends_def tid.write_eq)

lemma only_appends_fold [appends_intros]:
  assumes "\<And>x. only_appends (f x)"
  shows "only_appends (fold_res f xs)"
proof -
  have "fold_res f xs b = Inr b' \<Longrightarrow> \<exists>bs. b' = b @ bs" for b b'
  proof (induction xs arbitrary: b)
    case (Cons x xs)
    then obtain b1 where "f x b = Inr b1" "fold_res f xs b1 = Inr b'"
      by (auto simp: and_then_Inr_iff)
    then show ?case using Cons.IH [of b1] assms [of x] by (fastforce simp: only_appends_def)
  qed simp
  then show ?thesis by (simp add: only_appends_def)
qed

lemma only_appends_then [appends_intros]:
  "only_appends f \<Longrightarrow> only_appends g \<Longrightarrow> only_appends (\<lambda>b. and_then (f b) g)"
  by (fastforce simp: only_appends_def and_then_Inr_iff)

lemma only_appends_int_list [appends_intros]: "only_appends (encode_int_list xs w)"
  unfolding encode_int_list_def
  by (intro appends_intros) (auto simp: only_appends_def and_then_Inr_iff buf_extend_def)

lemma only_appends_typeids [appends_intros]: "only_appends (encode_sized_typeid_seq ts)"
  unfolding encode_sized_typeid_seq_def by (intro appends_intros)

lemma only_appends_operands [appends_intros]:
  "only_appends (encode_operand v)"
  "only_appends (encode_optional_operand ov)"
  "only_appends (encode_unsized_variadic_operands vs)"
  "only_appends (encode_sized_variadic_operands vs)"
proof -
  show "only_appends (encode_operand v)"
    unfolding encode_operand_def by (intro appends_intros)
  show "only_appends (encode_optional_operand ov)"
    by (cases ov) (auto simp: encode_optional_operand_def only_appends_def encode_varint_eq)
  show uns: "only_appends (encode_unsized_variadic_operands vs)"
    unfolding encode_unsized_variadic_operands_def by (intro appends_intros)
  show "only_appends (encode_sized_variadic_operands vs)"
    unfolding encode_sized_variadic_operands_def by (intro appends_intros uns)
qed

lemma lift_buf_ext: "only_appends f \<Longrightarrow> lift_buf f cb = Inr cb' \<Longrightarrow> cb_ext cb cb'"
proof -
  assume f: "only_appends f" and run: "lift_buf f cb = Inr cb'"
  then obtain bs where "cb' = cb\<lparr>buf := buf cb @ bs\<rparr>"
    by (auto simp: lift_buf_def and_then_Inr_iff only_appends_def)
  then show ?thesis
    unfolding cb_ext_def
    by (intro exI [of _ bs] exI [of _ "string_table cb"] exI [of _ "constant_table cb"]) simp
qed

lemma lift_str_ext: "appends S f e \<Longrightarrow> lift_str f cb = Inr cb' \<Longrightarrow> cb_ext cb cb'"
proof -
  assume f: "appends S f e" and run: "lift_str f cb = Inr cb'"
  then obtain st b where 1: "f (string_table cb, buf cb) = Inr (st, b)"
    and cb': "cb' = cb\<lparr>string_table := st, buf := b\<rparr>"
    by (auto simp: lift_str_def and_then_Inr_iff)
  note A = appendsD [OF f 1]
  show ?thesis
    unfolding cb_ext_def cb'
    by (rule exI [of _ "e (string_id st)"], rule exI [of _ st], rule exI [of _ "constant_table cb"])
      (use A(1,2) A(4) [OF table_ext_refl] in simp)
qed

lemma fold_res_cb_ext:
  assumes "\<And>x cb cb'. f x cb = Inr cb' \<Longrightarrow> cb_ext cb cb'"
  shows "fold_res f xs cb = Inr cb' \<Longrightarrow> cb_ext cb cb'"
proof (induction xs arbitrary: cb)
  case (Cons x xs)
  then obtain cb1 where "f x cb = Inr cb1" "fold_res f xs cb1 = Inr cb'"
    by (auto simp: and_then_Inr_iff)
  then show ?case using Cons.IH assms cb_ext_trans by blast
qed simp

lemma dense_constant_ext:
  assumes "dense_constant val t = Inr (cid, t')"
  shows "table_ext t t'" and "table_wf 0 t \<Longrightarrow> table_wf 0 t'"
proof -
  have "\<exists>k i. table_getitem 0 k t = (i, t')"
    using assms
    by (auto simp: dense_constant_def and_then_Inr_iff Let_def case_prod_beta prod_eq_iff)
  then show "table_ext t t'" and "table_wf 0 t \<Longrightarrow> table_wf 0 t'"
    by (blast intro: table_getitem_ext table_getitem_wf)+
qed

lemma emit_dense_ext:
  assumes "encode_opattr_dense_typed_elements val cb = Inr cb'"
  shows "cb_ext cb cb'"
proof -
  from assms obtain cid ct where 1: "dense_constant val (constant_table cb) = Inr (cid, ct)"
    and 2: "lift_buf (encode_varint (int (constant_id cid))) (cb\<lparr>constant_table := ct\<rparr>) = Inr cb'"
    by (auto simp: encode_opattr_dense_typed_elements_def and_then_Inr_iff)
  have "cb_ext cb (cb\<lparr>constant_table := ct\<rparr>)"
    unfolding cb_ext_def
    by (intro exI [of _ "[]"] exI [of _ "string_table cb"] exI [of _ ct])
      (use dense_constant_ext [OF 1] in simp)
  then show ?thesis
    using lift_buf_ext [OF only_appends_varint 2] by (rule cb_ext_trans)
qed

lemma encode_opattr_tagged_ext: "encode_opattr_tagged a cb = Inr cb' \<Longrightarrow> cb_ext cb cb'"
  unfolding encode_opattr_tagged_def by (rule lift_str_ext [OF appends_encode_tagged])

lemma encode_opattr_array_ext:
  assumes "encode_opattr_array xs cb = Inr cb'"
  shows "cb_ext cb cb'"
proof -
  from assms obtain cb1 where 1: "lift_buf (encode_varint (int (length xs))) cb = Inr cb1"
    and 2: "fold_res encode_opattr_tagged xs cb1 = Inr cb'"
    by (auto simp: encode_opattr_array_def and_then_Inr_iff)
  show ?thesis
    by (rule cb_ext_trans [OF lift_buf_ext [OF only_appends_varint 1]
          fold_res_cb_ext [OF encode_opattr_tagged_ext 2]])
qed

lemmas lift_ext_rules =
  lift_buf_ext [OF only_appends_varint] lift_buf_ext [OF only_appends_append]
  lift_buf_ext [OF only_appends_extend] lift_buf_ext [OF only_appends_typeid]
  lift_buf_ext [OF only_appends_typeids] lift_buf_ext [OF only_appends_int_list]
  lift_buf_ext [OF only_appends_operands(1)] lift_buf_ext [OF only_appends_operands(2)]
  lift_buf_ext [OF only_appends_operands(3)] lift_buf_ext [OF only_appends_operands(4)]
  lift_str_ext [OF appends_put_string] lift_str_ext [OF appends_encode_dictionary]
  encode_opattr_tagged_ext encode_opattr_array_ext emit_dense_ext

lemma emit_ext:
  assumes "emit f cb = Inr cb'"
  shows "cb_ext cb cb'"
proof (cases f)
  case (Require b e)
  then show ?thesis using assms by (auto split: if_splits)
qed (use assms in \<open>auto simp: encode_opattr_bool_def encode_opattr_int_def encode_opattr_enum_def
    encode_opattr_str_def encode_opattr_typeid_def
    encode_opattr_dense_int32_array_def encode_opattr_dense_bool_array_def
    encode_opattr_optimization_hints_def dest: lift_ext_rules\<close>)

lemma emit_all_ext: "emit_all fs cb = Inr cb' \<Longrightarrow> cb_ext cb cb'"
  unfolding emit_all_def
proof (induction fs arbitrary: cb)
  case (Cons f fs)
  then obtain cb1 where "emit f cb = Inr cb1" "run_steps (map emit fs) cb1 = Inr cb'"
    by (auto simp: and_then_Inr_iff)
  then show ?case using Cons.IH emit_ext cb_ext_trans by blast
qed simp

lemma cb_extD:
  assumes "cb_ext cb cb'"
  shows "cb_version cb' = cb_version cb" and "debug_attr_per_op cb' = debug_attr_per_op cb"
    and "next_value_id cb' = next_value_id cb" and "cur_debug_attr cb' = cur_debug_attr cb"
    and "num_ops cb' = num_ops cb" and "\<exists>bs. buf cb' = buf cb @ bs"
    and "table_ext (string_table cb) (string_table cb')"
    and "table_ext (constant_table cb) (constant_table cb')"
    and "table_wf 0 (string_table cb) \<Longrightarrow> table_wf 0 (string_table cb')"
    and "table_wf 0 (constant_table cb) \<Longrightarrow> table_wf 0 (constant_table cb')"
  using assms unfolding cb_ext_def by auto

lemma emit_all_opcode:
  assumes "emit_all (Varint n # fs) cb = Inr cb'"
  shows "0 \<le> n" and "\<exists>bs. buf cb' = buf cb @ varint n @ bs"
proof -
  from assms obtain cb1 where 1: "lift_buf (encode_varint n) cb = Inr cb1" and 2: "emit_all fs cb1 = Inr cb'"
    by (auto simp: emit_all_def and_then_Inr_iff)
  from 1 show "0 \<le> n" by (auto simp: lift_buf_def encode_varint_eq split: if_splits)
  with 1 have "buf cb1 = buf cb @ varint n" by (auto simp: lift_buf_def encode_varint_eq)
  with cb_extD(6) [OF emit_all_ext [OF 2]] show "\<exists>bs. buf cb' = buf cb @ varint n @ bs" by auto
qed
end
