(* ===== verification/BcOps1.thy ===== *)
theory BcOps1
  imports BcCode
begin

text \<open>
  The generated operation encoders of \<^verbatim>\<open>_bytecode/encodings.py\<close>, first half: the enumerations
  and the operations from AbsF to Log2. Each definition lists the writing calls of its
  Python function in order; parameters keep their names (with \<open>_v\<close> where the name is taken).
\<close>

section \<open>Enumerations\<close>

datatype AtomicRMWMode =
    RMW_AND | RMW_OR | RMW_XOR | RMW_ADD | RMW_ADDF | RMW_MAX | RMW_MIN | RMW_UMAX | RMW_UMIN | RMW_XCHG

fun AtomicRMWMode_value :: "AtomicRMWMode \<Rightarrow> bytes" where
  "AtomicRMWMode_value RMW_AND = [0x00]"
| "AtomicRMWMode_value RMW_OR = [0x01]"
| "AtomicRMWMode_value RMW_XOR = [0x02]"
| "AtomicRMWMode_value RMW_ADD = [0x03]"
| "AtomicRMWMode_value RMW_ADDF = [0x04]"
| "AtomicRMWMode_value RMW_MAX = [0x05]"
| "AtomicRMWMode_value RMW_MIN = [0x06]"
| "AtomicRMWMode_value RMW_UMAX = [0x07]"
| "AtomicRMWMode_value RMW_UMIN = [0x08]"
| "AtomicRMWMode_value RMW_XCHG = [0x09]"

datatype ComparisonOrdering =
    ORD_UNORDERED | ORD_ORDERED

fun ComparisonOrdering_value :: "ComparisonOrdering \<Rightarrow> bytes" where
  "ComparisonOrdering_value ORD_UNORDERED = [0x00]"
| "ComparisonOrdering_value ORD_ORDERED = [0x01]"

datatype ComparisonPredicate =
    CMP_EQUAL | CMP_NOT_EQUAL | CMP_LESS_THAN | CMP_LESS_THAN_OR_EQUAL | CMP_GREATER_THAN | CMP_GREATER_THAN_OR_EQUAL

fun ComparisonPredicate_value :: "ComparisonPredicate \<Rightarrow> bytes" where
  "ComparisonPredicate_value CMP_EQUAL = [0x00]"
| "ComparisonPredicate_value CMP_NOT_EQUAL = [0x01]"
| "ComparisonPredicate_value CMP_LESS_THAN = [0x02]"
| "ComparisonPredicate_value CMP_LESS_THAN_OR_EQUAL = [0x03]"
| "ComparisonPredicate_value CMP_GREATER_THAN = [0x04]"
| "ComparisonPredicate_value CMP_GREATER_THAN_OR_EQUAL = [0x05]"

datatype GpuArchitecture =
    GPU_SM_80 | GPU_SM_86 | GPU_SM_87 | GPU_SM_88 | GPU_SM_89 | GPU_SM_90 | GPU_SM_100 | GPU_SM_103 | GPU_SM_110 | GPU_SM_120 | GPU_SM_121

fun GpuArchitecture_value :: "GpuArchitecture \<Rightarrow> bytes" where
  "GpuArchitecture_value GPU_SM_80 = [0x50]"
| "GpuArchitecture_value GPU_SM_86 = [0x56]"
| "GpuArchitecture_value GPU_SM_87 = [0x57]"
| "GpuArchitecture_value GPU_SM_88 = [0x58]"
| "GpuArchitecture_value GPU_SM_89 = [0x59]"
| "GpuArchitecture_value GPU_SM_90 = [0x5a]"
| "GpuArchitecture_value GPU_SM_100 = [0x64]"
| "GpuArchitecture_value GPU_SM_103 = [0x67]"
| "GpuArchitecture_value GPU_SM_110 = [0x6e]"
| "GpuArchitecture_value GPU_SM_120 = [0x78]"
| "GpuArchitecture_value GPU_SM_121 = [0x79]"

datatype HintKey =
    HINT_NumCTAInCGA | HINT_Occupancy | HINT_AllowTMA | HINT_Latency | HINT_NumWorkerWarpsPerCTA

fun HintKey_value :: "HintKey \<Rightarrow> bytes" where
  "HintKey_value HINT_NumCTAInCGA = [0x00]"
| "HintKey_value HINT_Occupancy = [0x01]"
| "HintKey_value HINT_AllowTMA = [0x02]"
| "HintKey_value HINT_Latency = [0x03]"
| "HintKey_value HINT_NumWorkerWarpsPerCTA = [0x04]"

datatype IntegerOverflow =
    OVF_NONE | OVF_NSW | OVF_NUW | OVF_NW

fun IntegerOverflow_value :: "IntegerOverflow \<Rightarrow> bytes" where
  "IntegerOverflow_value OVF_NONE = [0x00]"
| "IntegerOverflow_value OVF_NSW = [0x01]"
| "IntegerOverflow_value OVF_NUW = [0x02]"
| "IntegerOverflow_value OVF_NW = [0x03]"

datatype MemoryOrderingSemantics =
    MOS_WEAK | MOS_RELAXED | MOS_ACQUIRE | MOS_RELEASE | MOS_ACQ_REL

fun MemoryOrderingSemantics_value :: "MemoryOrderingSemantics \<Rightarrow> bytes" where
  "MemoryOrderingSemantics_value MOS_WEAK = [0x00]"
| "MemoryOrderingSemantics_value MOS_RELAXED = [0x01]"
| "MemoryOrderingSemantics_value MOS_ACQUIRE = [0x02]"
| "MemoryOrderingSemantics_value MOS_RELEASE = [0x03]"
| "MemoryOrderingSemantics_value MOS_ACQ_REL = [0x04]"

datatype MemoryScope =
    MSC_TL_BLK | MSC_DEVICE | MSC_SYS

fun MemoryScope_value :: "MemoryScope \<Rightarrow> bytes" where
  "MemoryScope_value MSC_TL_BLK = [0x00]"
| "MemoryScope_value MSC_DEVICE = [0x01]"
| "MemoryScope_value MSC_SYS = [0x02]"

datatype MultimemReductionKind =
    MRK_ADD | MRK_MIN | MRK_MAX | MRK_AND | MRK_OR | MRK_XOR

fun MultimemReductionKind_value :: "MultimemReductionKind \<Rightarrow> bytes" where
  "MultimemReductionKind_value MRK_ADD = [0x00]"
| "MultimemReductionKind_value MRK_MIN = [0x01]"
| "MultimemReductionKind_value MRK_MAX = [0x02]"
| "MultimemReductionKind_value MRK_AND = [0x03]"
| "MultimemReductionKind_value MRK_OR = [0x04]"
| "MultimemReductionKind_value MRK_XOR = [0x05]"

datatype RoundingMode =
    RM_NEAREST_EVEN | RM_ZERO | RM_NEGATIVE_INF | RM_POSITIVE_INF | RM_APPROX | RM_FULL | RM_NEAREST_INT_TO_ZERO | RM_NEAREST_AWAY

fun RoundingMode_value :: "RoundingMode \<Rightarrow> bytes" where
  "RoundingMode_value RM_NEAREST_EVEN = [0x00]"
| "RoundingMode_value RM_ZERO = [0x01]"
| "RoundingMode_value RM_NEGATIVE_INF = [0x02]"
| "RoundingMode_value RM_POSITIVE_INF = [0x03]"
| "RoundingMode_value RM_APPROX = [0x04]"
| "RoundingMode_value RM_FULL = [0x05]"
| "RoundingMode_value RM_NEAREST_INT_TO_ZERO = [0x06]"
| "RoundingMode_value RM_NEAREST_AWAY = [0x07]"

datatype Signedness =
    SGN_Unsigned | SGN_Signed

fun Signedness_value :: "Signedness \<Rightarrow> bytes" where
  "Signedness_value SGN_Unsigned = [0x00]"
| "Signedness_value SGN_Signed = [0x01]"

datatype SymbolVisibility =
    VIS_Public | VIS_Private

fun SymbolVisibility_value :: "SymbolVisibility \<Rightarrow> bytes" where
  "SymbolVisibility_value VIS_Public = [0x00]"
| "SymbolVisibility_value VIS_Private = [0x01]"

section \<open>Operations\<close>

definition encode_AbsFOp ::
  "TypeId \<Rightarrow> Value \<Rightarrow> code_builder \<Rightarrow> (Value \<times> code_builder) res" where
  "encode_AbsFOp result_type source_v cb =
     op_one
      [Varint 0, ResType result_type, Operand source_v] cb"

definition encode_AbsIOp ::
  "TypeId \<Rightarrow> Value \<Rightarrow> code_builder \<Rightarrow> (Value \<times> code_builder) res" where
  "encode_AbsIOp result_type source_v cb =
     op_one
      [Varint 1, ResType result_type, Operand source_v] cb"

definition encode_AddFOp ::
  "TypeId \<Rightarrow> Value \<Rightarrow> Value \<Rightarrow> RoundingMode \<Rightarrow> bool
      \<Rightarrow> code_builder \<Rightarrow> (Value \<times> code_builder) res" where
  "encode_AddFOp result_type lhs rhs rounding_mode flush_to_zero cb =
     op_one
      [Varint 2, ResType result_type, Varint (of_bool flush_to_zero),
          AttrEnum (RoundingMode_value rounding_mode), Operand lhs, Operand rhs] cb"

definition encode_AddIOp ::
  "TypeId \<Rightarrow> Value \<Rightarrow> Value \<Rightarrow> IntegerOverflow \<Rightarrow> code_builder
      \<Rightarrow> (Value \<times> code_builder) res" where
  "encode_AddIOp result_type lhs rhs overflow_v cb =
     op_one
      [Varint 3, ResType result_type, AttrEnum (IntegerOverflow_value overflow_v),
          Operand lhs, Operand rhs] cb"

definition encode_AllocaOp ::
  "TypeId \<Rightarrow> int \<Rightarrow> int \<Rightarrow> bool \<Rightarrow> code_builder
      \<Rightarrow> (Value \<times> code_builder) res" where
  "encode_AllocaOp result_type num_elem alignment global_v cb =
     op_one
      [Varint 113, ResType result_type, Varint (of_bool global_v), AttrInt num_elem,
          AttrInt alignment] cb"

definition encode_AndIOp ::
  "TypeId \<Rightarrow> Value \<Rightarrow> Value \<Rightarrow> code_builder
      \<Rightarrow> (Value \<times> code_builder) res" where
  "encode_AndIOp result_type lhs rhs cb =
     op_one
      [Varint 4, ResType result_type, Operand lhs, Operand rhs] cb"

definition encode_AssertOp ::
  "Value \<Rightarrow> string \<Rightarrow> code_builder \<Rightarrow> code_builder res" where
  "encode_AssertOp condition_v message_v cb =
     op_none
      [Varint 5, AttrStr message_v, Operand condition_v] cb"

definition encode_AssumeOp ::
  "TypeId \<Rightarrow> Value \<Rightarrow> attr \<Rightarrow> code_builder
      \<Rightarrow> (Value \<times> code_builder) res" where
  "encode_AssumeOp result_type value_v predicate_v cb =
     op_one
      [Varint 6, ResType result_type,
          Require (is_AssumePredicate predicate_v) AssertionError, AttrTagged predicate_v,
          Operand value_v] cb"

definition encode_Atan2Op ::
  "TypeId \<Rightarrow> Value \<Rightarrow> Value \<Rightarrow> code_builder
      \<Rightarrow> (Value \<times> code_builder) res" where
  "encode_Atan2Op result_type x y cb =
     op_one
      [Varint 110, ResType result_type, Operand x, Operand y] cb"

definition encode_AtomicCASTkoOp ::
  "TypeId \<Rightarrow> TypeId \<Rightarrow> Value \<Rightarrow> Value \<Rightarrow> Value
      \<Rightarrow> Value option \<Rightarrow> Value option \<Rightarrow> MemoryOrderingSemantics
      \<Rightarrow> MemoryScope \<Rightarrow> code_builder \<Rightarrow> (Value list \<times> code_builder) res" where
  "encode_AtomicCASTkoOp result_type result_token_type pointers cmp_v val_v mask_v token_v memory_ordering_semantics memory_scope cb =
     op_many 2
      [Varint 7, ResType result_type, ResType result_token_type,
          Varint (of_bool (mask_v \<noteq> None) OR push_bit 1 (of_bool (token_v \<noteq> None))),
          AttrEnum (MemoryOrderingSemantics_value memory_ordering_semantics),
          AttrEnum (MemoryScope_value memory_scope), Operand pointers, Operand cmp_v,
          Operand val_v, OptOperand mask_v, OptOperand token_v] cb"

definition encode_AtomicRMWTkoOp ::
  "TypeId \<Rightarrow> TypeId \<Rightarrow> Value \<Rightarrow> Value \<Rightarrow> Value option
      \<Rightarrow> Value option \<Rightarrow> MemoryOrderingSemantics \<Rightarrow> MemoryScope
      \<Rightarrow> AtomicRMWMode \<Rightarrow> code_builder
      \<Rightarrow> (Value list \<times> code_builder) res" where
  "encode_AtomicRMWTkoOp result_type result_token_type pointers arg mask_v token_v memory_ordering_semantics memory_scope mode_v cb =
     op_many 2
      [Varint 8, ResType result_type, ResType result_token_type,
          Varint (of_bool (mask_v \<noteq> None) OR push_bit 1 (of_bool (token_v \<noteq> None))),
          AttrEnum (MemoryOrderingSemantics_value memory_ordering_semantics),
          AttrEnum (MemoryScope_value memory_scope), AttrEnum (AtomicRMWMode_value mode_v),
          Operand pointers, Operand arg, OptOperand mask_v, OptOperand token_v] cb"

definition encode_AtomicRedViewTkoOp ::
  "TypeId \<Rightarrow> Value \<Rightarrow> Value list \<Rightarrow> Value \<Rightarrow> Value option
      \<Rightarrow> MemoryOrderingSemantics \<Rightarrow> MemoryScope \<Rightarrow> AtomicRMWMode
      \<Rightarrow> code_builder \<Rightarrow> (Value \<times> code_builder) res" where
  "encode_AtomicRedViewTkoOp result_token_type view_v index_v value_v token_v memory_ordering_semantics memory_scope mode_v cb =
     op_one
      [Varint 117, ResTypes [result_token_type],
          Varint (of_bool (token_v \<noteq> None)),
          AttrEnum (MemoryOrderingSemantics_value memory_ordering_semantics),
          AttrEnum (MemoryScope_value memory_scope), AttrEnum (AtomicRMWMode_value mode_v),
          Operand view_v, SizedOperands index_v, Operand value_v, OptOperand token_v] cb"

definition encode_BitcastOp ::
  "TypeId \<Rightarrow> Value \<Rightarrow> code_builder \<Rightarrow> (Value \<times> code_builder) res" where
  "encode_BitcastOp result_type source_v cb =
     op_one
      [Varint 9, ResType result_type, Operand source_v] cb"

definition encode_BreakOp ::
  "Value list \<Rightarrow> code_builder \<Rightarrow> code_builder res" where
  "encode_BreakOp operands cb =
     op_none
      [Varint 10, ResTypes [], Varint (int (length operands)), UnsizedOperands operands] cb"

definition encode_BroadcastOp ::
  "TypeId \<Rightarrow> Value \<Rightarrow> code_builder \<Rightarrow> (Value \<times> code_builder) res" where
  "encode_BroadcastOp result_type source_v cb =
     op_one
      [Varint 11, ResType result_type, Operand source_v] cb"

definition encode_CatOp ::
  "TypeId \<Rightarrow> Value \<Rightarrow> Value \<Rightarrow> int \<Rightarrow> code_builder
      \<Rightarrow> (Value \<times> code_builder) res" where
  "encode_CatOp result_type lhs rhs dim cb =
     op_one
      [Varint 12, ResType result_type, AttrInt dim, Operand lhs, Operand rhs] cb"

definition encode_CeilOp ::
  "TypeId \<Rightarrow> Value \<Rightarrow> code_builder \<Rightarrow> (Value \<times> code_builder) res" where
  "encode_CeilOp result_type source_v cb =
     op_one
      [Varint 13, ResType result_type, Operand source_v] cb"

definition encode_CmpFOp ::
  "TypeId \<Rightarrow> Value \<Rightarrow> Value \<Rightarrow> ComparisonPredicate
      \<Rightarrow> ComparisonOrdering \<Rightarrow> code_builder
      \<Rightarrow> (Value \<times> code_builder) res" where
  "encode_CmpFOp result_type lhs rhs comparison_predicate comparison_ordering cb =
     op_one
      [Varint 14, ResType result_type,
          AttrEnum (ComparisonPredicate_value comparison_predicate),
          AttrEnum (ComparisonOrdering_value comparison_ordering), Operand lhs, Operand rhs] cb"

definition encode_CmpIOp ::
  "TypeId \<Rightarrow> Value \<Rightarrow> Value \<Rightarrow> ComparisonPredicate \<Rightarrow> Signedness
      \<Rightarrow> code_builder \<Rightarrow> (Value \<times> code_builder) res" where
  "encode_CmpIOp result_type lhs rhs comparison_predicate signedness cb =
     op_one
      [Varint 15, ResType result_type,
          AttrEnum (ComparisonPredicate_value comparison_predicate),
          AttrEnum (Signedness_value signedness), Operand lhs, Operand rhs] cb"

definition encode_ConstantOp ::
  "TypeId \<Rightarrow> bytes \<Rightarrow> code_builder \<Rightarrow> (Value \<times> code_builder) res" where
  "encode_ConstantOp result_type value_v cb =
     op_one
      [Varint 16, ResType result_type, AttrDense value_v] cb"

definition encode_ContinueOp ::
  "Value list \<Rightarrow> code_builder \<Rightarrow> code_builder res" where
  "encode_ContinueOp operands cb =
     op_none
      [Varint 17, ResTypes [], Varint (int (length operands)), UnsizedOperands operands] cb"

definition encode_CosHOp ::
  "TypeId \<Rightarrow> Value \<Rightarrow> code_builder \<Rightarrow> (Value \<times> code_builder) res" where
  "encode_CosHOp result_type source_v cb =
     op_one
      [Varint 19, ResType result_type, Operand source_v] cb"

definition encode_CosOp ::
  "TypeId \<Rightarrow> Value \<Rightarrow> code_builder \<Rightarrow> (Value \<times> code_builder) res" where
  "encode_CosOp result_type source_v cb =
     op_one
      [Varint 18, ResType result_type, Operand source_v] cb"

definition encode_DivFOp ::
  "TypeId \<Rightarrow> Value \<Rightarrow> Value \<Rightarrow> RoundingMode \<Rightarrow> bool
      \<Rightarrow> code_builder \<Rightarrow> (Value \<times> code_builder) res" where
  "encode_DivFOp result_type lhs rhs rounding_mode flush_to_zero cb =
     op_one
      [Varint 20, ResType result_type, Varint (of_bool flush_to_zero),
          AttrEnum (RoundingMode_value rounding_mode), Operand lhs, Operand rhs] cb"

definition encode_DivIOp ::
  "TypeId \<Rightarrow> Value \<Rightarrow> Value \<Rightarrow> Signedness \<Rightarrow> RoundingMode
      \<Rightarrow> code_builder \<Rightarrow> (Value \<times> code_builder) res" where
  "encode_DivIOp result_type lhs rhs signedness rounding cb =
     op_one
      [Varint 21, ResType result_type, AttrEnum (Signedness_value signedness),
          AttrEnum (RoundingMode_value rounding), Operand lhs, Operand rhs] cb"

definition encode_EntryOp ::
  "string \<Rightarrow> TypeId \<Rightarrow> (attr list) option \<Rightarrow> (attr list) option
      \<Rightarrow> ((string \<times> attr) list) option \<Rightarrow> code_builder
      \<Rightarrow> (NestedBlockBuilder \<times> code_builder) res" where
  "encode_EntryOp sym_name function_type arg_attrs res_attrs optimization_hints cb =
     op_blocks 0 1
      ([Varint 22,
          Varint (of_bool (arg_attrs \<noteq> None) OR push_bit 1 (of_bool (res_attrs \<noteq> None)) OR push_bit 2 (of_bool (optimization_hints \<noteq> None))),
          AttrStr sym_name, AttrTypeId function_type]
       @ (case arg_attrs of None \<Rightarrow> [] | Some arg_attrs \<Rightarrow> [AttrArray arg_attrs])
       @ (case res_attrs of None \<Rightarrow> [] | Some res_attrs \<Rightarrow> [AttrArray res_attrs])
       @ (case optimization_hints of None \<Rightarrow> [] | Some optimization_hints \<Rightarrow> [AttrHints optimization_hints])) cb"

definition encode_Exp2Op ::
  "TypeId \<Rightarrow> Value \<Rightarrow> bool \<Rightarrow> code_builder
      \<Rightarrow> (Value \<times> code_builder) res" where
  "encode_Exp2Op result_type source_v flush_to_zero cb =
     op_one
      [Varint 24, ResType result_type, Varint (of_bool flush_to_zero), Operand source_v] cb"

definition encode_ExpOp ::
  "TypeId \<Rightarrow> Value \<Rightarrow> RoundingMode \<Rightarrow> code_builder
      \<Rightarrow> (Value \<times> code_builder) res" where
  "encode_ExpOp result_type source_v rounding_mode cb =
     op_one
      ([Varint 23, ResType result_type]
       @ (if cb_version cb \<ge> V_13_3
         then [AttrEnum (RoundingMode_value rounding_mode)]
         else [Require (rounding_mode = RM_FULL) AssertionError])
       @ [Operand source_v]) cb"

definition encode_ExtIOp ::
  "TypeId \<Rightarrow> Value \<Rightarrow> Signedness \<Rightarrow> code_builder
      \<Rightarrow> (Value \<times> code_builder) res" where
  "encode_ExtIOp to_type from_v signedness cb =
     op_one
      [Varint 37, ResType to_type, AttrEnum (Signedness_value signedness), Operand from_v] cb"

definition encode_ExtractOp ::
  "TypeId \<Rightarrow> Value \<Rightarrow> Value list \<Rightarrow> code_builder
      \<Rightarrow> (Value \<times> code_builder) res" where
  "encode_ExtractOp result_type source_v indices cb =
     op_one
      [Varint 38, ResTypes [result_type], Varint (1 + int (length indices)),
          Operand source_v, UnsizedOperands indices] cb"

definition encode_FPowFOp ::
  "TypeId \<Rightarrow> Value \<Rightarrow> Value \<Rightarrow> code_builder
      \<Rightarrow> (Value \<times> code_builder) res" where
  "encode_FPowFOp result_type source_v exponent cb =
     op_one
      [Varint 84, ResType result_type, Operand source_v, Operand exponent] cb"

definition encode_FPowIOp ::
  "TypeId \<Rightarrow> Value \<Rightarrow> Value \<Rightarrow> code_builder
      \<Rightarrow> (Value \<times> code_builder) res" where
  "encode_FPowIOp result_type source_v exponent cb =
     op_one
      [Varint 130, ResType result_type, Operand source_v, Operand exponent] cb"

definition encode_FToFOp ::
  "TypeId \<Rightarrow> Value \<Rightarrow> RoundingMode \<Rightarrow> code_builder
      \<Rightarrow> (Value \<times> code_builder) res" where
  "encode_FToFOp to_type from_v rounding_mode cb =
     op_one
      [Varint 42, ResType to_type, AttrEnum (RoundingMode_value rounding_mode),
          Operand from_v] cb"

definition encode_FToIOp ::
  "TypeId \<Rightarrow> Value \<Rightarrow> Signedness \<Rightarrow> RoundingMode \<Rightarrow> bool
      \<Rightarrow> code_builder \<Rightarrow> (Value \<times> code_builder) res" where
  "encode_FToIOp to_type from_v signedness rounding_mode saturating cb =
     (let flag_bits = of_bool saturating in op_one
      ([Varint 43, ResType to_type,
          Require (flag_bits < 1 \<or> cb_version cb \<ge> V_13_4) AssertionError]
       @ (if cb_version cb \<ge> V_13_4
         then [Varint flag_bits]
         else [])
       @ [AttrEnum (Signedness_value signedness),
          AttrEnum (RoundingMode_value rounding_mode), Operand from_v]) cb)"

definition encode_FloorOp ::
  "TypeId \<Rightarrow> Value \<Rightarrow> code_builder \<Rightarrow> (Value \<times> code_builder) res" where
  "encode_FloorOp result_type source_v cb =
     op_one
      [Varint 39, ResType result_type, Operand source_v] cb"

definition encode_FmaOp ::
  "TypeId \<Rightarrow> Value \<Rightarrow> Value \<Rightarrow> Value \<Rightarrow> RoundingMode
      \<Rightarrow> bool \<Rightarrow> code_builder \<Rightarrow> (Value \<times> code_builder) res" where
  "encode_FmaOp result_type lhs rhs acc rounding_mode flush_to_zero cb =
     op_one
      [Varint 40, ResType result_type, Varint (of_bool flush_to_zero),
          AttrEnum (RoundingMode_value rounding_mode), Operand lhs, Operand rhs, Operand acc] cb"

definition encode_ForOp ::
  "TypeId list \<Rightarrow> Value \<Rightarrow> Value \<Rightarrow> Value \<Rightarrow> Value list
      \<Rightarrow> bool \<Rightarrow> code_builder \<Rightarrow> (NestedBlockBuilder \<times> code_builder) res" where
  "encode_ForOp result_types lowerBound upperBound step_v initValues unsignedCmp cb =
     (let flag_bits = of_bool unsignedCmp in op_blocks (length result_types) 1
      ([Varint 41, ResTypes result_types,
          Require (flag_bits < 1 \<or> cb_version cb \<ge> V_13_2) AssertionError]
       @ (if cb_version cb \<ge> V_13_2
         then [Varint flag_bits]
         else [])
       @ [Varint (3 + int (length initValues)), Operand lowerBound, Operand upperBound,
          Operand step_v, UnsizedOperands initValues]) cb)"

definition encode_GdcLaunchDependentsTkoOp ::
  "TypeId \<Rightarrow> Value option \<Rightarrow> code_builder \<Rightarrow> (Value \<times> code_builder) res" where
  "encode_GdcLaunchDependentsTkoOp result_token_type token_v cb =
     op_one
      [Varint 119, ResType result_token_type, Varint (of_bool (token_v \<noteq> None)),
          OptOperand token_v] cb"

definition encode_GdcWaitTkoOp ::
  "TypeId \<Rightarrow> Value option \<Rightarrow> code_builder \<Rightarrow> (Value \<times> code_builder) res" where
  "encode_GdcWaitTkoOp result_token_type token_v cb =
     op_one
      [Varint 120, ResType result_token_type, Varint (of_bool (token_v \<noteq> None)),
          OptOperand token_v] cb"

definition encode_GetGlobalOp ::
  "TypeId \<Rightarrow> string \<Rightarrow> code_builder \<Rightarrow> (Value \<times> code_builder) res" where
  "encode_GetGlobalOp result_type name_v cb =
     op_one
      [Varint 44, ResType result_type, AttrStr name_v] cb"

definition encode_GetIndexSpaceShapeOp ::
  "TypeId list \<Rightarrow> Value \<Rightarrow> code_builder
      \<Rightarrow> (Value list \<times> code_builder) res" where
  "encode_GetIndexSpaceShapeOp result_types src cb =
     op_many (length result_types)
      [Varint 45, ResTypes result_types, Operand src] cb"

definition encode_GetNumTileBlocksOp ::
  "TypeId \<Rightarrow> TypeId \<Rightarrow> TypeId \<Rightarrow> code_builder
      \<Rightarrow> (Value list \<times> code_builder) res" where
  "encode_GetNumTileBlocksOp gridSize_x_type gridSize_y_type gridSize_z_type cb =
     op_many 3
      [Varint 46, ResType gridSize_x_type, ResType gridSize_y_type,
          ResType gridSize_z_type] cb"

definition encode_GetTensorShapeOp ::
  "TypeId list \<Rightarrow> Value \<Rightarrow> code_builder
      \<Rightarrow> (Value list \<times> code_builder) res" where
  "encode_GetTensorShapeOp result_types src cb =
     op_many (length result_types)
      [Varint 47, ResTypes result_types, Operand src] cb"

definition encode_GetTileBlockIdOp ::
  "TypeId \<Rightarrow> TypeId \<Rightarrow> TypeId \<Rightarrow> code_builder
      \<Rightarrow> (Value list \<times> code_builder) res" where
  "encode_GetTileBlockIdOp blockId_x_type blockId_y_type blockId_z_type cb =
     op_many 3
      [Varint 48, ResType blockId_x_type, ResType blockId_y_type, ResType blockId_z_type] cb"

definition encode_GlobalOp ::
  "string \<Rightarrow> bytes \<Rightarrow> int \<Rightarrow> bool \<Rightarrow> SymbolVisibility
      \<Rightarrow> code_builder \<Rightarrow> code_builder res" where
  "encode_GlobalOp sym_name value_v alignment constant_v symbol_visibility cb =
     (let flag_bits = of_bool constant_v in op_none
      ([Varint 49, Require (flag_bits < 1 \<or> cb_version cb \<ge> V_13_3) AssertionError]
       @ (if cb_version cb \<ge> V_13_3
         then [Varint flag_bits]
         else [])
       @ [AttrStr sym_name, AttrDense value_v, AttrInt alignment]
       @ (if cb_version cb \<ge> V_13_3
         then [AttrEnum (SymbolVisibility_value symbol_visibility)]
         else [Require (symbol_visibility = VIS_Public) AssertionError])) cb)"

definition encode_IToFOp ::
  "TypeId \<Rightarrow> Value \<Rightarrow> Signedness \<Rightarrow> RoundingMode \<Rightarrow> code_builder
      \<Rightarrow> (Value \<times> code_builder) res" where
  "encode_IToFOp to_type from_v signedness rounding_mode cb =
     op_one
      [Varint 59, ResType to_type, AttrEnum (Signedness_value signedness),
          AttrEnum (RoundingMode_value rounding_mode), Operand from_v] cb"

definition encode_IfOp ::
  "TypeId list \<Rightarrow> Value \<Rightarrow> code_builder
      \<Rightarrow> (NestedBlockBuilder \<times> code_builder) res" where
  "encode_IfOp result_types condition_v cb =
     op_blocks (length result_types) 2
      [Varint 50, ResTypes result_types, Operand condition_v] cb"

definition encode_InsertOp ::
  "TypeId \<Rightarrow> Value \<Rightarrow> Value \<Rightarrow> Value list \<Rightarrow> code_builder
      \<Rightarrow> (Value \<times> code_builder) res" where
  "encode_InsertOp result_type source_v destination indices cb =
     op_one
      [Varint 118, ResTypes [result_type], Varint (2 + int (length indices)),
          Operand source_v, Operand destination, UnsizedOperands indices] cb"

definition encode_IntToPtrOp ::
  "TypeId \<Rightarrow> Value \<Rightarrow> code_builder \<Rightarrow> (Value \<times> code_builder) res" where
  "encode_IntToPtrOp result_type source_v cb =
     op_one
      [Varint 51, ResType result_type, Operand source_v] cb"

definition encode_IotaOp ::
  "TypeId \<Rightarrow> code_builder \<Rightarrow> (Value \<times> code_builder) res" where
  "encode_IotaOp result_type cb =
     op_one
      [Varint 58, ResType result_type] cb"

definition encode_JoinTokensOp ::
  "TypeId \<Rightarrow> Value list \<Rightarrow> code_builder \<Rightarrow> (Value \<times> code_builder) res" where
  "encode_JoinTokensOp result_type tokens cb =
     op_one
      [Varint 60, ResTypes [result_type], Varint (int (length tokens)),
          UnsizedOperands tokens] cb"

definition encode_LoadPtrTkoOp ::
  "TypeId \<Rightarrow> TypeId \<Rightarrow> Value \<Rightarrow> Value option \<Rightarrow> Value option
      \<Rightarrow> Value option \<Rightarrow> MemoryOrderingSemantics \<Rightarrow> MemoryScope option
      \<Rightarrow> ((string \<times> attr) list) option \<Rightarrow> code_builder
      \<Rightarrow> (Value list \<times> code_builder) res" where
  "encode_LoadPtrTkoOp result_type result_token_type source_v mask_v paddingValue token_v memory_ordering_semantics memory_scope optimization_hints cb =
     op_many 2
      ([Varint 61, ResType result_type, ResType result_token_type,
          Varint (of_bool (memory_scope \<noteq> None) OR push_bit 1 (of_bool (optimization_hints \<noteq> None)) OR push_bit 2 (of_bool (mask_v \<noteq> None)) OR push_bit 3 (of_bool (paddingValue \<noteq> None)) OR push_bit 4 (of_bool (token_v \<noteq> None))),
          AttrEnum (MemoryOrderingSemantics_value memory_ordering_semantics)]
       @ (case memory_scope of None \<Rightarrow> [] | Some memory_scope \<Rightarrow> [AttrEnum (MemoryScope_value memory_scope)])
       @ (case optimization_hints of None \<Rightarrow> [] | Some optimization_hints \<Rightarrow> [AttrHints optimization_hints])
       @ [Operand source_v, OptOperand mask_v, OptOperand paddingValue, OptOperand token_v]) cb"

definition encode_LoadViewTkoOp ::
  "TypeId \<Rightarrow> TypeId \<Rightarrow> Value \<Rightarrow> Value list \<Rightarrow> Value option
      \<Rightarrow> MemoryOrderingSemantics \<Rightarrow> MemoryScope option
      \<Rightarrow> ((string \<times> attr) list) option \<Rightarrow> bool list \<Rightarrow> code_builder
      \<Rightarrow> (Value list \<times> code_builder) res" where
  "encode_LoadViewTkoOp tile_type result_token_type view_v index_v token_v memory_ordering_semantics memory_scope optimization_hints inbounds cb =
     op_many 2
      ([Varint 62, ResTypes [tile_type, result_token_type],
          Varint (of_bool (memory_scope \<noteq> None) OR push_bit 1 (of_bool (optimization_hints \<noteq> None)) OR push_bit 2 (of_bool (token_v \<noteq> None))),
          AttrEnum (MemoryOrderingSemantics_value memory_ordering_semantics)]
       @ (case memory_scope of None \<Rightarrow> [] | Some memory_scope \<Rightarrow> [AttrEnum (MemoryScope_value memory_scope)])
       @ (case optimization_hints of None \<Rightarrow> [] | Some optimization_hints \<Rightarrow> [AttrHints optimization_hints])
       @ (if cb_version cb \<ge> V_13_4
         then [AttrBoolArray inbounds]
         else [Require (\<not> list_ex id inbounds) ValueError])
       @ [Operand view_v, SizedOperands index_v, OptOperand token_v]) cb"

definition encode_Log2Op ::
  "TypeId \<Rightarrow> Value \<Rightarrow> code_builder \<Rightarrow> (Value \<times> code_builder) res" where
  "encode_Log2Op result_type source_v cb =
     op_one
      [Varint 64, ResType result_type, Operand source_v] cb"

end
