(* ===== verification/BcOps2.thy ===== *)
theory BcOps2
  imports BcOps1
begin

text \<open>
  The generated operation encoders of \<^verbatim>\<open>_bytecode/encodings.py\<close>, second half: the operations
  from Log to Yield.
\<close>

section \<open>Operations\<close>

definition encode_LogOp ::
  "TypeId \<Rightarrow> Value \<Rightarrow> code_builder \<Rightarrow> (Value \<times> code_builder) res" where
  "encode_LogOp result_type source_v cb =
     op_one
      [Varint 63, ResType result_type, Operand source_v] cb"

definition encode_LoopOp ::
  "TypeId list \<Rightarrow> Value list \<Rightarrow> code_builder
      \<Rightarrow> (NestedBlockBuilder \<times> code_builder) res" where
  "encode_LoopOp result_types initValues cb =
     op_blocks (length result_types) 1
      [Varint 65, ResTypes result_types, Varint (int (length initValues)),
          UnsizedOperands initValues] cb"

definition encode_MakeGatherScatterViewOp ::
  "TypeId \<Rightarrow> Value \<Rightarrow> code_builder \<Rightarrow> (Value \<times> code_builder) res" where
  "encode_MakeGatherScatterViewOp result_type tensor_view cb =
     op_one
      [Varint 115, ResType result_type, Operand tensor_view] cb"

definition encode_MakePartitionViewOp ::
  "TypeId \<Rightarrow> Value \<Rightarrow> code_builder \<Rightarrow> (Value \<times> code_builder) res" where
  "encode_MakePartitionViewOp result_type tensor_view cb =
     op_one
      [Varint 66, ResType result_type, Operand tensor_view] cb"

definition encode_MakeStridedViewOp ::
  "TypeId \<Rightarrow> Value \<Rightarrow> code_builder \<Rightarrow> (Value \<times> code_builder) res" where
  "encode_MakeStridedViewOp result_type tensor_view cb =
     op_one
      [Varint 116, ResType result_type, Operand tensor_view] cb"

definition encode_MakeTensorViewOp ::
  "TypeId \<Rightarrow> Value \<Rightarrow> Value list \<Rightarrow> Value list \<Rightarrow> code_builder
      \<Rightarrow> (Value \<times> code_builder) res" where
  "encode_MakeTensorViewOp result_type base dynamicShape dynamicStrides cb =
     op_one
      [Varint 67, ResTypes [result_type], Operand base, SizedOperands dynamicShape,
          SizedOperands dynamicStrides] cb"

definition encode_MakeTokenOp ::
  "TypeId \<Rightarrow> code_builder \<Rightarrow> (Value \<times> code_builder) res" where
  "encode_MakeTokenOp result_type cb =
     op_one
      [Varint 68, ResType result_type] cb"

definition encode_MaxFOp ::
  "TypeId \<Rightarrow> Value \<Rightarrow> Value \<Rightarrow> bool \<Rightarrow> bool
      \<Rightarrow> code_builder \<Rightarrow> (Value \<times> code_builder) res" where
  "encode_MaxFOp result_type lhs rhs propagate_nan flush_to_zero cb =
     op_one
      [Varint 69, ResType result_type,
          Varint (of_bool propagate_nan OR push_bit 1 (of_bool flush_to_zero)),
          Operand lhs, Operand rhs] cb"

definition encode_MaxIOp ::
  "TypeId \<Rightarrow> Value \<Rightarrow> Value \<Rightarrow> Signedness \<Rightarrow> code_builder
      \<Rightarrow> (Value \<times> code_builder) res" where
  "encode_MaxIOp result_type lhs rhs signedness cb =
     op_one
      [Varint 70, ResType result_type, AttrEnum (Signedness_value signedness),
          Operand lhs, Operand rhs] cb"

definition encode_MemoryFenceAliasTkoOp ::
  "TypeId \<Rightarrow> Value \<Rightarrow> code_builder \<Rightarrow> (Value \<times> code_builder) res" where
  "encode_MemoryFenceAliasTkoOp result_token_type token_v cb =
     op_one
      [Varint 131, ResType result_token_type, Operand token_v] cb"

definition encode_MinFOp ::
  "TypeId \<Rightarrow> Value \<Rightarrow> Value \<Rightarrow> bool \<Rightarrow> bool
      \<Rightarrow> code_builder \<Rightarrow> (Value \<times> code_builder) res" where
  "encode_MinFOp result_type lhs rhs propagate_nan flush_to_zero cb =
     op_one
      [Varint 71, ResType result_type,
          Varint (of_bool propagate_nan OR push_bit 1 (of_bool flush_to_zero)),
          Operand lhs, Operand rhs] cb"

definition encode_MinIOp ::
  "TypeId \<Rightarrow> Value \<Rightarrow> Value \<Rightarrow> Signedness \<Rightarrow> code_builder
      \<Rightarrow> (Value \<times> code_builder) res" where
  "encode_MinIOp result_type lhs rhs signedness cb =
     op_one
      [Varint 72, ResType result_type, AttrEnum (Signedness_value signedness),
          Operand lhs, Operand rhs] cb"

definition encode_MmaFOp ::
  "TypeId \<Rightarrow> Value \<Rightarrow> Value \<Rightarrow> Value \<Rightarrow> bool
      \<Rightarrow> code_builder \<Rightarrow> (Value \<times> code_builder) res" where
  "encode_MmaFOp result_type lhs rhs acc fast_acc cb =
     (let flag_bits = of_bool fast_acc in op_one
      ([Varint 73, ResType result_type,
          Require (flag_bits < 1 \<or> cb_version cb \<ge> V_13_3) AssertionError]
       @ (if cb_version cb \<ge> V_13_3
         then [Varint flag_bits]
         else [])
       @ [Operand lhs, Operand rhs, Operand acc]) cb)"

definition encode_MmaFScaledOp ::
  "TypeId \<Rightarrow> Value \<Rightarrow> Value \<Rightarrow> Value \<Rightarrow> Value \<Rightarrow> Value
      \<Rightarrow> code_builder \<Rightarrow> (Value \<times> code_builder) res" where
  "encode_MmaFScaledOp result_type lhs rhs acc lhs_scale rhs_scale cb =
     op_one
      [Varint 114, ResType result_type, Operand lhs, Operand rhs, Operand acc,
          Operand lhs_scale, Operand rhs_scale] cb"

definition encode_MmaIOp ::
  "TypeId \<Rightarrow> Value \<Rightarrow> Value \<Rightarrow> Value \<Rightarrow> Signedness
      \<Rightarrow> Signedness \<Rightarrow> code_builder \<Rightarrow> (Value \<times> code_builder) res" where
  "encode_MmaIOp result_type lhs rhs acc signedness_lhs signedness_rhs cb =
     op_one
      [Varint 74, ResType result_type, AttrEnum (Signedness_value signedness_lhs),
          AttrEnum (Signedness_value signedness_rhs), Operand lhs, Operand rhs, Operand acc] cb"

definition encode_ModuleOp ::
  "string \<Rightarrow> string option \<Rightarrow> code_builder
      \<Rightarrow> (NestedBlockBuilder \<times> code_builder) res" where
  "encode_ModuleOp sym_name producer cb =
     (let flag_bits = of_bool (producer \<noteq> None) in op_blocks 0 1
      ([Varint 75, Require (flag_bits < 1 \<or> cb_version cb \<ge> V_13_3) AssertionError]
       @ (if cb_version cb \<ge> V_13_3
         then [Varint flag_bits]
         else [])
       @ [AttrStr sym_name]
       @ (case producer of None \<Rightarrow> [] | Some producer \<Rightarrow> [AttrStr producer])) cb)"

definition encode_MulFOp ::
  "TypeId \<Rightarrow> Value \<Rightarrow> Value \<Rightarrow> RoundingMode \<Rightarrow> bool
      \<Rightarrow> code_builder \<Rightarrow> (Value \<times> code_builder) res" where
  "encode_MulFOp result_type lhs rhs rounding_mode flush_to_zero cb =
     op_one
      [Varint 76, ResType result_type, Varint (of_bool flush_to_zero),
          AttrEnum (RoundingMode_value rounding_mode), Operand lhs, Operand rhs] cb"

definition encode_MulIOp ::
  "TypeId \<Rightarrow> Value \<Rightarrow> Value \<Rightarrow> IntegerOverflow \<Rightarrow> code_builder
      \<Rightarrow> (Value \<times> code_builder) res" where
  "encode_MulIOp result_type lhs rhs overflow_v cb =
     op_one
      [Varint 78, ResType result_type, AttrEnum (IntegerOverflow_value overflow_v),
          Operand lhs, Operand rhs] cb"

definition encode_MulhiIOp ::
  "TypeId \<Rightarrow> Value \<Rightarrow> Value \<Rightarrow> code_builder
      \<Rightarrow> (Value \<times> code_builder) res" where
  "encode_MulhiIOp result_type x y cb =
     op_one
      [Varint 77, ResType result_type, Operand x, Operand y] cb"

definition encode_MultimemLoadReduceViewTkoOp ::
  "TypeId \<Rightarrow> TypeId \<Rightarrow> Value \<Rightarrow> Value list \<Rightarrow> Value option
      \<Rightarrow> MemoryOrderingSemantics \<Rightarrow> MemoryScope option \<Rightarrow> MultimemReductionKind
      \<Rightarrow> bool list \<Rightarrow> code_builder \<Rightarrow> (Value list \<times> code_builder) res" where
  "encode_MultimemLoadReduceViewTkoOp reduced_values_type result_token_type view_v index_v token_v memory_ordering_semantics memory_scope reduction inbounds cb =
     op_many 2
      ([Varint 121, ResTypes [reduced_values_type, result_token_type],
          Varint (of_bool (memory_scope \<noteq> None) OR push_bit 1 (of_bool (token_v \<noteq> None))),
          AttrEnum (MemoryOrderingSemantics_value memory_ordering_semantics)]
       @ (case memory_scope of None \<Rightarrow> [] | Some memory_scope \<Rightarrow> [AttrEnum (MemoryScope_value memory_scope)])
       @ [AttrEnum (MultimemReductionKind_value reduction), AttrBoolArray inbounds,
          Operand view_v, SizedOperands index_v, OptOperand token_v]) cb"

definition encode_MultimemReduceViewTkoOp ::
  "TypeId \<Rightarrow> Value \<Rightarrow> Value \<Rightarrow> Value list \<Rightarrow> Value option
      \<Rightarrow> MemoryOrderingSemantics \<Rightarrow> MemoryScope \<Rightarrow> MultimemReductionKind
      \<Rightarrow> bool list \<Rightarrow> code_builder \<Rightarrow> (Value \<times> code_builder) res" where
  "encode_MultimemReduceViewTkoOp result_token_type view_v tile index_v token_v memory_ordering_semantics memory_scope reduction inbounds cb =
     op_one
      [Varint 128, ResTypes [result_token_type],
          Varint (of_bool (token_v \<noteq> None)),
          AttrEnum (MemoryOrderingSemantics_value memory_ordering_semantics),
          AttrEnum (MemoryScope_value memory_scope),
          AttrEnum (MultimemReductionKind_value reduction), AttrBoolArray inbounds,
          Operand view_v, Operand tile, SizedOperands index_v, OptOperand token_v] cb"

definition encode_MultimemStoreViewTkoOp ::
  "TypeId \<Rightarrow> Value \<Rightarrow> Value \<Rightarrow> Value list \<Rightarrow> Value option
      \<Rightarrow> MemoryOrderingSemantics \<Rightarrow> MemoryScope option \<Rightarrow> bool list
      \<Rightarrow> code_builder \<Rightarrow> (Value \<times> code_builder) res" where
  "encode_MultimemStoreViewTkoOp result_token_type view_v tile index_v token_v memory_ordering_semantics memory_scope inbounds cb =
     op_one
      ([Varint 129, ResTypes [result_token_type],
          Varint (of_bool (memory_scope \<noteq> None) OR push_bit 1 (of_bool (token_v \<noteq> None))),
          AttrEnum (MemoryOrderingSemantics_value memory_ordering_semantics)]
       @ (case memory_scope of None \<Rightarrow> [] | Some memory_scope \<Rightarrow> [AttrEnum (MemoryScope_value memory_scope)])
       @ [AttrBoolArray inbounds, Operand view_v, Operand tile, SizedOperands index_v,
          OptOperand token_v]) cb"

definition encode_NegFOp ::
  "TypeId \<Rightarrow> Value \<Rightarrow> code_builder \<Rightarrow> (Value \<times> code_builder) res" where
  "encode_NegFOp result_type source_v cb =
     op_one
      [Varint 79, ResType result_type, Operand source_v] cb"

definition encode_NegIOp ::
  "TypeId \<Rightarrow> Value \<Rightarrow> IntegerOverflow \<Rightarrow> code_builder
      \<Rightarrow> (Value \<times> code_builder) res" where
  "encode_NegIOp result_type source_v overflow_v cb =
     op_one
      ([Varint 80, ResType result_type]
       @ (if cb_version cb \<ge> V_13_2
         then [AttrEnum (IntegerOverflow_value overflow_v)]
         else [Require (overflow_v = OVF_NONE) AssertionError])
       @ [Operand source_v]) cb"

definition encode_OffsetOp ::
  "TypeId \<Rightarrow> Value \<Rightarrow> Value \<Rightarrow> code_builder
      \<Rightarrow> (Value \<times> code_builder) res" where
  "encode_OffsetOp result_type ptr offset cb =
     op_one
      [Varint 81, ResType result_type, Operand ptr, Operand offset] cb"

definition encode_OrIOp ::
  "TypeId \<Rightarrow> Value \<Rightarrow> Value \<Rightarrow> code_builder
      \<Rightarrow> (Value \<times> code_builder) res" where
  "encode_OrIOp result_type lhs rhs cb =
     op_one
      [Varint 82, ResType result_type, Operand lhs, Operand rhs] cb"

definition encode_PackOp ::
  "TypeId \<Rightarrow> Value \<Rightarrow> code_builder \<Rightarrow> (Value \<times> code_builder) res" where
  "encode_PackOp result_type source_v cb =
     op_one
      [Varint 111, ResType result_type, Operand source_v] cb"

definition encode_PermuteOp ::
  "TypeId \<Rightarrow> Value \<Rightarrow> int list \<Rightarrow> code_builder
      \<Rightarrow> (Value \<times> code_builder) res" where
  "encode_PermuteOp result_type source_v permutation cb =
     op_one
      [Varint 83, ResType result_type, AttrInt32Array permutation, Operand source_v] cb"

definition encode_PrintTkoOp ::
  "TypeId option \<Rightarrow> Value list \<Rightarrow> Value option \<Rightarrow> string \<Rightarrow> code_builder
      \<Rightarrow> (Value option \<times> code_builder) res" where
  "encode_PrintTkoOp result_token_type args token_v str_v cb =
     (let flag_bits = of_bool (token_v \<noteq> None);
          has_token = (cb_version cb \<ge> V_13_2)
      in and_then
       (op_many (if has_token then 1 else 0)
         ([Varint 85]
          @ (if has_token
             then (case result_token_type of
                     None \<Rightarrow> [Require False AttributeError]
                   | Some result_token_type \<Rightarrow> [ResTypes [result_token_type]])
             else [Require (result_token_type = None) AssertionError, ResTypes []])
          @ [Require (flag_bits < 1 \<or> cb_version cb \<ge> V_13_2) AssertionError]
          @ (if cb_version cb \<ge> V_13_2
             then [Varint flag_bits]
             else [])
          @ [AttrStr str_v, SizedOperands args, OptOperand token_v]) cb)
       (\<lambda>(results, cb).
         Inr (if has_token then Some (results ! 0) else None, cb)))"

definition encode_PtrToIntOp ::
  "TypeId \<Rightarrow> Value \<Rightarrow> code_builder \<Rightarrow> (Value \<times> code_builder) res" where
  "encode_PtrToIntOp result_type source_v cb =
     op_one
      [Varint 86, ResType result_type, Operand source_v] cb"

definition encode_PtrToPtrOp ::
  "TypeId \<Rightarrow> Value \<Rightarrow> code_builder \<Rightarrow> (Value \<times> code_builder) res" where
  "encode_PtrToPtrOp result_type source_v cb =
     op_one
      [Varint 87, ResType result_type, Operand source_v] cb"

definition encode_ReduceOp ::
  "TypeId list \<Rightarrow> Value list \<Rightarrow> int \<Rightarrow> attr list \<Rightarrow> code_builder
      \<Rightarrow> (NestedBlockBuilder \<times> code_builder) res" where
  "encode_ReduceOp result_types operands dim identities cb =
     op_blocks (length result_types) 1
      [Varint 88, ResTypes result_types, AttrInt dim, AttrArray identities,
          Varint (int (length operands)), UnsizedOperands operands] cb"

definition encode_RemFOp ::
  "TypeId \<Rightarrow> Value \<Rightarrow> Value \<Rightarrow> code_builder
      \<Rightarrow> (Value \<times> code_builder) res" where
  "encode_RemFOp result_type lhs rhs cb =
     op_one
      [Varint 89, ResType result_type, Operand lhs, Operand rhs] cb"

definition encode_RemIOp ::
  "TypeId \<Rightarrow> Value \<Rightarrow> Value \<Rightarrow> Signedness \<Rightarrow> code_builder
      \<Rightarrow> (Value \<times> code_builder) res" where
  "encode_RemIOp result_type lhs rhs signedness cb =
     op_one
      [Varint 90, ResType result_type, AttrEnum (Signedness_value signedness),
          Operand lhs, Operand rhs] cb"

definition encode_ReshapeOp ::
  "TypeId \<Rightarrow> Value \<Rightarrow> code_builder \<Rightarrow> (Value \<times> code_builder) res" where
  "encode_ReshapeOp result_type source_v cb =
     op_one
      [Varint 91, ResType result_type, Operand source_v] cb"

definition encode_ReturnOp ::
  "Value list \<Rightarrow> code_builder \<Rightarrow> code_builder res" where
  "encode_ReturnOp operands cb =
     op_none
      [Varint 92, ResTypes [], Varint (int (length operands)), UnsizedOperands operands] cb"

definition encode_RsqrtOp ::
  "TypeId \<Rightarrow> Value \<Rightarrow> bool \<Rightarrow> code_builder
      \<Rightarrow> (Value \<times> code_builder) res" where
  "encode_RsqrtOp result_type source_v flush_to_zero cb =
     op_one
      [Varint 93, ResType result_type, Varint (of_bool flush_to_zero), Operand source_v] cb"

definition encode_ScanOp ::
  "TypeId list \<Rightarrow> Value list \<Rightarrow> int \<Rightarrow> bool \<Rightarrow> attr list
      \<Rightarrow> code_builder \<Rightarrow> (NestedBlockBuilder \<times> code_builder) res" where
  "encode_ScanOp result_types operands dim reverse identities cb =
     op_blocks (length result_types) 1
      [Varint 94, ResTypes result_types, AttrInt dim, AttrBool reverse,
          AttrArray identities, Varint (int (length operands)), UnsizedOperands operands] cb"

definition encode_SelectOp ::
  "TypeId \<Rightarrow> Value \<Rightarrow> Value \<Rightarrow> Value \<Rightarrow> code_builder
      \<Rightarrow> (Value \<times> code_builder) res" where
  "encode_SelectOp result_type cond val_if_true val_if_false cb =
     op_one
      [Varint 95, ResType result_type, Operand cond, Operand val_if_true,
          Operand val_if_false] cb"

definition encode_ShLIOp ::
  "TypeId \<Rightarrow> Value \<Rightarrow> Value \<Rightarrow> IntegerOverflow \<Rightarrow> code_builder
      \<Rightarrow> (Value \<times> code_builder) res" where
  "encode_ShLIOp result_type lhs rhs overflow_v cb =
     op_one
      [Varint 96, ResType result_type, AttrEnum (IntegerOverflow_value overflow_v),
          Operand lhs, Operand rhs] cb"

definition encode_ShRIOp ::
  "TypeId \<Rightarrow> Value \<Rightarrow> Value \<Rightarrow> Signedness \<Rightarrow> code_builder
      \<Rightarrow> (Value \<times> code_builder) res" where
  "encode_ShRIOp result_type lhs rhs signedness cb =
     op_one
      [Varint 97, ResType result_type, AttrEnum (Signedness_value signedness),
          Operand lhs, Operand rhs] cb"

definition encode_SinHOp ::
  "TypeId \<Rightarrow> Value \<Rightarrow> code_builder \<Rightarrow> (Value \<times> code_builder) res" where
  "encode_SinHOp result_type source_v cb =
     op_one
      [Varint 99, ResType result_type, Operand source_v] cb"

definition encode_SinOp ::
  "TypeId \<Rightarrow> Value \<Rightarrow> code_builder \<Rightarrow> (Value \<times> code_builder) res" where
  "encode_SinOp result_type source_v cb =
     op_one
      [Varint 98, ResType result_type, Operand source_v] cb"

definition encode_SqrtOp ::
  "TypeId \<Rightarrow> Value \<Rightarrow> RoundingMode \<Rightarrow> bool \<Rightarrow> code_builder
      \<Rightarrow> (Value \<times> code_builder) res" where
  "encode_SqrtOp result_type source_v rounding_mode flush_to_zero cb =
     op_one
      [Varint 100, ResType result_type, Varint (of_bool flush_to_zero),
          AttrEnum (RoundingMode_value rounding_mode), Operand source_v] cb"

definition encode_StorePtrTkoOp ::
  "TypeId \<Rightarrow> Value \<Rightarrow> Value \<Rightarrow> Value option \<Rightarrow> Value option
      \<Rightarrow> MemoryOrderingSemantics \<Rightarrow> MemoryScope option
      \<Rightarrow> ((string \<times> attr) list) option \<Rightarrow> code_builder
      \<Rightarrow> (Value \<times> code_builder) res" where
  "encode_StorePtrTkoOp result_token_type destination value_v mask_v token_v memory_ordering_semantics memory_scope optimization_hints cb =
     op_one
      ([Varint 101, ResType result_token_type,
          Varint (of_bool (memory_scope \<noteq> None) OR push_bit 1 (of_bool (optimization_hints \<noteq> None)) OR push_bit 2 (of_bool (mask_v \<noteq> None)) OR push_bit 3 (of_bool (token_v \<noteq> None))),
          AttrEnum (MemoryOrderingSemantics_value memory_ordering_semantics)]
       @ (case memory_scope of None \<Rightarrow> [] | Some memory_scope \<Rightarrow> [AttrEnum (MemoryScope_value memory_scope)])
       @ (case optimization_hints of None \<Rightarrow> [] | Some optimization_hints \<Rightarrow> [AttrHints optimization_hints])
       @ [Operand destination, Operand value_v, OptOperand mask_v, OptOperand token_v]) cb"

definition encode_StoreViewTkoOp ::
  "TypeId \<Rightarrow> Value \<Rightarrow> Value \<Rightarrow> Value list \<Rightarrow> Value option
      \<Rightarrow> MemoryOrderingSemantics \<Rightarrow> MemoryScope option
      \<Rightarrow> ((string \<times> attr) list) option \<Rightarrow> bool list \<Rightarrow> code_builder
      \<Rightarrow> (Value \<times> code_builder) res" where
  "encode_StoreViewTkoOp result_token_type tile view_v index_v token_v memory_ordering_semantics memory_scope optimization_hints inbounds cb =
     op_one
      ([Varint 102, ResTypes [result_token_type],
          Varint (of_bool (memory_scope \<noteq> None) OR push_bit 1 (of_bool (optimization_hints \<noteq> None)) OR push_bit 2 (of_bool (token_v \<noteq> None))),
          AttrEnum (MemoryOrderingSemantics_value memory_ordering_semantics)]
       @ (case memory_scope of None \<Rightarrow> [] | Some memory_scope \<Rightarrow> [AttrEnum (MemoryScope_value memory_scope)])
       @ (case optimization_hints of None \<Rightarrow> [] | Some optimization_hints \<Rightarrow> [AttrHints optimization_hints])
       @ (if cb_version cb \<ge> V_13_4
         then [AttrBoolArray inbounds]
         else [Require (\<not> list_ex id inbounds) ValueError])
       @ [Operand tile, Operand view_v, SizedOperands index_v, OptOperand token_v]) cb"

definition encode_SubFOp ::
  "TypeId \<Rightarrow> Value \<Rightarrow> Value \<Rightarrow> RoundingMode \<Rightarrow> bool
      \<Rightarrow> code_builder \<Rightarrow> (Value \<times> code_builder) res" where
  "encode_SubFOp result_type lhs rhs rounding_mode flush_to_zero cb =
     op_one
      [Varint 103, ResType result_type, Varint (of_bool flush_to_zero),
          AttrEnum (RoundingMode_value rounding_mode), Operand lhs, Operand rhs] cb"

definition encode_SubIOp ::
  "TypeId \<Rightarrow> Value \<Rightarrow> Value \<Rightarrow> IntegerOverflow \<Rightarrow> code_builder
      \<Rightarrow> (Value \<times> code_builder) res" where
  "encode_SubIOp result_type lhs rhs overflow_v cb =
     op_one
      [Varint 104, ResType result_type, AttrEnum (IntegerOverflow_value overflow_v),
          Operand lhs, Operand rhs] cb"

definition encode_TanHOp ::
  "TypeId \<Rightarrow> Value \<Rightarrow> RoundingMode \<Rightarrow> code_builder
      \<Rightarrow> (Value \<times> code_builder) res" where
  "encode_TanHOp result_type source_v rounding_mode cb =
     op_one
      ([Varint 106, ResType result_type]
       @ (if cb_version cb \<ge> V_13_2
         then [AttrEnum (RoundingMode_value rounding_mode)]
         else [Require (rounding_mode = RM_FULL) AssertionError])
       @ [Operand source_v]) cb"

definition encode_TanOp ::
  "TypeId \<Rightarrow> Value \<Rightarrow> code_builder \<Rightarrow> (Value \<times> code_builder) res" where
  "encode_TanOp result_type source_v cb =
     op_one
      [Varint 105, ResType result_type, Operand source_v] cb"

definition encode_TruncIOp ::
  "TypeId \<Rightarrow> Value \<Rightarrow> IntegerOverflow \<Rightarrow> code_builder
      \<Rightarrow> (Value \<times> code_builder) res" where
  "encode_TruncIOp to_type from_v overflow_v cb =
     op_one
      [Varint 107, ResType to_type, AttrEnum (IntegerOverflow_value overflow_v),
          Operand from_v] cb"

definition encode_UnpackOp ::
  "TypeId \<Rightarrow> Value \<Rightarrow> code_builder \<Rightarrow> (Value \<times> code_builder) res" where
  "encode_UnpackOp result_type source_v cb =
     op_one
      [Varint 112, ResType result_type, Operand source_v] cb"

definition encode_XOrIOp ::
  "TypeId \<Rightarrow> Value \<Rightarrow> Value \<Rightarrow> code_builder
      \<Rightarrow> (Value \<times> code_builder) res" where
  "encode_XOrIOp result_type lhs rhs cb =
     op_one
      [Varint 108, ResType result_type, Operand lhs, Operand rhs] cb"

definition encode_YieldOp ::
  "Value list \<Rightarrow> code_builder \<Rightarrow> code_builder res" where
  "encode_YieldOp operands cb =
     op_none
      [Varint 109, ResTypes [], Varint (int (length operands)), UnsizedOperands operands] cb"

end
