(* ===== verification/BcSteps.thy ===== *)
theory BcSteps
  imports BcOps2
begin

text \<open>
  Runs of the code builder. \<open>op_call n vs cb cb'\<close> has one rule per operation encoder: some
  call of the encoder with opcode \<open>n\<close> takes the builder from \<open>cb\<close> to \<open>cb'\<close> and returns the
  values \<open>vs\<close>. \<open>block_call\<close> is the same for the operations with nested blocks, and \<open>builds\<close>
  is any well-nested sequence of operations, blocks and debug attribute scopes.
\<close>

section \<open>One rule per encoder\<close>

inductive op_call :: "int \<Rightarrow> Value list \<Rightarrow> code_builder \<Rightarrow> code_builder \<Rightarrow> bool" where
  AbsFOp: "encode_AbsFOp result_type source_v cb = Inr (v, cb') \<Longrightarrow> op_call 0 [v] cb cb'"
| AbsIOp: "encode_AbsIOp result_type source_v cb = Inr (v, cb') \<Longrightarrow> op_call 1 [v] cb cb'"
| AddFOp: "encode_AddFOp result_type lhs rhs rounding_mode flush_to_zero cb = Inr (v, cb') \<Longrightarrow> op_call 2 [v] cb cb'"
| AddIOp: "encode_AddIOp result_type lhs rhs overflow_v cb = Inr (v, cb') \<Longrightarrow> op_call 3 [v] cb cb'"
| AllocaOp: "encode_AllocaOp result_type num_elem alignment global_v cb = Inr (v, cb') \<Longrightarrow> op_call 113 [v] cb cb'"
| AndIOp: "encode_AndIOp result_type lhs rhs cb = Inr (v, cb') \<Longrightarrow> op_call 4 [v] cb cb'"
| AssertOp: "encode_AssertOp condition_v message_v cb = Inr cb' \<Longrightarrow> op_call 5 [] cb cb'"
| AssumeOp: "encode_AssumeOp result_type value_v predicate_v cb = Inr (v, cb') \<Longrightarrow> op_call 6 [v] cb cb'"
| Atan2Op: "encode_Atan2Op result_type x y cb = Inr (v, cb') \<Longrightarrow> op_call 110 [v] cb cb'"
| AtomicCASTkoOp: "encode_AtomicCASTkoOp result_type result_token_type pointers cmp_v val_v mask_v token_v memory_ordering_semantics memory_scope cb = Inr (vs, cb') \<Longrightarrow> op_call 7 vs cb cb'"
| AtomicRMWTkoOp: "encode_AtomicRMWTkoOp result_type result_token_type pointers arg mask_v token_v memory_ordering_semantics memory_scope mode_v cb = Inr (vs, cb') \<Longrightarrow> op_call 8 vs cb cb'"
| AtomicRedViewTkoOp: "encode_AtomicRedViewTkoOp result_token_type view_v index_v value_v token_v memory_ordering_semantics memory_scope mode_v cb = Inr (v, cb') \<Longrightarrow> op_call 117 [v] cb cb'"
| BitcastOp: "encode_BitcastOp result_type source_v cb = Inr (v, cb') \<Longrightarrow> op_call 9 [v] cb cb'"
| BreakOp: "encode_BreakOp operands cb = Inr cb' \<Longrightarrow> op_call 10 [] cb cb'"
| BroadcastOp: "encode_BroadcastOp result_type source_v cb = Inr (v, cb') \<Longrightarrow> op_call 11 [v] cb cb'"
| CatOp: "encode_CatOp result_type lhs rhs dim cb = Inr (v, cb') \<Longrightarrow> op_call 12 [v] cb cb'"
| CeilOp: "encode_CeilOp result_type source_v cb = Inr (v, cb') \<Longrightarrow> op_call 13 [v] cb cb'"
| CmpFOp: "encode_CmpFOp result_type lhs rhs comparison_predicate comparison_ordering cb = Inr (v, cb') \<Longrightarrow> op_call 14 [v] cb cb'"
| CmpIOp: "encode_CmpIOp result_type lhs rhs comparison_predicate signedness cb = Inr (v, cb') \<Longrightarrow> op_call 15 [v] cb cb'"
| ConstantOp: "encode_ConstantOp result_type value_v cb = Inr (v, cb') \<Longrightarrow> op_call 16 [v] cb cb'"
| ContinueOp: "encode_ContinueOp operands cb = Inr cb' \<Longrightarrow> op_call 17 [] cb cb'"
| CosHOp: "encode_CosHOp result_type source_v cb = Inr (v, cb') \<Longrightarrow> op_call 19 [v] cb cb'"
| CosOp: "encode_CosOp result_type source_v cb = Inr (v, cb') \<Longrightarrow> op_call 18 [v] cb cb'"
| DivFOp: "encode_DivFOp result_type lhs rhs rounding_mode flush_to_zero cb = Inr (v, cb') \<Longrightarrow> op_call 20 [v] cb cb'"
| DivIOp: "encode_DivIOp result_type lhs rhs signedness rounding cb = Inr (v, cb') \<Longrightarrow> op_call 21 [v] cb cb'"
| Exp2Op: "encode_Exp2Op result_type source_v flush_to_zero cb = Inr (v, cb') \<Longrightarrow> op_call 24 [v] cb cb'"
| ExpOp: "encode_ExpOp result_type source_v rounding_mode cb = Inr (v, cb') \<Longrightarrow> op_call 23 [v] cb cb'"
| ExtIOp: "encode_ExtIOp to_type from_v signedness cb = Inr (v, cb') \<Longrightarrow> op_call 37 [v] cb cb'"
| ExtractOp: "encode_ExtractOp result_type source_v indices cb = Inr (v, cb') \<Longrightarrow> op_call 38 [v] cb cb'"
| FPowFOp: "encode_FPowFOp result_type source_v exponent cb = Inr (v, cb') \<Longrightarrow> op_call 84 [v] cb cb'"
| FPowIOp: "encode_FPowIOp result_type source_v exponent cb = Inr (v, cb') \<Longrightarrow> op_call 130 [v] cb cb'"
| FToFOp: "encode_FToFOp to_type from_v rounding_mode cb = Inr (v, cb') \<Longrightarrow> op_call 42 [v] cb cb'"
| FToIOp: "encode_FToIOp to_type from_v signedness rounding_mode saturating cb = Inr (v, cb') \<Longrightarrow> op_call 43 [v] cb cb'"
| FloorOp: "encode_FloorOp result_type source_v cb = Inr (v, cb') \<Longrightarrow> op_call 39 [v] cb cb'"
| FmaOp: "encode_FmaOp result_type lhs rhs acc rounding_mode flush_to_zero cb = Inr (v, cb') \<Longrightarrow> op_call 40 [v] cb cb'"
| GdcLaunchDependentsTkoOp: "encode_GdcLaunchDependentsTkoOp result_token_type token_v cb = Inr (v, cb') \<Longrightarrow> op_call 119 [v] cb cb'"
| GdcWaitTkoOp: "encode_GdcWaitTkoOp result_token_type token_v cb = Inr (v, cb') \<Longrightarrow> op_call 120 [v] cb cb'"
| GetGlobalOp: "encode_GetGlobalOp result_type name_v cb = Inr (v, cb') \<Longrightarrow> op_call 44 [v] cb cb'"
| GetIndexSpaceShapeOp: "encode_GetIndexSpaceShapeOp result_types src cb = Inr (vs, cb') \<Longrightarrow> op_call 45 vs cb cb'"
| GetNumTileBlocksOp: "encode_GetNumTileBlocksOp gridSize_x_type gridSize_y_type gridSize_z_type cb = Inr (vs, cb') \<Longrightarrow> op_call 46 vs cb cb'"
| GetTensorShapeOp: "encode_GetTensorShapeOp result_types src cb = Inr (vs, cb') \<Longrightarrow> op_call 47 vs cb cb'"
| GetTileBlockIdOp: "encode_GetTileBlockIdOp blockId_x_type blockId_y_type blockId_z_type cb = Inr (vs, cb') \<Longrightarrow> op_call 48 vs cb cb'"
| GlobalOp: "encode_GlobalOp sym_name value_v alignment constant_v symbol_visibility cb = Inr cb' \<Longrightarrow> op_call 49 [] cb cb'"
| IToFOp: "encode_IToFOp to_type from_v signedness rounding_mode cb = Inr (v, cb') \<Longrightarrow> op_call 59 [v] cb cb'"
| InsertOp: "encode_InsertOp result_type source_v destination indices cb = Inr (v, cb') \<Longrightarrow> op_call 118 [v] cb cb'"
| IntToPtrOp: "encode_IntToPtrOp result_type source_v cb = Inr (v, cb') \<Longrightarrow> op_call 51 [v] cb cb'"
| IotaOp: "encode_IotaOp result_type cb = Inr (v, cb') \<Longrightarrow> op_call 58 [v] cb cb'"
| JoinTokensOp: "encode_JoinTokensOp result_type tokens cb = Inr (v, cb') \<Longrightarrow> op_call 60 [v] cb cb'"
| LoadPtrTkoOp: "encode_LoadPtrTkoOp result_type result_token_type source_v mask_v paddingValue token_v memory_ordering_semantics memory_scope optimization_hints cb = Inr (vs, cb') \<Longrightarrow> op_call 61 vs cb cb'"
| LoadViewTkoOp: "encode_LoadViewTkoOp tile_type result_token_type view_v index_v token_v memory_ordering_semantics memory_scope optimization_hints inbounds cb = Inr (vs, cb') \<Longrightarrow> op_call 62 vs cb cb'"
| Log2Op: "encode_Log2Op result_type source_v cb = Inr (v, cb') \<Longrightarrow> op_call 64 [v] cb cb'"
| LogOp: "encode_LogOp result_type source_v cb = Inr (v, cb') \<Longrightarrow> op_call 63 [v] cb cb'"
| MakeGatherScatterViewOp: "encode_MakeGatherScatterViewOp result_type tensor_view cb = Inr (v, cb') \<Longrightarrow> op_call 115 [v] cb cb'"
| MakePartitionViewOp: "encode_MakePartitionViewOp result_type tensor_view cb = Inr (v, cb') \<Longrightarrow> op_call 66 [v] cb cb'"
| MakeStridedViewOp: "encode_MakeStridedViewOp result_type tensor_view cb = Inr (v, cb') \<Longrightarrow> op_call 116 [v] cb cb'"
| MakeTensorViewOp: "encode_MakeTensorViewOp result_type base dynamicShape dynamicStrides cb = Inr (v, cb') \<Longrightarrow> op_call 67 [v] cb cb'"
| MakeTokenOp: "encode_MakeTokenOp result_type cb = Inr (v, cb') \<Longrightarrow> op_call 68 [v] cb cb'"
| MaxFOp: "encode_MaxFOp result_type lhs rhs propagate_nan flush_to_zero cb = Inr (v, cb') \<Longrightarrow> op_call 69 [v] cb cb'"
| MaxIOp: "encode_MaxIOp result_type lhs rhs signedness cb = Inr (v, cb') \<Longrightarrow> op_call 70 [v] cb cb'"
| MemoryFenceAliasTkoOp: "encode_MemoryFenceAliasTkoOp result_token_type token_v cb = Inr (v, cb') \<Longrightarrow> op_call 131 [v] cb cb'"
| MinFOp: "encode_MinFOp result_type lhs rhs propagate_nan flush_to_zero cb = Inr (v, cb') \<Longrightarrow> op_call 71 [v] cb cb'"
| MinIOp: "encode_MinIOp result_type lhs rhs signedness cb = Inr (v, cb') \<Longrightarrow> op_call 72 [v] cb cb'"
| MmaFOp: "encode_MmaFOp result_type lhs rhs acc fast_acc cb = Inr (v, cb') \<Longrightarrow> op_call 73 [v] cb cb'"
| MmaFScaledOp: "encode_MmaFScaledOp result_type lhs rhs acc lhs_scale rhs_scale cb = Inr (v, cb') \<Longrightarrow> op_call 114 [v] cb cb'"
| MmaIOp: "encode_MmaIOp result_type lhs rhs acc signedness_lhs signedness_rhs cb = Inr (v, cb') \<Longrightarrow> op_call 74 [v] cb cb'"
| MulFOp: "encode_MulFOp result_type lhs rhs rounding_mode flush_to_zero cb = Inr (v, cb') \<Longrightarrow> op_call 76 [v] cb cb'"
| MulIOp: "encode_MulIOp result_type lhs rhs overflow_v cb = Inr (v, cb') \<Longrightarrow> op_call 78 [v] cb cb'"
| MulhiIOp: "encode_MulhiIOp result_type x y cb = Inr (v, cb') \<Longrightarrow> op_call 77 [v] cb cb'"
| MultimemLoadReduceViewTkoOp: "encode_MultimemLoadReduceViewTkoOp reduced_values_type result_token_type view_v index_v token_v memory_ordering_semantics memory_scope reduction inbounds cb = Inr (vs, cb') \<Longrightarrow> op_call 121 vs cb cb'"
| MultimemReduceViewTkoOp: "encode_MultimemReduceViewTkoOp result_token_type view_v tile index_v token_v memory_ordering_semantics memory_scope reduction inbounds cb = Inr (v, cb') \<Longrightarrow> op_call 128 [v] cb cb'"
| MultimemStoreViewTkoOp: "encode_MultimemStoreViewTkoOp result_token_type view_v tile index_v token_v memory_ordering_semantics memory_scope inbounds cb = Inr (v, cb') \<Longrightarrow> op_call 129 [v] cb cb'"
| NegFOp: "encode_NegFOp result_type source_v cb = Inr (v, cb') \<Longrightarrow> op_call 79 [v] cb cb'"
| NegIOp: "encode_NegIOp result_type source_v overflow_v cb = Inr (v, cb') \<Longrightarrow> op_call 80 [v] cb cb'"
| OffsetOp: "encode_OffsetOp result_type ptr offset cb = Inr (v, cb') \<Longrightarrow> op_call 81 [v] cb cb'"
| OrIOp: "encode_OrIOp result_type lhs rhs cb = Inr (v, cb') \<Longrightarrow> op_call 82 [v] cb cb'"
| PackOp: "encode_PackOp result_type source_v cb = Inr (v, cb') \<Longrightarrow> op_call 111 [v] cb cb'"
| PermuteOp: "encode_PermuteOp result_type source_v permutation cb = Inr (v, cb') \<Longrightarrow> op_call 83 [v] cb cb'"
| PrintTkoOp: "encode_PrintTkoOp result_token_type args token_v str_v cb = Inr (ov, cb') \<Longrightarrow> op_call 85 (case ov of None \<Rightarrow> [] | Some v \<Rightarrow> [v]) cb cb'"
| PtrToIntOp: "encode_PtrToIntOp result_type source_v cb = Inr (v, cb') \<Longrightarrow> op_call 86 [v] cb cb'"
| PtrToPtrOp: "encode_PtrToPtrOp result_type source_v cb = Inr (v, cb') \<Longrightarrow> op_call 87 [v] cb cb'"
| RemFOp: "encode_RemFOp result_type lhs rhs cb = Inr (v, cb') \<Longrightarrow> op_call 89 [v] cb cb'"
| RemIOp: "encode_RemIOp result_type lhs rhs signedness cb = Inr (v, cb') \<Longrightarrow> op_call 90 [v] cb cb'"
| ReshapeOp: "encode_ReshapeOp result_type source_v cb = Inr (v, cb') \<Longrightarrow> op_call 91 [v] cb cb'"
| ReturnOp: "encode_ReturnOp operands cb = Inr cb' \<Longrightarrow> op_call 92 [] cb cb'"
| RsqrtOp: "encode_RsqrtOp result_type source_v flush_to_zero cb = Inr (v, cb') \<Longrightarrow> op_call 93 [v] cb cb'"
| SelectOp: "encode_SelectOp result_type cond val_if_true val_if_false cb = Inr (v, cb') \<Longrightarrow> op_call 95 [v] cb cb'"
| ShLIOp: "encode_ShLIOp result_type lhs rhs overflow_v cb = Inr (v, cb') \<Longrightarrow> op_call 96 [v] cb cb'"
| ShRIOp: "encode_ShRIOp result_type lhs rhs signedness cb = Inr (v, cb') \<Longrightarrow> op_call 97 [v] cb cb'"
| SinHOp: "encode_SinHOp result_type source_v cb = Inr (v, cb') \<Longrightarrow> op_call 99 [v] cb cb'"
| SinOp: "encode_SinOp result_type source_v cb = Inr (v, cb') \<Longrightarrow> op_call 98 [v] cb cb'"
| SqrtOp: "encode_SqrtOp result_type source_v rounding_mode flush_to_zero cb = Inr (v, cb') \<Longrightarrow> op_call 100 [v] cb cb'"
| StorePtrTkoOp: "encode_StorePtrTkoOp result_token_type destination value_v mask_v token_v memory_ordering_semantics memory_scope optimization_hints cb = Inr (v, cb') \<Longrightarrow> op_call 101 [v] cb cb'"
| StoreViewTkoOp: "encode_StoreViewTkoOp result_token_type tile view_v index_v token_v memory_ordering_semantics memory_scope optimization_hints inbounds cb = Inr (v, cb') \<Longrightarrow> op_call 102 [v] cb cb'"
| SubFOp: "encode_SubFOp result_type lhs rhs rounding_mode flush_to_zero cb = Inr (v, cb') \<Longrightarrow> op_call 103 [v] cb cb'"
| SubIOp: "encode_SubIOp result_type lhs rhs overflow_v cb = Inr (v, cb') \<Longrightarrow> op_call 104 [v] cb cb'"
| TanHOp: "encode_TanHOp result_type source_v rounding_mode cb = Inr (v, cb') \<Longrightarrow> op_call 106 [v] cb cb'"
| TanOp: "encode_TanOp result_type source_v cb = Inr (v, cb') \<Longrightarrow> op_call 105 [v] cb cb'"
| TruncIOp: "encode_TruncIOp to_type from_v overflow_v cb = Inr (v, cb') \<Longrightarrow> op_call 107 [v] cb cb'"
| UnpackOp: "encode_UnpackOp result_type source_v cb = Inr (v, cb') \<Longrightarrow> op_call 112 [v] cb cb'"
| XOrIOp: "encode_XOrIOp result_type lhs rhs cb = Inr (v, cb') \<Longrightarrow> op_call 108 [v] cb cb'"
| YieldOp: "encode_YieldOp operands cb = Inr cb' \<Longrightarrow> op_call 109 [] cb cb'"

inductive block_call ::
  "int \<Rightarrow> NestedBlockBuilder \<Rightarrow> code_builder \<Rightarrow> code_builder \<Rightarrow> bool" where
  EntryOp: "encode_EntryOp sym_name function_type arg_attrs res_attrs optimization_hints cb = Inr (nb, cb') \<Longrightarrow> block_call 22 nb cb cb'"
| ForOp: "encode_ForOp result_types lowerBound upperBound step_v initValues unsignedCmp cb = Inr (nb, cb') \<Longrightarrow> block_call 41 nb cb cb'"
| IfOp: "encode_IfOp result_types condition_v cb = Inr (nb, cb') \<Longrightarrow> block_call 50 nb cb cb'"
| LoopOp: "encode_LoopOp result_types initValues cb = Inr (nb, cb') \<Longrightarrow> block_call 65 nb cb cb'"
| ModuleOp: "encode_ModuleOp sym_name producer cb = Inr (nb, cb') \<Longrightarrow> block_call 75 nb cb cb'"
| ReduceOp: "encode_ReduceOp result_types operands dim identities cb = Inr (nb, cb') \<Longrightarrow> block_call 88 nb cb cb'"
| ScanOp: "encode_ScanOp result_types operands dim reverse identities cb = Inr (nb, cb') \<Longrightarrow> block_call 94 nb cb cb'"

lemmas op_defs =
  encode_AbsFOp_def
  encode_AbsIOp_def
  encode_AddFOp_def
  encode_AddIOp_def
  encode_AllocaOp_def
  encode_AndIOp_def
  encode_AssertOp_def
  encode_AssumeOp_def
  encode_Atan2Op_def
  encode_AtomicCASTkoOp_def
  encode_AtomicRMWTkoOp_def
  encode_AtomicRedViewTkoOp_def
  encode_BitcastOp_def
  encode_BreakOp_def
  encode_BroadcastOp_def
  encode_CatOp_def
  encode_CeilOp_def
  encode_CmpFOp_def
  encode_CmpIOp_def
  encode_ConstantOp_def
  encode_ContinueOp_def
  encode_CosHOp_def
  encode_CosOp_def
  encode_DivFOp_def
  encode_DivIOp_def
  encode_Exp2Op_def
  encode_ExpOp_def
  encode_ExtIOp_def
  encode_ExtractOp_def
  encode_FPowFOp_def
  encode_FPowIOp_def
  encode_FToFOp_def
  encode_FToIOp_def
  encode_FloorOp_def
  encode_FmaOp_def
  encode_GdcLaunchDependentsTkoOp_def
  encode_GdcWaitTkoOp_def
  encode_GetGlobalOp_def
  encode_GetIndexSpaceShapeOp_def
  encode_GetNumTileBlocksOp_def
  encode_GetTensorShapeOp_def
  encode_GetTileBlockIdOp_def
  encode_GlobalOp_def
  encode_IToFOp_def
  encode_InsertOp_def
  encode_IntToPtrOp_def
  encode_IotaOp_def
  encode_JoinTokensOp_def
  encode_LoadPtrTkoOp_def
  encode_LoadViewTkoOp_def
  encode_Log2Op_def
  encode_LogOp_def
  encode_MakeGatherScatterViewOp_def
  encode_MakePartitionViewOp_def
  encode_MakeStridedViewOp_def
  encode_MakeTensorViewOp_def
  encode_MakeTokenOp_def
  encode_MaxFOp_def
  encode_MaxIOp_def
  encode_MemoryFenceAliasTkoOp_def
  encode_MinFOp_def
  encode_MinIOp_def
  encode_MmaFOp_def
  encode_MmaFScaledOp_def
  encode_MmaIOp_def
  encode_MulFOp_def
  encode_MulIOp_def
  encode_MulhiIOp_def
  encode_MultimemLoadReduceViewTkoOp_def
  encode_MultimemReduceViewTkoOp_def
  encode_MultimemStoreViewTkoOp_def
  encode_NegFOp_def
  encode_NegIOp_def
  encode_OffsetOp_def
  encode_OrIOp_def
  encode_PackOp_def
  encode_PermuteOp_def
  encode_PrintTkoOp_def
  encode_PtrToIntOp_def
  encode_PtrToPtrOp_def
  encode_RemFOp_def
  encode_RemIOp_def
  encode_ReshapeOp_def
  encode_ReturnOp_def
  encode_RsqrtOp_def
  encode_SelectOp_def
  encode_ShLIOp_def
  encode_ShRIOp_def
  encode_SinHOp_def
  encode_SinOp_def
  encode_SqrtOp_def
  encode_StorePtrTkoOp_def
  encode_StoreViewTkoOp_def
  encode_SubFOp_def
  encode_SubIOp_def
  encode_TanHOp_def
  encode_TanOp_def
  encode_TruncIOp_def
  encode_UnpackOp_def
  encode_XOrIOp_def
  encode_YieldOp_def

lemmas block_defs =
  encode_EntryOp_def
  encode_ForOp_def
  encode_IfOp_def
  encode_LoopOp_def
  encode_ModuleOp_def
  encode_ReduceOp_def
  encode_ScanOp_def

section \<open>The effect of one operation\<close>

text \<open>
  The bytes start with the opcode, the operation is counted and gets the current debug
  attribute, and its results are the next values.
\<close>

definition op_effect :: "int \<Rightarrow> Value list \<Rightarrow> code_builder \<Rightarrow> code_builder \<Rightarrow> bool" where
  "op_effect n vs cb cb' \<longleftrightarrow>
     0 \<le> n \<and> vs = map Value [next_value_id cb ..< next_value_id cb + length vs] \<and>
     (\<exists>cb1 bs. cb_ext cb cb1 \<and> buf cb1 = buf cb @ varint n @ bs \<and>
        cb' = (record_op cb1)\<lparr>next_value_id := next_value_id cb1 + length vs\<rparr>)"

definition block_effect :: "int \<Rightarrow> NestedBlockBuilder \<Rightarrow> code_builder \<Rightarrow> code_builder \<Rightarrow> bool" where
  "block_effect n nb cb cb' \<longleftrightarrow>
     0 \<le> n \<and> (\<exists>cb1 bs. cb_ext cb cb1 \<and> buf cb1 = buf cb @ varint n @ bs \<and> cb' = record_op cb1)"

lemma op_effectI:
  assumes "emit_all (Varint n # fs) cb = Inr cb1"
    and "vs = map Value [next_value_id cb1 ..< next_value_id cb1 + length vs]"
    and "cb' = (record_op cb1)\<lparr>next_value_id := next_value_id cb1 + length vs\<rparr>"
  shows "op_effect n vs cb cb'"
proof -
  have "next_value_id cb1 = next_value_id cb" using cb_extD(3) [OF emit_all_ext [OF assms(1)]] .
  then show ?thesis
    using assms emit_all_ext [OF assms(1)] emit_all_opcode [OF assms(1)]
    unfolding op_effect_def by metis
qed

lemma op_one_effect: "op_one (Varint n # fs) cb = Inr (v, cb') \<Longrightarrow> op_effect n [v] cb cb'"
  by (auto simp: op_one_def and_then_Inr_iff new_op_def record_op_def Let_def
      intro!: op_effectI)

lemma op_none_effect: "op_none (Varint n # fs) cb = Inr cb' \<Longrightarrow> op_effect n [] cb cb'"
  by (auto simp: op_none_def and_then_Inr_iff new_op_n_def record_op_def Let_def
      intro!: op_effectI)

lemma op_many_effect: "op_many k (Varint n # fs) cb = Inr (vs, cb') \<Longrightarrow> op_effect n vs cb cb'"
  by (auto simp: op_many_def and_then_Inr_iff new_op_n_def make_value_tuple_def record_op_def Let_def
      intro!: op_effectI split: if_splits)

lemma op_many_length: "op_many k fs cb = Inr (vs, cb') \<Longrightarrow> length vs = k"
  by (auto simp: op_many_def and_then_Inr_iff new_op_n_def make_value_tuple_def Let_def
      split: if_splits)

lemma op_blocks_effect:
  assumes "op_blocks r b (Varint n # fs) cb = Inr (nb, cb')"
  shows "block_effect n nb cb cb'"
proof -
  from assms obtain cb1 cb2 where 1: "emit_all (Varint n # fs) cb = Inr cb1"
    and 2: "lift_buf (encode_varint (int b)) (record_op cb1) = Inr cb'"
    by (auto simp: op_blocks_def new_op_with_nested_blocks_def and_then_Inr_iff)
  let ?cb2 = "cb1\<lparr>buf := buf cb1 @ varint (int b)\<rparr>"
  have "lift_buf (encode_varint (int b)) cb1 = Inr ?cb2"
    by (simp add: lift_buf_def encode_varint_eq)
  then have "cb_ext cb ?cb2"
    using cb_ext_trans emit_all_ext [OF 1] lift_buf_ext [OF only_appends_varint] by blast
  moreover have "cb' = record_op ?cb2"
    using 2 by (cases cb1) (auto simp: lift_buf_def encode_varint_eq record_op_def)
  ultimately show ?thesis
    using emit_all_opcode [OF 1] unfolding block_effect_def by auto
qed

lemma op_blocks_count:
  assumes "op_blocks r b (Varint n # fs) cb = Inr (nb, cb')"
  shows "nb_num_blocks nb = b \<and> (\<exists>bs. buf cb' = buf cb @ varint n @ bs @ varint (int b))"
proof -
  from assms obtain cb1 where 1: "emit_all (Varint n # fs) cb = Inr cb1"
    and 2: "lift_buf (encode_varint (int b)) (record_op cb1) = Inr cb'" and nb: "nb_num_blocks nb = b"
    by (auto simp: op_blocks_def new_op_with_nested_blocks_def and_then_Inr_iff)
  have "buf cb' = buf cb1 @ varint (int b)"
    using 2 by (auto simp: lift_buf_def encode_varint_eq record_op_def)
  then show ?thesis using emit_all_opcode [OF 1] nb by auto
qed

lemma PrintTko_effect:
  assumes "encode_PrintTkoOp rt args tok s cb = Inr (ov, cb')"
  shows "op_effect 85 (case ov of None \<Rightarrow> [] | Some v \<Rightarrow> [v]) cb cb'"
proof -
  let ?k = "if cb_version cb \<ge> V_13_2 then 1 else 0"
  from assms obtain fs vs where run: "op_many ?k (Varint 85 # fs) cb = Inr (vs, cb')"
    and ov: "ov = (if cb_version cb \<ge> V_13_2 then Some (vs ! 0) else None)"
    by (auto simp: encode_PrintTkoOp_def and_then_Inr_iff Let_def)
  have "(case ov of None \<Rightarrow> [] | Some v \<Rightarrow> [v]) = vs"
    using op_many_length [OF run] ov by (cases vs) (auto split: if_splits)
  then show ?thesis using op_many_effect [OF run] by simp
qed

lemma op_call_effect: "op_call n vs cb cb' \<Longrightarrow> op_effect n vs cb cb'"
  by (induction rule: op_call.induct)
    (erule PrintTko_effect
     | simp add: op_defs Let_def,
       (erule op_one_effect | erule op_none_effect | erule op_many_effect))+

lemma block_call_effect: "block_call n nb cb cb' \<Longrightarrow> block_effect n nb cb cb'"
  by (induction rule: block_call.induct)
    (simp add: block_defs Let_def, erule op_blocks_effect)+

text \<open>Only an \<^verbatim>\<open>IfOp\<close> has two blocks.\<close>

lemma block_call_count:
  "block_call n nb cb cb' \<Longrightarrow> nb_num_blocks nb = (if n = 50 then 2 else 1)
     \<and> (\<exists>bs. buf cb' = buf cb @ varint n @ bs @ varint (int (nb_num_blocks nb)))"
  by (induction rule: block_call.induct) (simp add: block_defs Let_def, drule op_blocks_count, simp)+

section \<open>Well-nested runs\<close>

text \<open>
  \<open>builds d n cb cb'\<close>: a run that writes \<open>d\<close> operations at the current level and \<open>n\<close> in
  all, nested blocks included. \<open>blocks\<close> writes the blocks of one operation. Between two
  operations the debug attribute table may intern strings and the global section strings
  and constants, since both tables belong to the writer.
\<close>

inductive builds :: "nat \<Rightarrow> nat \<Rightarrow> code_builder \<Rightarrow> code_builder \<Rightarrow> bool"
  and blocks :: "nat \<Rightarrow> NestedBlockBuilder \<times> code_builder \<Rightarrow> NestedBlockBuilder \<times> code_builder \<Rightarrow> bool"
where
  build_done: "builds 0 0 cb cb"
| build_op: "op_call k vs cb cb1 \<Longrightarrow> builds d n cb1 cb2 \<Longrightarrow> builds (Suc d) (Suc n) cb cb2"
| build_string: "string_table_getitem key (string_table cb) = (i, st)
    \<Longrightarrow> builds d n (cb\<lparr>string_table := st\<rparr>) cb1 \<Longrightarrow> builds d n cb cb1"
| build_constant: "dense_constant data (constant_table cb) = Inr (c, ct)
    \<Longrightarrow> builds d n (cb\<lparr>constant_table := ct\<rparr>) cb1 \<Longrightarrow> builds d n cb cb1"
| build_scope: "builds d m (cb\<lparr>cur_debug_attr := a\<rparr>) cb1
    \<Longrightarrow> builds d' n (cb1\<lparr>cur_debug_attr := cur_debug_attr cb\<rparr>) cb2
    \<Longrightarrow> builds (d + d') (m + n) cb cb2"
| build_blocks: "block_call k nb cb cb1 \<Longrightarrow> blocks m (nb, cb1) (nb', cb2)
    \<Longrightarrow> nested_done (nb', cb2) = Inr (vs, cb3) \<Longrightarrow> builds d n cb3 cb4
    \<Longrightarrow> builds (Suc d) (Suc (m + n)) cb cb4"
| blocks_done: "blocks 0 (nb, cb) (nb, cb)"
| blocks_next: "new_block_enter ts (nb, cb) = Inr (args, saved, cb1) \<Longrightarrow> builds d m cb1 cb2
    \<Longrightarrow> new_block_exit saved (nb, cb2) = Inr (nb', cb3) \<Longrightarrow> blocks n (nb', cb3) (nb'', cb4)
    \<Longrightarrow> blocks (m + n) (nb, cb) (nb'', cb4)"

text \<open>What every run keeps: \<open>k\<close> operations recorded, everything else extended or unchanged.\<close>

definition run_inv :: "nat \<Rightarrow> code_builder \<Rightarrow> code_builder \<Rightarrow> bool" where
  "run_inv n cb cb' \<longleftrightarrow>
     cb_version cb' = cb_version cb \<and> cur_debug_attr cb' = cur_debug_attr cb \<and>
     (\<exists>as. debug_attr_per_op cb' = debug_attr_per_op cb @ as \<and> length as = n) \<and>
     table_ext (string_table cb) (string_table cb') \<and>
     table_ext (constant_table cb) (constant_table cb') \<and>
     (table_wf 0 (string_table cb) \<longrightarrow> table_wf 0 (string_table cb')) \<and>
     (table_wf 0 (constant_table cb) \<longrightarrow> table_wf 0 (constant_table cb')) \<and>
     (\<exists>bs. buf cb' = buf cb @ bs)"

lemma run_inv_refl [simp]: "run_inv 0 cb cb"
  by (simp add: run_inv_def)

lemma run_inv_trans: "run_inv m a b \<Longrightarrow> run_inv n b c \<Longrightarrow> run_inv (m + n) a c"
  unfolding run_inv_def
  by (elim conjE exE, intro conjI) (auto intro: table_ext_trans)

lemma cb_ext_run_inv: "cb_ext cb cb' \<Longrightarrow> run_inv 0 cb cb'"
  using cb_extD [of cb cb'] by (simp add: run_inv_def)

lemma record_op_run_inv: "run_inv (Suc 0) cb (record_op cb)"
  by (simp add: run_inv_def record_op_def)

lemma run_inv_counters:
  "run_inv n cb (cb'\<lparr>next_value_id := i\<rparr>) \<longleftrightarrow> run_inv n cb cb'"
  "run_inv n cb (cb'\<lparr>num_ops := j\<rparr>) \<longleftrightarrow> run_inv n cb cb'"
  by (simp_all add: run_inv_def)

lemma op_effect_run_inv:
  assumes "op_effect k vs cb cb'"
  shows "run_inv (Suc 0) cb cb'" and "num_ops cb' = Suc (num_ops cb)"
    and "next_value_id cb' = next_value_id cb + length vs"
proof -
  from assms obtain cb1 where 1: "cb_ext cb cb1"
    and cb': "cb' = (record_op cb1)\<lparr>next_value_id := next_value_id cb1 + length vs\<rparr>"
    unfolding op_effect_def by blast
  show "run_inv (Suc 0) cb cb'"
    using run_inv_trans [OF cb_ext_run_inv [OF 1] record_op_run_inv] by (simp add: cb' run_inv_counters)
  show "num_ops cb' = Suc (num_ops cb)" "next_value_id cb' = next_value_id cb + length vs"
    using cb_extD [OF 1] by (simp_all add: cb' record_op_def)
qed

lemma block_effect_run_inv:
  assumes "block_effect k nb cb cb'"
  shows "run_inv (Suc 0) cb cb'" and "num_ops cb' = Suc (num_ops cb)"
    and "next_value_id cb' = next_value_id cb"
proof -
  from assms obtain cb1 where 1: "cb_ext cb cb1" and cb': "cb' = record_op cb1"
    unfolding block_effect_def by blast
  show "run_inv (Suc 0) cb cb'"
    using run_inv_trans [OF cb_ext_run_inv [OF 1] record_op_run_inv] by (simp add: cb')
  show "num_ops cb' = Suc (num_ops cb)" "next_value_id cb' = next_value_id cb"
    using cb_extD [OF 1] by (simp_all add: cb' record_op_def)
qed

lemma nested_done_eq:
  "nested_done (nb, cb) = Inr (vs, cb') \<longleftrightarrow>
     nb_num_blocks nb = 0 \<and> (vs, cb') = make_value_tuple (nb_num_results nb) cb"
  by (auto simp: nested_done_def and_then_Inr_iff py_assert_Inr_iff)

lemma new_block_run:
  assumes "new_block_enter ts (nb, cb) = Inr (args, saved, cb1)"
    and "run_inv n cb1 cb2" and "new_block_exit saved (nb, cb2) = Inr (nb', cb3)"
  shows "run_inv n cb cb3" and "num_ops cb3 = num_ops cb" and "next_value_id cb3 = next_value_id cb"
proof -
  from assms(1) obtain h where h: "run_steps
      [lift_buf (buf_append 1), lift_buf (encode_varint (int (length ts))),
       lift_buf (fold_res encode_typeid ts)] cb = Inr h"
    and saved: "saved = \<lparr>orig_buf = buf h, orig_next_value_id = next_value_id h, orig_num_ops = num_ops h\<rparr>"
    and cb1: "cb1 = h\<lparr>num_ops := 0, buf := [], next_value_id := next_value_id h + length ts\<rparr>"
    by (auto simp: new_block_enter_def and_then_Inr_iff make_value_tuple_def Let_def py_assert_Inr_iff)
  from h obtain h1 h2 where
    "lift_buf (buf_append 1) cb = Inr h1" "lift_buf (encode_varint (int (length ts))) h1 = Inr h2"
    "lift_buf (fold_res encode_typeid ts) h2 = Inr h"
    by (auto simp: and_then_Inr_iff)
  then have ext: "cb_ext cb h"
    using lift_buf_ext [OF only_appends_append] lift_buf_ext [OF only_appends_varint]
      lift_buf_ext [OF only_appends_fold [of encode_typeid, OF only_appends_typeid]]
    by (meson cb_ext_trans)
  have cb3: "cb3 = cb2\<lparr>next_value_id := next_value_id h, num_ops := num_ops h,
      buf := buf h @ varint (int (num_ops cb2)) @ buf cb2\<rparr>"
    using assms(3) by (simp add: new_block_exit_def encode_varint_eq saved buf_extend_def)
  have "run_inv n h cb3" using assms(2) by (simp add: run_inv_def cb3 cb1)
  then show "run_inv n cb cb3" using run_inv_trans [OF cb_ext_run_inv [OF ext]] by force
  show "num_ops cb3 = num_ops cb" "next_value_id cb3 = next_value_id cb"
    using cb_extD [OF ext] by (simp_all add: cb3)
qed

lemma builds_inv:
  "builds d n cb cb' \<Longrightarrow> run_inv n cb cb' \<and> num_ops cb' = num_ops cb + d
     \<and> next_value_id cb \<le> next_value_id cb' \<and> d \<le> n"
  "blocks n nc nc' \<Longrightarrow> run_inv n (snd nc) (snd nc') \<and> num_ops (snd nc') = num_ops (snd nc)
     \<and> next_value_id (snd nc') = next_value_id (snd nc)"
proof (induction rule: builds_blocks.inducts)
  case (build_done cb)
  show ?case by simp
next
  case (build_op k vs cb cb1 d n cb2)
  note e = op_effect_run_inv [OF op_call_effect [OF build_op.hyps(1)]]
  then show ?case using build_op.IH run_inv_trans [OF e(1)] by fastforce
next
  case (build_string key cb i st d n cb1)
  have "run_inv 0 cb (cb\<lparr>string_table := st\<rparr>)"
    using table_getitem_ext [of 0] table_getitem_wf [of 0] build_string.hyps(1)
    unfolding run_inv_def string_table_getitem_def by fastforce
  then show ?case using build_string.IH run_inv_trans by fastforce
next
  case (build_constant data cb c ct d n cb1)
  have "run_inv 0 cb (cb\<lparr>constant_table := ct\<rparr>)"
    using dense_constant_ext [OF build_constant.hyps(1)] by (simp add: run_inv_def)
  then show ?case using build_constant.IH run_inv_trans by fastforce
next
  case (build_scope d m a cb cb1 d' n cb2)
  have "run_inv m cb (cb1\<lparr>cur_debug_attr := cur_debug_attr cb\<rparr>)"
    using build_scope.IH(1) by (simp add: run_inv_def)
  then show ?case using build_scope.IH run_inv_trans by fastforce
next
  case (build_blocks k nb cb cb1 m nb' cb2 vs cb3 d n cb4)
  note e = block_effect_run_inv [OF block_call_effect [OF build_blocks.hyps(1)]]
  have cb3: "cb3 = cb2\<lparr>next_value_id := next_value_id cb2 + nb_num_results nb'\<rparr>"
    using build_blocks.hyps by (auto simp: nested_done_eq make_value_tuple_def Let_def)
  have "run_inv (Suc 0 + m) cb cb3"
    using run_inv_trans [OF e(1)] build_blocks.IH(1) by (simp add: cb3 run_inv_counters)
  then show ?case
    using run_inv_trans [of "Suc 0 + m" cb cb3 n cb4] build_blocks.IH e(2,3) by (simp add: cb3)
next
  case (blocks_done nb cb)
  show ?case by simp
next
  case (blocks_next ts nb cb args saved cb1 d m cb2 nb' cb3 n nb'' cb4)
  have "run_inv m cb1 cb2" using blocks_next.IH by blast
  note b = new_block_run [OF blocks_next.hyps(1) this]
  show ?case using b blocks_next.hyps blocks_next.IH run_inv_trans by fastforce
qed

section \<open>Properties of the builder\<close>

lemma op_effect_fields:
  assumes "op_effect n vs cb cb'"
  shows "(\<exists>bs. buf cb' = buf cb @ varint n @ bs) \<and> num_ops cb' = num_ops cb + 1
    \<and> debug_attr_per_op cb' = debug_attr_per_op cb @ [cur_debug_attr cb]
    \<and> map value_id vs = [next_value_id cb ..< next_value_id cb']"
proof -
  from assms obtain cb1 where 1: "cb_ext cb cb1"
    and b: "\<exists>bs. buf cb1 = buf cb @ varint n @ bs"
    and vs: "vs = map Value [next_value_id cb ..< next_value_id cb + length vs]"
    and cb': "cb' = (record_op cb1)\<lparr>next_value_id := next_value_id cb1 + length vs\<rparr>"
    unfolding op_effect_def by blast
  have "map value_id vs = [next_value_id cb ..< next_value_id cb + length vs]"
    by (subst vs) (simp add: comp_def)
  then show ?thesis
    using b cb_extD [OF 1] by (simp add: cb' record_op_def)
qed

lemma block_effect_fields:
  assumes "block_effect n nb cb cb'"
  shows "(\<exists>bs. buf cb' = buf cb @ varint n @ bs) \<and> num_ops cb' = num_ops cb + 1
    \<and> debug_attr_per_op cb' = debug_attr_per_op cb @ [cur_debug_attr cb] \<and> next_value_id cb' = next_value_id cb"
proof -
  from assms obtain cb1 where 1: "cb_ext cb cb1" and b: "\<exists>bs. buf cb1 = buf cb @ varint n @ bs"
    and cb': "cb' = record_op cb1"
    unfolding block_effect_def by blast
  show ?thesis using b cb_extD [OF 1] by (simp add: cb' record_op_def)
qed

text \<open>
  C14. Every operation encoder, those that open nested blocks included and whatever the
  arguments, first writes its opcode, appends to the buffer only, counts one operation and
  records the current debug attribute for it. An encoder without nested blocks returns the next
  unused values; one with nested blocks takes no value before its blocks are written, and the
  last thing it appends is the number of those blocks, two for \<^verbatim>\<open>IfOp\<close> and one for the others.
\<close>

theorem every_operation_effect:
  assumes "op_call n vs cb cb' \<or> block_call n nb cb cb' \<and> vs = []"
  shows "(\<exists>bs. buf cb' = buf cb @ varint n @ bs)
    \<and> num_ops cb' = num_ops cb + 1
    \<and> debug_attr_per_op cb' = debug_attr_per_op cb @ [cur_debug_attr cb]
    \<and> map value_id vs = [next_value_id cb ..< next_value_id cb']
    \<and> (block_call n nb cb cb' \<longrightarrow> nb_num_blocks nb = (if n = 50 then 2 else 1)
         \<and> (\<exists>bs. buf cb' = buf cb @ varint n @ bs @ varint (int (nb_num_blocks nb))))"
proof -
  have "(\<exists>bs. buf cb' = buf cb @ varint n @ bs) \<and> num_ops cb' = num_ops cb + 1
    \<and> debug_attr_per_op cb' = debug_attr_per_op cb @ [cur_debug_attr cb]
    \<and> map value_id vs = [next_value_id cb ..< next_value_id cb']"
    using assms
  proof
    assume "op_call n vs cb cb'"
    from op_call_effect [OF this] show ?thesis by (rule op_effect_fields)
  next
    assume "block_call n nb cb cb' \<and> vs = []"
    then show ?thesis using block_effect_fields [OF block_call_effect] by auto
  qed
  then show ?thesis using block_call_count by blast
qed

definition sample_builder :: code_builder where
  "sample_builder = \<lparr>buf = [], cb_version = V_13_2, string_table = [], constant_table = [],
     debug_attr_per_op = [], next_value_id = 3, cur_debug_attr = DebugAttrId 7, num_ops = 0\<rparr>"

lemma sample_op_call:
  "op_call 3 [Value 3] sample_builder
     (sample_builder\<lparr>buf := [3, 5, 1, 0, 2], debug_attr_per_op := [DebugAttrId 7],
        next_value_id := 4, num_ops := 1\<rparr>)"
  by (rule op_call.AddIOp [of "TypeId 5" "Value 0" "Value 2" OVF_NSW]) code_simp

lemma sample_block_call:
  "block_call 65 \<lparr>nb_num_results = 0, nb_num_blocks = 1\<rparr> sample_builder
     (sample_builder\<lparr>buf := [65, 0, 0, 1], debug_attr_per_op := [DebugAttrId 7], num_ops := 1\<rparr>)"
  by (rule block_call.LoopOp [of "[]" "[]"]) code_simp

theorem every_operation_effect_witness:
  "(\<exists>bs. [3, 5, 1, 0, 2 :: byte] = [] @ varint 3 @ bs) \<and> map value_id [Value 3] = [3 ..< 4]
    \<and> (\<exists>bs. [65, 0, 0, 1 :: byte] = [] @ varint 65 @ bs @ varint 1)"
  using every_operation_effect [OF disjI1 [OF sample_op_call]]
    every_operation_effect [OF disjI2 [OF conjI [OF sample_block_call refl]]] sample_block_call
  by (simp add: sample_builder_def)

text \<open>
  C12. In every well-nested run the operation count of the level grows by the operations
  written at that level, the debug attribute list by all the operations written, nested
  ones included; the buffer and both tables only grow, the tables stay well-formed, and the
  version and the debug scope are as before.
\<close>

theorem builder_run_invariant:
  assumes "builds d n cb cb'"
  shows "num_ops cb' = num_ops cb + d \<and> d \<le> n \<and> next_value_id cb \<le> next_value_id cb'
    \<and> (\<exists>as. debug_attr_per_op cb' = debug_attr_per_op cb @ as \<and> length as = n)
    \<and> (\<exists>bs. buf cb' = buf cb @ bs)
    \<and> table_ext (string_table cb) (string_table cb')
    \<and> table_ext (constant_table cb) (constant_table cb')
    \<and> (table_wf 0 (string_table cb) \<longrightarrow> table_wf 0 (string_table cb'))
    \<and> (table_wf 0 (constant_table cb) \<longrightarrow> table_wf 0 (constant_table cb'))
    \<and> cb_version cb' = cb_version cb \<and> cur_debug_attr cb' = cur_debug_attr cb"
  using builds_inv(1) [OF assms] by (auto simp: run_inv_def)

definition sample_loop_end :: code_builder where
  "sample_loop_end = sample_builder\<lparr>buf := [65, 0, 0, 1, 1, 0, 1, 10, 0, 0],
     debug_attr_per_op := [DebugAttrId 7, DebugAttrId 7], num_ops := 1\<rparr>"

lemma sample_loop_run: "builds 1 2 sample_builder sample_loop_end"
proof -
  let ?nb = "\<lparr>nb_num_results = 0, nb_num_blocks = 1\<rparr>"
  let ?cb1 = "sample_builder\<lparr>buf := [65, 0, 0, 1], debug_attr_per_op := [DebugAttrId 7], num_ops := 1\<rparr>"
  let ?in = "?cb1\<lparr>buf := [], num_ops := 0\<rparr>"
  let ?in' = "?in\<lparr>buf := [10, 0, 0], num_ops := 1, debug_attr_per_op := [DebugAttrId 7, DebugAttrId 7]\<rparr>"
  let ?saved = "\<lparr>orig_buf = [65, 0, 0, 1, 1, 0], orig_next_value_id = 3, orig_num_ops = 1\<rparr>"
  note loop = sample_block_call
  have "op_call 10 [] ?in ?in'"
    by (rule op_call.BreakOp [of "[]"]) code_simp
  then have body: "builds (Suc 0) (Suc 0) ?in ?in'"
    by (rule build_op) (rule build_done)
  have "blocks (Suc 0 + 0) (?nb, ?cb1) (\<lparr>nb_num_results = 0, nb_num_blocks = 0\<rparr>, sample_loop_end)"
    by (rule blocks_next [where ts = "[]" and args = "[]" and saved = ?saved, OF _ body _ blocks_done];
        code_simp)
  then have "builds (Suc 0) (Suc ((Suc 0 + 0) + 0)) sample_builder sample_loop_end"
    by (rule build_blocks [OF loop _ _ build_done, where vs = "[]"]) code_simp
  then show ?thesis by (simp add: numeral_2_eq_2)
qed

theorem builder_run_invariant_witness:
  "num_ops sample_loop_end = num_ops sample_builder + 1 \<and> (1::nat) \<le> 2"
  using builder_run_invariant [OF sample_loop_run] by blast

end
