(* ===== verification/BcWriter.thy ===== *)
theory BcWriter
  imports BcSteps
begin

text \<open>
  \<^verbatim>\<open>_bytecode/writer.py\<close>: the layout of a bytecode file. The writer's state is a record; its
  context managers are split into the code before and the code after their \<^verbatim>\<open>yield\<close>. A
  reader of sections and tables specifies the layout.
\<close>

section \<open>Padding, sections and tables\<close>

definition pad_to :: "nat \<Rightarrow> bytes \<Rightarrow> bytes" where
  "pad_to alignment b =
     buf_extend (replicate (nat ((- int (length b)) mod int alignment)) 0xcb) b"

datatype SectionId =
  SecEndOfBytecode | SecString | SecFunc | SecDebug | SecConstant | SecType | SecGlobal | SecNumSections

fun Section_value :: "SectionId \<Rightarrow> int" where
  "Section_value SecEndOfBytecode = 0x00"
| "Section_value SecString = 0x01"
| "Section_value SecFunc = 0x02"
| "Section_value SecDebug = 0x03"
| "Section_value SecConstant = 0x04"
| "Section_value SecType = 0x05"
| "Section_value SecGlobal = 0x06"
| "Section_value SecNumSections = 0x07"

text \<open>\<^verbatim>\<open>with _section(id, alignment, buf) as section_buf\<close>, after the body has filled the buffer.\<close>

definition write_section :: "SectionId \<Rightarrow> nat \<Rightarrow> bytes \<Rightarrow> bytes \<Rightarrow> bytes res" where
  "write_section section_id alignment section_buf b =
     run_steps
       [buf_append (Section_value section_id OR (if alignment > 1 then 0x80 else 0)),
        encode_varint (int (length section_buf)),
        \<lambda>b. if alignment > 1
            then and_then (encode_varint (int alignment) b) (\<lambda>b. Inr (pad_to alignment b))
            else Inr b,
        \<lambda>b. Inr (buf_extend section_buf b)] b"

definition write_header :: "bytecode_version \<Rightarrow> bytes \<Rightarrow> bytes res" where
  "write_header version b =
     run_steps
       [\<lambda>b. Inr (buf_extend (0x7f # str_encode ''TileIR'' @ [0x00]) b),
        buf_append (version_major version),
        buf_append (version_minor version),
        \<lambda>b. and_then (to_bytes_unsigned 2 (version_tag version)) (\<lambda>bs. Inr (buf_extend bs b))] b"

text \<open>
  The loop of \<^verbatim>\<open>_write_table\<close> over the items sorted by identifier; \<open>expected\<close> and
  \<open>offset\<close> are its counters.
\<close>

fun write_offsets :: "nat \<Rightarrow> nat \<Rightarrow> nat \<Rightarrow> (bytes \<times> nat) list \<Rightarrow> bytes \<Rightarrow> bytes res" where
  "write_offsets index_size expected offset [] b = Inr b"
| "write_offsets index_size expected offset ((item, i) # items) b =
     and_then (py_assert (expected = i)) (\<lambda>_.
     and_then (to_bytes_unsigned index_size (int offset)) (\<lambda>bs.
     write_offsets index_size (expected + 1) (offset + length item) items (buf_extend bs b)))"

definition write_table :: "nat \<Rightarrow> table \<Rightarrow> nat \<Rightarrow> bytes \<Rightarrow> bytes res" where
  "write_table start t index_size b =
     (let items = sort_key snd t
      in and_then (encode_varint (int (length items)) b) (\<lambda>b.
         and_then (write_offsets index_size start 0 items (pad_to index_size b)) (\<lambda>b.
         Inr (buf_extend (concat (map fst items)) b))))"

section \<open>Globals\<close>

record GlobalSection =
  gs_version :: bytecode_version
  gs_defined_names :: "string list"
  gs_contents :: bytes

text \<open>\<^verbatim>\<open>define_global\<close> works on the section and on the string and constant tables it shares.\<close>

definition define_global ::
  "string \<Rightarrow> TypeId \<Rightarrow> bytes \<Rightarrow> int \<Rightarrow> bool \<Rightarrow> SymbolVisibility
     \<Rightarrow> GlobalSection \<times> table \<times> table \<Rightarrow> (GlobalSection \<times> table \<times> table) res" where
  "define_global name type data alignment constant symbol_visibility gst =
     (case gst of (gs, st, ct) \<Rightarrow>
       if name \<in> set (gs_defined_names gs) then Inl ValueError
       else
         let (name_id, st) = string_table_getitem (str_encode name) st
         in and_then (run_steps [encode_varint (int name_id), encode_typeid type] (gs_contents gs)) (\<lambda>b.
            and_then (dense_constant data ct) (\<lambda>(cid, ct).
            and_then
              (run_steps
                [encode_varint (int (constant_id cid)),
                 encode_varint alignment,
                 \<lambda>b. if gs_version gs \<ge> V_13_3
                     then encode_varint (of_bool constant)
                            (buf_extend (SymbolVisibility_value symbol_visibility) b)
                     else Inr b] b) (\<lambda>b.
            Inr (gs\<lparr>gs_contents := b, gs_defined_names := gs_defined_names gs @ [name]\<rparr>, st, ct)))))"

definition is_defined :: "string \<Rightarrow> GlobalSection \<Rightarrow> bool" where
  "is_defined global_name gs \<longleftrightarrow> global_name \<in> set (gs_defined_names gs)"

section \<open>The writer\<close>

record BytecodeWriter =
  w_num_functions :: nat
  w_debug_info :: "DebugAttrId list list"
  w_buf :: bytes
  w_string_table :: table
  w_debug_attr_table :: table
  w_constant_table :: table
  w_type_table :: type_table
  w_global_section :: GlobalSection
  w_version :: bytecode_version

definition BytecodeWriter_init :: "bytes \<Rightarrow> bytecode_version \<Rightarrow> BytecodeWriter res" where
  "BytecodeWriter_init b version =
     and_then (type_table_init version) (\<lambda>tt.
       Inr \<lparr>w_num_functions = 0, w_debug_info = [], w_buf = b, w_string_table = [],
            w_debug_attr_table = [], w_constant_table = [], w_type_table = tt,
            w_global_section = \<lparr>gs_version = version, gs_defined_names = [], gs_contents = []\<rparr>,
            w_version = version\<rparr>)"

text \<open>
  \<^verbatim>\<open>with writer.function(...) as fb: body\<close>. While the body runs, the code builder holds the
  shared string and constant tables and this function's debug attribute list.
\<close>

definition function_enter ::
  "string \<Rightarrow> TypeId list \<Rightarrow> TypeId list \<Rightarrow> bool \<Rightarrow> (string \<times> EntryHints) list \<Rightarrow> DebugAttrId
     \<Rightarrow> BytecodeWriter \<Rightarrow> (Value list \<times> code_builder \<times> BytecodeWriter) res" where
  "function_enter name parameter_types result_types entry_point hints debug_attr w =
     and_then (put_string name (w_string_table w, w_buf w)) (\<lambda>(st, b).
     and_then (tt_function parameter_types result_types (w_type_table w)) (\<lambda>(sig_ty, tt).
     and_then
       (run_steps
         [encode_typeid sig_ty,
          buf_append (if entry_point then 0x02 OR (if hints \<noteq> [] then 0x04 else 0) else 0)] b) (\<lambda>b.
     let debug_info = w_debug_info w @ [[debug_attr]]
     in and_then (encode_varint (int (length debug_info)) b) (\<lambda>b.
     and_then
       (if entry_point \<and> hints \<noteq> [] then encode_tagged (make_entry_hints hints) (st, b)
        else Inr (st, b)) (\<lambda>(st, b).
     let builder = \<lparr>buf = [], cb_version = w_version w, string_table = st,
                    constant_table = w_constant_table w, debug_attr_per_op = last debug_info,
                    next_value_id = 0, cur_debug_attr = DebugAttrId 0, num_ops = 0\<rparr>;
         (args, builder) = make_value_tuple (length parameter_types) builder
     in Inr (args, builder,
             w\<lparr>w_num_functions := w_num_functions w + 1, w_debug_info := debug_info, w_buf := b,
               w_string_table := st, w_type_table := tt\<rparr>))))))"

definition function_exit :: "code_builder \<Rightarrow> BytecodeWriter \<Rightarrow> BytecodeWriter res" where
  "function_exit builder w =
     and_then (encode_varint (int (length (buf builder))) (w_buf w)) (\<lambda>b.
       Inr (w\<lparr>w_buf := buf_extend (buf builder) b,
              w_string_table := string_table builder,
              w_constant_table := constant_table builder,
              w_debug_info := butlast (w_debug_info w) @ [debug_attr_per_op builder]\<rparr>))"

definition write_function ::
  "string \<Rightarrow> TypeId list \<Rightarrow> TypeId list \<Rightarrow> bool \<Rightarrow> (string \<times> EntryHints) list \<Rightarrow> DebugAttrId
     \<Rightarrow> (Value list \<Rightarrow> code_builder \<Rightarrow> code_builder res) \<Rightarrow> BytecodeWriter \<Rightarrow> BytecodeWriter res" where
  "write_function name parameter_types result_types entry_point hints debug_attr body w =
     and_then (function_enter name parameter_types result_types entry_point hints debug_attr w)
       (\<lambda>(args, builder, w). and_then (body args builder) (\<lambda>builder. function_exit builder w))"

definition write_global_section :: "GlobalSection \<Rightarrow> bytes \<Rightarrow> bytes res" where
  "write_global_section gs b =
     (if length (gs_defined_names gs) > 0
      then and_then (encode_varint (int (length (gs_defined_names gs))) []) (\<lambda>section_buf.
             write_section SecGlobal 1 (buf_extend (gs_contents gs) section_buf) b)
      else Inr b)"

fun write_func_offsets :: "nat \<Rightarrow> DebugAttrId list list \<Rightarrow> bytes \<Rightarrow> (nat \<times> bytes) res" where
  "write_func_offsets index_offset [] b = Inr (index_offset, b)"
| "write_func_offsets index_offset (func_info # fs) b =
     and_then (to_bytes_unsigned 4 (int index_offset)) (\<lambda>bs.
     write_func_offsets (index_offset + length func_info) fs (buf_extend bs b))"

definition write_debug_info_section ::
  "DebugAttrId list list \<Rightarrow> table \<Rightarrow> bytes \<Rightarrow> bytes res" where
  "write_debug_info_section debug_info attr_table b =
     and_then (encode_varint (int (length debug_info)) []) (\<lambda>section_buf.
     and_then (write_func_offsets 0 debug_info (pad_to 4 section_buf)) (\<lambda>(index_offset, section_buf).
     and_then (encode_varint (int index_offset) section_buf) (\<lambda>section_buf.
     and_then
       (fold_res
         (\<lambda>attr s. and_then (to_bytes_unsigned 8 (int (debug_attr_id attr))) (\<lambda>bs. Inr (buf_extend bs s)))
         (concat debug_info) (pad_to 8 section_buf)) (\<lambda>section_buf.
     and_then
       (if length attr_table = 0
        then (let (i, attr_table) = table_getitem 1 [0x00] []
              in and_then (py_assert (i = 1)) (\<lambda>_. Inr attr_table))
        else Inr attr_table) (\<lambda>attr_table.
     and_then (write_table 1 attr_table 4 section_buf) (\<lambda>section_buf.
     write_section SecDebug 8 section_buf b))))))"

text \<open>
  \<^verbatim>\<open>with write_bytecode(n, buf, version) as w: body\<close>: before the body, the header and the
  buffer of the function section; after it, all sections.
\<close>

definition write_bytecode_enter ::
  "nat \<Rightarrow> bytes \<Rightarrow> bytecode_version \<Rightarrow> (bytes \<times> BytecodeWriter) res" where
  "write_bytecode_enter num_functions b version =
     and_then (write_header version b) (\<lambda>b.
     and_then (encode_varint (int num_functions) []) (\<lambda>section_buf.
     and_then (BytecodeWriter_init section_buf version) (\<lambda>w. Inr (b, w))))"

definition write_bytecode_exit :: "nat \<Rightarrow> BytecodeWriter \<Rightarrow> bytes \<Rightarrow> bytes res" where
  "write_bytecode_exit num_functions w b =
     and_then (py_assert (w_num_functions w = num_functions)) (\<lambda>_.
     run_steps
       [write_section SecFunc 8 (w_buf w),
        write_global_section (w_global_section w),
        \<lambda>b. and_then (write_table 0 (w_constant_table w) 8 []) (\<lambda>s. write_section SecConstant 8 s b),
        write_debug_info_section (w_debug_info w) (w_debug_attr_table w),
        \<lambda>b. and_then (write_table 0 (tt_items (w_type_table w)) 4 []) (\<lambda>s. write_section SecType 4 s b),
        \<lambda>b. and_then (write_table 0 (w_string_table w) 4 []) (\<lambda>s. write_section SecString 4 s b),
        buf_append (Section_value SecEndOfBytecode)] b)"

definition write_bytecode ::
  "nat \<Rightarrow> bytecode_version \<Rightarrow> (BytecodeWriter \<Rightarrow> BytecodeWriter res) \<Rightarrow> bytes \<Rightarrow> bytes res" where
  "write_bytecode num_functions version body b =
     and_then (write_bytecode_enter num_functions b version) (\<lambda>(b, w).
     and_then (body w) (\<lambda>w. write_bytecode_exit num_functions w b))"

end
