(* ===== verification/BcFile.thy ===== *)
theory BcFile
  imports BcWriter
begin

text \<open>
  A reader for the files of \<^verbatim>\<open>_bytecode/writer.py\<close>: tables, sections, the debug section and
  the whole file, and the proofs that it reads back what the writer wrote. \<open>writer_run\<close> is a
  sequence of calls on the writer with function bodies of any operations.
\<close>

section \<open>Reading tables back\<close>

fun offsets_from :: "nat \<Rightarrow> 'a list list \<Rightarrow> nat list" where
  "offsets_from off [] = []"
| "offsets_from off (x # xs) = off # offsets_from (off + length x) xs"

fun slices :: "nat list \<Rightarrow> 'a list \<Rightarrow> 'a list list" where
  "slices [] d = []"
| "slices [x] d = [drop x d]"
| "slices (x # y # zs) d = take (y - x) (drop x d) # slices (y # zs) d"

definition dec_unsigned :: "nat \<Rightarrow> bytes \<Rightarrow> (int \<times> bytes) option" where
  "dec_unsigned w bs = (if length bs < w then None else Some (from_le_bytes (take w bs), drop w bs))"

definition skip_pad :: "nat \<Rightarrow> nat \<Rightarrow> bytes \<Rightarrow> bytes" where
  "skip_pad alignment pos bs = drop (nat ((- int pos) mod int alignment)) bs"

text \<open>A table that starts at position \<open>pos\<close> of its section and runs to the section's end.\<close>

definition parse_table :: "nat \<Rightarrow> nat \<Rightarrow> bytes \<Rightarrow> bytes list option" where
  "parse_table pos index_size bs =
     Option.bind (dec_varint bs) (\<lambda>(n, r).
     Option.bind
       (dec_times (dec_unsigned index_size) (nat n)
         (skip_pad index_size (pos + (length bs - length r)) r)) (\<lambda>(offs, data).
     Some (slices (map nat offs) data)))"

lemma length_offsets_from [simp]: "length (offsets_from off xs) = length xs"
  by (induction xs arbitrary: off) auto

lemma slices_offsets: "slices (offsets_from (length pre) xs) (pre @ concat xs) = xs"
proof (induction xs arbitrary: pre)
  case (Cons x xs)
  show ?case
  proof (cases xs)
    case (Cons y ys)
    have "slices (offsets_from (length (pre @ x)) xs) ((pre @ x) @ concat xs) = xs"
      by (rule Cons.IH)
    then show ?thesis using Cons by simp
  qed simp
qed simp

lemma dec_unsigned_le_bytes:
  "0 \<le> x \<Longrightarrow> x < 2 ^ (8 * w) \<Longrightarrow> dec_unsigned w (le_bytes w x @ r) = Some (x, r)"
  by (simp add: dec_unsigned_def from_le_bytes_le_bytes)

interpretation u8b: codec "le_bytes w" "dec_unsigned w" "\<lambda>x. 0 \<le> x \<and> x < 2 ^ (8 * w)"
  by unfold_locales (simp add: dec_unsigned_le_bytes)

lemma write_offsets_eq:
  assumes "map snd items = [e ..< e + length items]"
  shows "write_offsets w e off items b =
     (if \<forall>x \<in> set (offsets_from off (map fst items)). int x < 2 ^ (8 * w)
      then Inr (b @ concat (map (le_bytes w) (map int (offsets_from off (map fst items)))))
      else Inl OverflowError)"
  using assms
proof (induction items arbitrary: e off b)
  case (Cons it items)
  obtain k i where it: "it = (k, i)" by fastforce
  have "[e ..< e + length (it # items)] = e # [Suc e ..< Suc e + length items]"
    by (simp add: upt_conv_Cons del: upt_Suc)
  with Cons.prems it have i: "i = e" and rest: "map snd items = [Suc e ..< Suc e + length items]"
    by (simp_all del: upt_Suc)
  show ?case
    by (simp add: it i Cons.IH [OF rest, of "off + length k"] to_bytes_unsigned_def buf_extend_def)
qed simp

lemma table_wf_sorted: "table_wf start t \<Longrightarrow> sort_key snd t = t"
  by (rule sort_key_id_if_sorted) (simp add: table_wf_def del: upt_Suc)

lemma offsets_from_nonneg: "x \<in> set (map int (offsets_from off xs)) \<Longrightarrow> 0 \<le> x"
  by auto

lemma skip_pad_pad:
  "skip_pad alignment (length b)
     (replicate (nat ((- int (length b)) mod int alignment)) p @ r) = r"
  by (simp add: skip_pad_def)

lemma write_table_eq:
  assumes "table_wf start t" "write_table start t w b = Inr b'"
  shows "\<exists>n. (\<forall>x \<in> set (offsets_from 0 (map fst t)). int x < 2 ^ (8 * w)) \<and>
    n = nat ((- int (length (b @ varint (int (length t))))) mod int w) \<and>
    b' = b @ varint (int (length t)) @ replicate n 0xcb @
     concat (map (le_bytes w) (map int (offsets_from 0 (map fst t)))) @ concat (map fst t)"
proof -
  have s: "map snd t = [start ..< start + length t]"
    using assms(1) by (simp add: table_wf_def)
  show ?thesis
    using assms(2)
    by (simp add: write_table_def table_wf_sorted [OF assms(1)] Let_def encode_varint_eq
        write_offsets_eq [OF s] pad_to_def buf_extend_def split: if_splits)
qed

lemma map_nat_int [simp]: "map nat (map int xs) = xs"
  by (induction xs) auto

lemma table_roundtrip_aux:
  assumes "table_wf start t" "write_table start t w b = Inr b'"
  shows "\<exists>bs. b' = b @ bs \<and> parse_table (length b) w bs = Some (map fst t)"
proof -
  let ?offs = "map int (offsets_from 0 (map fst t))"
  from write_table_eq [OF assms] obtain n where
    small: "\<forall>x \<in> set (offsets_from 0 (map fst t)). int x < 2 ^ (8 * w)" and
    n: "n = nat ((- int (length (b @ varint (int (length t))))) mod int w)" and
    b': "b' = b @ varint (int (length t)) @ replicate n 0xcb @
       concat (map (le_bytes w) ?offs) @ concat (map fst t)" by blast
  let ?v = "varint (int (length t))"
  let ?r = "replicate n 0xcb @ concat (map (le_bytes w) ?offs) @ concat (map fst t)"
  have skip: "skip_pad w (length b + length ?v) ?r =
      concat (map (le_bytes w) ?offs) @ concat (map fst t)"
    using skip_pad_pad [of w "b @ ?v"] n by simp
  have len: "length ?offs = nat (int (length t))" by simp
  have ok: "\<forall>x \<in> set ?offs. 0 \<le> x \<and> x < 2 ^ (8 * w)" using small by auto
  have offs: "dec_times (dec_unsigned w) (nat (int (length t)))
       (concat (map (le_bytes w) ?offs) @ concat (map fst t)) = Some (?offs, concat (map fst t))"
    using u8b.dec_times_enc [OF ok] len by metis
  have "parse_table (length b) w (?v @ ?r) = Some (map fst t)"
    using slices_offsets [of "[]" "map fst t"] skip offs
    by (simp add: parse_table_def vi.dec_enc comp_def del: map_map)
  then show ?thesis using b' by auto
qed

section \<open>Reading sections back\<close>

record parsed_section =
  ps_id :: int
  ps_alignment :: int
  ps_position :: nat
  ps_content :: bytes

text \<open>A section whose identifier byte stands at position \<open>pos\<close> of the file.\<close>

definition parse_section :: "nat \<Rightarrow> bytes \<Rightarrow> (parsed_section \<times> bytes) option" where
  "parse_section pos bs =
     (case bs of [] \<Rightarrow> None
      | b # r \<Rightarrow>
        Option.bind (dec_varint r) (\<lambda>(len, r1).
        Option.bind
          (if unat b < 128 then Some (1, r1)
           else map_option
                  (\<lambda>(al, r2). (al, skip_pad (nat al) (pos + (length bs - length r2)) r2))
                  (dec_varint r1)) (\<lambda>(al, r3).
        if length r3 < nat len then None
        else Some (\<lparr>ps_id = int (unat b) mod 128, ps_alignment = al,
                    ps_position = pos + (length bs - length r3),
                    ps_content = take (nat len) r3\<rparr>, drop (nat len) r3))))"

lemma Section_id_byte:
  "buf_append (Section_value s OR (if alignment > 1 then 0x80 else 0)) b =
     Inr (b @ [word_of_int (Section_value s + (if alignment > 1 then 128 else 0))])"
  by (cases s) (simp_all add: buf_append_def)

lemma Section_id_unat:
  "unat (word_of_int (Section_value s + (if c then 128 else 0)) :: byte) =
     nat (Section_value s) + (if c then 128 else 0)"
  by (cases s; cases c) simp_all

lemma Section_value_range: "0 \<le> Section_value s" "Section_value s < 8"
  by (cases s; simp)+

lemma pad_position: "(k + nat ((- int k) mod int a)) mod a = 0" if "0 < a" for k a :: nat
proof -
  have "int ((k + nat ((- int k) mod int a)) mod a) = (int k + (- int k) mod int a) mod int a"
    using that by (simp add: zmod_int)
  also have "\<dots> = 0" by (simp add: mod_simps)
  finally show ?thesis by simp
qed

lemma section_roundtrip_aux:
  assumes "write_section s alignment content b = Inr b'" "0 < alignment"
  shows "\<exists>bs p. b' = b @ bs \<and> p mod alignment = 0 \<and> length b < p \<and>
     (\<forall>r. parse_section (length b) (bs @ r) =
        Some (\<lparr>ps_id = Section_value s, ps_alignment = int alignment, ps_position = p,
               ps_content = content\<rparr>, r))"
proof (cases "alignment > 1")
  case False
  then have al: "alignment = 1" using assms(2) by simp
  let ?b = "word_of_int (Section_value s) :: byte"
  let ?bs = "?b # varint (int (length content)) @ content"
  have b': "b' = b @ ?bs"
    using assms(1) Section_id_byte [of s alignment b] False
    by (simp add: write_section_def encode_varint_eq buf_extend_def)
  have u: "unat ?b = nat (Section_value s)" "unat ?b < 128"
    using Section_id_unat [of s False] Section_value_range [of s] by simp_all
  have "parse_section (length b) (?bs @ r) =
      Some (\<lparr>ps_id = Section_value s, ps_alignment = int alignment,
             ps_position = length b + Suc (length (varint (int (length content)))),
             ps_content = content\<rparr>, r)" for r
    using u Section_value_range [of s]
    by (simp add: parse_section_def vi.dec_enc al)
  then show ?thesis using b' al by (intro exI [of _ ?bs]) auto
next
  case True
  let ?b = "word_of_int (Section_value s + 128) :: byte"
  let ?h = "?b # varint (int (length content)) @ varint (int alignment)"
  define n where "n = nat ((- int (length (b @ ?h))) mod int alignment)"
  let ?bs = "?h @ replicate n 0xcb @ content"
  have pad: "pad_to alignment (b @ ?h) = b @ ?h @ replicate n 0xcb"
    by (simp only: pad_to_def buf_extend_def n_def append_assoc)
  have b': "b' = b @ ?bs"
    using assms(1) Section_id_byte [of s alignment b] True pad
    by (simp add: write_section_def encode_varint_eq buf_extend_def)
  have u: "unat ?b = nat (Section_value s) + 128"
    using Section_id_unat [of s True] by simp
  have id: "(Section_value s + 128) mod 128 = Section_value s"
    using Section_value_range [of s] by simp
  have skip: "skip_pad alignment (length (b @ ?h)) (replicate n 0xcb @ r) = r" for r
    using skip_pad_pad [of alignment "b @ ?h"] by (simp add: n_def)
  have "parse_section (length b) (?bs @ r) =
      Some (\<lparr>ps_id = Section_value s, ps_alignment = int alignment,
             ps_position = length (b @ ?h) + n, ps_content = content\<rparr>, r)" for r
    using u Section_value_range [of s] id skip [of "content @ r"]
    by (simp add: parse_section_def vi.dec_enc)
  moreover have "(length (b @ ?h) + n) mod alignment = 0"
    unfolding n_def by (rule pad_position) (use assms(2) in simp)
  ultimately show ?thesis using b' by (intro exI [of _ ?bs] exI [of _ "length (b @ ?h) + n"]) auto
qed

text \<open>
  All sections up to the end marker, which must be the last byte of the file. \<open>fuel\<close> bounds
  the number of sections; the writer makes at most six.
\<close>

fun parse_sections :: "nat \<Rightarrow> nat \<Rightarrow> bytes \<Rightarrow> parsed_section list option" where
  "parse_sections 0 pos bs = None"
| "parse_sections (Suc fuel) pos bs =
     (if bs = [0] then Some []
      else Option.bind (parse_section pos bs) (\<lambda>(s, r).
        map_option ((#) s) (parse_sections fuel (pos + (length bs - length r)) r)))"

lemma parse_sections_step:
  "bs \<noteq> [0] \<Longrightarrow> parse_section pos bs = Some (s, r) \<Longrightarrow>
     parse_sections (Suc fuel) pos bs =
       map_option ((#) s) (parse_sections fuel (pos + (length bs - length r)) r)"
  by simp

definition magic :: bytes where
  "magic = 0x7f # str_encode ''TileIR'' @ [0x00]"

record parsed_file =
  pf_major :: int
  pf_minor :: int
  pf_tag :: int
  pf_sections :: "parsed_section list"

definition parse_file :: "bytes \<Rightarrow> parsed_file option" where
  "parse_file bs =
     (if length bs < 12 \<or> take 8 bs \<noteq> magic then None
      else map_option
             (\<lambda>ss. \<lparr>pf_major = uint (bs ! 8), pf_minor = uint (bs ! 9),
                     pf_tag = from_le_bytes (take 2 (drop 10 bs)), pf_sections = ss\<rparr>)
             (parse_sections 7 12 (drop 12 bs)))"

text \<open>\<open>sections_at b ss b'\<close>: the bytes from the end of \<open>b\<close> to the end of \<open>b'\<close> are the sections \<open>ss\<close>.\<close>

definition sections_at :: "bytes \<Rightarrow> parsed_section list \<Rightarrow> bytes \<Rightarrow> bool" where
  "sections_at b ss b' \<longleftrightarrow>
     (\<exists>bs. b' = b @ bs \<and>
       (\<forall>fuel r. parse_sections (length ss + fuel) (length b) (bs @ r) =
          map_option ((@) ss) (parse_sections fuel (length b') r)))"

lemma map_option_append:
  "map_option ((@) []) x = x"
  "map_option ((@) (xs @ ys)) z = map_option (\<lambda>v. xs @ ys @ v) z"
  "map_option ((@) [y]) z = map_option ((#) y) z"
  by (cases x; simp) (cases z; simp)+

lemma sections_at_Nil [simp]: "sections_at b [] b"
  by (simp add: sections_at_def map_option_append)

lemma sections_at_trans:
  assumes "sections_at b ss b1" "sections_at b1 ss' b2"
  shows "sections_at b (ss @ ss') b2"
proof -
  from assms(1) obtain bs where bs: "b1 = b @ bs"
    and p: "\<And>fuel r. parse_sections (length ss + fuel) (length b) (bs @ r) =
          map_option ((@) ss) (parse_sections fuel (length b1) r)"
    by (auto simp: sections_at_def)
  from assms(2) obtain bs' where bs': "b2 = b1 @ bs'"
    and p': "\<And>fuel r. parse_sections (length ss' + fuel) (length b1) (bs' @ r) =
          map_option ((@) ss') (parse_sections fuel (length b2) r)"
    by (auto simp: sections_at_def)
  have "parse_sections (length (ss @ ss') + fuel) (length b) ((bs @ bs') @ r) =
      map_option ((@) (ss @ ss')) (parse_sections fuel (length b2) r)" for fuel r
    using p [of "length ss' + fuel" "bs' @ r"] p' [of fuel r]
    by (simp add: option.map_comp comp_def add.assoc map_option_append)
  then show ?thesis unfolding sections_at_def using bs bs' by auto
qed

definition section_ok :: "SectionId \<Rightarrow> nat \<Rightarrow> bytes \<Rightarrow> parsed_section \<Rightarrow> bool" where
  "section_ok s alignment content p \<longleftrightarrow>
     ps_id p = Section_value s \<and> ps_alignment p = int alignment \<and> ps_content p = content
     \<and> ps_position p mod alignment = 0"

lemma section_ok_content: "section_ok s al c p \<Longrightarrow> ps_content p = c"
  by (simp add: section_ok_def)

lemma write_section_at:
  assumes "write_section s alignment content b = Inr b'" "0 < alignment" "s \<noteq> SecEndOfBytecode"
  shows "\<exists>p. section_ok s alignment content p \<and> sections_at b [p] b'"
proof -
  from section_roundtrip_aux [OF assms(1,2)] obtain bs p where
    aux: "b' = b @ bs \<and> p mod alignment = 0 \<and> length b < p \<and>
     (\<forall>r. parse_section (length b) (bs @ r) =
        Some (\<lparr>ps_id = Section_value s, ps_alignment = int alignment, ps_position = p,
               ps_content = content\<rparr>, r))" by (elim exE)
  let ?p = "\<lparr>ps_id = Section_value s, ps_alignment = int alignment, ps_position = p,
               ps_content = content\<rparr>"
  from aux have b': "b' = b @ bs" and p: "p mod alignment = 0" by blast+
  have r: "parse_section (length b) (bs @ r) = Some (?p, r)" for r using aux by blast
  have z: "bs @ r \<noteq> [0]" for r
  proof
    assume e: "bs @ r = [0]"
    have "parse_section (length b) [0] = None"
      by (simp add: parse_section_def dec_varint_def)
    with r [of r] show False unfolding e by simp
  qed
  have "parse_sections (length [?p] + fuel) (length b) (bs @ r) =
      map_option ((@) [?p]) (parse_sections fuel (length b') r)" for fuel r
    using parse_sections_step [OF z r, of fuel] unfolding b' map_option_append by simp
  then have "sections_at b [?p] b'"
    unfolding sections_at_def using b' by blast
  then show ?thesis using p by (auto simp: section_ok_def intro!: exI [of _ ?p])
qed

section \<open>The whole file\<close>

definition writer_wf :: "BytecodeWriter \<Rightarrow> bool" where
  "writer_wf w \<longleftrightarrow>
     table_wf 0 (w_string_table w) \<and> table_wf 1 (w_debug_attr_table w)
     \<and> table_wf 0 (w_constant_table w) \<and> type_table_wf (w_type_table w)
     \<and> distinct (gs_defined_names (w_global_section w))
     \<and> tt_version (w_type_table w) = w_version w
     \<and> gs_version (w_global_section w) = w_version w
     \<and> length (w_debug_info w) = w_num_functions w"

text \<open>The debug section writes a placeholder attribute when the table is empty.\<close>

definition placeholder_table :: "table \<Rightarrow> table" where
  "placeholder_table t = (if length t = 0 then [([0], 1)] else t)"

lemma write_table_section:
  assumes "and_then (write_table start t w []) (\<lambda>c. write_section s al c b) = Inr b'"
    and "table_wf start t" "0 < al" "s \<noteq> SecEndOfBytecode"
  shows "\<exists>p. section_ok s al (ps_content p) p \<and> sections_at b [p] b'
     \<and> parse_table 0 w (ps_content p) = Some (map fst t)"
proof -
  from assms(1) obtain c where c: "write_table start t w [] = Inr c"
    and sec: "write_section s al c b = Inr b'" by (auto simp: and_then_Inr_iff)
  from table_roundtrip_aux [OF assms(2) c] have "parse_table 0 w c = Some (map fst t)" by auto
  moreover obtain p where p: "section_ok s al c p" "sections_at b [p] b'"
    using write_section_at [OF sec assms(3,4)] by blast
  ultimately show ?thesis by (intro exI [of _ p]) (simp add: section_ok_content [OF p(1)])
qed

lemma write_global_section_at:
  assumes "write_global_section gs b = Inr b'"
  shows "\<exists>gl. sections_at b gl b' \<and> length gl \<le> 1 \<and>
     (if gs_defined_names gs = [] then gl = []
      else \<exists>g. gl = [g] \<and> section_ok SecGlobal 1
            (varint (int (length (gs_defined_names gs))) @ gs_contents gs) g)"
proof (cases "gs_defined_names gs = []")
  case True
  then have "b' = b" using assms by (simp add: write_global_section_def)
  with True show ?thesis by (intro exI [of _ "[]"]) simp
next
  case False
  let ?c = "varint (int (length (gs_defined_names gs))) @ gs_contents gs"
  have "write_section SecGlobal 1 ?c b = Inr b'"
    using assms False by (simp add: write_global_section_def encode_varint_eq buf_extend_def)
  then obtain g where "section_ok SecGlobal 1 ?c g" "sections_at b [g] b'"
    using write_section_at [of SecGlobal 1 ?c b b'] by auto
  with False show ?thesis by (intro exI [of _ "[g]"]) simp
qed

text \<open>The debug section: the attribute identifiers of every function, and the attribute table.\<close>

definition parse_debug_section :: "bytes \<Rightarrow> (nat list list \<times> bytes list) option" where
  "parse_debug_section bs =
     Option.bind (dec_varint bs) (\<lambda>(n, r1).
     Option.bind (dec_times (dec_unsigned 4) (nat n) (skip_pad 4 (length bs - length r1) r1))
       (\<lambda>(offs, r2).
     Option.bind (dec_varint r2) (\<lambda>(total, r3).
     Option.bind (dec_times (dec_unsigned 8) (nat total) (skip_pad 8 (length bs - length r3) r3))
       (\<lambda>(ids, r4).
     map_option (\<lambda>entries. (slices (map nat offs) (map nat ids), entries))
       (parse_table (length bs - length r4) 4 r4)))))"

lemma write_func_offsets_eq:
  "write_func_offsets idx fs b =
     (if \<forall>x \<in> set (offsets_from idx fs). int x < 2 ^ 32
      then Inr (idx + length (concat fs), b @ concat (map (le_bytes 4) (map int (offsets_from idx fs))))
      else Inl OverflowError)"
  by (induction fs arbitrary: idx b) (auto simp: to_bytes_unsigned_def buf_extend_def)

lemma fold_unsigned_eq:
  "fold_res (\<lambda>a s. and_then (to_bytes_unsigned w (int (f a))) (\<lambda>bs. Inr (buf_extend bs s))) xs b =
     (if \<forall>x \<in> set xs. int (f x) < 2 ^ (8 * w)
      then Inr (b @ concat (map (le_bytes w) (map int (map f xs)))) else Inl OverflowError)"
  by (induction xs arbitrary: b) (auto simp: to_bytes_unsigned_def buf_extend_def)

lemma offsets_from_map: "offsets_from i (map (map f) xs) = offsets_from i xs"
  by (induction xs arbitrary: i) auto

lemma pad_to_eq: "pad_to a b = b @ replicate (nat ((- int (length b)) mod int a)) 0xcb"
  by (simp add: pad_to_def buf_extend_def)

lemma write_debug_content:
  assumes "write_debug_info_section infos t b = Inr b'"
  shows "\<exists>c pad1 pad2. let offs = map int (offsets_from 0 infos);
        ids = map int (map debug_attr_id (concat infos));
        c1 = varint (int (length infos)); c2 = c1 @ replicate pad1 0xcb @ concat (map (le_bytes 4) offs)
          @ varint (int (length (concat infos)));
        c3 = c2 @ replicate pad2 0xcb @ concat (map (le_bytes 8) ids)
      in (\<forall>x \<in> set offs. 0 \<le> x \<and> x < 2 ^ (8 * 4)) \<and> (\<forall>x \<in> set ids. 0 \<le> x \<and> x < 2 ^ (8 * 8))
       \<and> pad1 = nat ((- int (length c1)) mod int 4) \<and> pad2 = nat ((- int (length c2)) mod int 8)
       \<and> write_table 1 (placeholder_table t) 4 c3 = Inr c \<and> write_section SecDebug 8 c b = Inr b'"
proof -
  have sel: "(if length t = 0
        then (let (i, attr_table) = table_getitem 1 [0x00] []
              in and_then (py_assert (i = 1)) (\<lambda>_. Inr attr_table))
        else Inr t) = Inr (placeholder_table t)"
    by (simp add: table_getitem_def table_missing_def placeholder_table_def)
  show ?thesis
    using assms unfolding write_debug_info_section_def sel
    by (auto simp: encode_varint_eq write_func_offsets_eq fold_unsigned_eq pad_to_eq and_then_Inr_iff
        Let_def split: if_splits)
qed

lemma placeholder_table_wf: "table_wf 1 t \<Longrightarrow> table_wf 1 (placeholder_table t)"
  by (cases "t = []") (simp add: placeholder_table_def table_wf_def, simp add: placeholder_table_def)

lemma concat_slices: "slices (offsets_from 0 infos) (concat infos) = infos"
  using slices_offsets [of "[]" infos] by simp

lemma write_debug_info_section_at:
  assumes "write_debug_info_section infos t b = Inr b'" "table_wf 1 t"
  shows "\<exists>p. section_ok SecDebug 8 (ps_content p) p \<and> sections_at b [p] b'
     \<and> parse_debug_section (ps_content p) = Some (map (map debug_attr_id) infos, map fst (placeholder_table t))"
proof -
  define offs where "offs = map int (offsets_from 0 infos)"
  define ids where "ids = map int (map debug_attr_id (concat infos))"
  define c1 where "c1 = varint (int (length infos))"
  from write_debug_content [OF assms(1)] obtain c pad1 pad2 where
    cs: "\<forall>x \<in> set offs. 0 \<le> x \<and> x < 2 ^ (8 * 4)" "\<forall>x \<in> set ids. 0 \<le> x \<and> x < 2 ^ (8 * 8)"
    "pad1 = nat ((- int (length c1)) mod int 4)"
    and pad2: "pad2 = nat ((- int (length (c1 @ replicate pad1 0xcb @ concat (map (le_bytes 4) offs)
          @ varint (int (length (concat infos)))))) mod int 8)"
    and tab: "write_table 1 (placeholder_table t) 4 ((c1 @ replicate pad1 0xcb @ concat (map (le_bytes 4) offs)
          @ varint (int (length (concat infos)))) @ replicate pad2 0xcb @ concat (map (le_bytes 8) ids)) = Inr c"
    and sec: "write_section SecDebug 8 c b = Inr b'"
    unfolding Let_def offs_def [symmetric] ids_def [symmetric] c1_def [symmetric]
    by (elim exE conjE)
  define c2 where "c2 = c1 @ replicate pad1 0xcb @ concat (map (le_bytes 4) offs)
          @ varint (int (length (concat infos)))"
  define c3 where "c3 = c2 @ replicate pad2 0xcb @ concat (map (le_bytes 8) ids)"
  from tab have "write_table 1 (placeholder_table t) 4 c3 = Inr c" by (simp only: c2_def c3_def)
  from table_roundtrip_aux [OF placeholder_table_wf [OF assms(2)] this] obtain bs where
    c: "c = c3 @ bs" and pt: "parse_table (length c3) 4 bs = Some (map fst (placeholder_table t))"
    by (elim exE conjE)
  let ?r2 = "varint (int (length (concat infos))) @ replicate pad2 0xcb @ concat (map (le_bytes 8) ids) @ bs"
  have lo: "length offs = length infos" and li: "length ids = length (concat infos)"
    by (simp_all add: offs_def ids_def)
  have o1: "dec_times (dec_unsigned 4) (length infos) (concat (map (le_bytes 4) offs) @ ?r2) = Some (offs, ?r2)"
    using u8b.dec_times_enc [OF cs(1)] lo by metis
  have i1: "dec_times (dec_unsigned 8) (length (concat infos)) (concat (map (le_bytes 8) ids) @ bs) = Some (ids, bs)"
    using u8b.dec_times_enc [OF cs(2)] li by metis
  have s1: "skip_pad 4 (length c1) (replicate pad1 0xcb @ r) = r" for r
    using skip_pad_pad [of 4 c1] cs(3) by simp
  have s2: "skip_pad 8 (length c2) (replicate pad2 0xcb @ r) = r" for r
    using skip_pad_pad [of 8 c2] pad2 by (simp only: c2_def)
  have d1: "dec_varint c = Some (int (length infos), replicate pad1 0xcb @ concat (map (le_bytes 4) offs) @ ?r2)"
    by (simp add: c c3_def c2_def c1_def vi.dec_enc)
  have l1: "length c - length (replicate pad1 0xcb @ concat (map (le_bytes 4) offs) @ ?r2) = length c1"
    by (simp add: c c3_def c2_def)
  have l2: "length c - length (replicate pad2 0xcb @ concat (map (le_bytes 8) ids) @ bs) = length c2"
    by (simp add: c c3_def)
  have l3: "length c - length bs = length c3" by (simp add: c)
  have sl: "slices (map nat offs) (map nat ids) = map (map debug_attr_id) infos"
    unfolding offs_def ids_def map_nat_int
    using concat_slices [of "map (map debug_attr_id) infos"]
    by (simp only: offsets_from_map map_concat)
  have "parse_debug_section c = Some (map (map debug_attr_id) infos, map fst (placeholder_table t))"
    unfolding parse_debug_section_def d1 bind.simps prod.case l1 s1 nat_int o1 vi.dec_enc [OF of_nat_0_le_iff]
      l2 s2 i1 l3 pt option.map sl by (rule refl)
  moreover obtain p where p: "section_ok SecDebug 8 c p" "sections_at b [p] b'"
    using write_section_at [OF sec] by auto
  ultimately show ?thesis by (intro exI [of _ p]) (simp add: section_ok_content [OF p(1)])
qed

definition version_header :: "bytecode_version \<Rightarrow> bytes" where
  "version_header v =
     magic @ [word_of_int (version_major v), word_of_int (version_minor v)] @ le_bytes 2 (version_tag v)"

lemma version_parts:
  "0 \<le> version_major v" "version_major v < 256" "0 \<le> version_minor v" "version_minor v < 256"
  "0 \<le> version_tag v" "version_tag v < 256"
  by (cases v; simp add: version_major_def version_minor_def version_tag_def)+

lemma write_header_eq: "write_header v b = Inr (b @ version_header v)"
  using version_parts [of v]
  by (simp add: write_header_def version_header_def magic_def buf_append_def buf_extend_def
      to_bytes_unsigned_def)

lemma length_version_header: "length (version_header v) = 12"
  by (simp add: version_header_def magic_def str_encode_def)

lemma parse_file_eq:
  "parse_file (version_header v @ bs) =
     map_option
       (\<lambda>ss. \<lparr>pf_major = version_major v, pf_minor = version_minor v, pf_tag = version_tag v,
               pf_sections = ss\<rparr>) (parse_sections 7 12 bs)"
proof -
  have m: "length magic = 8" by (simp add: magic_def str_encode_def)
  have "take 8 (version_header v @ bs) = magic" "drop 12 (version_header v @ bs) = bs"
    "(version_header v @ bs) ! 8 = word_of_int (version_major v)"
    "(version_header v @ bs) ! 9 = word_of_int (version_minor v)"
    "take 2 (drop 10 (version_header v @ bs)) = le_bytes 2 (version_tag v)"
    using m by (simp_all add: version_header_def nth_append)
  moreover have "uint (word_of_int (version_major v) :: byte) = version_major v"
    "uint (word_of_int (version_minor v) :: byte) = version_minor v"
    "from_le_bytes (le_bytes 2 (version_tag v)) = version_tag v"
    using version_parts [of v]
    by (simp_all add: from_le_bytes_le_bytes unsigned_of_int take_bit_eq_mod)
  ultimately show ?thesis
    unfolding parse_file_def by (simp add: length_version_header)
qed

text \<open>
  \<open>file_layout w ss\<close>: the sections of a file that holds the writer's state \<open>w\<close>.
\<close>

definition file_layout :: "BytecodeWriter \<Rightarrow> parsed_section list \<Rightarrow> bool" where
  "file_layout w ss \<longleftrightarrow>
     (\<exists>fn gl cn db ty str. ss = [fn] @ gl @ [cn, db, ty, str]
       \<and> section_ok SecFunc 8 (w_buf w) fn
       \<and> (let names = gs_defined_names (w_global_section w) in
          if names = [] then gl = []
          else \<exists>g. gl = [g] \<and> section_ok SecGlobal 1
             (varint (int (length names)) @ gs_contents (w_global_section w)) g)
       \<and> section_ok SecConstant 8 (ps_content cn) cn
       \<and> parse_table 0 8 (ps_content cn) = Some (map fst (w_constant_table w))
       \<and> section_ok SecDebug 8 (ps_content db) db
       \<and> parse_debug_section (ps_content db) =
           Some (map (map debug_attr_id) (w_debug_info w),
                 map fst (placeholder_table (w_debug_attr_table w)))
       \<and> section_ok SecType 4 (ps_content ty) ty
       \<and> parse_table 0 4 (ps_content ty) = Some (map fst (tt_items (w_type_table w)))
       \<and> section_ok SecString 4 (ps_content str) str
       \<and> parse_table 0 4 (ps_content str) = Some (map fst (w_string_table w)))"

lemma write_bytecode_exit_layout:
  assumes "write_bytecode_exit n w b = Inr out" "writer_wf w"
  shows "\<exists>ss b1. file_layout w ss \<and> sections_at b ss b1 \<and> out = b1 @ [0] \<and> length ss \<le> 6
    \<and> w_num_functions w = n"
proof -
  from assms(1) obtain b1 b2 b3 b4 b5 b6 where
    n: "w_num_functions w = n" and
    s1: "write_section SecFunc 8 (w_buf w) b = Inr b1" and
    s2: "write_global_section (w_global_section w) b1 = Inr b2" and
    s3: "and_then (write_table 0 (w_constant_table w) 8 []) (\<lambda>s. write_section SecConstant 8 s b2) = Inr b3" and
    s4: "write_debug_info_section (w_debug_info w) (w_debug_attr_table w) b3 = Inr b4" and
    s5: "and_then (write_table 0 (tt_items (w_type_table w)) 4 []) (\<lambda>s. write_section SecType 4 s b4) = Inr b5" and
    s6: "and_then (write_table 0 (w_string_table w) 4 []) (\<lambda>s. write_section SecString 4 s b5) = Inr b6" and
    out: "out = b6 @ [0]"
    unfolding write_bytecode_exit_def run_steps.simps and_then_Inr_iff [of _ "run_steps _"]
      and_then_Inr_iff [of "py_assert _"] py_assert_Inr_iff
    by (auto simp: buf_append_def)
  have wf: "table_wf 0 (w_string_table w)" "table_wf 1 (w_debug_attr_table w)"
    "table_wf 0 (w_constant_table w)" "table_wf 0 (tt_items (w_type_table w))"
    using assms(2) by (simp_all add: writer_wf_def type_table_wf_def)
  obtain fn where fn: "section_ok SecFunc 8 (w_buf w) fn" "sections_at b [fn] b1"
    using write_section_at [OF s1] by auto
  obtain gl where gl: "sections_at b1 gl b2" "length gl \<le> 1"
    "if gs_defined_names (w_global_section w) = [] then gl = []
     else \<exists>g. gl = [g] \<and> section_ok SecGlobal 1
        (varint (int (length (gs_defined_names (w_global_section w))))
           @ gs_contents (w_global_section w)) g"
    using write_global_section_at [OF s2] by blast
  obtain cn where cn: "section_ok SecConstant 8 (ps_content cn) cn" "sections_at b2 [cn] b3"
    "parse_table 0 8 (ps_content cn) = Some (map fst (w_constant_table w))"
    using write_table_section [OF s3 wf(3)] by auto
  obtain db where db: "section_ok SecDebug 8 (ps_content db) db" "sections_at b3 [db] b4"
    "parse_debug_section (ps_content db) =
       Some (map (map debug_attr_id) (w_debug_info w), map fst (placeholder_table (w_debug_attr_table w)))"
    using write_debug_info_section_at [OF s4 wf(2)] by auto
  obtain ty where ty: "section_ok SecType 4 (ps_content ty) ty" "sections_at b4 [ty] b5"
    "parse_table 0 4 (ps_content ty) = Some (map fst (tt_items (w_type_table w)))"
    using write_table_section [OF s5 wf(4)] by auto
  obtain str where str: "section_ok SecString 4 (ps_content str) str" "sections_at b5 [str] b6"
    "parse_table 0 4 (ps_content str) = Some (map fst (w_string_table w))"
    using write_table_section [OF s6 wf(1)] by auto
  have "sections_at b ([fn] @ gl @ [cn] @ [db] @ [ty] @ [str]) b6"
    by (rule sections_at_trans [OF fn(2) sections_at_trans [OF gl(1) sections_at_trans [OF cn(2)
          sections_at_trans [OF db(2) sections_at_trans [OF ty(2) str(2)]]]]])
  moreover have "file_layout w ([fn] @ gl @ [cn, db, ty, str])"
    unfolding file_layout_def Let_def
    by (intro exI conjI, rule refl) (use fn gl cn db ty str in blast)+
  ultimately show ?thesis using n gl(2) out by (intro exI [of _ "[fn] @ gl @ [cn, db, ty, str]"]) auto
qed

section \<open>Runs of the writer\<close>

text \<open>
  One call on the writer. Types, debug attributes and globals are also defined while a
  function body runs; these calls commute with the body's operations, which do not use the
  type table, the debug attribute table or the global section, and the entries they intern
  in the shared tables are steps of \<open>builds\<close>.
\<close>

inductive writer_step :: "BytecodeWriter \<Rightarrow> BytecodeWriter \<Rightarrow> bool" where
  step_function: "function_enter name ps rs entry hints a w = Inr (args, cb, w1)
     \<Longrightarrow> builds d n cb cb' \<Longrightarrow> function_exit cb' w1 = Inr w2 \<Longrightarrow> writer_step w w2"
| step_type: "intern_type d (w_type_table w) = Inr (t, tt)
     \<Longrightarrow> writer_step w (w\<lparr>w_type_table := tt\<rparr>)"
| step_debug: "debug_op d (w_string_table w, w_debug_attr_table w) = Inr (a, (st, dt))
     \<Longrightarrow> writer_step w (w\<lparr>w_string_table := st, w_debug_attr_table := dt\<rparr>)"
| step_global: "define_global name t data al c vis
       (w_global_section w, w_string_table w, w_constant_table w) = Inr (gs, st, ct)
     \<Longrightarrow> writer_step w (w\<lparr>w_global_section := gs, w_string_table := st, w_constant_table := ct\<rparr>)"

inductive writer_run :: "BytecodeWriter \<Rightarrow> BytecodeWriter \<Rightarrow> bool" where
  writer_run_refl: "writer_run w w"
| writer_run_step: "writer_run w w1 \<Longrightarrow> writer_step w1 w2 \<Longrightarrow> writer_run w w2"

inductive_cases writer_stepE: "writer_step w w'"

lemma BytecodeWriter_init_wf: "BytecodeWriter_init b v = Inr w \<Longrightarrow> writer_wf w"
  by (auto simp: BytecodeWriter_init_def and_then_Inr_iff type_table_init_eq writer_wf_def
      type_table_wf_def table_wf_def)

lemma put_string_tables:
  assumes "put_string s (st, b) = Inr (st', b')"
  shows "table_wf 0 st \<Longrightarrow> table_wf 0 st'" and "table_ext st st'"
  using appendsD [OF appends_put_string assms] by blast+

lemma function_enter_effect:
  assumes "function_enter name ps rs entry hints a w = Inr (args, cb, w1)"
  shows "string_table cb = w_string_table w1 \<and> constant_table cb = w_constant_table w1
    \<and> w_constant_table w1 = w_constant_table w \<and> w_debug_attr_table w1 = w_debug_attr_table w
    \<and> w_global_section w1 = w_global_section w \<and> w_version w1 = w_version w
    \<and> cb_version cb = w_version w \<and> num_ops cb = 0 \<and> buf cb = []
    \<and> debug_attr_per_op cb = [a] \<and> next_value_id cb = length ps
    \<and> args = map Value [0..<length ps]
    \<and> w_num_functions w1 = Suc (w_num_functions w) \<and> w_debug_info w1 = w_debug_info w @ [[a]]"
    and "table_wf 0 (w_string_table w) \<Longrightarrow> table_wf 0 (w_string_table w1)"
    and "\<exists>t. intern_type (DFunction ps rs) (w_type_table w) = Inr (t, w_type_table w1)"
proof -
  from assms obtain st b t tt b1 b2 st2 b3 where
    st: "put_string name (w_string_table w, w_buf w) = Inr (st, b)" and
    ty: "tt_function ps rs (w_type_table w) = Inr (t, tt)" and
    hint: "(if entry \<and> hints \<noteq> [] then encode_tagged (make_entry_hints hints) (st, b2)
        else Inr (st, b2)) = Inr (st2, b3)" and
    w1: "w1 = w\<lparr>w_num_functions := w_num_functions w + 1, w_debug_info := w_debug_info w @ [[a]],
           w_buf := b3, w_string_table := st2, w_type_table := tt\<rparr>" and
    cb: "(args, cb) = make_value_tuple (length ps)
       \<lparr>buf = [], cb_version = w_version w, string_table = st2,
        constant_table = w_constant_table w, debug_attr_per_op = [a],
        next_value_id = 0, cur_debug_attr = DebugAttrId 0, num_ops = 0\<rparr>"
    unfolding function_enter_def
    by (auto simp: and_then_Inr_iff Let_def case_prod_beta prod_eq_iff cong: if_cong)
  show "string_table cb = w_string_table w1 \<and> constant_table cb = w_constant_table w1
    \<and> w_constant_table w1 = w_constant_table w \<and> w_debug_attr_table w1 = w_debug_attr_table w
    \<and> w_global_section w1 = w_global_section w \<and> w_version w1 = w_version w
    \<and> cb_version cb = w_version w \<and> num_ops cb = 0 \<and> buf cb = []
    \<and> debug_attr_per_op cb = [a] \<and> next_value_id cb = length ps
    \<and> args = map Value [0..<length ps]
    \<and> w_num_functions w1 = Suc (w_num_functions w) \<and> w_debug_info w1 = w_debug_info w @ [[a]]"
    using cb by (simp add: w1 make_value_tuple_def Let_def)
  show "\<exists>t. intern_type (DFunction ps rs) (w_type_table w) = Inr (t, w_type_table w1)"
    using ty by (simp add: w1)
  show "table_wf 0 (w_string_table w) \<Longrightarrow> table_wf 0 (w_string_table w1)"
    using put_string_tables(1) [OF st] hint appendsD(2) [OF appends_attr(1)]
    by (auto simp: w1 split: if_splits)
qed

lemma function_enter_strings:
  assumes "function_enter name ps rs entry hints a w = Inr (args, cb, w1)"
  shows "table_ext (w_string_table w) (w_string_table w1)"
proof -
  from assms obtain st b st2 b2 b3 where
    st: "put_string name (w_string_table w, w_buf w) = Inr (st, b)" and
    hint: "(if entry \<and> hints \<noteq> [] then encode_tagged (make_entry_hints hints) (st, b2)
        else Inr (st, b2)) = Inr (st2, b3)" and w1: "w_string_table w1 = st2"
    unfolding function_enter_def
    by (auto simp: and_then_Inr_iff Let_def case_prod_beta prod_eq_iff cong: if_cong)
  have "table_ext st st2"
    using hint appendsD(1) [OF appends_attr(1)] by (auto split: if_splits)
  then show ?thesis using table_ext_trans put_string_tables(2) [OF st] w1 by blast
qed

lemma function_exit_effect:
  assumes "function_exit cb w = Inr w'"
  shows "w' = w\<lparr>w_buf := w_buf w @ varint (int (length (buf cb))) @ buf cb,
     w_string_table := string_table cb, w_constant_table := constant_table cb,
     w_debug_info := butlast (w_debug_info w) @ [debug_attr_per_op cb]\<rparr>"
  using assms by (simp add: function_exit_def encode_varint_eq buf_extend_def)

lemma define_global_effect:
  assumes "define_global name t data al c vis (gs, st, ct) = Inr (gs', st', ct')"
  shows "name \<notin> set (gs_defined_names gs) \<and> gs_version gs' = gs_version gs
     \<and> gs_defined_names gs' = gs_defined_names gs @ [name]
     \<and> table_ext st st' \<and> table_ext ct ct'
     \<and> (table_wf 0 st \<longrightarrow> table_wf 0 st') \<and> (table_wf 0 ct \<longrightarrow> table_wf 0 ct')"
proof -
  from assms obtain i cid where new: "name \<notin> set (gs_defined_names gs)"
    and st: "table_getitem 0 (str_encode name) st = (i, st')"
    and ct: "dense_constant data ct = Inr (cid, ct')"
    and gs: "gs_version gs' = gs_version gs" "gs_defined_names gs' = gs_defined_names gs @ [name]"
    by (auto simp: define_global_def and_then_Inr_iff string_table_getitem_def Let_def
        case_prod_beta prod_eq_iff split: if_splits)
  show ?thesis
    using new gs table_getitem_ext [OF st] table_getitem_wf [OF _ st] dense_constant_ext [OF ct]
    by blast
qed

lemma writer_step_function_wf:
  assumes "function_enter name ps rs entry hints a w = Inr (args, cb, w1)"
    and "builds d n cb cb'" and "function_exit cb' w1 = Inr w2" and "writer_wf w"
  shows "writer_wf w2"
proof -
  note e = function_enter_effect [OF assms(1)]
  from e(3) obtain t where "intern_type (DFunction ps rs) (w_type_table w) = Inr (t, w_type_table w1)" ..
  note ty = intern_type_table [OF this]
  have inv: "run_inv n cb cb'" using builds_inv(1) [OF assms(2)] by blast
  show ?thesis
    using assms(4) e(1,2) ty inv unfolding function_exit_effect [OF assms(3)]
    by (auto simp: writer_wf_def type_table_ext_def run_inv_def)
qed

lemma writer_step_wf: "writer_step w w' \<Longrightarrow> writer_wf w \<Longrightarrow> writer_wf w'"
proof (induction rule: writer_step.induct)
  case step_function
  then show ?case by (rule writer_step_function_wf)
next
  case step_type
  then show ?case using intern_type_table by (fastforce simp: writer_wf_def type_table_ext_def)
next
  case step_debug
  then show ?case using debug_op_tables by (fastforce simp: writer_wf_def)
next
  case step_global
  note define_global_effect [OF step_global.hyps]
  then show ?case using step_global.prems by (simp add: writer_wf_def)
qed

lemma writer_run_wf: "writer_run w w' \<Longrightarrow> writer_wf w \<Longrightarrow> writer_wf w'"
  by (induction rule: writer_run.induct) (auto intro: writer_step_wf)

lemma function_debug_info:
  assumes "function_enter name ps rs entry hints a w = Inr (args, cb, w1)"
    and "builds d n cb cb'" and "function_exit cb' w1 = Inr w2"
  shows "\<exists>as. w_debug_info w2 = w_debug_info w @ [a # as] \<and> length as = n"
proof -
  have "run_inv n cb cb'" using builds_inv(1) [OF assms(2)] by blast
  then show ?thesis
    using function_enter_effect(1) [OF assms(1)] unfolding function_exit_effect [OF assms(3)]
    by (auto simp: run_inv_def)
qed

lemma writer_step_tables:
  assumes "writer_step w w'"
  shows "table_ext (w_string_table w) (w_string_table w')"
    and "table_ext (w_constant_table w) (w_constant_table w')"
    and "table_ext (w_debug_attr_table w) (w_debug_attr_table w')"
    and "type_table_ext (w_type_table w) (w_type_table w')"
    and "set (gs_defined_names (w_global_section w)) \<subseteq> set (gs_defined_names (w_global_section w'))"
proof -
  have "table_ext (w_string_table w) (w_string_table w')
    \<and> table_ext (w_constant_table w) (w_constant_table w')
    \<and> table_ext (w_debug_attr_table w) (w_debug_attr_table w')
    \<and> type_table_ext (w_type_table w) (w_type_table w')
    \<and> set (gs_defined_names (w_global_section w)) \<subseteq> set (gs_defined_names (w_global_section w'))"
    using assms
  proof cases
    case (step_function name ps rs entry hints a args cb w1 d n cb')
    note e = function_enter_effect(1,3) [OF step_function(1)]
    have str: "table_ext (w_string_table w) (w_string_table w1)"
      by (rule function_enter_strings [OF step_function(1)])
    from e(2) obtain t where "intern_type (DFunction ps rs) (w_type_table w) = Inr (t, w_type_table w1)" ..
    note ty = intern_type_table(1) [OF this]
    have inv: "run_inv n cb cb'" using builds_inv(1) [OF step_function(2)] by blast
    have "table_ext (w_string_table w1) (string_table cb')"
      using inv e(1) by (simp add: run_inv_def)
    with str have "table_ext (w_string_table w) (string_table cb')" by (rule table_ext_trans)
    then show ?thesis
      using e(1) ty inv unfolding function_exit_effect [OF step_function(3)]
      by (auto simp: run_inv_def)
  next
    case (step_type d t tt)
    then show ?thesis using intern_type_table(1) by (fastforce simp: type_table_ext_def)
  next
    case (step_debug d a st dt)
    then show ?thesis using debug_op_tables by (fastforce simp: type_table_ext_def)
  next
    case (step_global name t data al c vis gs st ct)
    then show ?thesis using define_global_effect [OF step_global(2)] by (auto simp: type_table_ext_def)
  qed
  then show "table_ext (w_string_table w) (w_string_table w')"
    and "table_ext (w_constant_table w) (w_constant_table w')"
    and "table_ext (w_debug_attr_table w) (w_debug_attr_table w')"
    and "type_table_ext (w_type_table w) (w_type_table w')"
    and "set (gs_defined_names (w_global_section w)) \<subseteq> set (gs_defined_names (w_global_section w'))"
    by blast+
qed

lemma type_table_ext_trans: "type_table_ext a b \<Longrightarrow> type_table_ext b c \<Longrightarrow> type_table_ext a c"
  unfolding type_table_ext_def by (auto intro: table_ext_trans)

lemma writer_run_tables:
  assumes "writer_run w w'"
  shows "table_ext (w_string_table w) (w_string_table w')
    \<and> table_ext (w_constant_table w) (w_constant_table w')
    \<and> table_ext (w_debug_attr_table w) (w_debug_attr_table w')
    \<and> type_table_ext (w_type_table w) (w_type_table w')
    \<and> set (gs_defined_names (w_global_section w)) \<subseteq> set (gs_defined_names (w_global_section w'))"
  using assms
proof (induction rule: writer_run.induct)
  case (writer_run_refl w)
  show ?case by (simp add: type_table_ext_def)
next
  case (writer_run_step w w1 w2)
  note st = writer_step_tables [OF writer_run_step.hyps(2)] and IH = writer_run_step.IH
  show ?case
    using IH st table_ext_trans [of _ _ "w_string_table w2"] table_ext_trans [of _ _ "w_constant_table w2"]
      table_ext_trans [of _ _ "w_debug_attr_table w2"] type_table_ext_trans
    by (meson subset_trans)
qed

lemma bytecode_file_layout_aux:
  assumes "write_bytecode_enter n [] v = Inr (b, w0)" and "writer_run w0 w"
    and "write_bytecode_exit n w b = Inr out"
  shows "\<exists>ss. parse_file out = Some \<lparr>pf_major = version_major v, pf_minor = version_minor v,
                                      pf_tag = version_tag v, pf_sections = ss\<rparr>
     \<and> file_layout w ss \<and> w_num_functions w = n"
proof -
  from assms(1) have b: "b = version_header v" and init: "BytecodeWriter_init (varint (int n)) v = Inr w0"
    by (auto simp: write_bytecode_enter_def write_header_eq encode_varint_eq and_then_Inr_iff)
  have "writer_wf w" using writer_run_wf [OF assms(2) BytecodeWriter_init_wf [OF init]] .
  from write_bytecode_exit_layout [OF assms(3) this] obtain ss b1 where
    lay: "file_layout w ss" and at: "sections_at b ss b1" and out: "out = b1 @ [0]"
    and len: "length ss \<le> 6" and n: "w_num_functions w = n" by (elim exE conjE)
  from at obtain bs where at': "b1 = b @ bs \<and> (\<forall>fuel r. parse_sections (length ss + fuel) (length b) (bs @ r) =
      map_option ((@) ss) (parse_sections fuel (length b1) r))"
    unfolding sections_at_def by (elim exE)
  then have b1: "b1 = b @ bs" by blast
  have p: "parse_sections (length ss + fuel) (length b) (bs @ r) =
      map_option ((@) ss) (parse_sections fuel (length b1) r)" for fuel r using at' by blast
  have "parse_sections 7 12 (bs @ [0]) = Some ss"
  proof -
    have eq: "length ss + Suc (6 - length ss) = 7" using len by simp
    have lb: "length b = 12" by (simp add: b length_version_header)
    have stop: "parse_sections (Suc k) pos [0] = Some []" for k pos by simp
    show ?thesis using p [of "Suc (6 - length ss)" "[0]"] unfolding eq lb stop by simp
  qed
  then have "parse_file out = Some \<lparr>pf_major = version_major v, pf_minor = version_minor v,
                                      pf_tag = version_tag v, pf_sections = ss\<rparr>"
    by (simp add: out b1 b parse_file_eq)
  with lay n show ?thesis by blast
qed

lemma function_enter_buf_ext:
  assumes "function_enter name ps rs entry hints a w = Inr (args, cb, w1)"
    and later: "table_ext (w_string_table w1) final"
  shows "\<exists>sig hb. intern_type (DFunction ps rs) (w_type_table w) = Inr (sig, w_type_table w1)
     \<and> (if entry \<and> hints \<noteq> [] then hb = attr_bytes (string_id final) (make_entry_hints hints) else hb = [])
     \<and> w_buf w1 = w_buf w @ varint (int (string_id final name)) @ typeid_bytes sig
         @ [if entry then if hints \<noteq> [] then 6 else 2 else 0]
         @ varint (int (length (w_debug_info w1))) @ hb"
proof -
  let ?flags = "if entry then 0x02 OR (if hints \<noteq> [] then 0x04 else 0) else (0::int)"
  from assms(1) obtain st b sig tt b1 b2 st2 b3 where
    st: "put_string name (w_string_table w, w_buf w) = Inr (st, b)" and
    ty: "tt_function ps rs (w_type_table w) = Inr (sig, tt)" and
    b1: "encode_typeid sig b = Inr b1" and
    b2: "buf_append ?flags b1 = Inr b2" and
    hint: "(if entry \<and> hints \<noteq> []
        then encode_tagged (make_entry_hints hints) (st, b2 @ varint (1 + int (length (w_debug_info w))))
        else Inr (st, b2 @ varint (1 + int (length (w_debug_info w))))) = Inr (st2, b3)" and
    w1: "w_string_table w1 = st2" "w_buf w1 = b3" "w_type_table w1 = tt"
       "w_debug_info w1 = w_debug_info w @ [[a]]"
    unfolding function_enter_def
    by (auto simp: and_then_Inr_iff Let_def case_prod_beta prod_eq_iff encode_varint_eq cong: if_cong
        split del: if_split)
  have ext: "table_ext st st2" using hint appendsD(1) [OF appends_attr(1)] by (auto split: if_splits)
  from later have later': "table_ext st2 final" by (simp add: w1)
  have "b = w_buf w @ varint (int (string_id final name))"
    using appendsD(4) [OF appends_put_string st] table_ext_trans [OF ext later'] by blast
  moreover have "b2 = b @ typeid_bytes sig @ [if entry then if hints \<noteq> [] then 6 else 2 else 0]"
    using b1 b2 by (auto simp: buf_append_def tid.write_eq split: if_splits)
  moreover have "if entry \<and> hints \<noteq> [] then b3 = b2 @ varint (1 + int (length (w_debug_info w)))
        @ attr_bytes (string_id final) (make_entry_hints hints)
     else b3 = b2 @ varint (1 + int (length (w_debug_info w)))"
    using hint by (auto dest!: appendsD(4) [OF appends_attr(1) _ later'] split: if_splits)
  ultimately show ?thesis using ty unfolding w1
    by (intro exI [of _ sig]) (cases entry; cases "hints = []"; simp)
qed

section \<open>Properties of the bytecode file\<close>

text \<open>
  C28. A written table can be read back: the count, the padding up to the index width, the
  offsets and the data give the keys in the order of their identifiers.
\<close>

theorem table_roundtrip:
  assumes "table_wf start t" and "write_table start t w b = Inr b'"
  shows "\<exists>bs. b' = b @ bs \<and> parse_table (length b) w bs = Some (map fst t)"
  by (rule table_roundtrip_aux [OF assms])

theorem table_roundtrip_witness:
  "\<exists>bs. [9, 2, 203, 203, 0, 0, 0, 0, 1, 0, 0, 0, 65, 66, 67] = [9 :: byte] @ bs \<and>
     parse_table 1 4 bs = Some [[65], [66, 67]]"
proof -
  have "write_table 0 [([65], 0), ([66, 67], 1)] 4 [9] =
      Inr [9, 2, 203, 203, 0, 0, 0, 0, 1, 0, 0, 0, 65, 66, 67]" by code_simp
  from table_roundtrip [OF _ this] show ?thesis by (simp add: table_wf_def)
qed

text \<open>
  C29. A written section can be read back from any position: its identifier, its alignment
  and its content, whose first byte stands at a multiple of the alignment in the file.
\<close>

theorem section_roundtrip:
  assumes "write_section s alignment content b = Inr b'" and "0 < alignment"
  shows "\<exists>bs p. b' = b @ bs \<and> p mod alignment = 0 \<and> length b < p \<and>
     (\<forall>r. parse_section (length b) (bs @ r) =
        Some (\<lparr>ps_id = Section_value s, ps_alignment = int alignment, ps_position = p,
               ps_content = content\<rparr>, r))"
  by (rule section_roundtrip_aux [OF assms])

theorem section_roundtrip_witness:
  "\<exists>bs p. [1, 129, 2, 4, 65, 66] = [1 :: byte] @ bs \<and> p mod 4 = 0 \<and> 1 < p \<and>
     parse_section 1 bs =
        Some (\<lparr>ps_id = 1, ps_alignment = 4, ps_position = p, ps_content = [65, 66]\<rparr>, [])"
proof -
  have "write_section SecString 4 [65, 66] [1] = Inr [1, 129, 2, 4, 65, 66]" by code_simp
  from section_roundtrip [OF this] obtain bs p where
    "[1, 129, 2, 4, 65, 66] = [1 :: byte] @ bs \<and> p mod 4 = 0 \<and> length [1 :: byte] < p \<and>
     (\<forall>r. parse_section (length [1 :: byte]) (bs @ r) =
        Some (\<lparr>ps_id = Section_value SecString, ps_alignment = int 4, ps_position = p,
               ps_content = [65, 66]\<rparr>, r))" by auto
  then show ?thesis by (intro exI [of _ bs] exI [of _ p]) (auto dest: spec [of _ "[]"])
qed

text \<open>
  C5. Whatever functions, types, debug attributes and globals are written, a file that the
  writer finishes parses: header with the version, then the sections for functions, globals
  (exactly when there are any), constants, debug information, types and strings, each
  aligned; the table sections hold exactly the writer's tables in identifier order, the
  debug section the attribute list of every function; and the number of functions written is
  the announced one.
\<close>

theorem bytecode_file_layout:
  assumes "write_bytecode_enter n [] v = Inr (b, w0)" and "writer_run w0 w"
    and "write_bytecode_exit n w b = Inr out"
  shows "\<exists>ss. parse_file out = Some \<lparr>pf_major = version_major v, pf_minor = version_minor v,
                                      pf_tag = version_tag v, pf_sections = ss\<rparr>
     \<and> file_layout w ss \<and> w_num_functions w = n"
  by (rule bytecode_file_layout_aux [OF assms])

definition sample_writer0 :: BytecodeWriter where
  "sample_writer0 = \<lparr>w_num_functions = 0, w_debug_info = [], w_buf = [1], w_string_table = [],
     w_debug_attr_table = [], w_constant_table = [],
     w_type_table = \<lparr>tt_version = V_13_2, tt_items = [([0], 0), ([3], 1)]\<rparr>,
     w_global_section = \<lparr>gs_version = V_13_2, gs_defined_names = [], gs_contents = []\<rparr>,
     w_version = V_13_2\<rparr>"

definition sample_writer1 :: BytecodeWriter where
  "sample_writer1 = sample_writer0\<lparr>w_num_functions := 1, w_debug_info := [[DebugAttrId 0]],
     w_buf := [1, 0, 2, 2, 1], w_string_table := [([107], 0)],
     w_type_table := \<lparr>tt_version = V_13_2, tt_items = [([0], 0), ([3], 1), ([16, 0, 0], 2)]\<rparr>\<rparr>"

definition sample_body :: code_builder where
  "sample_body = \<lparr>buf = [], cb_version = V_13_2, string_table = [([107], 0)], constant_table = [],
     debug_attr_per_op = [DebugAttrId 0], next_value_id = 0, cur_debug_attr = DebugAttrId 0, num_ops = 0\<rparr>"

definition sample_body' :: code_builder where
  "sample_body' = sample_body\<lparr>buf := [92, 0, 0],
     debug_attr_per_op := [DebugAttrId 0, DebugAttrId 0], num_ops := 1\<rparr>"

definition sample_writer :: BytecodeWriter where
  "sample_writer = sample_writer1\<lparr>w_debug_info := [[DebugAttrId 0, DebugAttrId 0]],
     w_buf := [1, 0, 2, 2, 1, 3, 92, 0, 0]\<rparr>"

lemma sample_enter:
  "function_enter ''k'' [] [] True [] (DebugAttrId 0) sample_writer0 = Inr ([], sample_body, sample_writer1)"
  by code_simp

lemma sample_builds: "builds 1 1 sample_body sample_body'"
proof -
  have "op_call 92 [] sample_body sample_body'"
    by (rule op_call.ReturnOp [of "[]"]) code_simp
  then show ?thesis unfolding One_nat_def by (rule build_op) (rule build_done)
qed

lemma sample_exit: "function_exit sample_body' sample_writer1 = Inr sample_writer"
  by code_simp

lemma sample_run: "writer_run sample_writer0 sample_writer"
  by (rule writer_run_step [OF writer_run_refl step_function [OF sample_enter sample_builds sample_exit]])

definition sample_header :: bytes where
  "sample_header = [127, 84, 105, 108, 101, 73, 82, 0, 13, 2, 0, 0]"

theorem bytecode_file_layout_witness:
  "\<exists>out ss. parse_file out = Some \<lparr>pf_major = 13, pf_minor = 2, pf_tag = 0, pf_sections = ss\<rparr>
     \<and> file_layout sample_writer ss \<and> write_bytecode_exit 1 sample_writer sample_header = Inr out"
proof -
  have enter: "write_bytecode_enter 1 [] V_13_2 = Inr (sample_header, sample_writer0)" by code_simp
  have "\<not> isl (write_bytecode_exit 1 sample_writer sample_header)" by code_simp
  then obtain out where exit: "write_bytecode_exit 1 sample_writer sample_header = Inr out"
    by (cases "write_bytecode_exit 1 sample_writer sample_header") auto
  have "version_major V_13_2 = 13" "version_minor V_13_2 = 2" "version_tag V_13_2 = 0" by code_simp+
  then show ?thesis using bytecode_file_layout [OF enter sample_run exit] exit by auto
qed

text \<open>
  C16. A function that is written, whatever its body, becomes one record of the function
  section: name and signature identifiers, the entry flags, the index of its debug list, the
  optimization hints exactly for an entry point that has some, then the length and the bytes
  of the body. Its debug list has its own attribute and one for every operation of the body,
  nested ones included.
\<close>

theorem function_written:
  assumes "function_enter name ps rs entry hints a w = Inr (args, cb, w1)"
    and "builds d n cb cb'" and "function_exit cb' w1 = Inr w2"
  shows "(\<exists>sig hb. intern_type (DFunction ps rs) (w_type_table w) = Inr (sig, w_type_table w2)
     \<and> (if entry \<and> hints \<noteq> [] then hb = attr_bytes (string_id (w_string_table w2)) (make_entry_hints hints) else hb = [])
     \<and> w_buf w2 = w_buf w @ varint (int (string_id (w_string_table w2) name)) @ typeid_bytes sig
         @ [if entry then if hints \<noteq> [] then 6 else 2 else 0]
         @ varint (int (length (w_debug_info w2))) @ hb
         @ varint (int (length (buf cb'))) @ buf cb')
     \<and> (\<exists>as. w_debug_info w2 = w_debug_info w @ [a # as] \<and> length as = n)"
proof (intro conjI)
  have "run_inv n cb cb'" using builds_inv(1) [OF assms(2)] by blast
  then have ext: "table_ext (w_string_table w1) (w_string_table w2)"
    using function_enter_effect(1) [OF assms(1)] unfolding function_exit_effect [OF assms(3)]
    by (auto simp: run_inv_def)
  from function_enter_buf_ext [OF assms(1) ext] obtain sig hb where
    "intern_type (DFunction ps rs) (w_type_table w) = Inr (sig, w_type_table w1)"
    and "if entry \<and> hints \<noteq> [] then hb = attr_bytes (string_id (w_string_table w2)) (make_entry_hints hints) else hb = []"
    and "w_buf w1 = w_buf w @ varint (int (string_id (w_string_table w2) name)) @ typeid_bytes sig
         @ [if entry then if hints \<noteq> [] then 6 else 2 else 0]
         @ varint (int (length (w_debug_info w1))) @ hb"
    by (elim exE conjE)
  moreover have "length (w_debug_info w2) = length (w_debug_info w1)"
    using function_enter_effect(1) [OF assms(1)] unfolding function_exit_effect [OF assms(3)] by simp
  ultimately show "\<exists>sig hb. intern_type (DFunction ps rs) (w_type_table w) = Inr (sig, w_type_table w2)
     \<and> (if entry \<and> hints \<noteq> [] then hb = attr_bytes (string_id (w_string_table w2)) (make_entry_hints hints) else hb = [])
     \<and> w_buf w2 = w_buf w @ varint (int (string_id (w_string_table w2) name)) @ typeid_bytes sig
         @ [if entry then if hints \<noteq> [] then 6 else 2 else 0]
         @ varint (int (length (w_debug_info w2))) @ hb
         @ varint (int (length (buf cb'))) @ buf cb'"
    by (intro exI [of _ sig] exI [of _ hb]) (simp add: function_exit_effect [OF assms(3)])
  show "\<exists>as. w_debug_info w2 = w_debug_info w @ [a # as] \<and> length as = n"
    by (rule function_debug_info [OF assms])
qed

theorem function_written_witness:
  "\<exists>as. w_debug_info sample_writer = w_debug_info sample_writer0 @ [DebugAttrId 0 # as] \<and> length as = 1"
  using function_written [OF sample_enter sample_builds sample_exit] by blast

text \<open>
  C13. In every run of the writer the interning tables stay well-formed and only grow, so
  an identifier once handed out keeps its meaning; the global names are pairwise distinct,
  none is ever lost, and defining a defined name again raises ValueError.
\<close>

theorem writer_run_invariant:
  assumes "BytecodeWriter_init b v = Inr w0" and "writer_run w0 w" and "writer_run w w'"
  shows "writer_wf w
    \<and> table_ext (w_string_table w) (w_string_table w')
    \<and> table_ext (w_constant_table w) (w_constant_table w')
    \<and> table_ext (w_debug_attr_table w) (w_debug_attr_table w')
    \<and> type_table_ext (w_type_table w) (w_type_table w')
    \<and> (\<forall>name \<in> set (gs_defined_names (w_global_section w)).
      define_global name t data al c vis (w_global_section w', st, ct) = Inl ValueError)"
proof -
  have "writer_wf w" using writer_run_wf [OF assms(2) BytecodeWriter_init_wf [OF assms(1)]] .
  then show ?thesis
    using writer_run_tables [OF assms(3)] by (auto simp: define_global_def)
qed

theorem writer_run_invariant_witness: "writer_wf sample_writer"
proof -
  have "BytecodeWriter_init [1] V_13_2 = Inr sample_writer0" by code_simp
  from writer_run_invariant [OF this sample_run writer_run_refl] show ?thesis by blast
qed

end
