(* ===== verification/Datatypes.thy ===== *)
theory Datatypes
  imports BcOps1
begin

text \<open>
  \<^verbatim>\<open>_datatype.py\<close>: the data types and their registry names, implicit promotion (with the
  compile-time constants of \<^verbatim>\<open>_ir/ops_utils.py\<close> and \<^verbatim>\<open>_ir/typing_support.py\<close>) and the types
  of matrix multiplication. The promotion table is proved equal to an order on types.
\<close>

section \<open>Data types\<close>

datatype MemorySpace =
    MS_GENERIC | MS_GLOBAL | MS_SHARED | MS_CONSTANT | MS_LOCAL | MS_TENSOR | MS_SHARED_CLUSTER

datatype NumericDTypeCategory = Boolean | Integral | Float | RestrictedFloat

text \<open>The values of the integer enumeration.\<close>

fun category_value :: "NumericDTypeCategory \<Rightarrow> int" where
  "category_value Boolean = 0"
| "category_value Integral = 1"
| "category_value Float = 2"
| "category_value RestrictedFloat = 3"

fun category_arithmetic :: "NumericDTypeCategory \<Rightarrow> bool" where
  "category_arithmetic Boolean = True"
| "category_arithmetic Integral = True"
| "category_arithmetic Float = True"
| "category_arithmetic RestrictedFloat = False"

text \<open>
  A \<^verbatim>\<open>DType\<close> object is interned by its name; the model has one constructor per name and
  \<open>dtype_name\<close> gives the name.
\<close>

datatype DType =
    boolean | uint8 | uint16 | uint32 | uint64 | int8 | int16 | int32 | int64
  | float16 | float32 | float64 | bfloat16 | tfloat32
  | float8_e4m3fn | float8_e5m2 | float8_e8m0fnu | float4_e2m1fn
  | Pointer "DType option" MemorySpace

datatype definition_kind =
    PlainDefinition
  | IntegerDefinition (signed: bool)
  | PointerDefinition "DType option" MemorySpace

record DTypeDefinition =
  def_bitwidth :: nat
  numeric_category :: "NumericDTypeCategory option"
  simple_bytecode_type :: "SimpleType option"
  def_kind :: definition_kind

definition numeric_def :: "nat \<Rightarrow> NumericDTypeCategory \<Rightarrow> SimpleType \<Rightarrow> DTypeDefinition" where
  "numeric_def w c t =
     \<lparr>def_bitwidth = w, numeric_category = Some c, simple_bytecode_type = Some t, def_kind = PlainDefinition\<rparr>"

definition integer_def :: "nat \<Rightarrow> bool \<Rightarrow> SimpleType \<Rightarrow> DTypeDefinition" where
  "integer_def w s t =
     \<lparr>def_bitwidth = w, numeric_category = Some Integral, simple_bytecode_type = Some t,
      def_kind = IntegerDefinition s\<rparr>"

definition pointer_bitwidth :: "MemorySpace \<Rightarrow> nat" where
  "pointer_bitwidth ms = (if ms \<in> {MS_SHARED, MS_TENSOR, MS_SHARED_CLUSTER} then 32 else 64)"

fun dtype_defs :: "DType \<Rightarrow> DTypeDefinition" where
  "dtype_defs boolean = numeric_def 8 Boolean I1"
| "dtype_defs uint8 = integer_def 8 False I8"
| "dtype_defs uint16 = integer_def 16 False I16"
| "dtype_defs uint32 = integer_def 32 False I32"
| "dtype_defs uint64 = integer_def 64 False I64"
| "dtype_defs int8 = integer_def 8 True I8"
| "dtype_defs int16 = integer_def 16 True I16"
| "dtype_defs int32 = integer_def 32 True I32"
| "dtype_defs int64 = integer_def 64 True I64"
| "dtype_defs float16 = numeric_def 16 Float F16"
| "dtype_defs float32 = numeric_def 32 Float F32"
| "dtype_defs float64 = numeric_def 64 Float F64"
| "dtype_defs bfloat16 = numeric_def 16 Float BF16"
| "dtype_defs tfloat32 = numeric_def 32 RestrictedFloat TF32"
| "dtype_defs float8_e4m3fn = numeric_def 8 RestrictedFloat F8E4M3FN"
| "dtype_defs float8_e5m2 = numeric_def 8 RestrictedFloat F8E5M2"
| "dtype_defs float8_e8m0fnu = numeric_def 8 RestrictedFloat F8E8M0FNU"
| "dtype_defs float4_e2m1fn = numeric_def 4 RestrictedFloat F4E2M1FN"
| "dtype_defs (Pointer p ms) =
     \<lparr>def_bitwidth = pointer_bitwidth ms, numeric_category = None, simple_bytecode_type = None,
      def_kind = PointerDefinition p ms\<rparr>"

fun MemorySpace_name :: "MemorySpace \<Rightarrow> string" where
  "MemorySpace_name MS_GENERIC = ''GENERIC''"
| "MemorySpace_name MS_GLOBAL = ''GLOBAL''"
| "MemorySpace_name MS_SHARED = ''SHARED''"
| "MemorySpace_name MS_CONSTANT = ''CONSTANT''"
| "MemorySpace_name MS_LOCAL = ''LOCAL''"
| "MemorySpace_name MS_TENSOR = ''TENSOR''"
| "MemorySpace_name MS_SHARED_CLUSTER = ''SHARED_CLUSTER''"

text \<open>The names, with the construction of \<^verbatim>\<open>_get_pointer_dtype\<close> for pointers.\<close>

definition space_param :: "MemorySpace \<Rightarrow> string list" where
  "space_param ms = (if ms \<noteq> MS_GENERIC then [''MemorySpace.'' @ MemorySpace_name ms] else [])"

fun comma_join :: "string list \<Rightarrow> string" where
  "comma_join [] = []"
| "comma_join [x] = x"
| "comma_join (x # y # zs) = x @ '', '' @ comma_join (y # zs)"

definition with_params :: "string \<Rightarrow> string list \<Rightarrow> string" where
  "with_params name params = (if params \<noteq> [] then name @ ''['' @ comma_join params @ '']'' else name)"

fun dtype_name :: "DType \<Rightarrow> string" where
  "dtype_name boolean = ''bool_''"
| "dtype_name uint8 = ''uint8''"
| "dtype_name uint16 = ''uint16''"
| "dtype_name uint32 = ''uint32''"
| "dtype_name uint64 = ''uint64''"
| "dtype_name int8 = ''int8''"
| "dtype_name int16 = ''int16''"
| "dtype_name int32 = ''int32''"
| "dtype_name int64 = ''int64''"
| "dtype_name float16 = ''float16''"
| "dtype_name float32 = ''float32''"
| "dtype_name float64 = ''float64''"
| "dtype_name bfloat16 = ''bfloat16''"
| "dtype_name tfloat32 = ''tfloat32''"
| "dtype_name float8_e4m3fn = ''float8_e4m3fn''"
| "dtype_name float8_e5m2 = ''float8_e5m2''"
| "dtype_name float8_e8m0fnu = ''float8_e8m0fnu''"
| "dtype_name float4_e2m1fn = ''float4_e2m1fn''"
| "dtype_name (Pointer None ms) = with_params ''opaque_pointer'' (space_param ms)"
| "dtype_name (Pointer (Some t) ms) = with_params ''pointer'' (dtype_name t # space_param ms)"

definition default_int_type :: DType where
  "default_int_type = int32"

definition default_float_type :: DType where
  "default_float_type = float32"

definition is_numeric :: "DType \<Rightarrow> bool" where
  "is_numeric t \<longleftrightarrow> numeric_category (dtype_defs t) \<noteq> None"

definition numeric_dtype_category :: "DType \<Rightarrow> NumericDTypeCategory res" where
  "numeric_dtype_category t =
     (case numeric_category (dtype_defs t) of None \<Rightarrow> Inl ValueError | Some c \<Rightarrow> Inr c)"

definition dtype_simple_bytecode_type :: "DType \<Rightarrow> SimpleType res" where
  "dtype_simple_bytecode_type t =
     (case simple_bytecode_type (dtype_defs t) of None \<Rightarrow> Inl AssertionError | Some s \<Rightarrow> Inr s)"

definition is_boolean :: "DType \<Rightarrow> bool" where
  "is_boolean t \<longleftrightarrow> numeric_category (dtype_defs t) = Some Boolean"

definition is_integral :: "DType \<Rightarrow> bool" where
  "is_integral t \<longleftrightarrow> numeric_category (dtype_defs t) = Some Integral"

definition is_signed :: "DType \<Rightarrow> bool res" where
  "is_signed t =
     (case numeric_category (dtype_defs t) of
        None \<Rightarrow> Inr False
      | Some Boolean \<Rightarrow> Inr False
      | Some Integral \<Rightarrow>
          (case def_kind (dtype_defs t) of IntegerDefinition s \<Rightarrow> Inr s | _ \<Rightarrow> Inl AssertionError)
      | Some Float \<Rightarrow> Inr True
      | Some RestrictedFloat \<Rightarrow> Inr True)"

definition integer_dtype :: "int \<Rightarrow> bool \<Rightarrow> DType res" where
  "integer_dtype w s =
     (if w = 8 \<and> \<not> s then Inr uint8 else if w = 16 \<and> \<not> s then Inr uint16
      else if w = 32 \<and> \<not> s then Inr uint32 else if w = 64 \<and> \<not> s then Inr uint64
      else if w = 8 \<and> s then Inr int8 else if w = 16 \<and> s then Inr int16
      else if w = 32 \<and> s then Inr int32 else if w = 64 \<and> s then Inr int64
      else Inl ValueError)"

definition get_signedness :: "DType \<Rightarrow> Signedness res" where
  "get_signedness t = and_then (is_signed t) (\<lambda>s. Inr (if s then SGN_Signed else SGN_Unsigned))"

definition is_float :: "DType \<Rightarrow> bool" where
  "is_float t \<longleftrightarrow> numeric_category (dtype_defs t) \<in> {Some Float, Some RestrictedFloat}"

definition is_unrestricted_float :: "DType \<Rightarrow> bool" where
  "is_unrestricted_float t \<longleftrightarrow> numeric_category (dtype_defs t) = Some Float"

definition is_restricted_float :: "DType \<Rightarrow> bool" where
  "is_restricted_float t \<longleftrightarrow> numeric_category (dtype_defs t) = Some RestrictedFloat"

definition is_arithmetic :: "DType \<Rightarrow> bool" where
  "is_arithmetic t \<longleftrightarrow>
     (case numeric_category (dtype_defs t) of None \<Rightarrow> False | Some c \<Rightarrow> category_arithmetic c)"

definition is_pointer_dtype :: "DType \<Rightarrow> bool" where
  "is_pointer_dtype t \<longleftrightarrow> (case def_kind (dtype_defs t) of PointerDefinition _ _ \<Rightarrow> True | _ \<Rightarrow> False)"

text \<open>\<^verbatim>\<open>IntegerInfo(dtype).min\<close> and \<^verbatim>\<open>.max\<close>; the constructor raises TypeError.\<close>

definition get_min_value :: "nat \<Rightarrow> bool \<Rightarrow> int" where
  "get_min_value w s = (if s then - push_bit (w - 1) 1 else 0)"

definition get_max_value :: "nat \<Rightarrow> bool \<Rightarrow> int" where
  "get_max_value w s = (if s then push_bit (w - 1) 1 - 1 else push_bit w 1 - 1)"

definition IntegerInfo_min :: "DType \<Rightarrow> int res" where
  "IntegerInfo_min t =
     (case def_kind (dtype_defs t) of
        IntegerDefinition s \<Rightarrow> Inr (get_min_value (def_bitwidth (dtype_defs t)) s)
      | _ \<Rightarrow> Inl TypeError)"

definition IntegerInfo_max :: "DType \<Rightarrow> int res" where
  "IntegerInfo_max t =
     (case def_kind (dtype_defs t) of
        IntegerDefinition s \<Rightarrow> Inr (get_max_value (def_bitwidth (dtype_defs t)) s)
      | _ \<Rightarrow> Inl TypeError)"

section \<open>Implicit promotion\<close>

definition promotion_order :: "DType list" where
  "promotion_order =
     [boolean, uint8, uint16, uint32, uint64, int8, int16, int32, int64, float16, float32,
      float64, bfloat16, tfloat32, float8_e4m3fn, float8_e5m2, float8_e8m0fnu, float4_e2m1fn]"

definition common_dtype_table :: "DType option list list" where
  "common_dtype_table =
    (let b1 = Some boolean; u8 = Some uint8; u16 = Some uint16; u32 = Some uint32; u64 = Some uint64;
         i8 = Some int8; i16 = Some int16; i32 = Some int32; i64 = Some int64;
         f16 = Some float16; f32 = Some float32; f64 = Some float64; bf = Some bfloat16;
         tf32 = Some tfloat32; f8e4m3fn = Some float8_e4m3fn; f8e5m2 = Some float8_e5m2;
         f8e8m0fnu = Some float8_e8m0fnu; f4e2m1fn = Some float4_e2m1fn; na = None
     in
     [[b1,  u8,  u16, u32, u64, i8,  i16, i32, i64, f16, f32, f64, bf,  na,   na,       na,        na,        na],
      [u8,  u8,  u16, u32, u64, na,  na,  na,  na,  f16, f32, f64, bf,  na,   na,       na,        na,        na],
      [u16, u16, u16, u32, u64, na,  na,  na,  na,  f16, f32, f64, bf,  na,   na,       na,        na,        na],
      [u32, u32, u32, u32, u64, na,  na,  na,  na,  f16, f32, f64, bf,  na,   na,       na,        na,        na],
      [u64, u64, u64, u64, u64, na,  na,  na,  na,  f16, f32, f64, bf,  na,   na,       na,        na,        na],
      [i8,  na,  na,  na,  na,  i8,  i16, i32, i64, f16, f32, f64, bf,  na,   na,       na,        na,        na],
      [i16, na,  na,  na,  na,  i16, i16, i32, i64, f16, f32, f64, bf,  na,   na,       na,        na,        na],
      [i32, na,  na,  na,  na,  i32, i32, i32, i64, f16, f32, f64, bf,  na,   na,       na,        na,        na],
      [i64, na,  na,  na,  na,  i64, i64, i64, i64, f16, f32, f64, bf,  na,   na,       na,        na,        na],
      [f16, f16, f16, f16, f16, f16, f16, f16, f16, f16, f32, f64, na,  na,   na,       na,        na,        na],
      [f32, f32, f32, f32, f32, f32, f32, f32, f32, f32, f32, f64, f32, na,   na,       na,        na,        na],
      [f64, f64, f64, f64, f64, f64, f64, f64, f64, f64, f64, f64, f64, na,   na,       na,        na,        na],
      [bf,  bf,  bf,  bf,  bf,  bf,  bf,  bf,  bf,  na,  f32, f64, bf,  na,   na,       na,        na,        na],
      [na,  na,  na,  na,  na,  na,  na,  na,  na,  na,  na,  na,  na,  tf32, na,       na,        na,        na],
      [na,  na,  na,  na,  na,  na,  na,  na,  na,  na,  na,  na,  na,  na,   f8e4m3fn, na,        na,        na],
      [na,  na,  na,  na,  na,  na,  na,  na,  na,  na,  na,  na,  na,  na,   na,       f8e5m2,    na,        na],
      [na,  na,  na,  na,  na,  na,  na,  na,  na,  na,  na,  na,  na,  na,   na,       na,        f8e8m0fnu, na],
      [na,  na,  na,  na,  na,  na,  na,  na,  na,  na,  na,  na,  na,  na,   na,       na,        na,        f4e2m1fn]])"

text \<open>\<^verbatim>\<open>list.index\<close>\<close>

fun py_index :: "'a list \<Rightarrow> 'a \<Rightarrow> nat res" where
  "py_index [] x = Inl ValueError"
| "py_index (y # ys) x = (if y = x then Inr 0 else and_then (py_index ys x) (\<lambda>i. Inr (i + 1)))"

definition promote_dtypes_impl :: "DType \<Rightarrow> DType \<Rightarrow> bool \<Rightarrow> DType res" where
  "promote_dtypes_impl t1 t2 force_float =
     (if t1 = t2 \<and> (\<not> force_float \<or> is_float t1) then Inr t1
      else if is_restricted_float t1 \<or> is_restricted_float t2 then Inl TileTypeError
      else if is_pointer_dtype t1 \<or> is_pointer_dtype t2 then Inl TileTypeError
      else
        and_then (py_index promotion_order t1) (\<lambda>idx1.
        and_then (py_index promotion_order t2) (\<lambda>idx2.
          if idx1 \<ge> length common_dtype_table \<or> idx2 \<ge> length (common_dtype_table ! idx1)
          then Inl IndexError
          else case common_dtype_table ! idx1 ! idx2 of
                 None \<Rightarrow> Inl TileTypeError
               | Some ret \<Rightarrow> Inr (if \<not> force_float \<or> is_float ret then ret else default_float_type))))"

text \<open>Python scalars known at compile time; a float is kept as its bit pattern.\<close>

datatype py_scalar = PyBool bool | PyInt int | PyFloat int

fun dtype_of_constant_scalar :: "py_scalar \<Rightarrow> DType res" where
  "dtype_of_constant_scalar (PyBool b) = Inr boolean"
| "dtype_of_constant_scalar (PyInt v) =
     (if - (2 ^ 31) \<le> v \<and> v < 2 ^ 31 then Inr int32
      else if - (2 ^ 63) \<le> v \<and> v < 2 ^ 63 then Inr int64
      else if 0 \<le> v \<and> v < 2 ^ 64 then Inr uint64
      else Inl TileValueError)"
| "dtype_of_constant_scalar (PyFloat f) = Inr default_float_type"

text \<open>
  The comparison with the bounds of the data type is only made when the constant's category
  is Integral, i.e. for an integer.
\<close>

definition promote_loose :: "DType \<Rightarrow> py_scalar \<Rightarrow> bool \<Rightarrow> DType res" where
  "promote_loose t c force_float =
     and_then (dtype_of_constant_scalar c) (\<lambda>loose_dtype.
     and_then (numeric_dtype_category t) (\<lambda>cat.
     let cat = (if cat = RestrictedFloat then Float else cat)
     in and_then (numeric_dtype_category loose_dtype) (\<lambda>loose_cat.
        and_then
          (if loose_cat = cat then
             (if cat = Integral \<and> \<not> force_float then
                and_then (IntegerInfo_min t) (\<lambda>lo. and_then (IntegerInfo_max t) (\<lambda>hi.
                  case c of PyInt v \<Rightarrow> if \<not> (lo \<le> v \<and> v \<le> hi) then Inl TileValueError else Inr t
                  | _ \<Rightarrow> Inr t))
              else Inr t)
           else Inr (if category_value loose_cat > category_value cat then loose_dtype else t)) (\<lambda>ret.
        Inr (if \<not> force_float \<or> is_float ret then ret else default_float_type)))))"

datatype operand_type = Strict DType | Loose py_scalar

fun promote_dtypes :: "operand_type \<Rightarrow> operand_type \<Rightarrow> bool \<Rightarrow> DType res" where
  "promote_dtypes (Loose v1) (Loose v2) ff =
     and_then (dtype_of_constant_scalar v1) (\<lambda>t1.
     and_then (dtype_of_constant_scalar v2) (\<lambda>t2. promote_dtypes_impl t1 t2 ff))"
| "promote_dtypes (Loose v) (Strict t) ff = promote_loose t v ff"
| "promote_dtypes (Strict t) (Loose v) ff = promote_loose t v ff"
| "promote_dtypes (Strict t1) (Strict t2) ff = promote_dtypes_impl t1 t2 ff"

section \<open>Matrix multiplication\<close>

definition mma_supported_dtypes :: "(DType \<times> DType list) list" where
  "mma_supported_dtypes =
     [(float8_e4m3fn, [float16, float32]), (float8_e5m2, [float16, float32]),
      (float16, [float16, float32]), (bfloat16, [float32]), (float32, [float32]),
      (tfloat32, [float32]), (float64, [float64]), (int8, [int32]), (uint8, [int32])]"

definition resolve_mma_supported_dtype :: "DType \<Rightarrow> DType \<Rightarrow> DType option \<Rightarrow> DType res" where
  "resolve_mma_supported_dtype x_dtype y_dtype acc_dtype =
     (if x_dtype \<noteq> y_dtype \<and> (x_dtype \<notin> {int8, uint8} \<or> y_dtype \<notin> {int8, uint8}) then Inl TileTypeError
      else case map_of mma_supported_dtypes x_dtype of
        None \<Rightarrow> Inl TileTypeError
      | Some candidates \<Rightarrow>
          (case acc_dtype of
             Some a \<Rightarrow> if a \<notin> set candidates then Inl TileTypeError else Inr a
           | None \<Rightarrow> Inr (candidates ! 0)))"

definition mma_scaled_supported_dtypes :: "(DType \<times> (DType \<times> (DType \<times> int list)) list) list" where
  "mma_scaled_supported_dtypes =
     [(float8_e4m3fn, [(float8_e8m0fnu, (float32, [32]))]),
      (float8_e5m2, [(float8_e8m0fnu, (float32, [32]))]),
      (float4_e2m1fn, [(float8_e8m0fnu, (float32, [16, 32])), (float8_e4m3fn, (float32, [16]))])]"

definition resolve_mma_scaled_supported_dtype ::
  "DType \<Rightarrow> DType \<Rightarrow> DType \<Rightarrow> DType \<Rightarrow> DType \<Rightarrow> unit res" where
  "resolve_mma_scaled_supported_dtype x_dtype x_scale_dtype y_dtype y_scale_dtype acc_dtype =
     (if x_dtype \<noteq> y_dtype then Inl TileTypeError
      else if x_scale_dtype \<noteq> y_scale_dtype then Inl TileTypeError
      else case map_of mma_scaled_supported_dtypes x_dtype of
        None \<Rightarrow> Inl TileTypeError
      | Some scale_candidates \<Rightarrow>
          (case map_of scale_candidates x_scale_dtype of
             None \<Rightarrow> Inl TileTypeError
           | Some (expected_acc, _) \<Rightarrow>
               if acc_dtype \<noteq> expected_acc then Inl TileTypeError else Inr ()))"

definition get_mma_scaled_scaling_block_sizes :: "DType \<Rightarrow> DType \<Rightarrow> int list res" where
  "get_mma_scaled_scaling_block_sizes data_dtype scale_dtype =
     (case map_of mma_scaled_supported_dtypes data_dtype of
        None \<Rightarrow> Inl AssertionError
      | Some scale_candidates \<Rightarrow>
          (case map_of scale_candidates scale_dtype of
             None \<Rightarrow> Inl AssertionError
           | Some (_, scaling_block_sizes) \<Rightarrow> Inr scaling_block_sizes))"

section \<open>The promotion table\<close>

lemma in_promotion_order: "is_numeric t \<longleftrightarrow> t \<in> set promotion_order"
  by (cases t) (simp_all add: is_numeric_def promotion_order_def numeric_def_def integer_def_def)

lemma pointer_iff: "is_pointer_dtype t \<longleftrightarrow> \<not> is_numeric t"
  by (cases t) (simp_all add: is_numeric_def is_pointer_dtype_def numeric_def_def integer_def_def)

lemma pointer_not_float: "\<not> is_numeric t \<Longrightarrow> \<not> is_float t"
  by (auto simp: is_numeric_def is_float_def)

lemma promote_pointer:
  "\<not> is_numeric a \<or> \<not> is_numeric b \<Longrightarrow>
     promote_dtypes_impl a b ff = (if a = b \<and> \<not> ff then Inr a else Inl TileTypeError)"
  using pointer_not_float by (auto simp: promote_dtypes_impl_def pointer_iff)

text \<open>
  The documented rules: boolean before integer before float, narrow before wide within a
  category, and never between signed and unsigned, restricted floats or pointers.
\<close>

definition promotion_le :: "DType \<Rightarrow> DType \<Rightarrow> bool" where
  "promotion_le a b \<longleftrightarrow> a = b \<or>
     (case (numeric_category (dtype_defs a), numeric_category (dtype_defs b)) of
        (Some ca, Some cb) \<Rightarrow> category_arithmetic ca \<and> category_arithmetic cb \<and>
          (category_value ca < category_value cb
           \<or> ca = cb \<and> def_bitwidth (dtype_defs a) < def_bitwidth (dtype_defs b)
             \<and> def_kind (dtype_defs a) = def_kind (dtype_defs b))
      | _ \<Rightarrow> False)"

lemma promotion_table_rules:
  "list_all (\<lambda>a. list_all (\<lambda>b.
      promote_dtypes_impl a b False =
        (if promotion_le a b then Inr b else if promotion_le b a then Inr a else Inl TileTypeError))
      promotion_order) promotion_order"
  by code_simp


lemma promotion_le_pointer: "\<not> is_numeric a \<or> \<not> is_numeric b \<Longrightarrow> promotion_le a b \<longleftrightarrow> a = b"
  by (auto simp: promotion_le_def is_numeric_def split: option.splits)

lemma promote_rules:
  "promote_dtypes_impl a b False =
     (if promotion_le a b then Inr b else if promotion_le b a then Inr a else Inl TileTypeError)"
proof (cases "is_numeric a \<and> is_numeric b")
  case True
  then show ?thesis using promotion_table_rules by (auto simp: in_promotion_order list_all_iff)
next
  case False
  then have "promotion_le a b \<longleftrightarrow> a = b" "promotion_le b a \<longleftrightarrow> a = b"
    using promotion_le_pointer by metis+
  then show ?thesis using False by (auto simp: promote_pointer)
qed

lemma category_value_inj: "category_value a = category_value b \<longleftrightarrow> a = b"
  by (cases a; cases b) simp_all



text \<open>The force-float variant differs only in its last step.\<close>

lemma promote_force_float_table:
  "list_all (\<lambda>a. list_all (\<lambda>b.
      promote_dtypes_impl a b True =
        and_then (promote_dtypes_impl a b False) (\<lambda>r. Inr (if is_float r then r else default_float_type)))
      promotion_order) promotion_order"
  by code_simp

lemma promote_force_float:
  assumes "is_numeric a" "is_numeric b"
  shows "promote_dtypes_impl a b True =
     and_then (promote_dtypes_impl a b False) (\<lambda>r. Inr (if is_float r then r else default_float_type))"
  using promote_force_float_table assms by (simp add: in_promotion_order list_all_iff)

text \<open>The values an integer or boolean data type holds.\<close>

definition dtype_range :: "DType \<Rightarrow> int set" where
  "dtype_range t =
     (case def_kind (dtype_defs t) of
        IntegerDefinition s \<Rightarrow> {get_min_value (def_bitwidth (dtype_defs t)) s .. get_max_value (def_bitwidth (dtype_defs t)) s}
      | _ \<Rightarrow> {0..1})"

lemma integer_range_mono:
  "is_integral a \<Longrightarrow> is_integral b \<Longrightarrow> promotion_le a b \<Longrightarrow> dtype_range a \<subseteq> dtype_range b"
  by (cases a; cases b)
    (simp_all add: is_integral_def promotion_le_def dtype_range_def numeric_def_def integer_def_def
      get_min_value_def get_max_value_def)

lemma boolean_range_mono:
  "is_boolean a \<Longrightarrow> is_integral b \<or> is_boolean b \<Longrightarrow> dtype_range a \<subseteq> dtype_range b"
  by (cases a; cases b)
    (simp_all add: is_integral_def is_boolean_def dtype_range_def numeric_def_def integer_def_def
      get_min_value_def get_max_value_def)

section \<open>Names\<close>

definition delimited :: "string \<Rightarrow> bool" where
  "delimited r \<longleftrightarrow> r = [] \<or> hd r \<in> {CHR '','', CHR '']''}"

fun base_name :: "DType \<Rightarrow> string" where
  "base_name (Pointer None ms) = ''opaque_pointer''"
| "base_name (Pointer (Some t) ms) = ''pointer''"
| "base_name t = dtype_name t"

fun name_rest :: "DType \<Rightarrow> string" where
  "name_rest (Pointer None ms) = (if ms = MS_GENERIC then [] else ''[MemorySpace.'' @ MemorySpace_name ms @ '']'')"
| "name_rest (Pointer (Some t) ms) =
     ''['' @ dtype_name t @ (if ms = MS_GENERIC then [] else '', MemorySpace.'' @ MemorySpace_name ms) @ '']''"
| "name_rest t = []"

lemma dtype_name_split: "dtype_name t = base_name t @ name_rest t"
proof (cases t)
  case (Pointer p ms)
  then show ?thesis by (cases p) (simp_all add: with_params_def space_param_def)
qed simp_all

lemma name_head:
  assumes "delimited r"
  shows "takeWhile (\<lambda>c. c \<notin> set ''[,]'') (dtype_name t @ r) = base_name t
    \<and> dropWhile (\<lambda>c. c \<notin> set ''[,]'') (dtype_name t @ r) = name_rest t @ r"
proof -
  have base: "\<forall>c \<in> set (base_name t). c \<notin> set ''[,]''"
    by (cases t rule: base_name.cases) simp_all
  have rest: "name_rest t @ r = [] \<or> hd (name_rest t @ r) \<in> set ''[,]''"
    using assms by (cases t rule: name_rest.cases) (auto simp: delimited_def)
  show ?thesis
    unfolding dtype_name_split append_assoc
    using base rest by (cases "name_rest t @ r") (auto simp: takeWhile_append2 dropWhile_append2)
qed

lemma space_name_inj:
  "MemorySpace_name a @ CHR '']'' # r = MemorySpace_name b @ CHR '']'' # s \<Longrightarrow> a = b \<and> r = s"
  by (cases a; cases b) simp_all

lemma numeric_base_name_table:
  "list_all (\<lambda>a. base_name a \<notin> {''pointer'', ''opaque_pointer''} \<and> name_rest a = [] \<and>
      list_all (\<lambda>b. base_name a = base_name b \<longrightarrow> a = b) promotion_order) promotion_order"
  by code_simp

lemma numeric_base_name_inj: "is_numeric a \<Longrightarrow> base_name a = base_name b \<Longrightarrow> a = b"
proof -
  assume a: "is_numeric a" and eq: "base_name a = base_name b"
  then have "base_name b \<notin> {''pointer'', ''opaque_pointer''}"
    using numeric_base_name_table by (auto simp: in_promotion_order list_all_iff)
  then have "is_numeric b" by (cases b rule: base_name.cases) (simp_all add: in_promotion_order promotion_order_def)
  then show "a = b"
    using a eq numeric_base_name_table by (auto simp: in_promotion_order list_all_iff)
qed

lemma numeric_name_prefix:
  assumes "is_numeric t" "dtype_name t @ r = dtype_name u @ s" "delimited r" "delimited s"
  shows "t = u \<and> r = s"
proof -
  have "base_name t = base_name u" using name_head assms(2-4) by metis
  then have "t = u" by (rule numeric_base_name_inj [OF assms(1)])
  then show ?thesis using assms(2) by simp
qed

lemma dtype_name_prefix:
  "dtype_name t @ r = dtype_name u @ s \<Longrightarrow> delimited r \<Longrightarrow> delimited s \<Longrightarrow> t = u \<and> r = s"
proof (induction t arbitrary: u r s)
  case (Pointer p ms)
  from Pointer.prems have heads: "base_name (Pointer p ms) = base_name u"
    and rests: "name_rest (Pointer p ms) @ r = name_rest u @ s"
    using name_head by metis+
  show ?case
  proof (cases p)
    case None
    with heads obtain ms' where u: "u = Pointer None ms'"
      by (cases u rule: base_name.cases) simp_all
    show ?thesis
      using rests Pointer.prems(2,3) space_name_inj [of ms r ms' s]
      by (auto simp: None u delimited_def split: if_splits)
  next
    case (Some t)
    with heads obtain t' ms' where u: "u = Pointer (Some t') ms'"
      by (cases u rule: base_name.cases) simp_all
    let ?a = "\<lambda>ms. (if ms = MS_GENERIC then [] else '', MemorySpace.'' @ MemorySpace_name ms) @ '']''"
    have "dtype_name t @ (?a ms @ r) = dtype_name t' @ (?a ms' @ s)"
      using rests by (simp add: Some u)
    moreover have "delimited (?a ms @ r)" "delimited (?a ms' @ s)"
      by (simp_all add: delimited_def)
    ultimately have "t = t' \<and> ?a ms @ r = ?a ms' @ s"
      using Pointer.IH [of t] Some by (metis option.set_intros)
    then show ?thesis
      using space_name_inj [of ms r ms' s] by (auto simp: Some u split: if_splits)
  qed
qed (rule numeric_name_prefix, (simp add: in_promotion_order promotion_order_def | assumption)+)+

section \<open>Properties of data types\<close>

text \<open>
  C17. The promotion table is the documented rule: the wider of two convertible types, where
  boolean converts to integer to float, narrow to wide within one category and signedness,
  and every other pair, in particular signed with unsigned, float16 with bfloat16, and
  restricted floats or pointers with anything else, is a type error.
\<close>

theorem promotion_follows_rules:
  "promote_dtypes_impl a b False =
     (if promotion_le a b then Inr b else if promotion_le b a then Inr a else Inl TileTypeError)"
  by (rule promote_rules)



text \<open>
  C18. Promotion of integers and booleans loses no value: both operand ranges are contained in
  the range of the result.
\<close>

theorem promotion_keeps_values:
  assumes "promote_dtypes_impl a b False = Inr r"
    and "is_integral a \<or> is_boolean a" and "is_integral b \<or> is_boolean b"
  shows "dtype_range a \<subseteq> dtype_range r \<and> dtype_range b \<subseteq> dtype_range r"
proof -
  have mono: "dtype_range x \<subseteq> dtype_range y"
    if "promotion_le x y" "is_integral x \<or> is_boolean x" "is_integral y \<or> is_boolean y" for x y
  proof (cases "is_boolean x")
    case False
    with that have "is_integral x" "is_integral y"
      by (auto simp: promotion_le_def is_integral_def is_boolean_def)
    then show ?thesis using integer_range_mono that(1) by blast
  qed (use that boolean_range_mono in blast)
  show ?thesis
    using assms(1) mono assms(2,3) unfolding promote_rules by (auto split: if_splits)
qed

theorem promotion_keeps_values_witness:
  "dtype_range uint8 \<subseteq> dtype_range uint32 \<and> dtype_range uint32 \<subseteq> dtype_range uint32"
  by (rule promotion_keeps_values)
    (code_simp, simp_all add: is_integral_def integer_def_def)

text \<open>
  C31. A compile-time integer that takes part in an operation is representable in the result:
  when the promoted type is an integer type, it is the operand's own type if that is an
  integer type, and the constant lies in its range; otherwise TileValueError is raised.
\<close>

theorem promote_constant_in_range:
  assumes "promote_loose t (PyInt v) False = Inr r" and "is_integral r"
  shows "v \<in> dtype_range r \<and> (is_integral t \<longrightarrow> r = t)"
proof -
  have kind: "\<exists>s. def_kind (dtype_defs r) = IntegerDefinition s"
    using assms(2) by (cases r) (auto simp: is_integral_def numeric_def_def integer_def_def)
  have const: "dtype_of_constant_scalar (PyInt v) = Inr d \<Longrightarrow> v \<in> dtype_range d \<and> is_integral d" for d
    by (auto simp: dtype_range_def integer_def_def get_min_value_def get_max_value_def is_integral_def
        split: if_splits)
  from assms(1) obtain d c where d: "dtype_of_constant_scalar (PyInt v) = Inr d"
    and c: "numeric_category (dtype_defs t) = Some c"
    by (auto simp: promote_loose_def and_then_Inr_iff numeric_dtype_category_def split: option.splits)
  have loose: "numeric_category (dtype_defs d) = Some Integral"
    using const [OF d] by (simp add: is_integral_def)
  show ?thesis
  proof (cases c)
    case Integral
    with assms c d loose have "r = t" and "\<exists>lo hi. IntegerInfo_min t = Inr lo \<and> IntegerInfo_max t = Inr hi \<and> lo \<le> v \<and> v \<le> hi"
      by (auto simp: promote_loose_def and_then_Inr_iff numeric_dtype_category_def Let_def split: if_splits)
    then show ?thesis
      using kind by (auto simp: dtype_range_def IntegerInfo_min_def IntegerInfo_max_def)
  next
    case Boolean
    with assms c d loose have "r = d"
      by (auto simp: promote_loose_def and_then_Inr_iff numeric_dtype_category_def Let_def split: if_splits)
    then show ?thesis using const [OF d] c Boolean by (simp add: is_integral_def)
  next
    case Float
    with assms c d loose have "r = t"
      by (auto simp: promote_loose_def and_then_Inr_iff numeric_dtype_category_def Let_def split: if_splits)
    then show ?thesis using assms(2) c Float by (simp add: is_integral_def)
  next
    case RestrictedFloat
    with assms c d loose have "r = t"
      by (auto simp: promote_loose_def and_then_Inr_iff numeric_dtype_category_def Let_def split: if_splits)
    then show ?thesis using assms(2) c RestrictedFloat by (simp add: is_integral_def)
  qed
qed

theorem promote_constant_in_range_witness: "-7 \<in> dtype_range int16"
proof -
  have "promote_loose int16 (PyInt (-7)) False = Inr int16" by code_simp
  from promote_constant_in_range [OF this] show ?thesis by (simp add: is_integral_def integer_def_def)
qed

text \<open>
  C32. With the float flag (true division) every accepted combination of operands, loosely
  typed constants included, has a float result type.
\<close>

theorem promote_force_float_result:
  assumes "promote_dtypes x y True = Inr r"
  shows "is_float r"
proof -
  have ff: "is_float default_float_type"
    by (simp add: is_float_def default_float_type_def numeric_def_def)
  have impl: "promote_dtypes_impl a b True = Inr t \<Longrightarrow> is_float t" for a b t
    using ff by (cases "is_numeric a \<and> is_numeric b")
      (auto simp: promote_force_float and_then_Inr_iff promote_pointer split: if_splits)
  have loose: "promote_loose a v True = Inr t \<Longrightarrow> is_float t" for a v t
    using ff by (auto simp: promote_loose_def and_then_Inr_iff Let_def split: if_splits)
  show ?thesis
    using assms impl loose by (cases x; cases y) (auto simp: and_then_Inr_iff)
qed

theorem promote_force_float_result_witness: "is_float float32"
  by (rule promote_force_float_result [of "Strict int64" "Loose (PyInt 3)"]) code_simp

text \<open>
  C33. The names of data types are unambiguous, for pointers to any depth and in any memory
  space: two types with one name are the same type, so the registry by name never meets two
  definitions for one name.
\<close>

theorem dtype_name_injective: "dtype_name t = dtype_name u \<longleftrightarrow> t = u"
  using dtype_name_prefix [of t "[]" u "[]"] by (auto simp: delimited_def)

lemma mma_candidates:
  assumes "map_of mma_supported_dtypes x = Some cs"
  shows "cs \<noteq> []" and "r \<in> set cs \<Longrightarrow> (if is_float x then is_unrestricted_float r else is_integral x \<and> r = int32)
    \<and> def_bitwidth (dtype_defs x) \<le> def_bitwidth (dtype_defs r)"
proof -
  have "list_all (\<lambda>(x, cs). cs \<noteq> [] \<and> list_all (\<lambda>r.
      (if is_float x then is_unrestricted_float r else is_integral x \<and> r = int32)
      \<and> def_bitwidth (dtype_defs x) \<le> def_bitwidth (dtype_defs r)) cs) mma_supported_dtypes"
    by code_simp
  with map_of_SomeD [OF assms] show "cs \<noteq> []" and "r \<in> set cs \<Longrightarrow>
      (if is_float x then is_unrestricted_float r else is_integral x \<and> r = int32)
      \<and> def_bitwidth (dtype_defs x) \<le> def_bitwidth (dtype_defs r)"
    by (fastforce simp: list_all_iff)+
qed

lemma scaled_candidates:
  assumes "map_of mma_scaled_supported_dtypes x = Some cs" and "map_of cs s = Some (r, bs)"
  shows "r = float32 \<and> is_restricted_float x \<and> is_restricted_float s \<and> bs \<noteq> [] \<and> set bs \<subseteq> {16, 32}
    \<and> (def_bitwidth (dtype_defs x) = 8 \<longrightarrow> bs = [32])"
proof -
  have "list_all (\<lambda>(x, cs). list_all (\<lambda>(s, r, bs). r = float32 \<and> is_restricted_float x \<and> is_restricted_float s
      \<and> bs \<noteq> [] \<and> list_all (\<lambda>b. b = 16 \<or> b = 32) bs \<and> (def_bitwidth (dtype_defs x) = 8 \<longrightarrow> bs = [32])) cs) mma_scaled_supported_dtypes"
    by code_simp
  with map_of_SomeD [OF assms(1)] map_of_SomeD [OF assms(2)] show ?thesis by (fastforce simp: list_all_iff)
qed

text \<open>
  C21. Matrix multiplication: accepted operand and accumulator types are arithmetic-compatible:
  the operands are equal or both 8-bit integers, the accumulator is the requested one if one is
  requested, it is an unrestricted float for float operands and int32 for integers, and is at
  least as wide as the operands. Scaled operands are accepted exactly when both operands have
  one type, both scales have one type, the accumulator is float32 and there are scaling block
  sizes for the operand with its scale. These sizes then are 16 or 32, only 32 for 8-bit
  operands, and operand and scale are restricted floats.
\<close>

theorem mma_accumulator:
  "(resolve_mma_supported_dtype x y acc = Inr r \<longrightarrow>
      (x = y \<or> {x, y} \<subseteq> {int8, uint8}) \<and> (\<forall>a. acc = Some a \<longrightarrow> r = a)
      \<and> (if is_float x then is_unrestricted_float r else is_integral x \<and> r = int32)
      \<and> def_bitwidth (dtype_defs x) \<le> def_bitwidth (dtype_defs r))
    \<and> (resolve_mma_scaled_supported_dtype x x_scale y y_scale scaled_acc = Inr () \<longleftrightarrow>
         x = y \<and> x_scale = y_scale \<and> scaled_acc = float32 \<and> (\<exists>sizes. get_mma_scaled_scaling_block_sizes x x_scale = Inr sizes))
    \<and> (\<forall>sizes. get_mma_scaled_scaling_block_sizes x x_scale = Inr sizes \<longrightarrow>
         sizes \<noteq> [] \<and> set sizes \<subseteq> {16, 32} \<and> (def_bitwidth (dtype_defs x) = 8 \<longrightarrow> sizes = [32])
         \<and> is_restricted_float x \<and> is_restricted_float x_scale)"
proof (intro conjI impI allI)
  assume "resolve_mma_supported_dtype x y acc = Inr r"
  then obtain cs where cs: "map_of mma_supported_dtypes x = Some cs"
    and eq: "x = y \<or> {x, y} \<subseteq> {int8, uint8}"
    and acc: "case acc of None \<Rightarrow> r = cs ! 0 | Some a \<Rightarrow> r = a \<and> a \<in> set cs"
    by (auto simp: resolve_mma_supported_dtype_def split: if_splits option.splits)
  have "r \<in> set cs" using acc mma_candidates(1) [OF cs] by (cases acc) auto
  from mma_candidates(2) [OF cs this] show "if is_float x then is_unrestricted_float r else is_integral x \<and> r = int32"
    and "def_bitwidth (dtype_defs x) \<le> def_bitwidth (dtype_defs r)" by blast+
  show "x = y \<or> {x, y} \<subseteq> {int8, uint8}" by (rule eq)
  show "r = a" if "acc = Some a" for a using acc that by simp
next
  show "resolve_mma_scaled_supported_dtype x x_scale y y_scale scaled_acc = Inr () \<longleftrightarrow>
      x = y \<and> x_scale = y_scale \<and> scaled_acc = float32 \<and> (\<exists>sizes. get_mma_scaled_scaling_block_sizes x x_scale = Inr sizes)"
    by (auto simp: resolve_mma_scaled_supported_dtype_def get_mma_scaled_scaling_block_sizes_def
        split: option.splits if_splits dest: scaled_candidates [THEN conjunct1])
next
  fix sizes assume "get_mma_scaled_scaling_block_sizes x x_scale = Inr sizes"
  then obtain cs t where "map_of mma_scaled_supported_dtypes x = Some cs" "map_of cs x_scale = Some (t, sizes)"
    by (auto simp: get_mma_scaled_scaling_block_sizes_def split: option.splits prod.splits)
  from scaled_candidates [OF this] show "sizes \<noteq> []" "set sizes \<subseteq> {16, 32}" "is_restricted_float x" "is_restricted_float x_scale"
    and "def_bitwidth (dtype_defs x) = 8 \<Longrightarrow> sizes = [32]" by blast+
qed

theorem mma_accumulator_witness:
  "(int8 = uint8 \<or> {int8, uint8} \<subseteq> {int8, uint8}) \<and> def_bitwidth (dtype_defs int8) \<le> def_bitwidth (dtype_defs int32)
    \<and> resolve_mma_scaled_supported_dtype float4_e2m1fn float8_e8m0fnu float4_e2m1fn float8_e8m0fnu float32 = Inr ()
    \<and> is_restricted_float float8_e8m0fnu"
proof -
  have "resolve_mma_supported_dtype int8 uint8 None = Inr int32" "get_mma_scaled_scaling_block_sizes float4_e2m1fn float8_e8m0fnu = Inr [16, 32]"
    by code_simp+
  then show ?thesis
    using mma_accumulator [of int8 uint8 None int32 float8_e8m0fnu float8_e8m0fnu float32]
      mma_accumulator [of float4_e2m1fn float4_e2m1fn None float32 float8_e8m0fnu float8_e8m0fnu float32] by blast
qed

end
