(* ===== verification/Shapes.thy ===== *)
theory Shapes
  imports Datatypes
begin

text \<open>
  The shape rules: the two broadcasting routines (\<^verbatim>\<open>_datatype.py\<close>, \<^verbatim>\<open>_ir/ops_utils.py\<close>), the
  broadcast check, and the shapes of \<^verbatim>\<open>reshape\<close> and \<^verbatim>\<open>broadcast_to\<close> in \<^verbatim>\<open>_ir/arithmetic_ops.py\<close>.
\<close>

section \<open>Broadcasting\<close>

text \<open>\<^verbatim>\<open>broadcast_shapes\<close> of \<^verbatim>\<open>_datatype.py\<close>\<close>

definition broadcast_dim :: "int \<Rightarrow> int \<Rightarrow> int res" where
  "broadcast_dim d1 d2 =
     (if d1 \<noteq> d2 then if d1 = 1 then Inr d2 else if d2 = 1 then Inr d1 else Inl TypeError
      else Inr d1)"

definition broadcast_shapes :: "int list \<Rightarrow> int list \<Rightarrow> int list res" where
  "broadcast_shapes s1 s2 =
     (let (s1, s2) = (if length s1 > length s2 then (s2, s1) else (s1, s2));
          s1 = replicate (length s2 - length s1) 1 @ s1
      in map_res (\<lambda>(d1, d2). broadcast_dim d1 d2) (zip s1 s2))"

text \<open>\<^verbatim>\<open>broadcast_shapes2\<close> of \<^verbatim>\<open>_ir/ops_utils.py\<close>, with \<^verbatim>\<open>itertools.zip_longest\<close>.\<close>

fun zip_longest :: "'a \<Rightarrow> 'a list \<Rightarrow> 'a list \<Rightarrow> ('a \<times> 'a) list" where
  "zip_longest fill [] ys = map (\<lambda>y. (fill, y)) ys"
| "zip_longest fill xs [] = map (\<lambda>x. (x, fill)) xs"
| "zip_longest fill (x # xs) (y # ys) = (x, y) # zip_longest fill xs ys"

definition broadcast_dim2 :: "int \<Rightarrow> int \<Rightarrow> int res" where
  "broadcast_dim2 d1 d2 =
     (if d1 \<noteq> d2 \<and> d1 \<noteq> 1 \<and> d2 \<noteq> 1 then Inl BroadcastError else Inr (max d1 d2))"

definition broadcast_shapes2 :: "int list \<Rightarrow> int list \<Rightarrow> int list res" where
  "broadcast_shapes2 s1 s2 =
     and_then (map_res (\<lambda>(d1, d2). broadcast_dim2 d1 d2) (zip_longest 1 (rev s1) (rev s2)))
       (\<lambda>r. Inr (rev r))"

definition is_shape_broadcastable_to :: "int list \<Rightarrow> int list \<Rightarrow> bool" where
  "is_shape_broadcastable_to src dst \<longleftrightarrow>
     length src \<le> length dst \<and> list_all (\<lambda>(x, y). x = y \<or> x = 1) (zip (rev src) (rev dst))"

definition get_default_order :: "nat \<Rightarrow> nat list" where
  "get_default_order rank = [0..<rank]"

section \<open>Reshaping\<close>

text \<open>
  The shape computation of \<^verbatim>\<open>reshape\<close>: the loop over \<^verbatim>\<open>enumerate(new_shape)\<close> carries the index
  of the dimension -1 and the product of the others.
\<close>

fun reshape_scan :: "nat \<Rightarrow> int list \<Rightarrow> nat option \<times> int \<Rightarrow> (nat option \<times> int) res" where
  "reshape_scan i [] st = Inr st"
| "reshape_scan i (d # ds) (neg, numel2) =
     (if d < 0 then
        if d < -1 then Inl TileTypeError
        else if neg \<noteq> None then Inl TileTypeError
        else reshape_scan (i + 1) ds (Some i, numel2)
      else reshape_scan (i + 1) ds (neg, numel2 * d))"

definition reshape_shape :: "int list \<Rightarrow> int list \<Rightarrow> int list res" where
  "reshape_shape x_shape new_shape =
     (let numel = prod_list x_shape
      in and_then (reshape_scan 0 new_shape (None, 1)) (\<lambda>(negative_one_index, numel2).
         case negative_one_index of
           Some i \<Rightarrow>
             if numel2 = 0 \<or> numel mod numel2 \<noteq> 0 then Inl TileTypeError
             else Inr (new_shape[i := numel div numel2])
         | None \<Rightarrow> if numel \<noteq> numel2 then Inl TileTypeError else Inr new_shape))"

text \<open>
  \<^verbatim>\<open>broadcast_to\<close>: the shapes of the operations it adds, a reshape to the padded shape when
  the rank grows and a broadcast when the shape is still another one.
\<close>

datatype shape_op = OpReshape "int list" | OpBroadcast "int list"

definition broadcast_to :: "int list \<Rightarrow> int list \<Rightarrow> shape_op list res" where
  "broadcast_to old_shape shape =
     (if \<not> is_shape_broadcastable_to old_shape shape then Inl TileTypeError
      else
        let padded = replicate (length shape - length old_shape) 1 @ old_shape
        in and_then
             (if length shape > length old_shape then
                and_then (reshape_shape old_shape padded) (\<lambda>s.
                  Inr (if s = old_shape then [] else [OpReshape s]))
              else Inr []) (\<lambda>ops.
           Inr (ops @ (if padded = shape then [] else [OpBroadcast shape]))))"

section \<open>Lemmas\<close>

lemma zip_longest_same: "length xs = length ys \<Longrightarrow> zip_longest f xs ys = zip xs ys"
  by (induction xs ys rule: list_induct2) auto

lemma zip_longest_pad:
  "zip_longest f xs ys =
     zip (xs @ replicate (length ys - length xs) f) (ys @ replicate (length xs - length ys) f)"
  by (induction f xs ys rule: zip_longest.induct)
    (auto simp: zip_replicate1 zip_replicate2 comp_def)

definition pad_shape :: "nat \<Rightarrow> int list \<Rightarrow> int list" where
  "pad_shape n s = replicate (n - length s) 1 @ s"

lemma length_pad_shape [simp]: "length (pad_shape n s) = max n (length s)"
  by (auto simp: pad_shape_def)

lemma zip_longest_shapes:
  "zip_longest 1 (rev s1) (rev s2) =
     rev (zip (pad_shape (length s2) s1) (pad_shape (length s1) s2))"
  unfolding zip_longest_pad pad_shape_def
  by (subst zip_rev [symmetric]) (auto simp: max_def)

lemma map_res_iff: "map_res f xs = Inr ys \<longleftrightarrow> length ys = length xs \<and> (\<forall>i < length xs. f (xs ! i) = Inr (ys ! i))"
proof (induction xs arbitrary: ys)
  case (Cons x xs)
  show ?case
    by (cases ys) (auto simp: and_then_Inr_iff Cons nth_Cons' All_less_Suc2)
qed auto


lemma broadcast_dim_sym: "broadcast_dim a b = broadcast_dim b a"
  by (simp add: broadcast_dim_def)

lemma map_res_zip_sym:
  "(\<And>a b. f a b = f b a) \<Longrightarrow> map_res (\<lambda>(a, b). f a b) (zip xs ys) = map_res (\<lambda>(a, b). f a b) (zip ys xs)"
proof (induction xs arbitrary: ys)
  case (Cons x xs)
  then show ?case by (cases ys) auto
qed simp

lemma broadcast_shapes_padded:
  "broadcast_shapes s1 s2 =
     map_res (\<lambda>(d1, d2). broadcast_dim d1 d2) (zip (pad_shape (length s2) s1) (pad_shape (length s1) s2))"
  using map_res_zip_sym [of broadcast_dim "pad_shape (length s1) s2" s1, OF broadcast_dim_sym]
  by (auto simp: broadcast_shapes_def pad_shape_def)

lemma broadcastable_padded:
  "is_shape_broadcastable_to src dst \<longleftrightarrow> length src \<le> length dst \<and>
     (\<forall>i < length dst. pad_shape (length dst) src ! i = dst ! i \<or> pad_shape (length dst) src ! i = 1)"
proof (cases "length src \<le> length dst")
  case True
  define k where "k = length dst - length src"
  have "zip (rev src) (rev dst) = zip (rev src) (rev (drop k dst))"
  proof -
    have "rev dst = rev (drop k dst) @ rev (take k dst)"
      by (metis append_take_drop_id rev_append)
    then show ?thesis using True by (simp add: zip_append2 k_def)
  qed
  also have "\<dots> = rev (zip src (drop k dst))"
    using True by (simp add: zip_rev k_def)
  finally have "is_shape_broadcastable_to src dst \<longleftrightarrow>
      (\<forall>j < length src. src ! j = dst ! (k + j) \<or> src ! j = 1)"
    using True by (auto simp: is_shape_broadcastable_to_def list_all_iff set_zip k_def)
  also have "\<dots> \<longleftrightarrow> (\<forall>i < length dst. pad_shape (length dst) src ! i = dst ! i \<or> pad_shape (length dst) src ! i = 1)"
  proof -
    have "pad_shape (length dst) src ! i = (if i < k then 1 else src ! (i - k))" for i
      by (simp add: pad_shape_def k_def nth_append)
    moreover have "i < length dst \<longleftrightarrow> i < k \<or> (\<exists>j < length src. i = k + j)" for i
      using True by (auto simp: k_def) presburger
    ultimately show ?thesis by auto
  qed
  finally show ?thesis using True by simp
qed (simp add: is_shape_broadcastable_to_def)

lemma broadcast_shapes_iff:
  "broadcast_shapes s1 s2 = Inr r \<longleftrightarrow>
     length r = max (length s1) (length s2) \<and>
     (\<forall>i < length r. broadcast_dim (pad_shape (length s2) s1 ! i) (pad_shape (length s1) s2 ! i) = Inr (r ! i))"
  unfolding broadcast_shapes_padded map_res_iff by (auto simp: max.commute)


lemma pad_pad: "length s \<le> n \<Longrightarrow> n \<le> m \<Longrightarrow> i < m \<Longrightarrow>
    pad_shape m s ! i = (if i < m - n then 1 else pad_shape n s ! (i - (m - n)))"
proof -
  assume le: "length s \<le> n" "n \<le> m"
  then have "m - length s = (m - n) + (n - length s)" by simp
  then have "pad_shape m s = replicate (m - n) 1 @ pad_shape n s"
    by (simp add: pad_shape_def replicate_add)
  then show ?thesis by (simp add: nth_append)
qed

lemma broadcast_result_broadcastable:
  assumes "broadcast_shapes s1 s2 = Inr r"
  shows "is_shape_broadcastable_to s1 r \<and> is_shape_broadcastable_to s2 r"
proof -
  have pads: "pad_shape (length r) s1 = pad_shape (length s2) s1" "pad_shape (length r) s2 = pad_shape (length s1) s2"
    using assms by (auto simp: broadcast_shapes_iff pad_shape_def max_def)
  show ?thesis
    using assms unfolding broadcastable_padded pads
    by (auto simp: broadcast_shapes_iff broadcast_dim_def split: if_splits)
qed

text \<open>Two shapes seen at the rank of a common target.\<close>

lemma broadcast_common_target:
  assumes "is_shape_broadcastable_to s1 t" "is_shape_broadcastable_to s2 t"
  shows "\<exists>r. broadcast_shapes s1 s2 = Inr r \<and> is_shape_broadcastable_to r t"
proof -
  define n where "n = max (length s1) (length s2)"
  define k where "k = length t - n"
  have le: "length s1 \<le> n" "length s2 \<le> n" "n \<le> length t"
    using assms by (simp_all add: n_def is_shape_broadcastable_to_def)
  have p: "pad_shape (length s2) s1 = pad_shape n s1" "pad_shape (length s1) s2 = pad_shape n s2"
    by (auto simp: n_def pad_shape_def max_def)
  define r where "r = map (\<lambda>i. if pad_shape n s1 ! i = 1 then pad_shape n s2 ! i else pad_shape n s1 ! i) [0..<n]"
  have len: "length r = n" by (simp add: r_def)
  have at: "pad_shape n s ! i = t ! (k + i) \<or> pad_shape n s ! i = 1"
    if "is_shape_broadcastable_to s t" "i < n" "length s \<le> n" for s i
  proof -
    have "k + i < length t" using that(2) le(3) by (simp add: k_def)
    then have "pad_shape (length t) s ! (k + i) = t ! (k + i) \<or> pad_shape (length t) s ! (k + i) = 1"
      using that(1) by (simp add: broadcastable_padded)
    moreover have "pad_shape (length t) s ! (k + i) = pad_shape n s ! i"
      using pad_pad [OF that(3) le(3) \<open>k + i < length t\<close>] by (simp add: k_def)
    ultimately show ?thesis by simp
  qed
  have dims: "broadcast_dim (pad_shape n s1 ! i) (pad_shape n s2 ! i) = Inr (r ! i)
      \<and> (r ! i = t ! (k + i) \<or> r ! i = 1)" if "i < n" for i
    using at [OF assms(1) that le(1)] at [OF assms(2) that le(2)] that
    by (auto simp: broadcast_dim_def r_def)
  have "broadcast_shapes s1 s2 = Inr r"
    unfolding broadcast_shapes_iff p using dims by (simp add: len n_def)
  moreover have "is_shape_broadcastable_to r t"
    unfolding broadcastable_padded len
  proof (intro conjI allI impI)
    fix i assume i: "i < length t"
    have "pad_shape (length t) r ! i = (if i < k then 1 else r ! (i - k))"
      by (simp add: pad_shape_def len k_def nth_append)
    then show "pad_shape (length t) r ! i = t ! i \<or> pad_shape (length t) r ! i = 1"
      using dims [of "i - k"] i le(3) by (auto simp: k_def)
  qed (rule le(3))
  ultimately show ?thesis by blast
qed

lemma map_res_cong_dims:
  "(\<And>a b. (a, b) \<in> set ps \<Longrightarrow> g a b = (case f a b of Inr r \<Rightarrow> Inr r | Inl _ \<Rightarrow> Inl e)) \<Longrightarrow>
     map_res (\<lambda>(a, b). g a b) ps = (case map_res (\<lambda>(a, b). f a b) ps of Inr r \<Rightarrow> Inr r | Inl _ \<Rightarrow> Inl e)"
proof (induction ps)
  case (Cons p ps)
  obtain a b where p: "p = (a, b)" by fastforce
  have "g a b = (case f a b of Inr r \<Rightarrow> Inr r | Inl _ \<Rightarrow> Inl e)" using Cons.prems p by simp
  moreover have "map_res (\<lambda>(a, b). g a b) ps = (case map_res (\<lambda>(a, b). f a b) ps of Inr r \<Rightarrow> Inr r | Inl _ \<Rightarrow> Inl e)"
    using Cons by simp
  ultimately show ?case using p by (auto split: sum.splits)
qed simp

lemma map_res_rev:
  "(\<And>x y. x \<in> set xs \<Longrightarrow> f x = Inl y \<Longrightarrow> y = e) \<Longrightarrow>
     map_res f (rev xs) = (case map_res f xs of Inr r \<Rightarrow> Inr (rev r) | Inl _ \<Rightarrow> Inl e)"
proof (induction xs)
  case (Cons x xs)
  have app: "map_res f (ys @ [x]) = and_then (map_res f ys) (\<lambda>r. and_then (f x) (\<lambda>z. Inr (r @ [z])))" for ys
    by (induction ys) (auto simp: and_then_def split: sum.splits)
  have "map_res f (rev xs) = (case map_res f xs of Inr r \<Rightarrow> Inr (rev r) | Inl _ \<Rightarrow> Inl e)"
    by (rule Cons.IH) (rule Cons.prems, auto)
  moreover have "f x = Inl y \<Longrightarrow> y = e" for y using Cons.prems [of x y] by simp
  ultimately show ?case by (cases "f x"; cases "map_res f xs") (auto simp: app)
qed simp


text \<open>The scan of the requested shape in closed form.\<close>

definition free_dims :: "int list \<Rightarrow> nat" where
  "free_dims ds = length (filter (\<lambda>d. d = -1) ds)"

definition first_free :: "int list \<Rightarrow> nat" where
  "first_free ds = length (takeWhile (\<lambda>d. d \<noteq> -1) ds)"

definition fixed_prod :: "int list \<Rightarrow> int" where
  "fixed_prod ds = prod_list (filter (\<lambda>d. d \<noteq> -1) ds)"

lemma free_dims_0: "free_dims ds = 0 \<longleftrightarrow> -1 \<notin> set ds"
  by (induction ds) (auto simp: free_dims_def)

lemma reshape_scan_eq:
  "reshape_scan i ds (neg, n2) =
     (if (\<forall>d \<in> set ds. -1 \<le> d) \<and> free_dims ds + (if neg = None then 0 else 1) \<le> 1
      then Inr (if free_dims ds = 0 then neg else Some (i + first_free ds), n2 * fixed_prod ds)
      else Inl TileTypeError)"
proof (induction ds arbitrary: i neg n2)
  case (Cons d ds)
  consider "d < -1" | "d = -1" "neg \<noteq> None" | "d = -1" "neg = None" | "d \<ge> 0" by linarith
  then show ?case
  proof cases
    case 3
    then show ?thesis using Cons.IH [of "i + 1" "Some i" n2] free_dims_0 [of ds]
      by (auto simp: free_dims_def first_free_def fixed_prod_def)
  next
    case 4
    then show ?thesis using Cons.IH [of "i + 1" neg "n2 * d"]
      by (auto simp: free_dims_def first_free_def fixed_prod_def mult.assoc)
  qed (auto simp: free_dims_def)
qed (simp add: free_dims_def fixed_prod_def)

lemma first_free_nth: "-1 \<in> set ds \<Longrightarrow> first_free ds < length ds \<and> ds ! first_free ds = -1"
proof (induction ds)
  case (Cons d ds)
  then show ?case by (cases "d = -1") (auto simp: first_free_def)
qed simp

lemma free_dims_1_unique:
  "free_dims ds \<le> 1 \<Longrightarrow> -1 \<in> set ds \<Longrightarrow> i < length ds \<Longrightarrow> ds ! i = -1 \<Longrightarrow> i = first_free ds"
proof (induction ds arbitrary: i)
  case (Cons d ds)
  show ?case
  proof (cases "d = -1")
    case True
    with Cons.prems(1) have "-1 \<notin> set ds" by (simp add: free_dims_def flip: free_dims_0)
    with Cons.prems(3,4) True show ?thesis by (cases i) (auto simp: first_free_def dest: nth_mem)
  next
    case False
    then obtain j where "i = Suc j" using Cons.prems(4) by (cases i) auto
    with False Cons show ?thesis by (auto simp: free_dims_def first_free_def)
  qed
qed simp

lemma prod_list_update_free:
  "free_dims ds \<le> 1 \<Longrightarrow> -1 \<in> set ds \<Longrightarrow> prod_list (ds[first_free ds := x]) = x * fixed_prod ds"
proof (induction ds)
  case (Cons d ds)
  show ?case
  proof (cases "d = -1")
    case True
    with Cons.prems(1) have "-1 \<notin> set ds" by (simp add: free_dims_def flip: free_dims_0)
    then have "filter (\<lambda>d. d \<noteq> -1) ds = ds" by (auto simp: filter_id_conv)
    with True show ?thesis by (simp add: first_free_def fixed_prod_def)
  next
    case False
    with Cons show ?thesis by (simp add: free_dims_def first_free_def fixed_prod_def ac_simps)
  qed
qed simp

lemma fixed_prod_none: "-1 \<notin> set ds \<Longrightarrow> fixed_prod ds = prod_list ds"
  unfolding fixed_prod_def by (rule arg_cong [of _ _ prod_list]) (auto simp: filter_id_conv)

text \<open>\<open>r\<close> fills the dimension -1 of \<open>ds\<close>, of which there is at most one.\<close>

definition refines_shape :: "int list \<Rightarrow> int list \<Rightarrow> bool" where
  "refines_shape ds r \<longleftrightarrow> (\<forall>d \<in> set ds. -1 \<le> d) \<and> free_dims ds \<le> 1 \<and> length r = length ds
     \<and> (\<forall>i < length ds. ds ! i \<noteq> -1 \<longrightarrow> r ! i = ds ! i)"

lemma refines_update:
  assumes "refines_shape ds r" "-1 \<in> set ds"
  shows "r = ds[first_free ds := r ! first_free ds]"
proof (rule nth_equalityI)
  fix i assume i: "i < length r"
  show "r ! i = ds[first_free ds := r ! first_free ds] ! i"
  proof (cases "ds ! i = -1")
    case True
    then have "i = first_free ds"
      using assms i free_dims_1_unique [of ds i] by (simp add: refines_shape_def)
    then show ?thesis using i assms by (simp add: refines_shape_def)
  next
    case False
    then have "i \<noteq> first_free ds" using first_free_nth [OF assms(2)] by auto
    then show ?thesis using assms i False by (simp add: refines_shape_def)
  qed
qed (use assms in \<open>simp add: refines_shape_def\<close>)

lemma prod_list_pos: "(\<forall>d \<in> set xs. (0::int) < d) \<Longrightarrow> 0 < prod_list xs"
  by (induction xs) auto

lemma reshape_shape_iff:
  assumes "\<forall>d \<in> set x_shape. 0 < d"
  shows "reshape_shape x_shape ds = Inr r \<longleftrightarrow> refines_shape ds r \<and> prod_list r = prod_list x_shape"
proof (cases "(\<forall>d \<in> set ds. -1 \<le> d) \<and> free_dims ds \<le> 1")
  case False
  then show ?thesis by (auto simp: reshape_shape_def reshape_scan_eq refines_shape_def)
next
  case ok: True
  let ?n = "prod_list x_shape"
  have n: "0 < ?n" using assms by (rule prod_list_pos)
  show ?thesis
  proof (cases "-1 \<in> set ds")
    case False
    then have "refines_shape ds r \<longleftrightarrow> r = ds"
      using ok by (auto simp: refines_shape_def list_eq_iff_nth_eq) (metis nth_mem)
    then show ?thesis
      using ok False n fixed_prod_none [OF False] free_dims_0 [of ds]
      by (auto simp: reshape_shape_def reshape_scan_eq)
  next
    case True
    note i = first_free_nth [OF True]
    have fd: "free_dims ds \<noteq> 0" using True free_dims_0 by blast
    have eq: "reshape_shape x_shape ds =
        (if fixed_prod ds = 0 \<or> ?n mod fixed_prod ds \<noteq> 0 then Inl TileTypeError
         else Inr (ds[first_free ds := ?n div fixed_prod ds]))"
      using ok fd by (simp add: reshape_shape_def reshape_scan_eq)
    show ?thesis
    proof
      assume "reshape_shape x_shape ds = Inr r"
      then have r: "r = ds[first_free ds := ?n div fixed_prod ds]" and d: "?n mod fixed_prod ds = 0"
        by (auto simp: eq split: if_splits)
      have "prod_list r = ?n"
        using d unfolding r prod_list_update_free [OF conjunct2 [OF ok] True]
        by (metis add.right_neutral mult.commute mult_div_mod_eq)
      moreover have "refines_shape ds r"
        using ok i by (auto simp: r refines_shape_def nth_list_update)
      ultimately show "refines_shape ds r \<and> prod_list r = ?n" by blast
    next
      assume r: "refines_shape ds r \<and> prod_list r = ?n"
      let ?x = "r ! first_free ds"
      have upd: "r = ds[first_free ds := ?x]" using r True refines_update by blast
      then have p: "?x * fixed_prod ds = ?n"
        using prod_list_update_free [OF conjunct2 [OF ok] True, of ?x] r by simp
      with n have "fixed_prod ds \<noteq> 0" by auto
      with p have "?n mod fixed_prod ds = 0" "?n div fixed_prod ds = ?x" by (metis mod_mult_self2_is_0, metis nonzero_mult_div_cancel_right)
      then show "reshape_shape x_shape ds = Inr r"
        using upd \<open>fixed_prod ds \<noteq> 0\<close> by (simp add: eq)
    qed
  qed
qed


lemma prod_list_replicate_one [simp]: "prod_list (replicate n (1::int)) = 1"
  by (induction n) auto

lemma reshape_padded:
  assumes "\<forall>d \<in> set old. 0 \<le> d"
  shows "reshape_shape old (replicate n 1 @ old) = Inr (replicate n 1 @ old)"
proof -
  have "-1 \<notin> set (replicate n 1 @ old)" using assms by auto
  moreover have "\<forall>d \<in> set (replicate n 1 @ old). -1 \<le> d" using assms by force
  ultimately show ?thesis
    using fixed_prod_none [of "replicate n 1 @ old"] free_dims_0 [of "replicate n 1 @ old"]
    by (simp add: reshape_shape_def reshape_scan_eq)
qed

text \<open>What the added operations do to the shape; a broadcast keeps the rank.\<close>

fun run_shape_op :: "shape_op \<Rightarrow> int list \<Rightarrow> int list option" where
  "run_shape_op (OpReshape t) s = (if prod_list t = prod_list s then Some t else None)"
| "run_shape_op (OpBroadcast t) s =
     (if length s = length t \<and> (\<forall>i < length t. s ! i = t ! i \<or> s ! i = 1) then Some t else None)"

fun run_shape_ops :: "shape_op list \<Rightarrow> int list \<Rightarrow> int list option" where
  "run_shape_ops [] s = Some s"
| "run_shape_ops (f # fs) s = Option.bind (run_shape_op f s) (run_shape_ops fs)"

section \<open>Properties of shapes\<close>

text \<open>
  C20. Broadcasting two shapes succeeds exactly when some shape is a target for both, and the
  result is the least such shape: both operands broadcast to it, and it broadcasts to every
  common target.
\<close>

theorem broadcast_least:
  "(\<exists>r. broadcast_shapes s1 s2 = Inr r) = (\<exists>t. is_shape_broadcastable_to s1 t \<and> is_shape_broadcastable_to s2 t)
   \<and> (case broadcast_shapes s1 s2 of Inl e \<Rightarrow> e = TypeError
      | Inr r \<Rightarrow> is_shape_broadcastable_to s1 r \<and> is_shape_broadcastable_to s2 r
         \<and> {t. is_shape_broadcastable_to s1 t} \<inter> {t. is_shape_broadcastable_to s2 t}
             \<subseteq> {t. is_shape_broadcastable_to r t})"
proof -
  have ex: "(\<exists>r. broadcast_shapes s1 s2 = Inr r) = (\<exists>t. is_shape_broadcastable_to s1 t \<and> is_shape_broadcastable_to s2 t)"
    using broadcast_result_broadcastable broadcast_common_target by blast
  have err: "e = TypeError" if "broadcast_shapes s1 s2 = Inl e" for e
  proof -
    have "map_res (\<lambda>(d1, d2). broadcast_dim d1 d2) ps = Inl e \<Longrightarrow> e = TypeError" for ps
      by (induction ps) (auto simp: and_then_Inl_iff broadcast_dim_def split: if_splits)
    then show ?thesis using that by (simp add: broadcast_shapes_padded)
  qed
  show ?thesis
  proof (cases "broadcast_shapes s1 s2")
    case (Inl e)
    then show ?thesis using ex err by simp
  next
    case (Inr r)
    then have "is_shape_broadcastable_to r t"
      if "is_shape_broadcastable_to s1 t" "is_shape_broadcastable_to s2 t" for t
      using broadcast_common_target [OF that] by auto
    then show ?thesis using ex Inr broadcast_result_broadcastable [OF Inr] by auto
  qed
qed

text \<open>
  C34. For positive dimensions the two broadcasting routines agree: the same shape, or an
  error from both.
\<close>

theorem broadcast_variants_agree:
  assumes "\<forall>d \<in> set s1 \<union> set s2. 0 < d"
  shows "broadcast_shapes2 s1 s2 =
     (case broadcast_shapes s1 s2 of Inr r \<Rightarrow> Inr r | Inl _ \<Rightarrow> Inl BroadcastError)"
proof -
  let ?ps = "zip (pad_shape (length s2) s1) (pad_shape (length s1) s2)"
  have pos: "0 < a \<and> 0 < b" if "(a, b) \<in> set ?ps" for a b
    using set_zip_leftD [OF that] set_zip_rightD [OF that] assms
    by (auto simp: pad_shape_def split: if_splits)
  have dims: "map_res (\<lambda>(d1, d2). broadcast_dim2 d1 d2) ?ps =
      (case map_res (\<lambda>(d1, d2). broadcast_dim d1 d2) ?ps of Inr r \<Rightarrow> Inr r | Inl _ \<Rightarrow> Inl BroadcastError)"
    using pos by (intro map_res_cong_dims) (fastforce simp: broadcast_dim2_def broadcast_dim_def)
  have "broadcast_shapes2 s1 s2 =
      and_then (map_res (\<lambda>(d1, d2). broadcast_dim2 d1 d2) (rev ?ps)) (\<lambda>r. Inr (rev r))"
    by (simp add: broadcast_shapes2_def zip_longest_shapes)
  also have "map_res (\<lambda>(d1, d2). broadcast_dim2 d1 d2) (rev ?ps) =
      (case map_res (\<lambda>(d1, d2). broadcast_dim2 d1 d2) ?ps of Inr r \<Rightarrow> Inr (rev r) | Inl _ \<Rightarrow> Inl BroadcastError)"
    by (rule map_res_rev) (auto simp: broadcast_dim2_def split: if_splits)
  finally show ?thesis
    unfolding dims broadcast_shapes_padded by (simp split: sum.splits)
qed

theorem broadcast_variants_agree_witness:
  "broadcast_shapes2 [8, 1] [3, 1, 4] = Inr [3, 8, 4]"
  using broadcast_variants_agree [of "[8, 1]" "[3, 1, 4]"]
  by (simp add: broadcast_shapes_def broadcast_dim_def)

text \<open>
  C19. Reshaping: for a shape of positive dimensions, a request is accepted exactly when its
  dimensions are at least -1, at most one is -1, and the -1 can be filled so that the number
  of elements is kept; the result is that filled shape.
\<close>

theorem reshape_exact:
  assumes "\<forall>d \<in> set x_shape. 0 < d"
  shows "reshape_shape x_shape new_shape = Inr r \<longleftrightarrow>
     refines_shape new_shape r \<and> prod_list r = prod_list x_shape"
  by (rule reshape_shape_iff [OF assms])

theorem reshape_exact_witness:
  "reshape_shape [4, 6] [2, -1, 3] = Inr [2, 4, 3] \<longleftrightarrow>
     refines_shape [2, -1, 3] [2, 4, 3] \<and> prod_list [2, 4, 3] = prod_list [4, 6 :: int]"
  by (rule reshape_exact) simp

text \<open>
  C35. \<^verbatim>\<open>broadcast_to\<close> is total on broadcastable shapes: it never fails in its inner reshape,
  and the operations it adds are legal and end in the requested shape.
\<close>

theorem broadcast_to_reaches:
  assumes "is_shape_broadcastable_to old_shape shape" and "\<forall>d \<in> set old_shape. 0 \<le> d"
  shows "\<exists>ops. broadcast_to old_shape shape = Inr ops \<and> run_shape_ops ops old_shape = Some shape"
proof -
  let ?n = "length shape - length old_shape"
  let ?p = "replicate ?n 1 @ old_shape"
  have len: "length old_shape \<le> length shape" and
    dims: "\<forall>i < length shape. ?p ! i = shape ! i \<or> ?p ! i = 1"
    using assms(1) by (simp_all add: broadcastable_padded pad_shape_def)
  have b: "run_shape_ops (if ?p = shape then [] else [OpBroadcast shape]) ?p = Some shape"
    using len dims by simp
  show ?thesis
  proof (cases "length shape > length old_shape")
    case True
    then show ?thesis
      using assms b reshape_padded [OF assms(2), of ?n] by (simp add: broadcast_to_def Let_def)
  next
    case False
    then have "?p = old_shape" using len by simp
    then show ?thesis using assms(1) b False by (simp add: broadcast_to_def Let_def)
  qed
qed

theorem broadcast_to_reaches_witness:
  "\<exists>ops. broadcast_to [4] [2, 4] = Inr ops \<and> run_shape_ops ops [4] = Some [2, 4]"
  by (rule broadcast_to_reaches) (simp_all add: is_shape_broadcastable_to_def)

end
