(* ===== verification/TileArith.thy ===== *)
theory TileArith
  imports Shapes "HOL-Library.Signed_Division"
begin

text \<open>
  The tables and checks of \<^verbatim>\<open>_ir/ops_utils.py\<close> (constant folding, rounding modes, memory
  order and scope) and the element arithmetic of \<^verbatim>\<open>_ir/arithmetic_ops.py\<close> that is more than
  one target operation: the floored remainder and the complement.
\<close>

section \<open>Constant folding of integers\<close>

text \<open>
  The integer fallbacks of \<^verbatim>\<open>BINOP_REGISTRY\<close>, run under \<^verbatim>\<open>reraise_tile_exception\<close>.
\<close>

datatype int_binop =
    AddI | SubI | MulI | FloorDivI | CDivI | ModI | MaxI | MinI | AndI | OrI | XorI | LShiftI | RShiftI

definition py_floordiv :: "int \<Rightarrow> int \<Rightarrow> int res" where
  "py_floordiv x y = (if y = 0 then Inl ZeroDivisionError else Inr (x div y))"

fun binop_impl :: "int_binop \<Rightarrow> int \<Rightarrow> int \<Rightarrow> int res" where
  "binop_impl AddI x y = Inr (x + y)"
| "binop_impl SubI x y = Inr (x - y)"
| "binop_impl MulI x y = Inr (x * y)"
| "binop_impl FloorDivI x y = py_floordiv x y"
| "binop_impl CDivI x y = py_floordiv (x + y - 1) y"
| "binop_impl ModI x y = (if y = 0 then Inl ZeroDivisionError else Inr (x mod y))"
| "binop_impl MaxI x y = Inr (max x y)"
| "binop_impl MinI x y = Inr (min x y)"
| "binop_impl AndI x y = Inr (x AND y)"
| "binop_impl OrI x y = Inr (x OR y)"
| "binop_impl XorI x y = Inr (x XOR y)"
| "binop_impl LShiftI x y = (if y < 0 then Inl ValueError else Inr (push_bit (nat y) x))"
| "binop_impl RShiftI x y = (if y < 0 then Inl ValueError else Inr (drop_bit (nat y) x))"

definition reraise_tile_exception :: "'a res \<Rightarrow> 'a res" where
  "reraise_tile_exception m =
     (case m of Inr x \<Rightarrow> Inr x
      | Inl e \<Rightarrow> Inl (if e \<in> {ZeroDivisionError, ValueError} then TileValueError
                      else if e = TypeError then TileTypeError else e))"

definition binop_propagate_constant :: "int_binop \<Rightarrow> int \<Rightarrow> int \<Rightarrow> int res" where
  "binop_propagate_constant fn x y = reraise_tile_exception (binop_impl fn x y)"

text \<open>The host function \<^verbatim>\<open>cdiv\<close> of \<^verbatim>\<open>_stub.py\<close>.\<close>

definition cdiv_host :: "int \<Rightarrow> int \<Rightarrow> int res" where
  "cdiv_host x y = and_then (py_floordiv (x - 1) y) (\<lambda>q. Inr (q + 1))"

definition ceil_div :: "int \<Rightarrow> int \<Rightarrow> int" where
  "ceil_div x y = - ((- x) div y)"

lemma cdiv_pos: "0 < y \<Longrightarrow> (x + y - 1) div y = ceil_div x (y :: int)"
proof -
  assume y: "0 < y"
  define q r where "q = x div y" and "r = x mod y"
  have x: "x = q * y + r" "0 \<le> r" "r < y" using y by (simp_all add: q_def r_def)
  show ?thesis
  proof (cases "r = 0")
    case True
    have "(x + y - 1) div y = q" using y x True
      by (intro div_pos_pos_trivial [THEN trans] int_div_pos_eq [of _ _ _ "y - 1"]) (auto simp: algebra_simps)
    moreover have "(- x) div y = - q"
      using y True by (simp add: x(1) minus_mult_left del: mult_minus_left)
    ultimately show ?thesis by (simp add: ceil_div_def)
  next
    case False
    have "(x + y - 1) div y = q + 1" using y x False
      by (intro int_div_pos_eq [of _ _ _ "r - 1"]) (auto simp: algebra_simps)
    moreover have "(- x) div y = - q - 1" using y x False
      by (intro int_div_pos_eq [of _ _ _ "y - r"]) (auto simp: algebra_simps)
    ultimately show ?thesis by (simp add: ceil_div_def)
  qed
qed

lemma cdiv_neg:
  assumes "y < (0 :: int)"
  shows "(x + y - 1) div y = ceil_div x y \<longleftrightarrow> \<not> y dvd x \<and> \<not> y dvd (x - 1)"
proof -
  define m where "m = - y"
  have m: "0 < m" and y: "y = - m" using assms by (simp_all add: m_def)
  define q r where "q = (- x) div m" and "r = (- x) mod m"
  have x: "- x = q * m + r" "0 \<le> r" "r < m" using m by (simp_all add: q_def r_def)
  have lhs: "(x + y - 1) div y = (- x + m + 1) div m"
    using div_minus_minus [of "- x + m + 1" m] by (simp add: y algebra_simps)
  have up: "ceil_div x y = - ((x) div m)"
    using div_minus_minus [of x m] by (simp add: ceil_div_def y)
  have d1: "y dvd x \<longleftrightarrow> r = 0" 
  proof -
    have "y dvd x \<longleftrightarrow> m dvd (- x)" by (simp add: y)
    then show ?thesis by (simp only: dvd_eq_mod_eq_0 r_def)
  qed
  have d2: "y dvd (x - 1) \<longleftrightarrow> (r + 1) mod m = 0"
  proof -
    have "m dvd (x - 1) \<longleftrightarrow> m dvd (- x + 1)" using dvd_minus_iff [of m "x - 1"] by simp
    also have "\<dots> \<longleftrightarrow> (r + 1) mod m = 0" by (simp add: dvd_eq_mod_eq_0 r_def mod_simps)
    finally show ?thesis by (simp add: y)
  qed
  have c: "- (x div m) = (if r = 0 then q else q + 1)"
  proof (cases "r = 0")
    case True
    have "x = (- q) * m" using x(1) True by simp
    then have "x div m = - q" using m by (metis nonzero_mult_div_cancel_right less_irrefl)
    then show ?thesis using True by simp
  next
    case False
    have "x div m = - q - 1" using m x False
      by (intro int_div_pos_eq [of _ _ _ "m - r"]) (auto simp: algebra_simps)
    then show ?thesis using False by simp
  qed
  have l: "(- x + m + 1) div m = q + 1 + (r + 1) div m"
  proof -
    have "- x + m + 1 = (r + 1) + (q + 1) * m" by (simp add: x(1) algebra_simps)
    then show ?thesis using m div_mult_self1 [of m "r + 1" "q + 1"] by (simp only: less_irrefl)
  qed
  have lhs': "(x + y - 1) div y = q + 1 + (r + 1) div m" by (simp only: lhs l)
  show ?thesis
  proof (cases "r + 1 = m")
    case True
    then show ?thesis using m by (simp add: lhs' up c d1 d2)
  next
    case False
    then have "(r + 1) div m = 0" "(r + 1) mod m = r + 1" using x by simp_all
    then show ?thesis using x by (auto simp: lhs' up c d1 d2)
  qed
qed


section \<open>Rounding modes and flush-to-zero\<close>

datatype PyRoundingMode = Rnd_RN | Rnd_RZ | Rnd_RM | Rnd_RP | Rnd_FULL | Rnd_APPROX | Rnd_RZI

record MathOpDef =
  supported_rounding_modes :: "(PyRoundingMode \<times> bytecode_version option) list"
  support_flush_to_zero :: bool

definition RD_BASIC :: "(PyRoundingMode \<times> bytecode_version option) list" where
  "RD_BASIC = [(Rnd_RN, None), (Rnd_RZ, None), (Rnd_RM, None), (Rnd_RP, None)]"

definition RD_TRUEDIV :: "(PyRoundingMode \<times> bytecode_version option) list" where
  "RD_TRUEDIV = RD_BASIC @ [(Rnd_FULL, None), (Rnd_APPROX, None)]"

definition RD_SQRT :: "(PyRoundingMode \<times> bytecode_version option) list" where
  "RD_SQRT = RD_BASIC @ [(Rnd_APPROX, None)]"

definition RD_TANH :: "(PyRoundingMode \<times> bytecode_version option) list" where
  "RD_TANH = [(Rnd_FULL, None), (Rnd_APPROX, Some V_13_2)]"

definition RD_EXP :: "(PyRoundingMode \<times> bytecode_version option) list" where
  "RD_EXP = [(Rnd_FULL, None), (Rnd_APPROX, Some V_13_3)]"

definition op_def :: "(PyRoundingMode \<times> bytecode_version option) list \<Rightarrow> bool \<Rightarrow> MathOpDef" where
  "op_def modes ftz = \<lparr>supported_rounding_modes = modes, support_flush_to_zero = ftz\<rparr>"

definition binop_base :: "(string \<times> MathOpDef) list" where
  "binop_base =
     [(''add'', op_def RD_BASIC True), (''sub'', op_def RD_BASIC True), (''mul'', op_def RD_BASIC True),
      (''floordiv'', op_def [] False), (''cdiv'', op_def [] False), (''truediv'', op_def RD_TRUEDIV True),
      (''mod'', op_def [] False), (''pow'', op_def [] False), (''atan2'', op_def [] False),
      (''max'', op_def [] True), (''min'', op_def [] True), (''and_'', op_def [] False),
      (''or_'', op_def [] False), (''xor'', op_def [] False), (''eq'', op_def [] False),
      (''ne'', op_def [] False), (''ge'', op_def [] False), (''gt'', op_def [] False),
      (''le'', op_def [] False), (''lt'', op_def [] False), (''is'', op_def [] False),
      (''lshift'', op_def [] False), (''rshift'', op_def [] False)]"

text \<open>The loop that adds the in-place names.\<close>

definition BINOP_REGISTRY :: "(string \<times> MathOpDef) list" where
  "BINOP_REGISTRY = binop_base @
     concat (map (\<lambda>name. case map_of binop_base name of Some d \<Rightarrow> [(''i'' @ name, d)] | None \<Rightarrow> [])
       [''add'', ''sub'', ''mul'', ''truediv'', ''floordiv'', ''mod'', ''pow'', ''and_'', ''or_'', ''xor''])"

definition UNARYOP_REGISTRY :: "(string \<times> MathOpDef) list" where
  "UNARYOP_REGISTRY =
     [(''abs'', op_def [] False), (''neg'', op_def [] False), (''exp'', op_def RD_EXP False),
      (''exp2'', op_def [] True), (''sin'', op_def [] False), (''sinh'', op_def [] False),
      (''cos'', op_def [] False), (''cosh'', op_def [] False), (''tan'', op_def [] False),
      (''tanh'', op_def RD_TANH False), (''log'', op_def [] False), (''log2'', op_def [] False),
      (''sqrt'', op_def RD_SQRT True), (''rsqrt'', op_def [] True), (''invert'', op_def [] False),
      (''bitwise_not'', op_def [] False), (''not_'', op_def [] False), (''floor'', op_def [] False),
      (''ceil'', op_def [] False), (''isnan'', op_def [] False)]"

definition get_default_rounding_mode :: "string \<Rightarrow> PyRoundingMode" where
  "get_default_rounding_mode opname = (if opname \<in> {''tanh'', ''exp''} then Rnd_FULL else Rnd_RN)"

fun rounding_mode_to_bytecode :: "PyRoundingMode \<Rightarrow> RoundingMode" where
  "rounding_mode_to_bytecode Rnd_RN = RM_NEAREST_EVEN"
| "rounding_mode_to_bytecode Rnd_RZ = RM_ZERO"
| "rounding_mode_to_bytecode Rnd_RM = RM_NEGATIVE_INF"
| "rounding_mode_to_bytecode Rnd_RP = RM_POSITIVE_INF"
| "rounding_mode_to_bytecode Rnd_FULL = RM_FULL"
| "rounding_mode_to_bytecode Rnd_APPROX = RM_APPROX"
| "rounding_mode_to_bytecode Rnd_RZI = RM_NEAREST_INT_TO_ZERO"

definition check_rounding ::
  "MathOpDef \<Rightarrow> PyRoundingMode option \<Rightarrow> DType \<Rightarrow> bytecode_version \<Rightarrow> unit res" where
  "check_rounding math_op_def rounding_mode dtype cur_version =
     (case rounding_mode of None \<Rightarrow> Inr ()
      | Some rm \<Rightarrow>
        (case map_of (supported_rounding_modes math_op_def) rm of
           None \<Rightarrow> Inl TileTypeError
         | Some min_version \<Rightarrow>
             if (case min_version of None \<Rightarrow> False | Some v \<Rightarrow> cur_version < v)
             then Inl TileUnsupportedFeatureError
             else if \<not> is_unrestricted_float dtype then Inl TileTypeError
             else if rm \<in> {Rnd_APPROX, Rnd_FULL} \<and> dtype \<noteq> float32 then Inl TileTypeError
             else Inr ()))"

definition check_rd_and_ftz ::
  "string \<Rightarrow> PyRoundingMode option \<Rightarrow> bool \<Rightarrow> DType \<Rightarrow> bytecode_version \<Rightarrow> unit res" where
  "check_rd_and_ftz fn rounding_mode flush_to_zero dtype cur_version =
     (if rounding_mode = None \<and> \<not> flush_to_zero then Inr ()
      else
        and_then
          (case map_of BINOP_REGISTRY fn of Some d \<Rightarrow> Inr d
           | None \<Rightarrow> (case map_of UNARYOP_REGISTRY fn of Some d \<Rightarrow> Inr d | None \<Rightarrow> Inl KeyError))
          (\<lambda>math_op_def.
        and_then (check_rounding math_op_def rounding_mode dtype cur_version) (\<lambda>_.
          if flush_to_zero then
            if \<not> support_flush_to_zero math_op_def then Inl TileTypeError
            else if dtype \<noteq> float32 then Inl TileTypeError
            else Inr ()
          else Inr ())))"

section \<open>Memory order and scope\<close>

datatype PyMemoryScope = SCOPE_NONE | SCOPE_BLOCK | SCOPE_CLUSTER | SCOPE_DEVICE | SCOPE_SYS

datatype PyMemoryOrder = ORDER_WEAK | ORDER_RELAXED | ORDER_ACQUIRE | ORDER_RELEASE | ORDER_ACQ_REL

text \<open>A dictionary lookup: a missing key raises KeyError.\<close>

fun memory_scope_to_bytecode :: "PyMemoryScope \<Rightarrow> MemoryScope option res" where
  "memory_scope_to_bytecode SCOPE_NONE = Inr None"
| "memory_scope_to_bytecode SCOPE_BLOCK = Inr (Some MSC_TL_BLK)"
| "memory_scope_to_bytecode SCOPE_DEVICE = Inr (Some MSC_DEVICE)"
| "memory_scope_to_bytecode SCOPE_SYS = Inr (Some MSC_SYS)"
| "memory_scope_to_bytecode SCOPE_CLUSTER = Inl KeyError"

fun memory_order_to_bytecode :: "PyMemoryOrder \<Rightarrow> MemoryOrderingSemantics" where
  "memory_order_to_bytecode ORDER_WEAK = MOS_WEAK"
| "memory_order_to_bytecode ORDER_RELAXED = MOS_RELAXED"
| "memory_order_to_bytecode ORDER_ACQUIRE = MOS_ACQUIRE"
| "memory_order_to_bytecode ORDER_RELEASE = MOS_RELEASE"
| "memory_order_to_bytecode ORDER_ACQ_REL = MOS_ACQ_REL"

definition memory_order_has_acquire :: "PyMemoryOrder \<Rightarrow> bool" where
  "memory_order_has_acquire mo \<longleftrightarrow> mo \<in> {ORDER_ACQUIRE, ORDER_ACQ_REL}"

definition memory_order_has_release :: "PyMemoryOrder \<Rightarrow> bool" where
  "memory_order_has_release mo \<longleftrightarrow> mo \<in> {ORDER_RELEASE, ORDER_ACQ_REL}"

text \<open>The operation classes that declare valid orders and scopes.\<close>

datatype memory_op_class =
    ClsTileLoad | ClsTileStore | ClsTileAtomicCAS | ClsTileAtomicRMW | ClsTileAtomicRedView

fun VALID_MEMORY_ORDERS :: "memory_op_class \<Rightarrow> PyMemoryOrder list" where
  "VALID_MEMORY_ORDERS ClsTileLoad = [ORDER_RELAXED, ORDER_ACQUIRE, ORDER_WEAK]"
| "VALID_MEMORY_ORDERS ClsTileStore = [ORDER_RELAXED, ORDER_RELEASE, ORDER_WEAK]"
| "VALID_MEMORY_ORDERS ClsTileAtomicCAS = [ORDER_RELAXED, ORDER_ACQUIRE, ORDER_RELEASE, ORDER_ACQ_REL]"
| "VALID_MEMORY_ORDERS ClsTileAtomicRMW = [ORDER_RELAXED, ORDER_ACQUIRE, ORDER_RELEASE, ORDER_ACQ_REL]"
| "VALID_MEMORY_ORDERS ClsTileAtomicRedView = [ORDER_RELAXED]"

fun VALID_MEMORY_SCOPES :: "memory_op_class \<Rightarrow> PyMemoryScope list" where
  "VALID_MEMORY_SCOPES ClsTileAtomicRedView = [SCOPE_BLOCK, SCOPE_DEVICE]"
| "VALID_MEMORY_SCOPES c = [SCOPE_NONE, SCOPE_BLOCK, SCOPE_DEVICE, SCOPE_SYS]"

definition validate_memory_order_and_scope ::
  "PyMemoryOrder \<Rightarrow> PyMemoryScope \<Rightarrow> memory_op_class \<Rightarrow> unit res" where
  "validate_memory_order_and_scope mo ms c =
     (if mo \<notin> set (VALID_MEMORY_ORDERS c) then Inl TileTypeError
      else if ms \<notin> set (VALID_MEMORY_SCOPES c) then Inl TileTypeError
      else if mo = ORDER_WEAK \<and> ms \<noteq> SCOPE_NONE then Inl TileTypeError
      else if mo \<noteq> ORDER_WEAK \<and> ms = SCOPE_NONE then Inl TileTypeError
      else Inr ())"

section \<open>Element operations on words\<close>

text \<open>
  \<^verbatim>\<open>mod_tensorlike_raw\<close> on one element. The remainder operation of the target is a
  parameter; comparisons are signed or unsigned with the data type.
\<close>

definition elt_lt :: "bool \<Rightarrow> 'a :: len word \<Rightarrow> 'a word \<Rightarrow> bool" where
  "elt_lt s x y = (if s then sint x < sint y else uint x < uint y)"

definition mod_tensorlike_raw ::
  "('a :: len word \<Rightarrow> 'a word \<Rightarrow> 'a word) \<Rightarrow> bool \<Rightarrow> 'a word \<Rightarrow> 'a word \<Rightarrow> 'a word" where
  "mod_tensorlike_raw c_mod s x y =
     (let value = c_mod x y;
          value_sign = elt_lt s value 0;
          y_sign = elt_lt s y 0;
          sign_mismatch = (value_sign \<noteq> y_sign);
          value_not_zero = (value \<noteq> 0);
          need_fix = (sign_mismatch \<and> value_not_zero);
          fixed_value = value + y
      in if need_fix then fixed_value else value)"

text \<open>The constant of \<^verbatim>\<open>invert\<close>/\<^verbatim>\<open>bitwise_not\<close> and the exclusive or with it.\<close>

definition all_ones :: "bool \<Rightarrow> nat \<Rightarrow> int" where
  "all_ones s w = (if s then -1 else NOT (push_bit w (-1)))"

definition invert_elt :: "bool \<Rightarrow> 'a :: len word \<Rightarrow> 'a word" where
  "invert_elt s x = x XOR word_of_int (all_ones s LENGTH('a))"


section \<open>Lemmas on words\<close>

lemma sint_plus_in_range:
  fixes a b :: "'a :: len word"
  assumes "- (2 ^ (LENGTH('a) - 1)) \<le> sint a + sint b" and "sint a + sint b < 2 ^ (LENGTH('a) - 1)"
  shows "sint (a + b) = sint a + sint b"
  using assms by (simp add: sint_word_ariths(1) signed_take_bit_int_eq_self)

lemma smod_floor:
  fixes x y :: int
  assumes "y \<noteq> 0"
  shows "(if (x smod y < 0) \<noteq> (y < 0) \<and> x smod y \<noteq> 0 then x smod y + y else x smod y) = x mod y"
proof -
  define r where "r = \<bar>x\<bar> mod \<bar>y\<bar>"
  have r: "0 \<le> r" and d: "r = 0 \<longleftrightarrow> y dvd x"
    using assms by (simp_all add: r_def flip: dvd_eq_mod_eq_0)
  have s: "x smod y = sgn x * r" by (simp add: smod_int_alt_def r_def)
  have z: "x = 0 \<Longrightarrow> r = 0" by (simp add: r_def)
  show ?thesis
    unfolding modulo_int_eq_signed_modulo_int [of x y] s
    using r d z assms by (cases x "0 :: int" rule: linorder_cases; cases y "0 :: int" rule: linorder_cases) auto
qed

lemma smod_bound: "y \<noteq> 0 \<Longrightarrow> \<bar>x smod y\<bar> < \<bar>y :: int\<bar>"
  by (auto simp: smod_int_alt_def abs_mult sgn_if)

section \<open>Properties\<close>

text \<open>
  C37. The folded \<^verbatim>\<open>cdiv\<close> is the ceiling of the quotient for every positive divisor; for a
  negative divisor it is so only when the divisor divides neither the dividend nor the
  dividend minus one. The host function gives the same value as the folding.
\<close>

theorem cdiv_constant:
  assumes "y \<noteq> 0"
  shows "\<exists>q. binop_propagate_constant CDivI x y = Inr q \<and> cdiv_host x y = Inr q \<and>
     (q = ceil_div x y \<longleftrightarrow> 0 < y \<or> (\<not> y dvd x \<and> \<not> y dvd (x - 1)))"
proof (intro exI conjI)
  show "binop_propagate_constant CDivI x y = Inr ((x + y - 1) div y)"
    using assms by (simp add: binop_propagate_constant_def reraise_tile_exception_def py_floordiv_def)
  have "(x - 1) div y + 1 = (x + y - 1) div y"
    using assms div_add_self2 [of y "x - 1"] by (simp add: algebra_simps)
  then show "cdiv_host x y = Inr ((x + y - 1) div y)"
    using assms by (simp add: cdiv_host_def py_floordiv_def)
  show "(x + y - 1) div y = ceil_div x y \<longleftrightarrow> 0 < y \<or> (\<not> y dvd x \<and> \<not> y dvd (x - 1))"
    using assms cdiv_pos [of y x] cdiv_neg [of y x] by (cases "0 < y") auto
qed

theorem cdiv_constant_witness:
  "\<exists>q. binop_propagate_constant CDivI 4 (-2) = Inr q \<and> q \<noteq> ceil_div 4 (-2)"
  using cdiv_constant [of "-2" 4] by auto

text \<open>
  C24. The corrected remainder is Python's: for signed elements, with a target remainder that
  truncates, the result is the floored remainder, whose sign is that of the divisor, and
  the corrective addition never wraps around.
\<close>

theorem mod_tensorlike_floors:
  fixes x y :: "'a :: len word"
  assumes "y \<noteq> 0" and "sint (c_mod x y) = sint x smod sint y"
  shows "sint (mod_tensorlike_raw c_mod True x y) = sint x mod sint y"
proof -
  have y: "sint y \<noteq> 0" using assms(1) by (metis signed_0 word_eq_iff_signed)
  let ?v = "c_mod x y"
  have zero: "?v = 0 \<longleftrightarrow> sint x smod sint y = 0" using assms(2) by (metis signed_0 word_eq_iff_signed)
  have add: "sint (?v + y) = sint x smod sint y + sint y"
    if "(sint x smod sint y < 0) \<noteq> (sint y < 0)"
  proof (subst assms(2) [symmetric], rule sint_plus_in_range)
    have b: "\<bar>sint ?v\<bar> < \<bar>sint y\<bar>" using smod_bound [OF y] assms(2) by simp
    show "- (2 ^ (LENGTH('a) - 1)) \<le> sint ?v + sint y" "sint ?v + sint y < 2 ^ (LENGTH('a) - 1)"
      using b that assms(2) sint_greater_eq [of y] sint_less [of y] by (auto split: abs_split)
  qed
  let ?fix = "(sint x smod sint y < 0) \<noteq> (sint y < 0) \<and> sint x smod sint y \<noteq> 0"
  have cond: "((elt_lt True ?v 0 \<noteq> elt_lt True y 0) \<and> ?v \<noteq> 0) \<longleftrightarrow> ?fix"
    using zero by (simp add: elt_lt_def assms(2))
  have "sint (mod_tensorlike_raw c_mod True x y) = (if ?fix then sint (?v + y) else sint ?v)"
    by (simp only: mod_tensorlike_raw_def Let_def cond if_distrib [of sint])
  also have "\<dots> = (if ?fix then sint x smod sint y + sint y else sint x smod sint y)"
    using add assms(2) by (simp only: if_True if_False split: if_split) blast
  also have "\<dots> = sint x mod sint y" by (rule smod_floor [OF y])
  finally show ?thesis .
qed

theorem mod_tensorlike_floors_witness:
  "sint (mod_tensorlike_raw (\<lambda>a b. word_of_int (sint a smod sint b)) True (-7 :: 8 word) 3) = 2"
proof -
  have "sint (word_of_int (sint (-7 :: 8 word) smod sint (3 :: 8 word)) :: 8 word) =
      sint (-7 :: 8 word) smod sint (3 :: 8 word)" by code_simp
  from mod_tensorlike_floors [of 3 "\<lambda>a b. word_of_int (sint a smod sint b)" "-7 :: 8 word", OF _ this]
  show ?thesis by simp
qed

text \<open>
  C36. The exclusive or with the constant that \<^verbatim>\<open>invert\<close> emits is the bitwise complement, for
  signed and unsigned elements of every width.
\<close>

theorem invert_is_complement: "invert_elt s x = NOT x"
proof -
  have "(word_of_int (all_ones s LENGTH('a)) :: 'a word) = - 1"
    by (rule bit_word_eqI) (auto simp: all_ones_def bit_simps)
  then show ?thesis by (simp add: invert_elt_def)
qed

lemma check_rounding_later: "check_rounding d rm dtype v = Inr () \<Longrightarrow> v \<le> v' \<Longrightarrow> check_rounding d rm dtype v' = Inr ()"
  by (auto simp: check_rounding_def split: option.splits if_splits)

lemma no_nearest_int:
  assumes "map_of (BINOP_REGISTRY @ UNARYOP_REGISTRY) fn = Some d"
  shows "map_of (supported_rounding_modes d) Rnd_RZI = None"
proof -
  have "list_all (\<lambda>(n, d). map_of (supported_rounding_modes d) Rnd_RZI = None) (BINOP_REGISTRY @ UNARYOP_REGISTRY)"
    by code_simp
  then show ?thesis using map_of_SomeD [OF assms] by (auto simp: list_all_iff)
qed

text \<open>
  C38. A rounding mode or flush-to-zero that passes the check is usable: the registries define
  the operation, the operation lists the rounding mode and the target version is not below the
  one the mode needs, the operation supports flush-to-zero where that is requested, the data
  type is an unrestricted float for every rounding mode, and approximate and full precision as
  well as flush-to-zero are limited to float32. No operation accepts rounding to the nearest
  integer. A check that passes for a version passes for every later one.
\<close>

theorem rounding_check_sound:
  assumes "check_rd_and_ftz fn rm ftz dtype v = Inr ()" and "v \<le> v'"
  shows "(rm \<noteq> None \<or> ftz \<longrightarrow>
      (\<exists>d. map_of (BINOP_REGISTRY @ UNARYOP_REGISTRY) fn = Some d
         \<and> (\<forall>mode. rm = Some mode \<longrightarrow>
              (\<exists>required. (mode, required) \<in> set (supported_rounding_modes d) \<and> (\<forall>w. required = Some w \<longrightarrow> w \<le> v)))
         \<and> (ftz \<longrightarrow> support_flush_to_zero d)))
    \<and> (rm \<noteq> None \<longrightarrow> is_unrestricted_float dtype) \<and> (rm \<in> {Some Rnd_APPROX, Some Rnd_FULL} \<longrightarrow> dtype = float32)
    \<and> (ftz \<longrightarrow> dtype = float32) \<and> rm \<noteq> Some Rnd_RZI
    \<and> check_rd_and_ftz fn rm ftz dtype v' = Inr ()"
proof (cases "rm = None \<and> \<not> ftz")
  case True
  then show ?thesis by (simp add: check_rd_and_ftz_def)
next
  case False
  with assms(1) obtain d where d: "map_of (BINOP_REGISTRY @ UNARYOP_REGISTRY) fn = Some d"
    and look: "(case map_of BINOP_REGISTRY fn of Some d \<Rightarrow> Inr d
         | None \<Rightarrow> (case map_of UNARYOP_REGISTRY fn of Some d \<Rightarrow> Inr d | None \<Rightarrow> Inl KeyError)) = Inr d"
    and chk: "check_rounding d rm dtype v = Inr ()"
    and ftz: "ftz \<longrightarrow> support_flush_to_zero d \<and> dtype = float32"
    by (auto simp: check_rd_and_ftz_def and_then_Inr_iff map_add_def split: option.splits if_splits)
  have "\<exists>required. (mode, required) \<in> set (supported_rounding_modes d) \<and> (\<forall>w. required = Some w \<longrightarrow> w \<le> v)"
    if "rm = Some mode" for mode
    using chk that by (auto simp: check_rounding_def not_less split: option.splits if_splits dest!: map_of_SomeD)
  moreover have "check_rd_and_ftz fn rm ftz dtype v' = Inr ()"
    using False look check_rounding_later [OF chk assms(2)] ftz by (simp add: check_rd_and_ftz_def)
  moreover have "rm \<noteq> Some Rnd_RZI"
    using chk no_nearest_int [OF d] by (auto simp: check_rounding_def)
  moreover have "(rm \<noteq> None \<longrightarrow> is_unrestricted_float dtype) \<and> (rm \<in> {Some Rnd_APPROX, Some Rnd_FULL} \<longrightarrow> dtype = float32)"
    using chk by (auto simp: check_rounding_def split: option.splits if_splits)
  ultimately show ?thesis using d ftz by blast
qed

theorem rounding_check_sound_witness:
  "check_rd_and_ftz ''tanh'' (Some Rnd_APPROX) False float32 V_13_4 = Inr ()
    \<and> (\<exists>d required. map_of (BINOP_REGISTRY @ UNARYOP_REGISTRY) ''tanh'' = Some d
         \<and> (Rnd_APPROX, required) \<in> set (supported_rounding_modes d) \<and> (\<forall>w. required = Some w \<longrightarrow> w \<le> V_13_2))"
proof -
  have "check_rd_and_ftz ''tanh'' (Some Rnd_APPROX) False float32 V_13_2 = Inr ()" "V_13_2 \<le> V_13_4"
    by code_simp+
  from rounding_check_sound [OF this] show ?thesis by blast
qed

text \<open>
  C39. A memory order and scope that pass validation have bytecode encodings: the scope is
  one of those the bytecode knows, and it is absent exactly for weak operations.
\<close>

theorem validated_scope_encodes:
  assumes "validate_memory_order_and_scope mo ms c = Inr ()"
  shows "\<exists>s. memory_scope_to_bytecode ms = Inr s \<and> (s = None \<longleftrightarrow> memory_order_to_bytecode mo = MOS_WEAK)"
  using assms by (cases ms; cases mo; cases c) (auto simp: validate_memory_order_and_scope_def)

theorem validated_scope_encodes_witness:
  "\<exists>s. memory_scope_to_bytecode SCOPE_SYS = Inr s \<and> (s = None \<longleftrightarrow> memory_order_to_bytecode ORDER_ACQUIRE = MOS_WEAK)"
  by (rule validated_scope_encodes [where c = ClsTileLoad]) code_simp

end
