(* ===== verification/TileIR.thy ===== *)
theory TileIR
  imports TileArith
begin

text \<open>
  The tile IR of \<^verbatim>\<open>_ir/ir.py\<close> and its control flow of \<^verbatim>\<open>_ir/control_flow_ops.py\<close>: variables
  and their fresh names, operations with named operands and nested blocks, the traversals
  of operations, scoping, and an execution of blocks that the passes are measured against.

  The passes identify a variable with its name. An operation that opens nested blocks has
  an identity, as Python objects have, since the passes keep such operations in
  dictionaries and sets.
\<close>

section \<open>Variables\<close>

type_synonym var = string

definition decimal_digit :: "nat \<Rightarrow> char" where
  "decimal_digit d = char_of (48 + d)"

fun decimal :: "nat \<Rightarrow> string" where
  "decimal n = (if n < 10 then [decimal_digit n] else decimal (n div 10) @ [decimal_digit (n mod 10)])"

declare decimal.simps [simp del]

text \<open>Types of variables, as far as the passes look into them.\<close>

datatype ir_type =
    TileTy DType "nat list" | TokenTy | PartitionViewTy | OtherTy string

text \<open>A Python bool is an int, here too: \<^verbatim>\<open>True\<close> is the constant 1.\<close>

datatype const_value = ConstInt int | ConstOther string

text \<open>The part of an aggregate value the passes look into: the variable of its base pointer.\<close>

datatype aggregate_value = ArrayValue var | ListValue var | OtherValue

text \<open>
  \<^verbatim>\<open>IRContext\<close>: the dictionaries of names, the counters, the types, the constants and the
  aggregate values. The last field numbers the objects that are created, to give them an identity.
\<close>

record ir_context =
  all_vars :: "(var \<times> string) list"
  counter_by_name :: "string \<Rightarrow> nat"
  temp_counter :: nat
  typemap :: "var \<rightharpoonup> ir_type"
  constants :: "var \<rightharpoonup> const_value"
  aggregate_values :: "var \<rightharpoonup> aggregate_value"
  next_object :: nat

definition suffixed :: "string \<Rightarrow> nat \<Rightarrow> var" where
  "suffixed name k = name @ ''.'' @ decimal k"

text \<open>The loop of \<^verbatim>\<open>make_var\<close>; its second argument is the counter of the name.\<close>

lemma decimal_digit_inj: "i < 10 \<Longrightarrow> j < 10 \<Longrightarrow> decimal_digit i = decimal_digit j \<longleftrightarrow> i = j"
  by (simp add: decimal_digit_def of_char_of [where ?'a = nat] flip: of_char_eq_iff [where ?'a = nat])

lemma decimal_not_Nil [simp]: "decimal n \<noteq> []" "[] \<noteq> decimal n"
  by (subst decimal.simps, simp)+

lemma decimal_inj: "decimal m = decimal n \<Longrightarrow> m = n"
proof (induction m arbitrary: n rule: decimal.induct)
  case (1 m)
  consider "m < 10" "n < 10" | "m < 10" "10 \<le> n" | "10 \<le> m" "n < 10" | "10 \<le> m" "10 \<le> n" by linarith
  then show ?case
  proof cases
    case 1
    then show ?thesis using "1.prems" by (simp add: decimal.simps [of m] decimal.simps [of n] decimal_digit_inj)
  next
    case 2
    then show ?thesis using "1.prems" by (simp add: decimal.simps [of m] decimal.simps [of n])
  next
    case 3
    then show ?thesis using "1.prems" by (simp add: decimal.simps [of m] decimal.simps [of n])
  next
    case 4
    then have "decimal (m div 10) = decimal (n div 10)" "m mod 10 = n mod 10"
      using "1.prems" by (simp_all add: decimal.simps [of m] decimal.simps [of n] decimal_digit_inj)
    with 4 have "m div 10 = n div 10" "m mod 10 = n mod 10" using "1.IH" by simp_all
    then show ?thesis by (metis div_mult_mod_eq)
  qed
qed

lemma suffixed_inj: "suffixed name i = suffixed name j \<longleftrightarrow> i = j"
  by (auto simp: suffixed_def dest: decimal_inj)

function fresh_name :: "var list \<Rightarrow> string \<Rightarrow> var \<Rightarrow> nat \<Rightarrow> var \<times> nat" where
  "fresh_name names name cand k =
     (if cand \<in> set names then fresh_name names name (suffixed name k) (Suc k) else (cand, k))"
  by pat_completeness auto

text \<open>
  The candidates after the first are pairwise distinct, so the finitely many names in use
  run out.
\<close>

definition taken_from :: "var list \<Rightarrow> string \<Rightarrow> nat \<Rightarrow> nat set" where
  "taken_from names name k = {i. k \<le> i \<and> suffixed name i \<in> set names}"

lemma finite_taken: "finite (taken_from names name k)"
proof -
  have "inj_on (suffixed name) (taken_from names name k)" by (auto intro!: inj_onI simp: suffixed_inj)
  moreover have "suffixed name ` taken_from names name k \<subseteq> set names" by (auto simp: taken_from_def)
  ultimately show ?thesis by (meson finite_imageD finite_set finite_subset)
qed

termination fresh_name
proof (relation "measure (\<lambda>(names, name, cand, k).
    2 * card (taken_from names name k) + (if cand \<in> set names then (if \<exists>j < k. cand = suffixed name j then 1 else 2) else 0))")
  show "wf (measure (\<lambda>(names, name, cand, k).
    2 * card (taken_from names name k) + (if cand \<in> set names then (if \<exists>j < k. cand = suffixed name j then 1 else 2) else 0)))"
    by simp
next
  fix names :: "var list" and name cand k
  assume c: "cand \<in> set names"
  have step: "taken_from names name k =
      (if suffixed name k \<in> set names then insert k (taken_from names name (Suc k)) else taken_from names name (Suc k))"
    by (auto simp: taken_from_def le_eq_less_or_eq Suc_le_eq)
  have new: "k \<notin> taken_from names name (Suc k)" by (simp add: taken_from_def)
  show "((names, name, suffixed name k, Suc k), names, name, cand, k) \<in> measure (\<lambda>(names, name, cand, k).
    2 * card (taken_from names name k) + (if cand \<in> set names then (if \<exists>j < k. cand = suffixed name j then 1 else 2) else 0))"
    using c step new by (auto simp: finite_taken)
qed

declare fresh_name.simps [simp del]

lemma fresh_name_result:
  assumes "fresh_name names name cand k = (v, k')"
  shows "v \<notin> set names \<and> k \<le> k' \<and> (v = cand \<or> (\<exists>j < k'. v = suffixed name j))"
  using assms
proof (induction names name cand k rule: fresh_name.induct)
  case (1 names name cand k)
  show ?case
  proof (cases "cand \<in> set names")
    case True
    then have "fresh_name names name (suffixed name k) (Suc k) = (v, k')"
      using "1.prems" by (simp add: fresh_name.simps [of names name cand])
    then have "v \<notin> set names \<and> Suc k \<le> k' \<and> (v = suffixed name k \<or> (\<exists>j < k'. v = suffixed name j))"
      by (rule "1.IH" [OF True])
    then show ?thesis by (auto simp: Suc_le_eq less_imp_le)
  next
    case False
    then show ?thesis using "1.prems" by (simp add: fresh_name.simps [of names name cand])
  qed
qed

definition make_var :: "string \<Rightarrow> ir_context \<Rightarrow> var \<times> ir_context" where
  "make_var name c =
     (let (v, k) = fresh_name (map fst (all_vars c)) name name (counter_by_name c name)
      in (v, c\<lparr>all_vars := all_vars c @ [(v, name)],
              counter_by_name := (counter_by_name c)(name := k)\<rparr>))"

definition get_original_name :: "ir_context \<Rightarrow> var \<Rightarrow> string option" where
  "get_original_name c v = map_of (all_vars c) v"

definition make_var_like :: "var \<Rightarrow> ir_context \<Rightarrow> (var \<times> ir_context) res" where
  "make_var_like v c =
     (case get_original_name c v of None \<Rightarrow> Inl KeyError | Some name \<Rightarrow> Inr (make_var name c))"

definition make_temp :: "ir_context \<Rightarrow> var \<times> ir_context" where
  "make_temp c =
     make_var (''$'' @ decimal (temp_counter c)) (c\<lparr>temp_counter := Suc (temp_counter c)\<rparr>)"

definition get_type :: "var \<Rightarrow> ir_context \<Rightarrow> ir_type res" where
  "get_type v c = (case typemap c v of None \<Rightarrow> Inl TileInternalError | Some ty \<Rightarrow> Inr ty)"

definition set_type :: "var \<Rightarrow> ir_type \<Rightarrow> ir_context \<Rightarrow> ir_context res" where
  "set_type v ty c =
     and_then (py_assert (typemap c v = None)) (\<lambda>_. Inr (c\<lparr>typemap := (typemap c)(v \<mapsto> ty)\<rparr>))"

definition copy_type_information :: "var \<Rightarrow> var \<Rightarrow> ir_context \<Rightarrow> ir_context" where
  "copy_type_information src dst c =
     (let c = (case typemap c src of None \<Rightarrow> c | Some t \<Rightarrow> c\<lparr>typemap := (typemap c)(dst \<mapsto> t)\<rparr>);
          c = (case constants c src of None \<Rightarrow> c | Some k \<Rightarrow> c\<lparr>constants := (constants c)(dst \<mapsto> k)\<rparr>)
      in (case aggregate_values c src of None \<Rightarrow> c
          | Some a \<Rightarrow> c\<lparr>aggregate_values := (aggregate_values c)(dst \<mapsto> a)\<rparr>))"

definition var_names :: "ir_context \<Rightarrow> var set" where
  "var_names c = fst ` set (all_vars c)"

lemma make_var_fresh_aux:
  assumes "make_var name c = (v, c')"
  shows "v \<notin> var_names c" and "var_names c' = insert v (var_names c)"
    and "get_original_name c' v = Some name"
    and "w \<in> var_names c \<Longrightarrow> get_original_name c' w = get_original_name c w"
    and "typemap c' = typemap c" and "constants c' = constants c"
proof -
  obtain k where k: "fresh_name (map fst (all_vars c)) name name (counter_by_name c name) = (v, k)"
    and c': "c' = c\<lparr>all_vars := all_vars c @ [(v, name)],
              counter_by_name := (counter_by_name c)(name := k)\<rparr>"
    using assms by (auto simp: make_var_def split: prod.splits)
  show v: "v \<notin> var_names c" using fresh_name_result [OF k] by (simp add: var_names_def)
  show "var_names c' = insert v (var_names c)" by (auto simp: var_names_def c')
  have "map_of (all_vars c) v = None" using v by (simp add: var_names_def map_of_eq_None_iff)
  then show "get_original_name c' v = Some name" by (simp add: get_original_name_def c' map_add_def)
  show "w \<in> var_names c \<Longrightarrow> get_original_name c' w = get_original_name c w"
    using v by (auto simp: get_original_name_def c' map_add_def var_names_def split: option.splits)
  show "typemap c' = typemap c" "constants c' = constants c" by (simp_all add: c')
qed

section \<open>Operations\<close>

datatype operand_value = OVar var | OTuple "var list" | ONone

datatype op_class =
    TypedConst const_value | Assign
  | RawComparison string
  | RawBinaryArithmetic string "PyRoundingMode option" bool
  | Unary string "PyRoundingMode option" bool
  | FusedMulAdd PyRoundingMode bool
  | TileReshape | TileBroadcast | TileAsType
  | GetArrayListItem
  | MakeTensorView | MakePartitionView | NumTiles
  | AssumeDivBy int | AssumeBounded
  | PointerOffset
  | TileLoad PyMemoryOrder | TileStore PyMemoryOrder
  | LoadPointer | StorePointer
  | TileAtomicCAS PyMemoryOrder | TileAtomicRMW PyMemoryOrder | TileAtomicRedView PyMemoryOrder
  | MakeToken | JoinTokens | MakeDummy
  | TileAssert | TilePrintf
  | OtherOp string

datatype MemoryEffect = EFFECT_NONE | EFFECT_LOAD | EFFECT_STORE

fun MemoryEffect_value :: "MemoryEffect \<Rightarrow> nat" where
  "MemoryEffect_value EFFECT_NONE = 0"
| "MemoryEffect_value EFFECT_LOAD = 1"
| "MemoryEffect_value EFFECT_STORE = 2"

lemma MemoryEffect_value_inj: "MemoryEffect_value a = MemoryEffect_value b \<longleftrightarrow> a = b"
  by (cases a; cases b) simp_all

text \<open>It is an \<^verbatim>\<open>IntEnum\<close>, compared by value.\<close>

instantiation MemoryEffect :: linorder
begin

definition less_eq_MemoryEffect :: "MemoryEffect \<Rightarrow> MemoryEffect \<Rightarrow> bool" where
  "less_eq_MemoryEffect a b \<longleftrightarrow> MemoryEffect_value a \<le> MemoryEffect_value b"

definition less_MemoryEffect :: "MemoryEffect \<Rightarrow> MemoryEffect \<Rightarrow> bool" where
  "less_MemoryEffect a b \<longleftrightarrow> MemoryEffect_value a < MemoryEffect_value b"

instance
  by standard (auto simp: less_eq_MemoryEffect_def less_MemoryEffect_def MemoryEffect_value_inj)

end

fun class_effect :: "op_class \<Rightarrow> MemoryEffect" where
  "class_effect (TileLoad mo) = EFFECT_LOAD"
| "class_effect LoadPointer = EFFECT_LOAD"
| "class_effect (TileStore mo) = EFFECT_STORE"
| "class_effect StorePointer = EFFECT_STORE"
| "class_effect (TileAtomicCAS mo) = EFFECT_STORE"
| "class_effect (TileAtomicRMW mo) = EFFECT_STORE"
| "class_effect (TileAtomicRedView mo) = EFFECT_STORE"
| "class_effect TileAssert = EFFECT_STORE"
| "class_effect TilePrintf = EFFECT_STORE"
| "class_effect c = EFFECT_NONE"

text \<open>
  \<^verbatim>\<open>Loop\<close> has its range when it is a for loop; the first parameter of its body is then the
  induction variable. \<^verbatim>\<open>TileReduce\<close> and \<^verbatim>\<open>TileScan\<close> are told apart by their attributes.
\<close>

datatype reduce_attrs = ReduceAttrs "const_value list" int | ScanAttrs "const_value list" int bool

datatype operation =
    Plain op_class "(string \<times> operand_value) list" "var list"
  | Loop nat "(var \<times> var \<times> var) option" "var list" "var list" "operation list" "var list"
  | IfElse nat var "operation list" "operation list" "var list"
  | Reduction nat reduce_attrs "var list" "var list" "operation list" "var list"
  | Continue "var list"
  | Break "var list"
  | EndBranch "var list"
  | Return

fun operand_vars :: "operand_value \<Rightarrow> var list" where
  "operand_vars (OVar v) = [v]"
| "operand_vars (OTuple vs) = vs"
| "operand_vars ONone = []"

fun map_operand :: "(var \<Rightarrow> var) \<Rightarrow> operand_value \<Rightarrow> operand_value" where
  "map_operand f (OVar v) = OVar (f v)"
| "map_operand f (OTuple vs) = OTuple (map f vs)"
| "map_operand f ONone = ONone"

definition map_operands :: "(var \<Rightarrow> var) \<Rightarrow> (string \<times> operand_value) list \<Rightarrow> (string \<times> operand_value) list" where
  "map_operands f opnds = map (\<lambda>(n, x). (n, map_operand f x)) opnds"

definition operands_vars :: "(string \<times> operand_value) list \<Rightarrow> var list" where
  "operands_vars opnds = concat (map (operand_vars \<circ> snd) opnds)"

definition range_vars :: "(var \<times> var \<times> var) option \<Rightarrow> var list" where
  "range_vars rng = (case rng of None \<Rightarrow> [] | Some (a, b, s) \<Rightarrow> [a, b, s])"

fun all_inputs :: "operation \<Rightarrow> var list" where
  "all_inputs (Plain c opnds rs) = operands_vars opnds"
| "all_inputs (Loop i rng inits params body rs) = range_vars rng @ inits"
| "all_inputs (IfElse i c t e rs) = [c]"
| "all_inputs (Reduction i k xs params body rs) = xs"
| "all_inputs (Continue vs) = vs"
| "all_inputs (Break vs) = vs"
| "all_inputs (EndBranch vs) = vs"
| "all_inputs Return = []"

fun result_vars :: "operation \<Rightarrow> var list" where
  "result_vars (Plain c opnds rs) = rs"
| "result_vars (Loop i rng inits params body rs) = rs"
| "result_vars (IfElse i c t e rs) = rs"
| "result_vars (Reduction i k xs params body rs) = rs"
| "result_vars _ = []"

text \<open>The nested blocks, with their parameters.\<close>

fun nested_blocks :: "operation \<Rightarrow> (var list \<times> operation list) list" where
  "nested_blocks (Loop i rng inits params body rs) = [(params, body)]"
| "nested_blocks (IfElse i c t e rs) = [([], t), ([], e)]"
| "nested_blocks (Reduction i k xs params body rs) = [(params, body)]"
| "nested_blocks _ = []"

fun memory_effect :: "operation \<Rightarrow> MemoryEffect" where
  "memory_effect (Plain c opnds rs) = class_effect c"
| "memory_effect _ = EFFECT_NONE"

definition is_for_loop :: "(var \<times> var \<times> var) option \<Rightarrow> bool" where
  "is_for_loop rng \<longleftrightarrow> rng \<noteq> None"

definition body_vars :: "(var \<times> var \<times> var) option \<Rightarrow> var list \<Rightarrow> var list" where
  "body_vars rng params = (if is_for_loop rng then tl params else params)"

fun is_terminator :: "operation \<Rightarrow> bool" where
  "is_terminator (Continue vs) = True"
| "is_terminator (Break vs) = True"
| "is_terminator (EndBranch vs) = True"
| "is_terminator Return = True"
| "is_terminator _ = False"

text \<open>\<^verbatim>\<open>Block.traverse\<close>: the operations of the nested blocks come before the operation itself.\<close>

fun traverse :: "operation list \<Rightarrow> operation list" where
  "traverse [] = []"
| "traverse (Loop i rng inits params body rs # ops) =
     traverse body @ Loop i rng inits params body rs # traverse ops"
| "traverse (IfElse i c t e rs # ops) = traverse t @ traverse e @ IfElse i c t e rs # traverse ops"
| "traverse (Reduction i k xs params body rs # ops) =
     traverse body @ Reduction i k xs params body rs # traverse ops"
| "traverse (op # ops) = op # traverse ops"

text \<open>\<^verbatim>\<open>zip(..., strict=True)\<close>\<close>

definition strict_zip :: "'a list \<Rightarrow> 'b list \<Rightarrow> ('a \<times> 'b) list res" where
  "strict_zip xs ys = (if length xs = length ys then Inr (zip xs ys) else Inl ValueError)"

section \<open>Mappers and clones\<close>

record var_mapper =
  preserve_vars :: bool
  var_map :: "var \<rightharpoonup> var"

definition get_var :: "var_mapper \<Rightarrow> var \<Rightarrow> var" where
  "get_var mp v = (case var_map mp v of None \<Rightarrow> v | Some w \<Rightarrow> w)"

definition set_var :: "var \<Rightarrow> var \<Rightarrow> var_mapper \<Rightarrow> var_mapper res" where
  "set_var old new mp =
     and_then (py_assert (var_map mp old = None)) (\<lambda>_. Inr (mp\<lparr>var_map := (var_map mp)(old \<mapsto> new)\<rparr>))"

definition clone_var :: "var \<Rightarrow> var_mapper \<times> ir_context \<Rightarrow> (var \<times> var_mapper \<times> ir_context) res" where
  "clone_var v = (\<lambda>(mp, c).
     if preserve_vars mp then Inr (get_var mp v, mp, c)
     else and_then (make_var_like v c) (\<lambda>(w, c).
       Inr (w, mp\<lparr>var_map := (var_map mp)(v \<mapsto> w)\<rparr>, copy_type_information v w c)))"

fun clone_vars :: "var list \<Rightarrow> var_mapper \<times> ir_context \<Rightarrow> (var list \<times> var_mapper \<times> ir_context) res" where
  "clone_vars [] st = Inr ([], st)"
| "clone_vars (v # vs) st =
     and_then (clone_var v st) (\<lambda>(w, st).
     and_then (clone_vars vs st) (\<lambda>(ws, st). Inr (w # ws, st)))"

definition new_object :: "ir_context \<Rightarrow> nat \<times> ir_context" where
  "new_object c = (next_object c, c\<lparr>next_object := Suc (next_object c)\<rparr>)"

definition map_range :: "(var \<Rightarrow> var) \<Rightarrow> (var \<times> var \<times> var) option \<Rightarrow> (var \<times> var \<times> var) option" where
  "map_range f rng = map_option (\<lambda>(a, b, s). (f a, f b, f s)) rng"

text \<open>
  \<^verbatim>\<open>Operation.clone\<close> of the operations of a block, one after the other: results first, then
  the operands, then the nested blocks with their parameters.
\<close>

fun clone_ops ::
  "operation list \<Rightarrow> var_mapper \<times> ir_context \<Rightarrow> (operation list \<times> var_mapper \<times> ir_context) res" where
  "clone_ops [] st = Inr ([], st)"
| "clone_ops (Plain cl opnds rs # ops) st =
     and_then (clone_vars rs st) (\<lambda>(rs', mp, c).
     and_then (clone_ops ops (mp, c)) (\<lambda>(ops', st).
       Inr (Plain cl (map_operands (get_var mp) opnds) rs' # ops', st)))"
| "clone_ops (Loop i rng inits params body rs # ops) st =
     and_then (clone_vars rs st) (\<lambda>(rs', mp, c).
       let rng' = map_range (get_var mp) rng; inits' = map (get_var mp) inits in
     and_then (clone_vars params (mp, c)) (\<lambda>(params', st).
     and_then (clone_ops body st) (\<lambda>(body', mp, c).
       let (i', c) = new_object c in
     and_then (clone_ops ops (mp, c)) (\<lambda>(ops', st).
       Inr (Loop i' rng' inits' params' body' rs' # ops', st)))))"
| "clone_ops (IfElse i cond t e rs # ops) st =
     and_then (clone_vars rs st) (\<lambda>(rs', mp, c).
       let cond' = get_var mp cond in
     and_then (clone_ops t (mp, c)) (\<lambda>(t', st).
     and_then (clone_ops e st) (\<lambda>(e', mp, c).
       let (i', c) = new_object c in
     and_then (clone_ops ops (mp, c)) (\<lambda>(ops', st).
       Inr (IfElse i' cond' t' e' rs' # ops', st)))))"
| "clone_ops (Reduction i k xs params body rs # ops) st =
     and_then (clone_vars rs st) (\<lambda>(rs', mp, c).
       let xs' = map (get_var mp) xs in
     and_then (clone_vars params (mp, c)) (\<lambda>(params', st).
     and_then (clone_ops body st) (\<lambda>(body', mp, c).
       let (i', c) = new_object c in
     and_then (clone_ops ops (mp, c)) (\<lambda>(ops', st).
       Inr (Reduction i' k xs' params' body' rs' # ops', st)))))"
| "clone_ops (Continue vs # ops) (mp, c) =
     and_then (clone_ops ops (mp, c)) (\<lambda>(ops', st). Inr (Continue (map (get_var mp) vs) # ops', st))"
| "clone_ops (Break vs # ops) (mp, c) =
     and_then (clone_ops ops (mp, c)) (\<lambda>(ops', st). Inr (Break (map (get_var mp) vs) # ops', st))"
| "clone_ops (EndBranch vs # ops) (mp, c) =
     and_then (clone_ops ops (mp, c)) (\<lambda>(ops', st). Inr (EndBranch (map (get_var mp) vs) # ops', st))"
| "clone_ops (Return # ops) (mp, c) =
     and_then (clone_ops ops (mp, c)) (\<lambda>(ops', st). Inr (Return # ops', st))"

text \<open>Operands by name, and the single result of an operation.\<close>

definition operand_of :: "string \<Rightarrow> (string \<times> operand_value) list \<Rightarrow> operand_value res" where
  "operand_of name opnds = (case map_of opnds name of None \<Rightarrow> Inl AttributeError | Some x \<Rightarrow> Inr x)"

definition var_operand :: "string \<Rightarrow> (string \<times> operand_value) list \<Rightarrow> var res" where
  "var_operand name opnds =
     and_then (operand_of name opnds) (\<lambda>x. case x of OVar v \<Rightarrow> Inr v | _ \<Rightarrow> Inl AttributeError)"

definition result_var :: "var list \<Rightarrow> var res" where
  "result_var rs = (case rs of [r] \<Rightarrow> Inr r | _ \<Rightarrow> Inl ValueError)"

text \<open>\<^verbatim>\<open>dataclasses.replace\<close> of one operand.\<close>

definition replace_operand ::
  "string \<Rightarrow> operand_value \<Rightarrow> (string \<times> operand_value) list \<Rightarrow> (string \<times> operand_value) list" where
  "replace_operand name x opnds = map (\<lambda>(n, y). (n, if n = name then x else y)) opnds"

end
