(* ===== verification/TileSem.thy ===== *)
theory TileSem
  imports TileIR
begin

text \<open>
  What the passes over the tile IR must keep: the scoping rules of blocks and an execution
  of blocks. The values, the memory and the effect of each operation class belong to the
  target, so they are parameters, collected in a machine.
\<close>

section \<open>Scoping\<close>

text \<open>All variables a block defines, nested blocks included.\<close>

fun all_defs :: "operation list \<Rightarrow> var list" where
  "all_defs [] = []"
| "all_defs (Plain c opnds rs # ops) = rs @ all_defs ops"
| "all_defs (Loop i rng inits params body rs # ops) = params @ all_defs body @ rs @ all_defs ops"
| "all_defs (IfElse i c t e rs # ops) = all_defs t @ all_defs e @ rs @ all_defs ops"
| "all_defs (Reduction i k xs params body rs # ops) = params @ all_defs body @ rs @ all_defs ops"
| "all_defs (Continue vs # ops) = all_defs ops"
| "all_defs (Break vs # ops) = all_defs ops"
| "all_defs (EndBranch vs # ops) = all_defs ops"
| "all_defs (Return # ops) = all_defs ops"

text \<open>Every use is below a definition in the same or an enclosing block.\<close>

fun scoped :: "var set \<Rightarrow> operation list \<Rightarrow> bool" where
  "scoped S [] = True"
| "scoped S (Plain c opnds rs # ops) \<longleftrightarrow>
     set (operands_vars opnds) \<subseteq> S \<and> scoped (S \<union> set rs) ops"
| "scoped S (Loop i rng inits params body rs # ops) \<longleftrightarrow>
     set (range_vars rng) \<subseteq> S \<and> set inits \<subseteq> S
     \<and> scoped (S \<union> set params) body \<and> scoped (S \<union> set rs) ops"
| "scoped S (IfElse i c t e rs # ops) \<longleftrightarrow>
     c \<in> S \<and> scoped S t \<and> scoped S e \<and> scoped (S \<union> set rs) ops"
| "scoped S (Reduction i k xs params body rs # ops) \<longleftrightarrow>
     set xs \<subseteq> S \<and> scoped (S \<union> set params) body \<and> scoped (S \<union> set rs) ops"
| "scoped S (Continue vs # ops) \<longleftrightarrow> set vs \<subseteq> S \<and> scoped S ops"
| "scoped S (Break vs # ops) \<longleftrightarrow> set vs \<subseteq> S \<and> scoped S ops"
| "scoped S (EndBranch vs # ops) \<longleftrightarrow> set vs \<subseteq> S \<and> scoped S ops"
| "scoped S (Return # ops) \<longleftrightarrow> scoped S ops"

lemma scoped_Un: "scoped S ops \<Longrightarrow> scoped (S \<union> T) ops"
  by (induction S ops rule: scoped.induct) (auto simp: Un_ac)

lemma scoped_mono: "scoped S ops \<Longrightarrow> S \<subseteq> S' \<Longrightarrow> scoped S' ops"
  by (metis scoped_Un subset_Un_eq)

lemma scoped_append:
  "scoped S (xs @ ys) \<longleftrightarrow> scoped S xs \<and> scoped (S \<union> set (concat (map result_vars xs))) ys"
  by (induction S xs rule: scoped.induct) (auto simp: Un_assoc)

text \<open>Variables have types, and only variables of the context do.\<close>

definition typed_ctx :: "var set \<Rightarrow> ir_context \<Rightarrow> bool" where
  "typed_ctx V c \<longleftrightarrow> V \<subseteq> dom (typemap c) \<and> dom (typemap c) \<subseteq> var_names c"

section \<open>Execution\<close>

datatype 'v operand_val = Val 'v | Vals "'v list" | NoVal

text \<open>
  A machine gives the values and the memory after an operation, from its class, the types of
  its results and the values of its operands; the truth of a condition and the values an
  induction variable takes; and it knows the types of the variables, the map of the context.
\<close>

record ('v, 'm) machine =
  run_op :: "op_class \<Rightarrow> ir_type option list \<Rightarrow> (string \<times> 'v operand_val) list \<Rightarrow> 'm \<Rightarrow> 'v list \<times> 'm"
  types :: "var \<rightharpoonup> ir_type"
  truth :: "'v \<Rightarrow> bool"
  range_values :: "'v \<Rightarrow> 'v \<Rightarrow> 'v \<Rightarrow> 'v list"

text \<open>How a block ends: at its end, or by one of its terminators.\<close>

datatype 'v outcome = Fell "var \<rightharpoonup> 'v" | Yielded "'v list" | Continued "'v list" | Broke "'v list" | Returned

fun eval_operand :: "(var \<rightharpoonup> 'v) \<Rightarrow> operand_value \<Rightarrow> 'v operand_val option" where
  "eval_operand env (OVar v) = map_option Val (env v)"
| "eval_operand env (OTuple vs) = map_option Vals (those (map env vs))"
| "eval_operand env ONone = Some NoVal"

definition eval_operands ::
  "(var \<rightharpoonup> 'v) \<Rightarrow> (string \<times> operand_value) list \<Rightarrow> (string \<times> 'v operand_val) list option" where
  "eval_operands env opnds =
     those (map (\<lambda>(n, x). map_option (Pair n) (eval_operand env x)) opnds)"

definition bind_vars :: "(var \<rightharpoonup> 'v) \<Rightarrow> var list \<Rightarrow> 'v list \<Rightarrow> (var \<rightharpoonup> 'v) option" where
  "bind_vars env xs vs =
     (if length xs = length vs then Some (env ++ map_of (zip xs vs)) else None)"

text \<open>
  The iterations of a loop. A body continues with the next values of the carried variables,
  breaks with the results or returns from the kernel.
\<close>

datatype 'v loop_end = Finished "'v list" | LoopReturned

definition loop_step ::
  "('v outcome \<times> 'm) option \<Rightarrow> ('v list \<Rightarrow> 'm \<Rightarrow> ('v loop_end \<times> 'm) option) \<Rightarrow> ('v loop_end \<times> 'm) option" where
  "loop_step r k =
     (case r of Some (Continued vs, m) \<Rightarrow> k vs m
      | Some (Broke vs, m) \<Rightarrow> Some (Finished vs, m)
      | Some (Returned, m) \<Rightarrow> Some (LoopReturned, m)
      | _ \<Rightarrow> None)"

fun while_iterations ::
  "('v list \<Rightarrow> 'm \<Rightarrow> ('v outcome \<times> 'm) option) \<Rightarrow> nat \<Rightarrow> 'v list \<Rightarrow> 'm \<Rightarrow> ('v loop_end \<times> 'm) option" where
  "while_iterations f 0 vs m = None"
| "while_iterations f (Suc k) vs m = loop_step (f vs m) (while_iterations f k)"

fun for_iterations ::
  "('v list \<Rightarrow> 'm \<Rightarrow> ('v outcome \<times> 'm) option) \<Rightarrow> 'v list \<Rightarrow> 'v list \<Rightarrow> 'm \<Rightarrow> ('v loop_end \<times> 'm) option" where
  "for_iterations f [] vs m = Some (Finished vs, m)"
| "for_iterations f (i # is) vs m = loop_step (f (i # vs) m) (for_iterations f is)"

text \<open>
  Execution of a block from an environment and a memory; at most \<^verbatim>\<open>n\<close> iterations of each
  while loop. \<^verbatim>\<open>None\<close> is an execution that is stuck, or whose while loop is still running.
  Reductions belong to the target and are not executed.
\<close>

definition run_loop ::
  "('v, 'm) machine \<Rightarrow> nat \<Rightarrow> (var \<times> var \<times> var) option \<Rightarrow> var list \<Rightarrow> var list
   \<Rightarrow> ((var \<rightharpoonup> 'v) \<Rightarrow> 'm \<Rightarrow> ('v outcome \<times> 'm) option) \<Rightarrow> (var \<rightharpoonup> 'v) \<Rightarrow> 'm
   \<Rightarrow> ('v loop_end \<times> 'm) option" where
  "run_loop M n rng inits params body env m =
     (let f = (\<lambda>vs m. Option.bind (bind_vars env params vs) (\<lambda>env'. body env' m))
      in Option.bind (those (map env inits)) (\<lambda>vs.
         case rng of None \<Rightarrow> while_iterations f n vs m
         | Some (a, b, s) \<Rightarrow>
             Option.bind (env a) (\<lambda>va. Option.bind (env b) (\<lambda>vb. Option.bind (env s) (\<lambda>vs'.
               for_iterations f (range_values M va vb vs') vs m)))))"

text \<open>A branch yields the results; every other jump leaves the operation.\<close>

definition branch_step ::
  "('v outcome \<times> 'm) option \<Rightarrow> ('v list \<Rightarrow> 'm \<Rightarrow> ('v outcome \<times> 'm) option) \<Rightarrow> ('v outcome \<times> 'm) option" where
  "branch_step r k =
     (case r of Some (Yielded vs, m) \<Rightarrow> k vs m
      | Some (Fell env, m) \<Rightarrow> None
      | _ \<Rightarrow> r)"

fun exec :: "('v, 'm) machine \<Rightarrow> nat \<Rightarrow> operation list \<Rightarrow> (var \<rightharpoonup> 'v) \<Rightarrow> 'm \<Rightarrow> ('v outcome \<times> 'm) option" where
  "exec M n [] env m = Some (Fell env, m)"
| "exec M n (Plain c opnds rs # ops) env m =
     Option.bind (eval_operands env opnds) (\<lambda>args.
       case run_op M c (map (types M) rs) args m of (outs, m') \<Rightarrow>
         Option.bind (bind_vars env rs outs) (\<lambda>env'. exec M n ops env' m'))"
| "exec M n (Loop i rng inits params body rs # ops) env m =
     Option.bind (run_loop M n rng inits params (exec M n body) env m) (\<lambda>(r, m').
       case r of LoopReturned \<Rightarrow> Some (Returned, m')
       | Finished vs \<Rightarrow> Option.bind (bind_vars env rs vs) (\<lambda>env'. exec M n ops env' m'))"
| "exec M n (IfElse i c t e rs # ops) env m =
     Option.bind (env c) (\<lambda>v.
       branch_step (if truth M v then exec M n t env m else exec M n e env m)
         (\<lambda>vs m'. Option.bind (bind_vars env rs vs) (\<lambda>env'. exec M n ops env' m')))"
| "exec M n (Reduction i k xs params body rs # ops) env m = None"
| "exec M n (Continue vs # ops) env m = map_option (\<lambda>ws. (Continued ws, m)) (those (map env vs))"
| "exec M n (Break vs # ops) env m = map_option (\<lambda>ws. (Broke ws, m)) (those (map env vs))"
| "exec M n (EndBranch vs # ops) env m = map_option (\<lambda>ws. (Yielded ws, m)) (those (map env vs))"
| "exec M n (Return # ops) env m = Some (Returned, m)"

text \<open>A machine respects the declared effects: only stores change the memory.\<close>

definition respects_effects :: "('v, 'm) machine \<Rightarrow> bool" where
  "respects_effects M \<longleftrightarrow>
     (\<forall>c tys args m. class_effect c \<noteq> EFFECT_STORE \<longrightarrow> snd (run_op M c tys args m) = m)"

definition observed :: "('v outcome \<times> 'm) option \<Rightarrow> 'm option" where
  "observed r = map_option snd r"

end
