(* ===== verification/Dce.thy ===== *)
theory Dce
  imports TileSem "HOL-Library.AList"
begin

text \<open>
  Dead code elimination, \<^verbatim>\<open>_passes/dce.py\<close>: the data-flow graph of a kernel, the closure of
  the used variables over it, and the pruned block.
\<close>

section \<open>The data-flow graph\<close>

text \<open>
  \<^verbatim>\<open>graph\<close> maps a variable to what it depends on, \<^verbatim>\<open>used\<close> is the set of variables in use as
  the list of its elements, and \<^verbatim>\<open>op_to_cf_name\<close> gives the pseudovariable of an operation.
\<close>

record dce_state =
  df_graph :: "(var \<times> var list) list"
  df_used :: "var list"
  op_to_cf_name :: "(nat \<times> var) list"
  df_ctx :: ir_context

text \<open>The innermost loop with its pseudovariable.\<close>

record loop_frame =
  frame_name :: var
  frame_range :: "(var \<times> var \<times> var) option"
  frame_params :: "var list"
  frame_results :: "var list"

definition set_deps :: "var \<Rightarrow> var list \<Rightarrow> dce_state \<Rightarrow> dce_state" where
  "set_deps x deps st = st\<lparr>df_graph := AList.update x deps (df_graph st)\<rparr>"

definition add_dep :: "var \<Rightarrow> var \<Rightarrow> dce_state \<Rightarrow> dce_state res" where
  "add_dep x d st =
     (case map_of (df_graph st) x of None \<Rightarrow> Inl KeyError | Some deps \<Rightarrow> Inr (set_deps x (deps @ [d]) st))"

definition add_deps :: "(var \<times> var) list \<Rightarrow> dce_state \<Rightarrow> dce_state res" where
  "add_deps = fold_res (\<lambda>(x, d). add_dep x d)"

definition use_vars :: "var list \<Rightarrow> dce_state \<Rightarrow> dce_state" where
  "use_vars vs st = st\<lparr>df_used := df_used st @ vs\<rparr>"

definition option_list :: "'a option \<Rightarrow> 'a list" where
  "option_list x = (case x of None \<Rightarrow> [] | Some y \<Rightarrow> [y])"

text \<open>\<^verbatim>\<open>_make_control_flow_name\<close>, recorded for the operation, with its empty list of dependencies.\<close>

definition open_cf :: "nat \<Rightarrow> dce_state \<Rightarrow> var \<times> dce_state" where
  "open_cf i st =
     (let (name, c) = make_var ''$cf'' (df_ctx st)
      in (name, set_deps name [] (st\<lparr>df_ctx := c, op_to_cf_name := (i, name) # op_to_cf_name st\<rparr>)))"

definition must_keep :: "operation \<Rightarrow> bool" where
  "must_keep op \<longleftrightarrow> memory_effect op = EFFECT_STORE \<or> op = Return"

text \<open>The last case of the function: an operation without nested blocks that is no jump.\<close>

definition build_plain :: "operation \<Rightarrow> var option \<Rightarrow> dce_state \<Rightarrow> dce_state" where
  "build_plain op cf st =
     (let deps = all_inputs op @ option_list cf;
          st = (if must_keep op then use_vars deps st else st)
      in fold (\<lambda>r. set_deps r deps) (result_vars op) st)"

definition reduction_lhs :: "var list \<Rightarrow> var list \<Rightarrow> var list res" where
  "reduction_lhs xs params =
     and_then (py_assert (length params = length xs * 2)) (\<lambda>_. Inr (take (length xs) params))"

definition reduction_rhs :: "var list \<Rightarrow> var list \<Rightarrow> var list res" where
  "reduction_rhs xs params =
     and_then (py_assert (length params = length xs * 2)) (\<lambda>_. Inr (drop (length xs) params))"

fun build_dataflow_graph ::
  "operation list \<Rightarrow> loop_frame option \<Rightarrow> var list option \<Rightarrow> var option \<Rightarrow> dce_state \<Rightarrow> dce_state res" where
  "build_dataflow_graph [] loop target cf st = Inr st"
| "build_dataflow_graph (Loop i rng inits params body rs # ops) loop target cf st =
     (let (name, st) = open_cf i st in
      and_then (strict_zip inits (zip (body_vars rng params) rs)) (\<lambda>carried.
      and_then (strict_zip (body_vars rng params) rs) (\<lambda>_.
      let st = fold (\<lambda>(a, b, r). set_deps r [name] \<circ> set_deps b [a, name]) carried st in
      and_then (add_deps (map (Pair name) (option_list cf @ range_vars rng)) st) (\<lambda>st.
      and_then (add_deps (if is_for_loop rng then zip rs inits else []) st) (\<lambda>st.
      and_then (build_dataflow_graph body
          (Some \<lparr>frame_name = name, frame_range = rng, frame_params = params, frame_results = rs\<rparr>)
          None (Some name) st) (\<lambda>st.
      build_dataflow_graph ops loop target cf st))))))"
| "build_dataflow_graph (Continue vs # ops) loop target cf st =
     (case loop of None \<Rightarrow> Inl AssertionError
      | Some l \<Rightarrow>
          and_then (add_deps (map (Pair (frame_name l)) (option_list cf)) st) (\<lambda>st.
          and_then (strict_zip (body_vars (frame_range l) (frame_params l)) vs) (\<lambda>nexts.
          and_then (add_deps nexts st) (\<lambda>st.
          and_then (strict_zip (frame_results l) vs) (\<lambda>outs.
          and_then (add_deps (if is_for_loop (frame_range l) then outs else []) st) (\<lambda>st.
          build_dataflow_graph ops loop target cf st))))))"
| "build_dataflow_graph (Break vs # ops) loop target cf st =
     (case loop of None \<Rightarrow> Inl AssertionError
      | Some l \<Rightarrow>
          and_then (add_deps (map (Pair (frame_name l)) (option_list cf)) st) (\<lambda>st.
          and_then (strict_zip (frame_results l) vs) (\<lambda>outs.
          and_then (add_deps outs st) (\<lambda>st.
          build_dataflow_graph ops loop target cf st))))"
| "build_dataflow_graph (IfElse i c t e rs # ops) loop target cf st =
     (let (name, st) = open_cf i st;
          st = set_deps name (c # option_list cf) st;
          st = fold (\<lambda>r. set_deps r [name]) rs st in
      and_then (build_dataflow_graph t loop (Some rs) (Some name) st) (\<lambda>st.
      and_then (build_dataflow_graph e loop (Some rs) (Some name) st) (\<lambda>st.
      build_dataflow_graph ops loop target cf st)))"
| "build_dataflow_graph (Reduction i k xs params body rs # ops) loop target cf st =
     (let (name, st) = open_cf i st in
      and_then (add_deps (map (Pair name) (option_list cf)) st) (\<lambda>st.
      and_then (reduction_lhs xs params) (\<lambda>lhs.
      and_then (reduction_rhs xs params) (\<lambda>rhs.
      and_then (strict_zip xs rs) (\<lambda>xrs.
      let st = fold (\<lambda>((x, r), a, b). set_deps r [name, x, a, b] \<circ> set_deps b [x, r] \<circ> set_deps a [x, r])
                 (zip xrs (zip lhs rhs)) st in
      and_then (build_dataflow_graph body None (Some rs) (Some name) st) (\<lambda>st.
      build_dataflow_graph ops loop target cf st))))))"
| "build_dataflow_graph (EndBranch vs # ops) loop target cf st =
     (case target of None \<Rightarrow> Inl AttributeError
      | Some rs \<Rightarrow>
          and_then (strict_zip rs vs) (\<lambda>outs.
          and_then (add_deps outs st) (\<lambda>st.
          build_dataflow_graph ops loop target cf st)))"
| "build_dataflow_graph (op # ops) loop target cf st =
     build_dataflow_graph ops loop target cf (build_plain op cf st)"

section \<open>The used variables\<close>

definition deps_of :: "(var \<times> var list) list \<Rightarrow> var \<Rightarrow> var list" where
  "deps_of graph x = (case map_of graph x of None \<Rightarrow> [] | Some deps \<Rightarrow> deps)"

definition visit :: "var \<Rightarrow> var list \<times> var list \<Rightarrow> var list \<times> var list" where
  "visit src = (\<lambda>(used, pending).
     if src \<in> set used then (used, pending) else (used @ [src], pending @ [src]))"

function grow_used :: "(var \<times> var list) list \<Rightarrow> var list \<Rightarrow> var list \<Rightarrow> var list" where
  "grow_used graph used pending =
     (if pending = [] then used
      else let (used', pending') = fold visit (deps_of graph (last pending)) (used, butlast pending)
           in grow_used graph used' pending')"
  by pat_completeness auto

text \<open>Each round takes an element off the list, or adds a variable of the graph to the set.\<close>

definition graph_vars :: "(var \<times> var list) list \<Rightarrow> var set" where
  "graph_vars graph = \<Union> (set ` snd ` set graph)"

lemma finite_graph_vars [simp]: "finite (graph_vars graph)"
  by (simp add: graph_vars_def)

lemma deps_subset: "set (deps_of graph x) \<subseteq> graph_vars graph"
proof (cases "map_of graph x")
  case (Some deps)
  then have "(x, deps) \<in> set graph" by (rule map_of_SomeD)
  then show ?thesis using Some by (force simp: deps_of_def graph_vars_def)
qed (simp add: deps_of_def)

lemma visit_fold:
  assumes "fold visit srcs (used, pending) = (used', pending')"
  shows "set used' = set used \<union> set srcs" and "set pending' = set pending \<union> (set srcs - set used)"
    and "set srcs \<subseteq> set used \<longrightarrow> used' = used \<and> pending' = pending"
  using assms by (induction srcs arbitrary: used pending) (auto simp: visit_def split: if_splits)

termination grow_used
proof (relation "measures [\<lambda>(graph, used, pending). card (graph_vars graph - set used),
    \<lambda>(graph, used, pending). length pending]")
  fix graph used pending x used' pending'
  assume p: "pending \<noteq> []" and f: "x = fold visit (deps_of graph (last pending)) (used, butlast pending)"
    and x: "(used', pending') = x"
  note v = visit_fold [OF f [folded x, symmetric]]
  show "((graph, used', pending'), graph, used, pending)
      \<in> measures [\<lambda>(graph, used, pending). card (graph_vars graph - set used),
          \<lambda>(graph, used, pending). length pending]"
  proof (cases "set (deps_of graph (last pending)) \<subseteq> set used")
    case True
    then show ?thesis using v(3) p by simp
  next
    case False
    then obtain s where s: "s \<in> set (deps_of graph (last pending))" "s \<notin> set used" by blast
    then have "s \<in> graph_vars graph" using deps_subset by blast
    then have "graph_vars graph - set used' \<subset> graph_vars graph - set used" using v(1) s by blast
    then have "card (graph_vars graph - set used') < card (graph_vars graph - set used)"
      by (simp add: psubset_card_mono)
    then show ?thesis by simp
  qed
qed simp

declare grow_used.simps [simp del]

definition find_used_variables :: "(var \<times> var list) list \<Rightarrow> var list \<Rightarrow> var list" where
  "find_used_variables graph used = grow_used graph used used"

definition dep_edges :: "(var \<times> var list) list \<Rightarrow> (var \<times> var) set" where
  "dep_edges graph = {(x, y). y \<in> set (deps_of graph x)}"

text \<open>What is neither pending nor new has its dependencies in the set already.\<close>

lemma grow_used_closure:
  assumes "set pending \<subseteq> set used" and "\<And>x. x \<in> set used - set pending \<Longrightarrow> set (deps_of graph x) \<subseteq> set used"
  shows "set (grow_used graph used pending) = (dep_edges graph)\<^sup>* `` set used"
  using assms
proof (induction graph used pending rule: grow_used.induct)
  case (1 graph used pending)
  show ?case
  proof (cases "pending = []")
    case True
    then have "dep_edges graph `` set used \<subseteq> set used" using "1.prems"(2) by (auto simp: dep_edges_def)
    then have "(dep_edges graph)\<^sup>* `` set used = set used" by (rule Image_closed_trancl)
    then show ?thesis using True by (simp add: grow_used.simps)
  next
    case False
    obtain used' pending' where f: "fold visit (deps_of graph (last pending)) (used, butlast pending) = (used', pending')"
      by fastforce
    note v = visit_fold [OF f]
    have p: "set pending = insert (last pending) (set (butlast pending))"
      using False by (metis append_butlast_last_id set_append list.set insert_is_Un Un_commute)
    have l: "last pending \<in> set used" using "1.prems"(1) False last_in_set by blast
    have "set (grow_used graph used' pending') = (dep_edges graph)\<^sup>* `` set used'"
    proof (rule "1.IH" [OF False f [symmetric] refl])
      show "set pending' \<subseteq> set used'" using v "1.prems"(1) p by auto
      fix x assume "x \<in> set used' - set pending'"
      then have "x \<in> set used" "x \<notin> set (butlast pending)" using v by auto
      then show "set (deps_of graph x) \<subseteq> set used'"
        using "1.prems"(2) v(1) p by (cases "x = last pending") auto
    qed
    also have "\<dots> = (dep_edges graph)\<^sup>* `` set used"
    proof -
      have "set (deps_of graph (last pending)) \<subseteq> (dep_edges graph)\<^sup>* `` set used"
      proof
        fix s assume "s \<in> set (deps_of graph (last pending))"
        then have "(last pending, s) \<in> dep_edges graph" by (simp add: dep_edges_def)
        then show "s \<in> (dep_edges graph)\<^sup>* `` set used" using l by blast
      qed
      then have "(dep_edges graph)\<^sup>* `` set (deps_of graph (last pending))
          \<subseteq> (dep_edges graph)\<^sup>* `` ((dep_edges graph)\<^sup>* `` set used)" by (rule Image_mono [OF order_refl])
      also have "\<dots> = (dep_edges graph)\<^sup>* `` set used"
        by (simp only: relcomp_Image [symmetric] rtrancl_idemp_self_comp)
      finally show ?thesis unfolding v(1) by (simp only: Image_Un Un_absorb2)
    qed
    finally show ?thesis using False f by (simp add: grow_used.simps [of graph used pending])
  qed
qed


section \<open>The pruned block\<close>

definition select_by_mask :: "'a list \<Rightarrow> bool list \<Rightarrow> 'a list res" where
  "select_by_mask xs keep =
     and_then (strict_zip xs keep) (\<lambda>ps. Inr (map fst (filter snd ps)))"

definition make_dummy_like :: "var \<Rightarrow> ir_context \<Rightarrow> (var \<times> operation \<times> ir_context) res" where
  "make_dummy_like v c =
     and_then (make_var_like v c) (\<lambda>(d, c).
     and_then (get_type v c) (\<lambda>ty.
     and_then (set_type d ty c) (\<lambda>c.
       Inr (d, Plain MakeDummy [] [d], c))))"

fun replace_pruned_with_dummy ::
  "var list \<Rightarrow> var list \<Rightarrow> ir_context \<Rightarrow> (var list \<times> operation list \<times> ir_context) res" where
  "replace_pruned_with_dummy [] used c = Inr ([], [], c)"
| "replace_pruned_with_dummy (v # vs) used c =
     (if v \<in> set used then
        and_then (replace_pruned_with_dummy vs used c) (\<lambda>(ws, new_ops, c). Inr (v # ws, new_ops, c))
      else
        and_then (make_dummy_like v c) (\<lambda>(d, op, c).
        and_then (replace_pruned_with_dummy vs used c) (\<lambda>(ws, new_ops, c).
          Inr (d # ws, op # new_ops, c))))"

definition cf_name :: "(nat \<times> var) list \<Rightarrow> nat \<Rightarrow> var res" where
  "cf_name names i = (case map_of names i of None \<Rightarrow> Inl KeyError | Some n \<Rightarrow> Inr n)"

fun restrict_attrs :: "bool list \<Rightarrow> reduce_attrs \<Rightarrow> reduce_attrs res" where
  "restrict_attrs keep (ReduceAttrs identities axis) =
     and_then (select_by_mask identities keep) (\<lambda>ids. Inr (ReduceAttrs ids axis))"
| "restrict_attrs keep (ScanAttrs identities axis reverse) =
     and_then (select_by_mask identities keep) (\<lambda>ids. Inr (ScanAttrs ids axis reverse))"

text \<open>A replaced operation keeps the number of the object it replaces.\<close>

fun prune_block ::
  "operation list \<Rightarrow> var list \<Rightarrow> (nat \<times> var) list \<Rightarrow> bool list \<Rightarrow> bool list \<Rightarrow> ir_context
   \<Rightarrow> (operation list \<times> ir_context) res" where
  "prune_block [] used names loop_mask branch_mask c = Inr ([], c)"
| "prune_block (Loop i rng inits params body rs # ops) used names loop_mask branch_mask c =
     and_then (cf_name names i) (\<lambda>name.
       if name \<in> set used then
         and_then (strict_zip (body_vars rng params) rs) (\<lambda>carried.
         let keep = map (\<lambda>(b, r). b \<in> set used \<or> r \<in> set used) carried in
         and_then (select_by_mask inits keep) (\<lambda>inits.
         and_then (replace_pruned_with_dummy inits used c) (\<lambda>(inits, new_ops, c).
         and_then (select_by_mask rs keep) (\<lambda>rs.
         and_then (prune_block body used names keep [] c) (\<lambda>(body, c).
         and_then (select_by_mask (body_vars rng params) keep) (\<lambda>bvars.
         let params = (if is_for_loop rng then hd params # bvars else bvars) in
         and_then (prune_block ops used names loop_mask branch_mask c) (\<lambda>(ops, c).
           Inr (new_ops @ Loop i rng inits params body rs # ops, c))))))))
       else prune_block ops used names loop_mask branch_mask c)"
| "prune_block (Continue vs # ops) used names loop_mask branch_mask c =
     and_then (select_by_mask vs loop_mask) (\<lambda>vs.
     and_then (replace_pruned_with_dummy vs used c) (\<lambda>(vs, new_ops, c).
     and_then (prune_block ops used names loop_mask branch_mask c) (\<lambda>(ops, c).
       Inr (new_ops @ Continue vs # ops, c))))"
| "prune_block (Break vs # ops) used names loop_mask branch_mask c =
     and_then (select_by_mask vs loop_mask) (\<lambda>vs.
     and_then (replace_pruned_with_dummy vs used c) (\<lambda>(vs, new_ops, c).
     and_then (prune_block ops used names loop_mask branch_mask c) (\<lambda>(ops, c).
       Inr (new_ops @ Break vs # ops, c))))"
| "prune_block (IfElse i cond t e rs # ops) used names loop_mask branch_mask c =
     and_then (cf_name names i) (\<lambda>name.
       if name \<in> set used then
         let keep = map (\<lambda>r. r \<in> set used) rs in
         and_then (prune_block t used names loop_mask keep c) (\<lambda>(t, c).
         and_then (prune_block e used names loop_mask keep c) (\<lambda>(e, c).
         and_then (select_by_mask rs keep) (\<lambda>rs.
         and_then (prune_block ops used names loop_mask branch_mask c) (\<lambda>(ops, c).
           Inr (IfElse i cond t e rs # ops, c)))))
       else prune_block ops used names loop_mask branch_mask c)"
| "prune_block (Reduction i k xs params body rs # ops) used names loop_mask branch_mask c =
     and_then (cf_name names i) (\<lambda>name.
       if name \<in> set used then
         let keep = map (\<lambda>r. r \<in> set used) rs in
         and_then (prune_block body used names [] keep c) (\<lambda>(body, c).
         and_then (select_by_mask xs keep) (\<lambda>new_xs.
         and_then (restrict_attrs keep k) (\<lambda>k.
         and_then (and_then (reduction_lhs xs params) (\<lambda>ps. select_by_mask ps keep)) (\<lambda>lhs.
         and_then (and_then (reduction_rhs xs params) (\<lambda>ps. select_by_mask ps keep)) (\<lambda>rhs.
         and_then (select_by_mask rs keep) (\<lambda>rs.
         and_then (prune_block ops used names loop_mask branch_mask c) (\<lambda>(ops, c).
           Inr (Reduction i k new_xs (lhs @ rhs) body rs # ops, c))))))))
       else prune_block ops used names loop_mask branch_mask c)"
| "prune_block (EndBranch vs # ops) used names loop_mask branch_mask c =
     and_then (select_by_mask vs branch_mask) (\<lambda>vs.
     and_then (prune_block ops used names loop_mask branch_mask c) (\<lambda>(ops, c).
       Inr (EndBranch vs # ops, c)))"
| "prune_block (op # ops) used names loop_mask branch_mask c =
     and_then (prune_block ops used names loop_mask branch_mask c) (\<lambda>(ops, c).
       Inr (if (\<exists>r\<in>set (result_vars op). r \<in> set used) \<or> must_keep op then op # ops else ops, c))"

definition dead_code_elimination_pass :: "operation list \<Rightarrow> ir_context \<Rightarrow> (operation list \<times> ir_context) res" where
  "dead_code_elimination_pass root c =
     and_then (build_dataflow_graph root None None None
         \<lparr>df_graph = [], df_used = [], op_to_cf_name = [], df_ctx = c\<rparr>) (\<lambda>st.
       prune_block root (find_used_variables (df_graph st) (df_used st)) (op_to_cf_name st) [] [] (df_ctx st))"

end
