(* ===== verification/PassAssign.thy ===== *)
theory PassAssign
  imports TileSem
begin

text \<open>
  \<^verbatim>\<open>_passes/eliminate_assign_ops.py\<close>: assignments are dropped and their targets are
  replaced by the variables they stand for.
\<close>

section \<open>The pass\<close>

text \<open>
  \<^verbatim>\<open>walk\<close> over one block. The state is the dictionary \<^verbatim>\<open>orig_var\<close> with the mapper.
\<close>

type_synonym assign_state = "(var \<rightharpoonup> var) \<times> var_mapper"

text \<open>\<^verbatim>\<open>orig_var.get(v.name, v)\<close>\<close>

definition resolved :: "(var \<rightharpoonup> var) \<Rightarrow> var \<Rightarrow> var" where
  "resolved orig v = (case orig v of None \<Rightarrow> v | Some w \<Rightarrow> w)"

fun walk_assigns :: "operation list \<Rightarrow> assign_state \<Rightarrow> (operation list \<times> assign_state) res" where
  "walk_assigns [] st = Inr ([], st)"
| "walk_assigns (Plain cl opnds rs # ops) (orig, mp) =
     (if cl = Assign then
        and_then (var_operand ''value'' opnds) (\<lambda>value.
        and_then (result_var rs) (\<lambda>r.
          let v = resolved orig value in
        and_then (set_var r v mp) (\<lambda>mp. walk_assigns ops (orig(r \<mapsto> v), mp))))
      else
        and_then (walk_assigns ops (orig, mp)) (\<lambda>(ops', st). Inr (Plain cl opnds rs # ops', st)))"
| "walk_assigns (Loop i rng inits params body rs # ops) st =
     and_then (walk_assigns body st) (\<lambda>(body', st).
     and_then (walk_assigns ops st) (\<lambda>(ops', st). Inr (Loop i rng inits params body' rs # ops', st)))"
| "walk_assigns (IfElse i c t e rs # ops) st =
     and_then (walk_assigns t st) (\<lambda>(t', st).
     and_then (walk_assigns e st) (\<lambda>(e', st).
     and_then (walk_assigns ops st) (\<lambda>(ops', st). Inr (IfElse i c t' e' rs # ops', st))))"
| "walk_assigns (Reduction i k xs params body rs # ops) st =
     and_then (walk_assigns body st) (\<lambda>(body', st).
     and_then (walk_assigns ops st) (\<lambda>(ops', st). Inr (Reduction i k xs params body' rs # ops', st)))"
| "walk_assigns (op # ops) st =
     and_then (walk_assigns ops st) (\<lambda>(ops', st). Inr (op # ops', st))"

definition eliminate_assign_ops :: "operation list \<Rightarrow> ir_context \<Rightarrow> (operation list \<times> ir_context) res" where
  "eliminate_assign_ops root c =
     (let mp = \<lparr>preserve_vars = True, var_map = Map.empty\<rparr> in
      and_then (walk_assigns root (Map.empty, mp)) (\<lambda>(ops, orig, mp).
      and_then (clone_ops ops (mp, c)) (\<lambda>(ops', mp, c). Inr (ops', c))))"

section \<open>What it computes\<close>

text \<open>Blocks whose assignments have the shape their class gives them.\<close>

fun good_assigns :: "operation list \<Rightarrow> bool" where
  "good_assigns [] = True"
| "good_assigns (Plain cl opnds rs # ops) \<longleftrightarrow>
     (cl = Assign \<longrightarrow> (\<exists>v r. opnds = [(''value'', OVar v)] \<and> rs = [r])) \<and> good_assigns ops"
| "good_assigns (Loop i rng inits params body rs # ops) \<longleftrightarrow> good_assigns body \<and> good_assigns ops"
| "good_assigns (IfElse i c t e rs # ops) \<longleftrightarrow> good_assigns t \<and> good_assigns e \<and> good_assigns ops"
| "good_assigns (Reduction i k xs params body rs # ops) \<longleftrightarrow> good_assigns body \<and> good_assigns ops"
| "good_assigns (op # ops) \<longleftrightarrow> good_assigns ops"

fun assigned :: "operation list \<Rightarrow> var list" where
  "assigned [] = []"
| "assigned (Plain cl opnds rs # ops) = (if cl = Assign then rs @ assigned ops else assigned ops)"
| "assigned (Loop i rng inits params body rs # ops) = assigned body @ assigned ops"
| "assigned (IfElse i c t e rs # ops) = assigned t @ assigned e @ assigned ops"
| "assigned (Reduction i k xs params body rs # ops) = assigned body @ assigned ops"
| "assigned (op # ops) = assigned ops"

text \<open>The definitions that remain.\<close>

fun kept_defs :: "operation list \<Rightarrow> var list" where
  "kept_defs [] = []"
| "kept_defs (Plain cl opnds rs # ops) = (if cl = Assign then kept_defs ops else rs @ kept_defs ops)"
| "kept_defs (Loop i rng inits params body rs # ops) = params @ kept_defs body @ rs @ kept_defs ops"
| "kept_defs (IfElse i c t e rs # ops) = kept_defs t @ kept_defs e @ rs @ kept_defs ops"
| "kept_defs (Reduction i k xs params body rs # ops) = params @ kept_defs body @ rs @ kept_defs ops"
| "kept_defs (op # ops) = kept_defs ops"

fun strip_assigns :: "operation list \<Rightarrow> operation list" where
  "strip_assigns [] = []"
| "strip_assigns (Plain cl opnds rs # ops) =
     (if cl = Assign then strip_assigns ops else Plain cl opnds rs # strip_assigns ops)"
| "strip_assigns (Loop i rng inits params body rs # ops) =
     Loop i rng inits params (strip_assigns body) rs # strip_assigns ops"
| "strip_assigns (IfElse i c t e rs # ops) =
     IfElse i c (strip_assigns t) (strip_assigns e) rs # strip_assigns ops"
| "strip_assigns (Reduction i k xs params body rs # ops) =
     Reduction i k xs params (strip_assigns body) rs # strip_assigns ops"
| "strip_assigns (op # ops) = op # strip_assigns ops"

text \<open>Each assignment of the block gives its target and its value the same representative.\<close>

fun resolves :: "(var \<Rightarrow> var) \<Rightarrow> operation list \<Rightarrow> bool" where
  "resolves f [] = True"
| "resolves f (Plain cl opnds rs # ops) \<longleftrightarrow>
     (cl = Assign \<longrightarrow> (\<forall>v r. opnds = [(''value'', OVar v)] \<longrightarrow> rs = [r] \<longrightarrow> f r = f v)) \<and> resolves f ops"
| "resolves f (Loop i rng inits params body rs # ops) \<longleftrightarrow> resolves f body \<and> resolves f ops"
| "resolves f (IfElse i c t e rs # ops) \<longleftrightarrow> resolves f t \<and> resolves f e \<and> resolves f ops"
| "resolves f (Reduction i k xs params body rs # ops) \<longleftrightarrow> resolves f body \<and> resolves f ops"
| "resolves f (op # ops) \<longleftrightarrow> resolves f ops"

lemma assigned_subset: "set (assigned ops) \<subseteq> set (all_defs ops)"
  by (induction ops rule: assigned.induct) auto

lemma kept_subset: "set (kept_defs ops) \<subseteq> set (all_defs ops)"
  by (induction ops rule: kept_defs.induct) auto

lemma kept_not_assigned: "distinct (all_defs ops) \<Longrightarrow> set (kept_defs ops) \<inter> set (assigned ops) = {}"
  by (induction ops rule: kept_defs.induct)
     (auto simp: disjoint_iff dest!: subsetD [OF kept_subset] subsetD [OF assigned_subset])

lemma resolves_cong:
  "scoped S ops \<Longrightarrow> resolves f ops \<Longrightarrow> (\<And>v. v \<in> S \<union> set (all_defs ops) \<Longrightarrow> g v = f v) \<Longrightarrow> resolves g ops"
proof (induction S ops rule: scoped.induct)
  case (2 S c opnds rs ops)
  have "resolves g ops" using 2 by auto
  then show ?case using "2.prems" by (auto simp: operands_vars_def)
next
  case (3 S i rng inits params body rs ops)
  then show ?case by auto
next
  case (4 S i c t e rs ops)
  then show ?case by auto
next
  case (5 S i k xs params body rs ops)
  then show ?case by auto
qed auto



text \<open>The pass leads from one dictionary to another over a block.\<close>

definition walks :: "(var \<rightharpoonup> var) \<Rightarrow> operation list \<Rightarrow> (var \<rightharpoonup> var) \<Rightarrow> bool" where
  "walks orig ops orig' \<longleftrightarrow>
     walk_assigns ops (orig, \<lparr>preserve_vars = True, var_map = orig\<rparr>)
       = Inr (strip_assigns ops, orig', \<lparr>preserve_vars = True, var_map = orig'\<rparr>)
     \<and> dom orig' = dom orig \<union> set (assigned ops)
     \<and> (\<forall>v. v \<notin> set (assigned ops) \<longrightarrow> orig' v = orig v) \<and> resolves (resolved orig') ops"

lemma walks_later:
  assumes "walks orig ops orig'" and "scoped S ops"
    and "\<And>v. v \<in> S \<union> set (all_defs ops) \<Longrightarrow> later v = orig' v"
  shows "resolves (resolved later) ops"
  using assms by (auto simp: walks_def resolved_def intro: resolves_cong)

lemma walks_assign:
  assumes "walks (orig(r \<mapsto> resolved orig v)) ops orig'" and "orig r = None"
    and "v \<notin> set (r # assigned ops)" and "r \<notin> set (assigned ops)"
  shows "walks orig (Plain Assign [(''value'', OVar v)] [r] # ops) orig'"
proof -
  have "resolved orig' r = resolved orig' v" using assms by (auto simp: walks_def resolved_def)
  then show ?thesis
    using assms by (auto simp: walks_def var_operand_def operand_of_def result_var_def set_var_def)
qed

lemma walk_ok:
  assumes "scoped S ops" "good_assigns ops" "distinct (all_defs ops)" "S \<inter> set (all_defs ops) = {}"
    and "dom orig \<inter> set (all_defs ops) = {}"
  shows "\<exists>orig'. walks orig ops orig'"
  using assms
proof (induction S ops arbitrary: orig rule: scoped.induct)
  case (2 S cl opnds rs ops)
  show ?case
  proof (cases "cl = Assign")
    case True
    then obtain v r where op: "opnds = [(''value'', OVar v)]" "rs = [r]" using "2.prems" by auto
    have "\<exists>orig'. walks (orig(r \<mapsto> resolved orig v)) ops orig'" 
    proof (intro "2.IH")
      show "dom (orig(r \<mapsto> resolved orig v)) \<inter> set (all_defs ops) = {}" using "2.prems" op by simp
    qed (use "2.prems" op in auto)
    then obtain orig' where o: "walks (orig(r \<mapsto> resolved orig v)) ops orig'" ..
    have "orig r = None" "v \<notin> set (r # assigned ops)" "r \<notin> set (assigned ops)"
      using "2.prems" op assigned_subset [of ops] by (auto simp: operands_vars_def)
    from walks_assign [OF o this] show ?thesis using True op by blast
  next
    case False
    have "\<exists>orig'. walks orig ops orig'" using "2.prems" by (intro "2.IH") auto
    then show ?thesis using False by (auto simp: walks_def)
  qed
next
  case (3 S i rng inits params body rs ops)
  have "\<exists>o1. walks orig body o1" using "3.prems" by (intro "3.IH"(1)) auto
  then obtain o1 where o1: "walks orig body o1" ..
  have "\<exists>o2. walks o1 ops o2"
    using "3.prems" o1 assigned_subset [of body] by (intro "3.IH"(2)) (auto simp: walks_def)
  then obtain o2 where o2: "walks o1 ops o2" ..
  have "resolves (resolved o2) body"
    by (rule walks_later [OF o1, of "S \<union> set params"])
      (use "3.prems" o2 assigned_subset [of ops] in \<open>auto simp: walks_def\<close>)
  then show ?case using o1 o2 by (auto simp: walks_def)
next
  case (4 S i c t e rs ops)
  have "\<exists>o1. walks orig t o1" using "4.prems" by (intro "4.IH"(1)) auto
  then obtain o1 where o1: "walks orig t o1" ..
  have "\<exists>o2. walks o1 e o2"
    using "4.prems" o1 assigned_subset [of t] by (intro "4.IH"(2)) (auto simp: walks_def)
  then obtain o2 where o2: "walks o1 e o2" ..
  have "\<exists>o3. walks o2 ops o3"
    using "4.prems" o1 o2 assigned_subset [of t] assigned_subset [of e]
    by (intro "4.IH"(3)) (auto simp: walks_def)
  then obtain o3 where o3: "walks o2 ops o3" ..
  have later: "o3 v = o2 v" if "v \<in> S \<union> set (all_defs t) \<union> set (all_defs e)" for v
  proof -
    have "v \<notin> set (assigned ops)" using that "4.prems" assigned_subset [of ops] by (simp, blast)
    then show ?thesis using o3 by (simp add: walks_def)
  qed
  have earlier: "o2 v = o1 v" if "v \<in> S \<union> set (all_defs t)" for v
  proof -
    have "v \<notin> set (assigned e)" using that "4.prems" assigned_subset [of e] by (simp, blast)
    then show ?thesis using o2 by (simp add: walks_def)
  qed
  have "resolves (resolved o3) t"
    by (rule walks_later [OF o1, of S])
(use "4.prems" earlier later in auto)
  moreover have "resolves (resolved o3) e"
    by (rule walks_later [OF o2, of S]) (use "4.prems" later in auto)
  ultimately show ?case using o1 o2 o3 by (auto simp: walks_def)
next
  case (5 S i k xs params body rs ops)
  have "\<exists>o1. walks orig body o1" using "5.prems" by (intro "5.IH"(1)) auto
  then obtain o1 where o1: "walks orig body o1" ..
  have "\<exists>o2. walks o1 ops o2"
    using "5.prems" o1 assigned_subset [of body] by (intro "5.IH"(2)) (auto simp: walks_def)
  then obtain o2 where o2: "walks o1 ops o2" ..
  have "resolves (resolved o2) body"
    by (rule walks_later [OF o1, of "S \<union> set params"])
      (use "5.prems" o2 assigned_subset [of ops] in \<open>auto simp: walks_def\<close>)
  then show ?case using o1 o2 by (auto simp: walks_def)
next
  case (6 S vs ops)
  have "\<exists>orig'. walks orig ops orig'" using "6.prems" by (intro "6.IH") auto
  then show ?case by (auto simp: walks_def)
next
  case (7 S vs ops)
  have "\<exists>orig'. walks orig ops orig'" using "7.prems" by (intro "7.IH") auto
  then show ?case by (auto simp: walks_def)
next
  case (8 S vs ops)
  have "\<exists>orig'. walks orig ops orig'" using "8.prems" by (intro "8.IH") auto
  then show ?case by (auto simp: walks_def)
next
  case (9 S ops)
  have "\<exists>orig'. walks orig ops orig'" using "9.prems" by (intro "9.IH") auto
  then show ?case by (auto simp: walks_def)
next
  case (1 S)
  have "walks orig [] orig" by (simp add: walks_def)
  then show ?case by blast
qed


section \<open>Renamed blocks\<close>

text \<open>A block with its variables renamed and the identities of its objects forgotten.\<close>

fun renamed :: "(var \<Rightarrow> var) \<Rightarrow> operation list \<Rightarrow> operation list" where
  "renamed f [] = []"
| "renamed f (Plain cl opnds rs # ops) = Plain cl (map_operands f opnds) (map f rs) # renamed f ops"
| "renamed f (Loop i rng inits params body rs # ops) =
     Loop 0 (map_range f rng) (map f inits) (map f params) (renamed f body) (map f rs) # renamed f ops"
| "renamed f (IfElse i c t e rs # ops) =
     IfElse 0 (f c) (renamed f t) (renamed f e) (map f rs) # renamed f ops"
| "renamed f (Reduction i k xs params body rs # ops) =
     Reduction 0 k (map f xs) (map f params) (renamed f body) (map f rs) # renamed f ops"
| "renamed f (Continue vs # ops) = Continue (map f vs) # renamed f ops"
| "renamed f (Break vs # ops) = Break (map f vs) # renamed f ops"
| "renamed f (EndBranch vs # ops) = EndBranch (map f vs) # renamed f ops"
| "renamed f (Return # ops) = Return # renamed f ops"

lemma map_operand_comp: "map_operand f (map_operand g x) = map_operand (f \<circ> g) x"
  by (cases x) simp_all

lemma map_operands_comp: "map_operands f (map_operands g xs) = map_operands (f \<circ> g) xs"
  by (simp add: map_operands_def map_operand_comp case_prod_beta)

lemma map_range_comp: "map_range f (map_range g rng) = map_range (f \<circ> g) rng"
  by (cases rng) (auto simp: map_range_def)

lemma map_operand_id [simp]: "map_operand (\<lambda>a. a) x = x" by (cases x) simp_all

lemma map_operands_id [simp]: "map_operands (\<lambda>a. a) xs = xs"
  by (simp add: map_operands_def)

lemma map_range_id [simp]: "map_range (\<lambda>a. a) rng = rng"
  by (cases rng) (auto simp: map_range_def)

lemma exec_renamed_id: "exec M n (renamed (\<lambda>a. a) ops) = exec M n ops"
  by (induction ops rule: all_defs.induct) (rule ext, rule ext, simp cong: if_cong loop_end.case_cong outcome.case_cong)+

lemma clone_vars_preserve:
  "preserve_vars mp \<Longrightarrow> clone_vars vs (mp, c) = Inr (map (get_var mp) vs, mp, c)"
  by (induction vs) (simp_all add: clone_var_def)

lemma clone_preserve:
  assumes "preserve_vars mp"
  shows "\<exists>ops' c'. clone_ops ops (mp, c) = Inr (ops', mp, c') \<and> renamed (\<lambda>a. a) ops' = renamed (get_var mp) ops"
proof (induction ops arbitrary: c rule: all_defs.induct)
  case (3 i rng inits params body rs ops)
  from "3.IH"(1) [of c] obtain body' c1 where
    b: "clone_ops body (mp, c) = Inr (body', mp, c1)" "renamed (\<lambda>a. a) body' = renamed (get_var mp) body" by blast
  from "3.IH"(2) [of "snd (new_object c1)"] obtain ops' c2 where
    o: "clone_ops ops (mp, snd (new_object c1)) = Inr (ops', mp, c2)" "renamed (\<lambda>a. a) ops' = renamed (get_var mp) ops" by blast
  from b o show ?case by (simp add: clone_vars_preserve [OF assms] new_object_def)
next
  case (4 i cd t e rs ops)
  from "4.IH"(1) [of c] obtain t' c1 where
    t: "clone_ops t (mp, c) = Inr (t', mp, c1)" "renamed (\<lambda>a. a) t' = renamed (get_var mp) t" by blast
  from "4.IH"(2) [of c1] obtain e' c2 where
    e: "clone_ops e (mp, c1) = Inr (e', mp, c2)" "renamed (\<lambda>a. a) e' = renamed (get_var mp) e" by blast
  from "4.IH"(3) [of "snd (new_object c2)"] obtain ops' c3 where
    o: "clone_ops ops (mp, snd (new_object c2)) = Inr (ops', mp, c3)" "renamed (\<lambda>a. a) ops' = renamed (get_var mp) ops" by blast
  from t e o show ?case by (simp add: clone_vars_preserve [OF assms] new_object_def)
next
  case (5 i k xs params body rs ops)
  from "5.IH"(1) [of c] obtain body' c1 where
    b: "clone_ops body (mp, c) = Inr (body', mp, c1)" "renamed (\<lambda>a. a) body' = renamed (get_var mp) body" by blast
  from "5.IH"(2) [of "snd (new_object c1)"] obtain ops' c2 where
    o: "clone_ops ops (mp, snd (new_object c1)) = Inr (ops', mp, c2)" "renamed (\<lambda>a. a) ops' = renamed (get_var mp) ops" by blast
  from b o show ?case by (simp add: clone_vars_preserve [OF assms] new_object_def)
next
  case (2 cl opnds rs ops)
  from "2.IH" [of c] show ?case by (auto simp: clone_vars_preserve [OF assms])
qed (simp, (fastforce simp: and_then_Inr_iff)+)


section \<open>Execution\<close>

text \<open>The environment at the end of a block does not leave it.\<close>

fun forget_env :: "'v outcome \<Rightarrow> 'v outcome" where
  "forget_env (Fell env) = Fell Map.empty"
| "forget_env r = r"

definition forget :: "('v outcome \<times> 'm) option \<Rightarrow> ('v outcome \<times> 'm) option" where
  "forget = map_option (map_prod forget_env id)"

lemma forget_Some_iff: "forget r = Some (q, m) \<longleftrightarrow> (\<exists>q'. r = Some (q', m) \<and> forget_env q' = q)"
  by (auto simp: forget_def)

lemma loop_step_forget: "loop_step (forget r) k = loop_step r k"
  by (auto simp: loop_step_def forget_def split: option.splits outcome.splits)

lemma loop_step_cong:
  "forget r = forget r' \<Longrightarrow> (\<And>vs m. k vs m = k' vs m) \<Longrightarrow> loop_step r k = loop_step r' k'"
  by (metis loop_step_forget ext)

lemma while_cong:
  "(\<And>vs m. forget (f vs m) = forget (g vs m)) \<Longrightarrow> while_iterations f n vs m = while_iterations g n vs m"
  by (induction n arbitrary: vs m) (auto intro: loop_step_cong)

lemma for_cong:
  "(\<And>vs m. forget (f vs m) = forget (g vs m)) \<Longrightarrow> for_iterations f is vs m = for_iterations g is vs m"
  by (induction "is" arbitrary: vs m) (auto intro: loop_step_cong)

lemma branch_step_cong:
  "forget r = forget r' \<Longrightarrow> (\<And>vs m. forget (k vs m) = forget (k' vs m))
    \<Longrightarrow> forget (branch_step r k) = forget (branch_step r' k')"
proof (cases r)
  case None
  assume "forget r = forget r'"
  then show ?thesis using None by (simp add: forget_def branch_step_def)
next
  case (Some p)
  assume r: "forget r = forget r'" and k: "\<And>vs m. forget (k vs m) = forget (k' vs m)"
  obtain q m where p: "p = (q, m)" by (cases p)
  with Some r obtain q' where "r' = Some (q', m)" "forget_env q' = forget_env q"
    by (cases r') (auto simp: forget_def)
  then show ?thesis
    using k Some p by (cases q; cases q') (simp_all add: branch_step_def forget_def)
qed

text \<open>Two environments agree on a scope up to the representatives of its variables.\<close>

definition agree :: "(var \<Rightarrow> var) \<Rightarrow> var set \<Rightarrow> (var \<rightharpoonup> 'v) \<Rightarrow> (var \<rightharpoonup> 'v) \<Rightarrow> bool" where
  "agree f S env env' \<longleftrightarrow> (\<forall>v\<in>S. f v \<in> S \<and> env v \<noteq> None \<and> env' (f v) = env v)"

lemma agree_map: "agree f S env env' \<Longrightarrow> set vs \<subseteq> S \<Longrightarrow> map env' (map f vs) = map env vs"
  by (auto simp: agree_def)

lemma agree_operand: "agree f S env env' \<Longrightarrow> set (operand_vars x) \<subseteq> S \<Longrightarrow>
    eval_operand env' (map_operand f x) = eval_operand env x"
proof (cases x)
  case (OTuple vs)
  assume "agree f S env env'" "set (operand_vars x) \<subseteq> S"
  then have "map env' (map f vs) = map env vs" using OTuple by (intro agree_map) auto
  then show ?thesis by (simp only: OTuple map_operand.simps eval_operand.simps)
qed (auto simp: agree_def)

lemma agree_operands:
  assumes "agree f S env env'" and "set (operands_vars opnds) \<subseteq> S"
  shows "eval_operands env' (map_operands f opnds) = eval_operands env opnds"
proof -
  have "eval_operand env' (map_operand f x) = eval_operand env x" if "(n, x) \<in> set opnds" for n x
    using that assms(2) by (intro agree_operand [OF assms(1)]) (force simp: operands_vars_def)
  then show ?thesis
    unfolding eval_operands_def map_operands_def
    by (intro arg_cong [where f = those]) (auto simp: comp_def)
qed

lemma agree_bind:
  assumes "agree f S env env'" and "bind_vars env xs vs = Some e"
    and "S \<inter> set xs = {}" and "\<And>x. x \<in> set xs \<Longrightarrow> f x = x"
  shows "\<exists>e'. bind_vars env' xs vs = Some e' \<and> agree f (S \<union> set xs) e e'"
proof -
  have l: "length xs = length vs" and e: "e = env ++ map_of (zip xs vs)"
    using assms(2) by (auto simp: bind_vars_def split: if_splits)
  have out: "map_of (zip xs vs) v = None" if "v \<notin> set xs" for v
    using that l by (simp add: map_of_zip_is_None)
  have inside: "\<exists>y. map_of (zip xs vs) v = Some y" if "v \<in> set xs" for v
    using that l by (simp add: map_of_zip_is_Some)
  have "agree f (S \<union> set xs) e (env' ++ map_of (zip xs vs))"
    unfolding agree_def
  proof
    fix v assume v: "v \<in> S \<union> set xs"
    show "f v \<in> S \<union> set xs \<and> e v \<noteq> None \<and> (env' ++ map_of (zip xs vs)) (f v) = e v"
    proof (cases "v \<in> set xs")
      case True
      with assms(4) inside [OF True] show ?thesis by (auto simp: e map_add_def)
    next
      case False
      then have "v \<in> S" using v by simp
      then have fv: "f v \<in> S" "f v \<notin> set xs" using assms(1,3) by (auto simp: agree_def)
      show ?thesis
        using assms(1) \<open>v \<in> S\<close> fv out [OF False] out [OF fv(2)] by (simp add: e map_add_def agree_def)
    qed
  qed
  then show ?thesis using l by (auto simp: bind_vars_def)
qed

lemma bind_vars_None: "bind_vars env xs vs = None \<longleftrightarrow> bind_vars env' xs vs = None"
  by (simp add: bind_vars_def)


definition copies_assign :: "('v, 'm) machine \<Rightarrow> bool" where
  "copies_assign M \<longleftrightarrow> (\<forall>ty v m. run_op M Assign [ty] [(''value'', Val v)] m = ([v], m))"

lemma forget_bind: "forget (Option.bind r g) = Option.bind r (\<lambda>x. forget (g x))"
  by (cases r) (simp_all add: forget_def)

lemma agree_continue:
  assumes "agree f S env env'" and "S \<inter> set xs = {}" and "\<And>x. x \<in> set xs \<Longrightarrow> f x = x"
    and "\<And>e e'. agree f (S \<union> set xs) e e' \<Longrightarrow> forget (g e') = forget (h e)"
  shows "forget (Option.bind (bind_vars env' xs vs) g) = forget (Option.bind (bind_vars env xs vs) h)"
proof (cases "bind_vars env xs vs")
  case None
  then show ?thesis using bind_vars_None [of env xs vs env'] by simp
next
  case (Some e)
  from agree_bind [OF assms(1) Some assms(2,3)] assms(4) show ?thesis by (auto simp: Some)
qed

lemma agree_loop:
  assumes "agree f S env env'" and "set (range_vars rng) \<subseteq> S" and "set inits \<subseteq> S"
    and "S \<inter> set params = {}" and "\<And>x. x \<in> set params \<Longrightarrow> f x = x"
    and "\<And>e e' m. agree f (S \<union> set params) e e' \<Longrightarrow> forget (body' e' m) = forget (body e m)"
  shows "run_loop M n (map_range f rng) (map f inits) params body' env' m = run_loop M n rng inits params body env m"
proof -
  define b where "b = (\<lambda>vs m. Option.bind (bind_vars env params vs) (\<lambda>e. body e m))"
  define b' where "b' = (\<lambda>vs m. Option.bind (bind_vars env' params vs) (\<lambda>e. body' e m))"
  have "forget (b' vs m) = forget (b vs m)" for vs m
    unfolding b_def b'_def by (rule agree_continue [OF assms(1,4,5,6)])
  then have w: "while_iterations b' k vs m = while_iterations b k vs m"
    and fo: "for_iterations b' is vs m = for_iterations b is vs m" for k vs m "is"
    by (rule while_cong, rule for_cong)
  have "map env' (map f inits) = map env inits" by (rule agree_map [OF assms(1,3)])
  moreover have "env' (f v) = env v" if "v \<in> set (range_vars rng)" for v
    using that assms(1,2) by (auto simp: agree_def)
  ultimately show ?thesis
    unfolding run_loop_def b_def [symmetric] b'_def [symmetric]
    by (cases rng) (auto simp: map_range_def range_vars_def w fo Let_def simp del: map_map)
qed

lemma assign_sim:
  assumes "copies_assign M"
  shows "scoped S ops \<Longrightarrow> good_assigns ops \<Longrightarrow> distinct (all_defs ops) \<Longrightarrow> S \<inter> set (all_defs ops) = {}
    \<Longrightarrow> resolves f ops \<Longrightarrow> (\<forall>d\<in>set (kept_defs ops). f d = d)
    \<Longrightarrow> agree f S env env'
    \<Longrightarrow> forget (exec M n (renamed f (strip_assigns ops)) env' m) = forget (exec M n ops env m)"
proof (induction S ops arbitrary: env env' m rule: scoped.induct)
  case (2 S cl opnds rs ops)
  show ?case
  proof (cases "cl = Assign")
    case True
    then obtain v r where op: "opnds = [(''value'', OVar v)]" "rs = [r]" using "2.prems" by auto
    have v: "v \<in> S" "v \<noteq> r" using "2.prems" op by (auto simp: operands_vars_def)
    then obtain x where x: "env v = Some x" using "2.prems"(7) by (auto simp: agree_def)
    define e where "e = env(r \<mapsto> x)"
    have "agree f (S \<union> set rs) e env'"
      using "2.prems" op v x True by (auto simp: agree_def e_def)
    then have "forget (exec M n (renamed f (strip_assigns ops)) env' m) = forget (exec M n ops e m)"
      using "2.prems" op True by (intro "2.IH") auto
    moreover have "exec M n (Plain cl opnds rs # ops) env m = exec M n ops e m"
      using assms x op True by (simp add: copies_assign_def eval_operands_def bind_vars_def e_def)
    ultimately show ?thesis using True by simp
  next
    case False
    have stays: "f x = x" if "x \<in> set rs" for x
      using that "2.prems"(6) False by simp
    have ev: "eval_operands env' (map_operands f opnds) = eval_operands env opnds"
      using "2.prems" by (intro agree_operands) auto
    have "forget (Option.bind (bind_vars env' rs outs) (\<lambda>e. exec M n (renamed f (strip_assigns ops)) e m'))
        = forget (Option.bind (bind_vars env rs outs) (\<lambda>e. exec M n ops e m'))" for outs m'
      using "2.prems" stays False by (intro agree_continue "2.IH") auto
    then show ?thesis using False by (simp add: ev map_idI [OF stays] forget_bind case_prod_beta)
  qed
next
  case (3 S i rng inits params body rs ops)
  have stays: "f x = x" if "x \<in> set rs \<union> set params" for x
    using that "3.prems"(6) by auto
  have "forget (exec M n (renamed f (strip_assigns body)) e' m) = forget (exec M n body e m)"
    if "agree f (S \<union> set params) e e'" for e e' m
    using that "3.prems" by (intro "3.IH"(1)) auto
  then have loop: "run_loop M n (map_range f rng) (map f inits) params (exec M n (renamed f (strip_assigns body))) env' m
      = run_loop M n rng inits params (exec M n body) env m"
    using "3.prems" stays by (intro agree_loop) auto
  have "forget (Option.bind (bind_vars env' rs vs) (\<lambda>e. exec M n (renamed f (strip_assigns ops)) e m'))
        = forget (Option.bind (bind_vars env rs vs) (\<lambda>e. exec M n ops e m'))" for vs m'
    using "3.prems" stays by (intro agree_continue "3.IH"(2)) auto
  then have "forget (case p of (r, m') \<Rightarrow> case r of LoopReturned \<Rightarrow> Some (Returned, m')
       | Finished vs \<Rightarrow> Option.bind (bind_vars env' rs vs) (\<lambda>env'. exec M n (renamed f (strip_assigns ops)) env' m'))
     = forget (case p of (r, m') \<Rightarrow> case r of LoopReturned \<Rightarrow> Some (Returned, m')
       | Finished vs \<Rightarrow> Option.bind (bind_vars env rs vs) (\<lambda>env'. exec M n ops env' m'))" for p
    by (cases p) (simp split: loop_end.split)
  then show ?case
    by (simp add: loop map_idI [of rs f] map_idI [of params f] stays forget_bind)
next
  case (4 S i c t e rs ops)
  have stays: "f x = x" if "x \<in> set rs" for x
    using that "4.prems"(6) by auto
  have t: "forget (exec M n (renamed f (strip_assigns t)) env' m) = forget (exec M n t env m)"
    and e: "forget (exec M n (renamed f (strip_assigns e)) env' m) = forget (exec M n e env m)"
    using "4.prems" by (intro "4.IH"(1) "4.IH"(2); auto)+
  have "forget (Option.bind (bind_vars env' rs vs) (\<lambda>e. exec M n (renamed f (strip_assigns ops)) e m'))
        = forget (Option.bind (bind_vars env rs vs) (\<lambda>e. exec M n ops e m'))" for vs m'
    using "4.prems" stays by (intro agree_continue "4.IH"(3)) auto
  then have "forget (branch_step (if b then exec M n (renamed f (strip_assigns t)) env' m
          else exec M n (renamed f (strip_assigns e)) env' m)
        (\<lambda>vs m'. Option.bind (bind_vars env' rs vs) (\<lambda>e. exec M n (renamed f (strip_assigns ops)) e m')))
      = forget (branch_step (if b then exec M n t env m else exec M n e env m)
        (\<lambda>vs m'. Option.bind (bind_vars env rs vs) (\<lambda>e. exec M n ops e m')))" for b
    using t e by (intro branch_step_cong) auto
  moreover have "env' (f c) = env c" using "4.prems" by (simp add: agree_def)
  ultimately show ?case by (simp add: map_idI [of rs f] stays forget_bind)
qed (simp_all add: forget_def agree_map del: map_map)

lemma assigned_renamed: "assigned (renamed f ops) = map f (assigned ops)"
  by (induction ops rule: assigned.induct) simp_all

lemma assigned_strip: "assigned (strip_assigns ops) = []"
  by (induction ops rule: strip_assigns.induct) simp_all

section \<open>Properties\<close>

text \<open>
  C6. Eliminating assignments never fails on a well-scoped block in single assignment form,
  leaves no assignment, and the block executes as before: it ends in the same way, with the
  same values, the same memory and the same iterations, on every machine whose assignment
  copies its operand.
\<close>

theorem eliminate_assign_sound:
  assumes "copies_assign M" and "scoped S ops" and "good_assigns ops" and "distinct (all_defs ops)"
    and "S \<inter> set (all_defs ops) = {}" and "S \<subseteq> dom env"
  shows "\<exists>ops' c'. eliminate_assign_ops ops c = Inr (ops', c') \<and> assigned ops' = []
    \<and> forget (exec M n ops' env m) = forget (exec M n ops env m)"
proof -
  from walk_ok [OF assms(2-5), of Map.empty] obtain orig where w: "walks Map.empty ops orig" by auto
  let ?mp = "\<lparr>preserve_vars = True, var_map = orig\<rparr>"
  from clone_preserve [of ?mp "strip_assigns ops" c] obtain ops' c' where
    cl: "clone_ops (strip_assigns ops) (?mp, c) = Inr (ops', ?mp, c')"
    and r: "renamed (\<lambda>a. a) ops' = renamed (get_var ?mp) (strip_assigns ops)" by auto
  have f: "get_var ?mp = resolved orig" by (simp add: fun_eq_iff get_var_def resolved_def)
  have out: "resolved orig v = v" if "v \<notin> set (assigned ops)" for v
    using w that by (simp add: walks_def resolved_def)
  have "assigned ops' = assigned (renamed (\<lambda>a. a) ops')" by (simp add: assigned_renamed)
  then have a: "assigned ops' = []" by (simp add: r assigned_renamed assigned_strip)
  have "agree (resolved orig) S env env"
  proof -
    have "resolved orig v = v" if "v \<in> S" for v
      using that assms(5) out [of v] assigned_subset [of ops] by blast
    then show ?thesis using assms(6) by (auto simp: agree_def)
  qed
  moreover have "\<forall>d\<in>set (kept_defs ops). resolved orig d = d"
    using out kept_not_assigned [OF assms(4)] by auto
  ultimately have "forget (exec M n (renamed (resolved orig) (strip_assigns ops)) env m) = forget (exec M n ops env m)"
    using w by (intro assign_sim [OF assms(1-5)]) (auto simp: walks_def)
  then have "forget (exec M n ops' env m) = forget (exec M n ops env m)"
    using exec_renamed_id [of M n ops'] by (simp add: r f)
  moreover have "eliminate_assign_ops ops c = Inr (ops', c')"
    using w cl by (simp add: eliminate_assign_ops_def walks_def Let_def)
  ultimately show ?thesis using a by blast
qed

text \<open>A machine on integers that records what is stored.\<close>

definition first_value :: "(string \<times> int operand_val) list \<Rightarrow> int" where
  "first_value args = (case args of (n, Val v) # _ \<Rightarrow> v | _ \<Rightarrow> 0)"

definition sample_machine :: "(int, int list) machine" where
  "sample_machine =
     \<lparr>run_op = (\<lambda>c tys args m. case c of Assign \<Rightarrow> ([first_value args], m)
        | StorePointer \<Rightarrow> ([], m @ [first_value args]) | _ \<Rightarrow> ([first_value args + 1], m)),
      types = Map.empty, truth = (\<lambda>v. v \<noteq> 0), range_values = (\<lambda>a b s. [a .. b - 1])\<rparr>"

definition sample_context :: ir_context where
  "sample_context = \<lparr>all_vars = [], counter_by_name = (\<lambda>_. 0), temp_counter = 0, typemap = Map.empty,
     constants = Map.empty, aggregate_values = Map.empty, next_object = 0\<rparr>"

definition assign_program :: "operation list" where
  "assign_program =
     [Plain Assign [(''value'', OVar ''x'')] [''y''],
      Loop 1 (Some (''x'', ''x'', ''x'')) [''y''] [''i'', ''a'']
        [Plain Assign [(''value'', OVar ''a'')] [''b''], Plain StorePointer [(''value'', OVar ''b'')] [],
         Continue [''b'']] [''z''],
      Plain Assign [(''value'', OVar ''y'')] [''w''],
      Plain StorePointer [(''value'', OVar ''w'')] [], Return]"

theorem eliminate_assign_sound_witness:
  "\<exists>ops' c'. eliminate_assign_ops assign_program sample_context = Inr (ops', c') \<and> assigned ops' = []
     \<and> forget (exec sample_machine 0 ops' [''x'' \<mapsto> 3] []) = forget (exec sample_machine 0 assign_program [''x'' \<mapsto> 3] [])"
proof (rule eliminate_assign_sound [of _ "{''x''}"])
  show "copies_assign sample_machine" by (simp add: copies_assign_def sample_machine_def first_value_def)
  show "scoped {''x''} assign_program" "good_assigns assign_program" "distinct (all_defs assign_program)"
    "{''x''} \<inter> set (all_defs assign_program) = {}" "{''x''} \<subseteq> dom [''x'' \<mapsto> (3 :: int)]"
    by (simp_all add: assign_program_def operands_vars_def range_vars_def)
qed

end
