(* ===== verification/DceSim.thy ===== *)
theory DceSim
  imports Dce PassAssign
begin

text \<open>
  Dead code elimination keeps the behaviour of every terminating kernel. The graph pass makes
  the used variables consistent with the program (\<^verbatim>\<open>live\<close>); a consistent set is enough for
  the pruned block to run like the original one.
\<close>

section \<open>Consistent sets of used variables\<close>

definition frame_body :: "loop_frame \<Rightarrow> var list" where
  "frame_body l = body_vars (frame_range l) (frame_params l)"

definition within :: "var set \<Rightarrow> var option \<Rightarrow> bool" where
  "within U cf \<longleftrightarrow> set (option_list cf) \<subseteq> U"

text \<open>The flow of a carried value: if one end is used, so is the other.\<close>

definition flows :: "var set \<Rightarrow> var list \<Rightarrow> var list \<Rightarrow> bool" where
  "flows U dsts srcs \<longleftrightarrow> list_all2 (\<lambda>d s. d \<in> U \<longrightarrow> s \<in> U) dsts srcs"

definition loop_flows :: "var set \<Rightarrow> loop_frame \<Rightarrow> var list \<Rightarrow> bool" where
  "loop_flows U l vs \<longleftrightarrow> flows U (frame_body l) vs
     \<and> (if is_for_loop (frame_range l) then flows U (frame_results l) vs else length (frame_results l) = length vs)"

fun live ::
  "var set \<Rightarrow> (nat \<rightharpoonup> var) \<Rightarrow> operation list \<Rightarrow> loop_frame option \<Rightarrow> var list option \<Rightarrow> var option \<Rightarrow> bool" where
  "live U N [] l t cf = True"
| "live U N (Plain cl opnds rs # ops) l t cf \<longleftrightarrow>
     ((\<exists>r\<in>set rs. r \<in> U) \<or> class_effect cl = EFFECT_STORE \<longrightarrow> set (operands_vars opnds) \<subseteq> U \<and> within U cf)
     \<and> live U N ops l t cf"
| "live U N (Loop i rng inits params body rs # ops) l t cf \<longleftrightarrow>
     (\<exists>name. N i = Some name
        \<and> (name \<in> U \<longrightarrow> within U cf \<and> set (range_vars rng) \<subseteq> U)
        \<and> (\<forall>v\<in>set rs \<union> set (body_vars rng params). v \<in> U \<longrightarrow> name \<in> U)
        \<and> loop_flows U \<lparr>frame_name = name, frame_range = rng, frame_params = params, frame_results = rs\<rparr> inits
        \<and> (is_for_loop rng \<longrightarrow> params \<noteq> [])
        \<and> live U N body (Some \<lparr>frame_name = name, frame_range = rng, frame_params = params, frame_results = rs\<rparr>)
            None (Some name))
     \<and> live U N ops l t cf"
| "live U N (IfElse i c th el rs # ops) l t cf \<longleftrightarrow>
     (\<exists>name. N i = Some name
        \<and> (name \<in> U \<longrightarrow> within U cf \<and> c \<in> U)
        \<and> (\<forall>v\<in>set rs. v \<in> U \<longrightarrow> name \<in> U)
        \<and> live U N th l (Some rs) (Some name) \<and> live U N el l (Some rs) (Some name))
     \<and> live U N ops l t cf"
| "live U N (Reduction i k xs params body rs # ops) l t cf \<longleftrightarrow>
     (\<exists>name. N i = Some name
        \<and> (name \<in> U \<longrightarrow> within U cf) \<and> (\<forall>v\<in>set rs. v \<in> U \<longrightarrow> name \<in> U)
        \<and> live U N body None (Some rs) (Some name))
     \<and> live U N ops l t cf"
| "live U N (Continue vs # ops) l t cf \<longleftrightarrow>
     (\<exists>fr. l = Some fr \<and> (frame_name fr \<in> U \<longrightarrow> within U cf) \<and> loop_flows U fr vs) \<and> live U N ops l t cf"
| "live U N (Break vs # ops) l t cf \<longleftrightarrow>
     (\<exists>fr. l = Some fr \<and> (frame_name fr \<in> U \<longrightarrow> within U cf) \<and> flows U (frame_results fr) vs) \<and> live U N ops l t cf"
| "live U N (EndBranch vs # ops) l t cf \<longleftrightarrow>
     (\<exists>rs. t = Some rs \<and> flows U rs vs) \<and> live U N ops l t cf"
| "live U N (Return # ops) l t cf \<longleftrightarrow> within U cf \<and> live U N ops l t cf"

section \<open>Dead blocks\<close>

text \<open>
  A block whose control operation is unused leaves the memory alone, does not return from
  the kernel, and jumps only to a loop that is unused as well.
\<close>

fun dead_outcome :: "bool \<Rightarrow> 'v outcome \<Rightarrow> bool" where
  "dead_outcome loop_used Returned = False"
| "dead_outcome loop_used (Continued vs) = (\<not> loop_used)"
| "dead_outcome loop_used (Broke vs) = (\<not> loop_used)"
| "dead_outcome loop_used _ = True"

definition loop_used :: "var set \<Rightarrow> loop_frame option \<Rightarrow> bool" where
  "loop_used U l = (case l of None \<Rightarrow> True | Some fr \<Rightarrow> frame_name fr \<in> U)"

lemma dead_while:
  assumes "\<And>vs m q m'. f vs m = Some (q, m') \<Longrightarrow> m' = m \<and> q \<noteq> Returned"
  shows "while_iterations f n vs m = Some (r, m') \<Longrightarrow> m' = m \<and> r \<noteq> LoopReturned"
proof (induction n arbitrary: vs)
  case (Suc n)
  then show ?case using assms by (auto simp: loop_step_def split: option.splits outcome.splits prod.splits; metis)
qed simp

lemma dead_for:
  assumes "\<And>vs m q m'. f vs m = Some (q, m') \<Longrightarrow> m' = m \<and> q \<noteq> Returned"
  shows "for_iterations f is vs m = Some (r, m') \<Longrightarrow> m' = m \<and> r \<noteq> LoopReturned"
proof (induction "is" arbitrary: vs)
  case (Cons i "is")
  then show ?case using assms by (auto simp: loop_step_def split: option.splits outcome.splits prod.splits; metis)
qed auto

lemma dead_exec:
  assumes "respects_effects M"
  shows "live U N ops l t cf \<Longrightarrow> \<not> within U cf \<Longrightarrow> exec M n ops env m = Some (q, m') \<Longrightarrow>
    m' = m \<and> dead_outcome (loop_used U l) q"
proof (induction ops arbitrary: l t cf env m q m' rule: all_defs.induct)
  case (2 cl opnds rs ops)
  from "2.prems" have ne: "class_effect cl \<noteq> EFFECT_STORE" by auto
  from "2.prems"(3) obtain args where args: "(case run_op M cl (map (types M) rs) args m of (outs, m1) \<Rightarrow>
         Option.bind (bind_vars env rs outs) (\<lambda>env'. exec M n ops env' m1)) = Some (q, m')"
    by (auto simp: bind_eq_Some_conv)
  obtain outs m1 where s1: "run_op M cl (map (types M) rs) args m = (outs, m1)" by fastforce
  with args obtain e where "exec M n ops e m1 = Some (q, m')" by (auto simp: bind_eq_Some_conv)
  note s = s1 this
  from s(1) ne assms have "m1 = m" unfolding respects_effects_def by (metis snd_conv)
  with "2.IH" [OF _ "2.prems"(2) s(2), of l t] "2.prems"(1) show ?case by simp
next
  case (3 i rng inits params body rs ops)
  from "3.prems"(1,2) obtain name where name: "name \<notin> U"
    and body: "live U N body (Some \<lparr>frame_name = name, frame_range = rng, frame_params = params, frame_results = rs\<rparr>)
            None (Some name)" and rest: "live U N ops l t cf" by auto
  have b: "m1 = m0 \<and> q1 \<noteq> Returned" if "exec M n body e m0 = Some (q1, m1)" for e m0 q1 m1
    using "3.IH"(1) [OF body _ that] name by (auto simp: within_def option_list_def)
  have loop: "m1 = m \<and> r \<noteq> LoopReturned"
    if "run_loop M n rng inits params (exec M n body) env m = Some (r, m1)" for r m1
  proof -
    define F where "F = (\<lambda>vs m. Option.bind (bind_vars env params vs) (\<lambda>e. exec M n body e m))"
    have f: "m1 = m0 \<and> q1 \<noteq> Returned" if "F vs m0 = Some (q1, m1)" for vs m0 q1 m1
      using that b by (auto simp: bind_eq_Some_conv F_def)
    have "m1 = m0 \<and> r1 \<noteq> LoopReturned" if "while_iterations F n vs m0 = Some (r1, m1)" for vs m0 r1 m1
      using that by (rule dead_while [rotated]) (blast dest: f)
    moreover have "m1 = m0 \<and> r1 \<noteq> LoopReturned" if "for_iterations F is vs m0 = Some (r1, m1)" for "is" vs m0 r1 m1
      using that by (rule dead_for [rotated]) (blast dest: f)
    ultimately show ?thesis
      using that unfolding run_loop_def F_def [symmetric] Let_def
      by (cases rng) (fastforce simp: bind_eq_Some_conv)+
  qed
  from "3.prems"(3) obtain r m1 where r: "run_loop M n rng inits params (exec M n body) env m = Some (r, m1)"
    "(case r of LoopReturned \<Rightarrow> Some (Returned, m1)
       | Finished vs \<Rightarrow> Option.bind (bind_vars env rs vs) (\<lambda>env'. exec M n ops env' m1)) = Some (q, m')"
    by (auto simp: bind_eq_Some_conv split: prod.splits)
  with loop obtain vs e where "m1 = m" "exec M n ops e m = Some (q, m')"
    by (cases r) (auto simp: bind_eq_Some_conv)
  with "3.IH"(2) [OF rest "3.prems"(2)] show ?case by blast
next
  case (4 i c th el rs ops)
  from "4.prems"(1,2) obtain name where name: "name \<notin> U"
    and nested: "live U N th l (Some rs) (Some name)" "live U N el l (Some rs) (Some name)"
    and rest: "live U N ops l t cf" by auto
  have nw: "\<not> within U (Some name)" using name by (simp add: within_def option_list_def)
  from "4.prems"(3) obtain b where
    b: "branch_step (if b then exec M n th env m else exec M n el env m)
         (\<lambda>vs m'. Option.bind (bind_vars env rs vs) (\<lambda>env'. exec M n ops env' m')) = Some (q, m')"
    by (auto simp: bind_eq_Some_conv)
  then obtain q1 m1 where r: "(if b then exec M n th env m else exec M n el env m) = Some (q1, m1)"
    by (cases "if b then exec M n th env m else exec M n el env m") (auto simp: branch_step_def)
  then have d: "m1 = m \<and> dead_outcome (loop_used U l) q1"
    using "4.IH"(1) [OF nested(1) nw] "4.IH"(2) [OF nested(2) nw] by (cases b) auto
  show ?case
  proof (cases q1)
    case (Yielded vs)
    with b r obtain e where "exec M n ops e m1 = Some (q, m')"
      by (auto simp: branch_step_def bind_eq_Some_conv)
    with "4.IH"(3) [OF rest "4.prems"(2)] d show ?thesis by blast
  qed (use b r d in \<open>auto simp: branch_step_def\<close>)
qed (auto simp: loop_used_def split: option.splits)


section \<open>Carried values\<close>

definition sel :: "bool list \<Rightarrow> 'a list \<Rightarrow> 'a list" where
  "sel keep xs = map fst (filter snd (zip xs keep))"

lemma sel_simps [simp]:
  "sel [] xs = []" "sel keep [] = []"
  "sel (k # keep) (x # xs) = (if k then x # sel keep xs else sel keep xs)"
  by (simp_all add: sel_def)

lemma select_by_mask_Inr: "select_by_mask xs keep = Inr ys \<longleftrightarrow> length xs = length keep \<and> ys = sel keep xs"
  by (auto simp: select_by_mask_def strict_zip_def sel_def)

text \<open>
  The values of the pruned operation are those selected by the mask, and where the position
  is required they are the original ones.
\<close>

fun carries :: "bool list \<Rightarrow> bool list \<Rightarrow> 'v list \<Rightarrow> 'v list \<Rightarrow> bool" where
  "carries [] [] [] ys \<longleftrightarrow> ys = []"
| "carries (p # P) (k # K) (x # xs) ys \<longleftrightarrow>
     (p \<longrightarrow> k) \<and> (if k then \<exists>y ys'. ys = y # ys' \<and> (p \<longrightarrow> y = x) \<and> carries P K xs ys' else carries P K xs ys)"
| "carries _ _ _ _ \<longleftrightarrow> False"

lemma carries_mono:
  "carries P K xs ys \<Longrightarrow> list_all2 (\<lambda>p q. q \<longrightarrow> p) P Q \<Longrightarrow> carries Q K xs ys"
  by (induction P K xs ys arbitrary: Q rule: carries.induct)
     (auto simp: list_all2_Cons1 split: if_splits)

lemma carries_self: "length K = length vs \<Longrightarrow> carries K K vs (sel K vs)"
  by (induction K vs rule: list_induct2) auto

lemma carries_length: "carries P K xs ys \<Longrightarrow> length P = length xs \<and> length K = length xs"
  by (induction P K xs ys rule: carries.induct) (auto split: if_splits)

text \<open>The pruned environment has the values of all used variables.\<close>

definition covers :: "var set \<Rightarrow> (var \<rightharpoonup> 'v) \<Rightarrow> (var \<rightharpoonup> 'v) \<Rightarrow> bool" where
  "covers U env env' \<longleftrightarrow> (\<forall>v\<in>U. \<forall>x. env v = Some x \<longrightarrow> env' v = Some x)"

definition binding :: "var list \<Rightarrow> 'v list \<Rightarrow> (var \<rightharpoonup> 'v)" where
  "binding xs vs = map_of (zip xs vs)"

lemma bind_vars_binding: "bind_vars env xs vs = Some e \<longleftrightarrow> length xs = length vs \<and> e = env ++ binding xs vs"
  by (auto simp: bind_vars_def binding_def)

lemma binding_sel:
  "carries P K vs ys \<Longrightarrow> length xs = length vs \<Longrightarrow> list_all2 (\<lambda>p x. x \<in> U \<longrightarrow> p) P xs \<Longrightarrow>
   length (sel K xs) = length ys
   \<and> (\<forall>v\<in>U. binding (sel K xs) ys v = binding xs vs v)"
proof (induction P K vs ys arbitrary: xs rule: carries.induct)
  case (2 p P k K x vs ys)
  then obtain z zs where "xs = z # zs" by (cases xs) auto
  with 2 show ?case by (auto simp: binding_def split: if_splits)
qed (auto simp: binding_def)

lemma bind_sel:
  assumes "covers U env env'" and "bind_vars env xs vs = Some e"
    and "carries P K vs ys" and "list_all2 (\<lambda>p x. x \<in> U \<longrightarrow> p) P xs"
  shows "\<exists>e'. bind_vars env' (sel K xs) ys = Some e' \<and> covers U e e'"
  using assms binding_sel [OF assms(3), of xs U]
  by (auto simp: bind_vars_binding covers_def map_add_def split: option.splits)

lemma bind_same:
  assumes "covers U env env'" and "bind_vars env xs vs = Some e"
  shows "\<exists>e'. bind_vars env' xs vs = Some e' \<and> covers U e e'"
  using assms by (auto simp: bind_vars_binding covers_def map_add_def split: option.splits)

lemma bind_unused:
  assumes "covers U env env'" and "bind_vars env xs vs = Some e" and "set xs \<inter> U = {}"
  shows "covers U e env'"
proof -
  have "binding xs vs v = None" if "v \<in> U" for v
    using that assms(2,3) by (auto simp: bind_vars_binding binding_def map_of_zip_is_None)
  then show ?thesis using assms by (auto simp: bind_vars_binding covers_def map_add_def)
qed

lemma covers_map:
  assumes "covers U env env'" and "set vs \<subseteq> U" and "those (map env vs) = Some xs"
  shows "those (map env' vs) = Some xs"
  using assms by (induction vs arbitrary: xs) (auto simp: covers_def split: option.splits)

lemma covers_operands:
  assumes "covers U env env'" and "set (operands_vars opnds) \<subseteq> U" and "eval_operands env opnds = Some args"
  shows "eval_operands env' opnds = Some args"
  using assms(2,3)
proof (induction opnds arbitrary: args)
  case (Cons a opnds)
  obtain n x where a: "a = (n, x)" by (cases a)
  from Cons.prems a obtain y ys where y: "eval_operand env x = Some y" "eval_operands env opnds = Some ys"
    "args = (n, y) # ys" by (auto simp: eval_operands_def split: option.splits)
  have "eval_operand env' x = Some y"
    using y(1) Cons.prems(1) assms(1) covers_map [OF assms(1)]
    by (cases x) (auto simp: a operands_vars_def covers_def)
  moreover have "eval_operands env' opnds = Some ys"
    using Cons.prems y by (intro Cons.IH) (auto simp: operands_vars_def)
  ultimately show ?case by (simp add: a y eval_operands_def)
qed (simp add: eval_operands_def)

section \<open>Dummies\<close>

definition makes_dummies :: "('v, 'm) machine \<Rightarrow> bool" where
  "makes_dummies M \<longleftrightarrow> (\<forall>ty m. length (fst (run_op M MakeDummy [ty] [] m)) = 1)"

lemma make_dummy_like_Inr:
  assumes "make_dummy_like v c = Inr (d, op, c')"
  shows "op = Plain MakeDummy [] [d] \<and> d \<notin> var_names c \<and> var_names c' = insert d (var_names c)"
proof -
  from assms obtain name c1 ty where m: "make_var name c = (d, c1)" "set_type d ty c1 = Inr c'"
    "op = Plain MakeDummy [] [d]"
    by (auto simp: make_dummy_like_def make_var_like_def and_then_Inr_iff split: option.splits)
  then have "all_vars c' = all_vars c1" by (auto simp: set_type_def and_then_Inr_iff)
  then show ?thesis using make_var_fresh_aux(1,2) [OF m(1)] m(3) by (simp add: var_names_def)
qed

lemma dummies_run:
  assumes "makes_dummies M" and "respects_effects M"
  shows "replace_pruned_with_dummy vs used c = Inr (ws, new_ops, c') \<Longrightarrow> set used \<subseteq> var_names c \<Longrightarrow>
    list_all2 (\<lambda>v x. env v = Some x) vs xs \<Longrightarrow> covers (set used) env env' \<Longrightarrow>
    set used \<subseteq> var_names c' \<and> (\<exists>e ys. (\<forall>ops. exec M n (new_ops @ ops) env' m = exec M n ops e m)
      \<and> (\<forall>v\<in>var_names c. e v = env' v)
      \<and> those (map e ws) = Some ys \<and> list_all2 (\<lambda>v (x, y). v \<in> set used \<longrightarrow> x = y) vs (zip xs ys)
      \<and> length ys = length xs)"
proof (induction vs arbitrary: c ws new_ops c' xs env')
  case (Cons v vs)
  from Cons.prems(3) obtain x xs' where x: "xs = x # xs'" "env v = Some x"
    "list_all2 (\<lambda>v x. env v = Some x) vs xs'" by (auto simp: list_all2_Cons1)
  show ?case
  proof (cases "v \<in> set used")
    case True
    with Cons.prems(1) obtain ws' where r: "replace_pruned_with_dummy vs used c = Inr (ws', new_ops, c')" "ws = v # ws'"
      by (auto simp: and_then_Inr_iff)
    from Cons.IH [OF r(1) Cons.prems(2) x(3) Cons.prems(4)] obtain e ys where
      e: "set used \<subseteq> var_names c'" "\<forall>ops. exec M n (new_ops @ ops) env' m = exec M n ops e m"
        "\<forall>v\<in>var_names c. e v = env' v" "those (map e ws') = Some ys"
        "list_all2 (\<lambda>v (x, y). v \<in> set used \<longrightarrow> x = y) vs (zip xs' ys)" "length ys = length xs'" by blast
    have "e v = Some x" using True Cons.prems(2,4) x(2) e(3) by (auto simp: covers_def)
    then show ?thesis using e x r by (intro conjI exI [of _ e] exI [of _ "x # ys"]) auto
  next
    case False
    with Cons.prems(1) obtain d op c1 ws' ops' where r: "make_dummy_like v c = Inr (d, op, c1)"
      "replace_pruned_with_dummy vs used c1 = Inr (ws', ops', c')" "ws = d # ws'" "new_ops = op # ops'"
      by (auto simp: and_then_Inr_iff)
    note d = make_dummy_like_Inr [OF r(1)]
    from assms(1) obtain w where "fst (run_op M MakeDummy [types M d] [] m) = [w]"
      unfolding makes_dummies_def by (metis One_nat_def length_0_conv length_Suc_conv)
    moreover have "snd (run_op M MakeDummy [types M d] [] m) = m" using assms(2) by (simp add: respects_effects_def)
    ultimately have w: "run_op M MakeDummy [types M d] [] m = ([w], m)" by (metis prod.collapse)
    have "covers (set used) env (env'(d \<mapsto> w))"
      using Cons.prems(2,4) d by (auto simp: covers_def)
    moreover have "set used \<subseteq> var_names c1" using Cons.prems(2) d by auto
    ultimately obtain e ys where
      e: "set used \<subseteq> var_names c'" "\<forall>ops. exec M n (ops' @ ops) (env'(d \<mapsto> w)) m = exec M n ops e m"
        "\<forall>v\<in>var_names c1. e v = (env'(d \<mapsto> w)) v" "those (map e ws') = Some ys"
        "list_all2 (\<lambda>v (x, y). v \<in> set used \<longrightarrow> x = y) vs (zip xs' ys)" "length ys = length xs'"
      using Cons.IH [OF r(2) _ x(3), of "env'(d \<mapsto> w)"] by blast
    have "\<forall>ops. exec M n (new_ops @ ops) env' m = exec M n ops e m"
      using e(2) w d by (simp add: r eval_operands_def bind_vars_def)
    moreover have "e d = Some w" "\<forall>v\<in>var_names c. e v = env' v" using e(3) d by auto
    ultimately show ?thesis using e x r False
      by (intro conjI exI [of _ e] exI [of _ "w # ys"]) auto
  qed
qed auto


section \<open>Live blocks\<close>

definition mask_of :: "var set \<Rightarrow> loop_frame \<Rightarrow> bool list" where
  "mask_of U fr = map (\<lambda>(b, r). b \<in> U \<or> r \<in> U) (zip (frame_body fr) (frame_results fr))"

definition needed_next :: "var set \<Rightarrow> loop_frame \<Rightarrow> bool list" where
  "needed_next U fr = map (\<lambda>(b, r). b \<in> U \<or> is_for_loop (frame_range fr) \<and> r \<in> U)
     (zip (frame_body fr) (frame_results fr))"

definition needed_out :: "var set \<Rightarrow> loop_frame \<Rightarrow> bool list" where
  "needed_out U fr = map (\<lambda>(b, r). r \<in> U) (zip (frame_body fr) (frame_results fr))"

definition even_frame :: "loop_frame \<Rightarrow> bool" where
  "even_frame fr \<longleftrightarrow> length (frame_body fr) = length (frame_results fr)"

lemma carries_sel:
  "length K = length xs \<Longrightarrow> list_all2 (\<lambda>p v. p \<longrightarrow> v \<in> U) P vs \<Longrightarrow> list_all2 (\<lambda>p k. p \<longrightarrow> k) P K \<Longrightarrow>
   list_all2 (\<lambda>v (x, y). v \<in> U \<longrightarrow> x = y) (sel K vs) (zip (sel K xs) ys) \<Longrightarrow> length ys = length (sel K xs) \<Longrightarrow>
   carries P K xs ys"
proof (induction K arbitrary: xs P vs ys)
  case (Cons k K)
  from Cons.prems(1) obtain x xs' where x: "xs = x # xs'" by (cases xs) auto
  from Cons.prems(3) obtain p P' where p: "P = p # P'" by (cases P) auto
  with Cons.prems(2) obtain v vs' where v: "vs = v # vs'" by (cases vs) auto
  show ?case using Cons.prems Cons.IH [of xs' P' vs'] by (cases ys) (auto simp: x p v)
qed auto

lemma those_list_all2: "those (map env vs) = Some xs \<longleftrightarrow> list_all2 (\<lambda>v x. env v = Some x) vs xs"
  by (induction vs arbitrary: xs) (auto simp: list_all2_Cons1 split: option.splits)

lemma list_all2_sel: "list_all2 R xs ys \<Longrightarrow> list_all2 R (sel K xs) (sel K ys)"
proof (induction xs ys arbitrary: K rule: list_all2_induct)
  case (Cons x xs y ys)
  then show ?case by (cases K) auto
qed simp

lemma loop_flows_next:
  "loop_flows U fr vs \<Longrightarrow> even_frame fr \<and> list_all2 (\<lambda>p v. p \<longrightarrow> v \<in> U) (needed_next U fr) vs"
  by (auto simp: loop_flows_def flows_def even_frame_def needed_next_def list_all2_conv_all_nth split: if_splits)

lemma flows_out:
  "flows U (frame_results fr) vs \<Longrightarrow> even_frame fr \<Longrightarrow> list_all2 (\<lambda>p v. p \<longrightarrow> v \<in> U) (needed_out U fr) vs"
  by (auto simp: flows_def even_frame_def needed_out_def list_all2_conv_all_nth)

lemma needed_mask:
  "even_frame fr \<Longrightarrow> list_all2 (\<lambda>p k. p \<longrightarrow> k) (needed_next U fr) (mask_of U fr)"
  "even_frame fr \<Longrightarrow> list_all2 (\<lambda>p k. p \<longrightarrow> k) (needed_out U fr) (mask_of U fr)"
  by (auto simp: needed_next_def needed_out_def mask_of_def list_all2_conv_all_nth)

lemma needed_covers:
  "even_frame fr \<Longrightarrow> list_all2 (\<lambda>p x. x \<in> U \<longrightarrow> p) (needed_next U fr) (frame_body fr)"
  "even_frame fr \<Longrightarrow> list_all2 (\<lambda>p x. x \<in> U \<longrightarrow> p) (needed_out U fr) (frame_results fr)"
  by (auto simp: needed_next_def needed_out_def even_frame_def list_all2_conv_all_nth)

lemma needed_for:
  "is_for_loop (frame_range fr) \<Longrightarrow> list_all2 (\<lambda>p q. q \<longrightarrow> p) (needed_next U fr) (needed_out U fr)"
  by (auto simp: needed_next_def needed_out_def list_all2_conv_all_nth)

fun jump_rel :: "var set \<Rightarrow> loop_frame \<Rightarrow> 'v outcome \<Rightarrow> 'v outcome \<Rightarrow> bool" where
  "jump_rel U fr (Continued vs) q' \<longleftrightarrow> (\<exists>ws. q' = Continued ws \<and> carries (needed_next U fr) (mask_of U fr) vs ws)"
| "jump_rel U fr (Broke vs) q' \<longleftrightarrow> (\<exists>ws. q' = Broke ws \<and> carries (needed_out U fr) (mask_of U fr) vs ws)"
| "jump_rel U fr Returned q' \<longleftrightarrow> q' = Returned"
| "jump_rel U fr _ q' \<longleftrightarrow> True"

fun end_rel :: "var set \<Rightarrow> loop_frame \<Rightarrow> 'v loop_end \<Rightarrow> 'v loop_end \<Rightarrow> bool" where
  "end_rel U fr (Finished vs) r' \<longleftrightarrow> (\<exists>ws. r' = Finished ws \<and> carries (needed_out U fr) (mask_of U fr) vs ws)"
| "end_rel U fr LoopReturned r' \<longleftrightarrow> r' = LoopReturned"

lemma loop_step_rel:
  assumes "loop_step r k = Some (e, m')"
    and "\<And>q m1. r = Some (q, m1) \<Longrightarrow> \<exists>q'. r' = Some (q', m1) \<and> jump_rel U fr q q'"
    and "\<And>vs ws m1. carries (needed_next U fr) (mask_of U fr) vs ws \<Longrightarrow> k vs m1 = Some (e, m') \<Longrightarrow>
      \<exists>e'. k' ws m1 = Some (e', m') \<and> end_rel U fr e e'"
  shows "\<exists>e'. loop_step r' k' = Some (e', m') \<and> end_rel U fr e e'"
proof -
  from assms(1) obtain q m1 where r: "r = Some (q, m1)" by (auto simp: loop_step_def split: option.splits)
  from assms(2) [OF this] obtain q' where q': "r' = Some (q', m1)" "jump_rel U fr q q'" by blast
  show ?thesis
    using assms(1) r q' assms(3) by (cases q) (auto simp: loop_step_def)
qed

lemma while_rel:
  assumes "\<And>vs ws m q m1. carries (needed_next U fr) (mask_of U fr) vs ws \<Longrightarrow> f vs m = Some (q, m1) \<Longrightarrow>
      \<exists>q'. g ws m = Some (q', m1) \<and> jump_rel U fr q q'"
  shows "carries (needed_next U fr) (mask_of U fr) vs ws \<Longrightarrow> while_iterations f n vs m = Some (e, m') \<Longrightarrow>
      \<exists>e'. while_iterations g n ws m = Some (e', m') \<and> end_rel U fr e e'"
proof (induction n arbitrary: vs ws m)
  case (Suc n)
  show ?case unfolding while_iterations.simps
    by (rule loop_step_rel [OF Suc.prems(2) [unfolded while_iterations.simps] assms [OF Suc.prems(1)] Suc.IH])
qed simp

lemma for_rel:
  assumes "\<And>i vs ws m q m1. carries (needed_next U fr) (mask_of U fr) vs ws \<Longrightarrow> f (i # vs) m = Some (q, m1) \<Longrightarrow>
      \<exists>q'. g (i # ws) m = Some (q', m1) \<and> jump_rel U fr q q'"
    and "is_for_loop (frame_range fr)"
  shows "carries (needed_next U fr) (mask_of U fr) vs ws \<Longrightarrow> for_iterations f is vs m = Some (e, m') \<Longrightarrow>
      \<exists>e'. for_iterations g is ws m = Some (e', m') \<and> end_rel U fr e e'"
proof (induction "is" arbitrary: vs ws m)
  case Nil
  then show ?case using carries_mono [OF _ needed_for [OF assms(2)]] by auto
next
  case (Cons i "is")
  show ?case unfolding for_iterations.simps
    by (rule loop_step_rel [OF Cons.prems(2) [unfolded for_iterations.simps] assms(1) [OF Cons.prems(1)] Cons.IH])
qed


lemma replace_names:
  "replace_pruned_with_dummy vs used c = Inr (ws, new_ops, c') \<Longrightarrow> var_names c \<subseteq> var_names c'"
proof (induction vs arbitrary: c ws new_ops)
  case (Cons v vs)
  show ?case
  proof (cases "v \<in> set used")
    case True
    with Cons show ?thesis by (auto simp: and_then_Inr_iff)
  next
    case False
    with Cons.prems obtain d op c1 ws' ops' where r: "make_dummy_like v c = Inr (d, op, c1)"
      "replace_pruned_with_dummy vs used c1 = Inr (ws', ops', c')" by (auto simp: and_then_Inr_iff)
    with make_dummy_like_Inr [OF r(1)] Cons.IH [OF r(2)] show ?thesis by auto
  qed
qed simp

lemma prune_names:
  "prune_block ops used names lm bm c = Inr (ops', c') \<Longrightarrow> var_names c \<subseteq> var_names c'"
proof (induction ops arbitrary: lm bm c ops' c' rule: all_defs.induct)
  case (3 i rng inits params body rs ops)
  then show ?case
    by (auto simp: and_then_Inr_iff Let_def split: if_splits dest!: replace_names "3.IH"(1) "3.IH"(2))
next
  case (4 i cd t e rs ops)
  then show ?case
    by (auto simp: and_then_Inr_iff Let_def split: if_splits dest!: "4.IH"(1) "4.IH"(2) "4.IH"(3))
next
  case (5 i k xs params body rs ops)
  then show ?case
    by (auto simp: and_then_Inr_iff Let_def split: if_splits dest!: "5.IH"(1) "5.IH"(2))
next
  case (6 vs ops)
  then show ?case by (auto simp: and_then_Inr_iff dest!: replace_names "6.IH")
next
  case (7 vs ops)
  then show ?case by (auto simp: and_then_Inr_iff dest!: replace_names "7.IH")
next
  case (2 cl opnds rs ops)
  then show ?case by (auto simp: and_then_Inr_iff dest!: "2.IH")
next
  case (8 vs ops)
  then show ?case by (auto simp: and_then_Inr_iff dest!: "8.IH")
next
  case (9 ops)
  then show ?case by (auto simp: and_then_Inr_iff dest!: "9.IH")
qed simp

text \<open>How the original and the pruned block end together.\<close>

definition masks_ok :: "var set \<Rightarrow> loop_frame option \<Rightarrow> bool list \<Rightarrow> var list option \<Rightarrow> bool list \<Rightarrow> bool" where
  "masks_ok U l lm t bm \<longleftrightarrow>
     (\<forall>fr. l = Some fr \<longrightarrow> lm = mask_of U fr \<and> even_frame fr) \<and> (\<forall>rs. t = Some rs \<longrightarrow> bm = map (\<lambda>r. r \<in> U) rs)"

fun out_rel :: "var set \<Rightarrow> loop_frame option \<Rightarrow> var list option \<Rightarrow> 'v outcome \<Rightarrow> 'v outcome \<Rightarrow> bool" where
  "out_rel U l t (Fell env) q' \<longleftrightarrow> (\<exists>env'. q' = Fell env')"
| "out_rel U l t (Yielded vs) q' \<longleftrightarrow>
     (\<exists>rs. t = Some rs \<and> length rs = length vs \<and> q' = Yielded (sel (map (\<lambda>r. r \<in> U) rs) vs))"
| "out_rel U l t q q' \<longleftrightarrow> q = Returned \<and> q' = Returned \<or> (\<exists>fr. l = Some fr \<and> jump_rel U fr q q')"

lemma jump_exec:
  assumes "makes_dummies M" and "respects_effects M"
    and "replace_pruned_with_dummy (sel K vs) used c = Inr (ws, new_ops, c')" and "set used \<subseteq> var_names c"
    and "covers (set used) env env'" and "those (map env vs) = Some xs"
    and "list_all2 (\<lambda>p v. p \<longrightarrow> v \<in> set used) P vs" and "list_all2 (\<lambda>p k. p \<longrightarrow> k) P K"
  shows "\<exists>e ys. (\<forall>ops. exec M n (new_ops @ ops) env' m = exec M n ops e m) \<and> covers (set used) env e
    \<and> those (map e ws) = Some ys \<and> carries P K xs ys \<and> set used \<subseteq> var_names c'"
proof -
  have v: "list_all2 (\<lambda>v x. env v = Some x) (sel K vs) (sel K xs)"
    using assms(6) by (simp add: those_list_all2 list_all2_sel)
  from dummies_run [OF assms(1,2,3,4) v assms(5)] obtain e ys where
    e: "set used \<subseteq> var_names c'" "\<forall>ops. exec M n (new_ops @ ops) env' m = exec M n ops e m"
      "\<forall>v\<in>var_names c. e v = env' v" "those (map e ws) = Some ys"
      "list_all2 (\<lambda>v (x, y). v \<in> set used \<longrightarrow> x = y) (sel K vs) (zip (sel K xs) ys)" "length ys = length (sel K xs)"
    by blast
  have l: "length K = length xs"
    using assms(6,7,8) by (auto simp: those_list_all2 dest!: list_all2_lengthD)
  have "carries P K xs ys" by (rule carries_sel [OF l assms(7,8) e(5,6)])
  moreover have "covers (set used) env e" using e(3) assms(4,5) by (auto simp: covers_def)
  ultimately show ?thesis using e by blast
qed

lemma out_jump: "out_rel U (Some fr) None q q' \<Longrightarrow> jump_rel U fr q q'"
  by (cases q) auto

lemma frame_bind:
  assumes "covers U env env'" and "even_frame fr" and "carries (needed_next U fr) (mask_of U fr) vs ws"
    and "is_for_loop (frame_range fr) \<Longrightarrow> frame_params fr \<noteq> []"
    and "bind_vars env (frame_params fr) (if is_for_loop (frame_range fr) then i # vs else vs) = Some e"
  shows "\<exists>e'. bind_vars env' (if is_for_loop (frame_range fr) then hd (frame_params fr) # sel (mask_of U fr) (frame_body fr)
        else sel (mask_of U fr) (frame_body fr)) (if is_for_loop (frame_range fr) then i # ws else ws) = Some e'
      \<and> covers U e e'"
proof (cases "is_for_loop (frame_range fr)")
  case True
  then have p: "frame_params fr = hd (frame_params fr) # frame_body fr"
    using assms(4) by (simp add: frame_body_def body_vars_def)
  have c: "carries (True # needed_next U fr) (True # mask_of U fr) (i # vs) (i # ws)" using assms(3) by simp
  have l: "list_all2 (\<lambda>p x. x \<in> U \<longrightarrow> p) (True # needed_next U fr) (frame_params fr)"
    using needed_covers(1) [OF assms(2), of U] by (subst p) simp
  have s: "sel (True # mask_of U fr) (frame_params fr) = hd (frame_params fr) # sel (mask_of U fr) (frame_body fr)"
    by (subst p) simp
  have "bind_vars env (frame_params fr) (i # vs) = Some e" using assms(5) True by simp
  from bind_sel [OF assms(1) this c l] show ?thesis using True by (simp only: s if_True)
next
  case False
  then have "frame_params fr = frame_body fr" by (simp add: frame_body_def body_vars_def)
  then show ?thesis
    using False assms(5) bind_sel [OF assms(1) _ assms(3) needed_covers(1) [OF assms(2)], of e] by auto
qed

lemma loop_rel:
  assumes "covers U env env'" and "even_frame fr" and "is_for_loop rng \<Longrightarrow> params \<noteq> []"
    and fr: "frame_range fr = rng" "frame_params fr = params"
    and "\<And>e e' m q m1. covers U e e' \<Longrightarrow> b e m = Some (q, m1) \<Longrightarrow> \<exists>q'. b' e' m = Some (q', m1) \<and> jump_rel U fr q q'"
    and "set (range_vars rng) \<subseteq> U" and "those (map env inits) = Some xs" and "those (map env' inits') = Some ys"
    and "carries (needed_next U fr) (mask_of U fr) xs ys"
    and "run_loop M n rng inits params b env m = Some (r, m')"
  shows "\<exists>r'. run_loop M n rng inits' (if is_for_loop rng then hd params # sel (mask_of U fr) (frame_body fr)
        else sel (mask_of U fr) (frame_body fr)) b' env' m = Some (r', m') \<and> end_rel U fr r r'"
proof -
  define params' where "params' = (if is_for_loop rng then hd params # sel (mask_of U fr) (frame_body fr)
        else sel (mask_of U fr) (frame_body fr))"
  define f where "f = (\<lambda>vs m. Option.bind (bind_vars env params vs) (\<lambda>e. b e m))"
  define g where "g = (\<lambda>vs m. Option.bind (bind_vars env' params' vs) (\<lambda>e. b' e m))"
  have step: "\<exists>q'. g (if is_for_loop rng then i # ws else ws) m0 = Some (q', m1) \<and> jump_rel U fr q q'"
    if "carries (needed_next U fr) (mask_of U fr) vs ws" "f (if is_for_loop rng then i # vs else vs) m0 = Some (q, m1)"
    for i vs ws m0 q m1
  proof -
    from that(2) obtain e where e: "bind_vars env params (if is_for_loop rng then i # vs else vs) = Some e"
      "b e m0 = Some (q, m1)" by (auto simp: f_def bind_eq_Some_conv)
    from frame_bind [OF assms(1,2) that(1), of i e] assms(3) e(1) obtain e' where
      e': "bind_vars env' params' (if is_for_loop rng then i # ws else ws) = Some e'" "covers U e e'"
      unfolding params'_def fr by blast
    from assms(6) [OF e'(2) e(2)] e'(1) show ?thesis by (auto simp: g_def)
  qed
  have i': "run_loop M n rng inits' params' b' env' m =
      (case rng of None \<Rightarrow> while_iterations g n ys m
       | Some (a, b, s) \<Rightarrow> Option.bind (env' a) (\<lambda>va. Option.bind (env' b) (\<lambda>vb. Option.bind (env' s) (\<lambda>vs'.
               for_iterations g (range_values M va vb vs') ys m))))"
    unfolding run_loop_def g_def [symmetric] by (simp add: assms(9))
  have i: "(case rng of None \<Rightarrow> while_iterations f n xs m
       | Some (a, b, s) \<Rightarrow> Option.bind (env a) (\<lambda>va. Option.bind (env b) (\<lambda>vb. Option.bind (env s) (\<lambda>vs'.
               for_iterations f (range_values M va vb vs') xs m)))) = Some (r, m')"
    using assms(11) unfolding run_loop_def f_def [symmetric] by (simp add: assms(8))
  have "\<exists>r'. run_loop M n rng inits' params' b' env' m = Some (r', m') \<and> end_rel U fr r r'"
  proof (cases rng)
    case None
    then have "is_for_loop rng = False" by (simp add: is_for_loop_def)
    then have s: "\<exists>q'. g ws m0 = Some (q', m1) \<and> jump_rel U fr q q'"
      if "carries (needed_next U fr) (mask_of U fr) vs ws" "f vs m0 = Some (q, m1)" for vs ws m0 q m1
      using step [of vs ws _ m0 q m1] that by simp
    have w: "while_iterations f n xs m = Some (r, m')" using i None by simp
    have "\<exists>e'. while_iterations g n ys m = Some (e', m') \<and> end_rel U fr r e'"
      by (rule while_rel [OF s assms(10) w])
    then show ?thesis unfolding i' using None by simp
  next
    case (Some t)
    obtain a b' s where t: "rng = Some (a, b', s)" using Some by (cases t) auto
    then have fl: "is_for_loop rng = True" by (simp add: is_for_loop_def)
    then have st: "\<exists>q'. g (i # ws) m0 = Some (q', m1) \<and> jump_rel U fr q q'"
      if "carries (needed_next U fr) (mask_of U fr) vs ws" "f (i # vs) m0 = Some (q, m1)" for i vs ws m0 q m1
      using step [of vs ws i m0 q m1] that by simp
    have fl': "is_for_loop (frame_range fr)" using fl fr by simp
    from i t obtain va vb vs' where v: "env a = Some va" "env b' = Some vb" "env s = Some vs'"
      "for_iterations f (range_values M va vb vs') xs m = Some (r, m')" by (auto simp: bind_eq_Some_conv)
    then have "env' a = Some va" "env' b' = Some vb" "env' s = Some vs'"
      using assms(1,7) t by (auto simp: covers_def range_vars_def)
    moreover have "\<exists>e'. for_iterations g (range_values M va vb vs') ys m = Some (e', m') \<and> end_rel U fr r e'"
      by (rule for_rel [where f = f and g = g, OF _ fl' assms(10) v(4)]) (rule st)
    ultimately show ?thesis unfolding i' using t by simp
  qed
  then show ?thesis by (simp only: params'_def)
qed

lemma live_sim:
  assumes M: "respects_effects M" "makes_dummies M" and U: "U = set used"
  shows "live U (map_of names) ops l t cf \<Longrightarrow> within U cf \<Longrightarrow> loop_used U l \<and> masks_ok U l lm t bm \<Longrightarrow>
    prune_block ops used names lm bm c = Inr (ops', c') \<Longrightarrow> U \<subseteq> var_names c \<Longrightarrow> covers U env env' \<Longrightarrow>
    exec M n ops env m = Some (q, m') \<Longrightarrow>
    \<exists>q'. exec M n ops' env' m = Some (q', m') \<and> out_rel U l t q q'"
proof (induction ops arbitrary: l t cf lm bm c ops' c' env env' m q m' rule: all_defs.induct)
  case (2 cl opnds rs ops)
  from "2.prems"(4) obtain ops1 c1 where p: "prune_block ops used names lm bm c = Inr (ops1, c1)"
    "ops' = (if (\<exists>r\<in>set rs. r \<in> U) \<or> class_effect cl = EFFECT_STORE then Plain cl opnds rs # ops1 else ops1)"
    by (auto simp: and_then_Inr_iff must_keep_def U)
  from "2.prems"(7) obtain args where args: "eval_operands env opnds = Some args"
    "(case run_op M cl (map (types M) rs) args m of (outs, m1) \<Rightarrow>
         Option.bind (bind_vars env rs outs) (\<lambda>env'. exec M n ops env' m1)) = Some (q, m')"
    by (auto simp: bind_eq_Some_conv)
  obtain outs m1 where s: "run_op M cl (map (types M) rs) args m = (outs, m1)" by fastforce
  with args obtain e where e: "bind_vars env rs outs = Some e" "exec M n ops e m1 = Some (q, m')"
    by (auto simp: bind_eq_Some_conv)
  have rest: "live U (map_of names) ops l t cf" using "2.prems"(1) by simp
  show ?case
  proof (cases "(\<exists>r\<in>set rs. r \<in> U) \<or> class_effect cl = EFFECT_STORE")
    case True
    then have "set (operands_vars opnds) \<subseteq> U" using "2.prems"(1) by auto
    then have a': "eval_operands env' opnds = Some args" by (rule covers_operands [OF "2.prems"(6) _ args(1)])
    from bind_same [OF "2.prems"(6) e(1)] obtain e' where e': "bind_vars env' rs outs = Some e'" "covers U e e'" by blast
    from "2.IH" [OF rest "2.prems"(2,3) p(1) "2.prems"(5) e'(2) e(2)] show ?thesis
      using True a' s e' p(2) by simp
  next
    case False
    then have "class_effect cl \<noteq> EFFECT_STORE" "set rs \<inter> U = {}" by auto
    then have "m1 = m" using M(1) s unfolding respects_effects_def by (metis snd_conv)
    with "2.IH" [OF rest "2.prems"(2,3) p(1) "2.prems"(5) bind_unused [OF "2.prems"(6) e(1)] e(2)] False p(2)
    show ?thesis by auto
  qed
next
  case (3 i rng inits params body rs ops)
  from "3.prems"(1) obtain name where name: "map_of names i = Some name"
    and used: "name \<in> U \<longrightarrow> within U cf \<and> set (range_vars rng) \<subseteq> U"
    and defs: "\<forall>v\<in>set rs \<union> set (body_vars rng params). v \<in> U \<longrightarrow> name \<in> U"
    and pne: "is_for_loop rng \<longrightarrow> params \<noteq> []" and rest: "live U (map_of names) ops l t cf"
    and nested: "loop_flows U \<lparr>frame_name = name, frame_range = rng, frame_params = params, frame_results = rs\<rparr> inits"
      "live U (map_of names) body (Some \<lparr>frame_name = name, frame_range = rng, frame_params = params, frame_results = rs\<rparr>)
        None (Some name)" by auto
  define fr where "fr = \<lparr>frame_name = name, frame_range = rng, frame_params = params, frame_results = rs\<rparr>"
  have fr: "frame_range fr = rng" "frame_params fr = params" "frame_results fr = rs" "frame_name fr = name"
    "frame_body fr = body_vars rng params" by (simp_all add: fr_def frame_body_def)
  note nx = loop_flows_next [OF nested(1) [folded fr_def]]
  from "3.prems"(7) obtain r m1 where r: "run_loop M n rng inits params (exec M n body) env m = Some (r, m1)"
    "(case r of LoopReturned \<Rightarrow> Some (Returned, m1)
       | Finished vs \<Rightarrow> Option.bind (bind_vars env rs vs) (\<lambda>env'. exec M n ops env' m1)) = Some (q, m')"
    by (auto simp: bind_eq_Some_conv split: prod.splits)
  show ?case
  proof (cases "name \<in> U")
    case False
    then have "prune_block ops used names lm bm c = Inr (ops', c')"
      using "3.prems"(4) name by (simp add: cf_name_def U)
    have d: "m1 = m \<and> r \<noteq> LoopReturned"
    proof -
      have "live U (map_of names) [Loop i rng inits params body rs] None None (Some name)"
        using "3.prems"(1) used name False by auto
      moreover have "\<not> within U (Some name)" using False by (simp add: within_def option_list_def)
      moreover have "\<exists>q0. exec M n [Loop i rng inits params body rs] env m = Some (q0, m1) \<and> (r = LoopReturned \<longrightarrow> q0 = Returned)"
        using r by (cases r) (auto simp: bind_eq_Some_conv split: option.splits)
      ultimately show ?thesis using dead_exec [OF M(1)] by (metis dead_outcome.simps(1))
    qed
    then obtain vs e where e: "bind_vars env rs vs = Some e" "exec M n ops e m = Some (q, m')"
      using r(2) by (cases r) (auto simp: bind_eq_Some_conv)
    moreover have "set rs \<inter> U = {}" using defs False by auto
    ultimately have "covers U e env'" using bind_unused [OF "3.prems"(6)] by blast
    from "3.IH"(2) [OF rest "3.prems"(2,3) _ "3.prems"(5) this e(2)] show ?thesis
      using \<open>prune_block ops used names lm bm c = Inr (ops', c')\<close> by blast
  next
    case True
    have keep: "map (\<lambda>(b, r). b \<in> U \<or> r \<in> U) (zip (body_vars rng params) rs) = mask_of U fr"
      by (simp add: mask_of_def fr)
    from "3.prems"(4) True name obtain inits' new_ops c1 body' c2 ops1 where
      p: "replace_pruned_with_dummy (sel (mask_of U fr) inits) used c = Inr (inits', new_ops, c1)"
        "prune_block body used names (mask_of U fr) [] c1 = Inr (body', c2)"
        "prune_block ops used names lm bm c2 = Inr (ops1, c')"
        "ops' = new_ops @ Loop i rng inits' (if is_for_loop rng then hd params # sel (mask_of U fr) (frame_body fr)
           else sel (mask_of U fr) (frame_body fr)) body' (sel (mask_of U fr) rs) # ops1"
      by (auto simp: and_then_Inr_iff cf_name_def Let_def strict_zip_def select_by_mask_Inr keep U [symmetric] fr
          split: if_splits)
    obtain xs where xs: "those (map env inits) = Some xs"
      using r(1) by (auto simp: run_loop_def Let_def bind_eq_Some_conv)
    from jump_exec [OF M(2,1) p(1) _ _ xs, of env' "needed_next U fr" n m] "3.prems"(5,6) nx needed_mask(1) [of fr U]
    obtain e ys where e: "\<forall>ops. exec M n (new_ops @ ops) env' m = exec M n ops e m" "covers U env e"
      "those (map e inits') = Some ys" "carries (needed_next U fr) (mask_of U fr) xs ys" "U \<subseteq> var_names c1"
      by (auto simp: U)
    have body: "\<exists>q'. exec M n body' e2 m0 = Some (q', m2) \<and> jump_rel U fr q1 q'"
      if "covers U e1 e2" "exec M n body e1 m0 = Some (q1, m2)" for e1 e2 m0 q1 m2
    proof -
      have "within U (Some name)" using True by (simp add: within_def option_list_def)
      moreover have "loop_used U (Some fr) \<and> masks_ok U (Some fr) (mask_of U fr) None []"
        using nx True by (simp add: masks_ok_def loop_used_def fr)
      ultimately show ?thesis
        using "3.IH"(1) [OF nested(2) [folded fr_def] _ _ p(2) e(5) that] out_jump by blast
    qed
    have "\<exists>r'. run_loop M n rng inits' (if is_for_loop rng then hd params # sel (mask_of U fr) (frame_body fr)
        else sel (mask_of U fr) (frame_body fr)) (exec M n body') e m = Some (r', m1) \<and> end_rel U fr r r'"
      by (rule loop_rel [where b = "exec M n body" and b' = "exec M n body'",
            OF e(2) conjunct1 [OF nx] _ fr(1,2) _ _ xs e(3,4) r(1)])
        (use pne used True body in auto)
    then obtain r' where r': "run_loop M n rng inits' (if is_for_loop rng then hd params # sel (mask_of U fr) (frame_body fr)
        else sel (mask_of U fr) (frame_body fr)) (exec M n body') e m = Some (r', m1)" "end_rel U fr r r'" by blast
    have names: "U \<subseteq> var_names c2" using prune_names [OF p(2)] e(5) by blast
    show ?thesis
    proof (cases r)
      case LoopReturned
      then show ?thesis using r r' p(4) e(1) by auto
    next
      case (Finished vs)
      with r(2) obtain e1 where e1: "bind_vars env rs vs = Some e1" "exec M n ops e1 m1 = Some (q, m')"
        by (auto simp: bind_eq_Some_conv)
      from Finished r'(2) obtain ws where ws: "r' = Finished ws" "carries (needed_out U fr) (mask_of U fr) vs ws" by auto
      from bind_sel [OF e(2) e1(1) ws(2)] needed_covers(2) [OF conjunct1 [OF nx], of U] obtain e2 where
        e2: "bind_vars e (sel (mask_of U fr) rs) ws = Some e2" "covers U e1 e2" by (auto simp: fr)
      from "3.IH"(2) [OF rest "3.prems"(2,3) p(3) names e2(2) e1(2)] show ?thesis
        using r'(1) ws(1) e2(1) e(1) p(4) by auto
    qed
  qed
next
  case (4 i cd th el rs ops)
  from "4.prems"(1) obtain name where name: "map_of names i = Some name"
    and used: "name \<in> U \<longrightarrow> within U cf \<and> cd \<in> U"
    and defs: "\<forall>v\<in>set rs. v \<in> U \<longrightarrow> name \<in> U" and rest: "live U (map_of names) ops l t cf"
    and nested: "live U (map_of names) th l (Some rs) (Some name)" "live U (map_of names) el l (Some rs) (Some name)"
    by auto
  define K where "K = map (\<lambda>r. r \<in> U) rs"
  from "4.prems"(7) obtain x where x: "env cd = Some x"
    and bs: "branch_step (if truth M x then exec M n th env m else exec M n el env m)
         (\<lambda>vs m'. Option.bind (bind_vars env rs vs) (\<lambda>env'. exec M n ops env' m')) = Some (q, m')"
    by (auto simp: bind_eq_Some_conv)
  then obtain q1 m1 where r: "(if truth M x then exec M n th env m else exec M n el env m) = Some (q1, m1)"
    by (cases "if truth M x then exec M n th env m else exec M n el env m") (auto simp: branch_step_def)
  have stop: "\<exists>e. exec M n ops e m1 = Some (q, m') \<and> bind_vars env rs vs = Some e" if "q1 = Yielded vs" for vs
    using bs r that by (auto simp: branch_step_def bind_eq_Some_conv)
  have jump: "q = q1 \<and> m' = m1 \<and> (\<forall>e. q1 \<noteq> Fell e)" if "\<forall>vs. q1 \<noteq> Yielded vs"
    using bs r that by (cases q1) (auto simp: branch_step_def)
  show ?case
  proof (cases "name \<in> U")
    case False
    have p: "prune_block ops used names lm bm c = Inr (ops', c')"
      using "4.prems"(4) name False by (simp add: cf_name_def U)
    have nw: "\<not> within U (Some name)" using False by (simp add: within_def option_list_def)
    have d: "m1 = m \<and> dead_outcome (loop_used U l) q1"
      using dead_exec [OF M(1) nested(1) nw] dead_exec [OF M(1) nested(2) nw] r by (auto split: if_splits)
    show ?thesis
    proof (cases "\<exists>vs. q1 = Yielded vs")
      case True
      then obtain vs e where e: "exec M n ops e m1 = Some (q, m')" "bind_vars env rs vs = Some e" using stop by blast
      have "set rs \<inter> U = {}" using defs False by auto
      with bind_unused [OF "4.prems"(6) e(2)] have "covers U e env'" by blast
      from "4.IH"(3) [OF rest "4.prems"(2,3) p "4.prems"(5) this] e(1) d show ?thesis by blast
    next
      case False
      then show ?thesis using d jump "4.prems"(3) by (cases q1) auto
    qed
  next
    case True
    from "4.prems"(4) True name obtain th' c1 el' c2 ops1 where
      p: "prune_block th used names lm K c = Inr (th', c1)" "prune_block el used names lm K c1 = Inr (el', c2)"
        "prune_block ops used names lm bm c2 = Inr (ops1, c')" "ops' = IfElse i cd th' el' (sel K rs) # ops1"
      by (auto simp: and_then_Inr_iff cf_name_def Let_def select_by_mask_Inr K_def U)
    have names: "U \<subseteq> var_names c1" "U \<subseteq> var_names c2"
      using prune_names [OF p(1)] prune_names [OF p(2)] "4.prems"(5) by auto
    have w: "within U (Some name)" using True by (simp add: within_def option_list_def)
    have mk: "loop_used U l \<and> masks_ok U l lm (Some rs) K" using "4.prems"(3) by (simp add: masks_ok_def K_def)
    have x': "env' cd = Some x" using x used True "4.prems"(6) by (auto simp: covers_def)
    have "\<exists>q'. (if truth M x then exec M n th' env' m else exec M n el' env' m) = Some (q', m1) \<and> out_rel U l (Some rs) q1 q'"
      using r "4.IH"(1) [OF nested(1) w mk p(1) "4.prems"(5,6)] "4.IH"(2) [OF nested(2) w mk p(2) names(1) "4.prems"(6)]
      by (auto split: if_splits)
    then obtain q' where q': "(if truth M x then exec M n th' env' m else exec M n el' env' m) = Some (q', m1)"
      "out_rel U l (Some rs) q1 q'" by blast
    show ?thesis
    proof (cases "\<exists>vs. q1 = Yielded vs")
      case True
      then obtain vs e where e: "q1 = Yielded vs" "exec M n ops e m1 = Some (q, m')" "bind_vars env rs vs = Some e"
        using stop by blast
      from e(1) q'(2) have y: "q' = Yielded (sel K vs)" "length rs = length vs" by (auto simp: K_def)
      have "carries K K vs (sel K vs)" using y(2) by (intro carries_self) (simp add: K_def)
      moreover have "list_all2 (\<lambda>p x. x \<in> U \<longrightarrow> p) K rs" by (simp add: K_def list_all2_conv_all_nth)
      ultimately obtain e' where e': "bind_vars env' (sel K rs) (sel K vs) = Some e'" "covers U e e'"
        using bind_sel [OF "4.prems"(6) e(3)] by blast
      from "4.IH"(3) [OF rest "4.prems"(2,3) p(3) names(2) e'(2) e(2)] show ?thesis
        using p(4) x' q'(1) y(1) e'(1) by (auto simp: branch_step_def)
    next
      case False
      with jump have j: "q = q1" "m' = m1" "\<forall>e. q1 \<noteq> Fell e" by auto
      have "exec M n ops' env' m = Some (q', m')"
        using p(4) x' q' j False by (cases q1) (auto simp: branch_step_def)
      then show ?thesis using q'(2) j False by (cases q1) auto
    qed
  qed
next
  case (6 vs ops)
  from "6.prems"(1) obtain fr where fr: "l = Some fr" "loop_flows U fr vs" by auto
  note f = loop_flows_next [OF fr(2)]
  from "6.prems"(3) fr have lm: "lm = mask_of U fr" by (simp add: masks_ok_def)
  from "6.prems"(4) obtain ws new_ops c1 ops1 where
    r: "replace_pruned_with_dummy (sel lm vs) used c = Inr (ws, new_ops, c1)" "ops' = new_ops @ Continue ws # ops1"
    by (auto simp: and_then_Inr_iff select_by_mask_Inr)
  from "6.prems"(7) obtain xs where xs: "those (map env vs) = Some xs" "q = Continued xs" "m' = m" by auto
  from jump_exec [OF M(2,1) r(1) _ _ xs(1), of env' "needed_next U fr" n m] "6.prems"(5,6) f needed_mask(1) [of fr U]
  obtain e ys where "\<forall>ops. exec M n (new_ops @ ops) env' m = exec M n ops e m" "those (map e ws) = Some ys"
    "carries (needed_next U fr) lm xs ys" by (auto simp: U lm)
  then show ?case using xs r(2) fr lm by auto
next
  case (7 vs ops)
  from "7.prems"(1) obtain fr where fr: "l = Some fr" "flows U (frame_results fr) vs" by auto
  from "7.prems"(3) fr have lm: "lm = mask_of U fr" "even_frame fr" by (simp_all add: masks_ok_def)
  note f = flows_out [OF fr(2) lm(2)]
  from "7.prems"(4) obtain ws new_ops c1 ops1 where
    r: "replace_pruned_with_dummy (sel lm vs) used c = Inr (ws, new_ops, c1)" "ops' = new_ops @ Break ws # ops1"
    by (auto simp: and_then_Inr_iff select_by_mask_Inr)
  from "7.prems"(7) obtain xs where xs: "those (map env vs) = Some xs" "q = Broke xs" "m' = m" by auto
  from jump_exec [OF M(2,1) r(1) _ _ xs(1), of env' "needed_out U fr" n m] "7.prems"(5,6) f needed_mask(2) [of fr U] lm
  obtain e ys where "\<forall>ops. exec M n (new_ops @ ops) env' m = exec M n ops e m" "those (map e ws) = Some ys"
    "carries (needed_out U fr) lm xs ys" by (auto simp: U lm)
  then show ?case using xs r(2) fr lm by auto
next
  case (8 vs ops)
  from "8.prems"(1) obtain rs where rs: "t = Some rs" "flows U rs vs" by auto
  from "8.prems"(3) rs have bm: "bm = map (\<lambda>r. r \<in> U) rs" by (simp add: masks_ok_def)
  from "8.prems"(4) obtain ops1 where r: "ops' = EndBranch (sel bm vs) # ops1"
    by (auto simp: and_then_Inr_iff select_by_mask_Inr)
  from "8.prems"(7) obtain xs where xs: "those (map env vs) = Some xs" "q = Yielded xs" "m' = m" by auto
  have "set (sel bm vs) \<subseteq> U" using rs(2) unfolding bm flows_def by (induction rs vs rule: list_all2_induct) auto
  moreover have "those (map env (sel bm vs)) = Some (sel bm xs)"
    using xs(1) by (simp add: those_list_all2 list_all2_sel)
  ultimately have "those (map env' (sel bm vs)) = Some (sel bm xs)" by (rule covers_map [OF "8.prems"(6)])
  moreover have "length rs = length xs"
    using rs(2) xs(1) by (auto simp: flows_def those_list_all2 dest!: list_all2_lengthD)
  ultimately show ?case using xs r rs bm by simp
next
  case 9
  then show ?case by (auto simp: and_then_Inr_iff must_keep_def)
qed auto

end
