(* ===== verification/DceGraph.thy ===== *)
theory DceGraph
  imports DceSim
begin

text \<open>
  The graph pass of dead code elimination succeeds on well-formed kernels, and every set of
  variables that contains the used ones and is closed under its graph is consistent with
  the kernel.
\<close>

section \<open>Well-formed blocks\<close>

text \<open>The jumps carry as many values as their target expects.\<close>

fun attrs_length :: "reduce_attrs \<Rightarrow> nat" where
  "attrs_length (ReduceAttrs ids axis) = length ids"
| "attrs_length (ScanAttrs ids axis reverse) = length ids"

fun arity :: "operation list \<Rightarrow> nat option \<Rightarrow> nat option \<Rightarrow> bool" where
  "arity [] l t = True"
| "arity (Plain cl opnds rs # ops) l t \<longleftrightarrow> arity ops l t"
| "arity (Loop i rng inits params body rs # ops) l t \<longleftrightarrow>
     length inits = length rs \<and> length (body_vars rng params) = length rs \<and> (is_for_loop rng \<longrightarrow> params \<noteq> [])
     \<and> arity body (Some (length rs)) None \<and> arity ops l t"
| "arity (IfElse i c th el rs # ops) l t \<longleftrightarrow>
     arity th l (Some (length rs)) \<and> arity el l (Some (length rs)) \<and> arity ops l t"
| "arity (Reduction i k xs params body rs # ops) l t \<longleftrightarrow>
     length xs = length rs \<and> length params = length xs * 2 \<and> attrs_length k = length xs
     \<and> arity body None (Some (length rs)) \<and> arity ops l t"
| "arity (Continue vs # ops) l t \<longleftrightarrow> l = Some (length vs) \<and> arity ops l t"
| "arity (Break vs # ops) l t \<longleftrightarrow> l = Some (length vs) \<and> arity ops l t"
| "arity (EndBranch vs # ops) l t \<longleftrightarrow> t = Some (length vs) \<and> arity ops l t"
| "arity (Return # ops) l t \<longleftrightarrow> arity ops l t"

text \<open>The numbers of the objects of a block.\<close>

fun op_ids :: "operation list \<Rightarrow> nat list" where
  "op_ids [] = []"
| "op_ids (Loop i rng inits params body rs # ops) = i # op_ids body @ op_ids ops"
| "op_ids (IfElse i c t e rs # ops) = i # op_ids t @ op_ids e @ op_ids ops"
| "op_ids (Reduction i k xs params body rs # ops) = i # op_ids body @ op_ids ops"
| "op_ids (op # ops) = op_ids ops"

section \<open>Growth of the state\<close>

definition keys :: "dce_state \<Rightarrow> var set" where
  "keys st = dom (map_of (df_graph st))"

definition deps :: "dce_state \<Rightarrow> var \<Rightarrow> var set" where
  "deps st x = set (deps_of (df_graph st) x)"

definition objs :: "dce_state \<Rightarrow> nat set" where
  "objs st = dom (map_of (op_to_cf_name st))"

definition names_of :: "dce_state \<Rightarrow> var set" where
  "names_of st = var_names (df_ctx st)"

definition grows :: "var set \<Rightarrow> nat set \<Rightarrow> dce_state \<Rightarrow> dce_state \<Rightarrow> bool" where
  "grows D I st st' \<longleftrightarrow>
     (\<forall>x. deps st x \<subseteq> deps st' x) \<and> set (df_used st) \<subseteq> set (df_used st')
     \<and> map_of (op_to_cf_name st) \<subseteq>\<^sub>m map_of (op_to_cf_name st')
     \<and> objs st' \<subseteq> objs st \<union> I
     \<and> keys st \<subseteq> keys st' \<and> keys st' \<subseteq> keys st \<union> D \<union> (names_of st' - names_of st)
     \<and> names_of st \<subseteq> names_of st' \<and> typemap (df_ctx st') = typemap (df_ctx st)"

definition vars_ok :: "dce_state \<Rightarrow> bool" where
  "vars_ok st \<longleftrightarrow> keys st \<subseteq> names_of st \<and> (\<forall>x. deps st x \<subseteq> names_of st) \<and> set (df_used st) \<subseteq> names_of st"

definition closed :: "var set \<Rightarrow> dce_state \<Rightarrow> bool" where
  "closed U st \<longleftrightarrow> set (df_used st) \<subseteq> U \<and> (\<forall>x\<in>U. deps st x \<subseteq> U)"

lemma grows_refl: "grows {} {} st st"
  by (simp add: grows_def)

lemma grows_trans:
  assumes "grows D I st st1" and "grows D' I' st1 st2"
  shows "grows (D \<union> D') (I \<union> I') st st2"
proof -
  note g = assms [unfolded grows_def]
  have "keys st1 \<subseteq> keys st \<union> D \<union> (names_of st1 - names_of st)" "keys st2 \<subseteq> keys st1 \<union> D' \<union> (names_of st2 - names_of st1)"
    "names_of st \<subseteq> names_of st1" "names_of st1 \<subseteq> names_of st2" using g by simp_all
  then have k: "keys st2 \<subseteq> keys st \<union> (D \<union> D') \<union> (names_of st2 - names_of st)" by blast
  have o: "objs st2 \<subseteq> objs st \<union> (I \<union> I')" using g by (elim conjE) blast
  have d: "\<forall>x. deps st x \<subseteq> deps st2 x" using g by (elim conjE) blast
  show ?thesis unfolding grows_def using g k o d by (auto intro: map_le_trans)
qed

lemma grows_weaken: "grows D I st st' \<Longrightarrow> D \<subseteq> D' \<Longrightarrow> I \<subseteq> I' \<Longrightarrow> grows D' I' st st'"
  unfolding grows_def by auto

lemma closed_back: "grows D I st st' \<Longrightarrow> closed U st' \<Longrightarrow> closed U st"
  unfolding grows_def closed_def by blast

lemma closedD: "closed U st \<Longrightarrow> x \<in> U \<Longrightarrow> d \<in> deps st x \<Longrightarrow> d \<in> U"
  unfolding closed_def by blast

lemma deps_set_deps: "deps (set_deps x ds st) y = (if y = x then set ds else deps st y)"
  by (cases "y = x") (simp_all add: deps_def deps_of_def set_deps_def update_conv')

lemma keys_set_deps: "keys (set_deps x ds st) = insert x (keys st)"
  by (simp add: keys_def set_deps_def update_conv')

lemma set_deps_same [simp]:
  "df_used (set_deps x ds st) = df_used st" "op_to_cf_name (set_deps x ds st) = op_to_cf_name st"
  "df_ctx (set_deps x ds st) = df_ctx st" "objs (set_deps x ds st) = objs st" "names_of (set_deps x ds st) = names_of st"
  by (simp_all add: set_deps_def names_of_def objs_def)

lemma no_deps: "x \<notin> keys st \<Longrightarrow> deps st x = {}"
  by (auto simp: keys_def deps_def deps_of_def domIff)

lemma set_deps_grows:
  assumes "x \<notin> keys st" and "x \<in> names_of st" and "set ds \<subseteq> names_of st" and "vars_ok st"
  shows "grows {x} {} st (set_deps x ds st) \<and> vars_ok (set_deps x ds st)"
  using assms no_deps [OF assms(1)] by (auto simp: grows_def vars_ok_def deps_set_deps keys_set_deps)

definition set_all :: "(var \<times> var list) list \<Rightarrow> dce_state \<Rightarrow> dce_state" where
  "set_all = fold (\<lambda>(x, ds). set_deps x ds)"

lemma set_all_grows:
  assumes "distinct (map fst xs)" and "fst ` set xs \<inter> keys st = {}" and "fst ` set xs \<subseteq> names_of st"
    and "\<And>x ds. (x, ds) \<in> set xs \<Longrightarrow> set ds \<subseteq> names_of st" and "vars_ok st"
  shows "grows (fst ` set xs) {} st (set_all xs st) \<and> vars_ok (set_all xs st)
    \<and> keys (set_all xs st) = keys st \<union> fst ` set xs \<and> names_of (set_all xs st) = names_of st
    \<and> (\<forall>(x, ds)\<in>set xs. deps (set_all xs st) x = set ds)
    \<and> (\<forall>x. x \<notin> fst ` set xs \<longrightarrow> deps (set_all xs st) x = deps st x)
    \<and> op_to_cf_name (set_all xs st) = op_to_cf_name st"
  using assms
proof (induction xs arbitrary: st)
  case Nil
  then show ?case by (simp add: set_all_def grows_refl)
next
  case (Cons p xs)
  obtain x ds where p: "p = (x, ds)" by (cases p)
  let ?st = "set_deps x ds st"
  have g: "grows {x} {} st ?st" "vars_ok ?st" using set_deps_grows [of x st ds] Cons.prems p by auto
  have "distinct (map fst xs)" "fst ` set xs \<inter> keys ?st = {}" "fst ` set xs \<subseteq> names_of ?st"
    using Cons.prems p by (auto simp: keys_set_deps)
  moreover have "set ds' \<subseteq> names_of ?st" if "(x', ds') \<in> set xs" for x' ds'
    using Cons.prems(4) [of x' ds'] that by simp
  ultimately have ih: "grows (fst ` set xs) {} ?st (set_all xs ?st) \<and> vars_ok (set_all xs ?st)
    \<and> keys (set_all xs ?st) = keys ?st \<union> fst ` set xs \<and> names_of (set_all xs ?st) = names_of ?st
    \<and> (\<forall>(x, ds)\<in>set xs. deps (set_all xs ?st) x = set ds)
    \<and> (\<forall>x. x \<notin> fst ` set xs \<longrightarrow> deps (set_all xs ?st) x = deps ?st x)
    \<and> op_to_cf_name (set_all xs ?st) = op_to_cf_name ?st"
    by (intro Cons.IH g(2))
  have e: "set_all (p # xs) st = set_all xs ?st" by (simp add: set_all_def p)
  have "grows ({x} \<union> fst ` set xs) ({} \<union> {}) st (set_all xs ?st)"
    by (rule grows_trans [OF g(1)]) (use ih in blast)
  moreover have "x \<notin> fst ` set xs" using Cons.prems(1) p by auto
  ultimately show ?case unfolding e using ih p by (auto simp: keys_set_deps deps_set_deps)
qed

lemma add_deps_grows:
  assumes "\<And>x d. (x, d) \<in> set es \<Longrightarrow> x \<in> keys st \<and> d \<in> names_of st" and "vars_ok st"
  shows "\<exists>st'. add_deps es st = Inr st' \<and> grows {} {} st st' \<and> vars_ok st' \<and> keys st' = keys st
    \<and> names_of st' = names_of st \<and> (\<forall>(x, d)\<in>set es. d \<in> deps st' x) \<and> op_to_cf_name st' = op_to_cf_name st"
  using assms
proof (induction es arbitrary: st)
  case Nil
  then show ?case by (simp add: add_deps_def grows_refl)
next
  case (Cons p es)
  obtain x d where p: "p = (x, d)" by (cases p)
  with Cons.prems(1) have x: "x \<in> keys st" "d \<in> names_of st" by auto
  then obtain ds where ds: "map_of (df_graph st) x = Some ds" by (auto simp: keys_def)
  then have dx: "deps st x = set ds" by (simp add: deps_def deps_of_def)
  let ?st = "set_deps x (ds @ [d]) st"
  have g: "grows {} {} st ?st" "vars_ok ?st" "keys ?st = keys st"
    using x Cons.prems(2) dx by (auto simp: grows_def vars_ok_def deps_set_deps keys_set_deps)
  have "\<And>x d. (x, d) \<in> set es \<Longrightarrow> x \<in> keys ?st \<and> d \<in> names_of ?st" using Cons.prems(1) g(3) by auto
  from Cons.IH [OF this g(2)] obtain st' where st': "add_deps es ?st = Inr st'" "grows {} {} ?st st'" "vars_ok st'"
    "keys st' = keys ?st" "names_of st' = names_of ?st" "\<forall>(x, d)\<in>set es. d \<in> deps st' x"
    "op_to_cf_name st' = op_to_cf_name ?st" by blast
  have "d \<in> deps ?st x" by (simp add: deps_set_deps)
  then have "d \<in> deps st' x" using st'(2) by (auto simp: grows_def)
  moreover have "add_deps (p # es) st = Inr st'"
    using st'(1) ds p by (simp add: add_deps_def add_dep_def)
  ultimately show ?case using st' g grows_trans [OF g(1) st'(2)] p by (intro exI [of _ st']) auto
qed

lemma open_cf_grows:
  assumes "open_cf i st = (name, st')" and "i \<notin> objs st" and "vars_ok st"
  shows "grows {} {i} st st' \<and> vars_ok st' \<and> name \<notin> names_of st \<and> name \<in> names_of st'
    \<and> map_of (op_to_cf_name st') i = Some name \<and> keys st' = insert name (keys st) \<and> deps st' name = {}"
proof -
  obtain c where c: "make_var ''$cf'' (df_ctx st) = (name, c)"
    and st': "st' = set_deps name [] (st\<lparr>df_ctx := c, op_to_cf_name := (i, name) # op_to_cf_name st\<rparr>)"
    using assms(1) by (auto simp: open_cf_def split: prod.splits)
  note f = make_var_fresh_aux [OF c]
  have n: "names_of st' = insert name (names_of st)" "name \<notin> names_of st"
    using f(1,2) by (simp_all add: st' names_of_def)
  have d: "deps st' x = (if x = name then {} else deps st x)" for x
    by (simp add: st' deps_set_deps) (simp add: deps_def)
  have k: "keys st' = insert name (keys st)" by (simp add: st' keys_set_deps) (simp add: keys_def)
  have "name \<notin> keys st" using assms(3) n(2) by (auto simp: vars_ok_def)
  then have "deps st name = {}" by (rule no_deps)
  then show ?thesis
    using n d k assms(2,3) f(5)
    by (auto simp: grows_def vars_ok_def st' map_le_def objs_def)
qed


section \<open>The graph is consistent\<close>

text \<open>What the function relies on: names, keys of the frames around the block.\<close>

definition frames_ok :: "loop_frame option \<Rightarrow> var list option \<Rightarrow> var option \<Rightarrow> dce_state \<Rightarrow> bool" where
  "frames_ok l t cf st \<longleftrightarrow>
     (\<forall>fr. l = Some fr \<longrightarrow> even_frame fr \<and> frame_name fr \<in> keys st \<and> set (frame_body fr) \<subseteq> keys st
        \<and> set (frame_results fr) \<subseteq> keys st)
     \<and> (\<forall>rs. t = Some rs \<longrightarrow> set rs \<subseteq> keys st) \<and> set (option_list cf) \<subseteq> names_of st"

lemma frames_grow: "frames_ok l t cf st \<Longrightarrow> grows D I st st' \<Longrightarrow> frames_ok l t cf st'"
  unfolding frames_ok_def grows_def by blast

definition frame_arity :: "loop_frame option \<Rightarrow> nat option" where
  "frame_arity l = map_option (length \<circ> frame_results) l"

definition consistent ::
  "operation list \<Rightarrow> loop_frame option \<Rightarrow> var list option \<Rightarrow> var option \<Rightarrow> dce_state \<Rightarrow> bool" where
  "consistent ops l t cf st' \<longleftrightarrow>
     (\<forall>U N. closed U st' \<longrightarrow> map_of (op_to_cf_name st') \<subseteq>\<^sub>m N \<longrightarrow> live U N ops l t cf)"

lemma consistent_later: "consistent ops l t cf st \<Longrightarrow> grows D I st st' \<Longrightarrow> consistent ops l t cf st'"
  unfolding consistent_def by (meson closed_back grows_def map_le_trans)

definition build_pre ::
  "var set \<Rightarrow> operation list \<Rightarrow> loop_frame option \<Rightarrow> var list option \<Rightarrow> var option \<Rightarrow> dce_state \<Rightarrow> bool" where
  "build_pre S ops l t cf st \<longleftrightarrow>
     scoped S ops \<and> distinct (all_defs ops) \<and> distinct (op_ids ops)
     \<and> arity ops (frame_arity l) (map_option length t)
     \<and> S \<union> set (all_defs ops) \<subseteq> names_of st \<and> set (all_defs ops) \<inter> keys st = {}
     \<and> set (op_ids ops) \<inter> objs st = {} \<and> vars_ok st \<and> frames_ok l t cf st"

definition build_post ::
  "operation list \<Rightarrow> loop_frame option \<Rightarrow> var list option \<Rightarrow> var option \<Rightarrow> dce_state \<Rightarrow> dce_state \<Rightarrow> bool" where
  "build_post ops l t cf st st' \<longleftrightarrow>
     build_dataflow_graph ops l t cf st = Inr st' \<and> grows (set (all_defs ops)) (set (op_ids ops)) st st'
     \<and> vars_ok st' \<and> consistent ops l t cf st'"

definition builds :: "operation list \<Rightarrow> bool" where
  "builds ops \<longleftrightarrow> (\<forall>S l t cf st. build_pre S ops l t cf st \<longrightarrow> (\<exists>st'. build_post ops l t cf st st'))"

lemma buildsD: "builds ops \<Longrightarrow> build_pre S ops l t cf st \<Longrightarrow> \<exists>st'. build_post ops l t cf st st'"
  unfolding builds_def by blast

lemma keys_disjoint_later:
  assumes "grows D I st st'" and "X \<inter> keys st = {}" and "X \<subseteq> names_of st" and "X \<inter> D = {}"
  shows "X \<inter> keys st' = {}"
  using assms unfolding grows_def by blast

lemma objs_disjoint_later:
  "grows D I st st' \<Longrightarrow> X \<inter> objs st = {} \<Longrightarrow> X \<inter> I = {} \<Longrightarrow> X \<inter> objs st' = {}"
  unfolding grows_def by blast

lemma names_later: "grows D I st st' \<Longrightarrow> X \<subseteq> names_of st \<Longrightarrow> X \<subseteq> names_of st'"
  unfolding grows_def by blast

text \<open>The rest of a block after its first operation.\<close>

lemma build_rest:
  assumes ih: "builds ops"
    and pre: "build_pre S (op # ops) l t cf st" and g: "grows D I st st1" and v: "vars_ok st1"
    and D: "D \<subseteq> set (all_defs [op])" and I: "I \<subseteq> set (op_ids [op])"
    and run: "\<And>st'. build_dataflow_graph ops l t cf st1 = Inr st' \<Longrightarrow> build_dataflow_graph (op # ops) l t cf st = Inr st'"
    and head: "consistent [op] l t cf st1"
    and split: "all_defs (op # ops) = all_defs [op] @ all_defs ops" "op_ids (op # ops) = op_ids [op] @ op_ids ops"
      "\<And>U N. live U N (op # ops) l t cf \<longleftrightarrow> live U N [op] l t cf \<and> live U N ops l t cf"
    and sc: "scoped (S \<union> set (result_vars op)) ops" and ar: "arity ops (frame_arity l) (map_option length t)"
    and res: "set (result_vars op) \<subseteq> set (all_defs [op])"
  shows "\<exists>st'. build_post (op # ops) l t cf st st'"
proof -
  have p: "distinct (all_defs (op # ops))" "distinct (op_ids (op # ops))"
    "S \<union> set (all_defs (op # ops)) \<subseteq> names_of st" "set (all_defs (op # ops)) \<inter> keys st = {}"
    "set (op_ids (op # ops)) \<inter> objs st = {}" "frames_ok l t cf st"
    using pre unfolding build_pre_def by blast+
  have "build_pre (S \<union> set (result_vars op)) ops l t cf st1"
    unfolding build_pre_def
  proof (intro conjI)
    show "set (all_defs ops) \<inter> keys st1 = {}"
      by (rule keys_disjoint_later [OF g]) (use p split(1) D in auto)
    show "set (op_ids ops) \<inter> objs st1 = {}"
      by (rule objs_disjoint_later [OF g]) (use p split(2) I in auto)
    show "S \<union> set (result_vars op) \<union> set (all_defs ops) \<subseteq> names_of st1"
      by (rule names_later [OF g]) (use p split(1) res in auto)
    show "frames_ok l t cf st1" by (rule frames_grow [OF p(6) g])
  qed (use p split sc ar v in auto)
  from buildsD [OF ih this] obtain st' where st': "build_post ops l t cf st1 st'" by blast
  have b: "build_dataflow_graph ops l t cf st1 = Inr st'"
    and g2: "grows (set (all_defs ops)) (set (op_ids ops)) st1 st'" and v2: "vars_ok st'"
    and c2: "consistent ops l t cf st'" using st' unfolding build_post_def by blast+
  have "grows (D \<union> set (all_defs ops)) (I \<union> set (op_ids ops)) st st'" by (rule grows_trans [OF g g2])
  then have "grows (set (all_defs (op # ops))) (set (op_ids (op # ops))) st st'"
    by (rule grows_weaken) (use D I split in auto)
  moreover have "consistent (op # ops) l t cf st'"
    using consistent_later [OF head g2] c2 split(3) unfolding consistent_def by blast
  ultimately show ?thesis using run [OF b] v2 unfolding build_post_def by blast
qed


lemma use_vars_grows:
  "set vs \<subseteq> names_of st \<Longrightarrow> vars_ok st \<Longrightarrow> grows {} {} st (use_vars vs st) \<and> vars_ok (use_vars vs st)"
  by (auto simp: grows_def vars_ok_def use_vars_def deps_def keys_def names_of_def objs_def)

lemma consistent_I:
  "(\<And>U N. closed U st \<Longrightarrow> map_of (op_to_cf_name st) \<subseteq>\<^sub>m N \<Longrightarrow> live U N ops l t cf) \<Longrightarrow> consistent ops l t cf st"
  unfolding consistent_def by blast

lemma set_all_same: "set_all (map (\<lambda>r. (r, ds)) rs) = fold (\<lambda>r. set_deps r ds) rs"
  by (simp add: set_all_def fold_map comp_def)

lemma zip_both: "(x, d) \<in> set (zip xs ds) \<Longrightarrow> x \<in> set xs \<and> d \<in> set ds"
  by (auto dest: set_zip_leftD set_zip_rightD)

lemma step_plain:
  assumes "build_pre S (Plain cl opnds rs # ops) l t cf st"
  shows "\<exists>st1. build_plain (Plain cl opnds rs) cf st = st1 \<and> grows (set rs) {} st st1 \<and> vars_ok st1
    \<and> consistent [Plain cl opnds rs] l t cf st1"
proof -
  let ?ds = "operands_vars opnds @ option_list cf"
  let ?keep = "class_effect cl = EFFECT_STORE"
  have names: "set rs \<subseteq> names_of st" "set ?ds \<subseteq> names_of st" "set rs \<inter> keys st = {}" "distinct rs" "vars_ok st"
    using assms unfolding build_pre_def frames_ok_def by auto
  define st0 where "st0 = (if ?keep then use_vars ?ds st else st)"
  have g0: "grows {} {} st st0" "vars_ok st0" "names_of st0 = names_of st" "keys st0 = keys st"
    using use_vars_grows [OF names(2,5)] names(5) grows_refl [of st]
    by (auto simp: st0_def use_vars_def names_of_def keys_def)
  define xs where "xs = map (\<lambda>r. (r, ?ds)) rs"
  have f: "map fst xs = rs" "fst ` set xs = set rs" by (auto simp: xs_def image_iff comp_def)
  have "distinct (map fst xs)" "fst ` set xs \<inter> keys st0 = {}" "fst ` set xs \<subseteq> names_of st0"
    "\<And>x ds. (x, ds) \<in> set xs \<Longrightarrow> set ds \<subseteq> names_of st0"
    using names g0 by (simp_all add: f) (auto simp: xs_def)
  from set_all_grows [OF this g0(2)] have
    g1: "grows (set rs) {} st0 (set_all xs st0)" "vars_ok (set_all xs st0)"
      "\<forall>(x, ds)\<in>set xs. deps (set_all xs st0) x = set ds" by (simp_all add: f)
  have run: "build_plain (Plain cl opnds rs) cf st = set_all xs st0"
    by (simp add: build_plain_def Let_def must_keep_def st0_def xs_def set_all_same)
  have g: "grows (set rs) {} st (set_all xs st0)" using grows_trans [OF g0(1) g1(1)] by simp
  have "consistent [Plain cl opnds rs] l t cf (set_all xs st0)"
  proof (rule consistent_I)
    fix U N assume c: "closed U (set_all xs st0)"
    have "set ?ds \<subseteq> U" if "r \<in> set rs" "r \<in> U" for r
    proof -
      have "(r, ?ds) \<in> set xs" using that(1) by (simp add: xs_def)
      then have "deps (set_all xs st0) r = set ?ds" using g1(3) by blast
      then show ?thesis using c that(2) unfolding closed_def by blast
    qed
    moreover have "set ?ds \<subseteq> U" if ?keep
    proof -
      have "set ?ds \<subseteq> set (df_used st0)" using that by (auto simp: st0_def use_vars_def)
      then show ?thesis using c g1(1) unfolding closed_def grows_def by blast
    qed
    ultimately show "live U N [Plain cl opnds rs] l t cf" by (auto simp: within_def)
  qed
  with run g g1(2) show ?thesis by blast
qed

lemma step_return:
  assumes "build_pre S (Return # ops) l t cf st"
  shows "\<exists>st1. build_plain Return cf st = st1 \<and> grows {} {} st st1 \<and> vars_ok st1 \<and> consistent [Return] l t cf st1"
proof -
  have n: "set (option_list cf) \<subseteq> names_of st" "vars_ok st"
    using assms unfolding build_pre_def frames_ok_def by auto
  note g = use_vars_grows [OF n]
  have "consistent [Return] l t cf (use_vars (option_list cf) st)"
    by (rule consistent_I) (auto simp: closed_def use_vars_def within_def)
  moreover have "build_plain Return cf st = use_vars (option_list cf) st"
    by (simp add: build_plain_def must_keep_def)
  ultimately show ?thesis using g by auto
qed

lemma flows_zip:
  "length dsts = length srcs \<Longrightarrow> (\<And>d s. (d, s) \<in> set (zip dsts srcs) \<Longrightarrow> d \<in> U \<Longrightarrow> s \<in> U) \<Longrightarrow> flows U dsts srcs"
  by (auto simp: flows_def list_all2_conv_all_nth set_zip)

lemma closed_edges:
  "closed U st \<Longrightarrow> \<forall>(x, d)\<in>set es. d \<in> deps st x \<Longrightarrow> (x, d) \<in> set es \<Longrightarrow> x \<in> U \<Longrightarrow> d \<in> U"
  unfolding closed_def by blast

lemma step_continue:
  assumes "build_pre S (Continue vs # ops) l t cf st"
  shows "\<exists>st1. (build_dataflow_graph (Continue vs # ops) l t cf st = build_dataflow_graph ops l t cf st1)
    \<and> grows {} {} st st1 \<and> vars_ok st1 \<and> consistent [Continue vs] l t cf st1"
proof -
  from assms obtain fr where l: "l = Some fr" "length (frame_results fr) = length vs"
    unfolding build_pre_def frame_arity_def by auto
  then have fo: "even_frame fr" "frame_name fr \<in> keys st" "set (frame_body fr) \<subseteq> keys st"
    "set (frame_results fr) \<subseteq> keys st" "set (option_list cf) \<subseteq> names_of st" "vars_ok st" "set vs \<subseteq> names_of st"
    using assms unfolding build_pre_def frames_ok_def by auto
  have lb: "length (frame_body fr) = length vs" using fo(1) l(2) by (simp add: even_frame_def)
  let ?e1 = "map (Pair (frame_name fr)) (option_list cf)" and ?e2 = "zip (frame_body fr) vs"
    and ?e3 = "if is_for_loop (frame_range fr) then zip (frame_results fr) vs else []"
  have e1: "\<And>x d. (x, d) \<in> set ?e1 \<Longrightarrow> x \<in> keys st \<and> d \<in> names_of st" using fo by auto
  from add_deps_grows [OF e1 fo(6)] obtain s1 where s1: "add_deps ?e1 st = Inr s1" "grows {} {} st s1" "vars_ok s1"
    "keys s1 = keys st" "names_of s1 = names_of st" "\<forall>(x, d)\<in>set ?e1. d \<in> deps s1 x" by blast
  have e2: "\<And>x d. (x, d) \<in> set ?e2 \<Longrightarrow> x \<in> keys s1 \<and> d \<in> names_of s1"
    using fo s1 by (auto dest!: zip_both)
  from add_deps_grows [OF e2 s1(3)] obtain s2 where s2: "add_deps ?e2 s1 = Inr s2" "grows {} {} s1 s2" "vars_ok s2"
    "keys s2 = keys s1" "names_of s2 = names_of s1" "\<forall>(x, d)\<in>set ?e2. d \<in> deps s2 x" by blast
  have e3: "\<And>x d. (x, d) \<in> set ?e3 \<Longrightarrow> x \<in> keys s2 \<and> d \<in> names_of s2"
    using fo s1 s2 by (auto split: if_splits dest!: zip_both)
  from add_deps_grows [OF e3 s2(3)] obtain s3 where s3: "add_deps ?e3 s2 = Inr s3" "grows {} {} s2 s3" "vars_ok s3"
    "\<forall>(x, d)\<in>set ?e3. d \<in> deps s3 x" by blast
  have g: "grows {} {} s1 s3" "grows {} {} st s3"
    using grows_trans [OF s2(2) s3(2)] grows_trans [OF s1(2) grows_trans [OF s2(2) s3(2)]] by simp_all
  have "consistent [Continue vs] l t cf s3"
  proof (rule consistent_I)
    fix U N assume c: "closed U s3"
    note c2 = closed_back [OF s3(2) c] and c1 = closed_back [OF g(1) c]
    have "frame_name fr \<in> U \<longrightarrow> within U cf"
      using closed_edges [OF c1 s1(6)] by (auto simp: within_def)
    moreover have "flows U (frame_body fr) vs"
      by (rule flows_zip [OF lb]) (rule closed_edges [OF c2 s2(6)])
    moreover have "is_for_loop (frame_range fr) \<Longrightarrow> flows U (frame_results fr) vs"
      by (rule flows_zip [OF l(2)]) (use closed_edges [OF c s3(4)] in auto)
    ultimately show "live U N [Continue vs] l t cf" using l by (simp add: loop_flows_def)
  qed
  moreover have "build_dataflow_graph (Continue vs # ops) l t cf st = build_dataflow_graph ops l t cf s3"
    using l lb s1(1) s2(1) s3(1) by (simp add: strict_zip_def frame_body_def)
  ultimately show ?thesis using g s3(3) by blast
qed

lemma step_break:
  assumes "build_pre S (Break vs # ops) l t cf st"
  shows "\<exists>st1. (build_dataflow_graph (Break vs # ops) l t cf st = build_dataflow_graph ops l t cf st1)
    \<and> grows {} {} st st1 \<and> vars_ok st1 \<and> consistent [Break vs] l t cf st1"
proof -
  from assms obtain fr where l: "l = Some fr" "length (frame_results fr) = length vs"
    unfolding build_pre_def frame_arity_def by auto
  then have fo: "frame_name fr \<in> keys st" "set (frame_results fr) \<subseteq> keys st" "set (option_list cf) \<subseteq> names_of st"
    "vars_ok st" "set vs \<subseteq> names_of st"
    using assms unfolding build_pre_def frames_ok_def by auto
  let ?e1 = "map (Pair (frame_name fr)) (option_list cf)" and ?e2 = "zip (frame_results fr) vs"
  have e1: "\<And>x d. (x, d) \<in> set ?e1 \<Longrightarrow> x \<in> keys st \<and> d \<in> names_of st" using fo by auto
  from add_deps_grows [OF e1 fo(4)] obtain s1 where s1: "add_deps ?e1 st = Inr s1" "grows {} {} st s1" "vars_ok s1"
    "keys s1 = keys st" "names_of s1 = names_of st" "\<forall>(x, d)\<in>set ?e1. d \<in> deps s1 x" by blast
  have e2: "\<And>x d. (x, d) \<in> set ?e2 \<Longrightarrow> x \<in> keys s1 \<and> d \<in> names_of s1"
    using fo s1 by (auto dest!: zip_both)
  from add_deps_grows [OF e2 s1(3)] obtain s2 where s2: "add_deps ?e2 s1 = Inr s2" "grows {} {} s1 s2" "vars_ok s2"
    "\<forall>(x, d)\<in>set ?e2. d \<in> deps s2 x" by blast
  have g: "grows {} {} st s2" using grows_trans [OF s1(2) s2(2)] by simp
  have "consistent [Break vs] l t cf s2"
  proof (rule consistent_I)
    fix U N assume c: "closed U s2"
    note c1 = closed_back [OF s2(2) c]
    have "frame_name fr \<in> U \<longrightarrow> within U cf"
      using closed_edges [OF c1 s1(6)] by (auto simp: within_def)
    moreover have "flows U (frame_results fr) vs"
      by (rule flows_zip [OF l(2)]) (rule closed_edges [OF c s2(4)])
    ultimately show "live U N [Break vs] l t cf" using l by simp
  qed
  moreover have "build_dataflow_graph (Break vs # ops) l t cf st = build_dataflow_graph ops l t cf s2"
    using l s1(1) s2(1) by (simp add: strict_zip_def)
  ultimately show ?thesis using g s2(3) by blast
qed

lemma step_end_branch:
  assumes "build_pre S (EndBranch vs # ops) l t cf st"
  shows "\<exists>st1. (build_dataflow_graph (EndBranch vs # ops) l t cf st = build_dataflow_graph ops l t cf st1)
    \<and> grows {} {} st st1 \<and> vars_ok st1 \<and> consistent [EndBranch vs] l t cf st1"
proof -
  from assms obtain rs where t: "t = Some rs" "length rs = length vs" unfolding build_pre_def by auto
  then have fo: "set rs \<subseteq> keys st" "vars_ok st" "set vs \<subseteq> names_of st"
    using assms unfolding build_pre_def frames_ok_def by auto
  have e: "\<And>x d. (x, d) \<in> set (zip rs vs) \<Longrightarrow> x \<in> keys st \<and> d \<in> names_of st"
    using fo by (auto dest!: zip_both)
  from add_deps_grows [OF e fo(2)] obtain s1 where s1: "add_deps (zip rs vs) st = Inr s1" "grows {} {} st s1"
    "vars_ok s1" "\<forall>(x, d)\<in>set (zip rs vs). d \<in> deps s1 x" by blast
  have "consistent [EndBranch vs] l t cf s1"
  proof (rule consistent_I)
    fix U N assume c: "closed U s1"
    have "flows U rs vs" by (rule flows_zip [OF t(2)]) (rule closed_edges [OF c s1(4)])
    then show "live U N [EndBranch vs] l t cf" using t by simp
  qed
  moreover have "build_dataflow_graph (EndBranch vs # ops) l t cf st = build_dataflow_graph ops l t cf s1"
    using t s1(1) by (simp add: strict_zip_def)
  ultimately show ?thesis using s1 by blast
qed


text \<open>The edges of a loop before its body is visited.\<close>

definition loop_entries :: "var \<Rightarrow> (var \<times> var \<times> var) list \<Rightarrow> (var \<times> var list) list" where
  "loop_entries name carried = concat (map (\<lambda>(a, b, r). [(b, [a, name]), (r, [name])]) carried)"

lemma loop_entries_fold:
  "fold (\<lambda>(a, b, r). set_deps r [name] \<circ> set_deps b [a, name]) carried = set_all (loop_entries name carried)"
  by (induction carried) (auto simp: set_all_def loop_entries_def fun_eq_iff)

lemma loop_entries_fst:
  "length inits = length bs \<Longrightarrow> length bs = length rs \<Longrightarrow>
   fst ` set (loop_entries name (zip inits (zip bs rs))) = set bs \<union> set rs
   \<and> (distinct bs \<longrightarrow> distinct rs \<longrightarrow> set bs \<inter> set rs = {} \<longrightarrow>
        distinct (map fst (loop_entries name (zip inits (zip bs rs)))))"
  by (induction inits bs rs rule: list_induct3) (auto simp: loop_entries_def)

lemma loop_entries_deps:
  "length inits = length bs \<Longrightarrow> length bs = length rs \<Longrightarrow>
   (\<forall>(x, ds)\<in>set (loop_entries name (zip inits (zip bs rs))). name \<in> set ds \<and> set ds \<subseteq> insert name (set inits))
   \<and> list_all2 (\<lambda>b a. (b, [a, name]) \<in> set (loop_entries name (zip inits (zip bs rs)))) bs inits"
  by (induction inits bs rs rule: list_induct3) (auto simp: loop_entries_def elim!: list_all2_mono)

lemma step_loop:
  assumes pre: "build_pre S (Loop i rng inits params body rs # ops) l t cf st"
    and ih: "builds body"
  shows "\<exists>st1. (build_dataflow_graph (Loop i rng inits params body rs # ops) l t cf st = build_dataflow_graph ops l t cf st1)
    \<and> grows (set (all_defs [Loop i rng inits params body rs])) (set (op_ids [Loop i rng inits params body rs])) st st1
    \<and> vars_ok st1 \<and> consistent [Loop i rng inits params body rs] l t cf st1"
proof -
  let ?bs = "body_vars rng params"
  obtain name st0 where op: "open_cf i st = (name, st0)" by fastforce
  have ar: "length inits = length ?bs" "length ?bs = length rs" "is_for_loop rng \<longrightarrow> params \<noteq> []"
    "arity body (Some (length rs)) None" using pre unfolding build_pre_def by auto
  have d: "distinct params" "distinct (all_defs body)" "distinct rs" "set params \<inter> set (all_defs body) = {}"
    "set params \<inter> set rs = {}" "set (all_defs body) \<inter> set rs = {}"
    using pre unfolding build_pre_def by auto
  have bs: "set ?bs \<subseteq> set params" "distinct ?bs"
    using d(1) by (cases params; auto simp: body_vars_def)+
  have sc: "set (range_vars rng) \<subseteq> S" "set inits \<subseteq> S" "scoped (S \<union> set params) body"
    using pre unfolding build_pre_def by auto
  have nm: "S \<union> (set params \<union> set (all_defs body) \<union> set rs) \<subseteq> names_of st"
    "(set params \<union> set (all_defs body) \<union> set rs) \<inter> keys st = {}" "i \<notin> objs st" "set (op_ids body) \<inter> objs st = {}"
    "i \<notin> set (op_ids body)" "distinct (op_ids body)" "vars_ok st" "frames_ok l t cf st"
    using pre unfolding build_pre_def by auto
  from open_cf_grows [OF op _ nm(7)] nm(3) have g0: "grows {} {i} st st0" and v0: "vars_ok st0"
    and n0: "name \<notin> names_of st" "name \<in> names_of st0" "map_of (op_to_cf_name st0) i = Some name"
      "keys st0 = insert name (keys st)" by (auto simp: objs_def)
  have nm0: "names_of st \<subseteq> names_of st0" using g0 by (simp add: grows_def)
  define xs where "xs = loop_entries name (zip inits (zip ?bs rs))"
  have x1: "fst ` set xs = set ?bs \<union> set rs" "distinct (map fst xs)"
    using loop_entries_fst [OF ar(1,2), of name] bs d by (auto simp: xs_def)
  have x2: "\<And>x ds. (x, ds) \<in> set xs \<Longrightarrow> name \<in> set ds \<and> set ds \<subseteq> insert name (set inits)"
    and x3: "list_all2 (\<lambda>b a. (b, [a, name]) \<in> set xs) ?bs inits"
    using loop_entries_deps [OF ar(1,2), of name] by (auto simp: xs_def)
  have "fst ` set xs \<inter> keys st0 = {}" "fst ` set xs \<subseteq> names_of st0"
    using x1(1) bs(1) nm(1,2) n0 nm0 by auto
  moreover have "\<And>x ds. (x, ds) \<in> set xs \<Longrightarrow> set ds \<subseteq> names_of st0" using x2 n0(2) sc(2) nm(1) nm0 by blast
  ultimately have g1: "grows (set ?bs \<union> set rs) {} st0 (set_all xs st0)" and v1: "vars_ok (set_all xs st0)"
    and k1: "keys (set_all xs st0) = keys st0 \<union> (set ?bs \<union> set rs)" "names_of (set_all xs st0) = names_of st0"
      "\<forall>(x, ds)\<in>set xs. deps (set_all xs st0) x = set ds"
    using set_all_grows [OF x1(2) _ _ _ v0] by (simp_all add: x1(1))
  let ?s1 = "set_all xs st0"
  let ?e2 = "map (Pair name) (option_list cf @ range_vars rng)"
    and ?e3 = "if is_for_loop rng then zip rs inits else []"
  have cfn: "set (option_list cf) \<subseteq> names_of st" using nm(8) by (simp add: frames_ok_def)
  have e2: "\<And>x d. (x, d) \<in> set ?e2 \<Longrightarrow> x \<in> keys ?s1 \<and> d \<in> names_of ?s1"
    using k1 n0 cfn sc(1) nm(1) nm0 by auto
  from add_deps_grows [OF e2 v1] obtain s2 where s2: "add_deps ?e2 ?s1 = Inr s2" "grows {} {} ?s1 s2" "vars_ok s2"
    "keys s2 = keys ?s1" "names_of s2 = names_of ?s1" "\<forall>(x, d)\<in>set ?e2. d \<in> deps s2 x" by blast
  have e3: "\<And>x d. (x, d) \<in> set ?e3 \<Longrightarrow> x \<in> keys s2 \<and> d \<in> names_of s2"
    using s2(4,5) k1 sc(2) nm(1) nm0 by (auto split: if_splits dest!: zip_both)
  from add_deps_grows [OF e3 s2(3)] obtain s3 where s3: "add_deps ?e3 s2 = Inr s3" "grows {} {} s2 s3" "vars_ok s3"
    "keys s3 = keys s2" "names_of s3 = names_of s2" "\<forall>(x, d)\<in>set ?e3. d \<in> deps s3 x" by blast
  have g13: "grows {} {} ?s1 s3" using grows_trans [OF s2(2) s3(2)] by simp
  have g03: "grows (set ?bs \<union> set rs) {} st0 s3" using grows_trans [OF g1 g13] by simp
  have g3: "grows (set ?bs \<union> set rs) {i} st s3" using grows_trans [OF g0 g03] by simp
  define fr where "fr = \<lparr>frame_name = name, frame_range = rng, frame_params = params, frame_results = rs\<rparr>"
  have "build_pre (S \<union> set params) body (Some fr) None (Some name) s3"
    unfolding build_pre_def
  proof (intro conjI)
    show "set (all_defs body) \<inter> keys s3 = {}"
      by (rule keys_disjoint_later [OF g3]) (use d bs(1) nm in auto)
    show "set (op_ids body) \<inter> objs s3 = {}" by (rule objs_disjoint_later [OF g3]) (use nm in auto)
    show "S \<union> set params \<union> set (all_defs body) \<subseteq> names_of s3" by (rule names_later [OF g3]) (use nm in auto)
    show "frames_ok (Some fr) None (Some name) s3"
      using s3(4,5) s2(4,5) k1 n0 ar(2)
      by (auto simp: frames_ok_def fr_def even_frame_def frame_body_def option_list_def)
    show "arity body (frame_arity (Some fr)) (map_option length None)" using ar(4) by (simp add: frame_arity_def fr_def)
  qed (use sc d nm s3 in auto)
  from buildsD [OF ih this] obtain s4 where b: "build_dataflow_graph body (Some fr) None (Some name) s3 = Inr s4"
    and g4: "grows (set (all_defs body)) (set (op_ids body)) s3 s4" and v4: "vars_ok s4"
    and c4: "consistent body (Some fr) None (Some name) s4" unfolding build_post_def by blast
  have run: "build_dataflow_graph (Loop i rng inits params body rs # ops) l t cf st = build_dataflow_graph ops l t cf s4"
    using op ar(1,2) s2(1) s3(1) b by (simp add: strict_zip_def loop_entries_fold xs_def fr_def)
  have "grows (set ?bs \<union> set rs \<union> set (all_defs body)) ({i} \<union> set (op_ids body)) st s4"
    by (rule grows_trans [OF g3 g4])
  then have g: "grows (set (all_defs [Loop i rng inits params body rs])) (set (op_ids [Loop i rng inits params body rs])) st s4"
    by (rule grows_weaken) (use bs in auto)
  have "consistent [Loop i rng inits params body rs] l t cf s4"
  proof (rule consistent_I)
    fix U N assume c: "closed U s4" and N: "map_of (op_to_cf_name s4) \<subseteq>\<^sub>m N"
    note c3 = closed_back [OF g4 c]
    note c2 = closed_back [OF s3(2) c3]
    note c1 = closed_back [OF s2(2) c2]
    have "map_of (op_to_cf_name st0) \<subseteq>\<^sub>m map_of (op_to_cf_name s4)"
      using grows_trans [OF g03 g4] by (simp add: grows_def)
    then have name: "N i = Some name" using n0(3) N by (metis domI map_le_def)
    have dep: "set ds \<subseteq> U" if "(x, ds) \<in> set xs" "x \<in> U" for x ds
      using c1 k1(3) that unfolding closed_def by blast
    have "within U cf \<and> set (range_vars rng) \<subseteq> U" if "name \<in> U"
      using closed_edges [OF c2 s2(6)] that by (auto simp: within_def)
    moreover have "name \<in> U" if "v \<in> set rs \<union> set ?bs" "v \<in> U" for v
      using that x1(1) x2 dep by (metis (no_types, lifting) Un_commute image_iff prod.collapse subsetD)
    moreover have "flows U ?bs inits"
      using x3 unfolding flows_def by (rule list_all2_mono) (use dep in force)
    moreover have "is_for_loop rng \<Longrightarrow> flows U rs inits"
      by (rule flows_zip) (use ar closed_edges [OF c3 s3(6)] in auto)
    moreover have "live U N body (Some fr) None (Some name)" using c4 c N unfolding consistent_def by blast
    ultimately show "live U N [Loop i rng inits params body rs] l t cf"
      using name ar(1,2,3) by (auto simp: loop_flows_def fr_def frame_body_def)
  qed
  with run g v4 show ?thesis by blast
qed


lemma step_if:
  assumes pre: "build_pre S (IfElse i cd th el rs # ops) l t cf st"
    and ih1: "builds th"
    and ih2: "builds el"
  shows "\<exists>st1. (build_dataflow_graph (IfElse i cd th el rs # ops) l t cf st = build_dataflow_graph ops l t cf st1)
    \<and> grows (set (all_defs [IfElse i cd th el rs])) (set (op_ids [IfElse i cd th el rs])) st st1
    \<and> vars_ok st1 \<and> consistent [IfElse i cd th el rs] l t cf st1"
proof -
  obtain name st0 where op: "open_cf i st = (name, st0)" by fastforce
  have ar: "arity th (frame_arity l) (Some (length rs))" "arity el (frame_arity l) (Some (length rs))"
    using pre unfolding build_pre_def by auto
  have d: "distinct (all_defs th)" "distinct (all_defs el)" "distinct rs" "set (all_defs th) \<inter> set (all_defs el) = {}"
    "set (all_defs th) \<inter> set rs = {}" "set (all_defs el) \<inter> set rs = {}"
    "distinct (op_ids th)" "distinct (op_ids el)" "set (op_ids th) \<inter> set (op_ids el) = {}"
    "i \<notin> set (op_ids th)" "i \<notin> set (op_ids el)"
    using pre unfolding build_pre_def by auto
  have sc: "cd \<in> S" "scoped S th" "scoped S el" using pre unfolding build_pre_def by auto
  have nm: "S \<union> (set (all_defs th) \<union> set (all_defs el) \<union> set rs) \<subseteq> names_of st"
    "(set (all_defs th) \<union> set (all_defs el) \<union> set rs) \<inter> keys st = {}" "i \<notin> objs st"
    "set (op_ids th) \<inter> objs st = {}" "set (op_ids el) \<inter> objs st = {}" "vars_ok st" "frames_ok l t cf st"
    using pre unfolding build_pre_def by auto
  from open_cf_grows [OF op _ nm(6)] nm(3) have g0: "grows {} {i} st st0" and v0: "vars_ok st0"
    and n0: "name \<notin> names_of st" "name \<in> names_of st0" "map_of (op_to_cf_name st0) i = Some name"
      "keys st0 = insert name (keys st)" "deps st0 name = {}" by (auto simp: objs_def)
  have nm0: "names_of st \<subseteq> names_of st0" using g0 by (simp add: grows_def)
  let ?ds = "cd # option_list cf"
  have cfn: "set ?ds \<subseteq> names_of st0" using nm(7) sc(1) nm(1) nm0 by (auto simp: frames_ok_def)
  define s1 where "s1 = set_deps name ?ds st0"
  have g1: "grows {} {} st0 s1" and v1: "vars_ok s1" and k1: "keys s1 = keys st0" "names_of s1 = names_of st0"
    using n0 cfn v0 by (auto simp: s1_def grows_def vars_ok_def deps_set_deps keys_set_deps)
  define xs where "xs = map (\<lambda>r. (r, [name])) rs"
  have x1: "fst ` set xs = set rs" "map fst xs = rs" by (auto simp: xs_def image_iff comp_def)
  have "distinct (map fst xs)" "fst ` set xs \<inter> keys s1 = {}" "fst ` set xs \<subseteq> names_of s1"
    "\<And>x ds. (x, ds) \<in> set xs \<Longrightarrow> set ds \<subseteq> names_of s1"
    using d nm n0 nm0 k1 by (auto simp: x1) (auto simp: xs_def)
  from set_all_grows [OF this v1] have g2: "grows (set rs) {} s1 (set_all xs s1)" and v2: "vars_ok (set_all xs s1)"
    and k2: "keys (set_all xs s1) = keys s1 \<union> set rs" "names_of (set_all xs s1) = names_of s1"
      "\<forall>(x, ds)\<in>set xs. deps (set_all xs s1) x = set ds" by (simp_all add: x1(1))
  let ?s2 = "set_all xs s1"
  have g02: "grows (set rs) {} st0 ?s2" using grows_trans [OF g1 g2] by simp
  have gs2: "grows (set rs) {i} st ?s2" using grows_trans [OF g0 g02] by simp
  have fo: "frames_ok l (Some rs) (Some name) ?s2"
    using frames_grow [OF nm(7) gs2] k2 k1 n0 by (auto simp: frames_ok_def option_list_def)
  have "build_pre S th l (Some rs) (Some name) ?s2"
    unfolding build_pre_def
  proof (intro conjI)
    show "set (all_defs th) \<inter> keys ?s2 = {}" by (rule keys_disjoint_later [OF gs2]) (use d nm in auto)
    show "set (op_ids th) \<inter> objs ?s2 = {}" by (rule objs_disjoint_later [OF gs2]) (use nm d in auto)
    show "S \<union> set (all_defs th) \<subseteq> names_of ?s2" by (rule names_later [OF gs2]) (use nm in auto)
  qed (use sc d ar fo v2 in auto)
  from buildsD [OF ih1 this] obtain s3 where b3: "build_dataflow_graph th l (Some rs) (Some name) ?s2 = Inr s3"
    and g3: "grows (set (all_defs th)) (set (op_ids th)) ?s2 s3" and v3: "vars_ok s3"
    and c3: "consistent th l (Some rs) (Some name) s3" unfolding build_post_def by blast
  have gs3: "grows (set rs \<union> set (all_defs th)) ({i} \<union> set (op_ids th)) st s3" by (rule grows_trans [OF gs2 g3])
  have "build_pre S el l (Some rs) (Some name) s3"
    unfolding build_pre_def
  proof (intro conjI)
    show "set (all_defs el) \<inter> keys s3 = {}" by (rule keys_disjoint_later [OF gs3]) (use d nm in auto)
    show "set (op_ids el) \<inter> objs s3 = {}" by (rule objs_disjoint_later [OF gs3]) (use nm d in auto)
    show "S \<union> set (all_defs el) \<subseteq> names_of s3" by (rule names_later [OF gs3]) (use nm in auto)
  qed (use sc d ar v3 frames_grow [OF fo g3] in auto)
  from buildsD [OF ih2 this] obtain s4 where b4: "build_dataflow_graph el l (Some rs) (Some name) s3 = Inr s4"
    and g4: "grows (set (all_defs el)) (set (op_ids el)) s3 s4" and v4: "vars_ok s4"
    and c4: "consistent el l (Some rs) (Some name) s4" unfolding build_post_def by blast
  have run: "build_dataflow_graph (IfElse i cd th el rs # ops) l t cf st = build_dataflow_graph ops l t cf s4"
    using op b3 b4 by (simp add: s1_def xs_def set_all_same)
  have "grows (set rs \<union> set (all_defs th) \<union> set (all_defs el)) ({i} \<union> set (op_ids th) \<union> set (op_ids el)) st s4"
    by (rule grows_trans [OF gs3 g4])
  then have g: "grows (set (all_defs [IfElse i cd th el rs])) (set (op_ids [IfElse i cd th el rs])) st s4"
    by (rule grows_weaken) auto
  have "consistent [IfElse i cd th el rs] l t cf s4"
  proof (rule consistent_I)
    fix U N assume c: "closed U s4" and N: "map_of (op_to_cf_name s4) \<subseteq>\<^sub>m N"
    note c3' = closed_back [OF g4 c]
    note c2' = closed_back [OF g3 c3']
    note c1' = closed_back [OF g2 c2']
    have "map_of (op_to_cf_name st0) \<subseteq>\<^sub>m map_of (op_to_cf_name s4)"
      using grows_trans [OF g02 grows_trans [OF g3 g4]] by (simp add: grows_def)
    then have name: "N i = Some name" using n0(3) N by (metis domI map_le_def)
    have "within U cf \<and> cd \<in> U" if "name \<in> U"
    proof -
      have "deps s1 name = set ?ds" by (simp add: s1_def deps_set_deps)
      then have "set ?ds \<subseteq> U" using c1' that unfolding closed_def by blast
      then show ?thesis by (simp add: within_def)
    qed
    moreover have "name \<in> U" if "v \<in> set rs" "v \<in> U" for v
    proof -
      have "(v, [name]) \<in> set xs" using that(1) by (simp add: xs_def)
      then have "deps ?s2 v = {name}" using k2(3) by auto
      then show ?thesis using c2' that(2) unfolding closed_def by blast
    qed
    moreover have "live U N th l (Some rs) (Some name)" "live U N el l (Some rs) (Some name)"
      using consistent_later [OF c3 g4] c4 c N unfolding consistent_def by blast+
    ultimately show "live U N [IfElse i cd th el rs] l t cf" using name by auto
  qed
  with run g v4 show ?thesis by blast
qed


definition reduction_entries :: "var \<Rightarrow> ((var \<times> var) \<times> var \<times> var) list \<Rightarrow> (var \<times> var list) list" where
  "reduction_entries name ps =
     concat (map (\<lambda>((x, r), a, b). [(a, [x, r]), (b, [x, r]), (r, [name, x, a, b])]) ps)"

lemma reduction_entries_fold:
  "fold (\<lambda>((x, r), a, b). set_deps r [name, x, a, b] \<circ> set_deps b [x, r] \<circ> set_deps a [x, r]) ps
     = set_all (reduction_entries name ps)"
  by (induction ps) (auto simp: set_all_def reduction_entries_def fun_eq_iff)

lemma reduction_entries_Cons:
  "reduction_entries name (zip (zip (x # xs) (r # rs)) (zip (a # as) (b # bs)))
     = (a, [x, r]) # (b, [x, r]) # (r, [name, x, a, b]) # reduction_entries name (zip (zip xs rs) (zip as bs))"
  by (simp add: reduction_entries_def)

lemma reduction_entries_fst:
  "length xs = length rs \<Longrightarrow> length rs = length as \<Longrightarrow> length as = length bs \<Longrightarrow>
   fst ` set (reduction_entries name (zip (zip xs rs) (zip as bs))) = set as \<union> set bs \<union> set rs"
  by (induction xs rs as bs rule: list_induct4)
     (simp add: reduction_entries_def, simp only: reduction_entries_Cons, auto)

lemma reduction_entries_distinct:
  "length xs = length rs \<Longrightarrow> length rs = length as \<Longrightarrow> length as = length bs \<Longrightarrow> distinct (as @ bs @ rs) \<Longrightarrow>
   distinct (map fst (reduction_entries name (zip (zip xs rs) (zip as bs))))"
proof (induction xs rs as bs rule: list_induct4)
  case (Cons x xs r rs a as b bs)
  then show ?case using reduction_entries_fst [of xs rs as bs name]
    by (simp only: reduction_entries_Cons) auto
qed (simp add: reduction_entries_def)

lemma reduction_entries_deps:
  "length xs = length rs \<Longrightarrow> length rs = length as \<Longrightarrow> length as = length bs \<Longrightarrow>
   (y, ds) \<in> set (reduction_entries name (zip (zip xs rs) (zip as bs))) \<Longrightarrow>
   set ds \<subseteq> insert name (set xs \<union> set as \<union> set bs \<union> set rs)"
proof (induction xs rs as bs rule: list_induct4)
  case (Cons x xs r rs a as b bs)
  from Cons.prems Cons.IH show ?case by (simp only: reduction_entries_Cons) auto
qed (simp add: reduction_entries_def)

lemma reduction_entries_results:
  "length xs = length rs \<Longrightarrow> length rs = length as \<Longrightarrow> length as = length bs \<Longrightarrow> v \<in> set rs \<Longrightarrow>
   \<exists>ds. (v, name # ds) \<in> set (reduction_entries name (zip (zip xs rs) (zip as bs)))"
proof (induction xs rs as bs rule: list_induct4)
  case (Cons x xs r rs a as b bs)
  from Cons.prems Cons.IH show ?case by (simp only: reduction_entries_Cons) auto
qed simp

lemma step_reduction:
  assumes pre: "build_pre S (Reduction i k xs params body rs # ops) l t cf st"
    and ih: "builds body"
  shows "\<exists>st1. (build_dataflow_graph (Reduction i k xs params body rs # ops) l t cf st = build_dataflow_graph ops l t cf st1)
    \<and> grows (set (all_defs [Reduction i k xs params body rs])) (set (op_ids [Reduction i k xs params body rs])) st st1
    \<and> vars_ok st1 \<and> consistent [Reduction i k xs params body rs] l t cf st1"
proof -
  obtain name st0 where op: "open_cf i st = (name, st0)" by fastforce
  have ar: "length xs = length rs" "length params = length xs * 2" "arity body None (Some (length rs))"
    using pre unfolding build_pre_def by auto
  define lhs rhs where "lhs = take (length xs) params" and "rhs = drop (length xs) params"
  have lr: "length rs = length lhs" "length lhs = length rhs" "params = lhs @ rhs"
    using ar by (simp_all add: lhs_def rhs_def)
  have d: "distinct params" "distinct (all_defs body)" "distinct rs" "set params \<inter> set (all_defs body) = {}"
    "set params \<inter> set rs = {}" "set (all_defs body) \<inter> set rs = {}"
    using pre unfolding build_pre_def by auto
  have sc: "set xs \<subseteq> S" "scoped (S \<union> set params) body" using pre unfolding build_pre_def by auto
  have nm: "S \<union> (set params \<union> set (all_defs body) \<union> set rs) \<subseteq> names_of st"
    "(set params \<union> set (all_defs body) \<union> set rs) \<inter> keys st = {}" "i \<notin> objs st" "set (op_ids body) \<inter> objs st = {}"
    "i \<notin> set (op_ids body)" "distinct (op_ids body)" "vars_ok st" "frames_ok l t cf st"
    using pre unfolding build_pre_def by auto
  from open_cf_grows [OF op _ nm(7)] nm(3) have g0: "grows {} {i} st st0" and v0: "vars_ok st0"
    and n0: "name \<notin> names_of st" "name \<in> names_of st0" "map_of (op_to_cf_name st0) i = Some name"
      "keys st0 = insert name (keys st)" by (auto simp: objs_def)
  have nm0: "names_of st \<subseteq> names_of st0" using g0 by (simp add: grows_def)
  let ?e1 = "map (Pair name) (option_list cf)"
  have e1: "\<And>x d. (x, d) \<in> set ?e1 \<Longrightarrow> x \<in> keys st0 \<and> d \<in> names_of st0"
    using n0 nm(8) nm0 by (auto simp: frames_ok_def)
  from add_deps_grows [OF e1 v0] obtain s1 where s1: "add_deps ?e1 st0 = Inr s1" "grows {} {} st0 s1" "vars_ok s1"
    "keys s1 = keys st0" "names_of s1 = names_of st0" "\<forall>(x, d)\<in>set ?e1. d \<in> deps s1 x" by blast
  define es where "es = reduction_entries name (zip (zip xs rs) (zip lhs rhs))"
  have "distinct (lhs @ rhs @ rs)" using d lr(3) by auto
  then have x1: "fst ` set es = set params \<union> set rs" "distinct (map fst es)"
    using reduction_entries_fst [OF ar(1) lr(1,2), of name] reduction_entries_distinct [OF ar(1) lr(1,2), of name] lr(3)
    by (simp_all add: es_def)
  have "fst ` set es \<inter> keys s1 = {}" "fst ` set es \<subseteq> names_of s1"
    using x1(1) nm(1,2) n0 nm0 s1(4,5) by auto
  moreover have "set ds \<subseteq> names_of s1" if "(x, ds) \<in> set es" for x ds
  proof -
    have "set ds \<subseteq> insert name (set xs \<union> set lhs \<union> set rhs \<union> set rs)"
      using reduction_entries_deps [OF ar(1) lr(1,2)] that by (simp add: es_def)
    also have "\<dots> \<subseteq> names_of s1" using n0(2) sc(1) nm(1) nm0 s1(5) lr(3) by auto
    finally show ?thesis .
  qed
  ultimately have g1: "grows (set params \<union> set rs) {} s1 (set_all es s1)" and v1: "vars_ok (set_all es s1)"
    and k1: "keys (set_all es s1) = keys s1 \<union> (set params \<union> set rs)" "names_of (set_all es s1) = names_of s1"
      "\<forall>(x, ds)\<in>set es. deps (set_all es s1) x = set ds"
    using set_all_grows [OF x1(2) _ _ _ s1(3)] by (simp_all add: x1(1))
  let ?s2 = "set_all es s1"
  have g02: "grows (set params \<union> set rs) {} st0 ?s2" using grows_trans [OF s1(2) g1] by simp
  have gs2: "grows (set params \<union> set rs) {i} st ?s2" using grows_trans [OF g0 g02] by simp
  have "build_pre (S \<union> set params) body None (Some rs) (Some name) ?s2"
    unfolding build_pre_def
  proof (intro conjI)
    show "set (all_defs body) \<inter> keys ?s2 = {}" by (rule keys_disjoint_later [OF gs2]) (use d nm in auto)
    show "set (op_ids body) \<inter> objs ?s2 = {}" by (rule objs_disjoint_later [OF gs2]) (use nm in auto)
    show "S \<union> set params \<union> set (all_defs body) \<subseteq> names_of ?s2" by (rule names_later [OF gs2]) (use nm in auto)
    show "frames_ok None (Some rs) (Some name) ?s2" using k1 s1(4,5) n0 by (auto simp: frames_ok_def option_list_def)
  qed (use sc d nm ar v1 in \<open>auto simp: frame_arity_def\<close>)
  from buildsD [OF ih this] obtain s3 where b: "build_dataflow_graph body None (Some rs) (Some name) ?s2 = Inr s3"
    and g3: "grows (set (all_defs body)) (set (op_ids body)) ?s2 s3" and v3: "vars_ok s3"
    and c3: "consistent body None (Some rs) (Some name) s3" unfolding build_post_def by blast
  have run: "build_dataflow_graph (Reduction i k xs params body rs # ops) l t cf st = build_dataflow_graph ops l t cf s3"
    using op ar s1(1) b
    by (simp add: strict_zip_def reduction_lhs_def reduction_rhs_def reduction_entries_fold es_def lhs_def rhs_def)
  have "grows (set params \<union> set rs \<union> set (all_defs body)) ({i} \<union> set (op_ids body)) st s3" by (rule grows_trans [OF gs2 g3])
  then have g: "grows (set (all_defs [Reduction i k xs params body rs])) (set (op_ids [Reduction i k xs params body rs])) st s3"
    by (rule grows_weaken) auto
  have "consistent [Reduction i k xs params body rs] l t cf s3"
  proof (rule consistent_I)
    fix U N assume c: "closed U s3" and N: "map_of (op_to_cf_name s3) \<subseteq>\<^sub>m N"
    note c2 = closed_back [OF g3 c]
    note c1 = closed_back [OF g1 c2]
    have "map_of (op_to_cf_name st0) \<subseteq>\<^sub>m map_of (op_to_cf_name s3)"
      using grows_trans [OF g02 g3] by (simp add: grows_def)
    then have name: "N i = Some name" using n0(3) N by (metis domI map_le_def)
    have "within U cf" if "name \<in> U" using closed_edges [OF c1 s1(6)] that by (auto simp: within_def)
    moreover have "name \<in> U" if "v \<in> set rs" "v \<in> U" for v
    proof -
      from reduction_entries_results [OF ar(1) lr(1,2) that(1), of name]
      obtain ds where "(v, name # ds) \<in> set es" by (auto simp: es_def)
      then have "deps ?s2 v = set (name # ds)" using k1(3) by blast
      then show ?thesis using c2 that(2) unfolding closed_def by auto
    qed
    moreover have "live U N body None (Some rs) (Some name)" using c3 c N unfolding consistent_def by blast
    ultimately show "live U N [Reduction i k xs params body rs] l t cf" using name by auto
  qed
  with run g v3 show ?thesis by blast
qed

lemma build_ok: "builds ops"
proof (induction ops rule: all_defs.induct)
  case 1
  then show ?case by (auto simp: builds_def build_pre_def build_post_def grows_refl consistent_def)
next
  case (2 cl opnds rs ops)
  show ?case unfolding builds_def
  proof (intro allI impI)
  fix S l t cf st assume pre: "build_pre S (Plain cl opnds rs # ops) l t cf st"
  from step_plain [OF pre] obtain s where s: "build_plain (Plain cl opnds rs) cf st = s" "grows (set rs) {} st s"
    "vars_ok s" "consistent [Plain cl opnds rs] l t cf s" by blast
  show "\<exists>st'. build_post (Plain cl opnds rs # ops) l t cf st st'"
    by (rule build_rest [OF "2.IH" pre s(2,3) _ _ _ s(4)]) (use pre s(1) in \<open>auto simp: build_pre_def\<close>)
  qed
next
  case (3 i rng inits params body rs ops)
  show ?case unfolding builds_def
  proof (intro allI impI)
  fix S l t cf st assume pre: "build_pre S (Loop i rng inits params body rs # ops) l t cf st"
  from step_loop [OF pre "3.IH"(1)] obtain s where
    s: "build_dataflow_graph (Loop i rng inits params body rs # ops) l t cf st = build_dataflow_graph ops l t cf s"
      "grows (set (all_defs [Loop i rng inits params body rs])) (set (op_ids [Loop i rng inits params body rs])) st s"
      "vars_ok s" "consistent [Loop i rng inits params body rs] l t cf s" by blast
  show "\<exists>st'. build_post (Loop i rng inits params body rs # ops) l t cf st st'"
    by (rule build_rest [OF "3.IH"(2) pre s(2,3) _ _ _ s(4)])
      (use pre s(1) in \<open>auto simp: build_pre_def simp del: build_dataflow_graph.simps\<close>)
  qed
next
  case (4 i c th el rs ops)
  show ?case unfolding builds_def
  proof (intro allI impI)
  fix S l t cf st assume pre: "build_pre S (IfElse i c th el rs # ops) l t cf st"
  from step_if [OF pre "4.IH"(1,2)] obtain s where
    s: "build_dataflow_graph (IfElse i c th el rs # ops) l t cf st = build_dataflow_graph ops l t cf s"
      "grows (set (all_defs [IfElse i c th el rs])) (set (op_ids [IfElse i c th el rs])) st s"
      "vars_ok s" "consistent [IfElse i c th el rs] l t cf s" by blast
  show "\<exists>st'. build_post (IfElse i c th el rs # ops) l t cf st st'"
    by (rule build_rest [OF "4.IH"(3) pre s(2,3) _ _ _ s(4)])
      (use pre s(1) in \<open>auto simp: build_pre_def simp del: build_dataflow_graph.simps\<close>)
  qed
next
  case (5 i k xs params body rs ops)
  show ?case unfolding builds_def
  proof (intro allI impI)
  fix S l t cf st assume pre: "build_pre S (Reduction i k xs params body rs # ops) l t cf st"
  from step_reduction [OF pre "5.IH"(1)] obtain s where
    s: "build_dataflow_graph (Reduction i k xs params body rs # ops) l t cf st = build_dataflow_graph ops l t cf s"
      "grows (set (all_defs [Reduction i k xs params body rs])) (set (op_ids [Reduction i k xs params body rs])) st s"
      "vars_ok s" "consistent [Reduction i k xs params body rs] l t cf s" by blast
  show "\<exists>st'. build_post (Reduction i k xs params body rs # ops) l t cf st st'"
    by (rule build_rest [OF "5.IH"(2) pre s(2,3) _ _ _ s(4)])
      (use pre s(1) in \<open>auto simp: build_pre_def simp del: build_dataflow_graph.simps\<close>)
  qed
next
  case (6 vs ops)
  show ?case unfolding builds_def
  proof (intro allI impI)
  fix S l t cf st assume pre: "build_pre S (Continue vs # ops) l t cf st"
  from step_continue [OF pre] obtain s where
    s: "build_dataflow_graph (Continue vs # ops) l t cf st = build_dataflow_graph ops l t cf s"
      "grows {} {} st s" "vars_ok s" "consistent [Continue vs] l t cf s" by blast
  show "\<exists>st'. build_post (Continue vs # ops) l t cf st st'"
    by (rule build_rest [OF "6.IH" pre s(2,3) _ _ _ s(4)])
      (use pre s(1) in \<open>auto simp: build_pre_def simp del: build_dataflow_graph.simps\<close>)
  qed
next
  case (7 vs ops)
  show ?case unfolding builds_def
  proof (intro allI impI)
  fix S l t cf st assume pre: "build_pre S (Break vs # ops) l t cf st"
  from step_break [OF pre] obtain s where
    s: "build_dataflow_graph (Break vs # ops) l t cf st = build_dataflow_graph ops l t cf s"
      "grows {} {} st s" "vars_ok s" "consistent [Break vs] l t cf s" by blast
  show "\<exists>st'. build_post (Break vs # ops) l t cf st st'"
    by (rule build_rest [OF "7.IH" pre s(2,3) _ _ _ s(4)])
      (use pre s(1) in \<open>auto simp: build_pre_def simp del: build_dataflow_graph.simps\<close>)
  qed
next
  case (8 vs ops)
  show ?case unfolding builds_def
  proof (intro allI impI)
  fix S l t cf st assume pre: "build_pre S (EndBranch vs # ops) l t cf st"
  from step_end_branch [OF pre] obtain s where
    s: "build_dataflow_graph (EndBranch vs # ops) l t cf st = build_dataflow_graph ops l t cf s"
      "grows {} {} st s" "vars_ok s" "consistent [EndBranch vs] l t cf s" by blast
  show "\<exists>st'. build_post (EndBranch vs # ops) l t cf st st'"
    by (rule build_rest [OF "8.IH" pre s(2,3) _ _ _ s(4)])
      (use pre s(1) in \<open>auto simp: build_pre_def simp del: build_dataflow_graph.simps\<close>)
  qed
next
  case (9 ops)
  show ?case unfolding builds_def
  proof (intro allI impI)
  fix S l t cf st assume pre: "build_pre S (Return # ops) l t cf st"
  from step_return [OF pre] obtain s where s: "build_plain Return cf st = s" "grows {} {} st s"
    "vars_ok s" "consistent [Return] l t cf s" by blast
  show "\<exists>st'. build_post (Return # ops) l t cf st st'"
    by (rule build_rest [OF "9.IH" pre s(2,3) _ _ _ s(4)]) (use pre s(1) in \<open>auto simp: build_pre_def\<close>)
  qed
qed

end
