(* ===== verification/DceSound.thy ===== *)
theory DceSound
  imports DceGraph
begin

text \<open>
  The properties of dead code elimination: the pass never fails on a well-formed kernel, the
  used variables are those reachable in the graph, and every terminating execution is kept.
\<close>

section \<open>Pruning succeeds\<close>

lemma make_dummy_total:
  assumes "typed_ctx V c" and "v \<in> V"
  shows "\<exists>d op c'. make_dummy_like v c = Inr (d, op, c') \<and> typed_ctx V c'"
proof -
  have v: "v \<in> var_names c" using assms by (auto simp: typed_ctx_def)
  then obtain name where name: "map_of (all_vars c) v = Some name"
    by (metis var_names_def domD dom_map_of_conv_image_fst)
  obtain d c1 where m: "make_var name c = (d, c1)" by fastforce
  note f = make_var_fresh_aux [OF m]
  obtain ty where ty: "typemap c v = Some ty" using assms by (auto simp: typed_ctx_def)
  have d: "typemap c1 d = None" using f(1,5) assms(1) by (auto simp: typed_ctx_def domIff)
  have "make_dummy_like v c = Inr (d, Plain MakeDummy [] [d], c1\<lparr>typemap := (typemap c1)(d \<mapsto> ty)\<rparr>)"
    using name m ty f(5) d
    by (simp add: make_dummy_like_def make_var_like_def get_original_name_def get_type_def set_type_def py_assert_def)
  moreover have "typed_ctx V (c1\<lparr>typemap := (typemap c1)(d \<mapsto> ty)\<rparr>)"
    using assms(1) f(2,5) by (auto simp: typed_ctx_def var_names_def)
  ultimately show ?thesis by blast
qed

lemma replace_total:
  "typed_ctx V c \<Longrightarrow> set vs \<subseteq> V \<Longrightarrow>
   \<exists>ws new_ops c'. replace_pruned_with_dummy vs used c = Inr (ws, new_ops, c') \<and> typed_ctx V c'"
proof (induction vs arbitrary: c)
  case (Cons v vs)
  show ?case
  proof (cases "v \<in> set used")
    case True
    from Cons.IH [OF Cons.prems(1)] Cons.prems(2) True show ?thesis by auto
  next
    case False
    from make_dummy_total [OF Cons.prems(1), of v] Cons.prems(2) obtain d op c1 where
      d: "make_dummy_like v c = Inr (d, op, c1)" "typed_ctx V c1" by auto
    from Cons.IH [OF d(2)] Cons.prems(2) False d(1) show ?thesis by auto
  qed
qed simp

lemma set_sel: "set (sel K xs) \<subseteq> set xs"
  by (auto simp: sel_def dest: set_zip_leftD)

lemma restrict_attrs_total: "length keep = attrs_length k \<Longrightarrow> \<exists>k'. restrict_attrs keep k = Inr k'"
  by (cases k) (simp_all add: select_by_mask_def strict_zip_def)

definition mask_fits :: "nat option \<Rightarrow> bool list \<Rightarrow> bool" where
  "mask_fits a keep \<longleftrightarrow> (\<forall>k. a = Some k \<longrightarrow> length keep = k)"

lemma prune_total:
  assumes "live U (map_of names) ops l t cf" and "arity ops la ta" and "mask_fits la lm" and "mask_fits ta bm"
    and "scoped S ops" and "S \<union> set (all_defs ops) \<subseteq> V" and "typed_ctx V c"
  shows "\<exists>ops' c'. prune_block ops used names lm bm c = Inr (ops', c') \<and> typed_ctx V c'"
  using assms
proof (induction S ops arbitrary: l t cf la ta lm bm c rule: scoped.induct)
  case (2 S cl opnds rs ops)
  have rest: "live U (map_of names) ops l t cf" using "2.prems"(1) by auto
  have "\<exists>ops' c'. prune_block ops used names lm bm c = Inr (ops', c') \<and> typed_ctx V c'"
    by (rule "2.IH" [OF rest]) (use "2.prems" in auto)
  then show ?case by auto
next
  case (3 S i rng inits params body rs ops)
  from "3.prems"(1) obtain name fr where name: "map_of names i = Some name"
    and nested: "live U (map_of names) body (Some fr) None (Some name)" and rest: "live U (map_of names) ops l t cf"
    by auto
  have ar: "length inits = length rs" "length (body_vars rng params) = length rs" using "3.prems"(2) by auto
  define keep where "keep = map (\<lambda>(b, r). b \<in> set used \<or> r \<in> set used) (zip (body_vars rng params) rs)"
  have k: "length keep = length rs" using ar by (simp add: keep_def)
  show ?case
  proof (cases "name \<in> set used")
    case False
    have "\<exists>ops' c'. prune_block ops used names lm bm c = Inr (ops', c') \<and> typed_ctx V c'"
      by (rule "3.IH"(2) [OF rest]) (use "3.prems" in auto)
    then show ?thesis using name False by (simp add: cf_name_def)
  next
    case True
    have "set (sel keep inits) \<subseteq> V" using "3.prems"(5,6) set_sel [of keep inits] by auto
    from replace_total [OF "3.prems"(7) this, of used] obtain ws new_ops c1 where
      r: "replace_pruned_with_dummy (sel keep inits) used c = Inr (ws, new_ops, c1)" "typed_ctx V c1" by blast
    have "\<exists>ops' c'. prune_block body used names keep [] c1 = Inr (ops', c') \<and> typed_ctx V c'"
      by (rule "3.IH"(1) [OF nested, of "Some (length rs)" None]) (use "3.prems" r k in \<open>auto simp: mask_fits_def\<close>)
    then obtain body' c2 where b: "prune_block body used names keep [] c1 = Inr (body', c2)" "typed_ctx V c2" by blast
    have "\<exists>ops' c'. prune_block ops used names lm bm c2 = Inr (ops', c') \<and> typed_ctx V c'"
      by (rule "3.IH"(2) [OF rest]) (use "3.prems" b in auto)
    then obtain ops' c3 where o: "prune_block ops used names lm bm c2 = Inr (ops', c3)" "typed_ctx V c3" by blast
    have s: "select_by_mask xs keep = Inr (sel keep xs)" if "length xs = length rs" for xs :: "var list"
      using that k by (simp add: select_by_mask_Inr)
    show ?thesis
      using name True ar r(1) b(1) o s
      by (simp add: cf_name_def strict_zip_def keep_def [symmetric] Let_def)
  qed
next
  case (4 S i c0 th el rs ops)
  from "4.prems"(1) obtain name where name: "map_of names i = Some name"
    and nested: "live U (map_of names) th l (Some rs) (Some name)" "live U (map_of names) el l (Some rs) (Some name)"
    and rest: "live U (map_of names) ops l t cf" by auto
  let ?keep = "map (\<lambda>r. r \<in> set used) rs"
  show ?case
  proof (cases "name \<in> set used")
    case False
    have "\<exists>ops' c'. prune_block ops used names lm bm c = Inr (ops', c') \<and> typed_ctx V c'"
      by (rule "4.IH"(3) [OF rest]) (use "4.prems" in auto)
    then show ?thesis using name False by (simp add: cf_name_def)
  next
    case True
    have "\<exists>ops' c'. prune_block th used names lm ?keep c = Inr (ops', c') \<and> typed_ctx V c'"
      by (rule "4.IH"(1) [OF nested(1)]) (use "4.prems" in \<open>auto simp: mask_fits_def\<close>)
    then obtain th' c1 where th: "prune_block th used names lm ?keep c = Inr (th', c1)" "typed_ctx V c1" by blast
    have "\<exists>ops' c'. prune_block el used names lm ?keep c1 = Inr (ops', c') \<and> typed_ctx V c'"
      by (rule "4.IH"(2) [OF nested(2)]) (use "4.prems" th in \<open>auto simp: mask_fits_def\<close>)
    then obtain el' c2 where el: "prune_block el used names lm ?keep c1 = Inr (el', c2)" "typed_ctx V c2" by blast
    have "\<exists>ops' c'. prune_block ops used names lm bm c2 = Inr (ops', c') \<and> typed_ctx V c'"
      by (rule "4.IH"(3) [OF rest]) (use "4.prems" el in auto)
    then obtain ops' c3 where o: "prune_block ops used names lm bm c2 = Inr (ops', c3)" "typed_ctx V c3" by blast
    show ?thesis using name True th(1) el(1) o
      by (simp add: cf_name_def Let_def select_by_mask_def strict_zip_def)
  qed
next
  case (5 S i k xs params body rs ops)
  from "5.prems"(1) obtain name where name: "map_of names i = Some name"
    and nested: "live U (map_of names) body None (Some rs) (Some name)" and rest: "live U (map_of names) ops l t cf"
    by auto
  have ar: "length xs = length rs" "length params = length xs * 2" "attrs_length k = length xs" using "5.prems"(2) by auto
  let ?keep = "map (\<lambda>r. r \<in> set used) rs"
  show ?case
  proof (cases "name \<in> set used")
    case False
    have "\<exists>ops' c'. prune_block ops used names lm bm c = Inr (ops', c') \<and> typed_ctx V c'"
      by (rule "5.IH"(2) [OF rest]) (use "5.prems" in auto)
    then show ?thesis using name False by (simp add: cf_name_def)
  next
    case True
    have "\<exists>ops' c'. prune_block body used names [] ?keep c = Inr (ops', c') \<and> typed_ctx V c'"
      by (rule "5.IH"(1) [OF nested, of None]) (use "5.prems" in \<open>auto simp: mask_fits_def\<close>)
    then obtain body' c1 where b: "prune_block body used names [] ?keep c = Inr (body', c1)" "typed_ctx V c1" by blast
    have "\<exists>ops' c'. prune_block ops used names lm bm c1 = Inr (ops', c') \<and> typed_ctx V c'"
      by (rule "5.IH"(2) [OF rest]) (use "5.prems" b in auto)
    then obtain ops' c3 where o: "prune_block ops used names lm bm c1 = Inr (ops', c3)" "typed_ctx V c3" by blast
    obtain k' where k': "restrict_attrs ?keep k = Inr k'" using restrict_attrs_total [of ?keep k] ar by auto
    show ?thesis using name True ar b(1) o k'
      by (simp add: cf_name_def Let_def select_by_mask_def strict_zip_def reduction_lhs_def reduction_rhs_def)
  qed
next
  case (6 S vs ops)
  have rest: "live U (map_of names) ops l t cf" using "6.prems"(1) by auto
  have l: "length lm = length vs" using "6.prems"(2,3) by (auto simp: mask_fits_def)
  have "set (sel lm vs) \<subseteq> V" using "6.prems"(5,6) set_sel [of lm vs] by auto
  from replace_total [OF "6.prems"(7) this, of used] obtain ws new_ops c1 where
    r: "replace_pruned_with_dummy (sel lm vs) used c = Inr (ws, new_ops, c1)" "typed_ctx V c1" by blast
  have "\<exists>ops' c'. prune_block ops used names lm bm c1 = Inr (ops', c') \<and> typed_ctx V c'"
    by (rule "6.IH" [OF rest]) (use "6.prems" r in auto)
  then show ?case using r(1) l by (auto simp: select_by_mask_Inr [THEN iffD2])
next
  case (7 S vs ops)
  have rest: "live U (map_of names) ops l t cf" using "7.prems"(1) by auto
  have l: "length lm = length vs" using "7.prems"(2,3) by (auto simp: mask_fits_def)
  have "set (sel lm vs) \<subseteq> V" using "7.prems"(5,6) set_sel [of lm vs] by auto
  from replace_total [OF "7.prems"(7) this, of used] obtain ws new_ops c1 where
    r: "replace_pruned_with_dummy (sel lm vs) used c = Inr (ws, new_ops, c1)" "typed_ctx V c1" by blast
  have "\<exists>ops' c'. prune_block ops used names lm bm c1 = Inr (ops', c') \<and> typed_ctx V c'"
    by (rule "7.IH" [OF rest]) (use "7.prems" r in auto)
  then show ?case using r(1) l by (auto simp: select_by_mask_Inr [THEN iffD2])
next
  case (8 S vs ops)
  have rest: "live U (map_of names) ops l t cf" using "8.prems"(1) by auto
  have l: "length bm = length vs" using "8.prems"(2,4) by (auto simp: mask_fits_def)
  have "\<exists>ops' c'. prune_block ops used names lm bm c = Inr (ops', c') \<and> typed_ctx V c'"
    by (rule "8.IH" [OF rest]) (use "8.prems" in auto)
  then show ?case using l by (auto simp: select_by_mask_Inr [THEN iffD2])
next
  case (9 S ops)
  have rest: "live U (map_of names) ops l t cf" using "9.prems"(1) by auto
  have "\<exists>ops' c'. prune_block ops used names lm bm c = Inr (ops', c') \<and> typed_ctx V c'"
    by (rule "9.IH" [OF rest]) (use "9.prems" in auto)
  then show ?case by auto
qed auto


section \<open>Properties\<close>

text \<open>
  C22. The worklist terminates and computes reachability: the used variables at the end are
  exactly those that the initial ones depend on, directly or through other variables.
\<close>

theorem find_used_variables_reachable:
  "set (find_used_variables graph used) = (dep_edges graph)\<^sup>* `` set used"
  unfolding find_used_variables_def by (rule grow_used_closure) auto

lemma used_closed:
  "x \<in> set (find_used_variables graph used) \<Longrightarrow> set (deps_of graph x) \<subseteq> set (find_used_variables graph used)"
proof -
  have eq: "set (find_used_variables graph used) = (dep_edges graph)\<^sup>* `` set used"
    unfolding find_used_variables_def by (rule grow_used_closure) auto
  assume x: "x \<in> set (find_used_variables graph used)"
  show "set (deps_of graph x) \<subseteq> set (find_used_variables graph used)"
  proof
    fix d assume "d \<in> set (deps_of graph x)"
    then have "(x, d) \<in> dep_edges graph" by (simp add: dep_edges_def)
    then show "d \<in> set (find_used_variables graph used)" using x unfolding eq by (auto intro: rtrancl_into_rtrancl)
  qed
qed

text \<open>A kernel the pass accepts: single assignment, scoped, with matching jumps, typed and named.\<close>

definition kernel_ok :: "var set \<Rightarrow> operation list \<Rightarrow> ir_context \<Rightarrow> bool" where
  "kernel_ok S ops c \<longleftrightarrow> scoped S ops \<and> distinct (all_defs ops) \<and> distinct (op_ids ops)
     \<and> arity ops None None \<and> typed_ctx (S \<union> set (all_defs ops)) c"

lemma dce_runs:
  assumes "kernel_ok S ops c"
  shows "\<exists>names used ops' c0 c'. dead_code_elimination_pass ops c = Inr (ops', c')
    \<and> prune_block ops used names [] [] c0 = Inr (ops', c') \<and> set used \<subseteq> var_names c0
    \<and> live (set used) (map_of names) ops None None None"
proof -
  let ?st = "\<lparr>df_graph = [], df_used = [], op_to_cf_name = [], df_ctx = c\<rparr>"
  let ?V = "S \<union> set (all_defs ops)"
  have V: "?V \<subseteq> var_names c" using assms by (auto simp: kernel_ok_def typed_ctx_def)
  have "build_pre S ops None None None ?st"
    using assms V
    by (auto simp: build_pre_def kernel_ok_def frame_arity_def frames_ok_def option_list_def vars_ok_def keys_def
        deps_def deps_of_def names_of_def objs_def)
  from buildsD [OF build_ok this] obtain st where
    b: "build_dataflow_graph ops None None None ?st = Inr st" and g: "grows (set (all_defs ops)) (set (op_ids ops)) ?st st"
    and v: "vars_ok st" and c: "consistent ops None None None st" unfolding build_post_def by blast
  let ?used = "find_used_variables (df_graph st) (df_used st)"
  have cl: "closed (set ?used) st"
  proof -
    have "set (df_used st) \<subseteq> set ?used"
      using grow_used_closure [of "df_used st" "df_used st" "df_graph st"] by (auto simp: find_used_variables_def)
    then show ?thesis using used_closed unfolding closed_def deps_def by blast
  qed
  have l: "live (set ?used) (map_of (op_to_cf_name st)) ops None None None"
    using c cl unfolding consistent_def by (simp add: map_le_refl)
  have n: "set ?used \<subseteq> var_names (df_ctx st)"
  proof -
    have eq: "set ?used = (dep_edges (df_graph st))\<^sup>* `` set (df_used st)"
      using grow_used_closure [of "df_used st" "df_used st" "df_graph st"] by (simp add: find_used_variables_def)
    have "y \<in> names_of st" if "(x, y) \<in> (dep_edges (df_graph st))\<^sup>*" "x \<in> names_of st" for x y
      using that by (induction rule: rtrancl_induct) (use v in \<open>auto simp: vars_ok_def dep_edges_def deps_def\<close>)
    then show ?thesis using v unfolding eq vars_ok_def names_of_def by blast
  qed
  have t: "typed_ctx ?V (df_ctx st)"
    using assms g by (auto simp: kernel_ok_def typed_ctx_def grows_def names_of_def)
  have "\<exists>ops' c'. prune_block ops ?used (op_to_cf_name st) [] [] (df_ctx st) = Inr (ops', c') \<and> typed_ctx ?V c'"
    by (rule prune_total [OF l _ _ _ _ order_refl t, of None None])
      (use assms in \<open>auto simp: kernel_ok_def mask_fits_def\<close>)
  then obtain ops' c' where p: "prune_block ops ?used (op_to_cf_name st) [] [] (df_ctx st) = Inr (ops', c')" by blast
  have "dead_code_elimination_pass ops c = Inr (ops', c')"
    using b p by (simp add: dead_code_elimination_pass_def)
  then show ?thesis using p n l by blast
qed

text \<open>
  C1. Dead code elimination never fails on a well-formed kernel and keeps its behaviour:
  when the kernel runs to its return, the pruned kernel does, with the same memory, the
  same stores in the same order and no more iterations, on every machine whose operations
  respect their declared effects.
\<close>

theorem dce_sound:
  assumes "kernel_ok S ops c" and "respects_effects M" and "makes_dummies M"
    and "exec M n ops env m = Some (Returned, m')"
  shows "\<exists>ops' c'. dead_code_elimination_pass ops c = Inr (ops', c') \<and> exec M n ops' env m = Some (Returned, m')"
proof -
  from dce_runs [OF assms(1)] obtain names used ops' c0 c' where
    d: "dead_code_elimination_pass ops c = Inr (ops', c')" "prune_block ops used names [] [] c0 = Inr (ops', c')"
      "set used \<subseteq> var_names c0" "live (set used) (map_of names) ops None None None" by blast
  have w: "within (set used) None" by (simp add: within_def option_list_def)
  have mk: "loop_used (set used) None \<and> masks_ok (set used) None [] None []" by (simp add: loop_used_def masks_ok_def)
  have "covers (set used) env env" by (simp add: covers_def)
  from live_sim [OF assms(2,3) refl d(4) w mk d(2,3) this assms(4)] obtain q' where
    "exec M n ops' env m = Some (q', m')" "out_rel (set used) None None Returned q'" by blast
  then show ?thesis using d(1) by auto
qed

text \<open>
  A kernel with an unused computation, an unused carried variable and a loop that is left in
  its first iteration.
\<close>

definition dce_program :: "operation list" where
  "dce_program =
     [Plain (Unary ''neg'' None False) [(''operand'', OVar ''x'')] [''d''],
      Loop 1 None [''x'', ''d''] [''a'', ''b'']
        [Plain StorePointer [(''pointer'', OVar ''a'')] [],
         Plain (Unary ''neg'' None False) [(''operand'', OVar ''a'')] [''a2''],
         Plain (Unary ''neg'' None False) [(''operand'', OVar ''b'')] [''b2''],
         IfElse 2 ''x'' [Break [''a2'', ''b2'']] [EndBranch []] [],
         Continue [''a2'', ''b2'']] [''r'', ''s''],
      Plain StorePointer [(''pointer'', OVar ''r'')] [], Return]"

definition dce_context :: ir_context where
  "dce_context = sample_context\<lparr>all_vars := map (\<lambda>v. (v, v)) (''x'' # all_defs dce_program),
     typemap := (\<lambda>v. if v \<in> set (''x'' # all_defs dce_program) then Some TokenTy else None)\<rparr>"

theorem dce_sound_witness:
  "\<exists>ops' c'. dead_code_elimination_pass dce_program dce_context = Inr (ops', c')
     \<and> exec sample_machine 1 ops' [''x'' \<mapsto> 7] [] = Some (Returned, [7, 8])"
proof (rule dce_sound)
  show "kernel_ok {''x''} dce_program dce_context"
    by (auto simp: kernel_ok_def dce_program_def dce_context_def sample_context_def operands_vars_def range_vars_def
        body_vars_def is_for_loop_def typed_ctx_def var_names_def dom_def)
  show "respects_effects sample_machine"
    unfolding respects_effects_def sample_machine_def by (auto split: op_class.splits)
  show "makes_dummies sample_machine" by (simp add: makes_dummies_def sample_machine_def)
  show "exec sample_machine 1 dce_program [''x'' \<mapsto> 7] [] = Some (Returned, [7, 8])"
    by (simp add: dce_program_def sample_machine_def eval_operands_def bind_vars_def run_loop_def loop_step_def
        branch_step_def first_value_def)
qed

end
