(* ===== verification/CodeMotion.thy ===== *)
theory CodeMotion
  imports TileSem
begin

text \<open>
  Loop invariant code motion, \<^verbatim>\<open>_passes/code_motion.py\<close>: one pass that moves operations out of
  loop bodies while it walks them. The first part is the pass; the second shows that the
  operations with effects keep their order.
\<close>

section \<open>The pass\<close>

datatype BlockMobility = IMMOVABLE | CAN_MOVE_WITH_LOOP | CAN_MOVE

fun BlockMobility_value :: "BlockMobility \<Rightarrow> nat" where
  "BlockMobility_value IMMOVABLE = 0"
| "BlockMobility_value CAN_MOVE_WITH_LOOP = 1"
| "BlockMobility_value CAN_MOVE = 2"

lemma BlockMobility_value_inj: "BlockMobility_value a = BlockMobility_value b \<longleftrightarrow> a = b"
  by (cases a; cases b) simp_all

text \<open>It is an \<^verbatim>\<open>IntEnum\<close>, compared by value.\<close>

instantiation BlockMobility :: linorder
begin

definition less_eq_BlockMobility :: "BlockMobility \<Rightarrow> BlockMobility \<Rightarrow> bool" where
  "less_eq_BlockMobility a b \<longleftrightarrow> BlockMobility_value a \<le> BlockMobility_value b"

definition less_BlockMobility :: "BlockMobility \<Rightarrow> BlockMobility \<Rightarrow> bool" where
  "less_BlockMobility a b \<longleftrightarrow> BlockMobility_value a < BlockMobility_value b"

instance
  by standard (auto simp: less_eq_BlockMobility_def less_BlockMobility_def BlockMobility_value_inj)

end

record block_result =
  mobility :: BlockMobility
  min_depth :: nat

definition initial_result :: block_result where
  "initial_result = \<lparr>mobility = CAN_MOVE, min_depth = 0\<rparr>"

record dependency_info =
  must_stay :: bool
  max_outside_depth :: nat

definition update_dep :: "nat \<Rightarrow> nat \<Rightarrow> dependency_info \<Rightarrow> dependency_info" where
  "update_dep dependency_depth cur_block_depth dep =
     (if dependency_depth \<ge> cur_block_depth then dep\<lparr>must_stay := True\<rparr>
      else dep\<lparr>max_outside_depth := max (max_outside_depth dep) dependency_depth\<rparr>)"

text \<open>
  The stack of open blocks, outermost first, each with the operations it has so far and
  whether it is a loop body; and the depth of the block that defines a variable.
\<close>

record hoist_state =
  stack :: "(operation list \<times> bool) list"
  def_depth :: "var \<rightharpoonup> nat"

definition set_depths :: "var list \<Rightarrow> nat \<Rightarrow> hoist_state \<Rightarrow> hoist_state" where
  "set_depths vs d s = s\<lparr>def_depth := fold (\<lambda>v m. m(v \<mapsto> d)) vs (def_depth s)\<rparr>"

definition update_deps :: "var list \<Rightarrow> nat \<Rightarrow> hoist_state \<Rightarrow> dependency_info \<Rightarrow> dependency_info res" where
  "update_deps vs d s =
     fold_res (\<lambda>v dep. case def_depth s v of None \<Rightarrow> Inl KeyError | Some k \<Rightarrow> Inr (update_dep k d dep)) vs"

definition open_block :: "bool \<Rightarrow> hoist_state \<Rightarrow> hoist_state" where
  "open_block is_loop_body s = s\<lparr>stack := stack s @ [([], is_loop_body)]\<rparr>"

definition close_block :: "hoist_state \<times> block_result \<Rightarrow> operation list \<times> hoist_state \<times> block_result" where
  "close_block sr =
     (case sr of (s, r) \<Rightarrow> (fst (last (stack s)), s\<lparr>stack := butlast (stack s)\<rparr>, r))"

text \<open>The while loop that looks for the outermost loop the operation can leave.\<close>

fun target_depth :: "(operation list \<times> bool) list \<Rightarrow> nat \<Rightarrow> nat \<Rightarrow> nat" where
  "target_depth st outside 0 = 0"
| "target_depth st outside (Suc t) =
     (if Suc t > outside \<and> snd (st ! Suc t) then target_depth st outside t else Suc t)"

definition append_at :: "nat \<Rightarrow> operation \<Rightarrow> hoist_state \<Rightarrow> hoist_state" where
  "append_at t op s = s\<lparr>stack := (stack s)[t := (fst (stack s ! t) @ [op], snd (stack s ! t))]\<rparr>"

text \<open>The end of the body of the main loop.\<close>

definition place_op ::
  "operation \<Rightarrow> nat \<Rightarrow> dependency_info \<Rightarrow> hoist_state \<Rightarrow> block_result \<Rightarrow> hoist_state \<times> block_result" where
  "place_op op d dep s ret =
     (let ret' = (if must_stay dep then ret\<lparr>min_depth := max (min_depth ret) (max_outside_depth dep)\<rparr> else ret);
          t = (if must_stay dep then d else target_depth (stack s) (max_outside_depth dep) d)
      in (set_depths (result_vars op) t (append_at t op s), ret'))"

definition new_dep :: "bool \<Rightarrow> dependency_info" where
  "new_dep is_loop_body = \<lparr>must_stay = \<not> is_loop_body, max_outside_depth = 0\<rparr>"

definition stay_if :: "bool \<Rightarrow> dependency_info \<Rightarrow> dependency_info" where
  "stay_if b dep = (if b then dep\<lparr>must_stay := True\<rparr> else dep)"

text \<open>A branch of a conditional, after its block was walked.\<close>

definition add_branch ::
  "nat \<Rightarrow> block_result \<Rightarrow> block_result \<times> dependency_info \<Rightarrow> block_result \<times> dependency_info" where
  "add_branch d branch_res rd =
     (case rd of (ret, dep) \<Rightarrow>
       let dep = update_dep (min_depth branch_res) d dep in
       if mobility branch_res \<noteq> CAN_MOVE
       then (ret\<lparr>mobility := min (mobility ret) (mobility branch_res)\<rparr>, dep\<lparr>must_stay := True\<rparr>)
       else (ret, dep))"

text \<open>A loop or a reduction, after its body was walked.\<close>

definition add_body ::
  "block_result \<Rightarrow> block_result \<times> dependency_info \<Rightarrow> block_result \<times> dependency_info" where
  "add_body body_res rd =
     (case rd of (ret, dep) \<Rightarrow>
       if mobility body_res = IMMOVABLE
       then (ret\<lparr>mobility := IMMOVABLE\<rparr>, dep\<lparr>must_stay := True\<rparr>) else (ret, dep))"

text \<open>
  \<^verbatim>\<open>_hoist\<close> from an operation of its block on; \<^verbatim>\<open>d\<close> is the depth of the block and \<^verbatim>\<open>lb\<close> tells
  whether it is a loop body. The call for a nested block opens it first and closes it at the
  end, which gives the new contents of the block.
\<close>

fun hoist_ops ::
  "operation list \<Rightarrow> bool \<Rightarrow> nat \<Rightarrow> hoist_state \<Rightarrow> block_result \<Rightarrow> (hoist_state \<times> block_result) res" where
  "hoist_ops [] lb d s ret = Inr (s, ret)"
| "hoist_ops (Loop i rng inits params body rs # ops) lb d s ret =
     and_then (hoist_ops body True (Suc d) (open_block True (set_depths params (Suc d) s)) initial_result) (\<lambda>sr.
       let (body', s, body_res) = close_block sr;
           (ret, dep) = add_body body_res (ret, new_dep lb) in
     and_then (update_deps inits d s dep) (\<lambda>dep.
       let (s, ret) = place_op (Loop i rng inits params body' rs) d (update_dep (min_depth body_res) d dep) s ret
       in hoist_ops ops lb d s ret))"
| "hoist_ops (Reduction i k xs params body rs # ops) lb d s ret =
     and_then (hoist_ops body True (Suc d) (open_block True (set_depths params (Suc d) s)) initial_result) (\<lambda>sr.
       let (body', s, body_res) = close_block sr;
           (ret, dep) = add_body body_res (ret, new_dep lb) in
     and_then (update_deps xs d s dep) (\<lambda>dep.
       let (s, ret) = place_op (Reduction i k xs params body' rs) d (update_dep (min_depth body_res) d dep) s ret
       in hoist_ops ops lb d s ret))"
| "hoist_ops (IfElse i cond t e rs # ops) lb d s ret =
     and_then (update_deps [cond] d s (new_dep lb)) (\<lambda>dep.
     and_then (hoist_ops t False (Suc d) (open_block False s) initial_result) (\<lambda>sr.
       let (t', s, t_res) = close_block sr; rd = add_branch d t_res (ret, dep) in
     and_then (hoist_ops e False (Suc d) (open_block False s) initial_result) (\<lambda>sr.
       let (e', s, e_res) = close_block sr; (ret, dep) = add_branch d e_res rd;
           (s, ret) = place_op (IfElse i cond t' e' rs) d dep s ret
       in hoist_ops ops lb d s ret)))"
| "hoist_ops (Plain c opnds rs # ops) lb d s ret =
     (if memory_effect (Plain c opnds rs) = EFFECT_STORE
      then let (s, ret) = place_op (Plain c opnds rs) d (stay_if True (new_dep lb)) s (ret\<lparr>mobility := IMMOVABLE\<rparr>)
           in hoist_ops ops lb d s ret
      else and_then (update_deps (all_inputs (Plain c opnds rs)) d s (new_dep lb)) (\<lambda>dep.
             let (s, ret) = place_op (Plain c opnds rs) d dep s ret
             in hoist_ops ops lb d s ret))"
| "hoist_ops (Continue vs # ops) lb d s ret =
     (let (s, ret) = place_op (Continue vs) d (stay_if True (new_dep lb)) s
                       (ret\<lparr>mobility := min (mobility ret) CAN_MOVE_WITH_LOOP\<rparr>)
      in hoist_ops ops lb d s ret)"
| "hoist_ops (Break vs # ops) lb d s ret =
     (let (s, ret) = place_op (Break vs) d (stay_if True (new_dep lb)) s
                       (ret\<lparr>mobility := min (mobility ret) CAN_MOVE_WITH_LOOP\<rparr>)
      in hoist_ops ops lb d s ret)"
| "hoist_ops (EndBranch vs # ops) lb d s ret =
     and_then (update_deps vs d s (stay_if True (new_dep lb))) (\<lambda>dep.
       let (s, ret) = place_op (EndBranch vs) d dep s ret
       in hoist_ops ops lb d s ret)"
| "hoist_ops (Return # ops) lb d s ret =
     (let (s, ret) = place_op Return d (stay_if True (new_dep lb)) s (ret\<lparr>mobility := IMMOVABLE\<rparr>)
      in hoist_ops ops lb d s ret)"

definition hoist_loop_invariants :: "var list \<Rightarrow> operation list \<Rightarrow> operation list res" where
  "hoist_loop_invariants params ops =
     (let s = \<lparr>stack = [], def_depth = fold (\<lambda>v m. m(v \<mapsto> 0)) params Map.empty\<rparr> in
      and_then (hoist_ops ops False 0 (open_block False s) initial_result) (\<lambda>sr.
        let (ops', s, r) = close_block sr in Inr ops'))"


section \<open>Operations with effects keep their order\<close>

definition has_effect :: "operation \<Rightarrow> bool" where
  "has_effect op \<longleftrightarrow> memory_effect op = EFFECT_STORE \<or> op = Return"

definition effects :: "operation list \<Rightarrow> operation list" where
  "effects ops = filter has_effect (traverse ops)"

lemma traverse_append: "traverse (xs @ ys) = traverse xs @ traverse ys"
  by (induction xs rule: traverse.induct) simp_all

lemma effects_append: "effects (xs @ ys) = effects xs @ effects ys"
  by (simp add: effects_def traverse_append)

lemma effects_simps [simp]:
  "effects [] = []"
  "effects (Loop i rng inits params body rs # ops) = effects body @ effects ops"
  "effects (IfElse i cond t e rs # ops) = effects t @ effects e @ effects ops"
  "effects (Reduction i k xs params body rs # ops) = effects body @ effects ops"
  "effects (Plain c opnds rs # ops) =
     (if class_effect c = EFFECT_STORE then [Plain c opnds rs] else []) @ effects ops"
  "effects (Continue vs # ops) = effects ops"
  "effects (Break vs # ops) = effects ops"
  "effects (EndBranch vs # ops) = effects ops"
  "effects (Return # ops) = Return # effects ops"
  by (simp_all add: effects_def has_effect_def)

definition level_effects :: "hoist_state \<Rightarrow> operation list list" where
  "level_effects s = map (\<lambda>b. effects (fst b)) (stack s)"

definition grown_at :: "nat \<Rightarrow> operation list \<Rightarrow> hoist_state \<Rightarrow> hoist_state \<Rightarrow> bool" where
  "grown_at d ops s s' \<longleftrightarrow>
     level_effects s' = (level_effects s)[d := level_effects s ! d @ effects ops]"

lemma fold_upd: "fold (\<lambda>v m. m(v \<mapsto> d)) vs m = (\<lambda>v. if v \<in> set vs then Some d else m v)"
  by (induction vs arbitrary: m) (auto simp: fun_eq_iff)

lemma set_depths_simps [simp]:
  "stack (set_depths vs d s) = stack s"
  "def_depth (set_depths vs d s) = (\<lambda>v. if v \<in> set vs then Some d else def_depth s v)"
  by (simp_all add: set_depths_def fold_upd)

lemma open_block_stack [simp]:
  "stack (open_block b s) = stack s @ [([], b)]" "def_depth (open_block b s) = def_depth s"
  by (simp_all add: open_block_def)

lemma target_depth_le: "target_depth st m d \<le> d"
  by (induction d) auto

lemma update_deps_Cons:
  "update_deps (v # vs) d s dep =
     (case def_depth s v of None \<Rightarrow> Inl KeyError | Some k \<Rightarrow> update_deps vs d s (update_dep k d dep))"
  by (simp add: update_deps_def split: option.splits)

lemma update_deps_Nil [simp]: "update_deps [] d s dep = Inr dep"
  by (simp add: update_deps_def)

lemma update_dep_stays: "must_stay dep \<Longrightarrow> must_stay (update_dep k d dep)"
  by (simp add: update_dep_def)

lemma update_deps_stays: "update_deps vs d s dep = Inr dep' \<Longrightarrow> must_stay dep \<Longrightarrow> must_stay dep'"
  by (induction vs arbitrary: dep)
    (auto simp: update_deps_Cons intro: update_dep_stays split: option.splits)

lemma place_op_effects:
  assumes "place_op op d dep s ret = (s', ret')" and "length (stack s) = Suc d"
    and "\<not> must_stay dep \<Longrightarrow> effects [op] = []"
  shows "length (stack s') = Suc d" and "grown_at d [op] s s'" and "mobility ret' = mobility ret"
proof -
  define t where "t = (if must_stay dep then d else target_depth (stack s) (max_outside_depth dep) d)"
  have s': "stack s' = (stack s)[t := (fst (stack s ! t) @ [op], snd (stack s ! t))]"
    using assms(1) by (auto simp: place_op_def Let_def t_def append_at_def)
  have t: "t < length (stack s)" using assms(2) target_depth_le [of "stack s" _ d] by (simp add: t_def le_imp_less_Suc)
  show "length (stack s') = Suc d" using assms(2) by (simp add: s')
  show "mobility ret' = mobility ret" using assms(1) by (auto simp: place_op_def Let_def split: if_splits)
  have "level_effects s' = (level_effects s)[t := level_effects s ! t @ effects [op]]"
    using t by (simp add: level_effects_def s' map_update effects_append)
  moreover have "t = d \<or> effects [op] = []" using assms(3) by (auto simp: t_def)
  moreover have "(level_effects s)[t := level_effects s ! t] = (level_effects s)[d := level_effects s ! d]"
    by (simp add: list_update_id)
  ultimately show "grown_at d [op] s s'" by (auto simp: grown_at_def)
qed

lemma close_block_effects:
  assumes "close_block (s1, r) = (body', s', r')" and "length (stack s1) = Suc (Suc d)"
    and "grown_at (Suc d) body (open_block b s) s1" and "length (stack s) = Suc d"
  shows "length (stack s') = Suc d" and "level_effects s' = level_effects s"
    and "effects body' = effects body" and "r' = r"
proof -
  have le: "level_effects s1 = level_effects s @ [effects body]"
    using assms(3,4) by (simp add: grown_at_def level_effects_def nth_append list_update_append)
  obtain xs x where x: "stack s1 = xs @ [x]" using assms(2) by (cases "stack s1" rule: rev_cases) auto
  show "length (stack s') = Suc d" and "r' = r" using assms(1,2) by (auto simp: close_block_def)
  show "level_effects s' = level_effects s" "effects body' = effects body"
    using le assms(1) x by (auto simp: level_effects_def close_block_def)
qed

lemma grown_at_trans:
  assumes "grown_at d xs s s'" and "grown_at d ys s' s''" and "length (stack s) = Suc d"
  shows "grown_at d (xs @ ys) s s''"
  using assms by (simp add: grown_at_def level_effects_def effects_append)

text \<open>What the rest of the block adds, after one operation was placed.\<close>

definition hoist_post :: "operation list \<Rightarrow> nat \<Rightarrow> hoist_state \<Rightarrow> block_result \<Rightarrow> hoist_state \<times> block_result \<Rightarrow> bool" where
  "hoist_post ops d s ret sr \<longleftrightarrow>
     length (stack (fst sr)) = Suc d \<and> grown_at d ops s (fst sr)
     \<and> (mobility ret = IMMOVABLE \<longrightarrow> mobility (snd sr) = IMMOVABLE)
     \<and> (mobility (snd sr) \<noteq> IMMOVABLE \<longrightarrow> effects ops = [])"

lemma grown_at_refl [simp]: "grown_at d [] s s"
  by (simp add: grown_at_def)

lemma grown_at_cong: "level_effects s = level_effects s0 \<Longrightarrow> grown_at d ops s s' \<longleftrightarrow> grown_at d ops s0 s'"
  by (simp add: grown_at_def)

lemma grown_at_ops: "effects ops = effects ops' \<Longrightarrow> grown_at d ops s s' \<longleftrightarrow> grown_at d ops' s s'"
  by (simp add: grown_at_def)

lemma hoist_post_step:
  assumes "place_op op' d dep s0 ret0 = (s1, ret1)" and "hoist_post ops d s1 ret1 sr"
    and "length (stack s) = Suc d" and "length (stack s0) = Suc d" and "level_effects s0 = level_effects s"
    and "effects [op'] = effects [op]"
    and "\<not> must_stay dep \<Longrightarrow> effects [op] = []"
    and "mobility ret = IMMOVABLE \<Longrightarrow> mobility ret0 = IMMOVABLE"
    and "mobility ret0 \<noteq> IMMOVABLE \<Longrightarrow> effects [op] = []"
  shows "hoist_post (op # ops) d s ret sr"
proof -
  note p = place_op_effects [OF assms(1,4)]
  have "length (stack s1) = Suc d" "grown_at d [op'] s0 s1" "mobility ret1 = mobility ret0"
    using p assms(6,7) by auto
  then have g: "grown_at d [op] s s1" and m: "mobility ret1 = mobility ret0"
    using grown_at_cong [OF assms(5)] grown_at_ops [OF assms(6)] by blast+
  have "grown_at d ops s1 (fst sr)" using assms(2) by (simp add: hoist_post_def)
  then have "grown_at d (op # ops) s (fst sr)" using grown_at_trans [OF g _ assms(3), of ops] by simp
  moreover have "effects (op # ops) = effects [op] @ effects ops" using effects_append [of "[op]" ops] by simp
  ultimately show ?thesis using assms(2,8,9) m by (auto simp: hoist_post_def)
qed


lemma hoist_post_body:
  assumes "hoist_post body (Suc d) (open_block b s) initial_result sr" and "close_block sr = (body', s', r')"
    and "length (stack s) = Suc d"
  shows "length (stack s') = Suc d" and "level_effects s' = level_effects s" and "effects body' = effects body"
    and "mobility r' \<noteq> IMMOVABLE \<Longrightarrow> effects body = []"
proof -
  obtain s1 r where sr: "sr = (s1, r)" by (cases sr)
  have l: "length (stack s1) = Suc (Suc d)" "grown_at (Suc d) body (open_block b s) s1"
    and m: "mobility r \<noteq> IMMOVABLE \<Longrightarrow> effects body = []"
    using assms(1) by (auto simp: hoist_post_def sr)
  note c = close_block_effects [OF assms(2) [unfolded sr] l assms(3)]
  show "length (stack s') = Suc d" "level_effects s' = level_effects s" "effects body' = effects body"
    by (fact c(1), fact c(2), fact c(3))
  show "mobility r' \<noteq> IMMOVABLE \<Longrightarrow> effects body = []" using c(4) m by simp
qed

lemma add_body_cases:
  assumes "add_body r (ret, dep) = (ret', dep')"
  shows "mobility ret = IMMOVABLE \<Longrightarrow> mobility ret' = IMMOVABLE"
    and "mobility ret' \<noteq> IMMOVABLE \<or> \<not> must_stay dep' \<Longrightarrow> mobility r \<noteq> IMMOVABLE"
  using assms by (auto simp: add_body_def split: if_splits)

lemma min_IMMOVABLE [simp]: "min IMMOVABLE x = IMMOVABLE" "min x IMMOVABLE = IMMOVABLE"
  by (cases x; simp add: min_def less_eq_BlockMobility_def)+

lemma add_branch_cases:
  assumes "add_branch d r (ret, dep) = (ret', dep')"
  shows "mobility ret = IMMOVABLE \<Longrightarrow> mobility ret' = IMMOVABLE"
    and "must_stay dep \<Longrightarrow> must_stay dep'"
    and "mobility ret' \<noteq> IMMOVABLE \<or> \<not> must_stay dep' \<Longrightarrow> mobility r \<noteq> IMMOVABLE"
  using assms by (auto simp: add_branch_def Let_def update_dep_stays split: if_splits)

lemma must_stay_stay_if [simp]: "must_stay (stay_if b dep) \<longleftrightarrow> b \<or> must_stay dep"
  by (simp add: stay_if_def)

lemma level_effects_set_depths [simp]: "level_effects (set_depths vs d s) = level_effects s"
  by (simp add: level_effects_def)

lemma open_block_set_depths: "open_block b (set_depths vs d s) = set_depths vs d (open_block b s)"
  by (cases s) (simp add: open_block_def set_depths_def)

lemma hoist_post_set_depths [simp]: "hoist_post ops d (set_depths vs k s) ret sr = hoist_post ops d s ret sr"
  by (simp add: hoist_post_def grown_at_def)

lemma hoist_post_loop:
  assumes "hoist_post body (Suc d) (open_block True s) initial_result sr0"
    and "close_block sr0 = (body', s1, r)" and "add_body r (ret, new_dep lb) = (ret1, dep)"
    and "update_deps vs d s1 dep = Inr dep1"
    and "place_op (mk body') d (update_dep (min_depth r) d dep1) s1 ret1 = (s2, ret2)"
    and "hoist_post ops d s2 ret2 sr" and "length (stack s) = Suc d"
    and "\<And>b. effects [mk b] = effects b"
  shows "hoist_post (mk body # ops) d s ret sr"
proof -
  note b = hoist_post_body [OF assms(1,2,7)]
  show ?thesis
  proof (rule hoist_post_step [OF assms(5,6,7) b(1,2)])
    show "effects [mk body'] = effects [mk body]" using b(3) assms(8) by simp
    assume "\<not> must_stay (update_dep (min_depth r) d dep1)"
    then have "\<not> must_stay dep" using update_dep_stays update_deps_stays [OF assms(4)] by blast
    then show "effects [mk body] = []" using add_body_cases(2) [OF assms(3)] b(4) assms(8) [of body] by simp
  next
    assume "mobility ret = IMMOVABLE"
    then show "mobility ret1 = IMMOVABLE" using add_body_cases(1) [OF assms(3)] by blast
  next
    assume "mobility ret1 \<noteq> IMMOVABLE"
    then show "effects [mk body] = []" using add_body_cases(2) [OF assms(3)] b(4) assms(8) [of body] by simp
  qed
qed

lemma hoist_ops_effects:
  "hoist_ops ops lb d s ret = Inr sr \<Longrightarrow> length (stack s) = Suc d \<Longrightarrow> hoist_post ops d s ret sr"
proof (induction ops arbitrary: lb d s ret sr rule: all_defs.induct)
  case 1
  then show ?case by (auto simp: hoist_post_def)
next
  case (2 c opnds rs ops)
  show ?case
  proof (cases "class_effect c = EFFECT_STORE")
    case True
    obtain s1 ret1 where p: "place_op (Plain c opnds rs) d (stay_if True (new_dep lb)) s (ret\<lparr>mobility := IMMOVABLE\<rparr>) = (s1, ret1)"
      by fastforce
    then have h: "hoist_ops ops lb d s1 ret1 = Inr sr" using 2(2) True by simp
    have "length (stack s1) = Suc d" by (rule place_op_effects [OF p 2(3)]) simp
    from "2.IH" [OF h this] show ?thesis
      by (rule hoist_post_step [OF p _ 2(3) 2(3)]) (auto simp: True)
  next
    case False
    then obtain dep where dep: "update_deps (operands_vars opnds) d s (new_dep lb) = Inr dep"
      and h: "(let (s, ret) = place_op (Plain c opnds rs) d dep s ret in hoist_ops ops lb d s ret) = Inr sr"
      using 2(2) by (auto simp: and_then_Inr_iff)
    obtain s1 ret1 where p: "place_op (Plain c opnds rs) d dep s ret = (s1, ret1)" by fastforce
    have "length (stack s1) = Suc d" by (rule place_op_effects [OF p 2(3)]) (simp add: False)
    from "2.IH" [OF _ this] h p have "hoist_post ops d s1 ret1 sr" by simp
    then show ?thesis by (rule hoist_post_step [OF p _ 2(3) 2(3)]) (auto simp: False)
  qed
next
  case (3 i rng inits params body rs ops)
  let ?s = "set_depths params (Suc d) s"
  from "3.prems"(1) obtain sr0 where sr0: "hoist_ops body True (Suc d) (open_block True ?s) initial_result = Inr sr0"
    by (auto simp: and_then_Inr_iff)
  obtain body' s1 r where c: "close_block sr0 = (body', s1, r)" using prod_cases3 by blast
  obtain ret1 dep where a: "add_body r (ret, new_dep lb) = (ret1, dep)" by fastforce
  from "3.prems"(1) obtain dep1 where u: "update_deps inits d s1 dep = Inr dep1" by (auto simp: and_then_Inr_iff sr0 c a)
  obtain s2 ret2 where p: "place_op (Loop i rng inits params body' rs) d (update_dep (min_depth r) d dep1) s1 ret1 = (s2, ret2)"
    by fastforce
  have b: "hoist_post body (Suc d) (open_block True s) initial_result sr0"
    using "3.IH"(1) [OF sr0] "3.prems"(2) by (simp add: open_block_set_depths)
  note bb = hoist_post_body [OF b c "3.prems"(2)]
  have "length (stack s2) = Suc d" using p bb(1) target_depth_le by (auto simp: place_op_def Let_def append_at_def)
  then have "hoist_post ops d s2 ret2 sr" using "3.IH"(2) "3.prems"(1) by (auto simp: and_then_Inr_iff sr0 c a u p)
  then show ?case
    using hoist_post_loop [where mk = "\<lambda>b. Loop i rng inits params b rs", OF b c a u p _ "3.prems"(2)] by simp
next
  case (4 i cond t e rs ops)
  from "4.prems"(1) obtain dep where u: "update_deps [cond] d s (new_dep lb) = Inr dep" by (auto simp: and_then_Inr_iff)
  from "4.prems"(1) obtain sr1 where sr1: "hoist_ops t False (Suc d) (open_block False s) initial_result = Inr sr1"
    by (auto simp: and_then_Inr_iff u)
  obtain t' s1 r1 where c1: "close_block sr1 = (t', s1, r1)" using prod_cases3 by blast
  obtain ret1 dep1 where a1: "add_branch d r1 (ret, dep) = (ret1, dep1)" by fastforce
  from "4.prems"(1) obtain sr2 where sr2: "hoist_ops e False (Suc d) (open_block False s1) initial_result = Inr sr2"
    by (auto simp: and_then_Inr_iff u sr1 c1)
  obtain e' s2 r2 where c2: "close_block sr2 = (e', s2, r2)" using prod_cases3 by blast
  obtain ret2 dep2 where a2: "add_branch d r2 (ret1, dep1) = (ret2, dep2)" by fastforce
  obtain s3 ret3 where p: "place_op (IfElse i cond t' e' rs) d dep2 s2 ret2 = (s3, ret3)" by fastforce
  note b1 = hoist_post_body [OF "4.IH"(1) [OF sr1] c1 "4.prems"(2)]
  have l1: "length (stack s1) = Suc d" and e1: "level_effects s1 = level_effects s" "effects t' = effects t"
    and m1: "mobility r1 \<noteq> IMMOVABLE \<Longrightarrow> effects t = []"
    using b1 "4.prems"(2) by auto
  note b2 = hoist_post_body [OF "4.IH"(2) [OF sr2] c2 l1]
  have l2: "length (stack s2) = Suc d" and e2: "level_effects s2 = level_effects s" "effects e' = effects e"
    and m2: "mobility r2 \<noteq> IMMOVABLE \<Longrightarrow> effects e = []"
    using b2 l1 e1 by auto
  have "length (stack s3) = Suc d" using p l2 target_depth_le by (auto simp: place_op_def Let_def append_at_def)
  then have post: "hoist_post ops d s3 ret3 sr"
    using "4.IH"(3) "4.prems"(1) by (auto simp: and_then_Inr_iff u sr1 c1 a1 sr2 c2 a2 p)
  note k1 = add_branch_cases [OF a1] and k2 = add_branch_cases [OF a2]
  show ?case
    by (rule hoist_post_step [OF p post "4.prems"(2) l2 e2(1)]) (use e1 e2 k1 k2 m1 m2 in auto)
next
  case (5 i k xs params body rs ops)
  let ?s = "set_depths params (Suc d) s"
  from "5.prems"(1) obtain sr0 where sr0: "hoist_ops body True (Suc d) (open_block True ?s) initial_result = Inr sr0"
    by (auto simp: and_then_Inr_iff)
  obtain body' s1 r where c: "close_block sr0 = (body', s1, r)" using prod_cases3 by blast
  obtain ret1 dep where a: "add_body r (ret, new_dep lb) = (ret1, dep)" by fastforce
  from "5.prems"(1) obtain dep1 where u: "update_deps xs d s1 dep = Inr dep1" by (auto simp: and_then_Inr_iff sr0 c a)
  obtain s2 ret2 where p: "place_op (Reduction i k xs params body' rs) d (update_dep (min_depth r) d dep1) s1 ret1 = (s2, ret2)"
    by fastforce
  have b: "hoist_post body (Suc d) (open_block True s) initial_result sr0"
    using "5.IH"(1) [OF sr0] "5.prems"(2) by (simp add: open_block_set_depths)
  note bb = hoist_post_body [OF b c "5.prems"(2)]
  have "length (stack s2) = Suc d" using p bb(1) target_depth_le by (auto simp: place_op_def Let_def append_at_def)
  then have "hoist_post ops d s2 ret2 sr" using "5.IH"(2) "5.prems"(1) by (auto simp: and_then_Inr_iff sr0 c a u p)
  then show ?case
    using hoist_post_loop [where mk = "\<lambda>b. Reduction i k xs params b rs", OF b c a u p _ "5.prems"(2)] by simp
next
  case (6 vs ops)
  obtain s1 ret1 where p: "place_op (Continue vs) d (stay_if True (new_dep lb)) s
      (ret\<lparr>mobility := min (mobility ret) CAN_MOVE_WITH_LOOP\<rparr>) = (s1, ret1)" by fastforce
  have "length (stack s1) = Suc d" by (rule place_op_effects [OF p "6.prems"(2)]) simp
  then have "hoist_post ops d s1 ret1 sr" using "6.IH" "6.prems"(1) by (simp add: p)
  then show ?case by (rule hoist_post_step [OF p _ "6.prems"(2,2)]) auto
next
  case (7 vs ops)
  obtain s1 ret1 where p: "place_op (Break vs) d (stay_if True (new_dep lb)) s
      (ret\<lparr>mobility := min (mobility ret) CAN_MOVE_WITH_LOOP\<rparr>) = (s1, ret1)" by fastforce
  have "length (stack s1) = Suc d" by (rule place_op_effects [OF p "7.prems"(2)]) simp
  then have "hoist_post ops d s1 ret1 sr" using "7.IH" "7.prems"(1) by (simp add: p)
  then show ?case by (rule hoist_post_step [OF p _ "7.prems"(2,2)]) auto
next
  case (8 vs ops)
  from "8.prems"(1) obtain dep where "update_deps vs d s (stay_if True (new_dep lb)) = Inr dep"
    by (auto simp: and_then_Inr_iff)
  obtain s1 ret1 where p: "place_op (EndBranch vs) d dep s ret = (s1, ret1)" by fastforce
  have "length (stack s1) = Suc d" by (rule place_op_effects [OF p "8.prems"(2)]) simp
  then have "hoist_post ops d s1 ret1 sr" using "8.IH" "8.prems"(1) by (simp add: p \<open>update_deps _ _ _ _ = _\<close>)
  then show ?case by (rule hoist_post_step [OF p _ "8.prems"(2,2)]) auto
next
  case (9 ops)
  obtain s1 ret1 where p: "place_op Return d (stay_if True (new_dep lb)) s (ret\<lparr>mobility := IMMOVABLE\<rparr>) = (s1, ret1)"
    by fastforce
  have "length (stack s1) = Suc d" by (rule place_op_effects [OF p "9.prems"(2)]) simp
  then have "hoist_post ops d s1 ret1 sr" using "9.IH" "9.prems"(1) by (simp add: p)
  then show ?case by (rule hoist_post_step [OF p _ "9.prems"(2,2)]) auto
qed

text \<open>
  C8. Hoisting never removes, duplicates or reorders an operation with an effect: the stores,
  atomics, assertions, prints and returns of the kernel are the same sequence afterwards.
\<close>

theorem hoist_keeps_effects:
  assumes "hoist_loop_invariants params ops = Inr ops'"
  shows "effects ops' = effects ops"
proof -
  let ?s = "\<lparr>stack = [], def_depth = fold (\<lambda>v m. m(v \<mapsto> 0)) params Map.empty\<rparr>"
  obtain sr where sr: "hoist_ops ops False 0 (open_block False ?s) initial_result = Inr sr"
    and "(let (ops', s, r) = close_block sr in Inr ops') = (Inr ops' :: operation list res)"
    using assms by (auto simp: hoist_loop_invariants_def and_then_Inr_iff)
  then have ops': "ops' = fst (close_block sr)" by (auto split: prod.splits)
  have "hoist_post ops 0 (open_block False ?s) initial_result sr"
    by (rule hoist_ops_effects [OF sr]) simp
  then have "length (stack (fst sr)) = 1" "level_effects (fst sr) = [effects ops]"
    by (simp_all add: hoist_post_def grown_at_def level_effects_def)
  then show ?thesis unfolding ops'
    by (cases "stack (fst sr)") (auto simp: close_block_def level_effects_def split: prod.splits)
qed

end
