(* ===== verification/CodeMotionScope.thy ===== *)
theory CodeMotionScope
  imports CodeMotion
begin

text \<open>
  Loop invariant code motion keeps the scoping of kernels whose nested constructs are flat
  or have an effect; three kernels outside this class whose scoping it breaks.
\<close>

section \<open>Uses stay below their definitions\<close>

text \<open>
  Blocks that only compute values, and the kernels the pass is sound for: inside a loop,
  every loop has an effect and every conditional or reduction has an effect or is flat.
\<close>

fun is_flat :: "operation list \<Rightarrow> bool" where
  "is_flat [] = True"
| "is_flat (Plain c opnds rs # ops) \<longleftrightarrow> class_effect c \<noteq> EFFECT_STORE \<and> is_flat ops"
| "is_flat (EndBranch vs # ops) = is_flat ops"
| "is_flat (op # ops) = False"

fun hoist_safe :: "bool \<Rightarrow> operation list \<Rightarrow> bool" where
  "hoist_safe inl [] = True"
| "hoist_safe inl (Loop i rng inits params body rs # ops) \<longleftrightarrow>
     (inl \<longrightarrow> effects body \<noteq> []) \<and> hoist_safe True body \<and> hoist_safe inl ops"
| "hoist_safe inl (IfElse i c t e rs # ops) \<longleftrightarrow>
     (inl \<longrightarrow> is_flat t \<and> is_flat e \<or> effects t @ effects e \<noteq> []) \<and> hoist_safe inl t \<and> hoist_safe inl e
     \<and> hoist_safe inl ops"
| "hoist_safe inl (Reduction i k xs params body rs # ops) \<longleftrightarrow>
     (inl \<longrightarrow> is_flat body \<or> effects body \<noteq> []) \<and> hoist_safe True body \<and> hoist_safe inl ops"
| "hoist_safe inl (op # ops) = hoist_safe inl ops"

definition results :: "operation list \<Rightarrow> var set" where
  "results ops = set (concat (map result_vars ops))"

text \<open>
  What a block at a depth defines itself, what is in scope at its end and at its start;
  \<^verbatim>\<open>ps\<close> are the parameters of the open blocks.
\<close>

definition level :: "var set list \<Rightarrow> hoist_state \<Rightarrow> nat \<Rightarrow> var set" where
  "level ps s k = (if k < length (stack s) then ps ! k \<union> results (fst (stack s ! k)) else {})"

definition reach :: "var set list \<Rightarrow> hoist_state \<Rightarrow> nat \<Rightarrow> var set" where
  "reach ps s k = (\<Union>i \<le> k. level ps s i)"

definition at_start :: "var set list \<Rightarrow> hoist_state \<Rightarrow> nat \<Rightarrow> var set" where
  "at_start ps s k = ps ! k \<union> (\<Union>i < k. level ps s i)"

definition blocks_ok :: "var set list \<Rightarrow> hoist_state \<Rightarrow> bool" where
  "blocks_ok ps s \<longleftrightarrow> (\<forall>k < length (stack s). scoped (at_start ps s k) (fst (stack s ! k)))"

definition visible :: "var set list \<Rightarrow> hoist_state \<Rightarrow> var set \<Rightarrow> bool" where
  "visible ps s V \<longleftrightarrow> (\<forall>v \<in> V. \<exists>k < length (stack s). def_depth s v = Some k \<and> v \<in> level ps s k)"

text \<open>The block under construction only needs what its result says, beside what it defines.\<close>

definition contained :: "var set list \<Rightarrow> hoist_state \<Rightarrow> nat \<Rightarrow> block_result \<Rightarrow> bool" where
  "contained ps s d r \<longleftrightarrow> min_depth r < d \<and> scoped (ps ! d \<union> reach ps s (min_depth r)) (fst (stack s ! d))"

definition extends :: "var set list \<Rightarrow> hoist_state \<Rightarrow> hoist_state \<Rightarrow> bool" where
  "extends ps s s' \<longleftrightarrow> map snd (stack s') = map snd (stack s) \<and> (\<forall>k. level ps s k \<subseteq> level ps s' k)"

lemma extends_refl [simp]: "extends ps s s"
  by (simp add: extends_def)

lemma extends_trans: "extends ps s s' \<Longrightarrow> extends ps s' s'' \<Longrightarrow> extends ps s s''"
  by (auto simp: extends_def)

lemma extends_length: "extends ps s s' \<Longrightarrow> length (stack s') = length (stack s)"
  unfolding extends_def by (metis length_map)

lemma extends_reach: "extends ps s s' \<Longrightarrow> reach ps s k \<subseteq> reach ps s' k"
  by (fastforce simp: extends_def reach_def)

lemma extends_start: "extends ps s s' \<Longrightarrow> at_start ps s k \<subseteq> at_start ps s' k"
  by (fastforce simp: extends_def at_start_def)

lemma reach_mono: "j \<le> k \<Longrightarrow> reach ps s j \<subseteq> reach ps s k"
  unfolding reach_def by (rule UN_mono) auto

lemma reach_start: "k < length (stack s) \<Longrightarrow> reach ps s k = at_start ps s k \<union> results (fst (stack s ! k))"
  by (auto simp: reach_def at_start_def level_def le_less)

lemma level_reach: "j \<le> k \<Longrightarrow> level ps s j \<subseteq> reach ps s k"
  unfolding reach_def by auto

lemma results_append: "results (xs @ ys) = results xs \<union> results ys"
  by (simp add: results_def)

lemma results_single [simp]: "results [op] = set (result_vars op)"
  by (simp add: results_def)

lemma scoped_snoc: "scoped S (xs @ [op]) \<longleftrightarrow> scoped S xs \<and> scoped (S \<union> results xs) [op]"
  by (simp add: scoped_append results_def)

lemma target_depth_ge: "m \<le> d \<Longrightarrow> m \<le> target_depth st m d"
  by (induction d) auto

lemma target_depth_less: "snd (st ! Suc d) \<Longrightarrow> m \<le> d \<Longrightarrow> target_depth st m (Suc d) < Suc d"
  using target_depth_le [of st m d] by simp

definition placed_at :: "dependency_info \<Rightarrow> nat \<Rightarrow> hoist_state \<Rightarrow> nat" where
  "placed_at dep d s = (if must_stay dep then d else target_depth (stack s) (max_outside_depth dep) d)"

lemma place_op_state:
  assumes "place_op op d dep s ret = (s', ret')"
  shows "stack s' = (stack s)[placed_at dep d s := (fst (stack s ! placed_at dep d s) @ [op], snd (stack s ! placed_at dep d s))]"
    and "def_depth s' = (\<lambda>v. if v \<in> set (result_vars op) then Some (placed_at dep d s) else def_depth s v)"
    and "min_depth ret' = (if must_stay dep then max (min_depth ret) (max_outside_depth dep) else min_depth ret)"
  using assms by (auto simp: place_op_def Let_def placed_at_def append_at_def)

lemma placed_at_bounds:
  "placed_at dep d s \<le> d" "max_outside_depth dep \<le> d \<Longrightarrow> \<not> must_stay dep \<Longrightarrow> max_outside_depth dep \<le> placed_at dep d s"
  by (auto simp: placed_at_def target_depth_le target_depth_ge)

lemma place_op_scoped:
  assumes p: "place_op op d dep s ret = (s', ret')"
    and len: "length (stack s) = Suc d" and ok: "blocks_ok ps s" and V: "visible ps s V"
    and fresh: "set (result_vars op) \<inter> V = {}" and m: "max_outside_depth dep \<le> d"
    and here: "must_stay dep \<Longrightarrow> scoped (reach ps s d) [op]"
    and there: "\<not> must_stay dep \<Longrightarrow> scoped (reach ps s (max_outside_depth dep)) [op]"
  shows "extends ps s s'" and "blocks_ok ps s'" and "visible ps s' (V \<union> set (result_vars op))"
proof -
  define t where "t = placed_at dep d s"
  note st = place_op_state [OF p, folded t_def]
  have t: "t \<le> d" using placed_at_bounds(1) by (simp add: t_def)
  have lev: "level ps s' k = (if k = t then level ps s k \<union> set (result_vars op) else level ps s k)" for k
    using len t by (auto simp: level_def st(1) nth_list_update results_append)
  show ext: "extends ps s s'"
    using len t by (auto simp: extends_def lev st(1) nth_list_update split: if_splits intro!: nth_equalityI)
  have op: "scoped (reach ps s t) [op]"
  proof (cases "must_stay dep")
    case True
    then show ?thesis using here by (simp add: t_def placed_at_def)
  next
    case False
    then have "max_outside_depth dep \<le> t" using placed_at_bounds(2) [OF m] by (simp add: t_def)
    then show ?thesis using scoped_mono [OF there [OF False] reach_mono] by blast
  qed
  show "blocks_ok ps s'"
    unfolding blocks_ok_def
  proof (intro allI impI)
    fix k assume "k < length (stack s')"
    then have k: "k < length (stack s)" by (simp add: st(1))
    have old: "scoped (at_start ps s' k) (fst (stack s ! k))"
      using ok k scoped_mono [OF _ extends_start [OF ext]] by (auto simp: blocks_ok_def)
    show "scoped (at_start ps s' k) (fst (stack s' ! k))"
    proof (cases "k = t")
      case True
      have "reach ps s t \<subseteq> at_start ps s' t \<union> results (fst (stack s ! t))"
        using extends_start [OF ext, of t] True k by (auto simp: reach_start)
      then show ?thesis using True old k scoped_mono [OF op] by (simp add: st(1) scoped_snoc)
    next
      case False
      then show ?thesis using old by (simp add: st(1))
    qed
  qed
  show "visible ps s' (V \<union> set (result_vars op))"
    unfolding visible_def
  proof
    fix v assume v: "v \<in> V \<union> set (result_vars op)"
    show "\<exists>k < length (stack s'). def_depth s' v = Some k \<and> v \<in> level ps s' k"
    proof (cases "v \<in> set (result_vars op)")
      case True
      then show ?thesis using t len by (intro exI [of _ t]) (simp add: st lev)
    next
      case False
      then obtain k where "k < length (stack s)" "def_depth s v = Some k" "v \<in> level ps s k"
        using v V by (auto simp: visible_def)
      then show ?thesis using False by (intro exI [of _ k]) (auto simp: st lev)
    qed
  qed
qed

lemma place_op_contained:
  assumes p: "place_op op d dep s ret = (s', ret')"
    and len: "length (stack s) = Suc d" and c: "contained ps s d ret" and m: "max_outside_depth dep < d"
    and lb: "\<not> must_stay dep \<Longrightarrow> snd (stack s ! d)"
    and here: "must_stay dep \<Longrightarrow> scoped (level ps s d \<union> reach ps s (max_outside_depth dep)) [op]"
    and ext: "extends ps s s'"
  shows "contained ps s' d ret'"
proof (cases "must_stay dep")
  case True
  note st = place_op_state [OF p]
  let ?S = "ps ! d \<union> reach ps s' (min_depth ret')"
  have r: "reach ps s (min_depth ret) \<subseteq> reach ps s' (min_depth ret')"
    "reach ps s (max_outside_depth dep) \<subseteq> reach ps s' (min_depth ret')"
    using True by (rule_tac order_trans [OF extends_reach [OF ext] reach_mono], simp add: st(3))+
  have "scoped ?S (fst (stack s ! d))"
    using c r(1) scoped_mono [of "ps ! d \<union> reach ps s (min_depth ret)" _ ?S] by (auto simp: contained_def)
  moreover have "scoped (?S \<union> results (fst (stack s ! d))) [op]"
    by (rule scoped_mono [OF here [OF True]]) (use r(2) len in \<open>auto simp: level_def\<close>)
  moreover have "min_depth ret' < d" using c m True by (simp add: contained_def st(3))
  moreover have "fst (stack s' ! d) = fst (stack s ! d) @ [op]"
    using True len by (simp add: st(1) placed_at_def)
  ultimately show ?thesis by (simp add: contained_def scoped_snoc)
next
  case False
  note st = place_op_state [OF p]
  obtain d' where d: "d = Suc d'" using m by (cases d) auto
  have "placed_at dep d s < d"
    using target_depth_less [of "stack s" d'] lb [OF False] m False by (simp add: placed_at_def d less_Suc_eq_le)
  then have "stack s' ! d = stack s ! d" by (simp add: st(1))
  moreover have "scoped (ps ! d \<union> reach ps s' (min_depth ret)) (fst (stack s ! d))"
    by (rule scoped_mono [of "ps ! d \<union> reach ps s (min_depth ret)"])
      (use c extends_reach [OF ext, of "min_depth ret"] in \<open>auto simp: contained_def\<close>)
  ultimately show ?thesis using c False by (simp add: contained_def st(3))
qed

text \<open>The dependencies of an operation, after the loop over its inputs.\<close>

lemma update_deps_visible:
  assumes "visible ps s V" and "set vs \<subseteq> V" and "length (stack s) = Suc d"
  shows "\<exists>dep'. update_deps vs d s dep = Inr dep' \<and> (must_stay dep \<longrightarrow> must_stay dep')
    \<and> max_outside_depth dep \<le> max_outside_depth dep' \<and> (max_outside_depth dep < d \<longrightarrow> max_outside_depth dep' < d)
    \<and> (max_outside_depth dep \<le> d \<longrightarrow> max_outside_depth dep' \<le> d)
    \<and> set vs \<subseteq> level ps s d \<union> reach ps s (max_outside_depth dep')
    \<and> (\<not> must_stay dep' \<longrightarrow> set vs \<subseteq> reach ps s (max_outside_depth dep'))"
  using assms(2)
proof (induction vs arbitrary: dep)
  case (Cons v vs)
  then obtain k where k: "k \<le> d" "def_depth s v = Some k" "v \<in> level ps s k"
    using assms(1,3) by (auto simp: visible_def)
  obtain dep' where dep': "update_deps vs d s (update_dep k d dep) = Inr dep'"
    "must_stay (update_dep k d dep) \<longrightarrow> must_stay dep'"
    "max_outside_depth (update_dep k d dep) \<le> max_outside_depth dep'"
    "max_outside_depth (update_dep k d dep) < d \<longrightarrow> max_outside_depth dep' < d"
    "max_outside_depth (update_dep k d dep) \<le> d \<longrightarrow> max_outside_depth dep' \<le> d"
    "set vs \<subseteq> level ps s d \<union> reach ps s (max_outside_depth dep')"
    "\<not> must_stay dep' \<longrightarrow> set vs \<subseteq> reach ps s (max_outside_depth dep')"
    using Cons.IH [of "update_dep k d dep"] Cons.prems by (metis insert_subset list.simps(15))
  show ?case
  proof (cases "k < d")
    case True
    then have "k \<le> max_outside_depth dep'" using dep'(3) by (simp add: update_dep_def)
    then have "v \<in> reach ps s (max_outside_depth dep')" using k(3) level_reach by blast
    then show ?thesis using dep' True k(2) by (auto simp: update_deps_Cons update_dep_def)
  next
    case False
    then have "k = d" using k(1) by simp
    then show ?thesis using dep' k by (auto simp: update_deps_Cons update_dep_def)
  qed
qed simp


section \<open>The pass over well-scoped kernels\<close>

text \<open>The state in which a block is walked, and what the walk gives.\<close>

definition hoist_pre :: "operation list \<Rightarrow> bool \<Rightarrow> bool \<Rightarrow> nat \<Rightarrow> var set list \<Rightarrow> hoist_state \<Rightarrow> var set \<Rightarrow> bool" where
  "hoist_pre ops lb inl d ps s V \<longleftrightarrow>
     length (stack s) = Suc d \<and> length ps = Suc d \<and> snd (stack s ! d) = lb \<and> (lb \<longrightarrow> inl)
     \<and> blocks_ok ps s \<and> visible ps s V \<and> scoped V ops \<and> distinct (all_defs ops) \<and> set (all_defs ops) \<inter> V = {}
     \<and> hoist_safe inl ops"

definition hoist_ok :: "operation list \<Rightarrow> nat \<Rightarrow> var set list \<Rightarrow> hoist_state \<Rightarrow> block_result \<Rightarrow> hoist_state \<times> block_result \<Rightarrow> bool" where
  "hoist_ok ops d ps s ret sr \<longleftrightarrow>
     extends ps s (fst sr) \<and> blocks_ok ps (fst sr)
     \<and> (\<forall>v. v \<notin> set (all_defs ops) \<longrightarrow> def_depth (fst sr) v = def_depth s v)
     \<and> (is_flat ops \<longrightarrow> contained ps s d ret \<longrightarrow> contained ps (fst sr) d (snd sr))"

definition hoists :: "operation list \<Rightarrow> bool" where
  "hoists ops \<longleftrightarrow> (\<forall>lb inl d ps s ret V. hoist_pre ops lb inl d ps s V \<longrightarrow>
     (\<exists>sr. hoist_ops ops lb d s ret = Inr sr \<and> hoist_ok ops d ps s ret sr))"

lemma hoistsD: "hoists ops \<Longrightarrow> hoist_pre ops lb inl d ps s V \<Longrightarrow>
    \<exists>sr. hoist_ops ops lb d s ret = Inr sr \<and> hoist_ok ops d ps s ret sr"
  unfolding hoists_def by blast

lemma visible_extends:
  assumes "visible ps s V" and "extends ps s s'" and "\<And>v. v \<in> V \<Longrightarrow> def_depth s' v = def_depth s v"
  shows "visible ps s' V"
  using assms extends_length [OF assms(2)] by (fastforce simp: visible_def extends_def)

text \<open>A nested block is opened, walked and closed.\<close>

definition nested_ok ::
  "operation list \<Rightarrow> var set \<Rightarrow> nat \<Rightarrow> var set list \<Rightarrow> hoist_state \<Rightarrow> operation list \<Rightarrow> hoist_state \<Rightarrow> block_result \<Rightarrow> bool" where
  "nested_ok body P d ps s body' s' r \<longleftrightarrow>
     extends ps s s' \<and> blocks_ok ps s' \<and> (\<forall>v. v \<notin> P \<union> set (all_defs body) \<longrightarrow> def_depth s' v = def_depth s v)
     \<and> scoped (reach ps s' d \<union> P) body'
     \<and> (is_flat body \<longrightarrow> min_depth r \<le> d \<and> scoped (reach ps s' (min_depth r) \<union> P) body')
     \<and> (mobility r \<noteq> IMMOVABLE \<longrightarrow> effects body = [])"

lemma nested_block:
  assumes "hoists body" and "length (stack s) = Suc d" and "length ps = Suc d" and "blocks_ok ps s"
    and "visible ps s V" and "set params \<inter> V = {}" and "lb \<longrightarrow> inl"
    and "scoped (V \<union> set params) body" and "distinct (params @ all_defs body)"
    and "set (all_defs body) \<inter> V = {}" and "hoist_safe inl body"
  shows "\<exists>sr body' s' r. hoist_ops body lb (Suc d) (open_block lb (set_depths params (Suc d) s)) initial_result = Inr sr
    \<and> close_block sr = (body', s', r) \<and> nested_ok body (set params) d ps s body' s' r"
proof -
  let ?ps = "ps @ [set params]"
  let ?s = "open_block lb (set_depths params (Suc d) s)"
  have lev: "level ?ps ?s k = (if k \<le> d then level ps s k else if k = Suc d then set params else level ?ps ?s k)" for k
    using assms(2,3) by (auto simp: level_def nth_append results_def)
  have st: "at_start ?ps ?s k = at_start ps s k" if "k \<le> d" for k
    using that assms(3) by (simp add: at_start_def nth_append lev)
  have "blocks_ok ?ps ?s"
    unfolding blocks_ok_def
  proof (intro allI impI)
    fix k assume "k < length (stack ?s)"
    then have "k \<le> d \<or> k = Suc d" using assms(2) by auto
    then show "scoped (at_start ?ps ?s k) (fst (stack ?s ! k))"
      using assms(2,4) st by (auto simp: blocks_ok_def nth_append)
  qed
  moreover have "visible ?ps ?s (V \<union> set params)"
    unfolding visible_def
  proof
    fix v assume v: "v \<in> V \<union> set params"
    show "\<exists>k < length (stack ?s). def_depth ?s v = Some k \<and> v \<in> level ?ps ?s k"
    proof (cases "v \<in> set params")
      case True
      then show ?thesis using assms(2) lev [of "Suc d"] by (intro exI [of _ "Suc d"]) simp
    next
      case False
      then obtain k where "k < Suc d" "def_depth s v = Some k" "v \<in> level ps s k"
        using v assms(2,5) by (auto simp: visible_def)
      then show ?thesis using False assms(2) lev [of k] by (intro exI [of _ k]) simp
    qed
  qed
  ultimately have "hoist_pre body lb inl (Suc d) ?ps ?s (V \<union> set params)"
    using assms by (auto simp: hoist_pre_def nth_append)
  then obtain sr where sr: "hoist_ops body lb (Suc d) ?s initial_result = Inr sr"
    and ok: "hoist_ok body (Suc d) ?ps ?s initial_result sr"
    using hoistsD [OF assms(1)] by blast
  obtain s1 r where s1: "sr = (s1, r)" by (cases sr)
  obtain body' s' where cl: "close_block sr = (body', s', r)" by (simp add: close_block_def s1)
  have ext: "extends ?ps ?s s1" using ok by (simp add: hoist_ok_def s1)
  have len: "length (stack s1) = Suc (Suc d)" using extends_length [OF ext] assms(2) by simp
  have s': "stack s' = butlast (stack s1)" "def_depth s' = def_depth s1" "body' = fst (stack s1 ! Suc d)"
    using cl len by (cases "stack s1" rule: rev_cases, auto simp: close_block_def s1 nth_append)+
  have nth: "stack s' ! k = stack s1 ! k" if "k \<le> d" for k
    using that len by (simp add: s' nth_butlast)
  have lev': "level ps s' k = level ?ps s1 k" if "k \<le> d" for k
    using that assms(3) by (simp add: level_def s'(1) len nth_append nth_butlast)
  have reach': "reach ps s' k = reach ?ps s1 k" if "k \<le> d" for k
    using that lev' by (auto simp: reach_def)
  have start': "at_start ps s' k = at_start ?ps s1 k" if "k \<le> d" for k
    using that lev' assms(3) by (auto simp: at_start_def nth_append)
  have "extends ps s s'"
    unfolding extends_def
  proof (intro conjI allI)
    show "map snd (stack s') = map snd (stack s)"
      using ext by (simp add: extends_def s'(1) map_butlast)
    fix k
    show "level ps s k \<subseteq> level ps s' k"
    proof (cases "k \<le> d")
      case True
      moreover have "level ?ps ?s k \<subseteq> level ?ps s1 k" using ext by (simp add: extends_def)
      ultimately show ?thesis using lev [of k] lev' [of k] by simp
    next
      case False
      then show ?thesis using assms(2) by (simp add: level_def)
    qed
  qed
  moreover have "blocks_ok ps s'"
    using ok len by (auto simp: blocks_ok_def hoist_ok_def s1 s' nth start' [unfolded s'] nth_butlast)
  moreover have "\<forall>v. v \<notin> set params \<union> set (all_defs body) \<longrightarrow> def_depth s' v = def_depth s v"
    using ok by (auto simp: hoist_ok_def s1 s')
  moreover have "scoped (reach ps s' d \<union> set params) body'"
    using ok len assms(3) reach' [of d]
    by (auto simp: blocks_ok_def hoist_ok_def s1 s'(3) at_start_def reach_def nth_append lessThan_Suc_atMost Un_commute
        dest!: spec [of _ "Suc d"])
  moreover have "is_flat body \<longrightarrow> min_depth r \<le> d \<and> scoped (reach ps s' (min_depth r) \<union> set params) body'"
  proof
    assume "is_flat body"
    moreover have "contained ?ps ?s (Suc d) initial_result" using assms(2) by (simp add: contained_def initial_result_def nth_append)
    ultimately have "contained ?ps s1 (Suc d) r" using ok by (simp add: hoist_ok_def s1)
    then show "min_depth r \<le> d \<and> scoped (reach ps s' (min_depth r) \<union> set params) body'"
      using assms(3) reach' by (simp add: contained_def s'(3) nth_append less_Suc_eq_le Un_commute)
  qed
  moreover have "mobility r \<noteq> IMMOVABLE \<longrightarrow> effects body = []"
    using hoist_ops_effects [OF sr] assms(2) by (simp add: hoist_post_def s1)
  ultimately have "nested_ok body (set params) d ps s body' s' r" unfolding nested_ok_def by blast
  then show ?thesis using sr cl by blast
qed

text \<open>An operation, once its dependencies are known, and the rest of the block after it.\<close>

lemma hoist_step:
  assumes "place_op op' d dep s0 ret0 = (s1, ret1)" and "result_vars op' = result_vars op"
    and "hoist_pre (op # ops) lb inl d ps s V" and "hoists ops"
    and "extends ps s s0" and "blocks_ok ps s0"
    and "\<And>v. v \<notin> set (all_defs [op]) - set (result_vars op) \<Longrightarrow> def_depth s0 v = def_depth s v"
    and "max_outside_depth dep \<le> d"
    and "must_stay dep \<Longrightarrow> scoped (reach ps s0 d) [op']"
    and "\<not> must_stay dep \<Longrightarrow> scoped (reach ps s0 (max_outside_depth dep)) [op']"
    and "is_flat (op # ops) \<Longrightarrow> contained ps s d ret \<Longrightarrow> contained ps s1 d ret1"
  shows "\<exists>sr. hoist_ops ops lb d s1 ret1 = Inr sr \<and> hoist_ok (op # ops) d ps s ret sr"
proof -
  have defs: "all_defs (op # ops) = all_defs [op] @ all_defs ops" by (cases op) simp_all
  have rs: "set (result_vars op) \<subseteq> set (all_defs [op])" by (cases op) auto
  note pre = assms(3) [unfolded hoist_pre_def]
  have len: "length (stack s0) = Suc d" using extends_length [OF assms(5)] pre by simp
  have V0: "visible ps s0 V"
    by (rule visible_extends [OF _ assms(5)]) (use pre assms(7) defs in auto)
  have "set (result_vars op') \<inter> V = {}" using pre assms(2) rs defs by auto
  note pl = place_op_scoped [OF assms(1) len assms(6) V0 this assms(8-10)]
  have "scoped (V \<union> set (result_vars op)) ops"
    using pre scoped_append [of V "[op]" ops] by simp
  moreover have "extends ps s s1" using extends_trans [OF assms(5) pl(1)] .
  moreover have "hoist_safe inl ops" using pre by (cases op) auto
  moreover have "snd (stack s1 ! d) = lb"
    using pre calculation(2) extends_length [OF calculation(2)] unfolding extends_def by (metis lessI nth_map)
  ultimately have "hoist_pre ops lb inl d ps s1 (V \<union> set (result_vars op))"
    using pre pl(2,3) extends_length [OF pl(1)] len defs rs assms(2) by (auto simp: hoist_pre_def)
  then obtain sr where sr: "hoist_ops ops lb d s1 ret1 = Inr sr" "hoist_ok ops d ps s1 ret1 sr"
    using hoistsD [OF assms(4)] by blast
  have "extends ps s (fst sr)" using \<open>extends ps s s1\<close> sr(2) extends_trans by (auto simp: hoist_ok_def)
  moreover have "def_depth (fst sr) v = def_depth s v" if "v \<notin> set (all_defs (op # ops))" for v
    using that sr(2) defs rs assms(2,7) place_op_state(2) [OF assms(1)] by (auto simp: hoist_ok_def)
  moreover have "is_flat (op # ops) \<Longrightarrow> is_flat ops" by (cases op) auto
  ultimately have "hoist_ok (op # ops) d ps s ret sr" using sr(2) assms(11) by (auto simp: hoist_ok_def)
  then show ?thesis using sr(1) by blast
qed


lemma new_dep_simps [simp]:
  "must_stay (new_dep lb) \<longleftrightarrow> \<not> lb" "max_outside_depth (new_dep lb) = 0"
  "max_outside_depth (stay_if b dep) = max_outside_depth dep"
  by (simp_all add: new_dep_def stay_if_def)

lemma hoist_plain:
  assumes "hoist_pre (Plain c opnds rs # ops) lb inl d ps s V" and "hoists ops"
  shows "\<exists>sr. hoist_ops (Plain c opnds rs # ops) lb d s ret = Inr sr \<and> hoist_ok (Plain c opnds rs # ops) d ps s ret sr"
proof -
  note pre = assms(1) [unfolded hoist_pre_def]
  have len: "length (stack s) = Suc d" and vs: "set (operands_vars opnds) \<subseteq> V"
    and V: "visible ps s V" and ok: "blocks_ok ps s" using pre by auto
  obtain dep where dep: "update_deps (operands_vars opnds) d s (new_dep lb) = Inr dep"
    "\<not> lb \<longrightarrow> must_stay dep" "0 < d \<longrightarrow> max_outside_depth dep < d" "max_outside_depth dep \<le> d"
    "set (operands_vars opnds) \<subseteq> level ps s d \<union> reach ps s (max_outside_depth dep)"
    "\<not> must_stay dep \<longrightarrow> set (operands_vars opnds) \<subseteq> reach ps s (max_outside_depth dep)"
    using update_deps_visible [OF V vs len, of "new_dep lb"] by auto
  have here: "set (operands_vars opnds) \<subseteq> reach ps s d"
    using dep(4,5) level_reach [of d d ps s] reach_mono [of "max_outside_depth dep" d ps s] by auto
  show ?thesis
  proof (cases "class_effect c = EFFECT_STORE")
    case True
    obtain s1 ret1 where p: "place_op (Plain c opnds rs) d (stay_if True (new_dep lb)) s (ret\<lparr>mobility := IMMOVABLE\<rparr>) = (s1, ret1)"
      by fastforce
    show ?thesis
      using hoist_step [OF p refl assms(1,2) extends_refl ok refl] here True p by simp
  next
    case False
    obtain s1 ret1 where p: "place_op (Plain c opnds rs) d dep s ret = (s1, ret1)" by fastforce
    have "contained ps s1 d ret1" if c: "contained ps s d ret"
    proof (rule place_op_contained [OF p len c])
      have "0 < d" using c by (simp add: contained_def)
      then show "max_outside_depth dep < d" using dep(3) by simp
      show "\<not> must_stay dep \<Longrightarrow> snd (stack s ! d)" using dep(2) pre by auto
      show "must_stay dep \<Longrightarrow> scoped (level ps s d \<union> reach ps s (max_outside_depth dep)) [Plain c opnds rs]"
        using dep(5) by simp
      have "set (result_vars (Plain c opnds rs)) \<inter> V = {}" using pre by auto
      then show "extends ps s s1"
        by (rule place_op_scoped [OF p len ok V _ dep(4)]) (use here dep(6) in auto)
    qed
    then show ?thesis
      using hoist_step [OF p refl assms(1,2) extends_refl ok refl dep(4)] here dep(1,6) False p by simp
  qed
qed

lemma hoist_end_branch:
  assumes "hoist_pre (EndBranch vs # ops) lb inl d ps s V" and "hoists ops"
  shows "\<exists>sr. hoist_ops (EndBranch vs # ops) lb d s ret = Inr sr \<and> hoist_ok (EndBranch vs # ops) d ps s ret sr"
proof -
  note pre = assms(1) [unfolded hoist_pre_def]
  have len: "length (stack s) = Suc d" and vs: "set vs \<subseteq> V"
    and V: "visible ps s V" and ok: "blocks_ok ps s" using pre by auto
  obtain dep where dep: "update_deps vs d s (stay_if True (new_dep lb)) = Inr dep"
    "must_stay dep" "0 < d \<longrightarrow> max_outside_depth dep < d" "max_outside_depth dep \<le> d"
    "set vs \<subseteq> level ps s d \<union> reach ps s (max_outside_depth dep)"
    using update_deps_visible [OF V vs len, of "stay_if True (new_dep lb)"] by auto
  have here: "set vs \<subseteq> reach ps s d"
    using dep(4,5) level_reach [of d d ps s] reach_mono [of "max_outside_depth dep" d ps s] by auto
  obtain s1 ret1 where p: "place_op (EndBranch vs) d dep s ret = (s1, ret1)" by fastforce
  have "contained ps s1 d ret1" if c: "contained ps s d ret"
  proof (rule place_op_contained [OF p len c])
    have "0 < d" using c by (simp add: contained_def)
    then show "max_outside_depth dep < d" using dep(3) by simp
    show "extends ps s s1"
      by (rule place_op_scoped [OF p len ok V _ dep(4)]) (use here dep(2) in auto)
  qed (use dep(2,5) in auto)
  then show ?thesis
    using hoist_step [OF p refl assms(1,2) extends_refl ok refl dep(4)] here dep(1,2) p by simp
qed

lemma hoist_jump:
  assumes "hoist_pre (op # ops) lb inl d ps s V" and "hoists ops" and "op \<in> {Continue vs, Break vs, Return}"
    and "hoist_ops (op # ops) lb d s ret
      = (let (s, ret) = place_op op d (stay_if True (new_dep lb)) s ret0 in hoist_ops ops lb d s ret)"
  shows "\<exists>sr. hoist_ops (op # ops) lb d s ret = Inr sr \<and> hoist_ok (op # ops) d ps s ret sr"
proof -
  note pre = assms(1) [unfolded hoist_pre_def]
  have "\<exists>k \<le> d. v \<in> level ps s k" if "v \<in> V" for v
    using that pre by (fastforce simp: visible_def less_Suc_eq_le)
  then have "V \<subseteq> reach ps s d" by (auto simp: reach_def)
  moreover have "scoped V [op]" using pre scoped_append [of V "[op]" ops] by simp
  ultimately have "scoped (reach ps s d) [op]" using scoped_mono by blast
  moreover obtain s1 ret1 where p: "place_op op d (stay_if True (new_dep lb)) s ret0 = (s1, ret1)" by fastforce
  moreover have "\<not> is_flat (op # ops)" using assms(3) by auto
  moreover have "blocks_ok ps s" using pre by simp
  ultimately show ?thesis
    using hoist_step [OF p refl assms(1,2) extends_refl _ refl] assms(4) by simp
qed


lemma hoist_loop:
  assumes pre: "hoist_pre (Loop i rng inits params body rs # ops) lb inl d ps s V" and "hoists body" and "hoists ops"
  shows "\<exists>sr. hoist_ops (Loop i rng inits params body rs # ops) lb d s ret = Inr sr
    \<and> hoist_ok (Loop i rng inits params body rs # ops) d ps s ret sr"
proof -
  note pre' = pre [unfolded hoist_pre_def]
  let ?s = "open_block True (set_depths params (Suc d) s)"
  have params: "set params \<inter> V = {}" "distinct (params @ all_defs body)" "set (all_defs body) \<inter> V = {}"
    "scoped (V \<union> set params) body" "hoist_safe True body" "True \<longrightarrow> True"
    and rs: "set rs \<inter> (set params \<union> set (all_defs body)) = {}"
    using pre' by auto
  obtain sr0 body' s1 r where n: "hoist_ops body True (Suc d) ?s initial_result = Inr sr0"
    "close_block sr0 = (body', s1, r)" and ok: "nested_ok body (set params) d ps s body' s1 r"
    using nested_block [OF assms(2), of s d ps V params True True] pre' params by blast
  note n = n ok [unfolded nested_ok_def, THEN conjunct1] ok [unfolded nested_ok_def, THEN conjunct2, THEN conjunct1]
  have fr: "\<And>v. v \<notin> set params \<union> set (all_defs body) \<Longrightarrow> def_depth s1 v = def_depth s v"
    and sc: "scoped (reach ps s1 d \<union> set params) body'"
    and fb: "is_flat body \<longrightarrow> min_depth r \<le> d \<and> scoped (reach ps s1 (min_depth r) \<union> set params) body'"
    and im: "mobility r \<noteq> IMMOVABLE \<longrightarrow> effects body = []"
    using ok by (simp_all add: nested_ok_def)
  have len: "length (stack s1) = Suc d" using extends_length [OF n(3)] pre' by simp
  have "visible ps s V" using pre' by simp
  then have V: "visible ps s1 V"
    by (rule visible_extends [OF _ n(3)]) (use fr params in blast)
  obtain ret1 dep where a: "add_body r (ret, new_dep lb) = (ret1, dep)" by fastforce
  have "inl \<longrightarrow> effects body \<noteq> []" using pre' by simp
  then have stay: "must_stay dep" and m: "max_outside_depth dep = 0"
    using a im pre' by (auto simp: add_body_def split: if_splits)
  have "set inits \<subseteq> V" using pre' by simp
  then obtain dep1 where dep1: "update_deps inits d s1 dep = Inr dep1" "must_stay dep1" "max_outside_depth dep1 \<le> d"
    using update_deps_visible [OF V _ len, of inits dep] stay m by auto
  let ?dep = "update_dep (min_depth r) d dep1"
  have dep2: "must_stay ?dep" "max_outside_depth ?dep \<le> d" using dep1 by (auto simp: update_dep_def)
  obtain s2 ret2 where p: "place_op (Loop i rng inits params body' rs) d ?dep s1 ret1 = (s2, ret2)" by fastforce
  have "\<exists>k \<le> d. v \<in> level ps s1 k" if "v \<in> V" for v
    using that V len by (fastforce simp: visible_def less_Suc_eq_le)
  then have "V \<subseteq> reach ps s1 d" by (auto simp: reach_def)
  then have "scoped (reach ps s1 d) [Loop i rng inits params body' rs]" using pre' sc by auto
  moreover have "def_depth s1 v = def_depth s v" if "v \<notin> set (all_defs [Loop i rng inits params body rs]) - set rs" for v
    using that rs by (intro fr) auto
  ultimately have "\<exists>sr. hoist_ops ops lb d s2 ret2 = Inr sr \<and> hoist_ok (Loop i rng inits params body rs # ops) d ps s ret sr"
    by (intro hoist_step [OF p _ pre assms(3) n(3,4) _ dep2(2)]) (use dep2 in auto)
  then show ?thesis using n(1,2) a dep1(1) p by simp
qed

text \<open>A conditional or a reduction that leaves its block is flat, so its blocks are contained.\<close>

lemma leaves_flat:
  assumes "is_flat body \<longrightarrow> min_depth r \<le> d \<and> scoped (reach ps s (min_depth r) \<union> P) body'"
    and "is_flat body" and "min_depth r < d \<or> must_stay dep"
    and "min_depth r < d \<longrightarrow> min_depth r \<le> max_outside_depth dep" and "\<not> must_stay dep"
  shows "scoped (reach ps s (max_outside_depth dep) \<union> P) body'"
  using assms scoped_mono [of "reach ps s (min_depth r) \<union> P" body'] reach_mono [of "min_depth r" "max_outside_depth dep" ps s]
  by blast

lemma hoist_reduction:
  assumes pre: "hoist_pre (Reduction i k xs params body rs # ops) lb inl d ps s V" and "hoists body" and "hoists ops"
  shows "\<exists>sr. hoist_ops (Reduction i k xs params body rs # ops) lb d s ret = Inr sr
    \<and> hoist_ok (Reduction i k xs params body rs # ops) d ps s ret sr"
proof -
  note pre' = pre [unfolded hoist_pre_def]
  let ?s = "open_block True (set_depths params (Suc d) s)"
  have params: "set params \<inter> V = {}" "distinct (params @ all_defs body)" "set (all_defs body) \<inter> V = {}"
    "scoped (V \<union> set params) body" "hoist_safe True body" "True \<longrightarrow> True"
    and rs: "set rs \<inter> (set params \<union> set (all_defs body)) = {}"
    using pre' by auto
  obtain sr0 body' s1 r where n: "hoist_ops body True (Suc d) ?s initial_result = Inr sr0"
    "close_block sr0 = (body', s1, r)" and ok: "nested_ok body (set params) d ps s body' s1 r"
    using nested_block [OF assms(2), of s d ps V params True True] pre' params by blast
  note n = n ok [unfolded nested_ok_def, THEN conjunct1] ok [unfolded nested_ok_def, THEN conjunct2, THEN conjunct1]
  have fr: "\<And>v. v \<notin> set params \<union> set (all_defs body) \<Longrightarrow> def_depth s1 v = def_depth s v"
    and sc: "scoped (reach ps s1 d \<union> set params) body'"
    and fb: "is_flat body \<longrightarrow> min_depth r \<le> d \<and> scoped (reach ps s1 (min_depth r) \<union> set params) body'"
    and im: "mobility r \<noteq> IMMOVABLE \<longrightarrow> effects body = []"
    using ok by (simp_all add: nested_ok_def)
  have len: "length (stack s1) = Suc d" using extends_length [OF n(3)] pre' by simp
  have "visible ps s V" using pre' by simp
  then have V: "visible ps s1 V"
    by (rule visible_extends [OF _ n(3)]) (use fr params in blast)
  obtain ret1 dep where a: "add_body r (ret, new_dep lb) = (ret1, dep)" by fastforce
  have fl: "\<not> must_stay dep \<longrightarrow> is_flat body" and m: "max_outside_depth dep = 0"
    using a im pre' by (auto simp: add_body_def split: if_splits)
  have "set xs \<subseteq> V" using pre' by simp
  then obtain dep1 where dep1: "update_deps xs d s1 dep = Inr dep1" "must_stay dep \<longrightarrow> must_stay dep1"
    "max_outside_depth dep1 \<le> d" "set xs \<subseteq> level ps s1 d \<union> reach ps s1 (max_outside_depth dep1)"
    "\<not> must_stay dep1 \<longrightarrow> set xs \<subseteq> reach ps s1 (max_outside_depth dep1)"
    using update_deps_visible [OF V _ len, of xs dep] m by auto
  let ?dep = "update_dep (min_depth r) d dep1"
  have dep2: "max_outside_depth ?dep \<le> d" "must_stay dep1 \<longrightarrow> must_stay ?dep"
    "max_outside_depth dep1 \<le> max_outside_depth ?dep" "min_depth r < d \<or> must_stay ?dep"
    "min_depth r < d \<longrightarrow> min_depth r \<le> max_outside_depth ?dep"
    using dep1 by (auto simp: update_dep_def)
  obtain s2 ret2 where p: "place_op (Reduction i k xs params body' rs) d ?dep s1 ret1 = (s2, ret2)" by fastforce
  have "\<exists>k \<le> d. v \<in> level ps s1 k" if "v \<in> V" for v
    using that V len by (fastforce simp: visible_def less_Suc_eq_le)
  then have "V \<subseteq> reach ps s1 d" by (auto simp: reach_def)
  then have here: "scoped (reach ps s1 d) [Reduction i k xs params body' rs]" using pre' sc by auto
  have there: "scoped (reach ps s1 (max_outside_depth ?dep)) [Reduction i k xs params body' rs]" if "\<not> must_stay ?dep"
  proof -
    have "is_flat body" "set xs \<subseteq> reach ps s1 (max_outside_depth ?dep)"
      using that fl dep1(2,5) dep2(2,3) reach_mono [of "max_outside_depth dep1" "max_outside_depth ?dep" ps s1] by auto
    then show ?thesis using leaves_flat [OF fb _ dep2(4,5) that] by simp
  qed
  have "def_depth s1 v = def_depth s v" if "v \<notin> set (all_defs [Reduction i k xs params body rs]) - set rs" for v
    using that rs by (intro fr) auto
  then have "\<exists>sr. hoist_ops ops lb d s2 ret2 = Inr sr \<and> hoist_ok (Reduction i k xs params body rs # ops) d ps s ret sr"
    by (intro hoist_step [OF p _ pre assms(3) n(3,4) _ dep2(1)]) (use here there in auto)
  then show ?thesis using n(1,2) a dep1(1) p by simp
qed


lemma add_branch_dep:
  assumes "add_branch d r (ret, dep) = (ret', dep')" and "max_outside_depth dep \<le> d"
  shows "max_outside_depth dep' \<le> d" and "max_outside_depth dep \<le> max_outside_depth dep'"
    and "min_depth r < d \<or> must_stay dep'" and "min_depth r < d \<longrightarrow> min_depth r \<le> max_outside_depth dep'"
  using assms by (auto simp: add_branch_def update_dep_def Let_def split: if_splits)

lemma hoist_if_else:
  assumes pre: "hoist_pre (IfElse i cond t e rs # ops) lb inl d ps s V" and "hoists t" and "hoists e" and "hoists ops"
  shows "\<exists>sr. hoist_ops (IfElse i cond t e rs # ops) lb d s ret = Inr sr
    \<and> hoist_ok (IfElse i cond t e rs # ops) d ps s ret sr"
proof -
  note pre' = pre [unfolded hoist_pre_def]
  have len: "length (stack s) = Suc d" and lps: "length ps = Suc d" and V: "visible ps s V"
    and bl: "blocks_ok ps s" and cond: "set [cond] \<subseteq> V" using pre' by auto
  have tt: "set [] \<inter> V = {}" "distinct ([] @ all_defs t)" "set (all_defs t) \<inter> V = {}"
    "scoped (V \<union> set []) t" "hoist_safe inl t" "False \<longrightarrow> inl" using pre' by auto
  have ee: "set [] \<inter> V = {}" "distinct ([] @ all_defs e)" "set (all_defs e) \<inter> V = {}"
    "scoped (V \<union> set []) e" "hoist_safe inl e" "False \<longrightarrow> inl" using pre' by auto
  have rs: "set rs \<inter> (set (all_defs t) \<union> set (all_defs e)) = {}" using pre' by auto
  have nop: "set_depths [] (Suc d) s0 = s0" for s0 by (simp add: set_depths_def)
  obtain dep where dep: "update_deps [cond] d s (new_dep lb) = Inr dep" "\<not> lb \<longrightarrow> must_stay dep"
    "max_outside_depth dep \<le> d" "\<not> must_stay dep \<longrightarrow> set [cond] \<subseteq> reach ps s (max_outside_depth dep)"
    using update_deps_visible [OF V cond len, of "new_dep lb"] by auto
  obtain sr1 t' s1 r1 where n1: "hoist_ops t False (Suc d) (open_block False s) initial_result = Inr sr1"
    "close_block sr1 = (t', s1, r1)" and ok1: "nested_ok t {} d ps s t' s1 r1"
    using nested_block [OF assms(2) len lps bl V tt(1,6,4,2,3,5)] unfolding nop list.set(1) by blast
  obtain ret1 dep1 where a1: "add_branch d r1 (ret, dep) = (ret1, dep1)" by fastforce
  have ext1: "extends ps s s1" and bl1: "blocks_ok ps s1" using ok1 by (simp_all add: nested_ok_def)
  have fr1: "v \<notin> set (all_defs t) \<Longrightarrow> def_depth s1 v = def_depth s v" for v using ok1 by (simp add: nested_ok_def)
  have len1: "length (stack s1) = Suc d" using extends_length [OF ext1] len by simp
  have V1: "visible ps s1 V" by (rule visible_extends [OF V ext1]) (use fr1 tt in blast)
  obtain sr2 e' s2 r2 where n2: "hoist_ops e False (Suc d) (open_block False s1) initial_result = Inr sr2"
    "close_block sr2 = (e', s2, r2)" and ok2: "nested_ok e {} d ps s1 e' s2 r2"
    using nested_block [OF assms(3) len1 lps bl1 V1 ee(1,6,4,2,3,5)] unfolding nop list.set(1) by blast
  obtain ret2 dep2 where a2: "add_branch d r2 (ret1, dep1) = (ret2, dep2)" by fastforce
  have ext2: "extends ps s1 s2" and bl2: "blocks_ok ps s2" using ok2 by (simp_all add: nested_ok_def)
  have fr2: "v \<notin> set (all_defs e) \<Longrightarrow> def_depth s2 v = def_depth s1 v" for v using ok2 by (simp add: nested_ok_def)
  have len2: "length (stack s2) = Suc d" using extends_length [OF ext2] len1 by simp
  have V2: "visible ps s2 V" by (rule visible_extends [OF V1 ext2]) (use fr2 ee in blast)
  have ext: "extends ps s s2" using extends_trans [OF ext1 ext2] .
  note d1 = add_branch_dep [OF a1 dep(3)]
  note d2 = add_branch_dep [OF a2 d1(1)]
  note k1 = add_branch_cases [OF a1] and k2 = add_branch_cases [OF a2]
  obtain s3 ret3 where p: "place_op (IfElse i cond t' e' rs) d dep2 s2 ret2 = (s3, ret3)" by fastforce
  have st: "scoped (reach ps s2 d) t'"
    by (rule scoped_mono [of "reach ps s1 d"]) (use ok1 extends_reach [OF ext2] in \<open>simp_all add: nested_ok_def\<close>)
  have se: "scoped (reach ps s2 d) e'" using ok2 by (simp add: nested_ok_def)
  have "\<exists>k \<le> d. v \<in> level ps s2 k" if "v \<in> V" for v
    using that V2 len2 by (fastforce simp: visible_def less_Suc_eq_le)
  then have "V \<subseteq> reach ps s2 d" by (auto simp: reach_def)
  then have here: "scoped (reach ps s2 d) [IfElse i cond t' e' rs]" using cond st se by auto
  have there: "scoped (reach ps s2 (max_outside_depth dep2)) [IfElse i cond t' e' rs]" if stay: "\<not> must_stay dep2"
  proof -
    have s1': "\<not> must_stay dep1" and s0: "\<not> must_stay dep" using stay k1(2) k2(2) by blast+
    then have "lb" using dep(2) by blast
    moreover have "effects t = []" "effects e = []"
      using k1(3) k2(3) s1' stay ok1 ok2 by (auto simp: nested_ok_def)
    ultimately have fl: "is_flat t" "is_flat e" using pre' by auto
    have "scoped (reach ps s2 (max_outside_depth dep1)) t'"
      by (rule scoped_mono [of "reach ps s1 (max_outside_depth dep1)"])
        (use leaves_flat [OF _ fl(1) d1(3,4) s1', of ps s1 "{}" t'] ok1 extends_reach [OF ext2] in \<open>simp_all add: nested_ok_def\<close>)
    then have "scoped (reach ps s2 (max_outside_depth dep2)) t'" by (rule scoped_mono) (rule reach_mono [OF d2(2)])
    moreover have "scoped (reach ps s2 (max_outside_depth dep2)) e'"
      using leaves_flat [OF _ fl(2) d2(3,4) stay, of ps s2 "{}" e'] ok2 by (simp add: nested_ok_def)
    moreover have "cond \<in> reach ps s2 (max_outside_depth dep2)"
      using dep(4) s0 extends_reach [OF ext, of "max_outside_depth dep"]
        reach_mono [OF order_trans [OF d1(2) d2(2)], of ps s2] by auto
    ultimately show ?thesis by simp
  qed
  have "def_depth s2 v = def_depth s v" if "v \<notin> set (all_defs [IfElse i cond t e rs]) - set rs" for v
  proof -
    have "v \<notin> set (all_defs t)" "v \<notin> set (all_defs e)" using that rs by auto
    then show ?thesis using fr1 fr2 by simp
  qed
  then have "\<exists>sr. hoist_ops ops lb d s3 ret3 = Inr sr \<and> hoist_ok (IfElse i cond t e rs # ops) d ps s ret sr"
    by (intro hoist_step [OF p _ pre assms(4) ext bl2 _ d2(1)]) (use here there in auto)
  then show ?thesis using n1 n2 a1 a2 dep(1) p by simp
qed

lemma hoists_all: "hoists ops"
proof (induction ops rule: all_defs.induct)
  case 1
  then show ?case by (auto simp: hoists_def hoist_ok_def hoist_pre_def)
next
  case (2 c opnds rs ops)
  then show ?case unfolding hoists_def [of "_ # _"] using hoist_plain by blast
next
  case (3 i rng inits params body rs ops)
  then show ?case unfolding hoists_def [of "_ # _"] using hoist_loop by blast
next
  case (4 i c t e rs ops)
  then show ?case unfolding hoists_def [of "_ # _"] using hoist_if_else by blast
next
  case (5 i k xs params body rs ops)
  then show ?case unfolding hoists_def [of "_ # _"] using hoist_reduction by blast
next
  case (6 vs ops)
  then show ?case unfolding hoists_def [of "_ # _"] using hoist_jump [of "Continue vs" ops _ _ _ _ _ _ vs] by simp
next
  case (7 vs ops)
  then show ?case unfolding hoists_def [of "_ # _"] using hoist_jump [of "Break vs" ops _ _ _ _ _ _ vs] by simp
next
  case (8 vs ops)
  then show ?case unfolding hoists_def [of "_ # _"] using hoist_end_branch by blast
next
  case (9 ops)
  then show ?case unfolding hoists_def [of "_ # _"] using hoist_jump [of Return ops _ _ _ _ _ _ "[]"] by simp
qed

text \<open>
  C9. Hoisting never fails on a well-scoped single-assignment kernel whose loops nested in
  loops have an effect and whose other constructs in loops are flat or have an effect, and
  the result is well scoped: every operation that left a loop still follows what it uses.
\<close>

theorem hoist_keeps_scoping:
  assumes "scoped (set params) ops" and "distinct (all_defs ops)" and "set (all_defs ops) \<inter> set params = {}"
    and "hoist_safe False ops"
  shows "\<exists>ops'. hoist_loop_invariants params ops = Inr ops' \<and> scoped (set params) ops'"
proof -
  let ?s = "open_block False \<lparr>stack = [], def_depth = fold (\<lambda>v m. m(v \<mapsto> 0)) params Map.empty\<rparr>"
  have "hoist_pre ops False False 0 [set params] ?s (set params)"
    using assms by (simp add: hoist_pre_def blocks_ok_def visible_def level_def fold_upd)
  then obtain sr where sr: "hoist_ops ops False 0 ?s initial_result = Inr sr"
    and ok: "hoist_ok ops 0 [set params] ?s initial_result sr"
    using hoistsD [OF hoists_all] by blast
  have "extends [set params] ?s (fst sr)" "blocks_ok [set params] (fst sr)" using ok by (simp_all add: hoist_ok_def)
  then have "length (stack (fst sr)) = 1" "scoped (set params) (fst (stack (fst sr) ! 0))"
    using extends_length [of "[set params]" ?s "fst sr"] by (auto simp: blocks_ok_def at_start_def)
  then have "scoped (set params) (fst (close_block sr))"
    by (cases "stack (fst sr)") (auto simp: close_block_def split: prod.splits)
  then show ?thesis using sr by (auto simp: hoist_loop_invariants_def split: prod.splits)
qed


text \<open>A sum that does not depend on the loop leaves it; the store stays.\<close>

definition sum_of :: "var \<Rightarrow> var \<Rightarrow> var \<Rightarrow> operation" where
  "sum_of x y r = Plain (RawBinaryArithmetic ''add'' None False) [(''lhs'', OVar x), (''rhs'', OVar y)] [r]"

definition store_of :: "var \<Rightarrow> operation" where
  "store_of x = Plain StorePointer [(''value'', OVar x)] []"

definition hoist_program :: "operation list" where
  "hoist_program =
     [Loop 0 (Some (''n'', ''n'', ''n'')) [] [''i'']
        [sum_of ''n'' ''n'' ''a'', IfElse 1 ''n'' [EndBranch [''a'']] [EndBranch [''n'']] [''b''],
         sum_of ''b'' ''i'' ''c'', store_of ''c'', Continue []] [],
      Return]"

lemmas hoist_eval =
  hoist_loop_invariants_def open_block_def close_block_def set_depths_def update_deps_def update_dep_def
  place_op_def append_at_def add_body_def add_branch_def new_dep_def stay_if_def initial_result_def
  operands_vars_def range_vars_def Let_def sum_of_def store_of_def fold_res.simps

lemma hoist_keeps_scoping_witness:
  "\<exists>ops'. hoist_loop_invariants [''n''] hoist_program = Inr ops' \<and> scoped (set [''n'']) ops'"
  by (rule hoist_keeps_scoping) (simp_all add: hoist_program_def hoist_eval)

lemma hoist_keeps_effects_witness:
  "effects [sum_of ''n'' ''n'' ''a'', IfElse 1 ''n'' [EndBranch [''a'']] [EndBranch [''n'']] [''b''],
      Loop 0 (Some (''n'', ''n'', ''n'')) [] [''i''] [sum_of ''b'' ''i'' ''c'', store_of ''c'', Continue []] [], Return]
    = effects hoist_program"
  by (rule hoist_keeps_effects [of "[''n'']"]) code_simp

section \<open>Kernels whose scoping the pass breaks\<close>

text \<open>
  The bounds of a loop are not counted as dependencies: the inner loop over \<^verbatim>\<open>range(i)\<close> leaves
  the loop that defines \<^verbatim>\<open>i\<close>.
\<close>

definition triangular_kernel :: "operation list" where
  "triangular_kernel =
     [Plain (TypedConst (ConstInt 0)) [] [''z''],
      Loop 0 (Some (''z'', ''n'', ''n'')) [] [''i'']
        [Loop 1 (Some (''z'', ''i'', ''n'')) [''z''] [''j'', ''a'']
           [sum_of ''a'' ''j'' ''b'', Continue [''b'']] [''r''],
         store_of ''r'', Continue []] [],
      Return]"

lemma hoist_ignores_loop_bounds:
  "scoped {''n''} triangular_kernel \<and> distinct (all_defs triangular_kernel)
   \<and> hoist_loop_invariants [''n''] triangular_kernel = Inr
     [Plain (TypedConst (ConstInt 0)) [] [''z''],
      Loop 1 (Some (''z'', ''i'', ''n'')) [''z''] [''j'', ''a''] [sum_of ''a'' ''j'' ''b'', Continue [''b'']] [''r''],
      Loop 0 (Some (''z'', ''n'', ''n'')) [] [''i''] [store_of ''r'', Continue []] [],
      Return]"
  by code_simp

text \<open>The values of a \<^verbatim>\<open>Continue\<close> are not counted either.\<close>

definition carried_kernel :: "operation list" where
  "carried_kernel =
     [Plain (TypedConst (ConstInt 0)) [] [''z''],
      Loop 0 (Some (''z'', ''n'', ''n'')) [] [''i'']
        [Loop 1 (Some (''z'', ''n'', ''n'')) [''z''] [''j'', ''a'']
           [sum_of ''i'' ''n'' ''b'', Continue [''b'']] [''r''],
         store_of ''r'', Continue []] [],
      Return]"

lemma hoist_ignores_continue_values:
  "scoped {''n''} carried_kernel \<and> distinct (all_defs carried_kernel)
   \<and> hoist_loop_invariants [''n''] carried_kernel = Inr
     [Plain (TypedConst (ConstInt 0)) [] [''z''],
      Loop 1 (Some (''z'', ''n'', ''n'')) [''z''] [''j'', ''a''] [Continue [''b'']] [''r''],
      Loop 0 (Some (''z'', ''n'', ''n'')) [] [''i''] [sum_of ''i'' ''n'' ''b'', store_of ''r'', Continue []] [],
      Return]"
  by code_simp

text \<open>
  A branch that needs a value of its parent block reports only that depth, which hides the
  values it needs from farther out: the outer conditional leaves the loop that defines \<^verbatim>\<open>a\<close>.
\<close>

definition nested_if_kernel :: "operation list" where
  "nested_if_kernel =
     [Loop 0 (Some (''n'', ''n'', ''n'')) [] [''i'']
        [sum_of ''i'' ''n'' ''a'',
         IfElse 1 ''n''
           [sum_of ''n'' ''n'' ''b'',
            IfElse 2 ''n'' [sum_of ''a'' ''b'' ''c'', EndBranch [''c'']] [EndBranch [''b'']] [''d''],
            EndBranch [''d'']]
           [EndBranch [''n'']] [''e''],
         store_of ''e'', Continue []] [],
      Return]"

lemma hoist_forgets_outer_dependencies:
  "scoped {''n''} nested_if_kernel \<and> distinct (all_defs nested_if_kernel)
   \<and> hoist_loop_invariants [''n''] nested_if_kernel = Inr
     [IfElse 1 ''n''
        [sum_of ''n'' ''n'' ''b'',
         IfElse 2 ''n'' [sum_of ''a'' ''b'' ''c'', EndBranch [''c'']] [EndBranch [''b'']] [''d''],
         EndBranch [''d'']]
        [EndBranch [''n'']] [''e''],
      Loop 0 (Some (''n'', ''n'', ''n'')) [] [''i''] [sum_of ''i'' ''n'' ''a'', store_of ''e'', Continue []] [],
      Return]"
  by code_simp

end
