(* ===== verification/Signature.thy ===== *)
theory Signature
  imports Datatypes
begin

text \<open>
  \<^verbatim>\<open>compilation/_signature.py\<close>: the constraints on kernel parameters and the checks of their
  constructors, and kernel signatures. A Python float is its bit pattern, by which the
  source compares floats.
\<close>

section \<open>Constraints\<close>

record array_constraint =
  ac_dtype :: DType
  ac_ndim :: nat
  ac_index_dtype :: DType
  stride_lower_bound_incl :: "int option list"
  ac_alias_groups :: "string list"
  may_alias_internally :: bool
  stride_constant :: "int option list"
  shape_constant :: "int option list"
  stride_divisible_by :: "int list"
  shape_divisible_by :: "int list"
  base_addr_divisible_by :: int

datatype constant_scalar = BoolConstant bool | IntConstant int | FloatConstant "64 word"

datatype ParameterConstraint =
    ScalarConstraint DType
  | ArrayConstraint array_constraint
  | ListConstraint array_constraint "string list" bool
  | TupleConstraint "ParameterConstraint list"
  | ConstantConstraint constant_scalar

text \<open>An argument that is given per dimension, once for all of them, or not at all.\<close>

datatype 'a per_dim = Unset | Same 'a | Each "'a list"

definition parse_assumption_tuple :: "'a per_dim \<Rightarrow> nat \<Rightarrow> 'a \<Rightarrow> ('a \<Rightarrow> unit res) \<Rightarrow> 'a list res" where
  "parse_assumption_tuple sq n default_value predicate =
     (case sq of
        Unset \<Rightarrow> Inr (replicate n default_value)
      | Same x \<Rightarrow> Inr (replicate n x)
      | Each xs \<Rightarrow>
          if length xs \<noteq> n then Inl ValueError
          else and_then (map_res predicate xs) (\<lambda>_. Inr xs))"

definition check_optional_int :: "int option \<Rightarrow> unit res" where
  "check_optional_int val = Inr ()"

definition check_optional_nonnegative_int :: "int option \<Rightarrow> unit res" where
  "check_optional_nonnegative_int val =
     (case val of None \<Rightarrow> Inr () | Some x \<Rightarrow> if x < 0 then Inl ValueError else Inr ())"

definition check_divisibility :: "int \<Rightarrow> unit res" where
  "check_divisibility val = (if val \<le> 0 then Inl TypeError else Inr ())"

fun remove_redundant_lower_bounds :: "int option list \<Rightarrow> int option list \<Rightarrow> int option list res" where
  "remove_redundant_lower_bounds (Some val # statics) (Some lb # lbs) =
     (if val < lb then Inl ValueError
      else and_then (remove_redundant_lower_bounds statics lbs) (\<lambda>r. Inr (None # r)))"
| "remove_redundant_lower_bounds (s # statics) (lb # lbs) =
     and_then (remove_redundant_lower_bounds statics lbs) (\<lambda>r. Inr (lb # r))"
| "remove_redundant_lower_bounds statics lbs = Inr lbs"

fun remove_redundant_divisibility_constraints :: "int option list \<Rightarrow> int list \<Rightarrow> int list res" where
  "remove_redundant_divisibility_constraints (Some val # statics) (d # ds) =
     (if d = 0 then Inl ZeroDivisionError
      else if val mod d \<noteq> 0 then Inl ValueError
      else and_then (remove_redundant_divisibility_constraints statics ds) (\<lambda>r. Inr (1 # r)))"
| "remove_redundant_divisibility_constraints (None # statics) (d # ds) =
     and_then (remove_redundant_divisibility_constraints statics ds) (\<lambda>r. Inr (d # r))"
| "remove_redundant_divisibility_constraints statics ds = Inr ds"

text \<open>\<^verbatim>\<open>ArrayConstraint.__init__\<close>; the checks of the argument types hold by typing.\<close>

definition ArrayConstraint_init ::
  "DType \<Rightarrow> int \<Rightarrow> DType \<Rightarrow> int option per_dim \<Rightarrow> string list \<Rightarrow> bool \<Rightarrow> int option per_dim \<Rightarrow> int option per_dim
   \<Rightarrow> int per_dim \<Rightarrow> int per_dim \<Rightarrow> int \<Rightarrow> array_constraint res" where
  "ArrayConstraint_init dtype ndim index_dtype lower_bounds groups may_alias strides shapes stride_div shape_div base_div =
     (if ndim < 0 then Inl ValueError
      else if index_dtype \<notin> {int32, uint32, int64} then Inl ValueError
      else let n = nat ndim in
        and_then (parse_assumption_tuple strides n None check_optional_int) (\<lambda>strides.
        and_then (parse_assumption_tuple shapes n None check_optional_nonnegative_int) (\<lambda>shapes.
        and_then (parse_assumption_tuple lower_bounds n None check_optional_int) (\<lambda>lower_bounds.
        and_then (remove_redundant_lower_bounds strides lower_bounds) (\<lambda>lower_bounds.
        and_then (parse_assumption_tuple stride_div n 1 check_divisibility) (\<lambda>stride_div.
        and_then (remove_redundant_divisibility_constraints strides stride_div) (\<lambda>stride_div.
        and_then (parse_assumption_tuple shape_div n 1 check_divisibility) (\<lambda>shape_div.
        and_then (remove_redundant_divisibility_constraints shapes shape_div) (\<lambda>shape_div.
          if base_div \<le> 0 then Inl ValueError
          else Inr \<lparr>ac_dtype = dtype, ac_ndim = n, ac_index_dtype = index_dtype,
                    stride_lower_bound_incl = lower_bounds, ac_alias_groups = groups,
                    may_alias_internally = may_alias, stride_constant = strides,
                    shape_constant = shapes, stride_divisible_by = stride_div,
                    shape_divisible_by = shape_div, base_addr_divisible_by = base_div\<rparr>)))))))))"

section \<open>Alias groups\<close>

text \<open>The constraints that have alias groups, with the groups; a list comes before its element.\<close>

datatype constraint_kind = ArrayKind | ListKind

fun collect_alias_groups :: "ParameterConstraint list \<Rightarrow> (constraint_kind \<times> string list) list" where
  "collect_alias_groups [] = []"
| "collect_alias_groups (ArrayConstraint a # ps) = (ArrayKind, ac_alias_groups a) # collect_alias_groups ps"
| "collect_alias_groups (ListConstraint a groups b # ps) =
     (ListKind, groups) # (ArrayKind, ac_alias_groups a) # collect_alias_groups ps"
| "collect_alias_groups (TupleConstraint items # ps) = collect_alias_groups items @ collect_alias_groups ps"
| "collect_alias_groups (p # ps) = collect_alias_groups ps"

text \<open>The use counts, in the order of first use, and the kind of constraint that uses a group.\<close>

definition count_group ::
  "constraint_kind \<Rightarrow> string list \<Rightarrow> string
   \<Rightarrow> string list \<times> (string \<times> nat) list \<times> (string \<rightharpoonup> constraint_kind)
   \<Rightarrow> (string list \<times> (string \<times> nat) list \<times> (string \<rightharpoonup> constraint_kind)) res" where
  "count_group kind groups ag st =
     (case st of (seen, use_count, kind_of) \<Rightarrow>
       if ag \<in> set seen then Inl ValueError
       else if kind_of ag \<noteq> None \<and> kind_of ag \<noteq> Some kind then Inl ValueError
       else Inr (ag # seen,
         if ag \<in> fst ` set use_count then map (\<lambda>(g, n). (g, if g = ag then n + 1 else n)) use_count
         else use_count @ [(ag, 1)],
         kind_of(ag \<mapsto> kind)))"

definition validate_alias_groups :: "ParameterConstraint list \<Rightarrow> unit res" where
  "validate_alias_groups parameters =
     and_then
       (fold_res (\<lambda>(kind, groups) (use_count, kind_of).
          and_then (fold_res (count_group kind groups) groups ([], use_count, kind_of))
            (\<lambda>(seen, use_count, kind_of). Inr (use_count, kind_of)))
        (collect_alias_groups parameters) ([], Map.empty))
       (\<lambda>(use_count, kind_of). if \<exists>(ag, n) \<in> set use_count. n = 1 then Inl ValueError else Inr ())"

section \<open>Signatures\<close>

text \<open>\<^verbatim>\<open>CallingConvention\<close> of \<^verbatim>\<open>cext/tile_kernel.cpp\<close>.\<close>

datatype CallingConvention = CutilePython_V1 | CutilePython_V2

fun cconv_version :: "CallingConvention \<Rightarrow> nat" where
  "cconv_version CutilePython_V1 = 1"
| "cconv_version CutilePython_V2 = 2"

fun cconv_code :: "CallingConvention \<Rightarrow> string" where
  "cconv_code CutilePython_V1 = ''t1''"
| "cconv_code CutilePython_V2 = ''t2''"

definition cconv_from_code :: "string \<Rightarrow> CallingConvention res" where
  "cconv_from_code code =
     (if code = ''t1'' then Inr CutilePython_V1
      else if code = ''t2'' then Inr CutilePython_V2 else Inl ValueError)"

lemma map_res_cong [fundef_cong]:
  "xs = ys \<Longrightarrow> (\<And>x. x \<in> set ys \<Longrightarrow> f x = g x) \<Longrightarrow> map_res f xs = map_res g ys"
  by (induction ys arbitrary: xs) auto

fun validate_constraint_support :: "CallingConvention \<Rightarrow> ParameterConstraint \<Rightarrow> unit res" where
  "validate_constraint_support cconv (ScalarConstraint t) = Inr ()"
| "validate_constraint_support cconv (ArrayConstraint a) =
     (if (\<exists>x \<in> set (shape_constant a). x \<noteq> None) \<and> cconv_version cconv < 2 then Inl ValueError else Inr ())"
| "validate_constraint_support cconv (ListConstraint a groups b) =
     (if (\<exists>x \<in> set (shape_constant a). x \<noteq> None) \<and> cconv_version cconv < 2 then Inl ValueError else Inr ())"
| "validate_constraint_support cconv (TupleConstraint items) =
     (if cconv_version cconv < 2 then Inl ValueError
      else and_then (map_res (validate_constraint_support cconv) items) (\<lambda>_. Inr ()))"
| "validate_constraint_support cconv (ConstantConstraint c) = Inr ()"

record kernel_signature =
  parameters :: "ParameterConstraint list"
  calling_convention :: CallingConvention
  symbol :: "string option"

definition KernelSignature_init ::
  "ParameterConstraint list \<Rightarrow> CallingConvention \<Rightarrow> string option \<Rightarrow> kernel_signature res" where
  "KernelSignature_init params cconv name =
     and_then (validate_alias_groups params) (\<lambda>_.
     and_then (map_res (validate_constraint_support cconv) params) (\<lambda>_.
       Inr \<lparr>parameters = params, calling_convention = cconv, symbol = name\<rparr>))"

definition with_symbol :: "kernel_signature \<Rightarrow> string option \<Rightarrow> kernel_signature res" where
  "with_symbol sig name = KernelSignature_init (parameters sig) (calling_convention sig) name"

end
