(* ===== verification/Dataflow.thy ===== *)
theory Dataflow
  imports TileSem Signature
begin

text \<open>
  The data-flow analysis, \<^verbatim>\<open>_passes/dataflow_analysis.py\<close>: which memory a pointer may point
  to, as a bit set, and a divisor of every integer. The facts of the kernel parameters are
  registered first; then the block is walked until nothing changes.
\<close>

section \<open>Predicates\<close>

record DataPredicate =
  alias_set :: int
  div_by :: int
  may_alias :: bool

definition ALIAS_UNIVERSE :: int where
  "ALIAS_UNIVERSE = -1"

definition ALWAYS_TRUE_PREDICATE :: DataPredicate where
  "ALWAYS_TRUE_PREDICATE = \<lparr>alias_set = ALIAS_UNIVERSE, div_by = 1, may_alias = True\<rparr>"

definition unify :: "DataPredicate \<Rightarrow> DataPredicate \<Rightarrow> DataPredicate" where
  "unify p q =
     \<lparr>alias_set = alias_set p OR alias_set q, div_by = gcd (div_by p) (div_by q),
      may_alias = (may_alias p \<or> may_alias q)\<rparr>"

text \<open>
  \<^verbatim>\<open>_AggregatePredicate\<close>: a dictionary with the keys \<^verbatim>\<open>0\<close> to \<^verbatim>\<open>n - 1\<close>, since it is only built from
  \<^verbatim>\<open>enumerate\<close>, the empty dictionary and \<^verbatim>\<open>unify\<close>. A missing item is always true.
\<close>

type_synonym AggregatePredicate = "DataPredicate list"

definition agg_item :: "AggregatePredicate \<Rightarrow> nat \<Rightarrow> DataPredicate" where
  "agg_item items i = (if i < length items then items ! i else ALWAYS_TRUE_PREDICATE)"

definition agg_unify :: "AggregatePredicate \<Rightarrow> AggregatePredicate \<Rightarrow> AggregatePredicate" where
  "agg_unify p q = map (\<lambda>i. unify (agg_item p i) (agg_item q i)) [0..<max (length p) (length q)]"

definition agg_eq :: "AggregatePredicate \<Rightarrow> AggregatePredicate \<Rightarrow> bool" where
  "agg_eq p q \<longleftrightarrow> list_all (\<lambda>i. agg_item p i = agg_item q i) [0..<max (length p) (length q)]"

section \<open>Trackers\<close>

record 'p predicate_tracker =
  is_dirty :: bool
  predicates :: "var \<rightharpoonup> 'p"

definition new_tracker :: "'p predicate_tracker" where
  "new_tracker = \<lparr>is_dirty = False, predicates = Map.empty\<rparr>"

definition tracker_item :: "'p predicate_tracker \<Rightarrow> var \<Rightarrow> 'p res" where
  "tracker_item t v = (case predicates t v of None \<Rightarrow> Inl KeyError | Some p \<Rightarrow> Inr p)"

definition update_tracker ::
  "('p \<Rightarrow> 'p \<Rightarrow> 'p) \<Rightarrow> ('p \<Rightarrow> 'p \<Rightarrow> bool) \<Rightarrow> var \<Rightarrow> 'p \<Rightarrow> 'p predicate_tracker \<Rightarrow> 'p predicate_tracker" where
  "update_tracker join eq v pred t =
     (case predicates t v of
        None \<Rightarrow> t\<lparr>is_dirty := True, predicates := (predicates t)(v \<mapsto> pred)\<rparr>
      | Some old \<Rightarrow>
          let new = join old pred
          in if eq new old then t else t\<lparr>is_dirty := True, predicates := (predicates t)(v \<mapsto> new)\<rparr>)"

record df_state =
  tracker :: "DataPredicate predicate_tracker"
  list_array_tracker :: "AggregatePredicate predicate_tracker"

definition update_pred :: "var \<Rightarrow> DataPredicate \<Rightarrow> df_state \<Rightarrow> df_state" where
  "update_pred v p st = st\<lparr>tracker := update_tracker unify (=) v p (tracker st)\<rparr>"

definition update_agg :: "var \<Rightarrow> AggregatePredicate \<Rightarrow> df_state \<Rightarrow> df_state" where
  "update_agg v p st = st\<lparr>list_array_tracker := update_tracker agg_unify agg_eq v p (list_array_tracker st)\<rparr>"

definition propagate :: "var \<Rightarrow> var \<Rightarrow> df_state \<Rightarrow> df_state res" where
  "propagate src dst st =
     and_then (tracker_item (tracker st) src) (\<lambda>p.
     let st = update_pred dst p st in
     and_then (tracker_item (list_array_tracker st) src) (\<lambda>q. Inr (update_agg dst q st)))"

definition set_fact :: "var \<Rightarrow> DataPredicate \<Rightarrow> df_state \<Rightarrow> df_state" where
  "set_fact v p st = update_agg v [] (update_pred v p st)"

definition set_always_true :: "var \<Rightarrow> df_state \<Rightarrow> df_state" where
  "set_always_true v st = set_fact v ALWAYS_TRUE_PREDICATE st"

definition dirty :: "df_state \<Rightarrow> bool" where
  "dirty st \<longleftrightarrow> is_dirty (tracker st) \<or> is_dirty (list_array_tracker st)"

definition reset_dirty :: "df_state \<Rightarrow> df_state" where
  "reset_dirty st =
     st\<lparr>tracker := (tracker st)\<lparr>is_dirty := False\<rparr>,
        list_array_tracker := (list_array_tracker st)\<lparr>is_dirty := False\<rparr>\<rparr>"

section \<open>Parameters\<close>

text \<open>\<^verbatim>\<open>_AliasSetMapper\<close>: the next bit of the sequence and the bits of the group names.\<close>

record alias_mapper =
  next_bit :: nat
  mapping :: "string \<rightharpoonup> int"

definition new_mapper :: alias_mapper where
  "new_mapper = \<lparr>next_bit = 0, mapping = Map.empty\<rparr>"

definition group_bit :: "string \<Rightarrow> alias_mapper \<Rightarrow> int \<times> alias_mapper" where
  "group_bit ap mp =
     (case mapping mp ap of
        Some b \<Rightarrow> (b, mp)
      | None \<Rightarrow> (push_bit (next_bit mp) 1,
          mp\<lparr>next_bit := next_bit mp + 1, mapping := (mapping mp)(ap \<mapsto> push_bit (next_bit mp) 1)\<rparr>))"

fun group_bits :: "string list \<Rightarrow> int \<Rightarrow> alias_mapper \<Rightarrow> int \<times> alias_mapper" where
  "group_bits [] ret mp = (ret, mp)"
| "group_bits (ap # aps) ret mp = (let (b, mp) = group_bit ap mp in group_bits aps (ret OR b) mp)"

definition map_alias_groups :: "string list option \<Rightarrow> alias_mapper \<Rightarrow> int \<times> alias_mapper" where
  "map_alias_groups groups mp =
     (case groups of
        None \<Rightarrow> (ALIAS_UNIVERSE, mp)
      | Some [] \<Rightarrow> (push_bit (next_bit mp) 1, mp\<lparr>next_bit := next_bit mp + 1\<rparr>)
      | Some aps \<Rightarrow> group_bits aps 0 mp)"


definition index_predicates :: "int option list \<Rightarrow> int list \<Rightarrow> DataPredicate list res" where
  "index_predicates statics divs =
     and_then (strict_zip statics divs) (\<lambda>ps.
       Inr (map (\<lambda>(static, d).
         ALWAYS_TRUE_PREDICATE\<lparr>div_by := (case static of None \<Rightarrow> d | Some c \<Rightarrow> c)\<rparr>) ps))"

definition get_array_predicates :: "array_constraint \<Rightarrow> alias_mapper \<Rightarrow> (DataPredicate list \<times> alias_mapper) res" where
  "get_array_predicates a mp =
     (let (alias, mp) = map_alias_groups (Some (ac_alias_groups a)) mp;
          base = \<lparr>alias_set = alias, div_by = base_addr_divisible_by a, may_alias = may_alias_internally a\<rparr> in
      and_then (index_predicates (shape_constant a) (shape_divisible_by a)) (\<lambda>shapes.
      and_then (index_predicates (stride_constant a) (stride_divisible_by a)) (\<lambda>strides.
        Inr (base # shapes @ strides, mp))))"

definition register_leaf_param ::
  "ParameterConstraint \<Rightarrow> var list \<Rightarrow> df_state \<times> alias_mapper \<Rightarrow> (df_state \<times> alias_mapper) res" where
  "register_leaf_param constraint vars sm =
     (case sm of (st, mp) \<Rightarrow>
       (case constraint of
          ArrayConstraint a \<Rightarrow>
            and_then (get_array_predicates a mp) (\<lambda>(preds, mp).
            and_then (strict_zip vars preds) (\<lambda>ps.
              Inr (fold (\<lambda>(v, p). set_fact v p) ps st, mp)))
        | _ \<Rightarrow> (case vars of [v] \<Rightarrow> Inr (set_always_true v st, mp) | _ \<Rightarrow> Inl ValueError)))"

definition register_list_param ::
  "array_constraint \<Rightarrow> string list \<Rightarrow> bool \<Rightarrow> var \<Rightarrow> var \<Rightarrow> df_state \<times> alias_mapper \<Rightarrow> (df_state \<times> alias_mapper) res" where
  "register_list_param element groups elements_may_alias base_ptr size_var sm =
     (case sm of (st, mp) \<Rightarrow>
       let (alias, mp) = map_alias_groups (Some groups) mp;
           st = update_pred base_ptr \<lparr>alias_set = alias, div_by = 1, may_alias = elements_may_alias\<rparr> st in
       and_then (get_array_predicates element mp) (\<lambda>(elt_predicates, mp).
         Inr (set_always_true size_var (update_agg base_ptr elt_predicates st), mp)))"

text \<open>The parameters of a tuple take consecutive variables; the offset moves along.\<close>

fun register_tuple_params ::
  "ParameterConstraint list \<Rightarrow> var list \<Rightarrow> nat \<Rightarrow> df_state \<times> alias_mapper \<Rightarrow> (nat \<times> df_state \<times> alias_mapper) res" where
  "register_tuple_params [] flat offset sm = Inr (offset, sm)"
| "register_tuple_params (ArrayConstraint a # items) flat offset sm =
     (let n = 1 + 2 * ac_ndim a in
      and_then (register_leaf_param (ArrayConstraint a) (take n (drop offset flat)) sm)
        (register_tuple_params items flat (offset + n)))"
| "register_tuple_params (ScalarConstraint t # items) flat offset sm =
     and_then (register_leaf_param (ScalarConstraint t) (take 1 (drop offset flat)) sm)
       (register_tuple_params items flat (offset + 1))"
| "register_tuple_params (TupleConstraint nested # items) flat offset sm =
     and_then (register_tuple_params nested flat offset sm) (\<lambda>(offset, sm).
       register_tuple_params items flat offset sm)"
| "register_tuple_params (ListConstraint a groups b # items) flat offset sm =
     (if offset + 1 < length flat then
        and_then (register_list_param a groups b (flat ! offset) (flat ! (offset + 1)) sm)
          (register_tuple_params items flat (offset + 2))
      else Inl IndexError)"
| "register_tuple_params (ConstantConstraint c # items) flat offset sm =
     register_tuple_params items flat offset sm"

definition register_param ::
  "var list \<times> ParameterConstraint \<Rightarrow> df_state \<times> alias_mapper \<Rightarrow> (df_state \<times> alias_mapper) res" where
  "register_param pc sm =
     (case pc of (flat, constraint) \<Rightarrow>
       (case constraint of
          ArrayConstraint a \<Rightarrow> register_leaf_param constraint flat sm
        | ScalarConstraint t \<Rightarrow> register_leaf_param constraint flat sm
        | ListConstraint a groups b \<Rightarrow>
            (case flat of [base_ptr, size_var] \<Rightarrow> register_list_param a groups b base_ptr size_var sm
             | _ \<Rightarrow> Inl AssertionError)
        | TupleConstraint items \<Rightarrow>
            and_then (register_tuple_params items flat 0 sm) (\<lambda>(offset, sm). Inr sm)
        | ConstantConstraint c \<Rightarrow> Inl AssertionError))"

section \<open>Operations\<close>

text \<open>
  \<^verbatim>\<open>get_dtype\<close> of the type of a variable; the loose type of a literal is kept elsewhere, so the
  branch for loosely typed scalars is never taken.
\<close>

definition get_dtype :: "ir_type \<Rightarrow> DType res" where
  "get_dtype ty = (case ty of TileTy t shape \<Rightarrow> Inr t | _ \<Rightarrow> Inl AssertionError)"

definition dtype_of_var :: "ir_context \<Rightarrow> var \<Rightarrow> DType res" where
  "dtype_of_var c v = and_then (get_type v c) get_dtype"

definition divisibility_for_binary_op ::
  "ir_context \<Rightarrow> string \<Rightarrow> var \<Rightarrow> var \<Rightarrow> var \<Rightarrow> df_state \<Rightarrow> int res" where
  "divisibility_for_binary_op c fn lhs rhs r st =
     and_then (dtype_of_var c r) (\<lambda>t.
       if is_integral t then
         and_then (tracker_item (tracker st) lhs) (\<lambda>p.
         and_then (tracker_item (tracker st) rhs) (\<lambda>q.
           Inr (if fn = ''add'' \<or> fn = ''sub'' then gcd (div_by p) (div_by q)
                else if fn = ''mul'' then div_by p * div_by q else 1)))
       else Inr 1)"

definition divisibility_for_unary_op :: "ir_context \<Rightarrow> string \<Rightarrow> var \<Rightarrow> var \<Rightarrow> df_state \<Rightarrow> int res" where
  "divisibility_for_unary_op c fn x r st =
     and_then (dtype_of_var c r) (\<lambda>t.
       if is_integral t then
         and_then (tracker_item (tracker st) x) (\<lambda>p.
           Inr (if fn = ''abs'' \<or> fn = ''neg'' then div_by p else 1))
       else Inr 1)"

text \<open>\<^verbatim>\<open>PointerInfo(t)\<close>: its pointee, which an opaque pointer does not have.\<close>

definition pointer_info :: "DType \<Rightarrow> DType option res" where
  "pointer_info t =
     (case def_kind (dtype_defs t) of PointerDefinition p ms \<Rightarrow> Inr p | _ \<Rightarrow> Inl TypeError)"

definition pointee_bitwidth :: "DType option \<Rightarrow> nat res" where
  "pointee_bitwidth p = (case p of None \<Rightarrow> Inl ValueError | Some t \<Rightarrow> Inr (def_bitwidth (dtype_defs t)))"

definition tile_type :: "ir_context \<Rightarrow> var \<Rightarrow> (DType \<times> nat list) res" where
  "tile_type c v =
     and_then (get_type v c) (\<lambda>ty. case ty of TileTy t shape \<Rightarrow> Inr (t, shape) | _ \<Rightarrow> Inl AssertionError)"

text \<open>Only the divisor of a pointer tile with one element is tracked.\<close>

definition pointer_divisor ::
  "DType option \<Rightarrow> nat list \<Rightarrow> var \<Rightarrow> (string \<times> operand_value) list \<Rightarrow> df_state \<Rightarrow> int res" where
  "pointer_divisor pointee shape x opnds st =
     (if list_all (\<lambda>n. n = 1) shape then
        and_then (pointee_bitwidth pointee) (\<lambda>w.
        and_then
          (if w mod 8 = 0
           then and_then (var_operand ''offset'' opnds) (\<lambda>off.
                and_then (tracker_item (tracker st) off) (\<lambda>q. Inr (div_by q * int (w div 8))))
           else Inr 1) (\<lambda>offset_divby.
        and_then (tracker_item (tracker st) x) (\<lambda>p. Inr (gcd (div_by p) offset_divby))))
      else Inr 1)"

text \<open>The base pointer of a list: \<^verbatim>\<open>get_aggregate\<close> and the assertion on its class.\<close>

definition list_base :: "ir_context \<Rightarrow> var \<Rightarrow> var res" where
  "list_base c x =
     (case aggregate_values c x of
        None \<Rightarrow> Inl KeyError
      | Some a \<Rightarrow> (case a of ListValue b \<Rightarrow> Inr b | _ \<Rightarrow> Inl AssertionError))"

text \<open>An operation without nested blocks that is no jump.\<close>

definition analyze_plain ::
  "ir_context \<Rightarrow> op_class \<Rightarrow> (string \<times> operand_value) list \<Rightarrow> var list \<Rightarrow> df_state \<Rightarrow> df_state res" where
  "analyze_plain c cl opnds rs st =
     (case cl of
        Assign \<Rightarrow>
          and_then (var_operand ''value'' opnds) (\<lambda>x. and_then (result_var rs) (\<lambda>r. propagate x r st))
      | AssumeDivBy d \<Rightarrow>
          and_then (var_operand ''x'' opnds) (\<lambda>x.
          and_then (tracker_item (tracker st) x) (\<lambda>p.
          and_then (result_var rs) (\<lambda>r.
          let st = update_pred r (p\<lparr>div_by := d\<rparr>) st in
          and_then (tracker_item (list_array_tracker st) x) (\<lambda>q. Inr (update_agg r q st)))))
      | GetArrayListItem \<Rightarrow>
          and_then (var_operand ''x'' opnds) (\<lambda>x.
          and_then (list_base c x) (\<lambda>base.
          and_then (tracker_item (list_array_tracker st) base) (\<lambda>items.
            Inr (fold (\<lambda>(i, v). set_fact v (agg_item items i)) (List.enumerate 0 rs) st))))
      | PointerOffset \<Rightarrow>
          and_then (var_operand ''pointer'' opnds) (\<lambda>x.
          and_then (tile_type c x) (\<lambda>(t, shape).
          and_then (pointer_info t) (\<lambda>pointee.
          and_then (pointer_divisor pointee shape x opnds st) (\<lambda>d.
          and_then (tracker_item (tracker st) x) (\<lambda>p.
          and_then (result_var rs) (\<lambda>r. Inr (set_fact r (p\<lparr>div_by := d\<rparr>) st)))))))
      | TileBroadcast \<Rightarrow> and_then (var_operand ''x'' opnds) (\<lambda>x. and_then (result_var rs) (\<lambda>r. propagate x r st))
      | TileReshape \<Rightarrow> and_then (var_operand ''x'' opnds) (\<lambda>x. and_then (result_var rs) (\<lambda>r. propagate x r st))
      | AssumeBounded \<Rightarrow> and_then (var_operand ''x'' opnds) (\<lambda>x. and_then (result_var rs) (\<lambda>r. propagate x r st))
      | TileAsType \<Rightarrow>
          and_then (var_operand ''x'' opnds) (\<lambda>x.
          and_then (dtype_of_var c x) (\<lambda>orig.
          and_then (result_var rs) (\<lambda>r.
          and_then (dtype_of_var c r) (\<lambda>t.
          and_then (tracker_item (tracker st) x) (\<lambda>p.
            let d = (if is_integral orig \<and> is_integral t
                     then gcd (div_by p) (push_bit (def_bitwidth (dtype_defs t)) 1) else 1)
            in Inr (set_fact r (p\<lparr>div_by := d\<rparr>) st))))))
      | TypedConst k \<Rightarrow>
          and_then (result_var rs) (\<lambda>r.
            Inr (case k of ConstInt n \<Rightarrow> set_fact r (ALWAYS_TRUE_PREDICATE\<lparr>div_by := \<bar>n\<bar>\<rparr>) st
                 | ConstOther s \<Rightarrow> set_always_true r st))
      | RawBinaryArithmetic fn rm ftz \<Rightarrow>
          and_then (var_operand ''lhs'' opnds) (\<lambda>x.
          and_then (var_operand ''rhs'' opnds) (\<lambda>y.
          and_then (result_var rs) (\<lambda>r.
          and_then (divisibility_for_binary_op c fn x y r st) (\<lambda>d.
            Inr (set_fact r (ALWAYS_TRUE_PREDICATE\<lparr>div_by := d\<rparr>) st)))))
      | Unary fn rm ftz \<Rightarrow>
          and_then (var_operand ''operand'' opnds) (\<lambda>x.
          and_then (result_var rs) (\<lambda>r.
          and_then (divisibility_for_unary_op c fn x r st) (\<lambda>d.
            Inr (set_fact r (ALWAYS_TRUE_PREDICATE\<lparr>div_by := d\<rparr>) st))))
      | _ \<Rightarrow> Inr (fold set_always_true rs st))"

section \<open>Blocks\<close>

definition propagate_all :: "(var \<times> var) list \<Rightarrow> df_state \<Rightarrow> df_state res" where
  "propagate_all = fold_res (\<lambda>(src, dst). propagate src dst)"

text \<open>The variables a value flows to, for each position of a loop; a for loop may end here.\<close>

definition flow_pairs :: "bool \<Rightarrow> (var \<times> var \<times> var) list \<Rightarrow> (var \<times> var) list" where
  "flow_pairs for_loop xs = concat (map (\<lambda>(v, b, r). (v, b) # (if for_loop then [(v, r)] else [])) xs)"

definition flow_to_loop ::
  "bool \<Rightarrow> var list \<Rightarrow> var list \<Rightarrow> var list \<Rightarrow> df_state \<Rightarrow> df_state res" where
  "flow_to_loop for_loop vs bs rs st =
     and_then (strict_zip bs rs) (\<lambda>brs. and_then (strict_zip vs brs) (\<lambda>xs. propagate_all (flow_pairs for_loop xs) st))"

definition set_induction_var :: "(var \<times> var \<times> var) option \<Rightarrow> var list \<Rightarrow> df_state \<Rightarrow> df_state res" where
  "set_induction_var rng params st =
     (if is_for_loop rng then (case params of [] \<Rightarrow> Inl IndexError | v # _ \<Rightarrow> Inr (set_always_true v st)) else Inr st)"

type_synonym df_loop = "(bool \<times> var list \<times> var list) option"

text \<open>
  \<^verbatim>\<open>_analyze_aliases_in_block\<close>; the innermost loop is whether it is a for loop, its body
  variables and its results, the innermost branch its results.
\<close>

fun analyze_block ::
  "ir_context \<Rightarrow> operation list \<Rightarrow> df_loop \<Rightarrow> var list option \<Rightarrow> df_state \<Rightarrow> df_state res" where
  "analyze_block c [] l t st = Inr st"
| "analyze_block c (Plain cl opnds rs # ops) l t st =
     and_then (analyze_plain c cl opnds rs st) (analyze_block c ops l t)"
| "analyze_block c (Loop i rng inits params body rs # ops) l t st =
     and_then (set_induction_var rng params st) (\<lambda>st.
     and_then (flow_to_loop (is_for_loop rng) inits (body_vars rng params) rs st) (\<lambda>st.
     and_then (analyze_block c body (Some (is_for_loop rng, body_vars rng params, rs)) None st)
       (analyze_block c ops l t)))"
| "analyze_block c (Continue vs # ops) l t st =
     (case l of None \<Rightarrow> Inl AttributeError
      | Some (for_loop, bs, rs) \<Rightarrow>
          and_then (flow_to_loop for_loop vs bs rs st) (analyze_block c ops l t))"
| "analyze_block c (Break vs # ops) l t st =
     (case l of None \<Rightarrow> Inl AttributeError
      | Some (for_loop, bs, rs) \<Rightarrow>
          and_then (strict_zip vs rs) (\<lambda>ps. and_then (propagate_all ps st) (analyze_block c ops l t)))"
| "analyze_block c (IfElse i cond th el rs # ops) l t st =
     and_then (analyze_block c th l (Some rs) st) (\<lambda>st.
     and_then (analyze_block c el l (Some rs) st) (analyze_block c ops l t))"
| "analyze_block c (EndBranch vs # ops) l t st =
     (case t of None \<Rightarrow> Inl AttributeError
      | Some rs \<Rightarrow> and_then (strict_zip vs rs) (\<lambda>ps. and_then (propagate_all ps st) (analyze_block c ops l t)))"
| "analyze_block c (Reduction i k xs params body rs # ops) l t st =
     and_then (analyze_block c body None (Some rs) (fold set_always_true params st)) (analyze_block c ops l t)"
| "analyze_block c (Return # ops) l t st = analyze_block c ops l t st"

partial_function (option) analyze_until_stable :: "ir_context \<Rightarrow> operation list \<Rightarrow> df_state \<Rightarrow> df_state res option" where
  "analyze_until_stable c ops st =
     (case analyze_block c ops None None st of
        Inl e \<Rightarrow> Some (Inl e)
      | Inr st' \<Rightarrow> if dirty st' then analyze_until_stable c ops (reset_dirty st') else Some (Inr st'))"

definition initial_state :: df_state where
  "initial_state = \<lparr>tracker = new_tracker, list_array_tracker = new_tracker\<rparr>"

text \<open>\<^verbatim>\<open>None\<close> is an analysis that never ends.\<close>

definition dataflow_analysis ::
  "ir_context \<Rightarrow> operation list \<Rightarrow> (var list \<times> ParameterConstraint) list \<Rightarrow> (var \<rightharpoonup> DataPredicate) res option" where
  "dataflow_analysis c ops parameter_constraints =
     (case fold_res register_param parameter_constraints (initial_state, new_mapper) of
        Inl e \<Rightarrow> Some (Inl e)
      | Inr (st, mp) \<Rightarrow>
          map_option (\<lambda>r. and_then r (\<lambda>st. Inr (predicates (tracker st)))) (analyze_until_stable c ops st))"

end
