(* ===== verification/DataflowTerm.thy ===== *)
theory DataflowTerm
  imports Dataflow
begin

text \<open>
  The iteration of the data-flow analysis ends: every round that leaves the state dirty has
  moved some predicate down a well-founded order. Divisors only shrink in divisibility,
  with zero on top; alias sets only gain bits out of a bounded range.
\<close>

section \<open>A well-founded measure of predicates\<close>

text \<open>Alias sets that fit a number of bits, the universe included.\<close>

definition fits :: "nat \<Rightarrow> int \<Rightarrow> bool" where
  "fits n a \<longleftrightarrow> signed_take_bit n a = a"

lemma fits_or: "fits n a \<Longrightarrow> fits n b \<Longrightarrow> fits n (a OR b)"
proof -
  have "signed_take_bit n (a OR b) = signed_take_bit n a OR signed_take_bit n b"
    by (rule bit_eqI) (auto simp: bit_signed_take_bit_iff bit_or_iff)
  then show "fits n a \<Longrightarrow> fits n b \<Longrightarrow> fits n (a OR b)" by (simp add: fits_def)
qed

lemma fits_universe [simp]: "fits n ALIAS_UNIVERSE"
  by (simp add: fits_def ALIAS_UNIVERSE_def)

lemma fits_mono: "fits m a \<Longrightarrow> m \<le> n \<Longrightarrow> fits n a"
  unfolding fits_def by (metis min_absorb1 signed_take_bit_signed_take_bit min.commute)

lemma fits_exists: "\<exists>n. fits n a"
proof -
  have "int (nat \<bar>a\<bar>) < int (2 ^ nat \<bar>a\<bar>)" unfolding of_nat_less_iff by (rule less_exp)
  then have "- (2 ^ nat \<bar>a\<bar>) \<le> a \<and> a < 2 ^ nat \<bar>a\<bar>" unfolding of_nat_power of_nat_numeral by linarith
  then have "fits (nat \<bar>a\<bar>) a" by (simp add: fits_def signed_take_bit_int_eq_self_iff)
  then show ?thesis by blast
qed

lemma fits_finite: "finite {a. fits n a}"
proof -
  have "{a. fits n a} \<subseteq> {- (2 ^ n) ..< 2 ^ n}" by (auto simp: fits_def signed_take_bit_int_eq_self_iff)
  then show ?thesis by (rule finite_subset) simp
qed

definition larger_sets :: "nat \<Rightarrow> int \<Rightarrow> int set" where
  "larger_sets n a = {b. fits n b \<and> a OR b = b}"

lemma larger_sets_less:
  assumes "fits n a" and "a OR b \<noteq> a"
  shows "card (larger_sets n (a OR b)) < card (larger_sets n a)"
proof (rule psubset_card_mono)
  show "finite (larger_sets n a)" by (rule finite_subset [OF _ fits_finite [of n]]) (auto simp: larger_sets_def)
  have "c \<in> larger_sets n a" if c: "c \<in> larger_sets n (a OR b)" for c
  proof -
    have e: "(a OR b) OR c = c" using c by (simp add: larger_sets_def)
    then have "a OR c = a OR ((a OR b) OR c)" by simp
    also have "\<dots> = (a OR b) OR c" by (simp add: or.assoc [symmetric])
    finally show ?thesis using c e by (simp add: larger_sets_def)
  qed
  moreover have "a \<in> larger_sets n a" using assms(1) by (simp add: larger_sets_def)
  moreover have "a \<notin> larger_sets n (a OR b)" using assms(2) by (simp add: larger_sets_def or.commute or.left_commute)
  ultimately show "larger_sets n (a OR b) \<subset> larger_sets n a" by blast
qed

definition pred_measure :: "nat \<Rightarrow> DataPredicate option \<Rightarrow> nat list" where
  "pred_measure n p =
     (case p of None \<Rightarrow> [1, 0, 0, 0, 0, 0]
      | Some p \<Rightarrow> [0, card (larger_sets n (alias_set p)), if div_by p = 0 then 1 else 0, nat \<bar>div_by p\<bar>,
                    if div_by p < 0 then 1 else 0, if may_alias p then 0 else 1])"

abbreviation less_measure :: "(nat list \<times> nat list) set" where
  "less_measure \<equiv> lex less_than"

lemma pred_measure_None: "(pred_measure n (Some p), pred_measure n None) \<in> less_measure"
  by (simp add: pred_measure_def)

lemma pred_measure_unify:
  assumes "fits n (alias_set p)" and "unify p q \<noteq> p"
  shows "(pred_measure n (Some (unify p q)), pred_measure n (Some p)) \<in> less_measure"
proof (cases "alias_set p OR alias_set q = alias_set p")
  case False
  then show ?thesis using larger_sets_less [OF assms(1) False] by (simp add: pred_measure_def unify_def)
next
  case same: True
  show ?thesis
  proof (cases "gcd (div_by p) (div_by q) = div_by p")
    case True
    with same assms(2) have "\<not> may_alias p \<and> may_alias q" by (cases p) (auto simp: unify_def)
    then show ?thesis using same True by (simp add: pred_measure_def unify_def)
  next
    case False
    consider "div_by p = 0" | "div_by p \<noteq> 0" "gcd (div_by p) (div_by q) < \<bar>div_by p\<bar>"
      | "div_by p < 0" "gcd (div_by p) (div_by q) = \<bar>div_by p\<bar>"
      using False gcd_le1_int [of "\<bar>div_by p\<bar>" "div_by q"] by (smt (verit) gcd_abs1_int)
    then show ?thesis
      by cases (use same False in \<open>auto simp: pred_measure_def unify_def\<close>)
  qed
qed

text \<open>Lists of measures, of which some positions decrease and the others stay.\<close>

lemma lex_pointwise:
  assumes "length ys = length xs" and "\<And>i. i < length xs \<Longrightarrow> ys ! i = xs ! i \<or> (ys ! i, xs ! i) \<in> r" and "ys \<noteq> xs"
  shows "(ys, xs) \<in> lex r"
  using assms
proof (induction xs arbitrary: ys)
  case (Cons x xs)
  then obtain y ys' where ys: "ys = y # ys'" by (cases ys) auto
  have h: "y = x \<or> (y, x) \<in> r" using Cons.prems(2) [of 0] ys by simp
  have t: "\<And>i. i < length xs \<Longrightarrow> ys' ! i = xs ! i \<or> (ys' ! i, xs ! i) \<in> r"
    using Cons.prems(2) [of "Suc _"] ys by simp
  show ?case
  proof (cases "(y, x) \<in> r")
    case True
    then show ?thesis using Cons.prems(1) ys by simp
  next
    case False
    then have "y = x" using h by simp
    then show ?thesis using Cons.IH [OF _ t] Cons.prems(1,3) ys by simp
  qed
qed simp

definition agg_measure :: "nat \<Rightarrow> nat \<Rightarrow> AggregatePredicate option \<Rightarrow> nat list list" where
  "agg_measure n k p =
     (case p of None \<Rightarrow> [1] # replicate k [0, 0, 0, 0, 0, 0]
      | Some items \<Rightarrow> [0] # map (\<lambda>i. pred_measure n (Some (agg_item items i))) [0..<k])"

definition agg_fits :: "nat \<Rightarrow> nat \<Rightarrow> AggregatePredicate \<Rightarrow> bool" where
  "agg_fits n k items \<longleftrightarrow> length items \<le> k \<and> (\<forall>p \<in> set items. fits n (alias_set p))"

lemma agg_item_fits: "agg_fits n k items \<Longrightarrow> fits n (alias_set (agg_item items i))"
  by (auto simp: agg_fits_def agg_item_def ALWAYS_TRUE_PREDICATE_def)

lemma unify_fits: "fits n (alias_set p) \<Longrightarrow> fits n (alias_set q) \<Longrightarrow> fits n (alias_set (unify p q))"
  by (simp add: unify_def fits_or)

lemma unify_true [simp]: "unify ALWAYS_TRUE_PREDICATE ALWAYS_TRUE_PREDICATE = ALWAYS_TRUE_PREDICATE"
  by (simp add: unify_def ALWAYS_TRUE_PREDICATE_def)

lemma agg_unify_item: "agg_item (agg_unify p q) i = unify (agg_item p i) (agg_item q i)"
  by (simp add: agg_item_def agg_unify_def)

lemma agg_unify_fits: "agg_fits n k p \<Longrightarrow> agg_fits n k q \<Longrightarrow> agg_fits n k (agg_unify p q)"
  using unify_fits [OF agg_item_fits agg_item_fits, of n k p k q]
  by (auto simp: agg_unify_def) (auto simp: agg_fits_def)

lemma agg_measure_None: "(agg_measure n k (Some p), agg_measure n k None) \<in> lex less_measure"
  unfolding agg_measure_def option.case append_Cons append_Nil Cons_in_lex by simp

lemma agg_measure_unify:
  assumes "agg_fits n k p" and "agg_fits n k q" and "\<not> agg_eq (agg_unify p q) p"
  shows "(agg_measure n k (Some (agg_unify p q)), agg_measure n k (Some p)) \<in> lex less_measure"
proof -
  let ?m = "\<lambda>items i. pred_measure n (Some (agg_item items i))"
  have step: "?m (agg_unify p q) i = ?m p i \<or> (?m (agg_unify p q) i, ?m p i) \<in> less_measure" for i
  proof (cases "unify (agg_item p i) (agg_item q i) = agg_item p i")
    case False
    from pred_measure_unify [OF agg_item_fits [OF assms(1)] False] show ?thesis by (simp only: agg_unify_item simp_thms)
  qed (simp add: agg_unify_item)
  obtain i where i: "i < max (length (agg_unify p q)) (length p)" "agg_item (agg_unify p q) i \<noteq> agg_item p i"
    using assms(3) by (auto simp: agg_eq_def list_all_iff)
  have k: "i < k" using i(1) assms(1,2) by (auto simp: agg_fits_def agg_unify_def)
  have "(?m (agg_unify p q) i, ?m p i) \<in> less_measure"
    unfolding agg_unify_item
    by (rule pred_measure_unify [OF agg_item_fits [OF assms(1)]]) (use i(2) in \<open>simp add: agg_unify_item\<close>)
  then have ne: "?m (agg_unify p q) i \<noteq> ?m p i" using wf_not_refl [OF wf_lex [OF wf_less_than]] by metis
  have "map (?m (agg_unify p q)) [0..<k] \<noteq> map (?m p) [0..<k]"
  proof
    assume "map (?m (agg_unify p q)) [0..<k] = map (?m p) [0..<k]"
    then have "map (?m (agg_unify p q)) [0..<k] ! i = map (?m p) [0..<k] ! i" by (rule arg_cong)
    then show False using ne k by (simp only: nth_map_upt add_0 diff_zero)
  qed
  then have "(map (?m (agg_unify p q)) [0..<k], map (?m p) [0..<k]) \<in> lex less_measure"
    using step by (intro lex_pointwise) (simp_all only: length_map length_upt nth_map_upt add_0 diff_zero not_False_eq_True)
  then show ?thesis unfolding agg_measure_def option.case append_Cons append_Nil Cons_in_lex by blast
qed

section \<open>Progress of the analysis\<close>

text \<open>The measure of a state, over the variables of the kernel.\<close>

definition state_measure :: "nat \<Rightarrow> nat \<Rightarrow> var list \<Rightarrow> df_state \<Rightarrow> nat list list" where
  "state_measure n k vs st =
     map (\<lambda>v. pred_measure n (predicates (tracker st) v)) vs
     @ concat (map (\<lambda>v. agg_measure n k (predicates (list_array_tracker st) v)) vs)"

definition state_fits :: "nat \<Rightarrow> nat \<Rightarrow> df_state \<Rightarrow> bool" where
  "state_fits n k st \<longleftrightarrow>
     (\<forall>v p. predicates (tracker st) v = Some p \<longrightarrow> fits n (alias_set p))
     \<and> (\<forall>v p. predicates (list_array_tracker st) v = Some p \<longrightarrow> agg_fits n k p)"

text \<open>A part of the analysis keeps the bounds, does not climb, and descends when it reports a change.\<close>

definition progresses :: "nat \<Rightarrow> nat \<Rightarrow> var list \<Rightarrow> df_state \<Rightarrow> df_state \<Rightarrow> bool" where
  "progresses n k vs st st' \<longleftrightarrow>
     (state_fits n k st \<longrightarrow> state_fits n k st'
      \<and> (state_measure n k vs st', state_measure n k vs st) \<in> (lex less_measure)\<^sup>=
      \<and> (dirty st' \<longrightarrow> dirty st \<or> (state_measure n k vs st', state_measure n k vs st) \<in> lex less_measure))"

lemma progresses_refl [simp]: "progresses n k vs st st"
  by (simp add: progresses_def)

lemma progresses_trans:
  assumes "progresses n k vs st st'" and "progresses n k vs st' st''"
  shows "progresses n k vs st st''"
proof -
  have "trans (lex less_measure)" by (intro lex_transI) (simp add: trans_def)
  then show ?thesis using assms unfolding progresses_def by (auto dest: transD)
qed

lemma replaced_measure:
  assumes "distinct vs" and "v \<in> set vs" and "(f' v, f v) \<in> r" and "\<And>w. w \<noteq> v \<Longrightarrow> f' w = f w"
  shows "(map f' vs, map f vs) \<in> lex r"
proof -
  obtain us ws where vs: "vs = us @ v # ws" using assms(2) by (meson split_list)
  then have "map f' us = map f us" "map f' ws = map f ws" using assms(1) unfolding vs by (auto intro!: assms(4))
  then show ?thesis using assms(3) by (simp add: vs lex_append_leftI del: map_eq_conv)
qed

lemma replaced_concat:
  assumes "distinct vs" and "v \<in> set vs" and "(f' v, f v) \<in> lex r" and "\<And>w. w \<noteq> v \<Longrightarrow> f' w = f w"
  shows "(concat (map f' vs), concat (map f vs)) \<in> lex r"
proof -
  obtain us ws where vs: "vs = us @ v # ws" using assms(2) by (meson split_list)
  then have "map f' us = map f us" "map f' ws = map f ws" using assms(1) unfolding vs by (auto intro!: assms(4))
  then show ?thesis using assms(3) by (simp add: vs lex_append_leftI lex_append_rightI del: map_eq_conv)
qed

lemma progresses_update_pred:
  assumes "distinct vs" and "v \<in> set vs" and "state_fits n k st \<Longrightarrow> fits n (alias_set p)"
  shows "progresses n k vs st (update_pred v p st)"
proof (cases "predicates (tracker st) v")
  case None
  let ?st = "st\<lparr>tracker := (tracker st)\<lparr>is_dirty := True, predicates := (predicates (tracker st))(v \<mapsto> p)\<rparr>\<rparr>"
  have st: "update_pred v p st = ?st" using None by (simp add: update_pred_def update_tracker_def)
  have "(map (\<lambda>v. pred_measure n (predicates (tracker ?st) v)) vs, map (\<lambda>v. pred_measure n (predicates (tracker st) v)) vs)
      \<in> lex less_measure"
    by (rule replaced_measure [OF assms(1,2)]) (simp_all add: None pred_measure_None)
  then have "(state_measure n k vs ?st, state_measure n k vs st) \<in> lex less_measure"
    by (simp add: state_measure_def lex_append_rightI)
  then show ?thesis using assms(3) by (auto simp: st progresses_def state_fits_def)
next
  case (Some old)
  show ?thesis
  proof (cases "unify old p = old")
    case True
    then have "update_pred v p st = st" using Some by (simp add: update_pred_def update_tracker_def Let_def)
    then show ?thesis by simp
  next
    case False
    let ?st = "st\<lparr>tracker := (tracker st)\<lparr>is_dirty := True, predicates := (predicates (tracker st))(v \<mapsto> unify old p)\<rparr>\<rparr>"
    have st: "update_pred v p st = ?st" using Some False by (simp add: update_pred_def update_tracker_def Let_def)
    show ?thesis
      unfolding progresses_def
    proof
      assume f: "state_fits n k st"
      then have o: "fits n (alias_set old)" using Some by (simp add: state_fits_def)
      have "(map (\<lambda>v. pred_measure n (predicates (tracker ?st) v)) vs, map (\<lambda>v. pred_measure n (predicates (tracker st) v)) vs)
          \<in> lex less_measure"
        by (rule replaced_measure [OF assms(1,2)]) (simp_all add: Some pred_measure_unify [OF o False])
      then have "(state_measure n k vs ?st, state_measure n k vs st) \<in> lex less_measure"
        by (simp add: state_measure_def lex_append_rightI)
      moreover have "state_fits n k ?st"
        using f unify_fits [OF o assms(3) [OF f]] by (auto simp: state_fits_def)
      ultimately show "state_fits n k (update_pred v p st)
          \<and> (state_measure n k vs (update_pred v p st), state_measure n k vs st) \<in> (lex less_measure)\<^sup>=
          \<and> (dirty (update_pred v p st) \<longrightarrow> dirty st \<or>
             (state_measure n k vs (update_pred v p st), state_measure n k vs st) \<in> lex less_measure)"
        unfolding st by blast
    qed
  qed
qed


lemma progresses_update_agg:
  assumes "distinct vs" and "v \<in> set vs" and "state_fits n k st \<Longrightarrow> agg_fits n k p"
  shows "progresses n k vs st (update_agg v p st)"
proof (cases "predicates (list_array_tracker st) v")
  case None
  let ?st = "st\<lparr>list_array_tracker := (list_array_tracker st)
      \<lparr>is_dirty := True, predicates := (predicates (list_array_tracker st))(v \<mapsto> p)\<rparr>\<rparr>"
  have st: "update_agg v p st = ?st" using None by (simp add: update_agg_def update_tracker_def)
  have "(concat (map (\<lambda>v. agg_measure n k (predicates (list_array_tracker ?st) v)) vs),
      concat (map (\<lambda>v. agg_measure n k (predicates (list_array_tracker st) v)) vs)) \<in> lex less_measure"
    by (rule replaced_concat [OF assms(1,2)]) (simp_all add: None agg_measure_None)
  then have "(state_measure n k vs ?st, state_measure n k vs st) \<in> lex less_measure"
    by (simp add: state_measure_def lex_append_leftI)
  then show ?thesis using assms(3) by (auto simp: st progresses_def state_fits_def)
next
  case (Some old)
  show ?thesis
  proof (cases "agg_eq (agg_unify old p) old")
    case True
    then have "update_agg v p st = st" using Some by (simp add: update_agg_def update_tracker_def Let_def)
    then show ?thesis by simp
  next
    case False
    let ?st = "st\<lparr>list_array_tracker := (list_array_tracker st)
        \<lparr>is_dirty := True, predicates := (predicates (list_array_tracker st))(v \<mapsto> agg_unify old p)\<rparr>\<rparr>"
    have st: "update_agg v p st = ?st" using Some False by (simp add: update_agg_def update_tracker_def Let_def)
    show ?thesis
      unfolding progresses_def
    proof
      assume f: "state_fits n k st"
      then have o: "agg_fits n k old" using Some by (simp add: state_fits_def)
      have "(concat (map (\<lambda>v. agg_measure n k (predicates (list_array_tracker ?st) v)) vs),
          concat (map (\<lambda>v. agg_measure n k (predicates (list_array_tracker st) v)) vs)) \<in> lex less_measure"
        by (rule replaced_concat [OF assms(1,2)]) (simp_all add: Some agg_measure_unify [OF o assms(3) [OF f] False])
      then have "(state_measure n k vs ?st, state_measure n k vs st) \<in> lex less_measure"
        by (simp add: state_measure_def lex_append_leftI)
      moreover have "state_fits n k ?st"
        using f agg_unify_fits [OF o assms(3) [OF f]] by (auto simp: state_fits_def)
      ultimately show "state_fits n k (update_agg v p st)
          \<and> (state_measure n k vs (update_agg v p st), state_measure n k vs st) \<in> (lex less_measure)\<^sup>=
          \<and> (dirty (update_agg v p st) \<longrightarrow> dirty st \<or>
             (state_measure n k vs (update_agg v p st), state_measure n k vs st) \<in> lex less_measure)"
        unfolding st by blast
    qed
  qed
qed

text \<open>The steps of the analysis, up to whole blocks.\<close>

definition advances :: "nat \<Rightarrow> nat \<Rightarrow> var list \<Rightarrow> (df_state \<Rightarrow> df_state res) \<Rightarrow> bool" where
  "advances n k vs f \<longleftrightarrow> (\<forall>st st'. f st = Inr st' \<longrightarrow> progresses n k vs st st')"

lemma advancesD: "advances n k vs f \<Longrightarrow> f st = Inr st' \<Longrightarrow> progresses n k vs st st'"
  by (simp add: advances_def)

lemma advances_Inr: "(\<And>st. progresses n k vs st (g st)) \<Longrightarrow> advances n k vs (\<lambda>st. Inr (g st))"
  by (auto simp: advances_def)

lemma advances_Inl [simp]: "advances n k vs (\<lambda>st. Inl e)"
  by (simp add: advances_def)

lemma advances_then: "advances n k vs f \<Longrightarrow> advances n k vs g \<Longrightarrow> advances n k vs (\<lambda>st. and_then (f st) g)"
  unfolding advances_def and_then_Inr_iff by (blast intro: progresses_trans)

lemma progresses_set_fact:
  assumes "distinct vs" and "v \<in> set vs" and "state_fits n k st \<Longrightarrow> fits n (alias_set p)"
  shows "progresses n k vs st (set_fact v p st)"
  unfolding set_fact_def
  by (rule progresses_trans [OF progresses_update_pred progresses_update_agg])
    (use assms in \<open>auto simp: agg_fits_def\<close>)

lemma progresses_set_true:
  "distinct vs \<Longrightarrow> set ws \<subseteq> set vs \<Longrightarrow> progresses n k vs st (fold set_always_true ws st)"
proof (induction ws arbitrary: st)
  case (Cons w ws)
  have "progresses n k vs st (set_always_true w st)"
    unfolding set_always_true_def
    by (rule progresses_set_fact) (use Cons.prems in \<open>simp_all add: ALWAYS_TRUE_PREDICATE_def\<close>)
  then show ?case using Cons progresses_trans by fastforce
qed simp

lemma tracker_item_fits: "tracker_item (tracker st) v = Inr p \<Longrightarrow> state_fits n k st \<Longrightarrow> fits n (alias_set p)"
  by (auto simp: tracker_item_def state_fits_def split: option.splits)

lemma list_item_fits: "tracker_item (list_array_tracker st) v = Inr p \<Longrightarrow> state_fits n k st \<Longrightarrow> agg_fits n k p"
  by (auto simp: tracker_item_def state_fits_def split: option.splits)

lemma update_pred_lists [simp]: "list_array_tracker (update_pred v p st) = list_array_tracker st"
  by (simp add: update_pred_def)

lemma advances_propagate:
  assumes "distinct vs" and "dst \<in> set vs"
  shows "advances n k vs (propagate src dst)"
  unfolding advances_def
proof (intro allI impI)
  fix st st' assume "propagate src dst st = Inr st'"
  then obtain p q where p: "tracker_item (tracker st) src = Inr p"
    and q: "tracker_item (list_array_tracker st) src = Inr q" and st': "st' = update_agg dst q (update_pred dst p st)"
    by (auto simp: propagate_def and_then_Inr_iff Let_def)
  have "progresses n k vs st (update_pred dst p st)"
    by (rule progresses_update_pred [OF assms]) (rule tracker_item_fits [OF p])
  moreover have "progresses n k vs (update_pred dst p st) st'"
    unfolding st' by (rule progresses_update_agg [OF assms]) (rule list_item_fits [of _ src], simp_all add: q)
  ultimately show "progresses n k vs st st'" by (rule progresses_trans)
qed

lemma advances_propagate_all:
  assumes "distinct vs" and "snd ` set ps \<subseteq> set vs"
  shows "advances n k vs (propagate_all ps)"
  using assms(2)
proof (induction ps)
  case (Cons p ps)
  then show ?case
    using advances_then [OF advances_propagate [OF assms(1), of "snd p" n k "fst p"] Cons.IH]
    by (cases p) (auto simp: propagate_all_def)
qed (simp add: propagate_all_def advances_def)

lemma flow_pairs_target:
  assumes "(x, d) \<in> set (flow_pairs for_loop (zip xs (zip bs rs)))"
  shows "d \<in> set bs \<union> set rs"
proof -
  obtain v b r where "(v, b, r) \<in> set (zip xs (zip bs rs))" "d = b \<or> d = r"
    using assms by (auto simp: flow_pairs_def split: if_splits)
  then have "(b, r) \<in> set (zip bs rs)" by (blast dest: set_zip_rightD)
  then show ?thesis using \<open>d = b \<or> d = r\<close> by (blast dest: set_zip_leftD set_zip_rightD)
qed

lemma advances_flow:
  assumes "distinct vs" and "set bs \<union> set rs \<subseteq> set vs"
  shows "advances n k vs (flow_to_loop for_loop xs bs rs)"
proof -
  have "advances n k vs (propagate_all (flow_pairs for_loop (zip xs (zip bs rs))))"
    by (rule advances_propagate_all [OF assms(1)]) (use assms(2) flow_pairs_target in fastforce)
  then show ?thesis by (auto simp: advances_def flow_to_loop_def strict_zip_def)
qed


lemma progresses_if_fits: "(state_fits n k st \<Longrightarrow> progresses n k vs st st') \<Longrightarrow> progresses n k vs st st'"
  by (auto simp: progresses_def)

lemma progresses_fold_items:
  assumes "distinct vs" and "snd ` set xs \<subseteq> set vs" and "agg_fits n k items"
  shows "progresses n k vs st (fold (\<lambda>(i, v). set_fact v (agg_item items i)) xs st)"
  using assms(2)
proof (induction xs arbitrary: st)
  case (Cons x xs)
  obtain i v where x: "x = (i, v)" by (cases x)
  have "progresses n k vs st (set_fact v (agg_item items i) st)"
    by (rule progresses_set_fact [OF assms(1)]) (use Cons.prems x agg_item_fits [OF assms(3)] in auto)
  then show ?case using Cons progresses_trans x by fastforce
qed simp

lemma result_var_in: "result_var rs = Inr r \<Longrightarrow> r \<in> set rs"
  by (auto simp: result_var_def split: list.splits)

lemma progresses_set_item:
  assumes "distinct vs" and "v \<in> set vs" and "tracker_item (tracker st) x = Inr p"
  shows "progresses n k vs st (set_fact v (p\<lparr>div_by := d\<rparr>) st)"
  by (rule progresses_set_fact [OF assms(1,2)]) (use tracker_item_fits [OF assms(3)] in simp)

lemma progresses_set_div:
  assumes "distinct vs" and "v \<in> set vs"
  shows "progresses n k vs st (set_fact v (ALWAYS_TRUE_PREDICATE\<lparr>div_by := d\<rparr>) st)"
  by (rule progresses_set_fact [OF assms]) (simp add: ALWAYS_TRUE_PREDICATE_def)

lemma progresses_set_always_true:
  assumes "distinct vs" and "v \<in> set vs"
  shows "progresses n k vs st (set_always_true v st)"
  unfolding set_always_true_def by (rule progresses_set_fact [OF assms]) (simp add: ALWAYS_TRUE_PREDICATE_def)

lemma advances_plain:
  assumes "distinct vs" and "set rs \<subseteq> set vs"
  shows "advances n k vs (analyze_plain c cl opnds rs)"
  unfolding advances_def
proof (intro allI impI)
  fix st st' assume a: "analyze_plain c cl opnds rs st = Inr st'"
  have r: "result_var rs = Inr r \<Longrightarrow> r \<in> set vs" for r using result_var_in assms(2) by blast
  note item = progresses_set_item [OF assms(1)] and divs = progresses_set_div [OF assms(1)]
    and true = progresses_set_always_true [OF assms(1)]
  have flow: "propagate x v st = Inr st' \<Longrightarrow> v \<in> set vs \<Longrightarrow> progresses n k vs st st'" for x v
    using advances_propagate [OF assms(1)] advancesD by blast
  note all = progresses_set_true [OF assms]
  show "progresses n k vs st st'"
  proof (cases cl)
    case (AssumeDivBy d)
    with a obtain x p v q where x: "tracker_item (tracker st) x = Inr p" "result_var rs = Inr v"
      "tracker_item (list_array_tracker st) x = Inr q" "st' = update_agg v q (update_pred v (p\<lparr>div_by := d\<rparr>) st)"
      by (auto simp: analyze_plain_def and_then_Inr_iff Let_def)
    have "progresses n k vs st (update_pred v (p\<lparr>div_by := d\<rparr>) st)"
      by (rule progresses_update_pred [OF assms(1) r [OF x(2)]]) (use tracker_item_fits [OF x(1)] in simp)
    moreover have "progresses n k vs (update_pred v (p\<lparr>div_by := d\<rparr>) st) st'"
      unfolding x(4) by (rule progresses_update_agg [OF assms(1) r [OF x(2)]]) (rule list_item_fits [of _ x], simp_all add: x(3))
    ultimately show ?thesis by (rule progresses_trans)
  next
    case GetArrayListItem
    with a obtain b items where i: "tracker_item (list_array_tracker st) b = Inr items"
      "st' = fold (\<lambda>(i, v). set_fact v (agg_item items i)) (List.enumerate 0 rs) st"
      by (auto simp: analyze_plain_def and_then_Inr_iff)
    have "snd ` set (List.enumerate 0 rs) \<subseteq> set vs" using assms(2) by (metis map_snd_enumerate set_map)
    then show ?thesis unfolding i(2)
      by - (rule progresses_if_fits, rule progresses_fold_items [OF assms(1)], assumption, rule list_item_fits [OF i(1)])
  next
    case PointerOffset
    with a obtain x p v d where x: "tracker_item (tracker st) x = Inr p" "result_var rs = Inr v"
      "st' = set_fact v (p\<lparr>div_by := d\<rparr>) st"
      by (auto simp: analyze_plain_def and_then_Inr_iff)
    then show ?thesis using item r by blast
  next
    case TileAsType
    with a obtain x p v d where x: "tracker_item (tracker st) x = Inr p" "result_var rs = Inr v"
      "st' = set_fact v (p\<lparr>div_by := d\<rparr>) st"
      by (auto simp: analyze_plain_def and_then_Inr_iff Let_def)
    then show ?thesis using item r by blast
  next
    case (TypedConst kc)
    with a show ?thesis using r divs true
      by (cases kc) (auto simp: analyze_plain_def and_then_Inr_iff)
  next
    case (RawBinaryArithmetic fn rm ftz)
    with a show ?thesis using r divs by (auto simp: analyze_plain_def and_then_Inr_iff)
  next
    case (Unary fn rm ftz)
    with a show ?thesis using r divs by (auto simp: analyze_plain_def and_then_Inr_iff)
  qed (use a r flow all in \<open>auto simp: analyze_plain_def and_then_Inr_iff\<close>)
qed

definition loop_vars :: "df_loop \<Rightarrow> var set" where
  "loop_vars l = (case l of None \<Rightarrow> {} | Some (for_loop, bs, rs) \<Rightarrow> set bs \<union> set rs)"

definition branch_vars :: "var list option \<Rightarrow> var set" where
  "branch_vars t = (case t of None \<Rightarrow> {} | Some rs \<Rightarrow> set rs)"

lemma body_vars_subset: "set (body_vars rng params) \<subseteq> set params"
  by (cases params) (auto simp: body_vars_def)

lemma advances_targets:
  assumes "distinct vs" and "set rs \<subseteq> set vs"
  shows "advances n k vs (\<lambda>st. and_then (strict_zip xs rs) (\<lambda>ps. propagate_all ps st))"
proof -
  have "advances n k vs (propagate_all (zip xs rs))"
    by (rule advances_propagate_all [OF assms(1)]) (use assms(2) in \<open>auto dest: set_zip_rightD\<close>)
  then show ?thesis by (auto simp: advances_def strict_zip_def)
qed

lemma advances_block:
  assumes "distinct vs"
  shows "set (all_defs ops) \<union> loop_vars l \<union> branch_vars t \<subseteq> set vs \<Longrightarrow> advances n k vs (analyze_block c ops l t)"
proof (induction ops arbitrary: l t rule: all_defs.induct)
  case 1
  then show ?case by (simp add: advances_def)
next
  case (2 cl opnds rs ops)
  have "advances n k vs (\<lambda>st. and_then (analyze_plain c cl opnds rs st) (analyze_block c ops l t))"
    by (rule advances_then [OF advances_plain [OF assms] "2.IH"]) (use "2.prems" in auto)
  then show ?case by (simp add: advances_def)
next
  case (3 i rng inits params body rs ops)
  have d: "set params \<union> set (all_defs body) \<union> set rs \<union> set (all_defs ops) \<union> loop_vars l \<union> branch_vars t \<subseteq> set vs"
    using "3.prems" by auto
  have "advances n k vs (set_induction_var rng params)"
    unfolding advances_def set_induction_var_def
    using d progresses_set_always_true [OF assms] by (auto split: list.splits if_splits)
  moreover have "advances n k vs (flow_to_loop (is_for_loop rng) inits (body_vars rng params) rs)"
    by (rule advances_flow [OF assms]) (use d body_vars_subset [of rng params] in auto)
  moreover have "advances n k vs (analyze_block c body (Some (is_for_loop rng, body_vars rng params, rs)) None)"
    by (rule "3.IH"(1)) (use d body_vars_subset [of rng params] in \<open>auto simp: loop_vars_def branch_vars_def\<close>)
  moreover have "advances n k vs (analyze_block c ops l t)" by (rule "3.IH"(2)) (use d in auto)
  ultimately show ?case unfolding analyze_block.simps by (intro advances_then)
next
  case (4 i cond th el rs ops)
  have "advances n k vs (analyze_block c th l (Some rs))" "advances n k vs (analyze_block c el l (Some rs))"
    "advances n k vs (analyze_block c ops l t)"
    by (rule "4.IH"; use "4.prems" in \<open>auto simp: branch_vars_def\<close>)+
  then show ?case unfolding analyze_block.simps by (intro advances_then)
next
  case (5 i kk xs params body rs ops)
  have "advances n k vs (\<lambda>st. Inr (fold set_always_true params st))"
    by (rule advances_Inr, rule progresses_set_true [OF assms]) (use "5.prems" in auto)
  moreover have "advances n k vs (analyze_block c body None (Some rs))" "advances n k vs (analyze_block c ops l t)"
    by (rule "5.IH"; use "5.prems" in \<open>auto simp: branch_vars_def loop_vars_def\<close>)+
  ultimately have "advances n k vs (\<lambda>st. and_then (Inr (fold set_always_true params st))
      (\<lambda>st. and_then (analyze_block c body None (Some rs) st) (analyze_block c ops l t)))"
    by (intro advances_then)
  then show ?case by (simp add: advances_def)
next
  case (6 xs ops)
  then show ?case
    by (cases l) (auto simp: loop_vars_def intro!: advances_then advances_flow [OF assms])
next
  case (7 xs ops)
  then have "advances n k vs (analyze_block c ops l t)" by simp
  then show ?case
    using "7.prems" advances_then [OF advances_targets [OF assms], of _ n k "analyze_block c ops l t" xs]
    by (cases l) (auto simp: loop_vars_def and_then_assoc)
next
  case (8 xs ops)
  then have "advances n k vs (analyze_block c ops l t)" by simp
  then show ?case
    using "8.prems" advances_then [OF advances_targets [OF assms], of _ n k "analyze_block c ops l t" xs]
    by (cases t) (auto simp: branch_vars_def and_then_assoc)
next
  case (9 ops)
  then have "advances n k vs (analyze_block c ops l t)" by simp
  then show ?case by (simp add: advances_def)
qed


section \<open>Termination\<close>

lemma reset_dirty_simps [simp]:
  "\<not> dirty (reset_dirty st)" "predicates (tracker (reset_dirty st)) = predicates (tracker st)"
  "predicates (list_array_tracker (reset_dirty st)) = predicates (list_array_tracker st)"
  by (simp_all add: dirty_def reset_dirty_def)

lemma reset_dirty_measure [simp]:
  "state_measure n k vs (reset_dirty st) = state_measure n k vs st" "state_fits n k (reset_dirty st) = state_fits n k st"
  by (simp_all add: state_measure_def state_fits_def)

lemma analyze_clean_ends:
  assumes "distinct vs" and "set (all_defs ops) \<subseteq> set vs"
  shows "state_fits n k st \<Longrightarrow> \<not> dirty st \<Longrightarrow> \<exists>r. analyze_until_stable c ops st = Some r"
proof (induction st rule: wf_induct_rule [OF wf_inv_image [OF wf_lex [OF wf_lex [OF wf_less_than]], of "state_measure n k vs"]])
  case (1 st)
  show ?case
  proof (cases "analyze_block c ops None None st")
    case (Inl e)
    then show ?thesis by (simp add: analyze_until_stable.simps [of c ops st])
  next
    case (Inr st')
    have p: "progresses n k vs st st'"
      by (rule advancesD [OF advances_block [OF assms(1)] Inr]) (use assms(2) in \<open>simp add: loop_vars_def branch_vars_def\<close>)
    show ?thesis
    proof (cases "dirty st'")
      case True
      with p 1(2,3) have "(reset_dirty st', st) \<in> inv_image (lex less_measure) (state_measure n k vs)"
        and "state_fits n k (reset_dirty st')"
        by (auto simp: progresses_def)
      then have "\<exists>r. analyze_until_stable c ops (reset_dirty st') = Some r" by (intro 1(1)) auto
      then show ?thesis using Inr True by (simp add: analyze_until_stable.simps [of c ops st])
    next
      case False
      then show ?thesis using Inr by (simp add: analyze_until_stable.simps [of c ops st])
    qed
  qed
qed

lemma analyze_ends:
  assumes "state_fits n k st"
  shows "\<exists>r. analyze_until_stable c ops st = Some r"
proof (cases "analyze_block c ops None None st")
  case (Inl e)
  then show ?thesis by (simp add: analyze_until_stable.simps [of c ops st])
next
  case (Inr st')
  let ?vs = "remdups (all_defs ops)"
  have vs: "distinct ?vs" "set (all_defs ops) \<subseteq> set ?vs" by simp_all
  have "progresses n k ?vs st st'"
    by (rule advancesD [OF advances_block [OF vs(1)] Inr]) (simp add: loop_vars_def branch_vars_def)
  then have "state_fits n k (reset_dirty st')" using assms by (simp add: progresses_def)
  then have "\<exists>r. analyze_until_stable c ops (reset_dirty st') = Some r" by (rule analyze_clean_ends [OF vs]) simp
  then show ?thesis using Inr by (simp add: analyze_until_stable.simps [of c ops st])
qed

text \<open>The registered parameters are finitely many, so some bounds fit.\<close>

definition finite_state :: "df_state \<Rightarrow> bool" where
  "finite_state st \<longleftrightarrow> finite (dom (predicates (tracker st))) \<and> finite (dom (predicates (list_array_tracker st)))"

lemma finite_state_update [simp]:
  "finite_state st \<Longrightarrow> finite_state (update_pred v p st)"
  "finite_state st \<Longrightarrow> finite_state (update_agg v q st)"
  "finite_state st \<Longrightarrow> finite_state (set_fact v p st)"
  "finite_state st \<Longrightarrow> finite_state (set_always_true v st)"
  by (auto simp: finite_state_def update_pred_def update_agg_def update_tracker_def Let_def set_fact_def
      set_always_true_def split: option.splits)

lemma finite_state_fold: "finite_state st \<Longrightarrow> finite_state (fold (\<lambda>(v, p). set_fact v p) ps st)"
  by (induction ps arbitrary: st) auto

lemma finite_state_leaf:
  "register_leaf_param constraint vars (st, mp) = Inr (st', mp') \<Longrightarrow> finite_state st \<Longrightarrow> finite_state st'"
  by (auto simp: register_leaf_param_def and_then_Inr_iff finite_state_fold
      split: ParameterConstraint.splits list.splits prod.splits)

lemma finite_state_list:
  "register_list_param a gs b x y (st, mp) = Inr (st', mp') \<Longrightarrow> finite_state st \<Longrightarrow> finite_state st'"
  by (auto simp: register_list_param_def and_then_Inr_iff split: prod.splits)

lemma finite_state_tuple:
  "register_tuple_params items flat offset (st, mp) = Inr (off', st', mp') \<Longrightarrow> finite_state st \<Longrightarrow> finite_state st'"
proof (induction items flat offset "(st, mp)" arbitrary: st mp off' st' mp' rule: register_tuple_params.induct)
  case (4 nested items flat offset)
  then show ?case by (fastforce simp: and_then_Inr_iff)
qed (fastforce simp: and_then_Inr_iff Let_def dest: finite_state_leaf finite_state_list split: if_splits)+

lemma finite_state_params:
  "fold_res register_param ps (st, mp) = Inr (st', mp') \<Longrightarrow> finite_state st \<Longrightarrow> finite_state st'"
proof (induction ps arbitrary: st mp)
  case (Cons p ps)
  then obtain st1 mp1 where s: "register_param p (st, mp) = Inr (st1, mp1)"
    "fold_res register_param ps (st1, mp1) = Inr (st', mp')" by (auto simp: and_then_Inr_iff)
  have "finite_state st1"
    using s(1) Cons.prems(2) finite_state_leaf finite_state_list finite_state_tuple
    by (fastforce simp: register_param_def and_then_Inr_iff split: ParameterConstraint.splits list.splits prod.splits)
  then show ?case using Cons.IH s(2) by blast
qed simp

lemma finite_state_fits:
  assumes "finite_state st"
  shows "\<exists>n k. state_fits n k st"
proof -
  define P where "P = ran (predicates (tracker st)) \<union> \<Union> (set ` ran (predicates (list_array_tracker st)))"
  have fin: "finite P" using assms by (auto simp: P_def finite_state_def finite_ran)
  have "\<exists>n. \<forall>p \<in> P. fits n (alias_set p)"
    using fin
  proof induction
    case (insert p P)
    then obtain m n where "fits m (alias_set p)" "\<forall>p \<in> P. fits n (alias_set p)" using fits_exists by metis
    then show ?case by (intro exI [of _ "max m n"]) (auto intro: fits_mono)
  qed simp
  then obtain n where n: "\<forall>p \<in> P. fits n (alias_set p)" ..
  have "finite (length ` ran (predicates (list_array_tracker st)))" using assms by (simp add: finite_state_def finite_ran)
  then obtain k where k: "\<forall>l \<in> length ` ran (predicates (list_array_tracker st)). l \<le> k"
    by (meson finite_nat_set_iff_bounded_le)
  have "state_fits n k st"
    using n k by (auto simp: state_fits_def agg_fits_def P_def ran_def)
  then show ?thesis by blast
qed

text \<open>
  C10. The data-flow analysis always ends: for every kernel and every list of parameter
  constraints the rounds stop, with the predicates or with an exception, although each
  product of divisors may be larger than both.
\<close>

theorem dataflow_analysis_terminates:
  "\<exists>r. dataflow_analysis c ops parameter_constraints = Some r"
proof (cases "fold_res register_param parameter_constraints (initial_state, new_mapper)")
  case (Inl e)
  then show ?thesis by (simp add: dataflow_analysis_def)
next
  case (Inr sm)
  then obtain st mp where sm: "fold_res register_param parameter_constraints (initial_state, new_mapper) = Inr (st, mp)"
    by (cases sm) auto
  have "finite_state initial_state" by (simp add: initial_state_def new_tracker_def finite_state_def)
  then have "finite_state st" using finite_state_params [OF sm] by blast
  then obtain n k where "state_fits n k st" using finite_state_fits by blast
  then obtain r where "analyze_until_stable c ops st = Some r" using analyze_ends by blast
  then show ?thesis using sm by (simp add: dataflow_analysis_def)
qed

end
