(* ===== verification/DataflowAlias.thy ===== *)
theory DataflowAlias
  imports Dataflow
begin

text \<open>
  The alias sets of the kernel parameters: two of them have a bit in common exactly when the
  parameters have an alias group in common, which is what the documentation of
  \<^verbatim>\<open>alias_groups\<close> promises.
\<close>

text \<open>The alias sets of a sequence of parameters, as the registration asks for them.\<close>

fun alias_sets :: "string list list \<Rightarrow> alias_mapper \<Rightarrow> int list" where
  "alias_sets [] mp = []"
| "alias_sets (gs # gss) mp = (let (a, mp) = map_alias_groups (Some gs) mp in a # alias_sets gss mp)"

text \<open>Distinct groups have distinct bits, below the next one.\<close>

definition bit_of_group :: "alias_mapper \<Rightarrow> string \<Rightarrow> nat \<Rightarrow> bool" where
  "bit_of_group mp g k \<longleftrightarrow> mapping mp g = Some (2 ^ k)"

definition mapper_ok :: "alias_mapper \<Rightarrow> bool" where
  "mapper_ok mp \<longleftrightarrow>
     (\<forall>g b. mapping mp g = Some b \<longrightarrow> (\<exists>k < next_bit mp. b = 2 ^ k))
     \<and> (\<forall>g h k. bit_of_group mp g k \<longrightarrow> bit_of_group mp h k \<longrightarrow> g = h)"

text \<open>A later mapper keeps the bits and gives new groups only new bits.\<close>

definition mapper_grows :: "alias_mapper \<Rightarrow> alias_mapper \<Rightarrow> bool" where
  "mapper_grows mp mp' \<longleftrightarrow>
     next_bit mp \<le> next_bit mp'
     \<and> (\<forall>g k. bit_of_group mp g k \<longrightarrow> bit_of_group mp' g k)
     \<and> (\<forall>g k. k < next_bit mp \<longrightarrow> bit_of_group mp' g k \<longrightarrow> bit_of_group mp g k)"

lemma mapper_grows_refl [simp]: "mapper_grows mp mp"
  by (simp add: mapper_grows_def)

lemma mapper_grows_trans: "mapper_grows a b \<Longrightarrow> mapper_grows b c \<Longrightarrow> mapper_grows a c"
  unfolding mapper_grows_def by (meson order.strict_trans2 order.trans)

lemma bit_two_power: "bit ((2 :: int) ^ k) j \<longleftrightarrow> j = k"
  by (auto simp: bit_exp_iff)

lemma bit_of_group_below: "mapper_ok mp \<Longrightarrow> bit_of_group mp g k \<Longrightarrow> k < next_bit mp"
  by (force simp: mapper_ok_def bit_of_group_def)

lemma group_bit_new:
  assumes ok: "mapper_ok mp" and None: "mapping mp g = None"
    and mp': "mp' = mp\<lparr>next_bit := next_bit mp + 1, mapping := (mapping mp)(g \<mapsto> 2 ^ next_bit mp)\<rparr>"
  shows "mapper_ok mp'" and "mapper_grows mp mp'"
proof -
  have bits: "bit_of_group mp' h k \<longleftrightarrow> (if h = g then k = next_bit mp else bit_of_group mp h k)" for h k
    by (auto simp: bit_of_group_def mp')
  have range: "mapping mp' h = Some b \<Longrightarrow> \<exists>k < next_bit mp'. b = 2 ^ k" for h b
    using ok unfolding mapper_ok_def by (auto simp: mp' less_Suc_eq split: if_splits)
  have "bit_of_group mp' h k \<Longrightarrow> bit_of_group mp' i k \<Longrightarrow> h = i" for h i k
    using ok bit_of_group_below [OF ok] unfolding mapper_ok_def bits by (auto split: if_splits)
  then show "mapper_ok mp'" using range unfolding mapper_ok_def by blast
  show "mapper_grows mp mp'"
    using None unfolding mapper_grows_def bits by (auto simp: mp' bit_of_group_def)
qed

lemma group_bit_ok:
  assumes "mapper_ok mp" and "group_bit g mp = (b, mp')"
  shows "mapper_ok mp' \<and> mapper_grows mp mp' \<and> (\<exists>k. b = 2 ^ k \<and> bit_of_group mp' g k)"
proof (cases "mapping mp g")
  case None
  then have mp': "mp' = mp\<lparr>next_bit := next_bit mp + 1, mapping := (mapping mp)(g \<mapsto> 2 ^ next_bit mp)\<rparr>"
    and b: "b = 2 ^ next_bit mp"
    using assms(2) by (auto simp: group_bit_def)
  then have "\<exists>k. b = 2 ^ k \<and> bit_of_group mp' g k" by (auto simp: bit_of_group_def)
  then show "mapper_ok mp' \<and> mapper_grows mp mp' \<and> (\<exists>k. b = 2 ^ k \<and> bit_of_group mp' g k)"
    using group_bit_new [OF assms(1) None mp'] by blast
next
  case (Some c)
  then have "mp' = mp" "b = c" using assms(2) by (auto simp: group_bit_def)
  then show "mapper_ok mp' \<and> mapper_grows mp mp' \<and> (\<exists>k. b = 2 ^ k \<and> bit_of_group mp' g k)"
    using assms(1) Some by (auto simp: mapper_ok_def bit_of_group_def)
qed

lemma group_bits_ok:
  assumes "mapper_ok mp" and "group_bits gs r mp = (a, mp')"
  shows "mapper_ok mp' \<and> mapper_grows mp mp'
    \<and> (\<forall>k. bit a k \<longleftrightarrow> bit r k \<or> (\<exists>g \<in> set gs. bit_of_group mp' g k))
    \<and> (\<forall>g \<in> set gs. \<exists>k. bit_of_group mp' g k)"
  using assms
proof (induction gs arbitrary: r mp)
  case (Cons g gs)
  obtain b mp1 where b: "group_bit g mp = (b, mp1)" by fastforce
  note g = group_bit_ok [OF Cons.prems(1) b]
  obtain j where j: "b = 2 ^ j" "bit_of_group mp1 g j" using g by blast
  have rest: "group_bits gs (r OR b) mp1 = (a, mp')" using Cons.prems(2) b by simp
  from Cons.IH [OF conjunct1 [OF g] rest] have ih: "mapper_ok mp'" "mapper_grows mp1 mp'"
    "\<And>k. bit a k \<longleftrightarrow> bit (r OR b) k \<or> (\<exists>g \<in> set gs. bit_of_group mp' g k)"
    "\<forall>g \<in> set gs. \<exists>k. bit_of_group mp' g k" by blast+
  have gj: "bit_of_group mp' g j" using ih(2) j by (auto simp: mapper_grows_def)
  have "bit_of_group mp' g k \<longleftrightarrow> k = j" for k
    using gj by (auto simp: bit_of_group_def)
  then have "bit a k \<longleftrightarrow> bit r k \<or> (\<exists>h \<in> set (g # gs). bit_of_group mp' h k)" for k
    using ih(3) [of k] by (auto simp: bit_or_iff j(1) bit_two_power)
  then show ?case using ih(1,2,4) mapper_grows_trans [of mp mp1 mp'] g gj by auto
qed auto

lemma map_alias_groups_ok:
  assumes "mapper_ok mp" and "map_alias_groups (Some gs) mp = (a, mp')"
  shows "mapper_ok mp' \<and> mapper_grows mp mp'
    \<and> (gs \<noteq> [] \<longrightarrow> bit a k = (\<exists>g \<in> set gs. bit_of_group mp' g k)) \<and> (gs = [] \<longrightarrow> bit a k = (k = next_bit mp))
    \<and> (gs = [] \<longrightarrow> next_bit mp < next_bit mp' \<and> (\<forall>g. \<not> bit_of_group mp' g (next_bit mp)))
    \<and> (\<forall>g \<in> set gs. \<exists>k. bit_of_group mp' g k)"
proof (cases gs)
  case Nil
  then have a: "a = 2 ^ next_bit mp" "mp' = mp\<lparr>next_bit := next_bit mp + 1\<rparr>"
    using assms(2) by (simp_all add: map_alias_groups_def)
  have same: "bit_of_group mp' g k \<longleftrightarrow> bit_of_group mp g k" for g k by (simp add: a(2) bit_of_group_def)
  have "mapper_ok mp'" using assms(1) unfolding mapper_ok_def same by (auto simp: a(2) less_Suc_eq)
  moreover have "mapper_grows mp mp'" unfolding mapper_grows_def same by (simp add: a(2))
  moreover have "\<not> bit_of_group mp' g (next_bit mp)" for g
    using bit_of_group_below [OF assms(1)] unfolding same by blast
  ultimately show "mapper_ok mp' \<and> mapper_grows mp mp'
    \<and> (gs \<noteq> [] \<longrightarrow> bit a k = (\<exists>g \<in> set gs. bit_of_group mp' g k)) \<and> (gs = [] \<longrightarrow> bit a k = (k = next_bit mp))
    \<and> (gs = [] \<longrightarrow> next_bit mp < next_bit mp' \<and> (\<forall>g. \<not> bit_of_group mp' g (next_bit mp)))
    \<and> (\<forall>g \<in> set gs. \<exists>k. bit_of_group mp' g k)"
    using Nil by (simp add: a bit_two_power)
next
  case (Cons h hs)
  then have "group_bits gs 0 mp = (a, mp')"
    using assms(2) by (simp add: map_alias_groups_def)
  from group_bits_ok [OF assms(1) this] show "mapper_ok mp' \<and> mapper_grows mp mp'
    \<and> (gs \<noteq> [] \<longrightarrow> bit a k = (\<exists>g \<in> set gs. bit_of_group mp' g k)) \<and> (gs = [] \<longrightarrow> bit a k = (k = next_bit mp))
    \<and> (gs = [] \<longrightarrow> next_bit mp < next_bit mp' \<and> (\<forall>g. \<not> bit_of_group mp' g (next_bit mp)))
    \<and> (\<forall>g \<in> set gs. \<exists>k. bit_of_group mp' g k)"
    using Cons by simp
qed

lemmas map_alias_groups_facts =
  map_alias_groups_ok [THEN conjunct1]
  map_alias_groups_ok [THEN conjunct2, THEN conjunct1]
  map_alias_groups_ok [THEN conjunct2, THEN conjunct2, THEN conjunct1, rule_format]
  map_alias_groups_ok [THEN conjunct2, THEN conjunct2, THEN conjunct2, THEN conjunct1, rule_format]
  map_alias_groups_ok [THEN conjunct2, THEN conjunct2, THEN conjunct2, THEN conjunct2, THEN conjunct1, rule_format]
  map_alias_groups_ok [THEN conjunct2, THEN conjunct2, THEN conjunct2, THEN conjunct2, THEN conjunct2]

text \<open>A later alias set, seen through the bits in use now.\<close>

lemma alias_sets_bits:
  assumes "mapper_ok mp" and "j < length gss" and "k < next_bit mp"
  shows "bit (alias_sets gss mp ! j) k \<longleftrightarrow> (\<exists>g \<in> set (gss ! j). bit_of_group mp g k)"
  using assms
proof (induction gss arbitrary: mp j)
  case (Cons gs gss)
  obtain a mp1 where a: "map_alias_groups (Some gs) mp = (a, mp1)" by fastforce
  note m = map_alias_groups_facts [OF Cons.prems(1) a]
  have now: "bit_of_group mp1 g k \<longleftrightarrow> bit_of_group mp g k" for g
    using m(2) Cons.prems(3) by (auto simp: mapper_grows_def)
  have k: "k < next_bit mp1" using m(2) Cons.prems(3) by (simp add: mapper_grows_def)
  show ?case
  proof (cases j)
    case 0
    show ?thesis
    proof (cases "gs = []")
      case True
      then show ?thesis using m(4) [of k] Cons.prems(3) 0 a by simp
    next
      case False
      then show ?thesis using m(3) [of k] 0 a now k by simp
    qed
  next
    case (Suc i)
    then show ?thesis using Cons.IH [OF m(1), of i] Cons.prems(2) a now k by simp
  qed
qed simp

lemma alias_sets_overlap:
  assumes "mapper_ok mp" and "i < j" and "j < length gss"
  shows "(\<exists>k. bit (alias_sets gss mp ! i) k \<and> bit (alias_sets gss mp ! j) k) \<longleftrightarrow> set (gss ! i) \<inter> set (gss ! j) \<noteq> {}"
  using assms
proof (induction gss arbitrary: mp i j)
  case (Cons gs gss)
  obtain a mp1 where a: "map_alias_groups (Some gs) mp = (a, mp1)" by fastforce
  note m = map_alias_groups_facts [OF Cons.prems(1) a]
  obtain j' where j: "j = Suc j'" "j' < length gss" using Cons.prems(2,3) by (cases j) auto
  note later = alias_sets_bits [OF m(1) j(2)]
  show ?case
  proof (cases i)
    case 0
    show ?thesis
    proof (cases "gs = []")
      case True
      have "\<not> bit (alias_sets gss mp1 ! j') (next_bit mp)" using later [of "next_bit mp"] m(5) [OF True] by blast
      then show ?thesis using m(4) [OF True] True 0 j a by simp
    next
      case False
      have inj: "bit_of_group mp1 g k \<Longrightarrow> bit_of_group mp1 h k \<Longrightarrow> g = h" for g h k
        using m(1) by (auto simp: mapper_ok_def bit_of_group_def)
      have ex: "\<exists>k < next_bit mp1. bit_of_group mp1 g k" if "g \<in> set gs" for g
        using that m(6) bit_of_group_below [OF m(1)] by blast
      have now: "bit a k \<longleftrightarrow> (\<exists>g \<in> set gs. bit_of_group mp1 g k)" for k using m(3) [OF False] .
      have "(\<exists>k. bit a k \<and> bit (alias_sets gss mp1 ! j') k) \<longleftrightarrow> set gs \<inter> set (gss ! j') \<noteq> {}" (is "?l \<longleftrightarrow> ?r")
      proof
        assume ?l
        then obtain g k where "g \<in> set gs" "bit_of_group mp1 g k" "bit (alias_sets gss mp1 ! j') k" using now by blast
        then show ?r using later [of k] bit_of_group_below [OF m(1)] inj by blast
      next
        assume ?r
        then obtain g where "g \<in> set gs" "g \<in> set (gss ! j')" by blast
        then show ?l using ex [of g] now later by blast
      qed
      then show ?thesis using 0 j a by simp
    qed
  next
    case (Suc i')
    then show ?thesis using Cons.IH [OF m(1), of i' j'] Cons.prems(2) j a by simp
  qed
qed simp

lemma and_zero_bits: "(a :: int) AND b = 0 \<longleftrightarrow> (\<forall>k. \<not> (bit a k \<and> bit b k))"
  by (simp add: bit_eq_iff bit_and_iff)

lemma new_mapper_ok: "mapper_ok new_mapper"
  by (simp add: mapper_ok_def new_mapper_def bit_of_group_def)

text \<open>
  C11. Whatever sequence of alias group lists the mapper is asked about, two of the alias sets it
  returns are disjoint as bit sets exactly when their lists have no group in common; a parameter
  without a group aliases no other one. So the analysis never takes two parameters that may alias
  for independent, nor the converse.
\<close>

theorem alias_sets_exact:
  assumes "i < length gss" and "j < length gss" and "i \<noteq> j"
  shows "alias_sets gss new_mapper ! i AND alias_sets gss new_mapper ! j = 0 \<longleftrightarrow> set (gss ! i) \<inter> set (gss ! j) = {}"
proof (cases "i < j")
  case True
  then show ?thesis using alias_sets_overlap [OF new_mapper_ok True assms(2)] unfolding and_zero_bits by blast
next
  case False
  then have "j < i" using assms(3) by simp
  then show ?thesis using alias_sets_overlap [OF new_mapper_ok _ assms(1), of j] unfolding and_zero_bits by blast
qed

lemma alias_sets_exact_witness:
  "alias_sets [[''a'', ''b''], [], [''c'', ''b'']] new_mapper ! 0 AND alias_sets [[''a'', ''b''], [], [''c'', ''b'']] new_mapper ! 2 \<noteq> 0"
  using alias_sets_exact [of 0 "[[''a'', ''b''], [], [''c'', ''b'']]" 2] by simp

end
