(* ===== verification/DataflowSound.thy ===== *)
theory DataflowSound
  imports Dataflow
begin

text \<open>
  What the data-flow analysis says of the values of a run. A state in which a further round
  changes nothing relates the divisors of the variables as the operations relate their values;
  this is shown for single operations here, for blocks where the divisors are used.
\<close>

section \<open>Steps of the analysis\<close>

text \<open>
  Whatever relates the states before and after one update, and can be chained, relates the
  states before and after a block.
\<close>

locale analysis_order =
  fixes R :: "df_state \<Rightarrow> df_state \<Rightarrow> bool"
  assumes refl [simp]: "R st st"
    and trans: "R a b \<Longrightarrow> R b c \<Longrightarrow> R a c"
    and update_pred [simp]: "R st (update_pred v p st)"
    and update_agg [simp]: "R st (update_agg v q st)"
begin

lemma both [simp]: "R st (update_agg v q (update_pred w p st))"
  by (meson trans update_pred update_agg)

lemma set_fact [simp]: "R st (set_fact v p st)"
  by (simp add: set_fact_def)

lemma set_always_true [simp]: "R st (set_always_true v st)"
  by (simp add: set_always_true_def)

lemma fold: "(\<And>x st. R st (f x st)) \<Longrightarrow> R st (fold f xs st)"
  by (induction xs arbitrary: st) (auto intro: trans)

lemma fold_res:
  "(\<And>x st st'. f x st = Inr st' \<Longrightarrow> R st st') \<Longrightarrow> fold_res f xs st = Inr st' \<Longrightarrow> R st st'"
proof (induction xs arbitrary: st)
  case (Cons x xs)
  then obtain a where "f x st = Inr a" "fold_res f xs a = Inr st'" by (auto simp: and_then_Inr_iff)
  then show ?case using Cons.IH Cons.prems(1) trans by blast
qed simp

lemma propagate: "propagate a b st = Inr st' \<Longrightarrow> R st st'"
  by (auto simp: propagate_def and_then_Inr_iff Let_def)

lemma propagate_all: "propagate_all xs st = Inr st' \<Longrightarrow> R st st'"
  unfolding propagate_all_def by (rule fold_res) (auto dest: propagate)

lemma flow: "flow_to_loop f vs bs rs st = Inr st' \<Longrightarrow> R st st'"
  by (auto simp: flow_to_loop_def and_then_Inr_iff dest: propagate_all)

lemma induction_var: "set_induction_var rng params st = Inr st' \<Longrightarrow> R st st'"
  by (auto simp: set_induction_var_def split: if_splits list.splits)

lemma plain:
  assumes "analyze_plain c cl opnds rs st = Inr st'"
  shows "R st st'"
proof (cases cl)
  case (TypedConst k)
  then show ?thesis using assms
    by (cases k) (auto simp: analyze_plain_def and_then_Inr_iff)
qed (use assms in \<open>auto simp: analyze_plain_def and_then_Inr_iff Let_def dest!: propagate intro: fold\<close>)

lemma block: "analyze_block c ops l t st = Inr st' \<Longrightarrow> R st st'"
proof (induction c ops l t st arbitrary: st' rule: analyze_block.induct)
  case (2 c cl opnds rs ops l t st)
  then show ?case by (auto simp: and_then_Inr_iff intro: trans plain)
next
  case (3 c i rng inits params body rs ops l t st)
  then obtain a b d where "set_induction_var rng params st = Inr a"
    "flow_to_loop (is_for_loop rng) inits (body_vars rng params) rs a = Inr b"
    "analyze_block c body (Some (is_for_loop rng, body_vars rng params, rs)) None b = Inr d"
    "analyze_block c ops l t d = Inr st'"
    by (auto simp: and_then_Inr_iff)
  with 3 show ?case by (blast intro: trans flow induction_var)
next
  case (4 c vs ops l t st)
  then show ?case by (auto simp: and_then_Inr_iff split: option.splits) (meson trans flow)
next
  case (5 c vs ops l t st)
  then show ?case by (auto simp: and_then_Inr_iff split: option.splits) (meson trans propagate_all)
next
  case (6 c i cond th el rs ops l t st)
  then show ?case by (auto simp: and_then_Inr_iff) (meson trans)
next
  case (7 c vs ops l t st)
  then show ?case by (auto simp: and_then_Inr_iff split: option.splits) (meson trans propagate_all)
next
  case (8 c i k xs params body rs ops l t st)
  then obtain a where "analyze_block c body None (Some rs) (fold set_always_true params st) = Inr a"
    "analyze_block c ops l t a = Inr st'" by (auto simp: and_then_Inr_iff)
  with 8 have "R (fold set_always_true params st) a" "R a st'" by auto
  moreover have "R st (fold set_always_true params st)" by (rule fold) simp
  ultimately show ?case by (blast intro: trans)
qed auto

end

text \<open>A step either marks the state or leaves it as it is.\<close>

definition quiet :: "df_state \<Rightarrow> df_state \<Rightarrow> bool" where
  "quiet st st' \<longleftrightarrow> (\<not> dirty st' \<longrightarrow> st' = st)"

interpretation qt: analysis_order quiet
  by unfold_locales
    (auto simp: quiet_def update_pred_def update_agg_def update_tracker_def dirty_def Let_def split: option.splits)

text \<open>Predicates are never dropped, and divisors only shrink.\<close>

definition shrinks :: "df_state \<Rightarrow> df_state \<Rightarrow> bool" where
  "shrinks st st' \<longleftrightarrow>
     (\<forall>v p. predicates (tracker st) v = Some p \<longrightarrow>
        (\<exists>p'. predicates (tracker st') v = Some p' \<and> div_by p' dvd div_by p))"

lemma shrinks_trans: "shrinks a b \<Longrightarrow> shrinks b c \<Longrightarrow> shrinks a c"
  unfolding shrinks_def by (meson dvd_trans)

interpretation sh: analysis_order shrinks
proof unfold_locales
  show "shrinks st (update_pred v p st)" for st v p
    by (auto simp: shrinks_def update_pred_def update_tracker_def unify_def Let_def split: option.splits)
  show "shrinks st (update_agg v q st)" for st v q by (simp add: shrinks_def update_agg_def)
qed (simp add: shrinks_def, rule shrinks_trans)

text \<open>A sequence of quiet steps that ends unmarked where it began has not moved at all.\<close>

lemma settled: "quiet a b \<Longrightarrow> quiet b st \<Longrightarrow> st = a \<Longrightarrow> \<not> dirty st \<Longrightarrow> b = a"
  by (auto simp: quiet_def)

lemma settled_then:
  assumes "and_then (f st) g = Inr st" and "\<not> dirty st"
    and "\<And>b. f st = Inr b \<Longrightarrow> quiet st b" and "\<And>b. g b = Inr st \<Longrightarrow> quiet b st"
  shows "f st = Inr st \<and> g st = Inr st"
proof -
  obtain b where b: "f st = Inr b" "g b = Inr st" using assms(1) by (auto simp: and_then_Inr_iff)
  then have "b = st" using settled [OF assms(3) assms(4)] assms(2) by blast
  then show ?thesis using b by simp
qed

text \<open>The analysis returns a state in which one more round changes nothing.\<close>

lemma until_stable:
  assumes "analyze_until_stable c ops st = Some (Inr st')"
  shows "\<not> dirty st' \<and> analyze_block c ops None None st' = Inr st' \<and> shrinks st st'"
proof -
  have "r = Inr st' \<longrightarrow> \<not> dirty st' \<and> analyze_block c ops None None st' = Inr st' \<and> shrinks st st'"
    if "analyze_until_stable c ops st = Some r" for r
  proof (induction rule: analyze_until_stable.raw_induct [OF _ that])
    case (1 f c ops st r)
    show ?case
    proof
      assume r: "r = Inr st'"
      with 1(2) obtain b where b: "analyze_block c ops None None st = Inr b" by (cases "analyze_block c ops None None st") auto
      show "\<not> dirty st' \<and> analyze_block c ops None None st' = Inr st' \<and> shrinks st st'"
      proof (cases "dirty b")
        case True
        then have "f c ops (reset_dirty b) = Some r" using 1(2) b by simp
        then have ih: "\<not> dirty st'" "analyze_block c ops None None st' = Inr st'" "shrinks (reset_dirty b) st'"
          using 1(1) r by blast+
        have "shrinks st b" by (rule sh.block [OF b])
        moreover have "shrinks b (reset_dirty b)" by (simp add: shrinks_def reset_dirty_def)
        ultimately show ?thesis using ih shrinks_trans by blast
      next
        case False
        then have "b = st'" using 1(2) b r by simp
        moreover have "st' = st" using qt.block [OF b] False \<open>b = st'\<close> by (simp add: quiet_def)
        ultimately show ?thesis using b False by simp
      qed
    qed
  qed
  then show ?thesis using assms by blast
qed

section \<open>Divisors\<close>

definition divisor_of :: "df_state \<Rightarrow> var \<Rightarrow> int" where
  "divisor_of st v = (case predicates (tracker st) v of None \<Rightarrow> 1 | Some p \<Rightarrow> div_by p)"

lemma tracker_item_divisor: "tracker_item (tracker st) v = Inr p \<Longrightarrow> div_by p = divisor_of st v"
  by (auto simp: tracker_item_def divisor_of_def split: option.splits)

lemma settled_update:
  assumes "update_pred v p st = st" and "\<not> dirty st"
  shows "predicates (tracker st) v \<noteq> None \<and> divisor_of st v dvd div_by p"
proof (cases "predicates (tracker st) v")
  case None
  then have "dirty (update_pred v p st)" by (simp add: update_pred_def update_tracker_def dirty_def)
  then show ?thesis using assms by simp
next
  case (Some old)
  have "unify old p = old"
  proof (rule ccontr)
    assume "unify old p \<noteq> old"
    then have "dirty (update_pred v p st)" using Some by (simp add: update_pred_def update_tracker_def dirty_def)
    then show False using assms by simp
  qed
  then have "gcd (div_by old) (div_by p) = div_by old" by (auto simp: unify_def dest!: arg_cong [where f = div_by])
  then have "div_by old dvd div_by p" by (metis gcd_dvd2)
  then show ?thesis using Some by (simp add: divisor_of_def)
qed

lemma settled_fact:
  assumes "set_fact v p st = st" and "\<not> dirty st"
  shows "predicates (tracker st) v \<noteq> None \<and> divisor_of st v dvd div_by p"
proof -
  have "update_pred v p st = st"
    using settled [of st "update_pred v p st" "set_fact v p st"] assms by (simp add: set_fact_def)
  then show ?thesis using settled_update assms(2) by blast
qed

lemma settled_propagate:
  assumes "propagate a b st = Inr st" and "\<not> dirty st"
  shows "predicates (tracker st) b \<noteq> None \<and> divisor_of st b dvd divisor_of st a"
proof -
  obtain p q where p: "tracker_item (tracker st) a = Inr p" and q: "update_agg b q (update_pred b p st) = st"
    using assms(1) by (auto simp: propagate_def and_then_Inr_iff Let_def)
  then have "update_pred b p st = st"
    using settled [of st "update_pred b p st" st] qt.update_agg [of "update_pred b p st" b q] assms(2) by simp
  then show ?thesis using settled_update [of b p st] assms(2) tracker_item_divisor [OF p] by simp
qed

lemma settled_always_true:
  assumes "fold set_always_true vs st = st" and "\<not> dirty st" and "v \<in> set vs"
  shows "predicates (tracker st) v \<noteq> None \<and> divisor_of st v dvd 1"
  using assms
proof (induction vs)
  case (Cons w vs)
  have "set_always_true w st = st"
    using settled [of st "set_always_true w st" st] Cons.prems(1,2) qt.fold [of set_always_true "set_always_true w st" vs]
    by simp
  then have "fold set_always_true vs st = st" "set_fact w ALWAYS_TRUE_PREDICATE st = st"
    using Cons.prems(1) by (simp, simp add: set_always_true_def)
  then show ?case
    using Cons settled_fact [of w ALWAYS_TRUE_PREDICATE st] by (auto simp: ALWAYS_TRUE_PREDICATE_def)
qed simp

lemma settled_propagate_all:
  assumes "propagate_all ps st = Inr st" and "\<not> dirty st" and "(a, b) \<in> set ps"
  shows "predicates (tracker st) b \<noteq> None \<and> divisor_of st b dvd divisor_of st a"
  using assms
proof (induction ps)
  case (Cons q ps)
  obtain x y where q: "q = (x, y)" by (cases q)
  have "propagate x y st = Inr st \<and> propagate_all ps st = Inr st"
    using settled_then [of "propagate x y" st "propagate_all ps"] Cons.prems(1,2) qt.propagate qt.propagate_all
    by (auto simp: q propagate_all_def)
  then show ?case using Cons settled_propagate q by auto
qed simp

section \<open>Values\<close>

text \<open>
  \<^verbatim>\<open>D k x\<close> says of a value that it consists of integers or pointers, all multiples of
  \<^verbatim>\<open>2 ^ k\<close>; for 0 it says nothing. Only the powers of two in a divisor survive the wrap-around
  of a product, and only they are emitted.
\<close>

definition divisible :: "(nat \<Rightarrow> 'v \<Rightarrow> bool) \<Rightarrow> int \<Rightarrow> 'v \<Rightarrow> bool" where
  "divisible D d x \<longleftrightarrow> (\<forall>k. 2 ^ k dvd d \<longrightarrow> D k x)"

lemma divisible_dvd: "divisible D d x \<Longrightarrow> e dvd d \<Longrightarrow> divisible D e x"
  by (auto simp: divisible_def intro: dvd_trans)

lemma two_power_eq_one [simp]: "(2 :: int) ^ k = 1 \<longleftrightarrow> k = 0"
  by (cases k) (auto simp: zmult_eq_1_iff)

lemma two_power_dvd_one: "(2 :: int) ^ k dvd 1 \<longleftrightarrow> k = 0"
  by simp

definition integer_type :: "ir_type option \<Rightarrow> bool" where
  "integer_type ty = (case ty of Some (TileTy t shape) \<Rightarrow> is_integral t | _ \<Rightarrow> False)"

definition has_power :: "(nat \<Rightarrow> 'v \<Rightarrow> bool) \<Rightarrow> (string \<times> 'v operand_val) list \<Rightarrow> string \<Rightarrow> nat \<Rightarrow> bool" where
  "has_power D args name k \<longleftrightarrow> (\<exists>x. map_of args name = Some (Val x) \<and> D k x)"

text \<open>When the arithmetic of the target makes the result of an operation a multiple of \<^verbatim>\<open>2 ^ k\<close>.\<close>

definition power_rule ::
  "(nat \<Rightarrow> 'v \<Rightarrow> bool) \<Rightarrow> op_class \<Rightarrow> ir_type option \<Rightarrow> (string \<times> 'v operand_val) list \<Rightarrow> nat \<Rightarrow> bool" where
  "power_rule D cl ty args k =
     (case cl of
        Assign \<Rightarrow> has_power D args ''value'' k
      | TileBroadcast \<Rightarrow> has_power D args ''x'' k
      | TileReshape \<Rightarrow> has_power D args ''x'' k
      | AssumeBounded \<Rightarrow> has_power D args ''x'' k
      | AssumeDivBy d \<Rightarrow> 2 ^ k dvd d
      | TypedConst c \<Rightarrow> (case c of ConstInt n \<Rightarrow> integer_type ty \<and> 2 ^ k dvd n | ConstOther s \<Rightarrow> False)
      | RawBinaryArithmetic fn rm ftz \<Rightarrow>
          integer_type ty \<and>
          (if fn = ''add'' \<or> fn = ''sub'' then has_power D args ''lhs'' k \<and> has_power D args ''rhs'' k
           else fn = ''mul'' \<and> (\<exists>i j. has_power D args ''lhs'' i \<and> has_power D args ''rhs'' j \<and> k \<le> i + j))
      | Unary fn rm ftz \<Rightarrow> integer_type ty \<and> (fn = ''abs'' \<or> fn = ''neg'') \<and> has_power D args ''operand'' k
      | TileAsType \<Rightarrow>
          (case ty of Some (TileTy t shape) \<Rightarrow> is_integral t \<and> k \<le> def_bitwidth (dtype_defs t) \<and> has_power D args ''x'' k
           | _ \<Rightarrow> False)
      | PointerOffset \<Rightarrow>
          (case ty of Some (TileTy t shape) \<Rightarrow>
             (case def_kind (dtype_defs t) of PointerDefinition (Some p) ms \<Rightarrow>
                (\<exists>i j. has_power D args ''pointer'' k \<and> has_power D args ''offset'' i
                  \<and> 2 ^ j dvd def_bitwidth (dtype_defs p) div 8 \<and> k \<le> i + j)
              | _ \<Rightarrow> False)
           | _ \<Rightarrow> False)
      | _ \<Rightarrow> False)"

text \<open>
  A machine whose arithmetic keeps powers of two and on which a true assumption has no effect;
  on a false one it may do anything.
\<close>

definition keeps_powers :: "('v, 'm) machine \<Rightarrow> (nat \<Rightarrow> 'v \<Rightarrow> bool) \<Rightarrow> bool" where
  "keeps_powers M D \<longleftrightarrow>
     (\<forall>x. D 0 x)
     \<and> (\<forall>cl ty args m y m' k. run_op M cl [ty] args m = ([y], m') \<longrightarrow> power_rule D cl ty args k \<longrightarrow> D k y)
     \<and> (\<forall>k ty x m. D k x \<longrightarrow> run_op M (AssumeDivBy (2 ^ k)) [ty] [(''x'', Val x)] m = ([x], m))"

lemma keeps_powersD:
  assumes "keeps_powers M D"
  shows "D 0 x" and "run_op M cl [ty] args m = ([y], m') \<Longrightarrow> power_rule D cl ty args k \<Longrightarrow> D k y"
    and "D k x \<Longrightarrow> run_op M (AssumeDivBy (2 ^ k)) [ty] [(''x'', Val x)] m = ([x], m)"
  using assms unfolding keeps_powers_def by blast+

text \<open>
  What the analysis takes for granted: integer constants have integer types, an offset pointer
  has the type of the pointer; items of lists of arrays are left to the caller of the kernel.
\<close>

definition same_dtype :: "ir_type option \<Rightarrow> ir_type option \<Rightarrow> bool" where
  "same_dtype a b = (case (a, b) of (Some (TileTy t s), Some (TileTy u s')) \<Rightarrow> t = u | _ \<Rightarrow> False)"

definition operation_typed ::
  "(var \<rightharpoonup> ir_type) \<Rightarrow> op_class \<Rightarrow> (string \<times> operand_value) list \<Rightarrow> var list \<Rightarrow> bool" where
  "operation_typed T cl opnds rs =
     (case cl of
        TypedConst c \<Rightarrow> (case c of ConstInt n \<Rightarrow> list_all (\<lambda>r. integer_type (T r)) rs | ConstOther s \<Rightarrow> True)
      | PointerOffset \<Rightarrow>
          (case map_of opnds ''pointer'' of Some (OVar p) \<Rightarrow> list_all (\<lambda>r. same_dtype (T r) (T p)) rs | _ \<Rightarrow> True)
      | GetArrayListItem \<Rightarrow> False
      | _ \<Rightarrow> True)"

definition env_divisible :: "(nat \<Rightarrow> 'v \<Rightarrow> bool) \<Rightarrow> df_state \<Rightarrow> (var \<rightharpoonup> 'v) \<Rightarrow> bool" where
  "env_divisible D st env \<longleftrightarrow> (\<forall>v x. env v = Some x \<longrightarrow> divisible D (divisor_of st v) x)"

lemma those_pairs_map_of:
  "those (map (\<lambda>(n, x). map_option (Pair n) (g x)) xs) = Some ys \<Longrightarrow> map_of xs n = Some o1 \<Longrightarrow>
    \<exists>y. g o1 = Some y \<and> map_of ys n = Some y"
  by (induction xs arbitrary: ys) (auto split: option.splits if_splits)

lemma eval_operands_map_of:
  "eval_operands env opnds = Some args \<Longrightarrow> map_of opnds n = Some (OVar v) \<Longrightarrow>
    \<exists>x. env v = Some x \<and> map_of args n = Some (Val x)"
  using those_pairs_map_of [of "eval_operand env" opnds args n "OVar v"] by (auto simp: eval_operands_def)

lemma var_operand_map_of: "var_operand n opnds = Inr v \<longleftrightarrow> map_of opnds n = Some (OVar v)"
  by (auto simp: var_operand_def operand_of_def and_then_Inr_iff split: option.splits operand_value.splits)

lemma operand_has_power:
  assumes "var_operand n opnds = Inr v" and "eval_operands env opnds = Some args" and "env_divisible D st env"
    and "2 ^ k dvd divisor_of st v"
  shows "has_power D args n k"
  using eval_operands_map_of [OF assms(2)] assms(1,3,4)
  by (fastforce simp: var_operand_map_of has_power_def env_divisible_def divisible_def)

lemma result_var_single: "result_var rs = Inr r \<longleftrightarrow> rs = [r]"
  by (auto simp: result_var_def split: list.splits)

lemma power_dvd_mult:
  "(2 :: int) ^ k dvd a * b \<Longrightarrow> \<exists>i j. 2 ^ i dvd a \<and> 2 ^ j dvd b \<and> k \<le> i + j"
proof (induction k arbitrary: a b)
  case 0
  have "(2 :: int) ^ 0 dvd a \<and> (2 :: int) ^ 0 dvd b" by simp
  then show ?case by blast
next
  case (Suc k)
  have "even (a * b)" using Suc.prems by (meson dvd_trans dvd_power zero_less_Suc)
  then consider (left) a' where "a = 2 * a'" | (right) b' where "b = 2 * b'" by (auto elim: evenE)
  then show ?case
  proof cases
    case left
    then have "2 ^ k dvd a' * b" using Suc.prems by simp
    then obtain i j where "2 ^ i dvd a'" "2 ^ j dvd b" "k \<le> i + j" using Suc.IH by blast
    then have "2 ^ Suc i dvd a \<and> 2 ^ j dvd b \<and> Suc k \<le> Suc i + j" using left by simp
    then show ?thesis by blast
  next
    case right
    then have "2 ^ k dvd a * b'" using Suc.prems by (simp add: mult.left_commute)
    then obtain i j where "2 ^ i dvd a" "2 ^ j dvd b'" "k \<le> i + j" using Suc.IH by blast
    then have "2 ^ i dvd a \<and> 2 ^ Suc j dvd b \<and> Suc k \<le> i + Suc j" using right by simp
    then show ?thesis by blast
  qed
qed

text \<open>The rule of each operation covers the divisor that the analysis derives for its result.\<close>

lemma plain_rule:
  assumes still: "analyze_plain c cl opnds [r] st = Inr st" "\<not> dirty st"
    and args: "eval_operands env opnds = Some args" and env: "env_divisible D st env"
    and typed: "operation_typed (typemap c) cl opnds [r]" and k: "2 ^ k dvd divisor_of st r" "k \<noteq> 0"
  shows "power_rule D cl (typemap c r) args k"
proof -
  note pow = operand_has_power [OF _ args env]
  have via: "2 ^ k dvd d" if "divisor_of st r dvd d" for d using k(1) that dvd_trans by blast
  have copy: "has_power D args n k" if "and_then (var_operand n opnds) (\<lambda>x. and_then (result_var [r]) (\<lambda>r. propagate x r st)) = Inr st" for n
    using that settled_propagate [OF _ still(2)] pow via by (fastforce simp: and_then_Inr_iff result_var_single)
  have fact: "2 ^ k dvd div_by p" if "set_fact r p st = st" for p
    using settled_fact [OF that still(2)] via by blast
  have trivial: False if "(2 :: int) ^ k dvd 1" using that two_power_dvd_one [of k] k(2) by blast
  have trivial': "(2 :: int) ^ k \<noteq> 1" using k(2) by simp
  note unf = analyze_plain_def and_then_Inr_iff result_var_single Let_def
  show ?thesis
  proof (cases cl)
    case (AssumeDivBy d)
    obtain p q where "update_agg r q (update_pred r (p\<lparr>div_by := d\<rparr>) st) = st"
      using still(1) by (auto simp: AssumeDivBy unf)
    then have "update_pred r (p\<lparr>div_by := d\<rparr>) st = st"
      using settled [of st "update_pred r (p\<lparr>div_by := d\<rparr>) st" st] qt.update_agg [of "update_pred r (p\<lparr>div_by := d\<rparr>) st" r q] assms(2)
      by simp
    then show ?thesis using settled_update [OF _ still(2)] via by (fastforce simp: AssumeDivBy power_rule_def)
  next
    case (TypedConst a)
    show ?thesis
    proof (cases a)
      case (ConstInt n)
      have "2 ^ k dvd \<bar>n\<bar>" using fact [of "ALWAYS_TRUE_PREDICATE\<lparr>div_by := \<bar>n\<bar>\<rparr>"] still(1) by (simp add: TypedConst ConstInt unf)
      then show ?thesis using typed by (simp add: TypedConst ConstInt power_rule_def operation_typed_def)
    next
      case (ConstOther s)
      then show ?thesis using fact [of ALWAYS_TRUE_PREDICATE] still(1) trivial
        by (simp add: TypedConst unf set_always_true_def ALWAYS_TRUE_PREDICATE_def)
    qed
  next
    case (RawBinaryArithmetic fn rm ftz)
    obtain x y d where x: "var_operand ''lhs'' opnds = Inr x" and y: "var_operand ''rhs'' opnds = Inr y"
      and d: "divisibility_for_binary_op c fn x y r st = Inr d" and f: "set_fact r (ALWAYS_TRUE_PREDICATE\<lparr>div_by := d\<rparr>) st = st"
      using still(1) by (auto simp: RawBinaryArithmetic unf)
    have kd: "2 ^ k dvd d" using fact [OF f] by simp
    obtain t sh where t: "typemap c r = Some (TileTy t sh)"
      using d by (auto simp: divisibility_for_binary_op_def dtype_of_var_def get_type_def get_dtype_def and_then_Inr_iff
          split: option.splits ir_type.splits)
    have int: "is_integral t" using d kd trivial t by (auto simp: divisibility_for_binary_op_def dtype_of_var_def get_type_def get_dtype_def split: if_splits)
    then obtain p q where p: "tracker_item (tracker st) x = Inr p" and q: "tracker_item (tracker st) y = Inr q"
      and dd: "d = (if fn = ''add'' \<or> fn = ''sub'' then gcd (div_by p) (div_by q)
                else if fn = ''mul'' then div_by p * div_by q else 1)"
      using d t by (auto simp: divisibility_for_binary_op_def dtype_of_var_def get_type_def get_dtype_def and_then_Inr_iff)
    show ?thesis
      using kd trivial power_dvd_mult [of k "divisor_of st x" "divisor_of st y"] pow [OF x] pow [OF y] int t
      by (auto simp: dd RawBinaryArithmetic power_rule_def integer_type_def tracker_item_divisor [OF p] tracker_item_divisor [OF q] split: if_splits)
  next
    case (Unary fn rm ftz)
    obtain x d where x: "var_operand ''operand'' opnds = Inr x"
      and d: "divisibility_for_unary_op c fn x r st = Inr d" and f: "set_fact r (ALWAYS_TRUE_PREDICATE\<lparr>div_by := d\<rparr>) st = st"
      using still(1) by (auto simp: Unary unf)
    have kd: "2 ^ k dvd d" using fact [OF f] by simp
    obtain t sh where t: "typemap c r = Some (TileTy t sh)"
      using d by (auto simp: divisibility_for_unary_op_def dtype_of_var_def get_type_def get_dtype_def and_then_Inr_iff
          split: option.splits ir_type.splits)
    have int: "is_integral t" using d kd trivial t by (auto simp: divisibility_for_unary_op_def dtype_of_var_def get_type_def get_dtype_def split: if_splits)
    then obtain p where p: "tracker_item (tracker st) x = Inr p"
      and dd: "d = (if fn = ''abs'' \<or> fn = ''neg'' then div_by p else 1)"
      using d t by (auto simp: divisibility_for_unary_op_def dtype_of_var_def get_type_def get_dtype_def and_then_Inr_iff)
    show ?thesis
      using kd trivial pow [OF x] int t
      by (auto simp: dd Unary power_rule_def integer_type_def tracker_item_divisor [OF p] split: if_splits)
  next
    case TileAsType
    obtain x orig t p where x: "var_operand ''x'' opnds = Inr x" and t: "dtype_of_var c r = Inr t"
      and p: "tracker_item (tracker st) x = Inr p"
      and f: "set_fact r (p\<lparr>div_by := if is_integral orig \<and> is_integral t
            then gcd (div_by p) (push_bit (def_bitwidth (dtype_defs t)) 1) else 1\<rparr>) st = st"
      using still(1) by (auto simp: TileAsType unf)
    have kd: "is_integral t" "2 ^ k dvd div_by p" "(2 :: int) ^ k dvd 2 ^ def_bitwidth (dtype_defs t)"
      using fact [OF f] trivial by (auto split: if_splits)
    have "k \<le> def_bitwidth (dtype_defs t)" using kd(3) dvd_power_iff [of "2 :: int" k "def_bitwidth (dtype_defs t)"] by simp
    moreover obtain sh where "typemap c r = Some (TileTy t sh)"
      using t by (auto simp: dtype_of_var_def get_type_def get_dtype_def and_then_Inr_iff split: option.splits ir_type.splits)
    ultimately show ?thesis using kd pow [OF x] tracker_item_divisor [OF p] by (simp add: TileAsType power_rule_def)
  next
    case PointerOffset
    obtain x t sh pt d p where x: "var_operand ''pointer'' opnds = Inr x" and t: "tile_type c x = Inr (t, sh)"
      and pt: "pointer_info t = Inr pt" and d: "pointer_divisor pt sh x opnds st = Inr d"
      and f: "set_fact r (p\<lparr>div_by := d\<rparr>) st = st"
      using still(1) by (auto simp: PointerOffset unf)
    have kd: "2 ^ k dvd d" using fact [OF f] by simp
    have one: "list_all (\<lambda>n. n = 1) sh" using d kd trivial by (auto simp: pointer_divisor_def split: if_splits)
    then obtain w e q where w: "pointee_bitwidth pt = Inr w" and q: "tracker_item (tracker st) x = Inr q"
      and e: "d = gcd (div_by q) e"
        "(if w mod 8 = 0 then and_then (var_operand ''offset'' opnds) (\<lambda>off.
                and_then (tracker_item (tracker st) off) (\<lambda>q. Inr (div_by q * int (w div 8)))) else Inr 1) = Inr e"
      using d by (auto simp: pointer_divisor_def and_then_Inr_iff)
    obtain off where off: "var_operand ''offset'' opnds = Inr off" and ed: "e = divisor_of st off * int (w div 8)"
      using e kd trivial by (auto simp: and_then_Inr_iff tracker_item_divisor split: if_splits)
    have ke: "2 ^ k dvd divisor_of st off * int (w div 8)" using kd e ed by simp
    obtain i j where ij: "2 ^ i dvd divisor_of st off" "(2 :: int) ^ j dvd int (w div 8)" "k \<le> i + j"
      using power_dvd_mult [OF ke] by blast
    have j: "2 ^ j dvd w div 8" using ij(2) by (metis int_dvd_int_iff of_nat_numeral of_nat_power)
    have kp: "has_power D args ''pointer'' k" using kd e(1) pow [OF x] tracker_item_divisor [OF q] by simp
    have ko: "has_power D args ''offset'' i" by (rule pow [OF off ij(1)])
    obtain pp ms where pp: "def_kind (dtype_defs t) = PointerDefinition (Some pp) ms" "w = def_bitwidth (dtype_defs pp)"
      using pt w by (auto simp: pointer_info_def pointee_bitwidth_def split: definition_kind.splits option.splits)
    have "typemap c x = Some (TileTy t sh)"
      using t by (auto simp: tile_type_def get_type_def and_then_Inr_iff split: option.splits ir_type.splits)
    then obtain sh' where "typemap c r = Some (TileTy t sh')"
      using typed x by (auto simp: PointerOffset operation_typed_def var_operand_map_of same_dtype_def split: option.splits ir_type.splits)
    then show ?thesis using kp ko j ij(3) pp by (auto simp: PointerOffset power_rule_def)
  next
    case GetArrayListItem
    then show ?thesis using typed by (simp add: operation_typed_def)
  qed (use still(1) copy fact [of ALWAYS_TRUE_PREDICATE] trivial in
    \<open>auto simp: analyze_plain_def power_rule_def set_always_true_def ALWAYS_TRUE_PREDICATE_def\<close>)
qed

lemma plain_many:
  assumes "analyze_plain c cl opnds rs st = Inr st" and "\<And>r. rs \<noteq> [r]" and "cl \<noteq> GetArrayListItem"
  shows "fold set_always_true rs st = st"
proof -
  have "result_var rs = Inr r \<Longrightarrow> False" for r using assms(2) by (simp add: result_var_single)
  then show ?thesis using assms(1,3)
    by (cases cl) (auto simp: analyze_plain_def and_then_Inr_iff Let_def)
qed

text \<open>The results of an operation are multiples of the divisors the analysis has found.\<close>

lemma plain_sound:
  assumes M: "keeps_powers M D" and still: "analyze_plain c cl opnds rs st = Inr st" "\<not> dirty st"
    and args: "eval_operands env opnds = Some args" and env: "env_divisible D st env"
    and typed: "operation_typed (typemap c) cl opnds rs"
    and run: "run_op M cl (map (typemap c) rs) args m = (outs, m')" "length rs = length outs"
  shows "list_all2 (\<lambda>r y. divisible D (divisor_of st r) y) rs outs"
proof (cases "\<exists>r. rs = [r]")
  case True
  then obtain r where "rs = [r]" by blast
  moreover obtain y where "outs = [y]" using run(2) calculation by (cases outs) auto
  ultimately have r: "rs = [r]" "outs = [y]" by simp_all
  have "D k y" if k: "2 ^ k dvd divisor_of st r" for k
  proof (cases "k = 0")
    case False
    then have "power_rule D cl (typemap c r) args k"
      using plain_rule [OF _ still(2) args env _ k] still(1) typed by (simp add: r)
    then show ?thesis using keeps_powersD(2) [OF M, of cl "typemap c r" args m y m' k] run(1) r by simp
  qed (simp add: keeps_powersD(1) [OF M])
  then show ?thesis by (simp add: r divisible_def)
next
  case False
  have "cl \<noteq> GetArrayListItem" using typed by (auto simp: operation_typed_def)
  then have all: "fold set_always_true rs st = st" using plain_many [OF still(1)] False by blast
  have "divisible D (divisor_of st r) y" if "r \<in> set rs" for r y
  proof -
    have "divisor_of st r dvd 1" using settled_always_true [OF all still(2) that] by blast
    moreover have "D 0 y" by (rule keeps_powersD(1) [OF M])
    then have "divisible D 1 y" unfolding divisible_def by (metis two_power_dvd_one)
    ultimately show ?thesis using divisible_dvd by metis
  qed
  then show ?thesis using run(2) by (auto simp: list_all2_conv_all_nth)
qed

end
