(* ===== verification/DivbyPass.thy ===== *)
theory DivbyPass
  imports Dataflow
begin

text \<open>
  \<^verbatim>\<open>_passes/propagate_divby.py\<close>: every divisor the data-flow analysis has found becomes an
  assumption on the variable, for the variables that tensor views and pointer accesses take
  and for the parameters of blocks; later uses read the result of the assumption.
\<close>

definition needs_assume :: "op_class \<Rightarrow> bool" where
  "needs_assume cl \<longleftrightarrow> cl \<in> {MakeTensorView, LoadPointer, StorePointer}"

fun scan_block :: "operation list \<Rightarrow> var set \<Rightarrow> var set" where
  "scan_block [] candidates = candidates"
| "scan_block (Plain cl opnds rs # ops) candidates =
     scan_block ops (if needs_assume cl then candidates \<union> set (operands_vars opnds) else candidates)"
| "scan_block (Loop i rng inits params body rs # ops) candidates = scan_block ops (scan_block body candidates)"
| "scan_block (IfElse i c th el rs # ops) candidates = scan_block ops (scan_block el (scan_block th candidates))"
| "scan_block (Reduction i k xs params body rs # ops) candidates = scan_block ops (scan_block body candidates)"
| "scan_block (op # ops) candidates = scan_block ops candidates"

text \<open>The result of the analysis, the map of the assumed variables and the context.\<close>

record divby_state =
  df_result :: "var \<rightharpoonup> DataPredicate"
  assumed :: "var \<rightharpoonup> var"
  ctx :: ir_context

definition MAX_DIVBY :: int where
  "MAX_DIVBY = 1024"

definition power_of_2_divisor :: "int \<Rightarrow> int" where
  "power_of_2_divisor divisor = min (divisor AND - divisor) MAX_DIVBY"

definition df_item :: "divby_state \<Rightarrow> var \<Rightarrow> DataPredicate res" where
  "df_item st v = (case df_result st v of None \<Rightarrow> Inl KeyError | Some p \<Rightarrow> Inr p)"

text \<open>The operations to append, none or one; the returned variable is not used by the callers.\<close>

definition new_assumption :: "var \<Rightarrow> int \<Rightarrow> DataPredicate \<Rightarrow> divby_state \<Rightarrow> (operation list \<times> divby_state) res" where
  "new_assumption x d old st =
     and_then (make_var_like x (ctx st)) (\<lambda>(r, c).
     and_then (get_type x c) (\<lambda>ty.
     and_then (set_type r ty c) (\<lambda>c.
       Inr ([Plain (AssumeDivBy d) [(''x'', OVar x)] [r]],
            \<lparr>df_result = (df_result st)(r \<mapsto> old\<lparr>div_by := d\<rparr>), assumed = (assumed st)(x \<mapsto> r), ctx = c\<rparr>))))"

definition add_assume_divby :: "var \<Rightarrow> divby_state \<Rightarrow> (operation list \<times> divby_state) res" where
  "add_assume_divby x st =
     (if assumed st x \<noteq> None then Inr ([], st)
      else and_then (df_item st x) (\<lambda>old.
        let power_of_2_d = power_of_2_divisor (div_by old)
        in if power_of_2_d > 1 then new_assumption x power_of_2_d old st else Inr ([], st)))"

fun add_assumes :: "var list \<Rightarrow> divby_state \<Rightarrow> (operation list \<times> divby_state) res" where
  "add_assumes [] st = Inr ([], st)"
| "add_assumes (x # xs) st =
     and_then (add_assume_divby x st) (\<lambda>(new, st).
     and_then (add_assumes xs st) (\<lambda>(news, st). Inr (new @ news, st)))"

definition remap :: "divby_state \<Rightarrow> var \<Rightarrow> var" where
  "remap st v = (case assumed st v of None \<Rightarrow> v | Some r \<Rightarrow> r)"

text \<open>\<^verbatim>\<open>dataclasses.replace\<close> makes a new object that keeps the nested blocks.\<close>

definition copy_object :: "divby_state \<Rightarrow> nat \<times> divby_state" where
  "copy_object st = (let (i, c) = new_object (ctx st) in (i, st\<lparr>ctx := c\<rparr>))"

definition assumes_on :: "var set \<Rightarrow> var list \<Rightarrow> divby_state \<Rightarrow> (operation list \<times> divby_state) res" where
  "assumes_on candidates rs = add_assumes (filter (\<lambda>v. v \<in> candidates) rs)"

text \<open>
  The operations of \<^verbatim>\<open>_rewrite_block\<close>, after the parameters of the block. The copy is appended
  first, then the assumptions on its results; the nested blocks come last and are changed in
  place.
\<close>

fun rewrite_ops :: "var set \<Rightarrow> operation list \<Rightarrow> divby_state \<Rightarrow> (operation list \<times> divby_state) res" where
  "rewrite_ops candidates [] st = Inr ([], st)"
| "rewrite_ops candidates (Plain cl opnds rs # ops) st =
     (let opnds' = map_operands (remap st) opnds in
     and_then (assumes_on candidates rs st) (\<lambda>(news, st).
     and_then (rewrite_ops candidates ops st) (\<lambda>(ops', st).
       Inr (Plain cl opnds' rs # news @ ops', st))))"
| "rewrite_ops candidates (Loop i rng inits params body rs # ops) st =
     (let (i', st) = copy_object st;
          rng' = map_range (remap st) rng; inits' = map (remap st) inits in
     and_then (assumes_on candidates rs st) (\<lambda>(news, st).
     and_then (add_assumes params st) (\<lambda>(heads, st).
     and_then (rewrite_ops candidates body st) (\<lambda>(body', st).
     and_then (rewrite_ops candidates ops st) (\<lambda>(ops', st).
       Inr (Loop i' rng' inits' params (heads @ body') rs # news @ ops', st))))))"
| "rewrite_ops candidates (IfElse i c th el rs # ops) st =
     (let (i', st) = copy_object st; c' = remap st c in
     and_then (assumes_on candidates rs st) (\<lambda>(news, st).
     and_then (rewrite_ops candidates th st) (\<lambda>(th', st).
     and_then (rewrite_ops candidates el st) (\<lambda>(el', st).
     and_then (rewrite_ops candidates ops st) (\<lambda>(ops', st).
       Inr (IfElse i' c' th' el' rs # news @ ops', st))))))"
| "rewrite_ops candidates (Reduction i k xs params body rs # ops) st =
     (let (i', st) = copy_object st; xs' = map (remap st) xs in
     and_then (assumes_on candidates rs st) (\<lambda>(news, st).
     and_then (add_assumes params st) (\<lambda>(heads, st).
     and_then (rewrite_ops candidates body st) (\<lambda>(body', st).
     and_then (rewrite_ops candidates ops st) (\<lambda>(ops', st).
       Inr (Reduction i' k xs' params (heads @ body') rs # news @ ops', st))))))"
| "rewrite_ops candidates (Continue vs # ops) st =
     (let vs' = map (remap st) vs in
     and_then (rewrite_ops candidates ops st) (\<lambda>(ops', st). Inr (Continue vs' # ops', st)))"
| "rewrite_ops candidates (Break vs # ops) st =
     (let vs' = map (remap st) vs in
     and_then (rewrite_ops candidates ops st) (\<lambda>(ops', st). Inr (Break vs' # ops', st)))"
| "rewrite_ops candidates (EndBranch vs # ops) st =
     (let vs' = map (remap st) vs in
     and_then (rewrite_ops candidates ops st) (\<lambda>(ops', st). Inr (EndBranch vs' # ops', st)))"
| "rewrite_ops candidates (Return # ops) st =
     and_then (rewrite_ops candidates ops st) (\<lambda>(ops', st). Inr (Return # ops', st))"

definition rewrite_block ::
  "var set \<Rightarrow> var list \<Rightarrow> operation list \<Rightarrow> divby_state \<Rightarrow> (operation list \<times> divby_state) res" where
  "rewrite_block candidates params ops st =
     and_then (add_assumes params st) (\<lambda>(heads, st).
     and_then (rewrite_ops candidates ops st) (\<lambda>(ops', st). Inr (heads @ ops', st)))"

definition add_divby_pass ::
  "var list \<Rightarrow> operation list \<Rightarrow> (var \<rightharpoonup> DataPredicate) \<Rightarrow> ir_context
   \<Rightarrow> (operation list \<times> (var \<rightharpoonup> DataPredicate) \<times> ir_context) res" where
  "add_divby_pass params ops result c =
     and_then (rewrite_block (scan_block ops {}) params ops \<lparr>df_result = result, assumed = Map.empty, ctx = c\<rparr>)
       (\<lambda>(ops', st). Inr (ops', df_result st, ctx st))"

end
