(* ===== verification/DivbyState.thy ===== *)
theory DivbyState
  imports DataflowSound DivbyPass PassAssign
begin

text \<open>
  The insertion of assumptions, one at a time: the emitted divisor is a power of two that
  divides, the new variables are fresh, and an assumption that holds makes the new variable
  equal to the old one.
\<close>

section \<open>The emitted divisor\<close>

lemma odd_and_minus: "odd (q :: int) \<Longrightarrow> q AND - q = 1"
proof -
  assume "odd q"
  then obtain a where q: "q = 2 * a + 1" by (auto elim: oddE)
  have "- q = 2 * (NOT a) + 1" by (simp add: q not_int_def)
  then have "q AND - q = 2 * (a AND NOT a) + 1" unfolding q by (simp add: and_int_rec [of "2 * a + 1"])
  then show ?thesis by simp
qed

lemma and_minus_power:
  assumes "d \<noteq> (0 :: int)"
  shows "\<exists>k. d AND - d = 2 ^ k \<and> 2 ^ k dvd d"
  using assms
proof (induction "nat \<bar>d\<bar>" arbitrary: d rule: less_induct)
  case less
  show ?case
  proof (cases "odd d")
    case True
    then show ?thesis using odd_and_minus [OF True] by (intro exI [of _ 0]) simp
  next
    case False
    then obtain e where e: "d = 2 * e" by (auto elim: evenE)
    then have "nat \<bar>e\<bar> < nat \<bar>d\<bar>" "e \<noteq> 0" using less.prems by auto
    then obtain k where k: "e AND - e = 2 ^ k" "2 ^ k dvd e" using less.hyps [of e] by blast
    have "(- (2 * e)) div 2 = - e" by presburger
    then have "2 * e AND - (2 * e) = 2 * (e AND - e)" by (subst and_int_rec) simp
    then have "d AND - d = 2 * (e AND - e)" by (simp add: e)
    then show ?thesis using k e by (intro exI [of _ "Suc k"]) simp
  qed
qed

lemma power_of_2_divisor_power:
  assumes "power_of_2_divisor d > 1"
  shows "\<exists>k. power_of_2_divisor d = 2 ^ k \<and> 2 ^ k dvd d"
proof -
  have "d \<noteq> 0" using assms by (auto simp: power_of_2_divisor_def)
  then obtain k where k: "d AND - d = 2 ^ k" "2 ^ k dvd d" using and_minus_power by blast
  have "power_of_2_divisor d = 2 ^ min k 10"
  proof (cases "k \<le> 10")
    case True
    then have "(2 :: int) ^ k \<le> 2 ^ 10" by (intro power_increasing) simp_all
    then show ?thesis using True by (simp add: power_of_2_divisor_def k MAX_DIVBY_def min_def)
  next
    case False
    then have "(2 :: int) ^ 10 \<le> 2 ^ k" by (intro power_increasing) simp_all
    then show ?thesis using False by (simp add: power_of_2_divisor_def k MAX_DIVBY_def min_def)
  qed
  moreover have "(2 :: int) ^ min k 10 dvd d" using k(2) by (meson dvd_trans le_imp_power_dvd min.cobounded1)
  ultimately show ?thesis by blast
qed

section \<open>The state of the rewriting\<close>

definition known :: "df_state \<Rightarrow> var set" where
  "known st = dom (predicates (tracker st))"

text \<open>
  \<^verbatim>\<open>N\<close> are the variables of the kernel and \<^verbatim>\<open>P\<close> their predicates: the new variables are other
  ones.
\<close>

definition rewriting :: "var set \<Rightarrow> (var \<rightharpoonup> DataPredicate) \<Rightarrow> divby_state \<Rightarrow> bool" where
  "rewriting N P b \<longleftrightarrow>
     typed_ctx N (ctx b) \<and> ran (assumed b) \<subseteq> var_names (ctx b) - N \<and> (\<forall>v \<in> N. df_result b v = P v)"

text \<open>Only the given variables may have become assumed.\<close>

definition assumed_in :: "var set \<Rightarrow> divby_state \<Rightarrow> divby_state \<Rightarrow> bool" where
  "assumed_in A b b' \<longleftrightarrow> (\<forall>v. v \<notin> A \<longrightarrow> assumed b' v = assumed b v)"

lemma assumed_in_refl [simp]: "assumed_in A b b"
  by (simp add: assumed_in_def)

lemma assumed_in_trans: "assumed_in A a b \<Longrightarrow> assumed_in B b c \<Longrightarrow> A \<subseteq> C \<Longrightarrow> B \<subseteq> C \<Longrightarrow> assumed_in C a c"
  unfolding assumed_in_def by (metis subsetD)

lemma rewriting_names: "rewriting N P b \<Longrightarrow> N \<subseteq> var_names (ctx b)"
  by (auto simp: rewriting_def typed_ctx_def)

text \<open>What an assumption does to the state, and that it can be made.\<close>

lemma new_assumption_ok:
  assumes b: "rewriting N P b" and x: "x \<in> N"
  shows "\<exists>r b'. new_assumption x d old b = Inr ([Plain (AssumeDivBy d) [(''x'', OVar x)] [r]], b')
    \<and> rewriting N P b' \<and> assumed b' = (assumed b)(x \<mapsto> r) \<and> r \<notin> var_names (ctx b)"
proof -
  have names: "x \<in> var_names (ctx b)" using rewriting_names [OF b] x by blast
  then obtain name where name: "map_of (all_vars (ctx b)) x = Some name"
    by (cases "map_of (all_vars (ctx b)) x") (auto simp: var_names_def map_of_eq_None_iff)
  obtain r c1 where r: "make_var name (ctx b) = (r, c1)" by fastforce
  note f = make_var_fresh_aux [OF r]
  obtain ty where ty: "typemap (ctx b) x = Some ty" using b x by (auto simp: rewriting_def typed_ctx_def)
  have rt: "typemap c1 r = None" using f(1,5) b by (auto simp: rewriting_def typed_ctx_def domIff)
  let ?b' = "\<lparr>df_result = (df_result b)(r \<mapsto> old\<lparr>div_by := d\<rparr>), assumed = (assumed b)(x \<mapsto> r),
    ctx = c1\<lparr>typemap := (typemap c1)(r \<mapsto> ty)\<rparr>\<rparr>"
  have new: "new_assumption x d old b = Inr ([Plain (AssumeDivBy d) [(''x'', OVar x)] [r]], ?b')"
    using name r ty f(5) rt
    by (simp add: new_assumption_def make_var_like_def get_original_name_def get_type_def set_type_def)
  have rN: "r \<notin> N" using f(1) rewriting_names [OF b] by blast
  have "typed_ctx N (c1\<lparr>typemap := (typemap c1)(r \<mapsto> ty)\<rparr>)"
    using b f(2,5) by (auto simp: rewriting_def typed_ctx_def var_names_def)
  moreover have "ran ((assumed b)(x \<mapsto> r)) \<subseteq> var_names (c1\<lparr>typemap := (typemap c1)(r \<mapsto> ty)\<rparr>) - N"
    using b f(2) rN by (auto simp: rewriting_def var_names_def ran_def split: if_splits)
  moreover have "\<forall>v \<in> N. ((df_result b)(r \<mapsto> old\<lparr>div_by := d\<rparr>)) v = P v" using b rN by (auto simp: rewriting_def)
  ultimately have "rewriting N P ?b'" by (simp add: rewriting_def)
  then show ?thesis using new f(1) by fastforce
qed

text \<open>The two environments of the simulation, on the variables in scope.\<close>

definition agrees :: "var set \<Rightarrow> divby_state \<Rightarrow> (var \<rightharpoonup> 'v) \<Rightarrow> (var \<rightharpoonup> 'v) \<Rightarrow> bool" where
  "agrees S b env env' \<longleftrightarrow>
     (\<forall>v \<in> S. env v \<noteq> None \<and> env' v = env v \<and> (\<forall>r. assumed b v = Some r \<longrightarrow> env' r = env v))"

lemma agrees_remap: "agrees S b env env' \<Longrightarrow> v \<in> S \<Longrightarrow> env' (remap b v) = env v"
  by (auto simp: agrees_def remap_def split: option.splits)

lemma agrees_assumed_in: "agrees S b env env' \<Longrightarrow> assumed_in A b b' \<Longrightarrow> S \<inter> A = {} \<Longrightarrow> agrees S b' env env'"
  unfolding agrees_def assumed_in_def by (metis disjoint_iff)

lemma agrees_those:
  "agrees S b env env' \<Longrightarrow> set vs \<subseteq> S \<Longrightarrow> those (map env' (map (remap b) vs)) = those (map env vs)"
  by (induction vs) (auto simp: agrees_remap split: option.splits)

lemma agrees_operands:
  assumes "agrees S b env env'"
  shows "set (operands_vars opnds) \<subseteq> S \<Longrightarrow> eval_operands env' (map_operands (remap b) opnds) = eval_operands env opnds"
proof (induction opnds)
  case (Cons p opnds)
  obtain n x where p: "p = (n, x)" by (cases p)
  have "set (operand_vars x) \<subseteq> S" using Cons.prems by (simp add: p operands_vars_def)
  then have "eval_operand env' (map_operand (remap b) x) = eval_operand env x"
    using agrees_remap [OF assms] agrees_those [OF assms] by (cases x) (auto simp del: map_map)
  moreover have "eval_operands env' (map_operands (remap b) opnds) = eval_operands env opnds"
    using Cons by (simp add: operands_vars_def)
  ultimately show ?case
    by (simp add: p eval_operands_def map_operands_def split: option.splits)
qed (simp add: eval_operands_def map_operands_def)

lemma bind_vars_None_same: "bind_vars env xs vs = None \<longleftrightarrow> bind_vars env' xs vs = None"
  by (simp add: bind_vars_def)

lemma agrees_bind:
  assumes "agrees S b env env'" and "rewriting N P b" and "set xs \<subseteq> N" and "S \<subseteq> N" and "\<forall>v \<in> set xs. assumed b v = None"
    and "bind_vars env xs vs = Some e"
  shows "\<exists>e'. bind_vars env' xs vs = Some e' \<and> agrees (S \<union> set xs) b e e'"
proof -
  let ?m = "map_of (zip xs vs)"
  have l: "length xs = length vs" and e: "e = env ++ ?m" using assms(6) by (auto simp: bind_vars_def split: if_splits)
  have dom: "dom ?m = set xs" using l by simp
  have "agrees (S \<union> set xs) b (env ++ ?m) (env' ++ ?m)"
    unfolding agrees_def
  proof (intro ballI conjI allI impI)
    fix v assume v: "v \<in> S \<union> set xs"
    show "(env ++ ?m) v \<noteq> None" "(env' ++ ?m) v = (env ++ ?m) v"
      using v assms(1) dom by (auto simp: agrees_def map_add_def domIff split: option.splits)
    fix r assume r: "assumed b v = Some r"
    then have "v \<notin> set xs" "v \<in> S" using assms(5) v by auto
    moreover have "r \<notin> N" using r assms(2) by (auto simp: rewriting_def ran_def)
    then have "?m r = None" "?m v = None" using dom assms(3) \<open>v \<notin> set xs\<close> by (auto simp: domIff [symmetric])
    ultimately show "(env' ++ ?m) r = (env ++ ?m) v" using assms(1) r by (simp add: agrees_def map_add_def)
  qed
  then show ?thesis using l e by (auto simp: bind_vars_def)
qed

section \<open>Assumptions\<close>

text \<open>Assumptions that hold pass, and make the new variables equal to the old ones.\<close>

definition assumptions_pass ::
  "('v, 'm) machine \<Rightarrow> (nat \<Rightarrow> 'v \<Rightarrow> bool) \<Rightarrow> df_state \<Rightarrow> var set \<Rightarrow> var set \<Rightarrow> operation list \<Rightarrow> divby_state \<Rightarrow> divby_state \<Rightarrow> bool" where
  "assumptions_pass M D st N A news b b' \<longleftrightarrow>
     (\<forall>S env env' m. A \<subseteq> S \<longrightarrow> S \<subseteq> N \<longrightarrow> agrees S b env env' \<longrightarrow> env_divisible D st env \<longrightarrow>
        (\<exists>e'. (\<forall>n ops. exec M n (news @ ops) env' m = exec M n ops e' m) \<and> agrees S b' env e'))"

lemma add_assume_ok:
  assumes M: "keeps_powers M D" and b: "rewriting N (predicates (tracker st)) b" and x: "x \<in> N"
    and known: "predicates (tracker st) x \<noteq> None"
  shows "\<exists>new b'. add_assume_divby x b = Inr (new, b') \<and> rewriting N (predicates (tracker st)) b'
    \<and> assumed_in {x} b b' \<and> assumptions_pass M D st N {x} new b b'"
proof -
  obtain p where p: "predicates (tracker st) x = Some p" using known by blast
  then have item: "df_item b x = Inr p" using b x by (simp add: df_item_def rewriting_def)
  show ?thesis
  proof (cases "assumed b x \<noteq> None \<or> \<not> power_of_2_divisor (div_by p) > 1")
    case True
    then have "add_assume_divby x b = Inr ([], b)" using item by (auto simp: add_assume_divby_def Let_def)
    moreover have "assumptions_pass M D st N {x} [] b b" by (auto simp: assumptions_pass_def)
    ultimately show ?thesis using b by (intro exI [of _ "[]"] exI [of _ b]) simp
  next
    case False
    then obtain k where k: "power_of_2_divisor (div_by p) = 2 ^ k" "2 ^ k dvd div_by p"
      using power_of_2_divisor_power by blast
    from new_assumption_ok [OF b x, of "2 ^ k" p] obtain r b' where
      new: "new_assumption x (2 ^ k) p b = Inr ([Plain (AssumeDivBy (2 ^ k)) [(''x'', OVar x)] [r]], b')"
      and b': "rewriting N (predicates (tracker st)) b'" "assumed b' = (assumed b)(x \<mapsto> r)" and r: "r \<notin> var_names (ctx b)"
      by blast
    have "add_assume_divby x b = Inr ([Plain (AssumeDivBy (2 ^ k)) [(''x'', OVar x)] [r]], b')"
      using False item new k(1) by (simp add: add_assume_divby_def Let_def)
    moreover have "assumptions_pass M D st N {x} [Plain (AssumeDivBy (2 ^ k)) [(''x'', OVar x)] [r]] b b'"
      unfolding assumptions_pass_def
    proof (intro allI impI)
      fix S and env env' :: "var \<rightharpoonup> 'a" and m :: 'b
      assume S: "{x} \<subseteq> S" "S \<subseteq> N" and ag: "agrees S b env env'" and div: "env_divisible D st env"
      obtain y where y: "env x = Some y" "env' x = Some y" using ag S(1) by (auto simp: agrees_def)
      have "D k y" using div y(1) k(2) p by (auto simp: env_divisible_def divisible_def divisor_of_def)
      then have run: "run_op M (AssumeDivBy (2 ^ k)) [types M r] [(''x'', Val y)] m = ([y], m)"
        by (rule keeps_powersD(3) [OF M])
      have "exec M n ([Plain (AssumeDivBy (2 ^ k)) [(''x'', OVar x)] [r]] @ ops) env' m = exec M n ops (env'(r \<mapsto> y)) m" for n ops
        using y run by (simp add: eval_operands_def bind_vars_def)
      moreover have "agrees S b' env (env'(r \<mapsto> y))"
        unfolding agrees_def
      proof (intro ballI conjI allI impI)
        fix v assume v: "v \<in> S"
        have "v \<noteq> r" using v S(2) rewriting_names [OF b] r by blast
        then show "env v \<noteq> None" "(env'(r \<mapsto> y)) v = env v" using ag v by (simp_all add: agrees_def)
        fix q assume q: "assumed b' v = Some q"
        show "(env'(r \<mapsto> y)) q = env v"
        proof (cases "v = x")
          case True
          then show ?thesis using q b'(2) y by simp
        next
          case False
          then have "assumed b v = Some q" using q b'(2) by simp
          moreover from this have "q \<noteq> r" using b r by (auto simp: rewriting_def ran_def)
          ultimately show ?thesis using ag v by (simp add: agrees_def)
        qed
      qed
      ultimately show "\<exists>e'. (\<forall>n ops. exec M n ([Plain (AssumeDivBy (2 ^ k)) [(''x'', OVar x)] [r]] @ ops) env' m = exec M n ops e' m)
        \<and> agrees S b' env e'" by blast
    qed
    ultimately show ?thesis using b' by (auto simp: assumed_in_def)
  qed
qed

lemma assumptions_pass_append:
  "assumptions_pass M D st N A xs a b \<Longrightarrow> assumptions_pass M D st N B ys b c \<Longrightarrow>
    assumptions_pass M D st N (A \<union> B) (xs @ ys) a c"
  unfolding assumptions_pass_def by (simp add: append_assoc) metis

lemma add_assumes_ok:
  assumes M: "keeps_powers M D"
  shows "rewriting N (predicates (tracker st)) b \<Longrightarrow> set xs \<subseteq> N \<inter> known st \<Longrightarrow>
    \<exists>news b'. add_assumes xs b = Inr (news, b') \<and> rewriting N (predicates (tracker st)) b'
      \<and> assumed_in (set xs) b b' \<and> assumptions_pass M D st N (set xs) news b b'"
proof (induction xs arbitrary: b)
  case Nil
  have "assumptions_pass M D st N {} [] b b" by (auto simp: assumptions_pass_def)
  then show ?case using Nil by simp
next
  case (Cons x xs)
  obtain new b1 where one: "add_assume_divby x b = Inr (new, b1)" "rewriting N (predicates (tracker st)) b1"
    "assumed_in {x} b b1" "assumptions_pass M D st N {x} new b b1"
    using add_assume_ok [OF M Cons.prems(1), of x] Cons.prems(2) by (auto simp: known_def)
  obtain news b2 where more: "add_assumes xs b1 = Inr (news, b2)" "rewriting N (predicates (tracker st)) b2"
    "assumed_in (set xs) b1 b2" "assumptions_pass M D st N (set xs) news b1 b2"
    using Cons.IH [OF one(2)] Cons.prems(2) by auto
  have "assumed_in (set (x # xs)) b b2" by (rule assumed_in_trans [OF one(3) more(3)]) auto
  moreover have "assumptions_pass M D st N (set (x # xs)) (new @ news) b b2"
    using assumptions_pass_append [OF one(4) more(4)] by simp
  ultimately show ?case using one(1) more(1,2) by simp
qed

end
