(* ===== verification/DivbySim.thy ===== *)
theory DivbySim
  imports DivbyState
begin

text \<open>
  The simulation between a kernel and the kernel with assumptions: in both the same values flow
  between blocks, and they are multiples of the divisors of the variables they flow to.
\<close>

section \<open>Values that flow between blocks\<close>

definition divisibles :: "(nat \<Rightarrow> 'v \<Rightarrow> bool) \<Rightarrow> df_state \<Rightarrow> var list \<Rightarrow> 'v list \<Rightarrow> bool" where
  "divisibles D st vs xs \<longleftrightarrow> list_all2 (\<lambda>v x. divisible D (divisor_of st v) x) vs xs"

lemma divisibles_bind:
  assumes "env_divisible D st env" and "divisibles D st xs vs" and "bind_vars env xs vs = Some e"
  shows "env_divisible D st e"
proof -
  have l: "length xs = length vs" and e: "e = env ++ map_of (zip xs vs)"
    using assms(3) by (auto simp: bind_vars_def split: if_splits)
  have "divisible D (divisor_of st v) x" if "map_of (zip xs vs) v = Some x" for v x
  proof -
    have "(v, x) \<in> set (zip xs vs)" by (rule map_of_SomeD [OF that])
    then show ?thesis using assms(2) by (auto simp: divisibles_def list_all2_iff)
  qed
  then show ?thesis using assms(1) by (auto simp: env_divisible_def e map_add_Some_iff)
qed

lemma those_nth: "those (map f xs) = Some ys \<Longrightarrow> length ys = length xs \<and> (\<forall>i < length xs. f (xs ! i) = Some (ys ! i))"
proof (induction xs arbitrary: ys)
  case (Cons x xs)
  then obtain y zs where "ys = y # zs" "f x = Some y" "those (map f xs) = Some zs" by (auto split: option.splits)
  then show ?case using Cons.IH by (auto simp: nth_Cons split: nat.splits)
qed simp

lemma pairs_values:
  assumes still: "propagate_all ps st = Inr st" "\<not> dirty st" and env: "env_divisible D st env"
    and ws: "those (map env vs) = Some ws" and l: "length vs = length rs"
    and ps: "\<And>i. i < length rs \<Longrightarrow> (vs ! i, rs ! i) \<in> set ps"
  shows "divisibles D st rs ws"
proof -
  have "divisible D (divisor_of st (rs ! i)) (ws ! i)" if i: "i < length rs" for i
  proof -
    have "env (vs ! i) = Some (ws ! i)" using those_nth [OF ws] l i by simp
    then have "divisible D (divisor_of st (vs ! i)) (ws ! i)" using env by (simp add: env_divisible_def)
    then show ?thesis using divisible_dvd settled_propagate_all [OF still ps [OF i]] by metis
  qed
  then show ?thesis using those_nth [OF ws] l by (simp add: divisibles_def list_all2_conv_all_nth)
qed

lemma strict_zip_Inr: "strict_zip xs ys = Inr zs \<longleftrightarrow> length xs = length ys \<and> zs = zip xs ys"
  by (auto simp: strict_zip_def)

lemma zip_values:
  assumes "strict_zip vs rs = Inr ps" and "propagate_all ps st = Inr st" and "\<not> dirty st" and "env_divisible D st env"
    and "those (map env vs) = Some ws"
  shows "divisibles D st rs ws"
  using assms(1) by (intro pairs_values [OF assms(2-5)]) (auto simp: strict_zip_Inr set_zip)

lemma flow_values:
  assumes flow: "flow_to_loop f vs bs rs st = Inr st" and "\<not> dirty st" and "env_divisible D st env"
    and "those (map env vs) = Some ws"
  shows "divisibles D st bs ws \<and> (f \<longrightarrow> divisibles D st rs ws)"
proof -
  have l: "length bs = length rs" "length vs = length rs" and pr: "propagate_all (flow_pairs f (zip vs (zip bs rs))) st = Inr st"
    using flow by (auto simp: flow_to_loop_def and_then_Inr_iff strict_zip_Inr)
  have mem: "(vs ! i, bs ! i, rs ! i) \<in> set (zip vs (zip bs rs))" if "i < length rs" for i
    using that l by (force simp: set_zip)
  have "(vs ! i, bs ! i) \<in> set (flow_pairs f (zip vs (zip bs rs)))" if "i < length rs" for i
    using mem [OF that] by (force simp: flow_pairs_def)
  then have "divisibles D st bs ws" using l by (intro pairs_values [OF pr assms(2-4)]) auto
  moreover have "(vs ! i, rs ! i) \<in> set (flow_pairs f (zip vs (zip bs rs)))" if "i < length rs" f for i
    using mem [OF that(1)] that(2) by (force simp: flow_pairs_def)
  then have "f \<Longrightarrow> divisibles D st rs ws" using l by (intro pairs_values [OF pr assms(2-4)]) auto
  ultimately show ?thesis by blast
qed

text \<open>How a block ends, against the variables its values flow to.\<close>

fun outcome_divisible :: "(nat \<Rightarrow> 'v \<Rightarrow> bool) \<Rightarrow> df_state \<Rightarrow> df_loop \<Rightarrow> var list option \<Rightarrow> 'v outcome \<Rightarrow> bool" where
  "outcome_divisible D st l t (Fell env) = True"
| "outcome_divisible D st l t (Yielded vs) \<longleftrightarrow> (\<exists>rs. t = Some rs \<and> divisibles D st rs vs)"
| "outcome_divisible D st l t (Continued vs) \<longleftrightarrow>
     (\<exists>f bs rs. l = Some (f, bs, rs) \<and> divisibles D st bs vs \<and> (f \<longrightarrow> divisibles D st rs vs))"
| "outcome_divisible D st l t (Broke vs) \<longleftrightarrow> (\<exists>f bs rs. l = Some (f, bs, rs) \<and> divisibles D st rs vs)"
| "outcome_divisible D st l t Returned = True"

definition runs_divisible ::
  "(nat \<Rightarrow> 'v \<Rightarrow> bool) \<Rightarrow> df_state \<Rightarrow> df_loop \<Rightarrow> var list option \<Rightarrow> ('v outcome \<times> 'm) option \<Rightarrow> bool" where
  "runs_divisible D st l t r \<longleftrightarrow> (\<forall>q m. r = Some (q, m) \<longrightarrow> outcome_divisible D st l t q)"

text \<open>Loops whose bodies agree on good values agree.\<close>

lemma loop_step_split:
  assumes "forget r' = forget r"
    and "\<And>vs m. r = Some (Continued vs, m) \<Longrightarrow> k' vs m = k vs m"
  shows "loop_step r' k' = loop_step r k"
proof -
  have "loop_step r' k' = loop_step r k'" by (rule loop_step_cong [OF assms(1)]) simp
  also have "\<dots> = loop_step r k" using assms(2) by (auto simp: loop_step_def split: option.splits outcome.splits)
  finally show ?thesis .
qed

definition good_body ::
  "('v list \<Rightarrow> bool) \<Rightarrow> ('v list \<Rightarrow> bool) \<Rightarrow> ('v outcome \<times> 'm) option \<Rightarrow> ('v outcome \<times> 'm) option \<Rightarrow> bool" where
  "good_body G R r r' \<longleftrightarrow> forget r' = forget r
     \<and> (\<forall>vs m. r = Some (Continued vs, m) \<longrightarrow> G vs) \<and> (\<forall>vs m. r = Some (Broke vs, m) \<longrightarrow> R vs)"

definition good_end :: "('v list \<Rightarrow> bool) \<Rightarrow> ('v loop_end \<times> 'm) option \<Rightarrow> bool" where
  "good_end R r \<longleftrightarrow> (\<forall>ws m. r = Some (Finished ws, m) \<longrightarrow> R ws)"

lemma good_step:
  assumes "good_body G R r r'" and "\<And>vs m. G vs \<Longrightarrow> k' vs m = k vs m \<and> good_end R (k vs m)"
  shows "loop_step r' k' = loop_step r k \<and> good_end R (loop_step r k)"
proof
  show "loop_step r' k' = loop_step r k" using assms by (intro loop_step_split) (auto simp: good_body_def)
  show "good_end R (loop_step r k)"
    using assms by (auto simp: good_end_def good_body_def loop_step_def split: option.splits outcome.splits)
qed

lemma while_good:
  assumes "\<And>vs m. G vs \<Longrightarrow> good_body G R (f vs m) (f' vs m)"
  shows "G vs \<Longrightarrow> while_iterations f' n vs m = while_iterations f n vs m \<and> good_end R (while_iterations f n vs m)"
proof (induction n arbitrary: vs m)
  case (Suc n)
  show ?case using good_step [OF assms [OF Suc.prems]] Suc.IH by simp
qed (simp add: good_end_def)

lemma for_good:
  assumes "\<And>i vs m. G vs \<Longrightarrow> good_body G R (f (i # vs) m) (f' (i # vs) m)" and "\<And>vs. G vs \<Longrightarrow> R vs"
  shows "G vs \<Longrightarrow> for_iterations f' is vs m = for_iterations f is vs m \<and> good_end R (for_iterations f is vs m)"
proof (induction "is" arbitrary: vs m)
  case (Cons i "is")
  show ?case using good_step [OF assms(1) [OF Cons.prems]] Cons.IH by simp
qed (simp add: good_end_def assms(2))

lemma branch_good:
  assumes "forget r' = forget r" and "\<And>vs m. r = Some (Yielded vs, m) \<Longrightarrow> forget (k' vs m) = forget (k vs m)"
  shows "forget (branch_step r' k') = forget (branch_step r k)"
proof -
  have "forget (branch_step r' k') = forget (branch_step r k')" by (rule branch_step_cong [OF assms(1)]) simp
  also have "\<dots> = forget (branch_step r k)" using assms(2) by (auto simp: branch_step_def split: option.splits outcome.splits)
  finally show ?thesis .
qed

section \<open>The rewriting keeps the runs\<close>

fun block_typed :: "(var \<rightharpoonup> ir_type) \<Rightarrow> operation list \<Rightarrow> bool" where
  "block_typed T [] = True"
| "block_typed T (Plain cl opnds rs # ops) \<longleftrightarrow> operation_typed T cl opnds rs \<and> block_typed T ops"
| "block_typed T (Loop i rng inits params body rs # ops) \<longleftrightarrow> block_typed T body \<and> block_typed T ops"
| "block_typed T (IfElse i c th el rs # ops) \<longleftrightarrow> block_typed T th \<and> block_typed T el \<and> block_typed T ops"
| "block_typed T (Reduction i k xs params body rs # ops) \<longleftrightarrow> block_typed T body \<and> block_typed T ops"
| "block_typed T (op # ops) \<longleftrightarrow> block_typed T ops"

text \<open>What the analysis leaves alone it leaves alone in every part.\<close>

lemma settled_plain:
  "analyze_block c (Plain cl opnds rs # ops) l t st = Inr st \<Longrightarrow> \<not> dirty st \<Longrightarrow>
    analyze_plain c cl opnds rs st = Inr st \<and> analyze_block c ops l t st = Inr st"
  using settled_then [of "analyze_plain c cl opnds rs" st "analyze_block c ops l t"] qt.plain qt.block by auto

lemma settled_loop:
  assumes "analyze_block c (Loop i rng inits params body rs # ops) l t st = Inr st" and "\<not> dirty st"
  shows "set_induction_var rng params st = Inr st \<and> flow_to_loop (is_for_loop rng) inits (body_vars rng params) rs st = Inr st
    \<and> analyze_block c body (Some (is_for_loop rng, body_vars rng params, rs)) None st = Inr st
    \<and> analyze_block c ops l t st = Inr st"
proof -
  obtain a b d where abd: "set_induction_var rng params st = Inr a"
    "flow_to_loop (is_for_loop rng) inits (body_vars rng params) rs a = Inr b"
    "analyze_block c body (Some (is_for_loop rng, body_vars rng params, rs)) None b = Inr d"
    "analyze_block c ops l t d = Inr st"
    using assms(1) by (auto simp: and_then_Inr_iff)
  note q = qt.induction_var [OF abd(1)] qt.flow [OF abd(2)] qt.block [OF abd(3)] qt.block [OF abd(4)]
  have "d = st" "b = st" "a = st" using q assms(2) by (auto simp: quiet_def)
  then show ?thesis using abd by simp
qed

lemma settled_branch:
  assumes "analyze_block c (IfElse i x th el rs # ops) l t st = Inr st" and "\<not> dirty st"
  shows "analyze_block c th l (Some rs) st = Inr st \<and> analyze_block c el l (Some rs) st = Inr st
    \<and> analyze_block c ops l t st = Inr st"
proof -
  obtain a b where ab: "analyze_block c th l (Some rs) st = Inr a" "analyze_block c el l (Some rs) a = Inr b"
    "analyze_block c ops l t b = Inr st"
    using assms(1) by (auto simp: and_then_Inr_iff)
  note q = qt.block [OF ab(1)] qt.block [OF ab(2)] qt.block [OF ab(3)]
  have "b = st" "a = st" using q assms(2) by (auto simp: quiet_def)
  then show ?thesis using ab by simp
qed

lemma settled_jump:
  assumes "\<not> dirty st"
  shows "analyze_block c (Continue vs # ops) l t st = Inr st \<Longrightarrow>
      \<exists>f bs rs. l = Some (f, bs, rs) \<and> flow_to_loop f vs bs rs st = Inr st"
    and "analyze_block c (Break vs # ops) l t st = Inr st \<Longrightarrow>
      \<exists>f bs rs ps. l = Some (f, bs, rs) \<and> strict_zip vs rs = Inr ps \<and> propagate_all ps st = Inr st"
    and "analyze_block c (EndBranch vs # ops) l t st = Inr st \<Longrightarrow>
      \<exists>rs ps. t = Some rs \<and> strict_zip vs rs = Inr ps \<and> propagate_all ps st = Inr st"
proof -
  have still: "b = st" if "quiet st b" "analyze_block c ops l t b = Inr st" for b
    using settled [OF that(1) qt.block [OF that(2)]] assms by blast
  show "analyze_block c (Continue vs # ops) l t st = Inr st \<Longrightarrow>
      \<exists>f bs rs. l = Some (f, bs, rs) \<and> flow_to_loop f vs bs rs st = Inr st"
    using still qt.flow by (auto simp: and_then_Inr_iff split: option.splits)
  show "analyze_block c (Break vs # ops) l t st = Inr st \<Longrightarrow>
      \<exists>f bs rs ps. l = Some (f, bs, rs) \<and> strict_zip vs rs = Inr ps \<and> propagate_all ps st = Inr st"
    using still qt.propagate_all by (auto simp: and_then_Inr_iff split: option.splits)
  show "analyze_block c (EndBranch vs # ops) l t st = Inr st \<Longrightarrow>
      \<exists>rs ps. t = Some rs \<and> strict_zip vs rs = Inr ps \<and> propagate_all ps st = Inr st"
    using still qt.propagate_all by (auto simp: and_then_Inr_iff split: option.splits)
qed

definition same_runs ::
  "('v, 'm) machine \<Rightarrow> (nat \<Rightarrow> 'v \<Rightarrow> bool) \<Rightarrow> ir_context \<Rightarrow> df_state \<Rightarrow> var set
   \<Rightarrow> operation list \<Rightarrow> divby_state \<Rightarrow> operation list \<Rightarrow> bool" where
  "same_runs M D c st N ops b ops' \<longleftrightarrow>
     (\<forall>l t S env env' n m. analyze_block c ops l t st = Inr st \<longrightarrow> scoped S ops \<longrightarrow> S \<subseteq> N
        \<longrightarrow> S \<inter> set (all_defs ops) = {} \<longrightarrow> block_typed (typemap c) ops
        \<longrightarrow> agrees S b env env' \<longrightarrow> env_divisible D st env \<longrightarrow>
        forget (exec M n ops' env' m) = forget (exec M n ops env m)
        \<and> runs_divisible D st l t (exec M n ops env m))"

lemma same_runsD:
  assumes "same_runs M D c st N ops b ops'" and "analyze_block c ops l t st = Inr st" and "scoped S ops" and "S \<subseteq> N"
    and "S \<inter> set (all_defs ops) = {}" and "block_typed (typemap c) ops" and "agrees S b env env'" and "env_divisible D st env"
  shows "forget (exec M n ops' env' m) = forget (exec M n ops env m) \<and> runs_divisible D st l t (exec M n ops env m)"
  using assms unfolding same_runs_def by blast

lemma same_runsI:
  assumes "\<And>l t S env env' n m. analyze_block c ops l t st = Inr st \<Longrightarrow> scoped S ops \<Longrightarrow> agrees S b env env' \<Longrightarrow>
    env_divisible D st env \<Longrightarrow>
    forget (exec M n ops' env' m) = forget (exec M n ops env m) \<and> runs_divisible D st l t (exec M n ops env m)"
  shows "same_runs M D c st N ops b ops'"
  unfolding same_runs_def using assms by blast

text \<open>After an operation: its results are bound and the assumptions on them pass.\<close>

lemma results_tail:
  assumes b: "rewriting N P b" and sets: "set rs \<subseteq> N" "S \<subseteq> N" "\<forall>v \<in> set rs. assumed b v = None"
    and ag: "agrees S b env env'" and env: "env_divisible D st env" and vs: "divisibles D st rs vs"
    and news: "assumptions_pass M D st N A news b b1" "A \<subseteq> set rs"
    and b2: "assumed_in B b1 b2" "B \<inter> (S \<union> set rs) = {}"
    and rest: "same_runs M D c st N ops b2 ops'" "analyze_block c ops l t st = Inr st" "scoped (S \<union> set rs) ops"
      "(S \<union> set rs) \<inter> set (all_defs ops) = {}" "block_typed (typemap c) ops"
  shows "forget (Option.bind (bind_vars env' rs vs) (\<lambda>e. exec M n (news @ ops') e m)) =
      forget (Option.bind (bind_vars env rs vs) (\<lambda>e. exec M n ops e m))
    \<and> runs_divisible D st l t (Option.bind (bind_vars env rs vs) (\<lambda>e. exec M n ops e m))"
proof (cases "bind_vars env rs vs")
  case None
  then have "bind_vars env' rs vs = None" using bind_vars_None_same [of env rs vs env'] by simp
  then show ?thesis using None by (simp add: runs_divisible_def)
next
  case (Some e)
  obtain e' where e': "bind_vars env' rs vs = Some e'" "agrees (S \<union> set rs) b e e'"
    using agrees_bind [OF ag b sets(1,2,3) Some] by blast
  have div: "env_divisible D st e" by (rule divisibles_bind [OF env vs Some])
  obtain e2 where e2: "\<And>n ops. exec M n (news @ ops) e' m = exec M n ops e2 m" "agrees (S \<union> set rs) b1 e e2"
    using news e'(2) div sets(1,2) unfolding assumptions_pass_def by (metis Un_least le_supI2)
  have "agrees (S \<union> set rs) b2 e e2" using agrees_assumed_in [OF e2(2) b2(1)] b2(2) by blast
  then show ?thesis
    using rest div sets(1,2) Some e'(1) e2(1) unfolding same_runs_def by (simp add: Un_least)
qed

lemma same_runs_Plain:
  assumes M: "keeps_powers M D" and T: "\<forall>v \<in> N. types M v = typemap c v" and clean: "\<not> dirty st"
    and b: "rewriting N P b" and sets: "set rs \<subseteq> N" "\<forall>v \<in> set rs. assumed b v = None"
    and dist: "set rs \<inter> set (all_defs ops) = {}"
    and news: "assumptions_pass M D st N A news b b1" "A \<subseteq> set rs" and rest: "same_runs M D c st N ops b1 ops'"
  shows "same_runs M D c st N (Plain cl opnds rs # ops) b (Plain cl (map_operands (remap b) opnds) rs # news @ ops')"
  unfolding same_runs_def
proof (intro allI impI)
  fix l t S n m and env env' :: "var \<rightharpoonup> 'a"
  assume still: "analyze_block c (Plain cl opnds rs # ops) l t st = Inr st"
    and sc: "scoped S (Plain cl opnds rs # ops)" and S: "S \<subseteq> N" "S \<inter> set (all_defs (Plain cl opnds rs # ops)) = {}"
    and typed: "block_typed (typemap c) (Plain cl opnds rs # ops)"
    and ag: "agrees S b env env'" and env: "env_divisible D st env"
  note still' = settled_plain [OF still clean]
  have ev: "eval_operands env' (map_operands (remap b) opnds) = eval_operands env opnds"
    using agrees_operands [OF ag] sc by simp
  show "forget (exec M n (Plain cl (map_operands (remap b) opnds) rs # news @ ops') env' m) =
      forget (exec M n (Plain cl opnds rs # ops) env m)
    \<and> runs_divisible D st l t (exec M n (Plain cl opnds rs # ops) env m)"
  proof (cases "eval_operands env opnds")
    case None
    then show ?thesis using ev by (simp add: runs_divisible_def)
  next
    case (Some args)
    obtain outs m' where run: "run_op M cl (map (types M) rs) args m = (outs, m')" by fastforce
    show ?thesis
    proof (cases "length rs = length outs")
      case False
      then show ?thesis using Some ev run by (simp add: runs_divisible_def bind_vars_def)
    next
      case True
      have tys: "map (types M) rs = map (typemap c) rs" using T sets(1) by auto
      have vs: "divisibles D st rs outs"
        unfolding divisibles_def using still' typed
        by (intro plain_sound [OF M _ clean Some env _ run [unfolded tys] True]) simp_all
      have "forget (Option.bind (bind_vars env' rs outs) (\<lambda>e. exec M n (news @ ops') e m')) =
          forget (Option.bind (bind_vars env rs outs) (\<lambda>e. exec M n ops e m'))
        \<and> runs_divisible D st l t (Option.bind (bind_vars env rs outs) (\<lambda>e. exec M n ops e m'))"
        by (rule results_tail [OF b sets(1) S(1) sets(2) ag env vs news assumed_in_refl [of "{}"] _ rest])
          (use still' sc S dist typed in auto)
      then show ?thesis using Some ev run by simp
    qed
  qed
qed

lemma those_agrees_range:
  assumes "agrees S b env env'" and "set (range_vars rng) \<subseteq> S" and "set inits \<subseteq> S"
    and "\<And>vs m. those (map env inits) = Some vs \<Longrightarrow> rng = None \<Longrightarrow>
      while_iterations f' n vs m = while_iterations f n vs m"
    and "\<And>vs is m. those (map env inits) = Some vs \<Longrightarrow> rng \<noteq> None \<Longrightarrow> for_iterations f' is vs m = for_iterations f is vs m"
    and "f = (\<lambda>vs m. Option.bind (bind_vars env params vs) (\<lambda>e. body e m))"
    and "f' = (\<lambda>vs m. Option.bind (bind_vars env' params vs) (\<lambda>e. body' e m))"
  shows "run_loop M n (map_range (remap b) rng) (map (remap b) inits) params body' env' m = run_loop M n rng inits params body env m"
proof -
  have i: "those (map env' (map (remap b) inits)) = those (map env inits)" by (rule agrees_those [OF assms(1,3)])
  show ?thesis
  proof (cases rng)
    case None
    then show ?thesis
      using i assms(4,6,7) unfolding run_loop_def map_range_def by (cases "those (map env inits)") (simp_all del: map_map)
  next
    case (Some r)
    obtain a z s where r: "r = (a, z, s)" by (cases r)
    have "env' (remap b a) = env a" "env' (remap b z) = env z" "env' (remap b s) = env s"
      using agrees_remap [OF assms(1)] assms(2) by (auto simp: Some r range_vars_def)
    then show ?thesis
      using i assms(5,6,7) unfolding run_loop_def map_range_def Some r
      by (cases "those (map env inits)") (simp_all del: map_map cong: option.case_cong)
  qed
qed

lemma good_end_bind: "(\<And>x. r = Some x \<Longrightarrow> good_end R (g x)) \<Longrightarrow> good_end R (Option.bind r g)"
  by (cases r) (auto simp: good_end_def)

lemma run_loop_good_end:
  assumes "\<And>vs m. those (map env inits) = Some vs \<Longrightarrow> rng = None \<Longrightarrow> good_end R (while_iterations f n vs m)"
    and "\<And>vs is m. those (map env inits) = Some vs \<Longrightarrow> rng \<noteq> None \<Longrightarrow> good_end R (for_iterations f is vs m)"
    and "f = (\<lambda>vs m. Option.bind (bind_vars env params vs) (\<lambda>e. body e m))"
  shows "good_end R (run_loop M n rng inits params body env m)"
proof (cases rng)
  case None
  then show ?thesis unfolding run_loop_def Let_def using assms(1) by (auto intro!: good_end_bind simp: assms(3))
next
  case (Some r)
  obtain a z s where r: "r = (a, z, s)" by (cases r)
  show ?thesis unfolding run_loop_def Let_def Some r using assms(2) Some by (auto intro!: good_end_bind simp: assms(3))
qed

text \<open>The body of a loop, from values that suit its parameters.\<close>

lemma loop_body_good:
  assumes b: "rewriting N P b1" and sets: "set params \<subseteq> N" "S \<subseteq> N" "\<forall>v \<in> set params. assumed b1 v = None"
    and dist: "(S \<union> set params) \<inter> set (all_defs body) = {}"
    and ag: "agrees S b1 env env'" and env: "env_divisible D st env" and vs: "divisibles D st params vs"
    and heads: "assumptions_pass M D st N (set params) heads b1 b2"
    and body: "same_runs M D c st N body b2 body'" "analyze_block c body (Some (f, bs, rs)) None st = Inr st"
      "scoped (S \<union> set params) body" "block_typed (typemap c) body"
  shows "good_body (\<lambda>vs. divisibles D st bs vs \<and> (f \<longrightarrow> divisibles D st rs vs)) (divisibles D st rs)
    (Option.bind (bind_vars env params vs) (\<lambda>e. exec M n body e m))
    (Option.bind (bind_vars env' params vs) (\<lambda>e. exec M n (heads @ body') e m))"
proof -
  have "forget (Option.bind (bind_vars env' params vs) (\<lambda>e. exec M n (heads @ body') e m)) =
      forget (Option.bind (bind_vars env params vs) (\<lambda>e. exec M n body e m))
    \<and> runs_divisible D st (Some (f, bs, rs)) None (Option.bind (bind_vars env params vs) (\<lambda>e. exec M n body e m))"
    by (rule results_tail [OF b sets(1,2,3) ag env vs heads subset_refl assumed_in_refl [of "{}"] _ body(1) body(2) body(3) dist body(4)]) simp
  then show ?thesis by (auto simp: good_body_def runs_divisible_def)
qed

lemma divisibles_anything:
  assumes "keeps_powers M D" and "divisor_of st v dvd 1"
  shows "divisible D (divisor_of st v) x"
proof -
  have "D 0 x" by (rule keeps_powersD(1) [OF assms(1)])
  then have "divisible D 1 x" unfolding divisible_def by (metis two_power_dvd_one)
  then show ?thesis using divisible_dvd assms(2) by metis
qed

lemma same_runs_Loop:
  assumes M: "keeps_powers M D" and clean: "\<not> dirty st"
    and b: "rewriting N P b" "rewriting N P b1" and eq: "assumed_in (set rs) b b1"
    and sets: "set rs \<subseteq> N" "set params \<subseteq> N" "\<forall>v \<in> set rs \<union> set params. assumed b v = None"
    and dist: "distinct (params @ all_defs body @ rs @ all_defs ops)"
    and news: "assumptions_pass M D st N A news b b1" "A \<subseteq> set rs"
    and heads: "assumptions_pass M D st N (set params) heads b1 b2"
    and b3: "assumed_in (set params \<union> set (all_defs body)) b1 b3"
    and body: "same_runs M D c st N body b2 body'" and rest: "same_runs M D c st N ops b3 ops'"
  shows "same_runs M D c st N (Loop i rng inits params body rs # ops) b
    (Loop i' (map_range (remap b) rng) (map (remap b) inits) params (heads @ body') rs # news @ ops')"
  unfolding same_runs_def
proof (intro allI impI)
  fix l t S n m and env env' :: "var \<rightharpoonup> 'a"
  assume still: "analyze_block c (Loop i rng inits params body rs # ops) l t st = Inr st"
    and sc: "scoped S (Loop i rng inits params body rs # ops)" and SN: "S \<subseteq> N"
    and S: "S \<inter> set (all_defs (Loop i rng inits params body rs # ops)) = {}"
    and typed: "block_typed (typemap c) (Loop i rng inits params body rs # ops)"
    and ag: "agrees S b env env'" and env: "env_divisible D st env"
  note still' = settled_loop [OF still clean]
  let ?bs = "body_vars rng params" and ?f = "is_for_loop rng"
  let ?G = "\<lambda>vs. divisibles D st ?bs vs \<and> (?f \<longrightarrow> divisibles D st rs vs)"
  let ?run = "\<lambda>vs m. Option.bind (bind_vars env params vs) (\<lambda>e. exec M n body e m)"
  let ?run' = "\<lambda>vs m. Option.bind (bind_vars env' params vs) (\<lambda>e. exec M n (heads @ body') e m)"
  have ag1: "agrees S b1 env env'" using agrees_assumed_in [OF ag eq] S by auto
  have good: "good_body ?G (divisibles D st rs) (?run vs m) (?run' vs m)" if "divisibles D st params vs" for vs m
    by (rule loop_body_good [OF b(2) sets(2) SN _ _ ag1 env that heads body])
      (use eq sets(3) dist S sc typed still' in \<open>auto simp: assumed_in_def\<close>)
  have inits: "?G vs" if "those (map env inits) = Some vs" for vs
    using flow_values [OF _ clean env that] still' by blast
  have run: "run_loop M n (map_range (remap b) rng) (map (remap b) inits) params (exec M n (heads @ body')) env' m
      = run_loop M n rng inits params (exec M n body) env m \<and>
    good_end (divisibles D st rs) (run_loop M n rng inits params (exec M n body) env m)"
  proof (cases rng)
    case None
    then have bs: "?bs = params" "\<not> ?f" by (simp_all add: body_vars_def is_for_loop_def)
    have w: "while_iterations ?run' n vs m = while_iterations ?run n vs m
        \<and> good_end (divisibles D st rs) (while_iterations ?run n vs m)" if "?G vs" for vs m
      by (rule while_good [where G = ?G, OF _ that]) (use good bs in auto)
    have "run_loop M n (map_range (remap b) rng) (map (remap b) inits) params (exec M n (heads @ body')) env' m
      = run_loop M n rng inits params (exec M n body) env m"
      by (rule those_agrees_range [OF ag, where f = ?run and f' = ?run'])
        (use sc w inits None in \<open>auto simp: range_vars_def\<close>)
    moreover have "good_end (divisibles D st rs) (run_loop M n rng inits params (exec M n body) env m)"
      by (rule run_loop_good_end [where f = ?run]) (use w inits None in auto)
    ultimately show ?thesis by blast
  next
    case (Some r)
    obtain x y z where r: "r = (x, y, z)" by (cases r)
    obtain iv where iv: "params = iv # ?bs" and f: "?f" and one: "set_always_true iv st = st"
      using still' by (auto simp: set_induction_var_def body_vars_def is_for_loop_def Some split: list.splits)
    have "divisor_of st iv dvd 1" using settled_always_true [of "[iv]" st iv] one clean by simp
    then have any: "divisible D (divisor_of st iv) x" for x using divisibles_anything [OF M] by blast
    have w: "for_iterations ?run' is vs m = for_iterations ?run is vs m
        \<and> good_end (divisibles D st rs) (for_iterations ?run is vs m)" if "?G vs" for "is" vs m
    proof (rule for_good [where G = ?G, OF _ _ that])
      fix j vs m assume "?G vs"
      then have "divisibles D st params (j # vs)" using any by (subst iv) (simp add: divisibles_def)
      then show "good_body ?G (divisibles D st rs) (?run (j # vs) m) (?run' (j # vs) m)" by (rule good)
    qed (use f in blast)
    have "run_loop M n (map_range (remap b) rng) (map (remap b) inits) params (exec M n (heads @ body')) env' m
      = run_loop M n rng inits params (exec M n body) env m"
      by (rule those_agrees_range [OF ag, where f = ?run and f' = ?run'])
        (use sc w inits Some in \<open>auto simp: range_vars_def\<close>)
    moreover have "good_end (divisibles D st rs) (run_loop M n rng inits params (exec M n body) env m)"
      by (rule run_loop_good_end [where f = ?run]) (use w inits Some in auto)
    ultimately show ?thesis by blast
  qed
  show "forget (exec M n (Loop i' (map_range (remap b) rng) (map (remap b) inits) params (heads @ body') rs # news @ ops') env' m) =
      forget (exec M n (Loop i rng inits params body rs # ops) env m)
    \<and> runs_divisible D st l t (exec M n (Loop i rng inits params body rs # ops) env m)"
  proof (cases "run_loop M n rng inits params (exec M n body) env m")
    case None
    then show ?thesis using run by (simp add: runs_divisible_def)
  next
    case (Some p)
    show ?thesis
    proof (cases "fst p")
      case LoopReturned
      then show ?thesis using run Some by (cases p) (simp add: runs_divisible_def)
    next
      case (Finished ws)
      then obtain m' where p: "p = (Finished ws, m')" by (cases p) auto
      have vs: "divisibles D st rs ws" using run Some p by (simp add: good_end_def)
      have "forget (Option.bind (bind_vars env' rs ws) (\<lambda>e. exec M n (news @ ops') e m')) =
          forget (Option.bind (bind_vars env rs ws) (\<lambda>e. exec M n ops e m'))
        \<and> runs_divisible D st l t (Option.bind (bind_vars env rs ws) (\<lambda>e. exec M n ops e m'))"
        by (rule results_tail [OF b(1) sets(1) SN _ ag env vs news b3 _ rest])
          (use still' sc S dist typed sets(3) in auto)
      then show ?thesis using run Some p by simp
    qed
  qed
qed

lemma same_runs_IfElse:
  assumes clean: "\<not> dirty st" and b: "rewriting N P b" and eq: "assumed_in (set rs) b b1"
    and sets: "set rs \<subseteq> N" "\<forall>v \<in> set rs. assumed b v = None"
    and dist: "distinct (all_defs th @ all_defs el @ rs @ all_defs ops)"
    and news: "assumptions_pass M D st N A news b b1" "A \<subseteq> set rs"
    and b2: "assumed_in (set (all_defs th)) b1 b2" and b3: "assumed_in (set (all_defs el)) b2 b3"
    and th: "same_runs M D c st N th b1 th'" and el: "same_runs M D c st N el b2 el'"
    and rest: "same_runs M D c st N ops b3 ops'"
  shows "same_runs M D c st N (IfElse i x th el rs # ops) b (IfElse i' (remap b x) th' el' rs # news @ ops')"
  unfolding same_runs_def
proof (intro allI impI)
  fix l t S n m and env env' :: "var \<rightharpoonup> 'a"
  assume still: "analyze_block c (IfElse i x th el rs # ops) l t st = Inr st"
    and sc: "scoped S (IfElse i x th el rs # ops)" and SN: "S \<subseteq> N"
    and S: "S \<inter> set (all_defs (IfElse i x th el rs # ops)) = {}"
    and typed: "block_typed (typemap c) (IfElse i x th el rs # ops)"
    and ag: "agrees S b env env'" and env: "env_divisible D st env"
  note still' = settled_branch [OF still clean]
  have ag1: "agrees S b1 env env'" using agrees_assumed_in [OF ag eq] S by auto
  have ag2: "agrees S b2 env env'" using agrees_assumed_in [OF ag1 b2] S by auto
  have th_runs: "forget (exec M n th' env' m) = forget (exec M n th env m) \<and> runs_divisible D st l (Some rs) (exec M n th env m)"
    by (rule same_runsD [OF th _ _ SN _ _ ag1 env]) (use still' sc S typed in auto)
  have el_runs: "forget (exec M n el' env' m) = forget (exec M n el env m) \<and> runs_divisible D st l (Some rs) (exec M n el env m)"
    by (rule same_runsD [OF el _ _ SN _ _ ag2 env]) (use still' sc S typed in auto)
  obtain v where v: "env x = Some v" "env' (remap b x) = Some v" using ag sc agrees_remap [OF ag, of x] by (auto simp: agrees_def)
  let ?r = "if truth M v then exec M n th env m else exec M n el env m"
  let ?r' = "if truth M v then exec M n th' env' m else exec M n el' env' m"
  have both: "forget ?r' = forget ?r" "runs_divisible D st l (Some rs) ?r" using th_runs el_runs by auto
  have tail: "forget (Option.bind (bind_vars env' rs ws) (\<lambda>e. exec M n (news @ ops') e m')) =
      forget (Option.bind (bind_vars env rs ws) (\<lambda>e. exec M n ops e m'))
    \<and> runs_divisible D st l t (Option.bind (bind_vars env rs ws) (\<lambda>e. exec M n ops e m'))"
    if "?r = Some (Yielded ws, m')" for ws m'
  proof -
    have "divisibles D st rs ws" using both(2) that by (auto simp: runs_divisible_def)
    moreover have "assumed_in (set (all_defs th) \<union> set (all_defs el)) b1 b3" by (rule assumed_in_trans [OF b2 b3]) auto
    ultimately show ?thesis
      by (intro results_tail [OF b sets(1) SN sets(2) ag env _ news _ _ rest]) (use still' sc S dist typed in auto)
  qed
  have "forget (branch_step ?r' (\<lambda>ws m'. Option.bind (bind_vars env' rs ws) (\<lambda>e. exec M n (news @ ops') e m'))) =
      forget (branch_step ?r (\<lambda>ws m'. Option.bind (bind_vars env rs ws) (\<lambda>e. exec M n ops e m')))"
    by (rule branch_good [OF both(1)]) (use tail in blast)
  moreover have "runs_divisible D st l t (branch_step ?r (\<lambda>ws m'. Option.bind (bind_vars env rs ws) (\<lambda>e. exec M n ops e m')))"
  proof (cases ?r)
    case None
    then show ?thesis by (simp add: branch_step_def runs_divisible_def)
  next
    case (Some p)
    obtain q m' where p: "p = (q, m')" by (cases p)
    show ?thesis
      using both(2) Some p tail by (cases q) (auto simp: branch_step_def runs_divisible_def)
  qed
  ultimately show "forget (exec M n (IfElse i' (remap b x) th' el' rs # news @ ops') env' m) =
      forget (exec M n (IfElse i x th el rs # ops) env m)
    \<and> runs_divisible D st l t (exec M n (IfElse i x th el rs # ops) env m)"
    using v by simp
qed

lemma same_runs_jump:
  assumes clean: "\<not> dirty st"
  shows "same_runs M D c st N (Continue vs # ops) b (Continue (map (remap b) vs) # ops')"
    and "same_runs M D c st N (Break vs # ops) b (Break (map (remap b) vs) # ops')"
    and "same_runs M D c st N (EndBranch vs # ops) b (EndBranch (map (remap b) vs) # ops')"
    and "same_runs M D c st N (Return # ops) b (Return # ops')"
    and "same_runs M D c st N (Reduction i k xs params body rs # ops) b (Reduction i' k xs' params body' rs # news @ ops')"
proof -
  have eq: "those (map env' (map (remap b) vs)) = those (map env vs)" if "agrees S b env env'" "set vs \<subseteq> S" for S and env env' :: "var \<rightharpoonup> 'a"
    by (rule agrees_those [OF that])
  show "same_runs M D c st N (Continue vs # ops) b (Continue (map (remap b) vs) # ops')"
  proof (rule same_runsI)
    fix l t S n m and env env' :: "var \<rightharpoonup> 'a"
    assume still: "analyze_block c (Continue vs # ops) l t st = Inr st" and sc: "scoped S (Continue vs # ops)"
      and ag: "agrees S b env env'" and env: "env_divisible D st env"
    obtain f bs rs where l: "l = Some (f, bs, rs)" "flow_to_loop f vs bs rs st = Inr st" using settled_jump(1) [OF clean still] by blast
    have "those (map env' (map (remap b) vs)) = those (map env vs)" using sc by (intro eq [OF ag]) simp
    then show "forget (exec M n (Continue (map (remap b) vs) # ops') env' m) = forget (exec M n (Continue vs # ops) env m)
        \<and> runs_divisible D st l t (exec M n (Continue vs # ops) env m)"
      using flow_values [OF l(2) clean env] l(1) by (auto simp: runs_divisible_def simp del: map_map)
  qed
  show "same_runs M D c st N (Break vs # ops) b (Break (map (remap b) vs) # ops')"
  proof (rule same_runsI)
    fix l t S n m and env env' :: "var \<rightharpoonup> 'a"
    assume still: "analyze_block c (Break vs # ops) l t st = Inr st" and sc: "scoped S (Break vs # ops)"
      and ag: "agrees S b env env'" and env: "env_divisible D st env"
    obtain f bs rs ps where l: "l = Some (f, bs, rs)" "strict_zip vs rs = Inr ps" "propagate_all ps st = Inr st"
      using settled_jump(2) [OF clean still] by blast
    have "those (map env' (map (remap b) vs)) = those (map env vs)" using sc by (intro eq [OF ag]) simp
    then show "forget (exec M n (Break (map (remap b) vs) # ops') env' m) = forget (exec M n (Break vs # ops) env m)
        \<and> runs_divisible D st l t (exec M n (Break vs # ops) env m)"
      using zip_values [OF l(2,3) clean env] l(1) by (auto simp: runs_divisible_def simp del: map_map)
  qed
  show "same_runs M D c st N (EndBranch vs # ops) b (EndBranch (map (remap b) vs) # ops')"
  proof (rule same_runsI)
    fix l t S n m and env env' :: "var \<rightharpoonup> 'a"
    assume still: "analyze_block c (EndBranch vs # ops) l t st = Inr st" and sc: "scoped S (EndBranch vs # ops)"
      and ag: "agrees S b env env'" and env: "env_divisible D st env"
    obtain rs ps where t: "t = Some rs" "strict_zip vs rs = Inr ps" "propagate_all ps st = Inr st"
      using settled_jump(3) [OF clean still] by blast
    have "those (map env' (map (remap b) vs)) = those (map env vs)" using sc by (intro eq [OF ag]) simp
    then show "forget (exec M n (EndBranch (map (remap b) vs) # ops') env' m) = forget (exec M n (EndBranch vs # ops) env m)
        \<and> runs_divisible D st l t (exec M n (EndBranch vs # ops) env m)"
      using zip_values [OF t(2,3) clean env] t(1) by (auto simp: runs_divisible_def simp del: map_map)
  qed
  show "same_runs M D c st N (Return # ops) b (Return # ops')"
    "same_runs M D c st N (Reduction i k xs params body rs # ops) b (Reduction i' k xs' params body' rs # news @ ops')"
    by (simp_all add: same_runs_def runs_divisible_def)
qed

lemma copy_object_ok:
  assumes "rewriting N P b"
  shows "\<exists>i b'. copy_object b = (i, b') \<and> rewriting N P b' \<and> assumed b' = assumed b"
  using assms by (auto simp: copy_object_def new_object_def rewriting_def typed_ctx_def var_names_def)

lemma assumes_on_ok:
  assumes "keeps_powers M D" and "rewriting N (predicates (tracker st)) b" and "set rs \<subseteq> N \<inter> known st"
  shows "\<exists>news b'. assumes_on C rs b = Inr (news, b') \<and> rewriting N (predicates (tracker st)) b'
    \<and> assumed_in (set rs) b b' \<and> (\<exists>A \<subseteq> set rs. assumptions_pass M D st N A news b b')"
proof -
  let ?rs = "filter (\<lambda>v. v \<in> C) rs"
  have "set ?rs \<subseteq> N \<inter> known st" using assms(3) by auto
  then obtain news b' where n: "add_assumes ?rs b = Inr (news, b')" "rewriting N (predicates (tracker st)) b'"
    "assumed_in (set ?rs) b b'" "assumptions_pass M D st N (set ?rs) news b b'"
    using add_assumes_ok [OF assms(1,2)] by blast
  have "assumed_in (set rs) b b'" using n(3) by (auto simp: assumed_in_def)
  moreover have "set ?rs \<subseteq> set rs" by auto
  ultimately show ?thesis using n(1,2,4) unfolding assumes_on_def by blast
qed

lemma assumed_in_None: "assumed_in A b b' \<Longrightarrow> \<forall>v \<in> X. assumed b v = None \<Longrightarrow> X \<inter> A = {} \<Longrightarrow> \<forall>v \<in> X. assumed b' v = None"
  by (auto simp: assumed_in_def)

lemma assumed_in_same: "assumed b' = assumed b \<Longrightarrow> assumed_in A b' c' \<longleftrightarrow> assumed_in A b c'"
  by (simp add: assumed_in_def)

lemma agrees_same: "assumed b' = assumed b \<Longrightarrow> agrees S b' = agrees S b"
  by (intro ext) (simp add: agrees_def)

lemma same_runs_same:
  assumes "assumed b' = assumed b"
  shows "same_runs M D c st N ops b' ops' = same_runs M D c st N ops b ops'"
  unfolding same_runs_def by (simp only: agrees_same [OF assms])

text \<open>The rewriting never fails on variables with predicates, and keeps the runs.\<close>

lemma rewrite_ok:
  assumes M: "keeps_powers M D" and T: "\<forall>v \<in> N. types M v = typemap c v" and clean: "\<not> dirty st"
  defines "P \<equiv> predicates (tracker st)"
  shows "rewriting N P b \<Longrightarrow> set (all_defs ops) \<subseteq> N \<inter> known st \<Longrightarrow> distinct (all_defs ops) \<Longrightarrow>
    \<forall>v \<in> set (all_defs ops). assumed b v = None \<Longrightarrow>
    \<exists>ops' b'. rewrite_ops C ops b = Inr (ops', b') \<and> rewriting N P b' \<and> assumed_in (set (all_defs ops)) b b'
      \<and> same_runs M D c st N ops b ops'"
proof (induction ops arbitrary: b rule: all_defs.induct)
  case 1
  then show ?case by (auto simp: same_runs_def runs_divisible_def forget_def)
next
  case (2 cl opnds rs ops)
  obtain news b1 A where n: "assumes_on C rs b = Inr (news, b1)" "rewriting N P b1" "assumed_in (set rs) b b1"
    "A \<subseteq> set rs" "assumptions_pass M D st N A news b b1"
    using assumes_on_ok [OF M, of N st b rs C] "2.prems"(1,2) by (auto simp: P_def)
  have "\<forall>v \<in> set (all_defs ops). assumed b1 v = None"
    by (rule assumed_in_None [OF n(3)]) (use "2.prems"(3,4) in auto)
  then obtain ops' b2 where r: "rewrite_ops C ops b1 = Inr (ops', b2)" "rewriting N P b2"
    "assumed_in (set (all_defs ops)) b1 b2" "same_runs M D c st N ops b1 ops'"
    using "2.IH" [OF n(2)] "2.prems"(2,3) by auto
  have "same_runs M D c st N (Plain cl opnds rs # ops) b (Plain cl (map_operands (remap b) opnds) rs # news @ ops')"
    by (rule same_runs_Plain [OF M T clean "2.prems"(1) _ _ _ n(5,4) r(4)]) (use "2.prems" in auto)
  moreover have "assumed_in (set (all_defs (Plain cl opnds rs # ops))) b b2" by (rule assumed_in_trans [OF n(3) r(3)]) auto
  ultimately show ?case using n(1) r(1,2) by (simp add: Let_def)
next
  case (3 i rng inits params body rs ops)
  obtain i' b0 where c0: "copy_object b = (i', b0)" "rewriting N P b0" "assumed b0 = assumed b"
    using copy_object_ok [OF "3.prems"(1)] by blast
  obtain news b1 A where n: "assumes_on C rs b0 = Inr (news, b1)" "rewriting N P b1" "assumed_in (set rs) b0 b1"
    "A \<subseteq> set rs" "assumptions_pass M D st N A news b0 b1"
    using assumes_on_ok [OF M, of N st b0 rs C] c0(2) "3.prems"(2) by (auto simp: P_def)
  obtain heads b2 where h: "add_assumes params b1 = Inr (heads, b2)" "rewriting N P b2" "assumed_in (set params) b1 b2"
    "assumptions_pass M D st N (set params) heads b1 b2"
    using add_assumes_ok [OF M, of N st b1 params] n(2) "3.prems"(2) by (auto simp: P_def)
  have free: "\<forall>v \<in> set (all_defs (Loop i rng inits params body rs # ops)). assumed b0 v = None" using "3.prems"(4) c0(3) by simp
  have "\<forall>v \<in> set params \<union> set (all_defs body) \<union> set (all_defs ops). assumed b1 v = None"
    by (rule assumed_in_None [OF n(3)]) (use free "3.prems"(3) in auto)
  then have free2: "\<forall>v \<in> set (all_defs body) \<union> set (all_defs ops). assumed b2 v = None"
    by (intro assumed_in_None [OF h(3)]) (use "3.prems"(3) in auto)
  then obtain body' b3 where r: "rewrite_ops C body b2 = Inr (body', b3)" "rewriting N P b3"
    "assumed_in (set (all_defs body)) b2 b3" "same_runs M D c st N body b2 body'"
    using "3.IH"(1) [OF h(2)] "3.prems"(2,3) by auto
  have "\<forall>v \<in> set (all_defs ops). assumed b3 v = None"
    by (rule assumed_in_None [OF r(3)]) (use free2 "3.prems"(3) in auto)
  then obtain ops' b4 where t: "rewrite_ops C ops b3 = Inr (ops', b4)" "rewriting N P b4"
    "assumed_in (set (all_defs ops)) b3 b4" "same_runs M D c st N ops b3 ops'"
    using "3.IH"(2) [OF r(2)] "3.prems"(2,3) by auto
  have b13: "assumed_in (set params \<union> set (all_defs body)) b1 b3" by (rule assumed_in_trans [OF h(3) r(3)]) auto
  have "same_runs M D c st N (Loop i rng inits params body rs # ops) b0
    (Loop i' (map_range (remap b0) rng) (map (remap b0) inits) params (heads @ body') rs # news @ ops')"
    by (rule same_runs_Loop [OF M clean c0(2) n(2,3) _ _ _ _ n(5,4) h(4) b13 r(4) t(4)]) (use free "3.prems"(2,3) in auto)
  then have "same_runs M D c st N (Loop i rng inits params body rs # ops) b
    (Loop i' (map_range (remap b0) rng) (map (remap b0) inits) params (heads @ body') rs # news @ ops')"
    by (simp only: same_runs_same [OF c0(3)])
  moreover have "assumed_in (set params \<union> set (all_defs body) \<union> set rs) b0 b3" by (rule assumed_in_trans [OF n(3) b13]) auto
  then have "assumed_in (set (all_defs (Loop i rng inits params body rs # ops))) b0 b4"
    by (rule assumed_in_trans [OF _ t(3)]) auto
  then have "assumed_in (set (all_defs (Loop i rng inits params body rs # ops))) b b4" using assumed_in_same [OF c0(3)] by metis
  ultimately show ?case using c0(1) n(1) h(1) r(1) t(1,2) by (simp add: Let_def)
next
  case (4 i x th el rs ops)
  obtain i' b0 where c0: "copy_object b = (i', b0)" "rewriting N P b0" "assumed b0 = assumed b"
    using copy_object_ok [OF "4.prems"(1)] by blast
  obtain news b1 A where n: "assumes_on C rs b0 = Inr (news, b1)" "rewriting N P b1" "assumed_in (set rs) b0 b1"
    "A \<subseteq> set rs" "assumptions_pass M D st N A news b0 b1"
    using assumes_on_ok [OF M, of N st b0 rs C] c0(2) "4.prems"(2) by (auto simp: P_def)
  have free: "\<forall>v \<in> set (all_defs (IfElse i x th el rs # ops)). assumed b0 v = None" using "4.prems"(4) c0(3) by simp
  have free1: "\<forall>v \<in> set (all_defs th) \<union> set (all_defs el) \<union> set (all_defs ops). assumed b1 v = None"
    by (rule assumed_in_None [OF n(3)]) (use free "4.prems"(3) in auto)
  then obtain th' b2 where h: "rewrite_ops C th b1 = Inr (th', b2)" "rewriting N P b2"
    "assumed_in (set (all_defs th)) b1 b2" "same_runs M D c st N th b1 th'"
    using "4.IH"(1) [OF n(2)] "4.prems"(2,3) by auto
  have free2: "\<forall>v \<in> set (all_defs el) \<union> set (all_defs ops). assumed b2 v = None"
    by (rule assumed_in_None [OF h(3)]) (use free1 "4.prems"(3) in auto)
  then obtain el' b3 where r: "rewrite_ops C el b2 = Inr (el', b3)" "rewriting N P b3"
    "assumed_in (set (all_defs el)) b2 b3" "same_runs M D c st N el b2 el'"
    using "4.IH"(2) [OF h(2)] "4.prems"(2,3) by auto
  have "\<forall>v \<in> set (all_defs ops). assumed b3 v = None"
    by (rule assumed_in_None [OF r(3)]) (use free2 "4.prems"(3) in auto)
  then obtain ops' b4 where t: "rewrite_ops C ops b3 = Inr (ops', b4)" "rewriting N P b4"
    "assumed_in (set (all_defs ops)) b3 b4" "same_runs M D c st N ops b3 ops'"
    using "4.IH"(3) [OF r(2)] "4.prems"(2,3) by auto
  have "same_runs M D c st N (IfElse i x th el rs # ops) b0 (IfElse i' (remap b0 x) th' el' rs # news @ ops')"
    by (rule same_runs_IfElse [OF clean c0(2) n(3) _ _ _ n(5,4) h(3) r(3) h(4) r(4) t(4)]) (use free "4.prems"(2,3) in auto)
  then have "same_runs M D c st N (IfElse i x th el rs # ops) b (IfElse i' (remap b0 x) th' el' rs # news @ ops')"
    by (simp only: same_runs_same [OF c0(3)])
  moreover have "assumed_in (set rs \<union> set (all_defs th)) b0 b2" by (rule assumed_in_trans [OF n(3) h(3)]) auto
  then have "assumed_in (set rs \<union> set (all_defs th) \<union> set (all_defs el)) b0 b3" by (rule assumed_in_trans [OF _ r(3)]) auto
  then have "assumed_in (set (all_defs (IfElse i x th el rs # ops))) b0 b4"
    by (rule assumed_in_trans [OF _ t(3)]) auto
  then have "assumed_in (set (all_defs (IfElse i x th el rs # ops))) b b4" using assumed_in_same [OF c0(3)] by metis
  ultimately show ?case using c0(1) n(1) h(1) r(1) t(1,2) by (simp add: Let_def)
next
  case (5 i k xs params body rs ops)
  obtain i' b0 where c0: "copy_object b = (i', b0)" "rewriting N P b0" "assumed b0 = assumed b"
    using copy_object_ok [OF "5.prems"(1)] by blast
  obtain news b1 where n: "assumes_on C rs b0 = Inr (news, b1)" "rewriting N P b1" "assumed_in (set rs) b0 b1"
    using assumes_on_ok [OF M, of N st b0 rs C] c0(2) "5.prems"(2) by (auto simp: P_def)
  obtain heads b2 where h: "add_assumes params b1 = Inr (heads, b2)" "rewriting N P b2" "assumed_in (set params) b1 b2"
    using add_assumes_ok [OF M, of N st b1 params] n(2) "5.prems"(2) by (auto simp: P_def)
  have free: "\<forall>v \<in> set (all_defs (Reduction i k xs params body rs # ops)). assumed b0 v = None" using "5.prems"(4) c0(3) by simp
  have "\<forall>v \<in> set params \<union> set (all_defs body) \<union> set (all_defs ops). assumed b1 v = None"
    by (rule assumed_in_None [OF n(3)]) (use free "5.prems"(3) in auto)
  then have free2: "\<forall>v \<in> set (all_defs body) \<union> set (all_defs ops). assumed b2 v = None"
    by (intro assumed_in_None [OF h(3)]) (use "5.prems"(3) in auto)
  then obtain body' b3 where r: "rewrite_ops C body b2 = Inr (body', b3)" "rewriting N P b3"
    "assumed_in (set (all_defs body)) b2 b3"
    using "5.IH"(1) [OF h(2)] "5.prems"(2,3) by auto
  have "\<forall>v \<in> set (all_defs ops). assumed b3 v = None"
    by (rule assumed_in_None [OF r(3)]) (use free2 "5.prems"(3) in auto)
  then obtain ops' b4 where t: "rewrite_ops C ops b3 = Inr (ops', b4)" "rewriting N P b4"
    "assumed_in (set (all_defs ops)) b3 b4"
    using "5.IH"(2) [OF r(2)] "5.prems"(2,3) by auto
  have "assumed_in (set rs \<union> set params) b0 b2" by (rule assumed_in_trans [OF n(3) h(3)]) auto
  then have "assumed_in (set rs \<union> set params \<union> set (all_defs body)) b0 b3" by (rule assumed_in_trans [OF _ r(3)]) auto
  then have "assumed_in (set (all_defs (Reduction i k xs params body rs # ops))) b0 b4"
    by (rule assumed_in_trans [OF _ t(3)]) auto
  then have "assumed_in (set (all_defs (Reduction i k xs params body rs # ops))) b b4" using assumed_in_same [OF c0(3)] by metis
  then show ?case using c0(1) n(1) h(1) r(1) t(1,2) same_runs_jump(5) [OF clean] by (simp add: Let_def)
next
  case (6 vs ops)
  obtain ops' b' where "rewrite_ops C ops b = Inr (ops', b')" "rewriting N P b'" "assumed_in (set (all_defs ops)) b b'"
    using "6.IH" "6.prems" unfolding all_defs.simps by blast
  then show ?case using same_runs_jump(1) [OF clean] by (simp add: Let_def)
next
  case (7 vs ops)
  obtain ops' b' where "rewrite_ops C ops b = Inr (ops', b')" "rewriting N P b'" "assumed_in (set (all_defs ops)) b b'"
    using "7.IH" "7.prems" unfolding all_defs.simps by blast
  then show ?case using same_runs_jump(2) [OF clean] by (simp add: Let_def)
next
  case (8 vs ops)
  obtain ops' b' where "rewrite_ops C ops b = Inr (ops', b')" "rewriting N P b'" "assumed_in (set (all_defs ops)) b b'"
    using "8.IH" "8.prems" unfolding all_defs.simps by blast
  then show ?case using same_runs_jump(3) [OF clean] by (simp add: Let_def)
next
  case (9 ops)
  obtain ops' b' where "rewrite_ops C ops b = Inr (ops', b')" "rewriting N P b'" "assumed_in (set (all_defs ops)) b b'"
    using "9.IH" "9.prems" unfolding all_defs.simps by blast
  then show ?case using same_runs_jump(4) [OF clean] by (simp add: Let_def)
qed

end
