(* ===== verification/DivbySound.thy ===== *)
theory DivbySound
  imports DivbySim
begin

text \<open>
  The inserted assumptions hold in every run that respects the constraints of the kernel, so
  they change nothing.
\<close>

section \<open>Properties\<close>

text \<open>Arguments of a launch that satisfy the constraints of the kernel signature.\<close>

definition launch_ok ::
  "(nat \<Rightarrow> 'v \<Rightarrow> bool) \<Rightarrow> (var list \<times> ParameterConstraint) list \<Rightarrow> (var \<rightharpoonup> 'v) \<Rightarrow> bool" where
  "launch_ok D parameter_constraints env \<longleftrightarrow>
     (case fold_res register_param parameter_constraints (initial_state, new_mapper) of
        Inl e \<Rightarrow> False
      | Inr (st, mp) \<Rightarrow>
          \<forall>v x. env v = Some x \<longrightarrow> (\<exists>p. predicates (tracker st) v = Some p \<and> divisible D (div_by p) x))"

text \<open>
  C2. The divisors that the data-flow analysis finds are true: when they are inserted as
  assumptions, which is undefined behaviour where an assumption is false, every run of the
  kernel on arguments that satisfy their constraints ends as before, with the same memory and
  the same values. The insertion itself never fails. This holds on every machine whose integer
  and pointer arithmetic wraps around modulo a power of two, for kernels without lists of
  arrays.
\<close>

theorem divby_pass_sound:
  assumes df: "dataflow_analysis c ops constraints = Some (Inr preds)"
    and dom: "set (params @ all_defs ops) \<subseteq> dom preds" "distinct (params @ all_defs ops)"
    and wf: "scoped (set params) ops" "typed_ctx (set (params @ all_defs ops)) c" "block_typed (typemap c) ops"
    and M: "keeps_powers M D" "\<forall>v \<in> set (params @ all_defs ops). types M v = typemap c v"
    and env: "launch_ok D constraints env" "set params \<subseteq> dom env"
  shows "\<exists>ops' preds' c'. add_divby_pass params ops preds c = Inr (ops', preds', c')
    \<and> forget (exec M n ops' env m) = forget (exec M n ops env m)"
proof -
  obtain st0 mp where reg: "fold_res register_param constraints (initial_state, new_mapper) = Inr (st0, mp)"
    using env(1) by (auto simp: launch_ok_def split: sum.splits)
  obtain st where st: "analyze_until_stable c ops st0 = Some (Inr st)" "preds = predicates (tracker st)"
    using df reg by (auto simp: dataflow_analysis_def and_then_Inr_iff)
  have clean: "\<not> dirty st" and still: "analyze_block c ops None None st = Inr st" and less: "shrinks st0 st"
    using until_stable [OF st(1)] by blast+
  define N where "N = set (params @ all_defs ops)"
  let ?b = "\<lparr>df_result = preds, assumed = Map.empty, ctx = c\<rparr>"
  have b: "rewriting N (predicates (tracker st)) ?b" using wf(2) st(2) by (simp add: rewriting_def N_def)
  have T: "\<forall>v \<in> N. types M v = typemap c v" using M(2) by (simp add: N_def)
  have sets: "set params \<subseteq> N \<inter> known st" "set (all_defs ops) \<subseteq> N \<inter> known st"
    using dom(1) st(2) by (auto simp: N_def known_def)
  obtain heads b1 where h: "add_assumes params ?b = Inr (heads, b1)" "rewriting N (predicates (tracker st)) b1"
    "assumed_in (set params) ?b b1" "assumptions_pass M D st N (set params) heads ?b b1"
    using add_assumes_ok [OF M(1) b sets(1)] by blast
  have "\<forall>v \<in> set (all_defs ops). assumed b1 v = None"
    by (rule assumed_in_None [OF h(3)]) (use dom(2) in auto)
  then obtain ops' b2 where r: "rewrite_ops (scan_block ops {}) ops b1 = Inr (ops', b2)" "same_runs M D c st N ops b1 ops'"
    using rewrite_ok [OF M(1) T clean h(2) sets(2)] dom(2) unfolding distinct_append by blast
  have run: "add_divby_pass params ops preds c = Inr (heads @ ops', df_result b2, ctx b2)"
    using h(1) r(1) by (simp add: add_divby_pass_def rewrite_block_def)
  have div: "env_divisible D st env"
    unfolding env_divisible_def
  proof (intro allI impI)
    fix v x assume "env v = Some x"
    then obtain p where p: "predicates (tracker st0) v = Some p" "divisible D (div_by p) x"
      using env(1) reg by (auto simp: launch_ok_def)
    obtain q where "predicates (tracker st) v = Some q" "div_by q dvd div_by p" using less p(1) unfolding shrinks_def by blast
    then show "divisible D (divisor_of st v) x" using divisible_dvd [OF p(2)] by (simp add: divisor_of_def)
  qed
  have "agrees (set params) ?b env env" using env(2) by (auto simp: agrees_def)
  then obtain e where e: "\<And>n ops. exec M n (heads @ ops) env m = exec M n ops e m" "agrees (set params) b1 env e"
    using h(4) div sets(1) unfolding assumptions_pass_def by (metis Int_subset_iff subset_refl)
  have "forget (exec M n ops' e m) = forget (exec M n ops env m)"
    using same_runsD [OF r(2) still wf(1) _ _ wf(3) e(2) div] sets(1) dom(2) by auto
  then show ?thesis using run e(1) by auto
qed

text \<open>
  A machine of one integer per value with results modulo \<^verbatim>\<open>2 ^ 64\<close>, and a kernel that stores
  through a pointer with a computed offset.
\<close>

definition arg :: "(string \<times> int operand_val) list \<Rightarrow> string \<Rightarrow> int" where
  "arg args n = (case map_of args n of Some (Val x) \<Rightarrow> x | _ \<Rightarrow> 0)"

definition sample_result :: "op_class \<Rightarrow> ir_type option \<Rightarrow> (string \<times> int operand_val) list \<Rightarrow> int" where
  "sample_result cl ty args =
     (case cl of
        Assign \<Rightarrow> arg args ''value''
      | TileBroadcast \<Rightarrow> arg args ''x''
      | TileReshape \<Rightarrow> arg args ''x''
      | AssumeBounded \<Rightarrow> arg args ''x''
      | AssumeDivBy d \<Rightarrow> if d dvd arg args ''x'' then arg args ''x'' else 0
      | TypedConst k \<Rightarrow> (case k of ConstInt n \<Rightarrow> n | ConstOther s \<Rightarrow> 0)
      | RawBinaryArithmetic fn rm ftz \<Rightarrow> take_bit 64
          (if fn = ''add'' then arg args ''lhs'' + arg args ''rhs''
           else if fn = ''sub'' then arg args ''lhs'' - arg args ''rhs''
           else if fn = ''mul'' then arg args ''lhs'' * arg args ''rhs'' else 1)
      | Unary fn rm ftz \<Rightarrow> take_bit 64 (if fn = ''abs'' then \<bar>arg args ''operand''\<bar> else - arg args ''operand'')
      | TileAsType \<Rightarrow> take_bit 64 (arg args ''x'')
      | PointerOffset \<Rightarrow> (case ty of Some (TileTy t shape) \<Rightarrow>
             (case def_kind (dtype_defs t) of PointerDefinition (Some p) ms \<Rightarrow>
                take_bit 64 (arg args ''pointer'' + arg args ''offset'' * int (def_bitwidth (dtype_defs p) div 8))
              | _ \<Rightarrow> 0)
           | _ \<Rightarrow> 0)
      | _ \<Rightarrow> 0)"

definition divby_machine :: "(var \<rightharpoonup> ir_type) \<Rightarrow> (int, int list) machine" where
  "divby_machine T =
     \<lparr>run_op = (\<lambda>cl tys args m. if cl = StorePointer then ([], m @ [arg args ''pointer'', arg args ''value''])
        else (map (\<lambda>ty. sample_result cl ty args) tys, m)),
      types = T, truth = (\<lambda>v. v \<noteq> 0), range_values = (\<lambda>a b s. [a .. b - 1])\<rparr>"

definition power_divides :: "nat \<Rightarrow> int \<Rightarrow> bool" where
  "power_divides k x \<longleftrightarrow> 2 ^ k dvd x"

lemma dvd_take_bit: "(2 :: int) ^ k dvd x \<Longrightarrow> 2 ^ k dvd take_bit w x"
proof (cases "k \<le> w")
  case True
  assume "2 ^ k dvd x"
  then show ?thesis using True by (simp add: take_bit_eq_mod dvd_mod le_imp_power_dvd)
next
  case False
  assume "2 ^ k dvd x"
  then have "2 ^ w dvd x" using False by (meson dvd_trans le_imp_power_dvd nat_le_linear)
  then show ?thesis by (simp add: take_bit_eq_mod)
qed

lemma has_power_arg: "has_power power_divides args n k \<Longrightarrow> 2 ^ k dvd arg args n"
  by (auto simp: has_power_def arg_def power_divides_def)

lemma dvd_powers: "(2 :: int) ^ i dvd a \<Longrightarrow> 2 ^ j dvd b \<Longrightarrow> k \<le> i + j \<Longrightarrow> 2 ^ k dvd a * b"
proof -
  assume "2 ^ i dvd a" "2 ^ j dvd b" "k \<le> i + j"
  then have "(2 :: int) ^ k dvd 2 ^ (i + j)" "(2 :: int) ^ (i + j) dvd a * b"
    by (simp add: le_imp_power_dvd) (simp add: power_add mult_dvd_mono \<open>2 ^ i dvd a\<close> \<open>2 ^ j dvd b\<close>)
  then show ?thesis by (rule dvd_trans)
qed

lemma sample_result_rule:
  assumes "power_rule power_divides cl ty args k"
  shows "2 ^ k dvd sample_result cl ty args"
proof (cases cl)
  case (RawBinaryArithmetic fn rm ftz)
  then show ?thesis using assms
    by (auto simp: power_rule_def sample_result_def split: if_splits
        intro!: dvd_take_bit dvd_add dvd_diff intro: dvd_powers dest!: has_power_arg)
next
  case PointerOffset
  obtain t sh p ms i j where t: "ty = Some (TileTy t sh)" "def_kind (dtype_defs t) = PointerDefinition (Some p) ms"
    "2 ^ k dvd arg args ''pointer''" "2 ^ i dvd arg args ''offset''" "2 ^ j dvd def_bitwidth (dtype_defs p) div 8" "k \<le> i + j"
    using assms by (auto simp: PointerOffset power_rule_def dest!: has_power_arg
        split: option.splits ir_type.splits definition_kind.splits)
  have "(2 :: int) ^ j dvd int (def_bitwidth (dtype_defs p) div 8)" using t(5) by (metis of_nat_dvd_iff of_nat_numeral of_nat_power)
  then have "2 ^ k dvd arg args ''offset'' * int (def_bitwidth (dtype_defs p) div 8)" using dvd_powers t(4,6) by blast
  then show ?thesis using t(1-3) by (simp add: PointerOffset sample_result_def dvd_take_bit)
qed (use assms in \<open>auto simp: power_rule_def sample_result_def dest!: has_power_arg split: const_value.splits
    ir_type.splits option.splits intro!: dvd_take_bit intro: dvd_trans\<close>)

lemma divby_machine_powers: "keeps_powers (divby_machine T) power_divides"
  unfolding keeps_powers_def
proof (intro conjI allI impI)
  show "power_divides 0 x" for x by (simp add: power_divides_def)
  show "power_divides k y" if "run_op (divby_machine T) cl [ty] args m = ([y], m')" "power_rule power_divides cl ty args k" for cl ty args m y m' k
    using that sample_result_rule [OF that(2)] by (auto simp: divby_machine_def power_divides_def split: if_splits)
  show "run_op (divby_machine T) (AssumeDivBy (2 ^ k)) [ty] [(''x'', Val x)] m = ([x], m)" if "power_divides k x" for k ty x m
    using that by (simp add: divby_machine_def sample_result_def arg_def power_divides_def)
qed

lemma case_Returned: "(case q of Returned \<Rightarrow> P | _ \<Rightarrow> False) \<longleftrightarrow> q = Returned \<and> P"
  by (cases q) auto

definition divby_program :: "operation list" where
  "divby_program =
     [Plain (TypedConst (ConstInt 8)) [] [''c''],
      Plain (RawBinaryArithmetic ''mul'' None False) [(''lhs'', OVar ''s''), (''rhs'', OVar ''c'')] [''o''],
      Plain PointerOffset [(''pointer'', OVar ''p''), (''offset'', OVar ''o'')] [''q''],
      Plain StorePointer [(''pointer'', OVar ''q''), (''value'', OVar ''s'')] [], Return]"

definition divby_params :: "var list" where
  "divby_params = [''p'', ''s'', ''t'']"

definition divby_context :: ir_context where
  "divby_context = sample_context\<lparr>all_vars := map (\<lambda>v. (v, v)) (divby_params @ all_defs divby_program),
     typemap := fold (\<lambda>v T. T(v \<mapsto> TileTy int32 [])) [''s'', ''t'', ''c'', ''o'']
       (fold (\<lambda>v T. T(v \<mapsto> TileTy (Pointer (Some float16) MS_GENERIC) [])) [''p'', ''q''] Map.empty)\<rparr>"

definition divby_constraint :: ParameterConstraint where
  "divby_constraint = ArrayConstraint
     \<lparr>ac_dtype = float16, ac_ndim = 1, ac_index_dtype = int32, stride_lower_bound_incl = [None], ac_alias_groups = [],
      may_alias_internally = False, stride_constant = [Some 1], shape_constant = [None], stride_divisible_by = [1],
      shape_divisible_by = [4], base_addr_divisible_by = 16\<rparr>"

definition divby_args :: "var \<rightharpoonup> int" where
  "divby_args = [''p'' \<mapsto> 64, ''s'' \<mapsto> 12, ''t'' \<mapsto> 1]"

definition divby_start :: df_state where
  "divby_start = (case fold_res register_param [(divby_params, divby_constraint)] (initial_state, new_mapper) of
     Inl e \<Rightarrow> initial_state | Inr (st, mp) \<Rightarrow> st)"

definition divby_round :: "df_state \<Rightarrow> df_state" where
  "divby_round st = (case analyze_block divby_context divby_program None None st of Inl e \<Rightarrow> st | Inr st' \<Rightarrow> st')"

definition divby_preds :: "var \<rightharpoonup> DataPredicate" where
  "divby_preds = predicates (tracker (divby_round (reset_dirty (divby_round divby_start))))"

lemma divby_start:
  "\<exists>mp. fold_res register_param [(divby_params, divby_constraint)] (initial_state, new_mapper) = Inr (divby_start, mp)"
proof -
  have "\<not> isl (fold_res register_param [(divby_params, divby_constraint)] (initial_state, new_mapper))" by code_simp
  then show ?thesis by (auto simp: divby_start_def split: sum.splits)
qed

lemma divby_round:
  assumes "\<not> isl (analyze_block divby_context divby_program None None st)"
  shows "analyze_until_stable divby_context divby_program st =
    (if dirty (divby_round st) then analyze_until_stable divby_context divby_program (reset_dirty (divby_round st))
     else Some (Inr (divby_round st)))"
  using assms analyze_until_stable.simps [of divby_context divby_program st]
  by (cases "analyze_block divby_context divby_program None None st") (auto simp: divby_round_def)

lemma divby_preds:
  "dataflow_analysis divby_context divby_program [(divby_params, divby_constraint)] = Some (Inr divby_preds)"
proof -
  let ?st = "reset_dirty (divby_round divby_start)"
  have "\<not> isl (analyze_block divby_context divby_program None None divby_start)" "dirty (divby_round divby_start)"
    "\<not> isl (analyze_block divby_context divby_program None None ?st)" "\<not> dirty (divby_round ?st)"
    by code_simp+
  then have "analyze_until_stable divby_context divby_program divby_start = Some (Inr (divby_round ?st))"
    by (simp add: divby_round)
  then show ?thesis using divby_start by (auto simp: dataflow_analysis_def divby_preds_def)
qed

lemma divby_sample_dom: "list_all (\<lambda>v. divby_preds v \<noteq> None) (divby_params @ all_defs divby_program)"
  by code_simp

lemma divby_sample_launch: "launch_ok power_divides [(divby_params, divby_constraint)] divby_args"
proof -
  obtain mp where reg: "fold_res register_param [(divby_params, divby_constraint)] (initial_state, new_mapper) = Inr (divby_start, mp)"
    using divby_start by blast
  have "map (\<lambda>v. map_option div_by (predicates (tracker divby_start) v)) [''p'', ''s'', ''t''] = [Some 16, Some 4, Some 1]"
    by code_simp
  then have known: "map_option div_by (predicates (tracker divby_start) ''p'') = Some 16"
    "map_option div_by (predicates (tracker divby_start) ''s'') = Some 4"
    "map_option div_by (predicates (tracker divby_start) ''t'') = Some 1" by auto
  have div: "divisible power_divides d x" if "d dvd x" for d x
    using that by (auto simp: divisible_def power_divides_def intro: dvd_trans)
  have "\<exists>p. predicates (tracker divby_start) v = Some p \<and> divisible power_divides (div_by p) x" if "divby_args v = Some x" for v x
    using that known by (auto simp: divby_args_def intro!: div split: if_splits)
  then show ?thesis using reg by (simp add: launch_ok_def)
qed

theorem divby_pass_sound_witness:
  "\<exists>ops' preds' c'. add_divby_pass divby_params divby_program divby_preds divby_context = Inr (ops', preds', c')
    \<and> forget (exec (divby_machine (typemap divby_context)) 0 ops' divby_args []) = Some (Returned, [256, 12])"
proof -
  have run: "forget (exec (divby_machine (typemap divby_context)) 0 divby_program divby_args []) = Some (Returned, [256, 12])"
  proof -
    have "(case exec (divby_machine (typemap divby_context)) 0 divby_program divby_args [] of
        Some (q, m) \<Rightarrow> (case q of Returned \<Rightarrow> m = [256, 12] | _ \<Rightarrow> False) | None \<Rightarrow> False)" by code_simp
    then show ?thesis by (auto simp: forget_def case_Returned split: option.splits)
  qed
  have int: "is_integral int32" by code_simp
  have "typed_ctx (set (divby_params @ all_defs divby_program)) divby_context"
    by (auto simp: typed_ctx_def divby_params_def divby_program_def divby_context_def var_names_def sample_context_def dom_def)
  then show ?thesis
    unfolding run [symmetric] using divby_sample_dom divby_sample_launch
    by (intro divby_pass_sound [OF divby_preds _ _ _ _ _ divby_machine_powers])
      (auto simp: list_all_iff divby_machine_def divby_params_def divby_program_def operands_vars_def operation_typed_def
        divby_context_def integer_type_def int same_dtype_def divby_args_def)
qed

end
