(* ===== verification/TokenOrder.thy ===== *)
theory TokenOrder
  imports Dataflow
begin

text \<open>
  The token ordering pass, \<^verbatim>\<open>_passes/token_order.py\<close>: every memory operation takes a token that
  stands for the operations before it that it must wait for, and gives one that stands for
  itself. Control flow carries the tokens of the memory that its blocks touch.
\<close>

section \<open>Memory effects\<close>

text \<open>\<^verbatim>\<open>MemoryEffects\<close>: an ordered dictionary from alias sets, and whether something acquires.\<close>

record memory_effects =
  array_mem_effects :: "(int \<times> MemoryEffect) list"
  has_acquire_order :: bool

definition EMPTY_MEMORY_EFFECTS :: memory_effects where
  "EMPTY_MEMORY_EFFECTS = \<lparr>array_mem_effects = [], has_acquire_order = False\<rparr>"

definition effect_on :: "memory_effects \<Rightarrow> int \<Rightarrow> MemoryEffect" where
  "effect_on eff a = (case map_of (array_mem_effects eff) a of None \<Rightarrow> EFFECT_NONE | Some e \<Rightarrow> e)"

text \<open>Assignment to a key of an ordered dictionary: a known key keeps its place.\<close>

definition dict_set :: "'k \<Rightarrow> 'a \<Rightarrow> ('k \<times> 'a) list \<Rightarrow> ('k \<times> 'a) list" where
  "dict_set k v d =
     (if k \<in> fst ` set d then map (\<lambda>(k', w). (k', if k' = k then v else w)) d else d @ [(k, v)])"

definition effects_or :: "memory_effects \<Rightarrow> memory_effects \<Rightarrow> memory_effects" where
  "effects_or e1 e2 =
     \<lparr>array_mem_effects =
        fold (\<lambda>a. dict_set a (max (effect_on e1 a) (effect_on e2 a))) (map fst (array_mem_effects e2)) (array_mem_effects e1),
      has_acquire_order = (has_acquire_order e1 \<or> has_acquire_order e2)\<rparr>"

text \<open>The variable whose predicate has the alias set of the operation.\<close>

definition get_input_var :: "ir_context \<Rightarrow> (string \<times> operand_value) list \<Rightarrow> var res" where
  "get_input_var c opnds =
     (if map_of opnds ''view'' \<noteq> None then
        and_then (var_operand ''view'' opnds) (\<lambda>v.
          case aggregate_values c v of
            None \<Rightarrow> Inl KeyError
          | Some a \<Rightarrow> (case a of ArrayValue b \<Rightarrow> Inr b | _ \<Rightarrow> Inl AssertionError))
      else if map_of opnds ''pointer'' \<noteq> None then var_operand ''pointer'' opnds
      else Inl TileInternalError)"

definition df_predicate :: "(var \<rightharpoonup> DataPredicate) \<Rightarrow> var \<Rightarrow> DataPredicate res" where
  "df_predicate df v = (case df v of None \<Rightarrow> Inl KeyError | Some p \<Rightarrow> Inr p)"

definition input_alias_set ::
  "(var \<rightharpoonup> DataPredicate) \<Rightarrow> ir_context \<Rightarrow> (string \<times> operand_value) list \<Rightarrow> int res" where
  "input_alias_set df c opnds =
     and_then (get_input_var c opnds) (\<lambda>v. and_then (df_predicate df v) (\<lambda>p. Inr (alias_set p)))"

text \<open>The memory order of the operations that have one.\<close>

fun order_of :: "op_class \<Rightarrow> PyMemoryOrder option" where
  "order_of (TileLoad mo) = Some mo"
| "order_of (TileStore mo) = Some mo"
| "order_of (TileAtomicCAS mo) = Some mo"
| "order_of (TileAtomicRMW mo) = Some mo"
| "order_of (TileAtomicRedView mo) = Some mo"
| "order_of cl = None"

definition acquires :: "PyMemoryOrder option \<Rightarrow> bool" where
  "acquires mo = (case mo of None \<Rightarrow> False | Some o1 \<Rightarrow> memory_order_has_acquire o1)"

definition releases :: "PyMemoryOrder option \<Rightarrow> bool" where
  "releases mo = (case mo of None \<Rightarrow> False | Some o1 \<Rightarrow> memory_order_has_release o1)"

definition get_memory_effects ::
  "(var \<rightharpoonup> DataPredicate) \<Rightarrow> ir_context \<Rightarrow> op_class \<Rightarrow> (string \<times> operand_value) list \<Rightarrow> memory_effects res" where
  "get_memory_effects df c cl opnds =
     (if class_effect cl = EFFECT_NONE \<or> cl = TileAssert then Inr EMPTY_MEMORY_EFFECTS
      else if cl = TilePrintf then
        Inr \<lparr>array_mem_effects = [(ALIAS_UNIVERSE, class_effect cl)], has_acquire_order = False\<rparr>
      else and_then (input_alias_set df c opnds) (\<lambda>a.
        Inr \<lparr>array_mem_effects = [(a, class_effect cl)], has_acquire_order = acquires (order_of cl)\<rparr>))"

text \<open>
  The effects of a block. The source computes them once for all blocks, before anything is
  changed, and looks them up.
\<close>

fun block_memory_effects ::
  "(var \<rightharpoonup> DataPredicate) \<Rightarrow> ir_context \<Rightarrow> operation list \<Rightarrow> memory_effects \<Rightarrow> memory_effects res" where
  "block_memory_effects df c [] eff = Inr eff"
| "block_memory_effects df c (Plain cl opnds rs # ops) eff =
     and_then (get_memory_effects df c cl opnds) (\<lambda>e. block_memory_effects df c ops (effects_or eff e))"
| "block_memory_effects df c (Loop i rng inits params body rs # ops) eff =
     and_then (block_memory_effects df c body EMPTY_MEMORY_EFFECTS) (\<lambda>e.
       block_memory_effects df c ops (effects_or (effects_or eff EMPTY_MEMORY_EFFECTS) e))"
| "block_memory_effects df c (IfElse i x th el rs # ops) eff =
     and_then (block_memory_effects df c th EMPTY_MEMORY_EFFECTS) (\<lambda>e1.
     and_then (block_memory_effects df c el EMPTY_MEMORY_EFFECTS) (\<lambda>e2.
       block_memory_effects df c ops (effects_or (effects_or (effects_or eff EMPTY_MEMORY_EFFECTS) e1) e2)))"
| "block_memory_effects df c (Reduction i k xs params body rs # ops) eff =
     and_then (block_memory_effects df c body EMPTY_MEMORY_EFFECTS) (\<lambda>e.
       block_memory_effects df c ops (effects_or (effects_or eff EMPTY_MEMORY_EFFECTS) e))"
| "block_memory_effects df c (op # ops) eff = block_memory_effects df c ops (effects_or eff EMPTY_MEMORY_EFFECTS)"

abbreviation effects_of_block ::
  "(var \<rightharpoonup> DataPredicate) \<Rightarrow> ir_context \<Rightarrow> operation list \<Rightarrow> memory_effects res" where
  "effects_of_block df c ops \<equiv> block_memory_effects df c ops EMPTY_MEMORY_EFFECTS"

section \<open>Token maps\<close>

datatype token_key = AcquireKey | LastOp int | LastStore int

text \<open>
  A \<^verbatim>\<open>defaultdict\<close> whose default is the root token: reading a key enters it. The other fields
  are the names in use.
\<close>

record token_state =
  token_map :: "(token_key \<times> var) list"
  tok_ctx :: ir_context

definition token_read :: "var \<Rightarrow> token_key \<Rightarrow> token_state \<Rightarrow> var \<times> token_state" where
  "token_read root k st =
     (case map_of (token_map st) k of
        Some v \<Rightarrow> (v, st)
      | None \<Rightarrow> (root, st\<lparr>token_map := token_map st @ [(k, root)]\<rparr>))"

definition token_write :: "token_key \<Rightarrow> var \<Rightarrow> token_state \<Rightarrow> token_state" where
  "token_write k v st = st\<lparr>token_map := dict_set k v (token_map st)\<rparr>"

definition make_token_var :: "ir_context \<Rightarrow> (var \<times> ir_context) res" where
  "make_token_var c =
     (let (v, c) = make_var ''$token'' c in and_then (set_type v TokenTy c) (\<lambda>c. Inr (v, c)))"

definition new_token :: "token_state \<Rightarrow> (var \<times> token_state) res" where
  "new_token st = and_then (make_token_var (tok_ctx st)) (\<lambda>(v, c). Inr (v, st\<lparr>tok_ctx := c\<rparr>))"

text \<open>\<^verbatim>\<open>should_join\<close>; the role of a key must be that of the requested one.\<close>

definition overlaps :: "int \<Rightarrow> int \<Rightarrow> bool" where
  "overlaps a b \<longleftrightarrow> a AND b \<noteq> 0"

fun should_join :: "token_key \<Rightarrow> PyMemoryOrder option \<Rightarrow> token_key \<Rightarrow> bool" where
  "should_join k mo AcquireKey = True"
| "should_join k mo (LastOp a) \<longleftrightarrow> releases mo \<or> (case k of LastOp b \<Rightarrow> overlaps a b | _ \<Rightarrow> False)"
| "should_join k mo (LastStore a) \<longleftrightarrow> (case k of LastStore b \<Rightarrow> overlaps a b | _ \<Rightarrow> False)"

definition collect_join_tokens ::
  "var \<Rightarrow> token_key \<Rightarrow> PyMemoryOrder option \<Rightarrow> token_state \<Rightarrow> var list \<times> token_state" where
  "collect_join_tokens root k mo st =
     (let (t, st) = token_read root k st in
      (fold (\<lambda>(other, tok) toks. if should_join k mo other \<and> tok \<notin> set toks then toks @ [tok] else toks)
         (token_map st) [t], st))"

definition join_op :: "var list \<Rightarrow> var \<Rightarrow> operation" where
  "join_op toks r = Plain JoinTokens [(''tokens'', OTuple toks)] [r]"

definition get_input_token ::
  "var \<Rightarrow> token_key \<Rightarrow> PyMemoryOrder option \<Rightarrow> token_state \<Rightarrow> (var \<times> operation list \<times> token_state) res" where
  "get_input_token root k mo st =
     (let (toks, st) = collect_join_tokens root k mo st in
      if length toks = 1 then Inr (hd toks, [], st)
      else and_then (new_token st) (\<lambda>(t, st). Inr (t, [join_op toks t], st)))"

text \<open>\<^verbatim>\<open>dataclasses.replace(op, token=...)\<close>; an operation without the entry has the default, no token.\<close>

definition with_token :: "var \<Rightarrow> (string \<times> operand_value) list \<Rightarrow> (string \<times> operand_value) list" where
  "with_token t opnds = dict_set ''token'' (OVar t) opnds"

section \<open>Memory operations\<close>

definition two_results :: "var list \<Rightarrow> var res" where
  "two_results rs = (case rs of [r, t] \<Rightarrow> Inr t | _ \<Rightarrow> Inl ValueError)"

definition order_load ::
  "(var \<rightharpoonup> DataPredicate) \<Rightarrow> var \<Rightarrow> op_class \<Rightarrow> (string \<times> operand_value) list \<Rightarrow> var list \<Rightarrow> token_state
   \<Rightarrow> (operation list \<times> token_state) res" where
  "order_load df root cl opnds rs st =
     and_then (input_alias_set df (tok_ctx st) opnds) (\<lambda>a.
     and_then (get_input_token root (LastStore a) (order_of cl) st) (\<lambda>(t, joins, st).
     and_then (two_results rs) (\<lambda>result_tok.
     and_then (new_token st) (\<lambda>(new_last_op, st).
       let (last_op, st) = token_read root (LastOp a) st;
           st = token_write (LastOp a) new_last_op st;
           st = (if acquires (order_of cl) then token_write AcquireKey result_tok st else st)
       in Inr (joins @ [Plain cl (with_token t opnds) rs, join_op [last_op, result_tok] new_last_op], st)))))"

definition order_store ::
  "(var \<rightharpoonup> DataPredicate) \<Rightarrow> var \<Rightarrow> op_class \<Rightarrow> (string \<times> operand_value) list \<Rightarrow> var list \<Rightarrow> token_state
   \<Rightarrow> (operation list \<times> token_state) res" where
  "order_store df root cl opnds rs st =
     and_then (input_alias_set df (tok_ctx st) opnds) (\<lambda>a.
     and_then (get_input_token root (LastOp a) (order_of cl) st) (\<lambda>(t, joins, st).
     and_then (result_var rs) (\<lambda>result_tok.
       Inr (joins @ [Plain cl (with_token t opnds) rs],
            token_write (LastStore a) result_tok (token_write (LastOp a) result_tok st)))))"

definition order_atomic ::
  "(var \<rightharpoonup> DataPredicate) \<Rightarrow> var \<Rightarrow> op_class \<Rightarrow> (string \<times> operand_value) list \<Rightarrow> var list \<Rightarrow> var res \<Rightarrow> token_state
   \<Rightarrow> (operation list \<times> token_state) res" where
  "order_atomic df root cl opnds rs tok st =
     and_then (input_alias_set df (tok_ctx st) opnds) (\<lambda>a.
     and_then (get_input_token root (LastOp a) (order_of cl) st) (\<lambda>(t, joins, st).
     and_then tok (\<lambda>result_tok.
       let st = token_write (LastStore a) result_tok (token_write (LastOp a) result_tok st);
           st = (if acquires (order_of cl) then token_write AcquireKey result_tok st else st)
       in Inr (joins @ [Plain cl (with_token t opnds) rs], st))))"

definition order_print ::
  "var \<Rightarrow> (string \<times> operand_value) list \<Rightarrow> var list \<Rightarrow> token_state \<Rightarrow> (operation list \<times> token_state) res" where
  "order_print root opnds rs st =
     and_then (get_input_token root (LastOp ALIAS_UNIVERSE) None st) (\<lambda>(t, joins, st).
     and_then (result_var rs) (\<lambda>result_tok.
       Inr (joins @ [Plain TilePrintf (with_token t opnds) rs],
            token_write (LastStore ALIAS_UNIVERSE) result_tok (token_write (LastOp ALIAS_UNIVERSE) result_tok st))))"

text \<open>
  The innermost loop: the effects of its body, the alias sets of its parallel stores and the
  token map before it. A parallel store is the only operation in the body, nested blocks
  included, on its alias set, so the set identifies it.
\<close>

record loop_token_info =
  loop_mem_effects :: memory_effects
  loop_parallel_stores :: "int list"
  parent_token_map :: "(token_key \<times> var) list"

definition parallel_input_token :: "var \<Rightarrow> token_state \<Rightarrow> (var \<times> operation list \<times> token_state) res" where
  "parallel_input_token before_loop st =
     (case map_of (token_map st) AcquireKey of
        None \<Rightarrow> Inr (before_loop, [], st)
      | Some acq \<Rightarrow>
          if acq = before_loop then Inr (before_loop, [], st)
          else and_then (new_token st) (\<lambda>(t, st). Inr (t, [join_op [before_loop, acq] t], st)))"

definition parallel_store ::
  "var \<Rightarrow> loop_token_info \<Rightarrow> int \<Rightarrow> op_class \<Rightarrow> (string \<times> operand_value) list \<Rightarrow> var list \<Rightarrow> token_state
   \<Rightarrow> (operation list \<times> token_state) res" where
  "parallel_store root info a cl opnds rs st =
     (let before_loop = (case map_of (parent_token_map info) (LastOp a) of None \<Rightarrow> root | Some v \<Rightarrow> v) in
      and_then (parallel_input_token before_loop st) (\<lambda>(t, joins, st).
      and_then (result_var rs) (\<lambda>result_tok.
        let (last_op, st) = token_read root (LastOp a) st in
      and_then (new_token st) (\<lambda>(new_last_op, st).
        Inr (joins @ [Plain cl (with_token t opnds) rs, join_op [last_op, result_tok] new_last_op],
             token_write (LastStore a) new_last_op (token_write (LastOp a) new_last_op st))))))"

definition order_tile_store ::
  "(var \<rightharpoonup> DataPredicate) \<Rightarrow> var \<Rightarrow> loop_token_info option \<Rightarrow> op_class \<Rightarrow> (string \<times> operand_value) list \<Rightarrow> var list
   \<Rightarrow> token_state \<Rightarrow> (operation list \<times> token_state) res" where
  "order_tile_store df root l cl opnds rs st =
     (case l of
        None \<Rightarrow> order_store df root cl opnds rs st
      | Some info \<Rightarrow>
          and_then (input_alias_set df (tok_ctx st) opnds) (\<lambda>a.
            if a \<in> set (loop_parallel_stores info) then parallel_store root info a cl opnds rs st
            else order_store df root cl opnds rs st))"

definition order_plain ::
  "(var \<rightharpoonup> DataPredicate) \<Rightarrow> var \<Rightarrow> loop_token_info option \<Rightarrow> op_class \<Rightarrow> (string \<times> operand_value) list \<Rightarrow> var list
   \<Rightarrow> token_state \<Rightarrow> (operation list \<times> token_state) res" where
  "order_plain df root l cl opnds rs st =
     (case cl of
        TileLoad mo \<Rightarrow> order_load df root cl opnds rs st
      | LoadPointer \<Rightarrow> order_load df root cl opnds rs st
      | TileStore mo \<Rightarrow> order_tile_store df root l cl opnds rs st
      | StorePointer \<Rightarrow> order_store df root cl opnds rs st
      | TileAtomicCAS mo \<Rightarrow> order_atomic df root cl opnds rs (two_results rs) st
      | TileAtomicRMW mo \<Rightarrow> order_atomic df root cl opnds rs (two_results rs) st
      | TileAtomicRedView mo \<Rightarrow> order_atomic df root cl opnds rs (result_var rs) st
      | TilePrintf \<Rightarrow> order_print root opnds rs st
      | _ \<Rightarrow> Inr ([Plain cl opnds rs], st))"

section \<open>Parallel stores\<close>

definition bit_count :: "int \<Rightarrow> nat" where
  "bit_count a = length (filter (bit \<bar>a\<bar>) [0..<nat (bit_length a)])"

definition is_memory_op :: "op_class \<Rightarrow> bool" where
  "is_memory_op cl \<longleftrightarrow> class_effect cl \<noteq> EFFECT_NONE \<and> cl \<noteq> TileAssert \<and> cl \<noteq> TilePrintf"

text \<open>The memory operations directly in a block, with their alias sets.\<close>

fun direct_memory_ops ::
  "(var \<rightharpoonup> DataPredicate) \<Rightarrow> ir_context \<Rightarrow> operation list
   \<Rightarrow> (int \<times> op_class \<times> (string \<times> operand_value) list) list res" where
  "direct_memory_ops df c [] = Inr []"
| "direct_memory_ops df c (Plain cl opnds rs # ops) =
     (if is_memory_op cl then
        and_then (input_alias_set df c opnds) (\<lambda>a.
        and_then (direct_memory_ops df c ops) (\<lambda>r. Inr ((a, cl, opnds) # r)))
      else direct_memory_ops df c ops)"
| "direct_memory_ops df c (op # ops) = direct_memory_ops df c ops"

fun nested_mem_effects ::
  "(var \<rightharpoonup> DataPredicate) \<Rightarrow> ir_context \<Rightarrow> (var list \<times> operation list) list \<Rightarrow> memory_effects \<Rightarrow> memory_effects res" where
  "nested_mem_effects df c [] eff = Inr eff"
| "nested_mem_effects df c ((params, b) # bs) eff =
     and_then (effects_of_block df c b) (\<lambda>e. nested_mem_effects df c bs (effects_or eff e))"

definition is_tile_store :: "op_class \<Rightarrow> bool" where
  "is_tile_store cl = (case cl of TileStore mo \<Rightarrow> True | _ \<Rightarrow> False)"

definition injective_store ::
  "(var \<rightharpoonup> DataPredicate) \<Rightarrow> ir_context \<Rightarrow> var list \<Rightarrow> (string \<times> operand_value) list \<Rightarrow> bool res" where
  "injective_store df c params opnds =
     and_then (get_input_var c opnds) (\<lambda>ptr.
     and_then (var_operand ''view'' opnds) (\<lambda>view.
     and_then (get_type view c) (\<lambda>ty.
       if ty \<noteq> PartitionViewTy then Inr False
       else and_then (df_predicate df ptr) (\<lambda>p.
         if may_alias p then Inr False
         else and_then (operand_of ''index'' opnds) (\<lambda>ix.
           if operand_vars ix = [] then Inr False
           else (case params of [] \<Rightarrow> Inl IndexError | iv # bs \<Rightarrow> Inr (iv \<in> set (operand_vars ix))))))))"

definition tile_store_candidates ::
  "memory_effects \<Rightarrow> (int \<times> op_class \<times> (string \<times> operand_value) list) list
   \<Rightarrow> (int \<times> op_class \<times> (string \<times> operand_value) list) list" where
  "tile_store_candidates nested mem_ops =
     filter (\<lambda>(a, cl, opnds).
       length (filter (\<lambda>(b, _). b = a) mem_ops) = 1 \<and> is_tile_store cl \<and> effect_on nested a = EFFECT_NONE) mem_ops"

definition filter_by_store_index ::
  "(var \<rightharpoonup> DataPredicate) \<Rightarrow> ir_context \<Rightarrow> var list
   \<Rightarrow> (int \<times> op_class \<times> (string \<times> operand_value) list) list \<Rightarrow> int list res" where
  "filter_by_store_index df c params candidates =
     and_then (map_res (\<lambda>(a, cl, opnds). and_then (injective_store df c params opnds) (\<lambda>b. Inr (a, b))) candidates)
       (\<lambda>rs. Inr (map fst (filter snd rs)))"

definition get_parallel_stores ::
  "(var \<rightharpoonup> DataPredicate) \<Rightarrow> ir_context \<Rightarrow> (var \<times> var \<times> var) option \<Rightarrow> var list \<Rightarrow> operation list \<Rightarrow> int list res" where
  "get_parallel_stores df c rng params body =
     (if \<not> is_for_loop rng then Inr []
      else
        and_then (effects_of_block df c body) (\<lambda>eff.
        if \<exists>(a, e) \<in> set (array_mem_effects eff). a = ALIAS_UNIVERSE \<or> bit_count a > 1 then Inr []
        else
          and_then (nested_mem_effects df c (concat (map nested_blocks body)) EMPTY_MEMORY_EFFECTS) (\<lambda>nested.
          and_then (direct_memory_ops df c body) (\<lambda>mem_ops.
            filter_by_store_index df c params (tile_store_candidates nested mem_ops)))))"

section \<open>Blocks\<close>

text \<open>The keys whose tokens a construct with these effects carries, in their order.\<close>

fun effect_keys :: "int \<times> MemoryEffect \<Rightarrow> token_key list" where
  "effect_keys (a, EFFECT_NONE) = []"
| "effect_keys (a, EFFECT_LOAD) = [LastOp a]"
| "effect_keys (a, EFFECT_STORE) = [LastOp a, LastStore a]"

definition carried_keys :: "memory_effects \<Rightarrow> token_key list" where
  "carried_keys eff =
     concat (map effect_keys (array_mem_effects eff)) @ (if has_acquire_order eff then [AcquireKey] else [])"

text \<open>\<^verbatim>\<open>_get_cf_exit_tokens\<close>.\<close>

fun exit_tokens :: "var \<Rightarrow> token_key list \<Rightarrow> token_state \<Rightarrow> var list \<times> token_state" where
  "exit_tokens root [] st = ([], st)"
| "exit_tokens root (k # ks) st =
     (let (t, st) = token_read root k st; (ts, st) = exit_tokens root ks st in (t # ts, st))"

definition init_token :: "token_key \<times> var \<times> var \<times> var \<Rightarrow> var" where
  "init_token x = fst (snd x)"

definition body_token :: "token_key \<times> var \<times> var \<times> var \<Rightarrow> var" where
  "body_token x = fst (snd (snd x))"

definition result_token :: "token_key \<times> var \<times> var \<times> var \<Rightarrow> var" where
  "result_token x = snd (snd (snd x))"

text \<open>The carried variables of a loop: for each key the initial token, the body variable and the result.\<close>

fun carry_tokens :: "var \<Rightarrow> token_key list \<Rightarrow> token_state \<Rightarrow> ((token_key \<times> var \<times> var \<times> var) list \<times> token_state) res" where
  "carry_tokens root [] st = Inr ([], st)"
| "carry_tokens root (k # ks) st =
     (let (init, st) = token_read root k st in
      and_then (new_token st) (\<lambda>(body_var, st).
      and_then (new_token st) (\<lambda>(res_var, st).
      and_then (carry_tokens root ks st) (\<lambda>(rest, st).
        Inr ((k, init, body_var, res_var) # rest, st)))))"

fun result_tokens :: "token_key list \<Rightarrow> token_state \<Rightarrow> ((token_key \<times> var) list \<times> token_state) res" where
  "result_tokens [] st = Inr ([], st)"
| "result_tokens (k # ks) st =
     and_then (new_token st) (\<lambda>(x, st).
     and_then (result_tokens ks st) (\<lambda>(rest, st). Inr ((k, x) # rest, st)))"

definition write_all :: "(token_key \<times> var) list \<Rightarrow> (token_key \<times> var) list \<Rightarrow> (token_key \<times> var) list" where
  "write_all kvs tm = fold (\<lambda>(k, v). dict_set k v) kvs tm"

text \<open>
  \<^verbatim>\<open>_to_token_order_in_block\<close>: the innermost loop and branch, the operations and the state. The
  token map is local to the block, so only the names in use come back.
\<close>

fun token_order ::
  "(var \<rightharpoonup> DataPredicate) \<Rightarrow> var \<Rightarrow> loop_token_info option \<Rightarrow> memory_effects option \<Rightarrow> operation list \<Rightarrow> token_state
   \<Rightarrow> (operation list \<times> ir_context) res" where
  "token_order df root l t [] st = Inr ([], tok_ctx st)"
| "token_order df root l t (Plain cl opnds rs # ops) st =
     and_then (order_plain df root l cl opnds rs st) (\<lambda>(new, st).
     and_then (token_order df root l t ops st) (\<lambda>(ops', c). Inr (new @ ops', c)))"
| "token_order df root l t (Loop i rng inits params body rs # ops) st =
     and_then (effects_of_block df (tok_ctx st) body) (\<lambda>eff.
     and_then (carry_tokens root (carried_keys eff) st) (\<lambda>(carried, st').
     and_then (get_parallel_stores df (tok_ctx st') rng params body) (\<lambda>par.
     let info = \<lparr>loop_mem_effects = eff, loop_parallel_stores = par, parent_token_map = token_map st'\<rparr>;
         body_map = write_all (zip (map fst carried) (map body_token carried)) (token_map st);
         result_map = write_all (zip (map fst carried) (map result_token carried)) (token_map st) in
     and_then (token_order df root (Some info) None body \<lparr>token_map = body_map, tok_ctx = tok_ctx st'\<rparr>) (\<lambda>(body', c).
     let (i', c) = new_object c in
     and_then (token_order df root l t ops \<lparr>token_map = result_map, tok_ctx = c\<rparr>) (\<lambda>(ops', c).
       Inr (Loop i' rng (inits @ map init_token carried) (params @ map body_token carried) body'
              (rs @ map result_token carried) # ops', c))))))"
| "token_order df root l t (Continue vs # ops) st =
     (case l of None \<Rightarrow> Inl AttributeError
      | Some info \<Rightarrow>
          let (toks, st) = exit_tokens root (carried_keys (loop_mem_effects info)) st in
          and_then (token_order df root l t ops st) (\<lambda>(ops', c). Inr (Continue (vs @ toks) # ops', c)))"
| "token_order df root l t (Break vs # ops) st =
     (case l of None \<Rightarrow> Inl AttributeError
      | Some info \<Rightarrow>
          let (toks, st) = exit_tokens root (carried_keys (loop_mem_effects info)) st in
          and_then (token_order df root l t ops st) (\<lambda>(ops', c). Inr (Break (vs @ toks) # ops', c)))"
| "token_order df root l t (IfElse i x th el rs # ops) st =
     and_then (effects_of_block df (tok_ctx st) th) (\<lambda>e1.
     and_then (effects_of_block df (tok_ctx st) el) (\<lambda>e2.
     let eff = effects_or e1 e2 in
     and_then (result_tokens (carried_keys eff) st) (\<lambda>(results, st).
     and_then (token_order df root l (Some eff) th st) (\<lambda>(th', c).
     and_then (token_order df root l (Some eff) el (st\<lparr>tok_ctx := c\<rparr>)) (\<lambda>(el', c).
     let (i', c) = new_object c in
     and_then (token_order df root l t ops \<lparr>token_map = write_all results (token_map st), tok_ctx = c\<rparr>) (\<lambda>(ops', c).
       Inr (IfElse i' x th' el' (rs @ map snd results) # ops', c)))))))"
| "token_order df root l t (EndBranch vs # ops) st =
     (case t of None \<Rightarrow> Inl AttributeError
      | Some eff \<Rightarrow>
          let (toks, st) = exit_tokens root (carried_keys eff) st in
          and_then (token_order df root l t ops st) (\<lambda>(ops', c). Inr (EndBranch (vs @ toks) # ops', c)))"
| "token_order df root l t (Reduction i k xs params body rs # ops) st =
     and_then (token_order df root l t ops st) (\<lambda>(ops', c). Inr (Reduction i k xs params body rs # ops', c))"
| "token_order df root l t (Return # ops) st =
     and_then (token_order df root l t ops st) (\<lambda>(ops', c). Inr (Return # ops', c))"

definition token_order_pass ::
  "operation list \<Rightarrow> (var \<rightharpoonup> DataPredicate) \<Rightarrow> ir_context \<Rightarrow> (operation list \<times> ir_context) res" where
  "token_order_pass ops df c =
     and_then (effects_of_block df c ops) (\<lambda>eff.
     and_then (make_token_var c) (\<lambda>(root, c).
     and_then (token_order df root None None ops \<lparr>token_map = [], tok_ctx = c\<rparr>) (\<lambda>(ops', c).
       Inr (Plain MakeToken [] [root] # ops', c))))"

end
