(* ===== verification/TokenPaths.thy ===== *)
theory TokenPaths
  imports TokenOrder
begin

text \<open>
  The paths through a kernel with tokens, and what the tokens order: along a path a token is
  the set of the memory operations that its holder waits for. A path may take any branch, run
  any loop any number of times and stop anywhere, so whatever holds of all paths holds of all
  executions, of those that do not end too.
\<close>

section \<open>Events\<close>

record event =
  on_alias :: int
  effect :: MemoryEffect
  acquiring :: bool
  releasing :: bool
  gives :: var
  waits_for :: "nat set"

text \<open>Two operations that must happen in the order in which the path has them.\<close>

definition must_order :: "event \<Rightarrow> event \<Rightarrow> bool" where
  "must_order e1 e2 \<longleftrightarrow>
     overlaps (on_alias e1) (on_alias e2) \<and> (effect e1 = EFFECT_STORE \<or> effect e2 = EFFECT_STORE)
     \<or> acquiring e1 \<or> releasing e2"

text \<open>Every operation of a path waits for those before it that it must follow, except those that give the tokens in \<open>X\<close>.\<close>

definition ordered :: "var set \<Rightarrow> event list \<Rightarrow> bool" where
  "ordered X log \<longleftrightarrow>
     (\<forall>j < length log. gives (log ! j) \<notin> X \<longrightarrow>
        (\<forall>i < j. must_order (log ! i) (log ! j) \<longrightarrow> i \<in> waits_for (log ! j)))"

section \<open>Paths\<close>

type_synonym tokens = "var \<Rightarrow> nat set"

text \<open>The alias set of the event of an operation, none for an operation without tokens.\<close>

definition event_alias ::
  "(var \<rightharpoonup> DataPredicate) \<Rightarrow> ir_context \<Rightarrow> op_class \<Rightarrow> (string \<times> operand_value) list \<Rightarrow> int option" where
  "event_alias df c cl opnds =
     (if class_effect cl = EFFECT_NONE \<or> cl = TileAssert then None
      else if cl = TilePrintf then Some ALIAS_UNIVERSE
      else (case input_alias_set df c opnds of Inl e \<Rightarrow> None | Inr a \<Rightarrow> Some a))"

definition token_value :: "tokens \<Rightarrow> operand_value option \<Rightarrow> nat set" where
  "token_value E x = (case x of None \<Rightarrow> {} | Some o1 \<Rightarrow> \<Union> (E ` set (operand_vars o1)))"

definition new_event ::
  "op_class \<Rightarrow> int \<Rightarrow> var \<Rightarrow> nat set \<Rightarrow> event" where
  "new_event cl a r w =
     \<lparr>on_alias = a, effect = class_effect cl, acquiring = acquires (order_of cl),
      releasing = releases (order_of cl), gives = r, waits_for = w\<rparr>"

definition give_token :: "var list \<Rightarrow> nat set \<Rightarrow> tokens \<Rightarrow> tokens" where
  "give_token rs w E = (if rs = [] then E else E(last rs := w))"

text \<open>A memory operation waits for its token and gives itself to its last result.\<close>

definition token_step ::
  "(var \<rightharpoonup> DataPredicate) \<Rightarrow> ir_context \<Rightarrow> op_class \<Rightarrow> (string \<times> operand_value) list \<Rightarrow> var list
   \<Rightarrow> tokens \<Rightarrow> event list \<Rightarrow> tokens \<times> event list" where
  "token_step df c cl opnds rs E log =
     (case event_alias df c cl opnds of
        Some a \<Rightarrow>
          (let w = token_value E (map_of opnds ''token'') in
           (give_token rs (insert (length log) w) E, log @ [new_event cl a (last rs) w]))
      | None \<Rightarrow>
          if cl = JoinTokens then (give_token rs (token_value E (map_of opnds ''tokens'')) E, log)
          else if cl = MakeToken then (give_token rs {} E, log)
          else (E, log))"

definition bind_tokens :: "tokens \<Rightarrow> var list \<Rightarrow> nat set list \<Rightarrow> tokens" where
  "bind_tokens E xs vs = (\<lambda>v. case map_of (zip xs vs) v of None \<Rightarrow> E v | Some s \<Rightarrow> s)"

datatype path_end =
    FellThrough tokens | Cut | Yields "nat set list" | Continues "nat set list" | Breaks "nat set list" | Returns

text \<open>
  The iterations of a loop end with the values of its results, or with the whole path. The
  induction variable of a for loop has no token; a for loop may end before each iteration.
\<close>

inductive
  path :: "(var \<rightharpoonup> DataPredicate) \<Rightarrow> ir_context \<Rightarrow> operation list \<Rightarrow> tokens \<Rightarrow> event list \<Rightarrow> path_end \<Rightarrow> event list \<Rightarrow> bool" and
  iterations :: "(var \<rightharpoonup> DataPredicate) \<Rightarrow> ir_context \<Rightarrow> bool \<Rightarrow> var list \<Rightarrow> operation list \<Rightarrow> tokens \<Rightarrow> nat set list \<Rightarrow> event list
    \<Rightarrow> path_end + nat set list \<Rightarrow> event list \<Rightarrow> bool"
  for df c where
  path_cut: "path df c ops E log Cut log"
| path_nil: "path df c [] E log (FellThrough E) log"
| path_plain: "token_step df c cl opnds rs E log = (E', log') \<Longrightarrow> path df c ops E' log' q log'' \<Longrightarrow>
    path df c (Plain cl opnds rs # ops) E log q log''"
| path_continue: "path df c (Continue vs # ops) E log (Continues (map E vs)) log"
| path_break: "path df c (Break vs # ops) E log (Breaks (map E vs)) log"
| path_yield: "path df c (EndBranch vs # ops) E log (Yields (map E vs)) log"
| path_return: "path df c (Return # ops) E log Returns log"
| path_reduction: "path df c ops E log q log' \<Longrightarrow> path df c (Reduction i k xs params body rs # ops) E log q log'"
| path_branch: "b = th \<or> b = el \<Longrightarrow> path df c b E log (Yields ws) log' \<Longrightarrow> length ws = length rs \<Longrightarrow>
    path df c ops (bind_tokens E rs ws) log' q log'' \<Longrightarrow> path df c (IfElse i x th el rs # ops) E log q log''"
| path_branch_exit: "b = th \<or> b = el \<Longrightarrow> path df c b E log q log' \<Longrightarrow> (\<forall>ws. q \<noteq> Yields ws) \<Longrightarrow> (\<forall>E'. q \<noteq> FellThrough E') \<Longrightarrow>
    path df c (IfElse i x th el rs # ops) E log q log'"
| path_loop: "iterations df c (is_for_loop rng) (body_vars rng params) body E (map E inits) log (Inr ws) log' \<Longrightarrow>
    length ws = length rs \<Longrightarrow> path df c ops (bind_tokens E rs ws) log' q log'' \<Longrightarrow>
    path df c (Loop i rng inits params body rs # ops) E log q log''"
| path_loop_exit: "iterations df c (is_for_loop rng) (body_vars rng params) body E (map E inits) log (Inl q) log' \<Longrightarrow>
    path df c (Loop i rng inits params body rs # ops) E log q log'"
| iter_end: "iterations df c True params body E vs log (Inr vs) log"
| iter_next: "length vs = length params \<Longrightarrow> path df c body (bind_tokens E params vs) log (Continues ws) log' \<Longrightarrow>
    iterations df c f params body E ws log' r log'' \<Longrightarrow> iterations df c f params body E vs log r log''"
| iter_break: "length vs = length params \<Longrightarrow> path df c body (bind_tokens E params vs) log (Breaks ws) log' \<Longrightarrow>
    iterations df c f params body E vs log (Inr ws) log'"
| iter_exit: "length vs = length params \<Longrightarrow> path df c body (bind_tokens E params vs) log q log' \<Longrightarrow> q = Cut \<or> q = Returns \<Longrightarrow>
    iterations df c f params body E vs log (Inl q) log'"

inductive_cases path_nilE: "path df c [] E log q log'"
inductive_cases path_plainE: "path df c (Plain cl opnds rs # ops) E log q log'"
inductive_cases path_continueE: "path df c (Continue vs # ops) E log q log'"
inductive_cases path_breakE: "path df c (Break vs # ops) E log q log'"
inductive_cases path_yieldE: "path df c (EndBranch vs # ops) E log q log'"
inductive_cases path_returnE: "path df c (Return # ops) E log q log'"
inductive_cases path_reductionE: "path df c (Reduction i k xs params body rs # ops) E log q log'"
inductive_cases path_branchE: "path df c (IfElse i x th el rs # ops) E log q log'"
inductive_cases path_loopE: "path df c (Loop i rng inits params body rs # ops) E log q log'"

end
