(* ===== verification/TokenJoin.thy ===== *)
theory TokenJoin
  imports TokenPaths TileSem
begin

text \<open>
  What one memory operation does with the tokens: the token it is given holds every operation
  before it that it must follow, and the token map goes on to hold every operation of the path
  under each of its keys.
\<close>

section \<open>Names in use\<close>

definition extends_ctx :: "ir_context \<Rightarrow> ir_context \<Rightarrow> bool" where
  "extends_ctx c c' \<longleftrightarrow>
     aggregate_values c' = aggregate_values c \<and> var_names c \<subseteq> var_names c'
     \<and> (\<forall>v \<in> var_names c. typemap c' v = typemap c v)"

lemma extends_ctx_refl [simp]: "extends_ctx c c"
  by (simp add: extends_ctx_def)

lemma extends_ctx_trans [trans]: "extends_ctx a b \<Longrightarrow> extends_ctx b c \<Longrightarrow> extends_ctx a c"
  by (auto simp: extends_ctx_def)

lemma make_token_var_fresh:
  assumes "make_token_var c = Inr (v, c')"
  shows "v \<notin> var_names c" and "v \<in> var_names c'" and "extends_ctx c c'"
proof -
  obtain c1 where m: "make_var ''$token'' c = (v, c1)" and s: "set_type v TokenTy c1 = Inr c'"
    using assms by (auto simp: make_token_var_def and_then_Inr_iff split: prod.splits)
  note f = make_var_fresh_aux [OF m]
  have a: "aggregate_values c1 = aggregate_values c"
    using m by (auto simp: make_var_def split: prod.splits)
  have c': "c' = c1\<lparr>typemap := (typemap c1)(v \<mapsto> TokenTy)\<rparr>"
    using s by (auto simp: set_type_def and_then_Inr_iff)
  show "v \<notin> var_names c" by (rule f(1))
  show "v \<in> var_names c'" using f(2) by (simp add: c' var_names_def)
  show "extends_ctx c c'" using f(1,2,5) a by (auto simp: extends_ctx_def c' var_names_def)
qed

lemma new_token_fresh:
  assumes "new_token st = Inr (v, st')"
  shows "v \<notin> var_names (tok_ctx st)" and "v \<in> var_names (tok_ctx st')" and "extends_ctx (tok_ctx st) (tok_ctx st')"
    and "token_map st' = token_map st"
  using assms make_token_var_fresh by (auto simp: new_token_def and_then_Inr_iff)

lemma extends_new_object:
  assumes "new_object c = (i, c')"
  shows "extends_ctx c c'"
proof -
  have "c' = c\<lparr>next_object := Suc (next_object c)\<rparr>" using assms by (auto simp: new_object_def)
  then show ?thesis by (simp add: extends_ctx_def var_names_def)
qed

section \<open>The token of a key\<close>

definition token_of :: "var \<Rightarrow> (token_key \<times> var) list \<Rightarrow> token_key \<Rightarrow> var" where
  "token_of root tm k = (case map_of tm k of None \<Rightarrow> root | Some v \<Rightarrow> v)"

definition map_tokens :: "var \<Rightarrow> (token_key \<times> var) list \<Rightarrow> var set" where
  "map_tokens root tm = insert root (snd ` set tm)"

lemma token_of_range: "token_of root tm k \<in> map_tokens root tm"
  by (cases "map_of tm k") (auto simp: token_of_def map_tokens_def dest!: map_of_SomeD intro: image_eqI [of _ snd "(k, _)"])

lemma map_of_dict_set: "map_of (dict_set k v d) = (map_of d)(k \<mapsto> v)"
proof -
  have upd: "map_of (map (\<lambda>(k', w). (k', if k' = k then v else w)) d) j =
      (if j = k then (if map_of d k = None then None else Some v) else map_of d j)" for j
    by (induction d) auto
  show ?thesis
  proof (cases "k \<in> fst ` set d")
    case True
    then have "map_of d k \<noteq> None" by (simp add: map_of_eq_None_iff)
    with True show ?thesis by (auto simp: dict_set_def upd fun_eq_iff)
  next
    case False
    then have "map_of d k = None" by (simp add: map_of_eq_None_iff)
    with False show ?thesis by (auto simp: dict_set_def map_add_def fun_eq_iff split: option.splits)
  qed
qed

lemma token_of_dict_set [simp]:
  "token_of root (dict_set k v tm) j = (if j = k then v else token_of root tm j)"
  by (simp add: token_of_def map_of_dict_set)

lemma dict_set_range: "snd ` set (dict_set k v d) \<subseteq> insert v (snd ` set d)"
  by (auto simp: dict_set_def image_iff) (metis snd_conv)

lemma map_tokens_dict_set: "map_tokens root (dict_set k v tm) \<subseteq> insert v (map_tokens root tm)"
  using dict_set_range [of k v tm] unfolding map_tokens_def by blast

lemma token_write_simps [simp]:
  "tok_ctx (token_write k v st) = tok_ctx st"
  "token_of root (token_map (token_write k v st)) j = (if j = k then v else token_of root (token_map st) j)"
  by (simp_all add: token_write_def)

lemma map_tokens_write: "map_tokens root (token_map (token_write k v st)) \<subseteq> insert v (map_tokens root (token_map st))"
  by (simp add: token_write_def map_tokens_dict_set)

lemma token_read_result:
  assumes "token_read root k st = (v, st')"
  shows "v = token_of root (token_map st) k" and "tok_ctx st' = tok_ctx st"
    and "token_of root (token_map st') = token_of root (token_map st)"
    and "map_tokens root (token_map st') = map_tokens root (token_map st)"
  using assms
  by (auto simp: token_read_def token_of_def map_tokens_def fun_eq_iff map_add_def split: option.splits if_splits)

section \<open>Runs of plain operations\<close>

abbreviation plains :: "(op_class \<times> (string \<times> operand_value) list \<times> var list) list \<Rightarrow> operation list" where
  "plains \<equiv> map (\<lambda>(cl, opnds, rs). Plain cl opnds rs)"

fun run_plains ::
  "(var \<rightharpoonup> DataPredicate) \<Rightarrow> ir_context \<Rightarrow> (op_class \<times> (string \<times> operand_value) list \<times> var list) list
   \<Rightarrow> tokens \<Rightarrow> event list \<Rightarrow> tokens \<times> event list" where
  "run_plains df c [] E log = (E, log)"
| "run_plains df c ((cl, opnds, rs) # xs) E log =
     (let (E, log) = token_step df c cl opnds rs E log in run_plains df c xs E log)"

lemma run_plains_append:
  "run_plains df c (xs @ ys) E log = (let (E, log) = run_plains df c xs E log in run_plains df c ys E log)"
  by (induction df c xs E log rule: run_plains.induct) (auto split: prod.splits)

lemma path_plains:
  assumes "path df c (plains xs @ ops) E log q log'"
  shows "(q = Cut \<and> (\<exists>n. log' = snd (run_plains df c (take n xs) E log)))
    \<or> path df c ops (fst (run_plains df c xs E log)) (snd (run_plains df c xs E log)) q log'"
  using assms
proof (induction df c xs E log rule: run_plains.induct)
  case (1 df c E log)
  then show ?case by simp
next
  case (2 df c cl opnds rs xs E log)
  obtain E1 log1 where s: "token_step df c cl opnds rs E log = (E1, log1)" by fastforce
  from "2.prems" consider "q = Cut" "log' = log" | "path df c (plains xs @ ops) E1 log1 q log'"
    by (auto elim!: path_plainE simp: s)
  then show ?case
  proof cases
    case 1
    then show ?thesis by (auto intro: exI [of _ 0])
  next
    case 2
    from "2.IH" [OF s [symmetric] refl 2] show ?thesis
    proof
      assume "q = Cut \<and> (\<exists>n. log' = snd (run_plains df c (take n xs) E1 log1))"
      then obtain n where "q = Cut" "log' = snd (run_plains df c (take n xs) E1 log1)" by blast
      then show ?thesis by (auto simp: s intro!: exI [of _ "Suc n"])
    qed (simp add: s)
  qed
qed

section \<open>Events under their keys\<close>

definition event_keys :: "event \<Rightarrow> token_key set" where
  "event_keys e =
     {LastOp (on_alias e)} \<union> (if effect e = EFFECT_STORE then {LastStore (on_alias e)} else {})
     \<union> (if acquiring e then {AcquireKey} else {})"

text \<open>\<open>f\<close> holds every operation of the path under each of its keys.\<close>

definition holds :: "(token_key \<Rightarrow> nat set) \<Rightarrow> event list \<Rightarrow> bool" where
  "holds f log \<longleftrightarrow> (\<forall>i < length log. \<forall>k \<in> event_keys (log ! i). i \<in> f k)"

definition joins_all ::
  "(token_key \<Rightarrow> nat set) \<Rightarrow> token_key \<Rightarrow> PyMemoryOrder option \<Rightarrow> nat set \<Rightarrow> bool" where
  "joins_all f k mo w \<longleftrightarrow> f k \<subseteq> w \<and> (\<forall>k'. should_join k mo k' \<longrightarrow> f k' \<subseteq> w)"

text \<open>The token an operation is given holds everything before it that it must follow.\<close>

lemma joins_ordered:
  assumes h: "holds f log" and w: "joins_all f k mo w"
    and k: "k = LastOp (on_alias e) \<or> k = LastStore (on_alias e) \<and> effect e = EFFECT_LOAD"
    and mo: "releasing e = releases mo" and i: "i < length log" and m: "must_order (log ! i) e"
  shows "i \<in> w"
proof -
  let ?b = "on_alias (log ! i)"
  have keys: "i \<in> f k'" if "k' \<in> event_keys (log ! i)" for k' using h i that by (simp add: holds_def)
  have pull: "should_join k mo k' \<Longrightarrow> k' \<in> event_keys (log ! i) \<Longrightarrow> i \<in> w" for k'
    using keys w unfolding joins_all_def by blast
  from m consider "overlaps ?b (on_alias e)" "effect (log ! i) = EFFECT_STORE \<or> effect e = EFFECT_STORE"
    | "acquiring (log ! i)" | "releasing e"
    unfolding must_order_def by blast
  then show ?thesis
  proof cases
    case 1
    then have "should_join k mo (LastOp ?b) \<and> LastOp ?b \<in> event_keys (log ! i)
        \<or> should_join k mo (LastStore ?b) \<and> LastStore ?b \<in> event_keys (log ! i)"
      using k by (auto simp: event_keys_def)
    then show ?thesis using pull by blast
  next
    case 2
    then have "AcquireKey \<in> event_keys (log ! i)" by (simp add: event_keys_def)
    moreover have "should_join k mo AcquireKey" by simp
    ultimately show ?thesis using pull by blast
  next
    case 3
    then have "should_join k mo (LastOp ?b)" using mo by simp
    moreover have "LastOp ?b \<in> event_keys (log ! i)" by (simp add: event_keys_def)
    ultimately show ?thesis using pull by blast
  qed
qed

text \<open>The token map after an operation still holds everything, the operation included.\<close>

lemma holds_snoc:
  assumes "holds f log" and "\<And>k. k \<in> event_keys e \<Longrightarrow> length log \<in> g k"
    and "\<And>k i. i < length log \<Longrightarrow> k \<in> event_keys (log ! i) \<Longrightarrow> i \<in> f k \<Longrightarrow> i \<in> g k"
  shows "holds g (log @ [e])"
  using assms by (auto simp: holds_def nth_append less_Suc_eq)

section \<open>Joined tokens\<close>

lemma collect_fold:
  "set (fold (\<lambda>(other, tok) toks. if P other \<and> tok \<notin> set toks then toks @ [tok] else toks) tm ts)
     = set ts \<union> {v. \<exists>k. (k, v) \<in> set tm \<and> P k}"
proof (induction tm arbitrary: ts)
  case Nil
  then show ?case by simp
next
  case (Cons kv tm)
  obtain k v where kv: "kv = (k, v)" by fastforce
  have "set (if P k \<and> v \<notin> set ts then ts @ [v] else ts) = set ts \<union> {w. w = v \<and> P k}" by auto
  then show ?case unfolding kv by (simp add: Cons.IH del: if_split) auto
qed

lemma collect_join_tokens_result:
  assumes "collect_join_tokens root k mo st = (toks, st')"
  shows "set toks \<subseteq> map_tokens root (token_map st)" and "token_of root (token_map st) k \<in> set toks"
    and "should_join k mo k' \<Longrightarrow> token_of root (token_map st) k' \<in> insert root (set toks)"
    and "tok_ctx st' = tok_ctx st" and "token_of root (token_map st') = token_of root (token_map st)"
    and "map_tokens root (token_map st') = map_tokens root (token_map st)"
proof -
  obtain t st1 where r: "token_read root k st = (t, st1)" by fastforce
  note t = token_read_result [OF r]
  have st': "st' = st1" and toks: "set toks = insert t {v. \<exists>k'. (k', v) \<in> set (token_map st1) \<and> should_join k mo k'}"
    using assms by (auto simp: collect_join_tokens_def r collect_fold)
  have "{v. \<exists>k'. (k', v) \<in> set (token_map st1) \<and> should_join k mo k'} \<subseteq> snd ` set (token_map st1)" by force
  then show "set toks \<subseteq> map_tokens root (token_map st)"
    using token_of_range [of root "token_map st" k] t(1,4) unfolding toks map_tokens_def by blast
  show "token_of root (token_map st) k \<in> set toks" by (simp add: toks t(1))
  show "should_join k mo k' \<Longrightarrow> token_of root (token_map st) k' \<in> insert root (set toks)"
    unfolding t(3) [symmetric] by (auto simp: toks token_of_def dest: map_of_SomeD split: option.splits)
  show "tok_ctx st' = tok_ctx st" "token_of root (token_map st') = token_of root (token_map st)"
    "map_tokens root (token_map st') = map_tokens root (token_map st)"
    using t by (simp_all add: st')
qed

lemma token_step_join [simp]:
  "token_step df c JoinTokens opnds rs E log = (give_token rs (token_value E (map_of opnds ''tokens'')) E, log)"
  by (simp add: token_step_def event_alias_def)

lemma get_input_token_result:
  assumes g: "get_input_token root k mo st = Inr (t, joins, st')" and root: "E root = {}"
    and names: "map_tokens root (token_map st) \<subseteq> var_names (tok_ctx st)"
  obtains xs E' where "joins = plains xs" and "run_plains df c xs E log = (E', log)"
    and "\<And>n. snd (run_plains df c (take n xs) E log) = log"
    and "\<And>v. v \<in> var_names (tok_ctx st) \<Longrightarrow> E' v = E v"
    and "joins_all (\<lambda>k. E (token_of root (token_map st) k)) k mo (E' t)"
    and "extends_ctx (tok_ctx st) (tok_ctx st')"
    and "token_of root (token_map st') = token_of root (token_map st)"
    and "map_tokens root (token_map st') = map_tokens root (token_map st)"
proof -
  obtain toks st1 where c: "collect_join_tokens root k mo st = (toks, st1)" by fastforce
  note f = collect_join_tokens_result [OF c]
  have all: "joins_all (\<lambda>k. E (token_of root (token_map st) k)) k mo (\<Union> (E ` set toks))"
    unfolding joins_all_def using f(2,3) root by fastforce
  show thesis
  proof (cases "length toks = 1")
    case True
    then obtain u where u: "toks = [u]" by (auto simp: length_Suc_conv)
    with g c have "t = u" "joins = []" "st' = st1" by (auto simp: get_input_token_def)
    with all u f(4-6) show thesis by (intro that [of "[]" E]) auto
  next
    case False
    with g c obtain n: "new_token st1 = Inr (t, st')" and joins: "joins = [join_op toks t]"
      by (auto simp: get_input_token_def and_then_Inr_iff)
    note fresh = new_token_fresh [OF n]
    let ?xs = "[(JoinTokens, [(''tokens'', OTuple toks)], [t])]"
    let ?E = "E(t := \<Union> (E ` set toks))"
    have run: "run_plains df c ?xs E log = (?E, log)" by (simp add: give_token_def token_value_def)
    show thesis
    proof (rule that [of ?xs ?E])
      show "joins = plains ?xs" by (simp add: joins join_op_def)
      show "run_plains df c ?xs E log = (?E, log)" by (rule run)
      show "snd (run_plains df c (take n ?xs) E log) = log" for n using run by (cases n) auto
      show "?E v = E v" if "v \<in> var_names (tok_ctx st)" for v using that fresh(1) f(4) by auto
      show "joins_all (\<lambda>k. E (token_of root (token_map st) k)) k mo (?E t)" using all by simp
      show "extends_ctx (tok_ctx st) (tok_ctx st')" using fresh(3) f(4) by simp
      show "token_of root (token_map st') = token_of root (token_map st)" using fresh(4) f(5) by simp
      show "map_tokens root (token_map st') = map_tokens root (token_map st)" using fresh(4) f(6) by simp
    qed
  qed
qed

end
