(* ===== verification/TokenStep.thy ===== *)
theory TokenStep
  imports TokenJoin
begin

text \<open>
  One operation of the kernel: the operations that the pass puts in its place, run along a
  path, add at most its own event, ordered after those before it, and keep the token map.
\<close>

lemma holds_update:
  assumes h: "holds f log" and new: "\<And>k. k \<in> event_keys e \<Longrightarrow> length log \<in> g k"
    and old: "\<And>k. f k \<subseteq> g k \<or> (\<exists>a. k = LastStore a \<and> f (LastOp a) \<subseteq> g k)"
  shows "holds g (log @ [e])"
proof -
  have "i \<in> g k" if i: "i < length log" and k: "k \<in> event_keys (log ! i)" for i k
  proof -
    have keys: "i \<in> f k'" if "k' \<in> event_keys (log ! i)" for k' using h i that by (simp add: holds_def)
    from old [of k] show ?thesis
    proof
      assume "\<exists>a. k = LastStore a \<and> f (LastOp a) \<subseteq> g k"
      then obtain a where a: "k = LastStore a" "f (LastOp a) \<subseteq> g k" by blast
      with k have "LastOp a \<in> event_keys (log ! i)" by (auto simp: event_keys_def split: if_splits)
      with keys a(2) show ?thesis by blast
    qed (use keys k in blast)
  qed
  with new show ?thesis by (auto simp: holds_def nth_append less_Suc_eq)
qed

lemma map_of_with_token [simp]:
  "map_of (with_token t opnds) n = (if n = ''token'' then Some (OVar t) else map_of opnds n)"
  by (simp add: with_token_def map_of_dict_set)

lemma input_alias_set_token [simp]: "input_alias_set df c (with_token t opnds) = input_alias_set df c opnds"
  by (simp add: input_alias_set_def get_input_var_def var_operand_def operand_of_def)

lemma event_alias_token [simp]: "event_alias df c cl (with_token t opnds) = event_alias df c cl opnds"
  by (simp add: event_alias_def)

lemma input_alias_set_extends: "extends_ctx c c' \<Longrightarrow> input_alias_set df c' opnds = input_alias_set df c opnds"
  by (simp add: input_alias_set_def get_input_var_def extends_ctx_def)

text \<open>The keys that the effects of one operation carry.\<close>

lemma event_keys_new:
  "event_keys (new_event cl a r w) =
     {LastOp a} \<union> (if class_effect cl = EFFECT_STORE then {LastStore a} else {})
     \<union> (if acquires (order_of cl) then {AcquireKey} else {})"
  by (simp add: event_keys_def new_event_def)

definition step_ok ::
  "var set \<Rightarrow> token_key set \<Rightarrow> (var \<rightharpoonup> DataPredicate) \<Rightarrow> ir_context \<Rightarrow> var \<Rightarrow> tokens \<Rightarrow> event list
   \<Rightarrow> (op_class \<times> (string \<times> operand_value) list \<times> var list) list \<Rightarrow> token_state \<Rightarrow> bool" where
  "step_ok X K df c root E log xs st' \<longleftrightarrow>
     (\<exists>E1 log1. run_plains df c xs E log = (E1, log1) \<and> (\<forall>n. snd (run_plains df c (take n xs) E log) \<in> {log, log1})
        \<and> (log1 = log \<or> (\<exists>e. log1 = log @ [e] \<and> event_keys e \<subseteq> K
             \<and> (gives e \<notin> X \<longrightarrow> (\<forall>i < length log. must_order (log ! i) e \<longrightarrow> i \<in> waits_for e))))
        \<and> E1 root = {} \<and> holds (\<lambda>k. E1 (token_of root (token_map st') k)) log1)"

definition names_ok :: "var \<Rightarrow> token_state \<Rightarrow> var list \<Rightarrow> token_state \<Rightarrow> bool" where
  "names_ok root st rs st' \<longleftrightarrow>
     extends_ctx (tok_ctx st) (tok_ctx st')
     \<and> map_tokens root (token_map st') \<subseteq> map_tokens root (token_map st) \<union> set rs \<union> (var_names (tok_ctx st') - var_names (tok_ctx st))"

text \<open>The state before an operation with these results.\<close>

definition before_op :: "var \<Rightarrow> tokens \<Rightarrow> event list \<Rightarrow> token_state \<Rightarrow> var list \<Rightarrow> bool" where
  "before_op root E log st rs \<longleftrightarrow>
     E root = {} \<and> map_tokens root (token_map st) \<union> set rs \<subseteq> var_names (tok_ctx st)
     \<and> map_tokens root (token_map st) \<inter> set rs = {} \<and> holds (\<lambda>k. E (token_of root (token_map st) k)) log"

lemma before_op_token:
  assumes "before_op root E log st rs"
  shows "token_of root (token_map st) k \<in> var_names (tok_ctx st)" and "token_of root (token_map st) k \<notin> set rs"
    and "root \<in> var_names (tok_ctx st)" and "root \<notin> set rs"
  using assms token_of_range [of root "token_map st" k] by (auto simp: before_op_def map_tokens_def)

text \<open>The event itself, after the join of its token.\<close>

lemma run_event:
  assumes "run_plains df c xs E log = (E1, log)" and "\<And>n. snd (run_plains df c (take n xs) E log) = log"
    and "event_alias df c cl opnds = Some a" and "rs \<noteq> []"
  shows "run_plains df c (xs @ [(cl, with_token t opnds, rs)]) E log
      = (E1(last rs := insert (length log) (E1 t)), log @ [new_event cl a (last rs) (E1 t)])"
    and "snd (run_plains df c (take n (xs @ [(cl, with_token t opnds, rs)])) E log)
      \<in> {log, log @ [new_event cl a (last rs) (E1 t)]}"
proof -
  show run: "run_plains df c (xs @ [(cl, with_token t opnds, rs)]) E log
      = (E1(last rs := insert (length log) (E1 t)), log @ [new_event cl a (last rs) (E1 t)])"
    using assms by (simp add: run_plains_append token_step_def token_value_def give_token_def Let_def)
  show "snd (run_plains df c (take n (xs @ [(cl, with_token t opnds, rs)])) E log)
      \<in> {log, log @ [new_event cl a (last rs) (E1 t)]}"
  proof (cases "n \<le> length xs")
    case True
    then show ?thesis using assms(2) by simp
  next
    case False
    then show ?thesis using run by simp
  qed
qed

lemma run_join_last:
  assumes "run_plains df c xs E log = (E1, log1)" and "\<And>n. snd (run_plains df c (take n xs) E log) \<in> {log, log1}"
  shows "run_plains df c (xs @ [(JoinTokens, [(''tokens'', OTuple [u, v])], [r])]) E log = (E1(r := E1 u \<union> E1 v), log1)"
    and "snd (run_plains df c (take n (xs @ [(JoinTokens, [(''tokens'', OTuple [u, v])], [r])])) E log) \<in> {log, log1}"
proof -
  show run: "run_plains df c (xs @ [(JoinTokens, [(''tokens'', OTuple [u, v])], [r])]) E log = (E1(r := E1 u \<union> E1 v), log1)"
    using assms by (simp add: run_plains_append token_value_def give_token_def)
  show "snd (run_plains df c (take n (xs @ [(JoinTokens, [(''tokens'', OTuple [u, v])], [r])])) E log) \<in> {log, log1}"
  proof (cases "n \<le> length xs")
    case True
    then show ?thesis using assms(2) by simp
  next
    case False
    then show ?thesis using run by simp
  qed
qed

section \<open>Loads\<close>

lemma order_load_ok:
  assumes o: "order_load df root cl opnds rs st = Inr (new, st')" and b: "before_op root E log st rs"
    and a: "event_alias df c cl opnds = Some a" "input_alias_set df (tok_ctx st) opnds = Inr a"
    and cl: "class_effect cl = EFFECT_LOAD"
    and K: "LastOp a \<in> K" "acquires (order_of cl) \<Longrightarrow> AcquireKey \<in> K"
  shows "names_ok root st rs st' \<and> (\<exists>xs. new = plains xs \<and> step_ok X K df c root E log xs st')"
proof -
  obtain t joins st1 r new_last st2 where
    g: "get_input_token root (LastStore a) (order_of cl) st = Inr (t, joins, st1)" and r: "two_results rs = Inr r"
    and n: "new_token st1 = Inr (new_last, st2)"
    and rest: "(let (last_op, st) = token_read root (LastOp a) st2;
           st = token_write (LastOp a) new_last st;
           st = (if acquires (order_of cl) then token_write AcquireKey r st else st)
       in (Inr (joins @ [Plain cl (with_token t opnds) rs, join_op [last_op, r] new_last], st) :: (operation list \<times> token_state) res))
      = Inr (new, st')"
    using o a(2) by (auto simp: order_load_def and_then_Inr_iff)
  obtain r0 where rs: "rs = [r0, r]" using r by (auto simp: two_results_def split: list.splits)
  obtain last_op st3 where l: "token_read root (LastOp a) st2 = (last_op, st3)" by fastforce
  have st': "st' = (if acquires (order_of cl) then token_write AcquireKey r (token_write (LastOp a) new_last st3)
                     else token_write (LastOp a) new_last st3)"
    and new: "new = joins @ [Plain cl (with_token t opnds) rs, join_op [last_op, r] new_last]"
    using rest by (auto simp: l Let_def)
  have root: "E root = {}" and V: "map_tokens root (token_map st) \<subseteq> var_names (tok_ctx st)"
    and h: "holds (\<lambda>k. E (token_of root (token_map st) k)) log" and rV: "r \<in> var_names (tok_ctx st)"
    using b by (auto simp: before_op_def rs)
  from get_input_token_result [where E = E and df = df and c = c and log = log, OF g root V]
  obtain xs E1 where xs: "joins = plains xs" and run: "run_plains df c xs E log = (E1, log)"
      "\<And>n. snd (run_plains df c (take n xs) E log) = log"
    and E1: "\<And>v. v \<in> var_names (tok_ctx st) \<Longrightarrow> E1 v = E v"
    and all: "joins_all (\<lambda>k. E (token_of root (token_map st) k)) (LastStore a) (order_of cl) (E1 t)"
    and ext: "extends_ctx (tok_ctx st) (tok_ctx st1)"
    and tm: "token_of root (token_map st1) = token_of root (token_map st)"
      "map_tokens root (token_map st1) = map_tokens root (token_map st)" by metis
  note fresh = new_token_fresh [OF n] and read = token_read_result [OF l]
  note tok = before_op_token [OF b]
  have lo: "last_op = token_of root (token_map st) (LastOp a)" using read(1) fresh(4) tm by simp
  have nl: "new_last \<notin> var_names (tok_ctx st)" using fresh(1) ext by (auto simp: extends_ctx_def)
  have ctx: "tok_ctx st' = tok_ctx st2" using read(2) by (simp add: st')
  have "extends_ctx (tok_ctx st) (tok_ctx st')" using extends_ctx_trans [OF ext fresh(3)] ctx by simp
  moreover have "map_tokens root (token_map st') \<subseteq> insert r (insert new_last (map_tokens root (token_map st)))"
    using map_tokens_write [of root AcquireKey r "token_write (LastOp a) new_last st3"]
      map_tokens_write [of root "LastOp a" new_last st3] read(4) fresh(4) tm by (auto simp: st')
  ultimately have names: "names_ok root st rs st'" using nl fresh(2) ctx by (auto simp: names_ok_def rs)
  let ?e = "new_event cl a r (E1 t)"
  let ?E2 = "E1(r := insert (length log) (E1 t))"
  let ?ys = "(xs @ [(cl, with_token t opnds, rs)]) @ [(JoinTokens, [(''tokens'', OTuple [last_op, r])], [new_last])]"
  let ?E3 = "?E2(new_last := ?E2 last_op \<union> ?E2 r)"
  have ev: "run_plains df c (xs @ [(cl, with_token t opnds, rs)]) E log = (?E2, log @ [?e])"
      "snd (run_plains df c (take n (xs @ [(cl, with_token t opnds, rs)])) E log) \<in> {log, log @ [?e]}" for n
    using run_event [OF run a(1), where rs = rs and t = t] by (simp_all add: rs)
  note fin = run_join_last [OF ev, where u = last_op and v = r and r = new_last]
  have keep: "?E3 (token_of root (token_map st) k) = E (token_of root (token_map st) k)" for k
    using tok(1,2) [of k] nl E1 by (auto simp: rs)
  have f': "?E3 (token_of root (token_map st') k) =
      (if k = AcquireKey \<and> acquires (order_of cl) then insert (length log) (E1 t)
       else if k = LastOp a then E (token_of root (token_map st) k) \<union> insert (length log) (E1 t)
       else E (token_of root (token_map st) k))" for k
    using keep [of k] keep [of "LastOp a"] nl rV read(3) fresh(4) tm(1) tok(1,2) [of "LastOp a"] E1
    by (auto simp: st' lo rs)
  have "holds (\<lambda>k. ?E3 (token_of root (token_map st') k)) (log @ [?e])"
  proof (rule holds_update [OF h])
    show "length log \<in> ?E3 (token_of root (token_map st') k)" if "k \<in> event_keys ?e" for k
      using that cl unfolding f' by (auto simp: event_keys_new split: if_splits)
    have acq: "E (token_of root (token_map st) AcquireKey) \<subseteq> E1 t" using all by (simp add: joins_all_def)
    show "E (token_of root (token_map st) k) \<subseteq> ?E3 (token_of root (token_map st') k)
        \<or> (\<exists>a. k = LastStore a \<and> E (token_of root (token_map st) (LastOp a)) \<subseteq> ?E3 (token_of root (token_map st') k))" for k
      unfolding f' using acq by auto
  qed
  moreover have "?E3 root = {}" using tok(3,4) nl root E1 by (auto simp: rs)
  moreover have "\<forall>i < length log. must_order (log ! i) ?e \<longrightarrow> i \<in> waits_for ?e"
    using joins_ordered [OF h all, of ?e] cl by (simp add: new_event_def)
  moreover have "event_keys ?e \<subseteq> K" using K cl by (auto simp: event_keys_new)
  ultimately have "step_ok X K df c root E log ?ys st'" unfolding step_ok_def using fin by blast
  moreover have "new = plains ?ys" by (simp add: new xs join_op_def)
  ultimately show ?thesis using names by blast
qed

section \<open>Stores, atomic operations and prints\<close>

text \<open>An operation whose token becomes the last operation and the last store of its alias set.\<close>

lemma update_ok:
  assumes g: "get_input_token root (LastOp a) (order_of cl) st = Inr (t, joins, st1)" and b: "before_op root E log st rs"
    and a: "event_alias df c cl opnds = Some a" and cl: "class_effect cl = EFFECT_STORE" and rs: "rs \<noteq> []"
    and ctx: "tok_ctx st' = tok_ctx st1"
    and tm': "\<And>k. token_of root (token_map st') k =
      (if k = LastOp a \<or> k = LastStore a \<or> k = AcquireKey \<and> acquires (order_of cl) then last rs
       else token_of root (token_map st1) k)"
      "map_tokens root (token_map st') \<subseteq> insert (last rs) (map_tokens root (token_map st1))"
    and K: "LastOp a \<in> K" "LastStore a \<in> K" "acquires (order_of cl) \<Longrightarrow> AcquireKey \<in> K"
  shows "names_ok root st rs st' \<and> (\<exists>xs. joins @ [Plain cl (with_token t opnds) rs] = plains xs \<and> step_ok X K df c root E log xs st')"
proof -
  let ?r = "last rs"
  have root: "E root = {}" and V: "map_tokens root (token_map st) \<subseteq> var_names (tok_ctx st)"
    and h: "holds (\<lambda>k. E (token_of root (token_map st) k)) log" and r: "?r \<in> set rs"
    using b rs by (auto simp: before_op_def)
  from get_input_token_result [where E = E and df = df and c = c and log = log, OF g root V]
  obtain xs E1 where xs: "joins = plains xs" and run: "run_plains df c xs E log = (E1, log)"
      "\<And>n. snd (run_plains df c (take n xs) E log) = log"
    and E1: "\<And>v. v \<in> var_names (tok_ctx st) \<Longrightarrow> E1 v = E v"
    and all: "joins_all (\<lambda>k. E (token_of root (token_map st) k)) (LastOp a) (order_of cl) (E1 t)"
    and ext: "extends_ctx (tok_ctx st) (tok_ctx st1)"
    and tm: "token_of root (token_map st1) = token_of root (token_map st)"
      "map_tokens root (token_map st1) = map_tokens root (token_map st)" by metis
  note tok = before_op_token [OF b]
  have names: "names_ok root st rs st'" using ext ctx tm'(2) tm(2) r by (auto simp: names_ok_def)
  let ?e = "new_event cl a ?r (E1 t)"
  let ?E2 = "E1(?r := insert (length log) (E1 t))"
  let ?ys = "xs @ [(cl, with_token t opnds, rs)]"
  note ev = run_event [OF run a rs, where t = t]
  have neq: "token_of root (token_map st) k \<noteq> ?r" for k using tok(2) [of k] r by auto
  have f': "?E2 (token_of root (token_map st') k) =
      (if k = LastOp a \<or> k = LastStore a \<or> k = AcquireKey \<and> acquires (order_of cl) then insert (length log) (E1 t)
       else E (token_of root (token_map st) k))" for k
    using neq [of k] E1 [OF tok(1), of k] by (simp add: tm' tm)
  have "holds (\<lambda>k. ?E2 (token_of root (token_map st') k)) (log @ [?e])"
  proof (rule holds_update [OF h])
    show "length log \<in> ?E2 (token_of root (token_map st') k)" if "k \<in> event_keys ?e" for k
      using that cl unfolding f' by (auto simp: event_keys_new split: if_splits)
    have "E (token_of root (token_map st) AcquireKey) \<subseteq> E1 t" "E (token_of root (token_map st) (LastOp a)) \<subseteq> E1 t"
      using all by (simp_all add: joins_all_def)
    then show "E (token_of root (token_map st) k) \<subseteq> ?E2 (token_of root (token_map st') k)
        \<or> (\<exists>a. k = LastStore a \<and> E (token_of root (token_map st) (LastOp a)) \<subseteq> ?E2 (token_of root (token_map st') k))" for k
      unfolding f' by auto
  qed
  moreover have "?E2 root = {}" using tok(3,4) r root E1 by auto
  moreover have "\<forall>i < length log. must_order (log ! i) ?e \<longrightarrow> i \<in> waits_for ?e"
    using joins_ordered [OF h all, of ?e] by (simp add: new_event_def)
  moreover have "event_keys ?e \<subseteq> K" using K cl by (auto simp: event_keys_new)
  ultimately have "step_ok X K df c root E log ?ys st'" unfolding step_ok_def using ev by blast
  then show ?thesis using names by (auto simp: xs intro!: exI [of _ ?ys])
qed

lemma order_store_ok:
  assumes o: "order_store df root cl opnds rs st = Inr (new, st')" and b: "before_op root E log st rs"
    and a: "event_alias df c cl opnds = Some a" "input_alias_set df (tok_ctx st) opnds = Inr a"
    and cl: "class_effect cl = EFFECT_STORE" "\<not> acquires (order_of cl)"
    and K: "LastOp a \<in> K" "LastStore a \<in> K"
  shows "names_ok root st rs st' \<and> (\<exists>xs. new = plains xs \<and> step_ok X K df c root E log xs st')"
proof -
  obtain t joins st1 r where g: "get_input_token root (LastOp a) (order_of cl) st = Inr (t, joins, st1)"
    and r: "result_var rs = Inr r" and new: "new = joins @ [Plain cl (with_token t opnds) rs]"
    and st': "st' = token_write (LastStore a) r (token_write (LastOp a) r st1)"
    using o a(2) by (auto simp: order_store_def and_then_Inr_iff)
  have rs: "rs \<noteq> []" "last rs = r" using r by (auto simp: result_var_def split: list.splits)
  show ?thesis unfolding new
    by (rule update_ok [OF g b a(1) cl(1) rs(1)])
      (use cl K map_tokens_write [of root "LastStore a" r "token_write (LastOp a) r st1"]
         map_tokens_write [of root "LastOp a" r st1] in \<open>auto simp: st' rs(2)\<close>)
qed

lemma order_print_ok:
  assumes o: "order_print root opnds rs st = Inr (new, st')" and b: "before_op root E log st rs"
    and K: "LastOp ALIAS_UNIVERSE \<in> K" "LastStore ALIAS_UNIVERSE \<in> K"
  shows "names_ok root st rs st' \<and> (\<exists>xs. new = plains xs \<and> step_ok X K df c root E log xs st')"
proof -
  let ?a = ALIAS_UNIVERSE
  obtain t joins st1 r where g: "get_input_token root (LastOp ?a) None st = Inr (t, joins, st1)"
    and r: "result_var rs = Inr r" and new: "new = joins @ [Plain TilePrintf (with_token t opnds) rs]"
    and st': "st' = token_write (LastStore ?a) r (token_write (LastOp ?a) r st1)"
    using o by (auto simp: order_print_def and_then_Inr_iff)
  have rs: "rs \<noteq> []" "last rs = r" using r by (auto simp: result_var_def split: list.splits)
  have g': "get_input_token root (LastOp ?a) (order_of TilePrintf) st = Inr (t, joins, st1)" using g by simp
  have a: "event_alias df c TilePrintf opnds = Some ?a" by (simp add: event_alias_def)
  show ?thesis unfolding new
    by (rule update_ok [OF g' b a _ rs(1)])
      (use K map_tokens_write [of root "LastStore ?a" r "token_write (LastOp ?a) r st1"]
         map_tokens_write [of root "LastOp ?a" r st1] in \<open>auto simp: st' rs(2) acquires_def\<close>)
qed

lemma order_atomic_ok:
  assumes o: "order_atomic df root cl opnds rs tok st = Inr (new, st')" and b: "before_op root E log st rs"
    and a: "event_alias df c cl opnds = Some a" "input_alias_set df (tok_ctx st) opnds = Inr a"
    and cl: "class_effect cl = EFFECT_STORE" and tok: "\<And>r. tok = Inr r \<Longrightarrow> rs \<noteq> [] \<and> last rs = r"
    and K: "LastOp a \<in> K" "LastStore a \<in> K" "acquires (order_of cl) \<Longrightarrow> AcquireKey \<in> K"
  shows "names_ok root st rs st' \<and> (\<exists>xs. new = plains xs \<and> step_ok X K df c root E log xs st')"
proof -
  obtain t joins st1 r where g: "get_input_token root (LastOp a) (order_of cl) st = Inr (t, joins, st1)"
    and r: "tok = Inr r" and new: "new = joins @ [Plain cl (with_token t opnds) rs]"
    and st': "st' = (if acquires (order_of cl)
        then token_write AcquireKey r (token_write (LastStore a) r (token_write (LastOp a) r st1))
        else token_write (LastStore a) r (token_write (LastOp a) r st1))"
    using o a(2) by (auto simp: order_atomic_def and_then_Inr_iff Let_def)
  have rs: "rs \<noteq> []" "last rs = r" using tok r by auto
  show ?thesis unfolding new
    by (rule update_ok [OF g b a(1) cl rs(1)])
      (use K map_tokens_write [of root "LastStore a" r "token_write (LastOp a) r st1"]
         map_tokens_write [of root "LastOp a" r st1]
         map_tokens_write [of root AcquireKey r "token_write (LastStore a) r (token_write (LastOp a) r st1)"]
       in \<open>auto simp: st' rs(2)\<close>)
qed

section \<open>Parallel stores\<close>

text \<open>Its token is one of before the loop, but it is recorded as any store is.\<close>

lemma parallel_store_ok:
  assumes o: "parallel_store root info a cl opnds rs st = Inr (new, st')" and b: "before_op root E log st rs"
    and a: "event_alias df c cl opnds = Some a" and cl: "class_effect cl = EFFECT_STORE" "\<not> acquires (order_of cl)"
    and K: "LastOp a \<in> K" "LastStore a \<in> K" and X: "last rs \<in> X"
  shows "names_ok root st rs st' \<and> (\<exists>xs. new = plains xs \<and> step_ok X K df c root E log xs st')"
proof -
  obtain before t joins st1 r where
    p: "parallel_input_token before st = Inr (t, joins, st1)" and r: "result_var rs = Inr r"
    and rest: "(let (last_op, st) = token_read root (LastOp a) st1 in
      and_then (new_token st) (\<lambda>(new_last_op, st).
        Inr (joins @ [Plain cl (with_token t opnds) rs, join_op [last_op, r] new_last_op],
             token_write (LastStore a) new_last_op (token_write (LastOp a) new_last_op st)))) = Inr (new, st')"
    using o unfolding parallel_store_def Let_def [of "case _ of None \<Rightarrow> _ | Some v \<Rightarrow> _ v"]
    by (auto simp only: and_then_Inr_iff prod.case)
  have g: "t = before \<and> joins = [] \<and> st1 = st \<or> (\<exists>u v. new_token st = Inr (t, st1) \<and> joins = [join_op [u, v] t])"
    using p by (auto simp: parallel_input_token_def and_then_Inr_iff split: option.splits if_splits)
  obtain last_op st2 where l: "token_read root (LastOp a) st1 = (last_op, st2)" by fastforce
  obtain new_last st3 where n: "new_token st2 = Inr (new_last, st3)"
    and st': "st' = token_write (LastStore a) new_last (token_write (LastOp a) new_last st3)"
    and new: "new = joins @ [Plain cl (with_token t opnds) rs, join_op [last_op, r] new_last]"
    using rest by (auto simp: l and_then_Inr_iff)
  have rs: "rs = [r]" using r by (auto simp: result_var_def split: list.splits)
  have root: "E root = {}" and V: "map_tokens root (token_map st) \<subseteq> var_names (tok_ctx st)"
    and h: "holds (\<lambda>k. E (token_of root (token_map st) k)) log" and rV: "r \<in> var_names (tok_ctx st)"
    using b by (auto simp: before_op_def rs)
  obtain xs E1 where xs: "joins = plains xs" and run: "run_plains df c xs E log = (E1, log)"
      "\<And>n. snd (run_plains df c (take n xs) E log) = log"
    and E1: "\<And>v. v \<in> var_names (tok_ctx st) \<Longrightarrow> E1 v = E v"
    and ext: "extends_ctx (tok_ctx st) (tok_ctx st1)" and tm: "token_map st1 = token_map st"
    using g
  proof
    assume "t = before \<and> joins = [] \<and> st1 = st"
    then show thesis by (intro that [of "[]" E]) auto
  next
    assume "\<exists>u v. new_token st = Inr (t, st1) \<and> joins = [join_op [u, v] t]"
    then obtain u v where j: "new_token st = Inr (t, st1)" "joins = [join_op [u, v] t]" by blast
    note fresh = new_token_fresh [OF j(1)]
    let ?xs = "[(JoinTokens, [(''tokens'', OTuple [u, v])], [t])]"
    have run: "run_plains df c ?xs E log = (E(t := E u \<union> E v), log)" by (simp add: give_token_def token_value_def)
    have "snd (run_plains df c (take n ?xs) E log) = log" for n using run by (cases n) auto
    then show thesis using run fresh by (intro that [of ?xs "E(t := E u \<union> E v)"]) (auto simp: j(2) join_op_def)
  qed
  note fresh = new_token_fresh [OF n] and read = token_read_result [OF l]
  note tok = before_op_token [OF b]
  have lo: "last_op = token_of root (token_map st) (LastOp a)" using read(1) tm by simp
  have nl: "new_last \<notin> var_names (tok_ctx st)" using fresh(1) ext read(2) by (auto simp: extends_ctx_def)
  have ctx: "tok_ctx st' = tok_ctx st3" by (simp add: st')
  have "extends_ctx (tok_ctx st) (tok_ctx st')" using extends_ctx_trans [OF ext] fresh(3) read(2) ctx by simp
  moreover have "map_tokens root (token_map st') \<subseteq> insert new_last (map_tokens root (token_map st))"
    using map_tokens_write [of root "LastStore a" new_last "token_write (LastOp a) new_last st3"]
      map_tokens_write [of root "LastOp a" new_last st3] read(4) fresh(4) tm by (auto simp: st')
  ultimately have names: "names_ok root st rs st'" using nl fresh(2) ctx by (auto simp: names_ok_def)
  let ?e = "new_event cl a r (E1 t)"
  let ?E2 = "E1(r := insert (length log) (E1 t))"
  let ?ys = "(xs @ [(cl, with_token t opnds, rs)]) @ [(JoinTokens, [(''tokens'', OTuple [last_op, r])], [new_last])]"
  let ?E3 = "?E2(new_last := ?E2 last_op \<union> ?E2 r)"
  have ev: "run_plains df c (xs @ [(cl, with_token t opnds, rs)]) E log = (?E2, log @ [?e])"
      "snd (run_plains df c (take n (xs @ [(cl, with_token t opnds, rs)])) E log) \<in> {log, log @ [?e]}" for n
    using run_event [OF run a, where rs = rs and t = t] by (simp_all add: rs)
  note fin = run_join_last [OF ev, where u = last_op and v = r and r = new_last]
  have keep: "?E3 (token_of root (token_map st) k) = E (token_of root (token_map st) k)" for k
    using tok(1,2) [of k] nl E1 by (auto simp: rs)
  have f': "?E3 (token_of root (token_map st') k) =
      (if k = LastOp a \<or> k = LastStore a then E (token_of root (token_map st) (LastOp a)) \<union> insert (length log) (E1 t)
       else E (token_of root (token_map st) k))" for k
    using keep [of k] keep [of "LastOp a"] nl rV read(3) fresh(4) tm tok(1,2) [of "LastOp a"] E1
    by (auto simp: st' lo rs)
  have "holds (\<lambda>k. ?E3 (token_of root (token_map st') k)) (log @ [?e])"
  proof (rule holds_update [OF h])
    show "length log \<in> ?E3 (token_of root (token_map st') k)" if "k \<in> event_keys ?e" for k
      using that cl unfolding f' by (auto simp: event_keys_new split: if_splits)
    show "E (token_of root (token_map st) k) \<subseteq> ?E3 (token_of root (token_map st') k)
        \<or> (\<exists>a. k = LastStore a \<and> E (token_of root (token_map st) (LastOp a)) \<subseteq> ?E3 (token_of root (token_map st') k))" for k
      unfolding f' by auto
  qed
  moreover have "?E3 root = {}" using tok(3,4) nl root E1 by (auto simp: rs)
  moreover have "gives ?e \<in> X" using X by (simp add: new_event_def rs)
  moreover have "event_keys ?e \<subseteq> K" using K cl by (auto simp: event_keys_new)
  ultimately have "step_ok X K df c root E log ?ys st'" unfolding step_ok_def using fin by blast
  moreover have "new = plains ?ys" by (simp add: new xs join_op_def)
  ultimately show ?thesis using names by blast
qed

end
