(* ===== verification/TokenBlock.thy ===== *)
theory TokenBlock
  imports TokenStep
begin

text \<open>
  The parts of the token order pass that deal with blocks: the keys that the effects of a
  block carry, the tokens that control flow carries, and one operation in its place.
\<close>

section \<open>Keys of effects\<close>

definition keys_of :: "memory_effects \<Rightarrow> token_key set" where
  "keys_of eff =
     {LastOp a | a. effect_on eff a \<noteq> EFFECT_NONE} \<union> {LastStore a | a. effect_on eff a = EFFECT_STORE}
     \<union> (if has_acquire_order eff then {AcquireKey} else {})"

lemma carried_keys_set: "set (carried_keys eff) = {k. \<exists>x \<in> set (array_mem_effects eff). k \<in> set (effect_keys x)}
    \<union> (if has_acquire_order eff then {AcquireKey} else {})"
  by (auto simp: carried_keys_def)

lemma keys_carried: "keys_of eff \<subseteq> set (carried_keys eff)"
proof -
  have "\<exists>x \<in> set (array_mem_effects eff). LastOp a \<in> set (effect_keys x)" if "effect_on eff a \<noteq> EFFECT_NONE" for a
  proof -
    from that obtain e where e: "map_of (array_mem_effects eff) a = Some e" "e \<noteq> EFFECT_NONE"
      by (auto simp: effect_on_def split: option.splits)
    then have "LastOp a \<in> set (effect_keys (a, e))" by (cases e) auto
    with e(1) show ?thesis by (blast dest: map_of_SomeD)
  qed
  moreover have "\<exists>x \<in> set (array_mem_effects eff). LastStore a \<in> set (effect_keys x)" if "effect_on eff a = EFFECT_STORE" for a
  proof -
    from that have "map_of (array_mem_effects eff) a = Some EFFECT_STORE"
      by (auto simp: effect_on_def split: option.splits)
    moreover have "LastStore a \<in> set (effect_keys (a, EFFECT_STORE))" by simp
    ultimately show ?thesis by (blast dest: map_of_SomeD)
  qed
  ultimately show ?thesis unfolding keys_of_def carried_keys_set by auto
qed

lemma max_effect: "max (a :: MemoryEffect) b = EFFECT_NONE \<longleftrightarrow> a = EFFECT_NONE \<and> b = EFFECT_NONE"
  "max a b = EFFECT_STORE \<longleftrightarrow> a = EFFECT_STORE \<or> b = EFFECT_STORE"
  by (cases a; cases b; simp add: max_def less_eq_MemoryEffect_def)+

lemma effect_on_or: "effect_on (effects_or e1 e2) a = max (effect_on e1 a) (effect_on e2 a)"
proof -
  define g where "g = (\<lambda>a. max (effect_on e1 a) (effect_on e2 a))"
  have fold: "map_of (fold (\<lambda>a. dict_set a (g a)) ks d) a = (if a \<in> set ks then Some (g a) else map_of d a)" for ks d
    by (induction ks arbitrary: d) (auto simp: map_of_dict_set)
  have "map_of (array_mem_effects (effects_or e1 e2)) a =
      (if a \<in> fst ` set (array_mem_effects e2) then Some (g a) else map_of (array_mem_effects e1) a)"
    using fold [of "map fst (array_mem_effects e2)" "array_mem_effects e1"] by (simp add: effects_or_def g_def)
  moreover have "effect_on e2 a = EFFECT_NONE" if "a \<notin> fst ` set (array_mem_effects e2)"
  proof -
    from that have "map_of (array_mem_effects e2) a = None" by (simp add: map_of_eq_None_iff)
    then show ?thesis by (simp add: effect_on_def)
  qed
  moreover have "max e EFFECT_NONE = e" for e :: MemoryEffect by (cases e) (simp_all add: max_def less_eq_MemoryEffect_def)
  ultimately show ?thesis by (auto simp: g_def effect_on_def [of "effects_or e1 e2"]) (simp add: effect_on_def)
qed

lemma keys_or: "keys_of (effects_or e1 e2) = keys_of e1 \<union> keys_of e2"
proof -
  have "has_acquire_order (effects_or e1 e2) \<longleftrightarrow> has_acquire_order e1 \<or> has_acquire_order e2" by (simp add: effects_or_def)
  then show ?thesis unfolding keys_of_def effect_on_or max_effect by auto
qed

lemma keys_empty [simp]: "keys_of EMPTY_MEMORY_EFFECTS = {}"
  by (simp add: keys_of_def EMPTY_MEMORY_EFFECTS_def effect_on_def)

lemma keys_grow: "block_memory_effects df c ops eff = Inr eff' \<Longrightarrow> keys_of eff \<subseteq> keys_of eff'"
  by (induction df c ops eff arbitrary: eff' rule: block_memory_effects.induct)
    (force simp: and_then_Inr_iff keys_or)+

lemma get_memory_effects_extends: "extends_ctx c c' \<Longrightarrow> get_memory_effects df c' cl opnds = get_memory_effects df c cl opnds"
  by (simp add: get_memory_effects_def input_alias_set_extends)

lemma block_effects_extends:
  "extends_ctx c c' \<Longrightarrow> block_memory_effects df c' ops eff = block_memory_effects df c ops eff"
  by (induction df c ops eff rule: block_memory_effects.induct)
    (simp_all add: get_memory_effects_extends cong: and_then_cong)

section \<open>Carried tokens\<close>

lemma exit_tokens_result:
  "exit_tokens root ks st = (toks, st') \<Longrightarrow>
     toks = map (token_of root (token_map st)) ks \<and> tok_ctx st' = tok_ctx st
     \<and> token_of root (token_map st') = token_of root (token_map st)
     \<and> map_tokens root (token_map st') = map_tokens root (token_map st)"
proof (induction root ks st arbitrary: toks st' rule: exit_tokens.induct)
  case (2 root k ks st)
  obtain t st1 where r: "token_read root k st = (t, st1)" by fastforce
  obtain ts st2 where e: "exit_tokens root ks st1 = (ts, st2)" by fastforce
  note f = token_read_result [OF r]
  from "2.IH" [OF r [symmetric] refl e] "2.prems" show ?case using f by (auto simp: r e)
qed simp

lemma result_tokens_result:
  "result_tokens ks st = Inr (kvs, st') \<Longrightarrow>
     map fst kvs = ks \<and> distinct (map snd kvs) \<and> set (map snd kvs) \<inter> var_names (tok_ctx st) = {}
     \<and> set (map snd kvs) \<subseteq> var_names (tok_ctx st') \<and> extends_ctx (tok_ctx st) (tok_ctx st') \<and> token_map st' = token_map st"
proof (induction ks st arbitrary: kvs st' rule: result_tokens.induct)
  case (2 k ks st)
  from "2.prems" obtain x st1 rest where n: "new_token st = Inr (x, st1)" and r: "result_tokens ks st1 = Inr (rest, st')"
    and kvs: "kvs = (k, x) # rest"
    by (auto simp: and_then_Inr_iff)
  note fresh = new_token_fresh [OF n] and ih = "2.IH" [OF n refl r]
  have "extends_ctx (tok_ctx st) (tok_ctx st')" using extends_ctx_trans [OF fresh(3)] ih by blast
  moreover have "var_names (tok_ctx st) \<subseteq> var_names (tok_ctx st1)" "var_names (tok_ctx st1) \<subseteq> var_names (tok_ctx st')"
    using fresh(3) ih by (auto simp: extends_ctx_def)
  ultimately show ?case using fresh ih by (auto simp: kvs)
qed simp

lemma carried_simps [simp]: "init_token (k, x, b, r) = x" "body_token (k, x, b, r) = b" "result_token (k, x, b, r) = r"
  by (simp_all add: init_token_def body_token_def result_token_def)

lemma carry_tokens_result:
  "carry_tokens root ks st = Inr (carried, st') \<Longrightarrow>
     map fst carried = ks \<and> map init_token carried = map (token_of root (token_map st)) ks
     \<and> distinct (map body_token carried @ map result_token carried)
     \<and> set (map body_token carried @ map result_token carried) \<inter> var_names (tok_ctx st) = {}
     \<and> set (map body_token carried @ map result_token carried) \<subseteq> var_names (tok_ctx st')
     \<and> extends_ctx (tok_ctx st) (tok_ctx st')"
proof (induction root ks st arbitrary: carried st' rule: carry_tokens.induct)
  case (2 root k ks st)
  obtain x st1 where r: "token_read root k st = (x, st1)" by fastforce
  from "2.prems" obtain b st2 s st3 rest where n: "new_token st1 = Inr (b, st2)" "new_token st2 = Inr (s, st3)"
    and c: "carry_tokens root ks st3 = Inr (rest, st')" and carried: "carried = (k, x, b, s) # rest"
    by (auto simp: r and_then_Inr_iff)
  note f = token_read_result [OF r] and fresh1 = new_token_fresh [OF n(1)] and fresh2 = new_token_fresh [OF n(2)]
  note ih = "2.IH" [OF r [symmetric] refl n(1) refl n(2) refl c]
  have ext: "extends_ctx (tok_ctx st) (tok_ctx st2)" "extends_ctx (tok_ctx st2) (tok_ctx st3)" "extends_ctx (tok_ctx st3) (tok_ctx st')"
    using fresh1(3) fresh2(3) f(2) ih by auto
  have "extends_ctx (tok_ctx st) (tok_ctx st')"
    using extends_ctx_trans [OF extends_ctx_trans [OF ext(1,2)] ext(3)] .
  then have all: "extends_ctx (tok_ctx st) (tok_ctx st')" .
  have inits: "map init_token carried = map (token_of root (token_map st)) (k # ks)"
    using ih f fresh1(4) fresh2(4) by (simp add: carried)
  define B where "B = body_token ` set rest"
  define R where "R = result_token ` set rest"
  have BR: "B \<union> R \<subseteq> var_names (tok_ctx st')" "(B \<union> R) \<inter> var_names (tok_ctx st3) = {}" and new5: "B \<inter> R = {}"
    using ih by (simp_all add: B_def R_def)
  have mono: "var_names (tok_ctx st) \<subseteq> var_names (tok_ctx st2)" "var_names (tok_ctx st2) \<subseteq> var_names (tok_ctx st3)"
      "var_names (tok_ctx st3) \<subseteq> var_names (tok_ctx st')"
    using ext by (auto simp: extends_ctx_def)
  have b: "b \<in> var_names (tok_ctx st3)" "b \<notin> var_names (tok_ctx st)" and s: "s \<in> var_names (tok_ctx st3)" "s \<notin> var_names (tok_ctx st)"
      "b \<noteq> s"
    using fresh1(1,2) fresh2(1,2) f(2) mono by auto
  have new: "b \<notin> B \<union> R" "s \<notin> B \<union> R" "(B \<union> R) \<inter> var_names (tok_ctx st) = {}"
      "{b, s} \<union> (B \<union> R) \<subseteq> var_names (tok_ctx st')" "{b, s} \<inter> var_names (tok_ctx st) = {}"
    using b s BR mono by auto
  have dist: "map fst rest = ks" "distinct (map body_token rest)" "distinct (map result_token rest)" using ih by simp_all
  have sets: "set (map body_token carried) = insert b B" "set (map result_token carried) = insert s R"
    by (simp_all add: carried B_def R_def)
  have "distinct (map body_token carried @ map result_token carried)"
    unfolding distinct_append sets using dist new(1,2) new5 s(3) by (simp add: carried B_def R_def)
  moreover have "set (map body_token carried @ map result_token carried) = {b, s} \<union> (B \<union> R)"
    unfolding set_append sets by blast
  moreover have "({b, s} \<union> (B \<union> R)) \<inter> var_names (tok_ctx st) = {}" using new(3,5) by blast
  moreover have "map fst carried = k # ks" using dist(1) by (simp add: carried)
  ultimately show ?case using all inits new(4) by presburger
qed simp

text \<open>The token map of a construct that carries these keys.\<close>

lemma map_of_write_all:
  "k \<notin> fst ` set kvs \<Longrightarrow> map_of (write_all kvs tm) k = map_of tm k"
  "k \<in> fst ` set kvs \<Longrightarrow> \<exists>v. (k, v) \<in> set kvs \<and> map_of (write_all kvs tm) k = Some v"
proof -
  have a: "k \<notin> fst ` set kvs \<Longrightarrow> map_of (write_all kvs tm) k = map_of tm k" for kvs tm
    by (induction kvs arbitrary: tm) (auto simp: write_all_def map_of_dict_set)
  then show "k \<notin> fst ` set kvs \<Longrightarrow> map_of (write_all kvs tm) k = map_of tm k" .
  show "k \<in> fst ` set kvs \<Longrightarrow> \<exists>v. (k, v) \<in> set kvs \<and> map_of (write_all kvs tm) k = Some v"
  proof (induction kvs arbitrary: tm)
    case (Cons kv kvs)
    obtain k' v' where kv: "kv = (k', v')" by fastforce
    have w: "write_all (kv # kvs) tm = write_all kvs (dict_set k' v' tm)" by (simp add: write_all_def kv)
    show ?case
    proof (cases "k \<in> fst ` set kvs")
      case True
      with Cons.IH [OF True, of "dict_set k' v' tm"] show ?thesis by (auto simp: w)
    next
      case False
      with Cons.prems have "k = k'" by (auto simp: kv)
      then show ?thesis unfolding w using a [OF False, of "dict_set k' v' tm"] by (auto simp: kv map_of_dict_set)
    qed
  qed simp
qed

lemma map_tokens_write_all: "map_tokens root (write_all kvs tm) \<subseteq> map_tokens root tm \<union> snd ` set kvs"
proof (induction kvs arbitrary: tm)
  case Nil
  then show ?case by (simp add: write_all_def)
next
  case (Cons kv kvs)
  obtain k v where kv: "kv = (k, v)" by fastforce
  have "write_all (kv # kvs) tm = write_all kvs (dict_set k v tm)" by (simp add: write_all_def kv)
  then show ?case using Cons.IH [of "dict_set k v tm"] map_tokens_dict_set [of root k v tm] by (auto simp: kv)
qed

definition merged :: "token_key list \<Rightarrow> (token_key \<Rightarrow> nat set) \<Rightarrow> (token_key \<Rightarrow> nat set) \<Rightarrow> token_key \<Rightarrow> nat set" where
  "merged ks g f k = (if k \<in> set ks then g k else f k)"

text \<open>The values that leave a construct, under the keys that it carries.\<close>

lemma merged_holds:
  assumes "holds f log" and "holds g (log @ new)" and "\<forall>e \<in> set new. event_keys e \<subseteq> set ks"
  shows "holds (merged ks g f) (log @ new)"
  unfolding holds_def
proof (intro allI impI ballI)
  fix i k assume i: "i < length (log @ new)" and k: "k \<in> event_keys ((log @ new) ! i)"
  show "i \<in> merged ks g f k"
  proof (cases "k \<in> set ks")
    case True
    then show ?thesis using assms(2) i k by (simp add: merged_def holds_def)
  next
    case False
    have "i < length log"
    proof (rule ccontr)
      assume "\<not> i < length log"
      then have "(log @ new) ! i \<in> set new" using i by (simp add: nth_append)
      with assms(3) k False show False by blast
    qed
    then show ?thesis using assms(1) k False by (simp add: merged_def holds_def nth_append)
  qed
qed

lemma bind_tokens_carried:
  assumes len: "length xs = length us" "length bs = length ks" and d: "distinct bs" "set bs \<inter> set xs = {}"
    and tm: "map_tokens root tm \<inter> (set xs \<union> set bs) = {}"
  shows "bind_tokens E (xs @ bs) (us @ map g ks) (token_of root (write_all (zip ks bs) tm) k)
      = merged ks g (\<lambda>k. E (token_of root tm k)) k"
    and "bind_tokens E (xs @ bs) (us @ map g ks) root = E root"
proof -
  have out: "bind_tokens E (xs @ bs) (us @ map g ks) v = E v" if "v \<notin> set xs \<union> set bs" for v
  proof -
    have "map_of (zip (xs @ bs) (us @ map g ks)) v = None"
      using that len by (auto simp: map_of_eq_None_iff dest: set_zip_leftD)
    then show ?thesis by (simp add: bind_tokens_def)
  qed
  show "bind_tokens E (xs @ bs) (us @ map g ks) root = E root" using tm by (intro out) (auto simp: map_tokens_def)
  show "bind_tokens E (xs @ bs) (us @ map g ks) (token_of root (write_all (zip ks bs) tm) k)
      = merged ks g (\<lambda>k. E (token_of root tm k)) k"
  proof (cases "k \<in> set ks")
    case True
    then have "k \<in> fst ` set (zip ks bs)" using len(2) by (simp flip: set_map)
    from map_of_write_all(2) [OF this, of tm] obtain b where b: "(k, b) \<in> set (zip ks bs)"
      "map_of (write_all (zip ks bs) tm) k = Some b" by blast
    then obtain i where i: "i < length ks" "k = ks ! i" "b = bs ! i" by (auto simp: set_zip)
    have "b \<in> set bs" using i len(2) by simp
    with d(2) have "b \<notin> set xs" by blast
    with len(1) have "map_of (zip xs us) b = None" by (simp add: map_of_zip_is_None)
    moreover have "map_of (zip bs (map g ks)) b = Some (g k)"
      using i len d(1) by (simp add: map_of_zip_nth)
    ultimately have "map_of (zip (xs @ bs) (us @ map g ks)) b = Some (g k)"
      using len(1) by (simp add: zip_append map_add_def del: map_of_zip_is_None)
    then show ?thesis using b(2) True by (simp add: token_of_def bind_tokens_def merged_def)
  next
    case False
    then have "map_of (write_all (zip ks bs) tm) k = map_of tm k"
      by (intro map_of_write_all(1)) (auto dest: set_zip_leftD)
    then have "token_of root (write_all (zip ks bs) tm) k = token_of root tm k" by (simp add: token_of_def)
    moreover have "token_of root tm k \<notin> set xs \<union> set bs" using token_of_range [of root tm k] tm by blast
    ultimately show ?thesis using out False by (simp add: merged_def)
  qed
qed

end
