(* ===== verification/TokenPlain.thy ===== *)
theory TokenPlain
  imports TokenBlock
begin

text \<open>
  Every plain operation in its place, and the stores of a loop that run in parallel.
\<close>

section \<open>Parallel stores\<close>

text \<open>
  The kernels of the theorem: operands are known names, a for loop has its induction variable,
  and a store does not acquire, as \<^verbatim>\<open>validate_memory_order_and_scope\<close> makes sure.
\<close>

fun token_ready :: "var set \<Rightarrow> operation list \<Rightarrow> bool" where
  "token_ready N [] = True"
| "token_ready N (Plain cl opnds rs # ops) \<longleftrightarrow>
     set (operands_vars opnds) \<subseteq> N \<and> (is_tile_store cl \<longrightarrow> \<not> acquires (order_of cl)) \<and> token_ready N ops"
| "token_ready N (Loop i rng inits params body rs # ops) \<longleftrightarrow>
     (is_for_loop rng \<longrightarrow> params \<noteq> []) \<and> token_ready N body \<and> token_ready N ops"
| "token_ready N (IfElse i x th el rs # ops) \<longleftrightarrow> token_ready N th \<and> token_ready N el \<and> token_ready N ops"
| "token_ready N (op # ops) \<longleftrightarrow> token_ready N ops"

text \<open>The tokens of the stores that the pass runs in parallel, given the sets of the innermost loop.\<close>

fun parallel_results ::
  "(var \<rightharpoonup> DataPredicate) \<Rightarrow> ir_context \<Rightarrow> int list \<Rightarrow> operation list \<Rightarrow> var list" where
  "parallel_results df c ps [] = []"
| "parallel_results df c ps (Plain cl opnds rs # ops) =
     (case input_alias_set df c opnds of
        Inl e \<Rightarrow> []
      | Inr a \<Rightarrow> if is_tile_store cl \<and> a \<in> set ps then [last rs] else []) @ parallel_results df c ps ops"
| "parallel_results df c ps (Loop i rng inits params body rs # ops) =
     parallel_results df c (case get_parallel_stores df c rng params body of Inl e \<Rightarrow> [] | Inr qs \<Rightarrow> qs) body
     @ parallel_results df c ps ops"
| "parallel_results df c ps (IfElse i x th el rs # ops) =
     parallel_results df c ps th @ parallel_results df c ps el @ parallel_results df c ps ops"
| "parallel_results df c ps (op # ops) = parallel_results df c ps ops"

definition loop_stores :: "loop_token_info option \<Rightarrow> int list" where
  "loop_stores l = (case l of None \<Rightarrow> [] | Some info \<Rightarrow> loop_parallel_stores info)"

lemma direct_ops_extends: "extends_ctx c c' \<Longrightarrow> direct_memory_ops df c' ops = direct_memory_ops df c ops"
  by (induction df c ops rule: direct_memory_ops.induct)
    (simp_all add: input_alias_set_extends cong: and_then_cong)

lemma direct_ops_names:
  "direct_memory_ops df c ops = Inr ms \<Longrightarrow> token_ready N ops \<Longrightarrow> (a, cl, opnds) \<in> set ms \<Longrightarrow> set (operands_vars opnds) \<subseteq> N"
proof (induction df c ops arbitrary: ms rule: direct_memory_ops.induct)
  case (2 df c cl' opnds' rs ops)
  show ?case
  proof (cases "is_memory_op cl'")
    case True
    obtain b r where r: "direct_memory_ops df c ops = Inr r" "ms = (b, cl', opnds') # r" "input_alias_set df c opnds' = Inr b"
      using "2.prems"(1) True by (auto simp: and_then_Inr_iff)
    then show ?thesis using "2.IH"(1) [OF True r(3,1)] "2.prems"(2,3) by auto
  next
    case False
    then show ?thesis using "2.IH"(2) "2.prems" by simp
  qed
qed (auto simp: and_then_Inr_iff)

lemma nested_effects_extends: "extends_ctx c c' \<Longrightarrow> nested_mem_effects df c' bs eff = nested_mem_effects df c bs eff"
  by (induction df c bs eff rule: nested_mem_effects.induct)
    (simp_all add: block_effects_extends cong: and_then_cong)

lemma var_operand_names: "var_operand n opnds = Inr v \<Longrightarrow> v \<in> set (operands_vars opnds)"
  by (force simp: var_operand_def operand_of_def and_then_Inr_iff operands_vars_def
      dest: map_of_SomeD split: option.splits operand_value.splits)

lemma injective_store_extends:
  assumes "extends_ctx c c'" and "set (operands_vars opnds) \<subseteq> var_names c"
  shows "injective_store df c' params opnds = injective_store df c params opnds"
proof -
  have "get_input_var c' opnds = get_input_var c opnds" using assms(1) by (simp add: get_input_var_def extends_ctx_def)
  moreover have "get_type v c' = get_type v c" if "var_operand ''view'' opnds = Inr v" for v
    using var_operand_names [OF that] assms by (auto simp: get_type_def extends_ctx_def)
  ultimately show ?thesis by (simp add: injective_store_def cong: and_then_cong)
qed

lemma parallel_stores_extends:
  assumes ext: "extends_ctx c c'" and N: "token_ready (var_names c) body"
  shows "get_parallel_stores df c' rng params body = get_parallel_stores df c rng params body"
proof -
  have "filter_by_store_index df c' params (tile_store_candidates nested ms)
      = filter_by_store_index df c params (tile_store_candidates nested ms)"
    if "direct_memory_ops df c body = Inr ms" for ms nested
  proof -
    have "map_res (\<lambda>(a, cl, opnds). and_then (injective_store df c' params opnds) (\<lambda>b. Inr (a, b))) (tile_store_candidates nested ms)
      = map_res (\<lambda>(a, cl, opnds). and_then (injective_store df c params opnds) (\<lambda>b. Inr (a, b))) (tile_store_candidates nested ms)"
      using injective_store_extends [OF ext direct_ops_names [OF that N]]
      by (intro map_res_cong refl) (auto simp: tile_store_candidates_def split: prod.splits)
    then show ?thesis by (simp add: filter_by_store_index_def)
  qed
  then show ?thesis
    by (simp add: get_parallel_stores_def block_effects_extends [OF ext] nested_effects_extends [OF ext]
        direct_ops_extends [OF ext] cong: and_then_cong if_cong)
qed

section \<open>Plain operations\<close>

lemma order_plain_ok:
  assumes o: "order_plain df root l cl opnds rs st = Inr (new, st')" and b: "before_op root E log st rs"
    and ext: "extends_ctx c (tok_ctx st)" and eff: "get_memory_effects df c cl opnds = Inr eff"
    and K: "keys_of eff \<subseteq> K" and acq: "is_tile_store cl \<longrightarrow> \<not> acquires (order_of cl)"
    and X: "set (parallel_results df c (loop_stores l) [Plain cl opnds rs]) \<subseteq> X"
  shows "names_ok root st rs st' \<and> (\<exists>xs. new = plains xs \<and> step_ok X K df c root E log xs st')"
proof (cases "class_effect cl = EFFECT_NONE \<or> cl = TileAssert")
  case True
  then have new: "new = [Plain cl opnds rs]" "st' = st" using o by (auto simp: order_plain_def split: op_class.splits)
  obtain E1 where s: "token_step df c cl opnds rs E log = (E1, log)" and E1: "\<And>v. v \<notin> set rs \<Longrightarrow> E1 v = E v"
  proof
    have "event_alias df c cl opnds = None" using True by (simp add: event_alias_def)
    then show "token_step df c cl opnds rs E log = (fst (token_step df c cl opnds rs E log), log)"
      by (simp add: token_step_def)
    show "v \<notin> set rs \<Longrightarrow> fst (token_step df c cl opnds rs E log) v = E v" for v
      using \<open>event_alias df c cl opnds = None\<close> by (auto simp: token_step_def give_token_def)
  qed
  note tok = before_op_token [OF b]
  have "holds (\<lambda>k. E1 (token_of root (token_map st) k)) log" "E1 root = {}"
    using b tok(2,4) E1 by (simp_all add: before_op_def)
  moreover have "snd (run_plains df c (take n [(cl, opnds, rs)]) E log) = log" for n using s by (cases n) auto
  ultimately have "step_ok X K df c root E log [(cl, opnds, rs)] st" using s by (simp add: step_ok_def)
  then show ?thesis unfolding new by (auto simp: names_ok_def intro!: exI [of _ "[(cl, opnds, rs)]"])
next
  case False
  show ?thesis
  proof (cases "cl = TilePrintf")
    case True
    then have "eff = \<lparr>array_mem_effects = [(ALIAS_UNIVERSE, EFFECT_STORE)], has_acquire_order = False\<rparr>"
      using eff by (simp add: get_memory_effects_def)
    then have "LastOp ALIAS_UNIVERSE \<in> K" "LastStore ALIAS_UNIVERSE \<in> K" using K by (auto simp: keys_of_def effect_on_def)
    moreover have "order_print root opnds rs st = Inr (new, st')" using o True by (simp add: order_plain_def)
    ultimately show ?thesis using order_print_ok [OF _ b] True by blast
  next
    case no_print: False
    obtain a where a: "input_alias_set df c opnds = Inr a"
      and eff': "eff = \<lparr>array_mem_effects = [(a, class_effect cl)], has_acquire_order = acquires (order_of cl)\<rparr>"
      using eff False no_print by (auto simp: get_memory_effects_def and_then_Inr_iff split: if_splits)
    have a': "input_alias_set df (tok_ctx st) opnds = Inr a" using a input_alias_set_extends [OF ext] by simp
    have al: "event_alias df c cl opnds = Some a" using a False no_print by (simp add: event_alias_def)
    have k1: "LastOp a \<in> K" and k2: "class_effect cl = EFFECT_STORE \<Longrightarrow> LastStore a \<in> K"
      and k3: "acquires (order_of cl) \<Longrightarrow> AcquireKey \<in> K"
      using K False by (auto simp: eff' keys_of_def effect_on_def)
    note load = order_load_ok [OF _ b al a' _ k1 k3] and store = order_store_ok [OF _ b al a' _ _ k1 k2]
      and atomic = order_atomic_ok [OF _ b al a' _ _ k1 k2 k3]
    have two: "two_results rs = Inr r \<Longrightarrow> rs \<noteq> [] \<and> last rs = r" and one: "result_var rs = Inr r \<Longrightarrow> rs \<noteq> [] \<and> last rs = r" for r
      by (auto simp: two_results_def result_var_def split: list.splits)
    consider (load) "order_load df root cl opnds rs st = Inr (new, st')" "class_effect cl = EFFECT_LOAD"
      | (tile_store) mo where "cl = TileStore mo" "order_tile_store df root l cl opnds rs st = Inr (new, st')"
      | (store) "cl = StorePointer" "order_store df root cl opnds rs st = Inr (new, st')"
      | (atomic2) "order_atomic df root cl opnds rs (two_results rs) st = Inr (new, st')" "class_effect cl = EFFECT_STORE"
      | (atomic1) "order_atomic df root cl opnds rs (result_var rs) st = Inr (new, st')" "class_effect cl = EFFECT_STORE"
      using o False no_print by (cases cl) (auto simp: order_plain_def)
    then show ?thesis
    proof cases
      case load
      then show ?thesis by (rule order_load_ok [OF _ b al a' _ k1 k3])
    next
      case tile_store
      then have cl: "class_effect cl = EFFECT_STORE" "\<not> acquires (order_of cl)" "is_tile_store cl"
        using acq by (auto simp: is_tile_store_def)
      consider "order_store df root cl opnds rs st = Inr (new, st')"
        | info where "l = Some info" "a \<in> set (loop_parallel_stores info)" "parallel_store root info a cl opnds rs st = Inr (new, st')"
        using tile_store(2) a' by (auto simp: order_tile_store_def split: option.splits if_splits)
      then show ?thesis
      proof cases
        case 1
        then show ?thesis by (rule order_store_ok [OF _ b al a' cl(1,2) k1 k2 [OF cl(1)]])
      next
        case (2 info)
        then have "last rs \<in> X" using X a cl(3) by (simp add: loop_stores_def)
        then show ?thesis by (rule parallel_store_ok [OF 2(3) b al cl(1,2) k1 k2 [OF cl(1)]])
      qed
    next
      case store
      then have "class_effect cl = EFFECT_STORE" "\<not> acquires (order_of cl)" by (simp_all add: acquires_def)
      with store(2) show ?thesis by (intro order_store_ok [OF _ b al a' _ _ k1 k2]) auto
    next
      case atomic2
      then show ?thesis using two k2 by (intro order_atomic_ok [OF _ b al a' _ _ k1 _ k3]) auto
    next
      case atomic1
      then show ?thesis using one k2 by (intro order_atomic_ok [OF _ b al a' _ _ k1 _ k3]) auto
    qed
  qed
qed

section \<open>Names\<close>

lemma get_input_token_extends:
  assumes "get_input_token root k mo st = Inr (t, joins, st')" shows "extends_ctx (tok_ctx st) (tok_ctx st')"
proof -
  obtain toks st1 where c: "collect_join_tokens root k mo st = (toks, st1)" by fastforce
  note f = collect_join_tokens_result(4) [OF c]
  show ?thesis
  proof (cases "length toks = 1")
    case False
    then have "new_token st1 = Inr (t, st')" using assms by (auto simp: get_input_token_def c and_then_Inr_iff)
    from new_token_fresh(3) [OF this] f show ?thesis by simp
  qed (use assms f in \<open>simp add: get_input_token_def c\<close>)
qed

lemma order_load_extends: "order_load df root cl opnds rs st = Inr (new, st') \<Longrightarrow> extends_ctx (tok_ctx st) (tok_ctx st')"
proof -
  assume "order_load df root cl opnds rs st = Inr (new, st')"
  then obtain a t joins st1 r n st2 where g: "get_input_token root (LastStore a) (order_of cl) st = Inr (t, joins, st1)"
    and n: "new_token st1 = Inr (n, st2)"
    and rest: "(let (last_op, st) = token_read root (LastOp a) st2;
           st = token_write (LastOp a) n st;
           st = (if acquires (order_of cl) then token_write AcquireKey r st else st)
       in (Inr (joins @ [Plain cl (with_token t opnds) rs, join_op [last_op, r] n], st) :: (operation list \<times> token_state) res))
      = Inr (new, st')"
    by (auto simp: order_load_def and_then_Inr_iff)
  obtain last_op st3 where l: "token_read root (LastOp a) st2 = (last_op, st3)" by fastforce
  have "tok_ctx st' = tok_ctx st2" using rest token_read_result(2) [OF l] by (auto simp: l Let_def split: if_splits)
  then show ?thesis using extends_ctx_trans [OF get_input_token_extends [OF g] new_token_fresh(3) [OF n]] by simp
qed

lemma order_store_extends: "order_store df root cl opnds rs st = Inr (new, st') \<Longrightarrow> extends_ctx (tok_ctx st) (tok_ctx st')"
  by (auto simp: order_store_def and_then_Inr_iff dest: get_input_token_extends)

lemma order_atomic_extends: "order_atomic df root cl opnds rs tok st = Inr (new, st') \<Longrightarrow> extends_ctx (tok_ctx st) (tok_ctx st')"
  by (auto simp: order_atomic_def and_then_Inr_iff Let_def dest: get_input_token_extends)

lemma order_print_extends: "order_print root opnds rs st = Inr (new, st') \<Longrightarrow> extends_ctx (tok_ctx st) (tok_ctx st')"
  by (auto simp: order_print_def and_then_Inr_iff dest: get_input_token_extends)

lemma parallel_store_extends:
  assumes "parallel_store root info a cl opnds rs st = Inr (new, st')"
  shows "extends_ctx (tok_ctx st) (tok_ctx st')"
proof -
  obtain before t joins st1 r where
    p: "parallel_input_token before st = Inr (t, joins, st1)"
    and rest: "(let (last_op, st) = token_read root (LastOp a) st1 in
      and_then (new_token st) (\<lambda>(new_last_op, st).
        Inr (joins @ [Plain cl (with_token t opnds) rs, join_op [last_op, r] new_last_op],
             token_write (LastStore a) new_last_op (token_write (LastOp a) new_last_op st)))) = Inr (new, st')"
    using assms unfolding parallel_store_def Let_def [of "case _ of None \<Rightarrow> _ | Some v \<Rightarrow> _ v"]
    by (auto simp only: and_then_Inr_iff prod.case)
  have ext: "extends_ctx (tok_ctx st) (tok_ctx st1)"
    using p by (auto simp: parallel_input_token_def and_then_Inr_iff dest: new_token_fresh(3) split: option.splits if_splits)
  obtain last_op st2 where l: "token_read root (LastOp a) st1 = (last_op, st2)" by fastforce
  obtain n st3 where "new_token st2 = Inr (n, st3)" "tok_ctx st' = tok_ctx st3"
    using rest by (auto simp: l and_then_Inr_iff)
  then show ?thesis using extends_ctx_trans [OF ext] new_token_fresh(3) token_read_result(2) [OF l] by metis
qed

lemma order_plain_extends:
  assumes "order_plain df root l cl opnds rs st = Inr (new, st')" shows "extends_ctx (tok_ctx st) (tok_ctx st')"
proof -
  consider "order_load df root cl opnds rs st = Inr (new, st')" | "order_store df root cl opnds rs st = Inr (new, st')"
    | tok where "order_atomic df root cl opnds rs tok st = Inr (new, st')" | "order_print root opnds rs st = Inr (new, st')"
    | info a where "parallel_store root info a cl opnds rs st = Inr (new, st')" | "st' = st"
    using assms
    by (cases cl) (auto simp: order_plain_def order_tile_store_def and_then_Inr_iff split: option.splits if_splits)
  then show ?thesis
    by cases (auto dest: order_load_extends order_store_extends order_atomic_extends order_print_extends parallel_store_extends)
qed

lemma token_order_loop:
  assumes "token_order df root l t (Loop i rng inits params body rs # ops) st = Inr (ops', c')"
  obtains eff carried st1 par body' c1 i' c2 ops2 where
    "effects_of_block df (tok_ctx st) body = Inr eff" and "carry_tokens root (carried_keys eff) st = Inr (carried, st1)"
    and "get_parallel_stores df (tok_ctx st1) rng params body = Inr par"
    and "token_order df root (Some \<lparr>loop_mem_effects = eff, loop_parallel_stores = par, parent_token_map = token_map st1\<rparr>) None body
        \<lparr>token_map = write_all (zip (map fst carried) (map body_token carried)) (token_map st), tok_ctx = tok_ctx st1\<rparr> = Inr (body', c1)"
    and "new_object c1 = (i', c2)"
    and "token_order df root l t ops
        \<lparr>token_map = write_all (zip (map fst carried) (map result_token carried)) (token_map st), tok_ctx = c2\<rparr> = Inr (ops2, c')"
    and "ops' = Loop i' rng (inits @ map init_token carried) (params @ map body_token carried) body'
        (rs @ map result_token carried) # ops2"
proof -
  obtain eff carried st1 par body' c1 where
    p: "effects_of_block df (tok_ctx st) body = Inr eff" "carry_tokens root (carried_keys eff) st = Inr (carried, st1)"
      "get_parallel_stores df (tok_ctx st1) rng params body = Inr par"
      "token_order df root (Some \<lparr>loop_mem_effects = eff, loop_parallel_stores = par, parent_token_map = token_map st1\<rparr>) None body
        \<lparr>token_map = write_all (zip (map fst carried) (map body_token carried)) (token_map st), tok_ctx = tok_ctx st1\<rparr> = Inr (body', c1)"
    and rest: "(case new_object c1 of (i', c) \<Rightarrow> and_then (token_order df root l t ops
        \<lparr>token_map = write_all (zip (map fst carried) (map result_token carried)) (token_map st), tok_ctx = c\<rparr>)
          (\<lambda>(ops2, c). Inr (Loop i' rng (inits @ map init_token carried) (params @ map body_token carried) body'
            (rs @ map result_token carried) # ops2, c))) = Inr (ops', c')"
    using assms by (auto simp: and_then_Inr_iff Let_def)
  obtain i' c2 where n: "new_object c1 = (i', c2)" by fastforce
  show thesis using rest by (auto simp: n and_then_Inr_iff intro: that [OF p n])
qed

lemma token_order_branch:
  assumes "token_order df root l t (IfElse i x th el rs # ops) st = Inr (ops', c')"
  obtains e1 e2 results st1 th' c1 el' c2 i' c3 ops2 where
    "effects_of_block df (tok_ctx st) th = Inr e1" and "effects_of_block df (tok_ctx st) el = Inr e2"
    and "result_tokens (carried_keys (effects_or e1 e2)) st = Inr (results, st1)"
    and "token_order df root l (Some (effects_or e1 e2)) th st1 = Inr (th', c1)"
    and "token_order df root l (Some (effects_or e1 e2)) el (st1\<lparr>tok_ctx := c1\<rparr>) = Inr (el', c2)"
    and "new_object c2 = (i', c3)"
    and "token_order df root l t ops \<lparr>token_map = write_all results (token_map st1), tok_ctx = c3\<rparr> = Inr (ops2, c')"
    and "ops' = IfElse i' x th' el' (rs @ map snd results) # ops2"
proof -
  obtain e1 e2 results st1 th' c1 el' c2 where
    p: "effects_of_block df (tok_ctx st) th = Inr e1" "effects_of_block df (tok_ctx st) el = Inr e2"
      "result_tokens (carried_keys (effects_or e1 e2)) st = Inr (results, st1)"
      "token_order df root l (Some (effects_or e1 e2)) th st1 = Inr (th', c1)"
      "token_order df root l (Some (effects_or e1 e2)) el (st1\<lparr>tok_ctx := c1\<rparr>) = Inr (el', c2)"
    and rest: "(case new_object c2 of (i', c) \<Rightarrow> and_then (token_order df root l t ops
        \<lparr>token_map = write_all results (token_map st1), tok_ctx = c\<rparr>)
        (\<lambda>(ops2, c). Inr (IfElse i' x th' el' (rs @ map snd results) # ops2, c))) = Inr (ops', c')"
    using assms by (auto simp: and_then_Inr_iff Let_def)
  obtain i' c3 where n: "new_object c2 = (i', c3)" by fastforce
  show thesis using rest by (auto simp: n and_then_Inr_iff intro: that [OF p n])
qed

lemma token_order_extends:
  "token_order df root l t ops st = Inr (ops', c') \<Longrightarrow> extends_ctx (tok_ctx st) c'"
proof (induction df root l t ops st arbitrary: ops' c' rule: token_order.induct)
  case (2 df root l t cl opnds rs ops st)
  then obtain new st1 ops2 where p: "order_plain df root l cl opnds rs st = Inr (new, st1)"
      "token_order df root l t ops st1 = Inr (ops2, c')"
    by (auto simp: and_then_Inr_iff)
  show ?case by (rule extends_ctx_trans [OF order_plain_extends [OF p(1)] "2.IH" [OF p(1) refl p(2)]])
next
  case (3 df root l t i rng inits params body rs ops st)
  from "3.prems" obtain eff carried st1 par body' c1 i' c2 ops2 where
    p: "effects_of_block df (tok_ctx st) body = Inr eff" "carry_tokens root (carried_keys eff) st = Inr (carried, st1)"
      "get_parallel_stores df (tok_ctx st1) rng params body = Inr par"
      "token_order df root (Some \<lparr>loop_mem_effects = eff, loop_parallel_stores = par, parent_token_map = token_map st1\<rparr>) None body
        \<lparr>token_map = write_all (zip (map fst carried) (map body_token carried)) (token_map st), tok_ctx = tok_ctx st1\<rparr> = Inr (body', c1)"
      "new_object c1 = (i', c2)"
      "token_order df root l t ops
        \<lparr>token_map = write_all (zip (map fst carried) (map result_token carried)) (token_map st), tok_ctx = c2\<rparr> = Inr (ops2, c')"
    by (rule token_order_loop) blast
  have "extends_ctx (tok_ctx st1) c1" using "3.IH"(1) [OF p(1,2) refl p(3) refl refl refl p(4)] by simp
  moreover have "extends_ctx (tok_ctx st) (tok_ctx st1)" using carry_tokens_result [OF p(2)] by simp
  moreover have "extends_ctx c1 c2" using extends_new_object [OF p(5)] .
  moreover have "extends_ctx c2 c'"
    using "3.IH"(2) [OF p(1,2) refl p(3) refl refl refl p(4) refl p(5) [symmetric] refl p(6)] by simp
  ultimately show ?case by (meson extends_ctx_trans)
next
  case (6 df root l t i x th el rs ops st)
  from "6.prems" obtain e1 e2 results st1 th' c1 el' c2 i' c3 ops2 where
    p: "effects_of_block df (tok_ctx st) th = Inr e1" "effects_of_block df (tok_ctx st) el = Inr e2"
      "result_tokens (carried_keys (effects_or e1 e2)) st = Inr (results, st1)"
      "token_order df root l (Some (effects_or e1 e2)) th st1 = Inr (th', c1)"
      "token_order df root l (Some (effects_or e1 e2)) el (st1\<lparr>tok_ctx := c1\<rparr>) = Inr (el', c2)"
      "new_object c2 = (i', c3)"
      "token_order df root l t ops \<lparr>token_map = write_all results (token_map st1), tok_ctx = c3\<rparr> = Inr (ops2, c')"
    by (rule token_order_branch) blast
  have "extends_ctx (tok_ctx st) (tok_ctx st1)" using result_tokens_result [OF p(3)] by simp
  moreover have "extends_ctx (tok_ctx st1) c1" by (rule "6.IH"(1) [OF p(1,2) refl p(3) refl p(4)])
  moreover have "extends_ctx c1 c2" using "6.IH"(2) [OF p(1,2) refl p(3) refl p(4) refl p(5)] by simp
  moreover have "extends_ctx c2 c3" using extends_new_object [OF p(6)] .
  moreover have "extends_ctx c3 c'"
    using "6.IH"(3) [OF p(1,2) refl p(3) refl p(4) refl p(5) refl p(6) [symmetric] refl p(7)] by simp
  ultimately show ?case by (meson extends_ctx_trans)
next
  case (4 df root l t vs ops st)
  then show ?case using exit_tokens_result by (fastforce simp: and_then_Inr_iff split: option.splits prod.splits)
next
  case (5 df root l t vs ops st)
  then show ?case using exit_tokens_result by (fastforce simp: and_then_Inr_iff split: option.splits prod.splits)
next
  case (7 df root l t vs ops st)
  then show ?case using exit_tokens_result by (fastforce simp: and_then_Inr_iff split: option.splits prod.splits)
qed (auto simp: and_then_Inr_iff)

end
