(* ===== verification/TokenSound.thy ===== *)
theory TokenSound
  imports TokenPlain
begin

text \<open>
  The token order pass makes every memory operation wait for all operations before it on the
  path that it must follow, on every path through the kernel; the stores of a loop that it runs
  in parallel are the exception.
\<close>

section \<open>Paths that a block keeps in order\<close>

fun end_ok :: "loop_token_info option \<Rightarrow> memory_effects option \<Rightarrow> path_end \<Rightarrow> event list \<Rightarrow> bool" where
  "end_ok l t (Yields ws) log \<longleftrightarrow> (\<exists>eff us f. t = Some eff \<and> ws = us @ map f (carried_keys eff) \<and> holds f log)"
| "end_ok l t (Continues ws) log \<longleftrightarrow>
     (\<exists>info us f. l = Some info \<and> ws = us @ map f (carried_keys (loop_mem_effects info)) \<and> holds f log)"
| "end_ok l t (Breaks ws) log \<longleftrightarrow>
     (\<exists>info us f. l = Some info \<and> ws = us @ map f (carried_keys (loop_mem_effects info)) \<and> holds f log)"
| "end_ok l t q log \<longleftrightarrow> True"

definition adds :: "token_key set \<Rightarrow> event list \<Rightarrow> event list \<Rightarrow> bool" where
  "adds K log log' \<longleftrightarrow> (\<exists>new. log' = log @ new \<and> (\<forall>e \<in> set new. event_keys e \<subseteq> K))"

lemma adds_refl [simp]: "adds K log log"
  by (simp add: adds_def)

lemma adds_trans: "adds K a b \<Longrightarrow> adds K b c \<Longrightarrow> adds K a c"
  by (fastforce simp: adds_def)

lemma adds_mono: "adds K a b \<Longrightarrow> K \<subseteq> K' \<Longrightarrow> adds K' a b"
  by (fastforce simp: adds_def)

lemma adds_merged: "adds (set ks) log log' \<Longrightarrow> holds f log \<Longrightarrow> holds g log' \<Longrightarrow> holds (merged ks g f) log'"
  by (auto simp: adds_def intro: merged_holds)

definition path_ok ::
  "var set \<Rightarrow> token_key set \<Rightarrow> loop_token_info option \<Rightarrow> memory_effects option \<Rightarrow> event list \<Rightarrow> path_end \<Rightarrow> event list \<Rightarrow> bool" where
  "path_ok X K l t log q log' \<longleftrightarrow> ordered X log' \<and> adds K log log' \<and> end_ok l t q log'"

lemma ordered_snoc:
  "ordered X (log @ [e]) \<longleftrightarrow>
     ordered X log \<and> (gives e \<notin> X \<longrightarrow> (\<forall>i < length log. must_order (log ! i) e \<longrightarrow> i \<in> waits_for e))"
  by (auto simp: ordered_def less_Suc_eq nth_append)

section \<open>Loops\<close>

lemma iterations_ok:
  assumes "iterations df c fl ps body E vs log r log'"
    and "\<And>us g log q log'. length us + length ks = length ps \<Longrightarrow> holds (merged ks g f) log \<Longrightarrow> ordered X log \<Longrightarrow>
      path df c body (bind_tokens E ps (us @ map g ks)) log q log' \<Longrightarrow> path_ok X K (Some info) None log q log'"
    and "carried_keys (loop_mem_effects info) = ks" and K: "K \<subseteq> set ks"
    and "vs = us @ map g ks" and "holds (merged ks g f) log" and "ordered X log"
  shows "ordered X log' \<and> adds K log log'
    \<and> (case r of Inl q \<Rightarrow> q = Cut \<or> q = Returns
       | Inr ws \<Rightarrow> \<exists>us g. ws = us @ map g ks \<and> holds (merged ks g f) log')"
proof -
  have merge: "holds (merged ks h f) b" if "holds (merged ks g f) a" "adds K a b" "holds h b" for g h a b
  proof -
    have "merged ks h (merged ks g f) = merged ks h f" by (auto simp: merged_def fun_eq_iff)
    with adds_merged [OF adds_mono [OF that(2) K] that(1,3)] show ?thesis by simp
  qed
  let ?inv = "\<lambda>ps body E. \<forall>us g log q log'. length us + length ks = length ps \<longrightarrow> holds (merged ks g f) log \<longrightarrow> ordered X log \<longrightarrow>
      path df c body (bind_tokens E ps (us @ map g ks)) log q log' \<longrightarrow> path_ok X K (Some info) None log q log'"
  have "?inv ps body E \<longrightarrow>
    (\<forall>us g. vs = us @ map g ks \<longrightarrow> holds (merged ks g f) log \<longrightarrow> ordered X log \<longrightarrow>
      ordered X log' \<and> adds K log log'
      \<and> (case r of Inl q \<Rightarrow> q = Cut \<or> q = Returns
         | Inr ws \<Rightarrow> \<exists>us g. ws = us @ map g ks \<and> holds (merged ks g f) log'))"
    using assms(1)
  proof (induction rule: path_iterations.inducts(2) [where ?P1.0 = "\<lambda>_ _ _ _ _. True"])
    case (iter_end params body E vs log)
    then show ?case by auto
  next
    case (iter_next vs params body E log ws log' f' r log'')
    show ?case
    proof (intro impI allI)
      fix us g assume inv: "?inv params body E" and vs: "vs = us @ map g ks"
        and h: "holds (merged ks g f) log" and o: "ordered X log"
      have "path_ok X K (Some info) None log (Continues ws) log'"
        using inv h o iter_next.hyps by (auto simp: vs)
      then obtain us2 g2 where ok: "ordered X log'" "adds K log log'" "ws = us2 @ map g2 ks" "holds g2 log'"
        by (auto simp: path_ok_def assms(3))
      with iter_next.IH inv merge [OF h ok(2,4)]
      have "ordered X log'' \<and> adds K log' log''
        \<and> (case r of Inl q \<Rightarrow> q = Cut \<or> q = Returns
           | Inr ws \<Rightarrow> \<exists>us g. ws = us @ map g ks \<and> holds (merged ks g f) log'')" by blast
      with ok(2) show "ordered X log'' \<and> adds K log log''
        \<and> (case r of Inl q \<Rightarrow> q = Cut \<or> q = Returns
           | Inr ws \<Rightarrow> \<exists>us g. ws = us @ map g ks \<and> holds (merged ks g f) log'')" by (blast intro: adds_trans)
    qed
  next
    case (iter_break vs params body E log ws log' f')
    show ?case
    proof (intro impI allI)
      fix us g assume inv: "?inv params body E" and vs: "vs = us @ map g ks"
        and h: "holds (merged ks g f) log" and o: "ordered X log"
      have "path_ok X K (Some info) None log (Breaks ws) log'"
        using inv h o iter_break.hyps by (auto simp: vs)
      then obtain us2 g2 where ok: "ordered X log'" "adds K log log'" "ws = us2 @ map g2 ks" "holds g2 log'"
        by (auto simp: path_ok_def assms(3))
      with merge [OF h ok(2,4)] show "ordered X log' \<and> adds K log log'
        \<and> (case Inr ws of Inl q \<Rightarrow> q = Cut \<or> q = Returns
           | Inr ws \<Rightarrow> \<exists>us g. ws = us @ map g ks \<and> holds (merged ks g f) log')" by auto
    qed
  next
    case (iter_exit vs params body E log q log' f')
    then show ?case by (auto simp: path_ok_def)
  qed auto
  with assms show ?thesis by blast
qed

section \<open>Blocks\<close>

definition block_ready ::
  "(var \<rightharpoonup> DataPredicate) \<Rightarrow> ir_context \<Rightarrow> var set \<Rightarrow> var \<Rightarrow> loop_token_info option \<Rightarrow> operation list \<Rightarrow> token_state \<Rightarrow> bool" where
  "block_ready df c X root l ops st \<longleftrightarrow>
     extends_ctx c (tok_ctx st) \<and> map_tokens root (token_map st) \<union> set (all_defs ops) \<subseteq> var_names (tok_ctx st)
     \<and> map_tokens root (token_map st) \<inter> set (all_defs ops) = {} \<and> distinct (all_defs ops)
     \<and> token_ready (var_names c) ops \<and> set (parallel_results df c (loop_stores l) ops) \<subseteq> X"

definition run_ready :: "var set \<Rightarrow> var \<Rightarrow> token_state \<Rightarrow> tokens \<Rightarrow> event list \<Rightarrow> bool" where
  "run_ready X root st E log \<longleftrightarrow>
     E root = {} \<and> holds (\<lambda>k. E (token_of root (token_map st) k)) log \<and> ordered X log"

lemma path_ok_mono: "path_ok X K l t log q log' \<Longrightarrow> K \<subseteq> K' \<Longrightarrow> path_ok X K' l t log q log'"
  by (auto simp: path_ok_def intro: adds_mono)

lemma path_ok_after: "adds K log log1 \<Longrightarrow> path_ok X K l t log1 q log' \<Longrightarrow> path_ok X K l t log q log'"
  by (auto simp: path_ok_def intro: adds_trans)

lemma path_ok_cut: "ordered X log' \<Longrightarrow> adds K log log' \<Longrightarrow> path_ok X K l t log Cut log'"
  by (simp add: path_ok_def)

text \<open>After an operation whose new names are those of its results and fresh ones.\<close>

lemma extends_names: "extends_ctx c c' \<Longrightarrow> var_names c \<subseteq> var_names c'"
  by (simp add: extends_ctx_def)

lemma block_ready_next:
  assumes "block_ready df c X root l (op # ops) st" and "extends_ctx (tok_ctx st) (tok_ctx st')"
    and "map_tokens root (token_map st') \<subseteq>
      map_tokens root (token_map st) \<union> set (result_vars op) \<union> (var_names (tok_ctx st') - var_names (tok_ctx st))"
  shows "block_ready df c X root l ops st'"
proof -
  have "set (all_defs (op # ops)) \<supseteq> set (result_vars op) \<union> set (all_defs ops)"
    and "distinct (all_defs (op # ops)) \<Longrightarrow> distinct (all_defs ops) \<and> set (result_vars op) \<inter> set (all_defs ops) = {}"
    and "token_ready (var_names c) (op # ops) \<Longrightarrow> token_ready (var_names c) ops"
    and "set (parallel_results df c (loop_stores l) (op # ops)) \<supseteq> set (parallel_results df c (loop_stores l) ops)"
    by (cases op; auto)+
  moreover have "extends_ctx c (tok_ctx st')" using assms(1,2) extends_ctx_trans by (auto simp: block_ready_def)
  moreover have "var_names (tok_ctx st) \<subseteq> var_names (tok_ctx st')" using assms(2) by (simp add: extends_ctx_def)
  ultimately show ?thesis using assms(1,3) unfolding block_ready_def by blast
qed

lemma token_order_plain_paths:
  assumes o: "order_plain df root l cl opnds rs st = Inr (new, st1)"
    and e: "get_memory_effects df c cl opnds = Inr e" "keys_of e \<subseteq> K"
    and b: "block_ready df c X root l (Plain cl opnds rs # ops) st" and r: "run_ready X root st E log"
    and p: "path df c (new @ ops') E log q log'"
    and ih: "\<And>E1 log1. block_ready df c X root l ops st1 \<Longrightarrow> run_ready X root st1 E1 log1 \<Longrightarrow>
      path df c ops' E1 log1 q log' \<Longrightarrow> path_ok X K l t log1 q log'"
  shows "path_ok X K l t log q log'"
proof -
  have before: "before_op root E log st rs" using b r by (auto simp: block_ready_def run_ready_def before_op_def)
  have "names_ok root st rs st1 \<and> (\<exists>xs. new = plains xs \<and> step_ok X K df c root E log xs st1)"
    using b by (intro order_plain_ok [OF o before _ e]) (auto simp: block_ready_def)
  then obtain xs E1 log1 where n: "names_ok root st rs st1" and new: "new = plains xs"
    and run: "run_plains df c xs E log = (E1, log1)" "\<And>n. snd (run_plains df c (take n xs) E log) \<in> {log, log1}"
    and log1: "log1 = log \<or> (\<exists>e. log1 = log @ [e] \<and> event_keys e \<subseteq> K
             \<and> (gives e \<notin> X \<longrightarrow> (\<forall>i < length log. must_order (log ! i) e \<longrightarrow> i \<in> waits_for e)))"
    and E1: "E1 root = {}" "holds (\<lambda>k. E1 (token_of root (token_map st1) k)) log1"
    by (auto simp: step_ok_def)
  have ord: "ordered X log" using r by (simp add: run_ready_def)
  have ord1: "ordered X log1" using log1 ord by (auto simp: ordered_snoc)
  have add: "adds K log log1" using log1 by (auto simp: adds_def)
  from path_plains [OF p [unfolded new]] run consider "q = Cut" "log' \<in> {log, log1}" | "path df c ops' E1 log1 q log'" by auto
  then show ?thesis
  proof cases
    case 1
    then show ?thesis using ord ord1 add by (auto intro: path_ok_cut)
  next
    case 2
    have "block_ready df c X root l ops st1"
      by (rule block_ready_next [OF b]) (use n in \<open>auto simp: names_ok_def\<close>)
    then have "path_ok X K l t log1 q log'" using E1 ord1 2 by (intro ih) (auto simp: run_ready_def)
    with add show ?thesis by (rule path_ok_after)
  qed
qed

text \<open>A construct gives its results: the values of its original ones, then the tokens.\<close>

lemma run_ready_results:
  assumes h: "holds (merged ks g (\<lambda>k. E (token_of root tm k))) log" and o: "ordered X log" and root: "E root = {}"
    and len: "length (rs @ res) = length (us @ map g ks)" "length res = length ks"
    and d: "distinct res" "set res \<inter> set rs = {}" and tm: "map_tokens root tm \<inter> (set rs \<union> set res) = {}"
  shows "run_ready X root \<lparr>token_map = write_all (zip ks res) tm, tok_ctx = c\<rparr> (bind_tokens E (rs @ res) (us @ map g ks)) log"
proof -
  have l: "length rs = length us" using len by simp
  note b = bind_tokens_carried [OF l len(2) d tm, of E g]
  show ?thesis using h o root by (simp add: run_ready_def b)
qed

lemma snd_zip_subset: "snd ` set (zip xs ys) \<subseteq> set ys"
  by (auto dest: set_zip_rightD)

lemma token_order_loop_paths:
  assumes b: "block_ready df c X root l (Loop i rng inits params body rs # ops) st" and r: "run_ready X root st E log"
    and e: "effects_of_block df c body = Inr eff" "keys_of eff \<subseteq> K"
    and carry: "carry_tokens root (carried_keys eff) st = Inr (carried, st1)"
    and par: "get_parallel_stores df (tok_ctx st1) rng params body = Inr par"
    and ext1: "extends_ctx (tok_ctx st1) c1" and n: "new_object c1 = (i', c2)"
    and info: "info = \<lparr>loop_mem_effects = eff, loop_parallel_stores = par, parent_token_map = token_map st1\<rparr>"
    and p: "path df c (Loop i' rng (inits @ map init_token carried) (params @ map body_token carried) body'
        (rs @ map result_token carried) # ops2) E log q log'"
    and ih_body: "\<And>E log q log'. block_ready df c X root (Some info) body
          \<lparr>token_map = write_all (zip (map fst carried) (map body_token carried)) (token_map st), tok_ctx = tok_ctx st1\<rparr> \<Longrightarrow>
        run_ready X root
          \<lparr>token_map = write_all (zip (map fst carried) (map body_token carried)) (token_map st), tok_ctx = tok_ctx st1\<rparr> E log \<Longrightarrow>
        path df c body' E log q log' \<Longrightarrow> path_ok X (keys_of eff) (Some info) None log q log'"
    and ih_rest: "\<And>E1 log1. block_ready df c X root l ops
          \<lparr>token_map = write_all (zip (map fst carried) (map result_token carried)) (token_map st), tok_ctx = c2\<rparr> \<Longrightarrow>
        run_ready X root
          \<lparr>token_map = write_all (zip (map fst carried) (map result_token carried)) (token_map st), tok_ctx = c2\<rparr> E1 log1 \<Longrightarrow>
        path df c ops2 E1 log1 q log' \<Longrightarrow> path_ok X K l t log1 q log'"
  shows "path_ok X K l t log q log'"
proof -
  let ?ks = "carried_keys eff" and ?bs = "map body_token carried" and ?res = "map result_token carried"
  let ?tm = "token_map st" and ?f = "\<lambda>k. E (token_of root (token_map st) k)"
  note cr = carry_tokens_result [OF carry]
  have ks: "map fst carried = ?ks" and inits: "map init_token carried = map (token_of root ?tm) ?ks"
    and dist: "distinct ?bs" "distinct ?res" and fresh: "set ?bs \<inter> var_names (tok_ctx st) = {}" "set ?res \<inter> var_names (tok_ctx st) = {}"
    and known: "set ?bs \<union> set ?res \<subseteq> var_names (tok_ctx st1)" and ext: "extends_ctx (tok_ctx st) (tok_ctx st1)"
    using cr by auto
  have len: "length ?bs = length ?ks" "length ?res = length ?ks" by (simp_all flip: ks)
  have ctx: "extends_ctx c (tok_ctx st)" "map_tokens root ?tm \<subseteq> var_names (tok_ctx st)"
    and defs: "set params \<union> set (all_defs body) \<union> set rs \<subseteq> var_names (tok_ctx st)"
      "map_tokens root ?tm \<inter> (set params \<union> set (all_defs body) \<union> set rs) = {}"
      "distinct (all_defs body)" "is_for_loop rng \<Longrightarrow> params \<noteq> []" "token_ready (var_names c) body"
    using b by (auto simp: block_ready_def)
  have root: "E root = {}" and h: "holds ?f log" and o: "ordered X log" using r by (simp_all add: run_ready_def)
  have names: "var_names (tok_ctx st) \<subseteq> var_names (tok_ctx st1)" using ext by (simp add: extends_ctx_def)
  have mapb: "map_tokens root (write_all (zip ?ks ?bs) ?tm) \<subseteq> map_tokens root ?tm \<union> set ?bs"
    using map_tokens_write_all [of root "zip ?ks ?bs" ?tm] snd_zip_subset [of ?ks ?bs] by blast
  have mapr: "map_tokens root (write_all (zip ?ks ?res) ?tm) \<subseteq> map_tokens root ?tm \<union> set ?res"
    using map_tokens_write_all [of root "zip ?ks ?res" ?tm] snd_zip_subset [of ?ks ?res] by blast
  have ext_c: "extends_ctx c (tok_ctx st1)" using extends_ctx_trans [OF ctx(1) ext] .
  have "get_parallel_stores df c rng params body = Inr par"
    using parallel_stores_extends [OF ext_c defs(5)] par by simp
  then have parX: "set (parallel_results df c par body) \<subseteq> X" using b by (simp add: block_ready_def)
  have body_ready: "block_ready df c X root (Some info) body \<lparr>token_map = write_all (zip ?ks ?bs) ?tm, tok_ctx = tok_ctx st1\<rparr>"
  proof -
    have "map_tokens root (write_all (zip ?ks ?bs) ?tm) \<union> set (all_defs body) \<subseteq> var_names (tok_ctx st1)"
      using mapb ctx(2) defs(1) names known by blast
    moreover have "map_tokens root (write_all (zip ?ks ?bs) ?tm) \<inter> set (all_defs body) = {}"
      using mapb defs(1,2) fresh(1) by blast
    ultimately show ?thesis using ext_c defs(3,5) parX unfolding block_ready_def by (simp add: info loop_stores_def)
  qed
  have vars: "body_vars rng (params @ ?bs) = body_vars rng params @ ?bs"
    using defs(4) by (simp add: body_vars_def tl_append2)
  have sub: "set (body_vars rng params) \<subseteq> set params" by (cases params) (auto simp: body_vars_def)
  have body: "path_ok X (keys_of eff) (Some info) None lg q' lg'"
    if "length us + length ?ks = length (body_vars rng (params @ ?bs))" "holds (merged ?ks g ?f) lg" "ordered X lg"
      "path df c body' (bind_tokens E (body_vars rng (params @ ?bs)) (us @ map g ?ks)) lg q' lg'" for us g lg q' lg'
  proof (rule ih_body [unfolded ks, OF body_ready _ that(4)])
    show "run_ready X root \<lparr>token_map = write_all (zip ?ks ?bs) ?tm, tok_ctx = tok_ctx st1\<rparr>
        (bind_tokens E (body_vars rng (params @ ?bs)) (us @ map g ?ks)) lg"
      unfolding vars
    proof (rule run_ready_results [OF that(2,3) root _ len(1) dist(1)])
      show "length (body_vars rng params @ ?bs) = length (us @ map g ?ks)" using that(1) by (simp add: vars)
      show "set ?bs \<inter> set (body_vars rng params) = {}" using fresh(1) defs(1) sub by blast
      show "map_tokens root ?tm \<inter> (set (body_vars rng params) \<union> set ?bs) = {}" using fresh(1) defs(2) ctx(2) sub by blast
    qed
  qed
  have info_keys: "carried_keys (loop_mem_effects info) = ?ks" by (simp add: info)
  have vals: "map E (inits @ map init_token carried) = map E inits @ map ?f ?ks" by (simp add: inits)
  have start: "holds (merged ?ks ?f ?f) log" using h by (simp add: merged_def [abs_def])
  have iter: "ordered X lg \<and> adds (keys_of eff) log lg
      \<and> (case r of Inl q \<Rightarrow> q = Cut \<or> q = Returns
         | Inr ws \<Rightarrow> \<exists>us g. ws = us @ map g ?ks \<and> holds (merged ?ks g ?f) lg)"
    if "iterations df c (is_for_loop rng) (body_vars rng (params @ ?bs)) body' E
          (map E (inits @ map init_token carried)) log r lg" for r lg
    by (rule iterations_ok [OF that _ info_keys keys_carried vals start o]) (rule body)
  from p consider (1) "q = Cut" "log' = log"
    | (2) ws log1 where "iterations df c (is_for_loop rng) (body_vars rng (params @ ?bs)) body' E
          (map E (inits @ map init_token carried)) log (Inr ws) log1"
        "length ws = length (rs @ ?res)" "path df c ops2 (bind_tokens E (rs @ ?res) ws) log1 q log'"
    | (3) "iterations df c (is_for_loop rng) (body_vars rng (params @ ?bs)) body' E
          (map E (inits @ map init_token carried)) log (Inl q) log'"
    by (rule path_loopE)
  then show ?thesis
  proof cases
    case 1
    then show ?thesis using o by (simp add: path_ok_cut)
  next
    case (2 ws log1)
    from iter [OF 2(1)] obtain us g where ok: "ordered X log1" "adds (keys_of eff) log log1" "ws = us @ map g ?ks"
      "holds (merged ?ks g ?f) log1" by auto
    have "run_ready X root \<lparr>token_map = write_all (zip ?ks ?res) ?tm, tok_ctx = c2\<rparr> (bind_tokens E (rs @ ?res) ws) log1"
      unfolding ok(3)
    proof (rule run_ready_results [OF ok(4,1) root _ len(2) dist(2)])
      show "length (rs @ ?res) = length (us @ map g ?ks)" using 2(2) ok(3) by simp
      show "set ?res \<inter> set rs = {}" using fresh(2) defs(1) by blast
      show "map_tokens root ?tm \<inter> (set rs \<union> set ?res) = {}" using fresh(2) defs(2) ctx(2) by blast
    qed
    moreover have "block_ready df c X root l ops \<lparr>token_map = write_all (zip ?ks ?res) ?tm, tok_ctx = c2\<rparr>"
    proof (rule block_ready_next [OF b])
      show "extends_ctx (tok_ctx st) (tok_ctx \<lparr>token_map = write_all (zip ?ks ?res) ?tm, tok_ctx = c2\<rparr>)"
        using extends_ctx_trans [OF extends_ctx_trans [OF ext ext1] extends_new_object [OF n]] by simp
      have "set ?res \<subseteq> var_names c2" using known extends_names [OF ext1] extends_names [OF extends_new_object [OF n]] by blast
      then show "map_tokens root (token_map \<lparr>token_map = write_all (zip ?ks ?res) ?tm, tok_ctx = c2\<rparr>)
          \<subseteq> map_tokens root ?tm \<union> set (result_vars (Loop i rng inits params body rs))
            \<union> (var_names (tok_ctx \<lparr>token_map = write_all (zip ?ks ?res) ?tm, tok_ctx = c2\<rparr>) - var_names (tok_ctx st))"
        unfolding token_state.select_convs using mapr fresh(2) by blast
    qed
    ultimately have "path_ok X K l t log1 q log'" using 2(3) by (intro ih_rest [unfolded ks])
    then show ?thesis using path_ok_after adds_mono [OF ok(2) e(2)] by blast
  next
    case 3
    from iter [OF 3] have "ordered X log'" "adds (keys_of eff) log log'" "q = Cut \<or> q = Returns" by auto
    then show ?thesis using adds_mono [OF _ e(2)] by (auto simp: path_ok_def)
  qed
qed

lemma token_order_branch_paths:
  assumes b: "block_ready df c X root l (IfElse i x th el rs # ops) st" and r: "run_ready X root st E log"
    and K: "keys_of e1 \<subseteq> K" "keys_of e2 \<subseteq> K" and eff: "eff = effects_or e1 e2"
    and res: "result_tokens (carried_keys eff) st = Inr (results, st1)"
    and ext1: "extends_ctx (tok_ctx st1) c1" "extends_ctx c1 c2" and n: "new_object c2 = (i', c3)"
    and p: "path df c (IfElse i' x th' el' (rs @ map snd results) # ops2) E log q log'"
    and ih_th: "\<And>q log'. block_ready df c X root l th st1 \<Longrightarrow> run_ready X root st1 E log \<Longrightarrow>
        path df c th' E log q log' \<Longrightarrow> path_ok X (keys_of e1) l (Some eff) log q log'"
    and ih_el: "\<And>q log'. block_ready df c X root l el (st1\<lparr>tok_ctx := c1\<rparr>) \<Longrightarrow> run_ready X root (st1\<lparr>tok_ctx := c1\<rparr>) E log \<Longrightarrow>
        path df c el' E log q log' \<Longrightarrow> path_ok X (keys_of e2) l (Some eff) log q log'"
    and ih_rest: "\<And>E1 log1. block_ready df c X root l ops \<lparr>token_map = write_all results (token_map st1), tok_ctx = c3\<rparr> \<Longrightarrow>
        run_ready X root \<lparr>token_map = write_all results (token_map st1), tok_ctx = c3\<rparr> E1 log1 \<Longrightarrow>
        path df c ops2 E1 log1 q log' \<Longrightarrow> path_ok X K l t log1 q log'"
  shows "path_ok X K l t log q log'"
proof -
  let ?ks = "carried_keys eff" and ?res = "map snd results" and ?f = "\<lambda>k. E (token_of root (token_map st) k)"
  note rr = result_tokens_result [OF res]
  have ks: "map fst results = ?ks" and dist: "distinct ?res" and fresh: "set ?res \<inter> var_names (tok_ctx st) = {}"
    and known: "set ?res \<subseteq> var_names (tok_ctx st1)" and ext: "extends_ctx (tok_ctx st) (tok_ctx st1)"
    and tm: "token_map st1 = token_map st"
    using rr by auto
  have len: "length ?res = length ?ks" by (simp flip: ks)
  have zip: "results = zip ?ks ?res" by (simp flip: ks add: zip_map_fst_snd)
  have ctx: "extends_ctx c (tok_ctx st)" "map_tokens root (token_map st) \<subseteq> var_names (tok_ctx st)"
    and defs: "set rs \<subseteq> var_names (tok_ctx st)" "map_tokens root (token_map st) \<inter> set rs = {}"
    using b by (auto simp: block_ready_def)
  have root: "E root = {}" and h: "holds ?f log" and o: "ordered X log" using r by (simp_all add: run_ready_def)
  have names: "var_names (tok_ctx st) \<subseteq> var_names (tok_ctx st1)" "var_names (tok_ctx st1) \<subseteq> var_names c1"
    using ext ext1 by (simp_all add: extends_ctx_def)
  have ext_c: "extends_ctx c (tok_ctx st1)" "extends_ctx c c1"
    using extends_ctx_trans [OF ctx(1) ext] extends_ctx_trans ext1(1) by blast+
  have th: "block_ready df c X root l th st1" and el: "block_ready df c X root l el (st1\<lparr>tok_ctx := c1\<rparr>)"
    using b ext_c names tm unfolding block_ready_def by auto
  have run: "run_ready X root st1 E log" "run_ready X root (st1\<lparr>tok_ctx := c1\<rparr>) E log"
    using r tm by (simp_all add: run_ready_def)
  have branch: "path_ok X K l (Some eff) log q' lg" if "b' = th' \<or> b' = el'" "path df c b' E log q' lg" for b' q' lg
    using that ih_th [OF th run(1)] ih_el [OF el run(2)] K path_ok_mono by metis
  from p consider (1) "q = Cut" "log' = log"
    | (2) b' ws log1 where "b' = th' \<or> b' = el'" "path df c b' E log (Yields ws) log1" "length ws = length (rs @ ?res)"
        "path df c ops2 (bind_tokens E (rs @ ?res) ws) log1 q log'"
    | (3) b' where "b' = th' \<or> b' = el'" "path df c b' E log q log'" "\<forall>ws. q \<noteq> Yields ws" "\<forall>E'. q \<noteq> FellThrough E'"
    by (rule path_branchE)
  then show ?thesis
  proof cases
    case 1
    then show ?thesis using o by (simp add: path_ok_cut)
  next
    case (2 b' ws log1)
    from branch [OF 2(1,2)] obtain us g where ok: "ordered X log1" "adds K log log1" "ws = us @ map g ?ks" "holds g log1"
      by (auto simp: path_ok_def)
    have "adds (keys_of e1) log log1 \<or> adds (keys_of e2) log log1"
      using 2(1,2) ih_th [OF th run(1)] ih_el [OF el run(2)] by (auto simp: path_ok_def)
    then have "adds (keys_of eff) log log1" unfolding eff keys_or using adds_mono by blast
    then have m: "holds (merged ?ks g ?f) log1" using adds_merged [OF adds_mono [OF _ keys_carried] h ok(4)] by blast
    have "run_ready X root \<lparr>token_map = write_all (zip ?ks ?res) (token_map st), tok_ctx = c3\<rparr> (bind_tokens E (rs @ ?res) ws) log1"
      unfolding ok(3)
    proof (rule run_ready_results [OF m ok(1) root _ len dist])
      show "length (rs @ ?res) = length (us @ map g ?ks)" using 2(3) ok(3) by simp
      show "set ?res \<inter> set rs = {}" using fresh defs(1) by blast
      show "map_tokens root (token_map st) \<inter> (set rs \<union> set ?res) = {}" using fresh defs(2) ctx(2) by blast
    qed
    then have "run_ready X root \<lparr>token_map = write_all results (token_map st1), tok_ctx = c3\<rparr> (bind_tokens E (rs @ ?res) ws) log1"
      using zip tm by simp
    moreover have "block_ready df c X root l ops \<lparr>token_map = write_all results (token_map st1), tok_ctx = c3\<rparr>"
    proof (rule block_ready_next [OF b])
      show "extends_ctx (tok_ctx st) (tok_ctx \<lparr>token_map = write_all results (token_map st1), tok_ctx = c3\<rparr>)"
        using extends_ctx_trans [OF extends_ctx_trans [OF ext ext1(1)] extends_ctx_trans [OF ext1(2) extends_new_object [OF n]]]
        by simp
      have "set ?res \<subseteq> var_names c3"
        using known extends_names [OF ext1(1)] extends_names [OF ext1(2)] extends_names [OF extends_new_object [OF n]] by blast
      then show "map_tokens root (token_map \<lparr>token_map = write_all results (token_map st1), tok_ctx = c3\<rparr>)
          \<subseteq> map_tokens root (token_map st) \<union> set (result_vars (IfElse i x th el rs))
            \<union> (var_names (tok_ctx \<lparr>token_map = write_all results (token_map st1), tok_ctx = c3\<rparr>) - var_names (tok_ctx st))"
        unfolding token_state.select_convs tm set_map [symmetric]
        using map_tokens_write_all [of root results "token_map st"] fresh unfolding set_map [symmetric] by blast
    qed
    ultimately have "path_ok X K l t log1 q log'" using 2(4) by (intro ih_rest)
    then show ?thesis using path_ok_after ok(2) by blast
  next
    case (3 b')
    with branch [OF 3(1,2)] show ?thesis by (cases q) (auto simp: path_ok_def)
  qed
qed

lemma carried_values:
  assumes "exit_tokens root ks st = (toks, st1)" and "run_ready X root st E log"
  shows "map E (vs @ toks) = map E vs @ map (\<lambda>k. E (token_of root (token_map st) k)) ks
    \<and> holds (\<lambda>k. E (token_of root (token_map st) k)) log \<and> ordered X log"
  using exit_tokens_result [OF assms(1)] assms(2) by (simp add: run_ready_def)

text \<open>The theorem for the operations of a block, by the recursion of the pass.\<close>

lemma token_order_paths:
  "token_order df root l t ops st = Inr (ops', c') \<Longrightarrow> block_memory_effects df c ops eff0 = Inr eff \<Longrightarrow>
   block_ready df c X root l ops st \<Longrightarrow> run_ready X root st E log \<Longrightarrow> path df c ops' E log q log' \<Longrightarrow>
   path_ok X (keys_of eff) l t log q log'"
proof (induction df root l t ops st arbitrary: ops' c' eff0 eff E log q log' rule: token_order.induct)
  case (1 df root l t st)
  then show ?case by (auto elim!: path_nilE simp: run_ready_def path_ok_def)
next
  case (2 df root l t cl opnds rs ops st)
  obtain new st1 ops2 where p: "order_plain df root l cl opnds rs st = Inr (new, st1)"
      "token_order df root l t ops st1 = Inr (ops2, c')" "ops' = new @ ops2"
    using "2.prems"(1) by (auto simp: and_then_Inr_iff)
  obtain e where e: "get_memory_effects df c cl opnds = Inr e" "block_memory_effects df c ops (effects_or eff0 e) = Inr eff"
    using "2.prems"(2) by (auto simp: and_then_Inr_iff)
  have "keys_of e \<subseteq> keys_of eff" using keys_grow [OF e(2)] by (simp add: keys_or)
  then show ?case
    using "2.prems"(3-5) unfolding p(3)
    by (rule token_order_plain_paths [OF p(1) e(1)]) (rule "2.IH" [OF p(1) refl p(2) e(2)])
next
  case (3 df root l t i rng inits params body rs ops st)
  from "3.prems"(1) obtain effb carried st1 par body' c1 i' c2 ops2 where
    p: "effects_of_block df (tok_ctx st) body = Inr effb" "carry_tokens root (carried_keys effb) st = Inr (carried, st1)"
      "get_parallel_stores df (tok_ctx st1) rng params body = Inr par"
      "token_order df root (Some \<lparr>loop_mem_effects = effb, loop_parallel_stores = par, parent_token_map = token_map st1\<rparr>) None body
        \<lparr>token_map = write_all (zip (map fst carried) (map body_token carried)) (token_map st), tok_ctx = tok_ctx st1\<rparr> = Inr (body', c1)"
      "new_object c1 = (i', c2)"
      "token_order df root l t ops
        \<lparr>token_map = write_all (zip (map fst carried) (map result_token carried)) (token_map st), tok_ctx = c2\<rparr> = Inr (ops2, c')"
    and ops': "ops' = Loop i' rng (inits @ map init_token carried) (params @ map body_token carried) body'
        (rs @ map result_token carried) # ops2"
    by (rule token_order_loop) blast
  have ext: "extends_ctx c (tok_ctx st)" using "3.prems"(3) by (simp add: block_ready_def)
  have e: "effects_of_block df c body = Inr effb" using p(1) block_effects_extends [OF ext] by simp
  then have e2: "block_memory_effects df c ops (effects_or (effects_or eff0 EMPTY_MEMORY_EFFECTS) effb) = Inr eff"
    using "3.prems"(2) by simp
  have K: "keys_of effb \<subseteq> keys_of eff" using keys_grow [OF e2] by (simp add: keys_or)
  have ext1: "extends_ctx (tok_ctx st1) c1" using token_order_extends [OF p(4)] by simp
  show ?case
    by (rule token_order_loop_paths [OF "3.prems"(3,4) e K p(2,3) ext1 p(5) refl "3.prems"(5) [unfolded ops']])
      (rule "3.IH"(1) [OF p(1,2) refl p(3) refl refl refl p(4) e]
         "3.IH"(2) [OF p(1,2) refl p(3) refl refl refl p(4) refl p(5) [symmetric] refl p(6) e2]; assumption)+
next
  case (6 df root l t i x th el rs ops st)
  from "6.prems"(1) obtain e1 e2 results st1 th' c1 el' c2 i' c3 ops2 where
    p: "effects_of_block df (tok_ctx st) th = Inr e1" "effects_of_block df (tok_ctx st) el = Inr e2"
      "result_tokens (carried_keys (effects_or e1 e2)) st = Inr (results, st1)"
      "token_order df root l (Some (effects_or e1 e2)) th st1 = Inr (th', c1)"
      "token_order df root l (Some (effects_or e1 e2)) el (st1\<lparr>tok_ctx := c1\<rparr>) = Inr (el', c2)"
      "new_object c2 = (i', c3)"
      "token_order df root l t ops \<lparr>token_map = write_all results (token_map st1), tok_ctx = c3\<rparr> = Inr (ops2, c')"
    and ops': "ops' = IfElse i' x th' el' (rs @ map snd results) # ops2"
    by (rule token_order_branch) blast
  have ext: "extends_ctx c (tok_ctx st)" using "6.prems"(3) by (simp add: block_ready_def)
  have e: "effects_of_block df c th = Inr e1" "effects_of_block df c el = Inr e2"
    using p(1,2) block_effects_extends [OF ext] by simp_all
  then have e3: "block_memory_effects df c ops (effects_or (effects_or (effects_or eff0 EMPTY_MEMORY_EFFECTS) e1) e2) = Inr eff"
    using "6.prems"(2) by simp
  have K: "keys_of e1 \<subseteq> keys_of eff" "keys_of e2 \<subseteq> keys_of eff" using keys_grow [OF e3] by (simp_all add: keys_or)
  have ext1: "extends_ctx (tok_ctx st1) c1" "extends_ctx c1 c2"
    using token_order_extends [OF p(4)] token_order_extends [OF p(5)] by simp_all
  show ?case
    by (rule token_order_branch_paths [OF "6.prems"(3,4) K refl p(3) ext1 p(6) "6.prems"(5) [unfolded ops']])
      (rule "6.IH"(1) [OF p(1,2) refl p(3) refl p(4) e(1)] "6.IH"(2) [OF p(1,2) refl p(3) refl p(4) refl p(5) e(2)]
         "6.IH"(3) [OF p(1,2) refl p(3) refl p(4) refl p(5) refl p(6) [symmetric] refl p(7) e3]; assumption)+
next
  case (4 df root l t vs ops st)
  then obtain x toks st1 ops2 where x: "l = Some x" and e: "exit_tokens root (carried_keys (loop_mem_effects x)) st = (toks, st1)"
    and ops': "ops' = Continue (vs @ toks) # ops2"
    by (auto simp: and_then_Inr_iff split: option.splits prod.splits)
  note v = carried_values [OF e "4.prems"(4), of vs]
  from "4.prems"(5) [unfolded ops'] show ?case
    by (rule path_continueE) (use v x in \<open>auto simp: path_ok_def\<close>)
next
  case (5 df root l t vs ops st)
  then obtain x toks st1 ops2 where x: "l = Some x" and e: "exit_tokens root (carried_keys (loop_mem_effects x)) st = (toks, st1)"
    and ops': "ops' = Break (vs @ toks) # ops2"
    by (auto simp: and_then_Inr_iff split: option.splits prod.splits)
  note v = carried_values [OF e "5.prems"(4), of vs]
  from "5.prems"(5) [unfolded ops'] show ?case
    by (rule path_breakE) (use v x in \<open>auto simp: path_ok_def\<close>)
next
  case (7 df root l t vs ops st)
  then obtain x toks st1 ops2 where x: "t = Some x" and e: "exit_tokens root (carried_keys x) st = (toks, st1)"
    and ops': "ops' = EndBranch (vs @ toks) # ops2"
    by (auto simp: and_then_Inr_iff split: option.splits prod.splits)
  note v = carried_values [OF e "7.prems"(4), of vs]
  from "7.prems"(5) [unfolded ops'] show ?case
    by (rule path_yieldE) (use v x in \<open>auto simp: path_ok_def\<close>)
next
  case (8 df root l t i k xs params body rs ops st)
  obtain ops2 where p: "token_order df root l t ops st = Inr (ops2, c')" "ops' = Reduction i k xs params body rs # ops2"
    using "8.prems"(1) by (auto simp: and_then_Inr_iff)
  obtain eff1 where e: "block_memory_effects df c ops eff1 = Inr eff" using "8.prems"(2) by (auto simp: and_then_Inr_iff)
  have "block_ready df c X root l ops st" by (rule block_ready_next [OF "8.prems"(3)]) auto
  note ih = "8.IH" [OF p(1) e this "8.prems"(4)]
  from "8.prems"(5) [unfolded p(2)] show ?case
    by (rule path_reductionE) (use ih "8.prems"(4) in \<open>auto simp: run_ready_def path_ok_def\<close>)
next
  case (9 df root l t ops st)
  then show ?case by (auto elim!: path_returnE simp: run_ready_def path_ok_def and_then_Inr_iff)
qed

section \<open>The pass\<close>

text \<open>
  C3. On every path through a kernel that the token order pass accepts, stopped anywhere, every
  memory operation holds in its token all operations before it on the path that it must follow:
  those on overlapping alias sets of which one is a store, those that acquire, and all of them
  when it releases. This goes across branches, the iterations of loops, and early exits. The
  stores of a for loop that the pass runs in parallel are the only exception.
\<close>

theorem token_order_sound:
  assumes pass: "token_order_pass ops df c = Inr (ops', c')"
    and names: "distinct (all_defs ops)" "set (all_defs ops) \<subseteq> var_names c" "token_ready (var_names c) ops"
    and path: "path df c ops' E [] q log"
  shows "ordered (set (parallel_results df c [] ops)) log"
proof -
  let ?X = "set (parallel_results df c [] ops)"
  obtain eff root c1 ops1 where eff: "effects_of_block df c ops = Inr eff" and root: "make_token_var c = Inr (root, c1)"
    and o: "token_order df root None None ops \<lparr>token_map = [], tok_ctx = c1\<rparr> = Inr (ops1, c')"
    and ops': "ops' = Plain MakeToken [] [root] # ops1"
    using pass by (auto simp: token_order_pass_def and_then_Inr_iff)
  note fresh = make_token_var_fresh [OF root]
  have ready: "block_ready df c ?X root None ops \<lparr>token_map = [], tok_ctx = c1\<rparr>"
    using names fresh by (auto simp: block_ready_def map_tokens_def loop_stores_def extends_ctx_def)
  have run: "run_ready ?X root \<lparr>token_map = [], tok_ctx = c1\<rparr> (E(root := {})) []"
    by (simp add: run_ready_def holds_def ordered_def)
  from path [unfolded ops'] consider "log = []" | "path df c ops1 (E(root := {})) [] q log"
    by (rule path_plainE) (auto simp: token_step_def event_alias_def give_token_def)
  then show ?thesis
  proof cases
    case 1
    then show ?thesis by (simp add: ordered_def)
  next
    case 2
    from token_order_paths [OF o eff ready run 2] show ?thesis by (simp add: path_ok_def)
  qed
qed

definition token_kernel :: "operation list" where
  "token_kernel =
     [Plain (TileStore ORDER_WEAK) [(''view'', OVar ''va'')] [''t0''],
      Loop 0 (Some (''lo'', ''hi'', ''st'')) [] [''i'']
        [Plain (TileLoad ORDER_WEAK) [(''view'', OVar ''va'')] [''x'', ''t1''],
         IfElse 1 ''b''
           [Plain (TileAtomicRMW ORDER_ACQ_REL) [(''pointer'', OVar ''pb'')] [''y'', ''t2''], EndBranch []]
           [EndBranch []] [],
         Continue []] [],
      Plain TilePrintf [(''args'', OTuple [])] [''t3''],
      Return]"

definition token_facts :: "var \<Rightarrow> DataPredicate option" where
  "token_facts v =
     (if v = ''pa'' then Some \<lparr>alias_set = 1, div_by = 1, may_alias = False\<rparr>
      else if v = ''pb'' then Some \<lparr>alias_set = 2, div_by = 1, may_alias = False\<rparr> else None)"

definition token_context :: ir_context where
  "token_context =
     \<lparr>all_vars = map (\<lambda>v. (v, v)) ([''va'', ''pa'', ''pb'', ''lo'', ''hi'', ''st'', ''b''] @ all_defs token_kernel),
      counter_by_name = (\<lambda>n. 0), temp_counter = 0, typemap = Map.empty, constants = Map.empty,
      aggregate_values = [''va'' \<mapsto> ArrayValue ''pa''], next_object = 2\<rparr>"

text \<open>The kernel with its tokens, and a path that stores, loads and updates once each, prints and returns.\<close>

definition ordered_kernel :: "operation list" where
  "ordered_kernel =
     (case token_order_pass token_kernel token_facts token_context of Inl e \<Rightarrow> [] | Inr (ops', c') \<Rightarrow> ops')"

lemma ordered_kernel_eq: "ordered_kernel =
     [Plain MakeToken [] [''$token''],
      Plain (TileStore ORDER_WEAK) [(''view'', OVar ''va''), (''token'', OVar ''$token'')] [''t0''],
      Loop 3 (Some (''lo'', ''hi'', ''st'')) [''t0'', ''$token'', ''$token'', ''$token'']
       [''i'', ''$token.0'', ''$token.2'', ''$token.4'', ''$token.6'']
       [Plain JoinTokens [(''tokens'', OTuple [''t0'', ''$token.6''])] [''$token.8''],
        Plain (TileLoad ORDER_WEAK) [(''view'', OVar ''va''), (''token'', OVar ''$token.8'')] [''x'', ''t1''],
        Plain JoinTokens [(''tokens'', OTuple [''$token.0'', ''t1''])] [''$token.9''],
        IfElse 2 ''b''
         [Plain JoinTokens [(''tokens'', OTuple [''$token.2'', ''$token.9'', ''$token.6''])] [''$token.13''],
          Plain (TileAtomicRMW ORDER_ACQ_REL) [(''pointer'', OVar ''pb''), (''token'', OVar ''$token.13'')] [''y'', ''t2''],
          EndBranch [''t2'', ''t2'', ''t2'']]
         [EndBranch [''$token.2'', ''$token.4'', ''$token.6'']]
         [''$token.10'', ''$token.11'', ''$token.12''],
        Continue [''$token.9'', ''$token.10'', ''$token.11'', ''$token.12'']]
       [''$token.1'', ''$token.3'', ''$token.5'', ''$token.7''],
      Plain JoinTokens [(''tokens'', OTuple [''$token'', ''$token.1'', ''$token.3'', ''$token.7''])] [''$token.14''],
      Plain TilePrintf [(''args'', OTuple []), (''token'', OVar ''$token.14'')] [''t3''],
      Return]"
  by code_simp

lemma ordered_kernel_pass: "\<exists>c'. token_order_pass token_kernel token_facts token_context = Inr (ordered_kernel, c')"
proof -
  have "\<not> isl (token_order_pass token_kernel token_facts token_context)" by code_simp
  then show ?thesis by (auto simp: ordered_kernel_def split: sum.splits)
qed

lemma bind_tokens_simps: "bind_tokens E [] vs = E" "bind_tokens E (x # xs) (v # vs) = (bind_tokens E xs vs)(x := v)"
  by (auto simp: bind_tokens_def fun_eq_iff)

lemmas token_eval =
  token_step_def event_alias_def token_facts_def token_context_def input_alias_set_def get_input_var_def
  var_operand_def operand_of_def df_predicate_def token_value_def give_token_def new_event_def acquires_def releases_def
  memory_order_has_acquire_def memory_order_has_release_def ALIAS_UNIVERSE_def bind_tokens_simps Let_def

definition kernel_log :: "event list" where
  "kernel_log =
     [\<lparr>on_alias = 1, effect = EFFECT_STORE, acquiring = False, releasing = False, gives = ''t0'', waits_for = {}\<rparr>,
      \<lparr>on_alias = 1, effect = EFFECT_LOAD, acquiring = False, releasing = False, gives = ''t1'', waits_for = {0}\<rparr>,
      \<lparr>on_alias = 2, effect = EFFECT_STORE, acquiring = True, releasing = True, gives = ''t2'', waits_for = {0, 1}\<rparr>,
      \<lparr>on_alias = -1, effect = EFFECT_STORE, acquiring = False, releasing = False, gives = ''t3'', waits_for = {0, 1, 2}\<rparr>]"

lemma path_step:
  "token_step df c cl opnds rs E log = p \<Longrightarrow> path df c ops (fst p) (snd p) q log' \<Longrightarrow>
    path df c (Plain cl opnds rs # ops) E log q log'"
  by (cases p) (simp add: path_plain)

lemma path_returned: "log = log' \<Longrightarrow> path df c (Return # ops) E log Returns log'"
  by (simp add: path_return)

lemma kernel_path: "path token_facts token_context ordered_kernel (\<lambda>v. {}) [] Returns kernel_log"
  unfolding ordered_kernel_eq
  apply (rule path_step, simp add: token_eval, (simp only: fst_conv snd_conv)?)+
  apply (rule path_loop)
    apply (simp only: body_vars_def is_for_loop_def option.distinct simp_thms if_True list.sel list.map)
    apply (rule iter_next, simp, simp only: bind_tokens_simps)
     apply (rule path_step, simp add: token_eval, (simp only: fst_conv snd_conv)?)+
     apply (rule path_branch, rule disjI1, rule refl)
       apply (rule path_step, simp add: token_eval, (simp only: fst_conv snd_conv)?)+
       apply (rule path_yield)
      apply simp
     apply (simp only: list.map bind_tokens_simps)
     apply (rule path_continue)
    apply (rule iter_end)
   apply simp
  apply (simp only: list.map bind_tokens_simps)
  apply (rule path_step, simp add: token_eval, (simp only: fst_conv snd_conv)?)+
  apply (rule path_returned)
  apply (auto simp: kernel_log_def)
  done

theorem token_order_sound_witness:
  "length kernel_log = 4 \<and> ordered (set (parallel_results token_facts token_context [] token_kernel)) kernel_log
   \<and> parallel_results token_facts token_context [] token_kernel = []"
proof -
  obtain c' where pass: "token_order_pass token_kernel token_facts token_context = Inr (ordered_kernel, c')"
    using ordered_kernel_pass by blast
  have "distinct (all_defs token_kernel)" by code_simp
  moreover have "set (all_defs token_kernel) \<subseteq> var_names token_context"
    by (auto simp: var_names_def token_context_def token_kernel_def)
  moreover have "token_ready (var_names token_context) token_kernel"
    by (simp add: token_kernel_def var_names_def token_context_def operands_vars_def is_tile_store_def acquires_def
        memory_order_has_acquire_def)
  ultimately have "ordered (set (parallel_results token_facts token_context [] token_kernel)) kernel_log"
    using token_order_sound [OF pass _ _ _ kernel_path] by blast
  moreover have "parallel_results token_facts token_context [] token_kernel = []" by code_simp
  ultimately show ?thesis by (simp add: kernel_log_def)
qed

section \<open>What a parallel store does not wait for\<close>

text \<open>
  A release store that runs in parallel in a loop, after a store to another array and a print:
  it releases, so the store must come before it, and the print touches all memory, but its
  token is the one that no operation gives.
\<close>

definition release_kernel :: "operation list" where
  "release_kernel =
     [Plain (TileStore ORDER_WEAK) [(''view'', OVar ''va'')] [''t0''],
      Plain TilePrintf [(''args'', OTuple [])] [''t1''],
      Loop 0 (Some (''lo'', ''hi'', ''st'')) [] [''i'']
        [Plain (TileStore ORDER_RELEASE) [(''view'', OVar ''vb''), (''index'', OTuple [''i''])] [''t2''], Continue []] [],
      Return]"

definition release_context :: ir_context where
  "release_context = token_context\<lparr>
     all_vars := map (\<lambda>v. (v, v)) ([''va'', ''vb'', ''pa'', ''pb'', ''lo'', ''hi'', ''st''] @ all_defs release_kernel),
     typemap := [''vb'' \<mapsto> PartitionViewTy],
     aggregate_values := [''va'' \<mapsto> ArrayValue ''pa'', ''vb'' \<mapsto> ArrayValue ''pb'']\<rparr>"

definition released_kernel :: "operation list" where
  "released_kernel =
     (case token_order_pass release_kernel token_facts release_context of Inl e \<Rightarrow> [] | Inr (ops', c') \<Rightarrow> ops')"

lemma released_kernel_eq: "released_kernel =
     [Plain MakeToken [] [''$token''],
      Plain (TileStore ORDER_WEAK) [(''view'', OVar ''va''), (''token'', OVar ''$token'')] [''t0''],
      Plain JoinTokens [(''tokens'', OTuple [''$token'', ''t0''])] [''$token.0''],
      Plain TilePrintf [(''args'', OTuple []), (''token'', OVar ''$token.0'')] [''t1''],
      Loop 2 (Some (''lo'', ''hi'', ''st'')) [''$token'', ''$token''] [''i'', ''$token.1'', ''$token.3'']
       [Plain (TileStore ORDER_RELEASE) [(''view'', OVar ''vb''), (''index'', OTuple [''i'']), (''token'', OVar ''$token'')] [''t2''],
        Plain JoinTokens [(''tokens'', OTuple [''$token.1'', ''t2''])] [''$token.5''],
        Continue [''$token.5'', ''$token.5'']]
       [''$token.2'', ''$token.4''],
      Return]"
  by code_simp

definition release_log :: "event list" where
  "release_log =
     [\<lparr>on_alias = 1, effect = EFFECT_STORE, acquiring = False, releasing = False, gives = ''t0'', waits_for = {}\<rparr>,
      \<lparr>on_alias = -1, effect = EFFECT_STORE, acquiring = False, releasing = False, gives = ''t1'', waits_for = {0}\<rparr>,
      \<lparr>on_alias = 2, effect = EFFECT_STORE, acquiring = False, releasing = True, gives = ''t2'', waits_for = {}\<rparr>]"

lemma path_stopped: "log = log' \<Longrightarrow> path df c ops E log Cut log'"
  by (simp add: path_cut)

lemma release_path: "path token_facts release_context released_kernel (\<lambda>v. {}) [] Cut release_log"
  unfolding released_kernel_eq
  apply (rule path_step, simp add: token_eval release_context_def, (simp only: fst_conv snd_conv)?)+
  apply (rule path_loop_exit)
  apply (simp only: body_vars_def is_for_loop_def option.distinct simp_thms if_True list.sel list.map)
  apply (rule iter_exit, simp, simp only: bind_tokens_simps)
   apply (rule path_step, simp add: token_eval release_context_def, (simp only: fst_conv snd_conv)?)
   apply (rule path_stopped)
   apply (auto simp: release_log_def)
  done

lemma parallel_release_unordered:
  "parallel_results token_facts release_context [] release_kernel = [''t2'']"
  "path token_facts release_context released_kernel (\<lambda>v. {}) [] Cut release_log"
  "must_order (release_log ! 0) (release_log ! 2)" "must_order (release_log ! 1) (release_log ! 2)"
  "waits_for (release_log ! 2) = {}"
proof -
  show "parallel_results token_facts release_context [] release_kernel = [''t2'']" by code_simp
qed (rule release_path | simp add: release_log_def must_order_def overlaps_def)+

end
