(* ===== verification/RewritePatterns.thy ===== *)
theory RewritePatterns
  imports Dataflow PassAssign
begin

text \<open>
  \<^verbatim>\<open>_passes/rewrite_patterns.py\<close>: a product of floats that only a sum or a difference uses is
  fused with it. The pass compares operations by identity; here they are compared as they are,
  which is the same for operations with results in single assignment form, and only such
  operations are ever rewritten. A pattern that raises \<^verbatim>\<open>NoMatch\<close> gives None.
\<close>

record Rewrite =
  to_remove :: "operation list"
  to_add :: "operation list"

text \<open>
  \<^verbatim>\<open>MatchContext\<close>: the matches of \<^verbatim>\<open>match_float_mul\<close>, the rewrites so far and the IR context.
  The second pattern has no match that is looked up.
\<close>

record match_context =
  float_muls :: "var \<rightharpoonup> operation"
  rewrite_list :: "Rewrite list"
  ir_ctx :: ir_context

section \<open>The patterns\<close>

definition match_float_mul :: "operation \<Rightarrow> ir_context \<Rightarrow> operation option res" where
  "match_float_mul op c =
     (case op of
        Plain (RawBinaryArithmetic fn rm ftz) opnds rs \<Rightarrow>
          if fn \<noteq> ''mul'' then Inr None
          else
            and_then (result_var rs) (\<lambda>r.
            and_then (get_type r c) (\<lambda>ty.
            and_then (get_dtype ty) (\<lambda>t.
              Inr (if is_unrestricted_float t then Some op else None))))
      | _ \<Rightarrow> Inr None)"

definition effective_rounding :: "PyRoundingMode option \<Rightarrow> PyRoundingMode" where
  "effective_rounding rm = (case rm of None \<Rightarrow> get_default_rounding_mode [] | Some r \<Rightarrow> r)"

text \<open>The operand that is a product, if there is one: its operation, the other operand, and whether it is the right one.\<close>

definition product_operand :: "(var \<rightharpoonup> operation) \<Rightarrow> var \<Rightarrow> var \<Rightarrow> (operation \<times> var \<times> bool) option" where
  "product_operand muls lhs rhs =
     (case muls lhs of
        Some mul_op \<Rightarrow> Some (mul_op, rhs, False)
      | None \<Rightarrow> (case muls rhs of Some mul_op \<Rightarrow> Some (mul_op, lhs, True) | None \<Rightarrow> None))"

definition negate :: "var \<Rightarrow> ir_context \<Rightarrow> (var \<times> operation \<times> ir_context) res" where
  "negate target c =
     (let (negated, c) = make_temp c in
      and_then (get_type target c) (\<lambda>ty.
      and_then (set_type negated ty c) (\<lambda>c.
        Inr (negated, Plain (Unary ''neg'' None False) [(''operand'', OVar target)] [negated], c))))"

definition fma :: "PyRoundingMode \<Rightarrow> bool \<Rightarrow> var \<Rightarrow> var \<Rightarrow> var \<Rightarrow> var \<Rightarrow> operation" where
  "fma rm ftz lhs rhs acc r =
     Plain (FusedMulAdd rm ftz) [(''lhs'', OVar lhs), (''rhs'', OVar rhs), (''acc'', OVar acc)] [r]"

text \<open>The operations for a sum with a product, and the context after them.\<close>

definition fused_ops ::
  "string \<Rightarrow> bool \<Rightarrow> PyRoundingMode \<Rightarrow> bool \<Rightarrow> var \<Rightarrow> var \<Rightarrow> var \<Rightarrow> var list \<Rightarrow> ir_context
   \<Rightarrow> (operation list \<times> ir_context) res" where
  "fused_ops fn rhs_is_mul rm ftz mul_lhs mul_rhs acc rs c =
     (if fn = ''sub'' then
        and_then (negate (if rhs_is_mul then mul_lhs else acc) c) (\<lambda>(negated, neg_op, c).
        and_then (result_var rs) (\<lambda>r.
          Inr ([neg_op, if rhs_is_mul then fma rm ftz negated mul_rhs acc r else fma rm ftz mul_lhs mul_rhs negated r], c)))
      else and_then (result_var rs) (\<lambda>r. Inr ([fma rm ftz mul_lhs mul_rhs acc r], c)))"

definition fuse_mul_addsub :: "operation \<Rightarrow> match_context \<Rightarrow> match_context option res" where
  "fuse_mul_addsub op ctx =
     (case op of
        Plain (RawBinaryArithmetic fn rm ftz) opnds rs \<Rightarrow>
          if fn \<noteq> ''add'' \<and> fn \<noteq> ''sub'' then Inr None
          else
            and_then (var_operand ''lhs'' opnds) (\<lambda>lhs.
            and_then (var_operand ''rhs'' opnds) (\<lambda>rhs.
              case product_operand (float_muls ctx) lhs rhs of
                Some (mul_op, acc, rhs_is_mul) \<Rightarrow>
                  (case mul_op of
                     Plain (RawBinaryArithmetic fn2 rm2 ftz2) opnds2 rs2 \<Rightarrow>
                       if effective_rounding rm \<noteq> effective_rounding rm2 then Inr None
                       else if ftz \<noteq> ftz2 then Inr None
                       else
                         and_then (var_operand ''lhs'' opnds2) (\<lambda>mul_lhs.
                         and_then (var_operand ''rhs'' opnds2) (\<lambda>mul_rhs.
                         and_then (fused_ops fn rhs_is_mul (effective_rounding rm) ftz mul_lhs mul_rhs acc rs (ir_ctx ctx)) (\<lambda>(new_ops, c).
                           Inr (Some (ctx\<lparr>rewrite_list := rewrite_list ctx @ [\<lparr>to_remove = [mul_op, op], to_add = new_ops\<rparr>],
                                          ir_ctx := c\<rparr>)))))
                   | _ \<Rightarrow> Inr None)
              | None \<Rightarrow> Inr None))
      | _ \<Rightarrow> Inr None)"

text \<open>
  One operation of the first loop of the pass: \<^verbatim>\<open>match_float_mul\<close> comes before
  \<^verbatim>\<open>fuse_mul_addsub\<close> in the list of patterns of the class.
\<close>

definition match_op :: "operation \<Rightarrow> match_context \<Rightarrow> match_context res" where
  "match_op op ctx =
     and_then (match_float_mul op (ir_ctx ctx)) (\<lambda>m.
     let ctx = (case m of None \<Rightarrow> ctx | Some op \<Rightarrow> ctx\<lparr>float_muls := (float_muls ctx)(hd (result_vars op) \<mapsto> op)\<rparr>) in
     and_then (fuse_mul_addsub op ctx) (\<lambda>r. Inr (case r of None \<Rightarrow> ctx | Some ctx \<Rightarrow> ctx)))"

section \<open>Selection\<close>

text \<open>\<^verbatim>\<open>uses[name]\<close> after the loop: the operations with the variable among their inputs.\<close>

definition uses_of :: "operation list \<Rightarrow> var \<Rightarrow> operation list" where
  "uses_of ops v = filter (\<lambda>op. v \<in> set (all_inputs op)) (traverse ops)"

definition results_of :: "operation list \<Rightarrow> var list" where
  "results_of ops = concat (map result_vars ops)"

definition deleted_results :: "Rewrite \<Rightarrow> var list" where
  "deleted_results r = filter (\<lambda>v. v \<notin> set (results_of (to_add r))) (results_of (to_remove r))"

definition can_rewrite :: "operation list \<Rightarrow> operation list \<Rightarrow> Rewrite \<Rightarrow> bool" where
  "can_rewrite ops rewritten r \<longleftrightarrow>
     (\<forall>op \<in> set (to_remove r). op \<notin> set rewritten)
     \<and> (\<forall>v \<in> set (deleted_results r). \<forall>op \<in> set (uses_of ops v). op \<in> set (to_remove r))
     \<and> (\<forall>op \<in> set (to_add r). \<forall>v \<in> set (all_inputs op). v \<notin> set (deleted_results r))"

text \<open>The operations that are replaced, with what replaces them, and all operations that go.\<close>

type_synonym replacement = "(operation \<times> operation list) list \<times> operation list"

definition select_rewrite :: "operation list \<Rightarrow> Rewrite \<Rightarrow> replacement \<Rightarrow> replacement" where
  "select_rewrite ops r = (\<lambda>(replacements, rewritten).
     if can_rewrite ops rewritten r
     then ((last (to_remove r), to_add r) # replacements, to_remove r @ rewritten)
     else (replacements, rewritten))"

section \<open>Application\<close>

definition rewrite_op :: "replacement \<Rightarrow> operation \<Rightarrow> operation \<Rightarrow> operation list" where
  "rewrite_op rp op changed =
     (case map_of (fst rp) op of
        None \<Rightarrow> if op \<in> set (snd rp) then [] else [changed]
      | Some new_ops \<Rightarrow> new_ops)"

text \<open>The second operation is the first one with its nested blocks rewritten in place.\<close>

fun apply_rewrites :: "replacement \<Rightarrow> operation list \<Rightarrow> operation list" where
  "apply_rewrites rp [] = []"
| "apply_rewrites rp (Loop i rng inits params body rs # ops) =
     rewrite_op rp (Loop i rng inits params body rs) (Loop i rng inits params (apply_rewrites rp body) rs) @ apply_rewrites rp ops"
| "apply_rewrites rp (IfElse i c t e rs # ops) =
     rewrite_op rp (IfElse i c t e rs) (IfElse i c (apply_rewrites rp t) (apply_rewrites rp e) rs) @ apply_rewrites rp ops"
| "apply_rewrites rp (Reduction i k xs params body rs # ops) =
     rewrite_op rp (Reduction i k xs params body rs) (Reduction i k xs params (apply_rewrites rp body) rs) @ apply_rewrites rp ops"
| "apply_rewrites rp (op # ops) = rewrite_op rp op op @ apply_rewrites rp ops"

definition rewrite_patterns :: "operation list \<Rightarrow> ir_context \<Rightarrow> (operation list \<times> ir_context) res" where
  "rewrite_patterns ops c =
     and_then (fold_res match_op (traverse ops) \<lparr>float_muls = Map.empty, rewrite_list = [], ir_ctx = c\<rparr>) (\<lambda>ctx.
       Inr (apply_rewrites (fold (select_rewrite ops) (rewrite_list ctx) ([], [])) ops, ir_ctx ctx))"

end
