(* ===== verification/RewriteSim.thy ===== *)
theory RewriteSim
  imports RewritePatterns
begin

text \<open>
  Replacing a sum by a fused operation keeps the runs on every machine whose fused operation
  computes what the product and the sum do.
\<close>

section \<open>Machines\<close>

abbreviation binary_args :: "'v \<Rightarrow> 'v \<Rightarrow> (string \<times> 'v operand_val) list" where
  "binary_args x y \<equiv> [(''lhs'', Val x), (''rhs'', Val y)]"

abbreviation fma_args :: "'v \<Rightarrow> 'v \<Rightarrow> 'v \<Rightarrow> (string \<times> 'v operand_val) list" where
  "fma_args x y z \<equiv> [(''lhs'', Val x), (''rhs'', Val y), (''acc'', Val z)]"

text \<open>The product and the negation of a machine have one value and leave the memory alone.\<close>

definition product :: "('v, 'm) machine \<Rightarrow> PyRoundingMode option \<Rightarrow> bool \<Rightarrow> ir_type option \<Rightarrow> 'v \<Rightarrow> 'v \<Rightarrow> 'v \<Rightarrow> bool" where
  "product M rm ftz ty x y p \<longleftrightarrow> (\<forall>m. run_op M (RawBinaryArithmetic ''mul'' rm ftz) [ty] (binary_args x y) m = ([p], m))"

definition negation :: "('v, 'm) machine \<Rightarrow> ir_type option \<Rightarrow> 'v \<Rightarrow> 'v \<Rightarrow> bool" where
  "negation M ty x y \<longleftrightarrow> (\<forall>m. run_op M (Unary ''neg'' None False) [ty] [(''operand'', Val x)] m = ([y], m))"

text \<open>
  Contraction: on floats of one type, a fused operation computes what a product and a sum with
  it compute, when both round the same way; a difference is a sum with a negated operand.
\<close>

definition float_type :: "ir_type option \<Rightarrow> bool" where
  "float_type ty \<longleftrightarrow> (\<exists>t shape. ty = Some (TileTy t shape) \<and> is_unrestricted_float t)"

definition contracts :: "('v, 'm) machine \<Rightarrow> bool" where
  "contracts M \<longleftrightarrow>
     (\<forall>ty rm rm2 ftz x y z. float_type ty \<longrightarrow> effective_rounding rm = effective_rounding rm2 \<longrightarrow>
        (\<exists>p. product M rm2 ftz ty x y p
           \<and> (\<forall>m. run_op M (RawBinaryArithmetic ''add'' rm ftz) [ty] (binary_args p z) m =
                   run_op M (FusedMulAdd (effective_rounding rm) ftz) [ty] (fma_args x y z) m)
           \<and> (\<forall>m. run_op M (RawBinaryArithmetic ''add'' rm ftz) [ty] (binary_args z p) m =
                   run_op M (FusedMulAdd (effective_rounding rm) ftz) [ty] (fma_args x y z) m)
           \<and> (\<exists>z'. negation M ty z z' \<and> (\<forall>m. run_op M (RawBinaryArithmetic ''sub'' rm ftz) [ty] (binary_args p z) m =
                   run_op M (FusedMulAdd (effective_rounding rm) ftz) [ty] (fma_args x y z') m))
           \<and> (\<exists>x'. negation M ty x x' \<and> (\<forall>m. run_op M (RawBinaryArithmetic ''sub'' rm ftz) [ty] (binary_args z p) m =
                   run_op M (FusedMulAdd (effective_rounding rm) ftz) [ty] (fma_args x' y z) m))))"

section \<open>What the selected rewrites are\<close>

abbreviation binop :: "string \<Rightarrow> PyRoundingMode option \<Rightarrow> bool \<Rightarrow> var \<Rightarrow> var \<Rightarrow> var \<Rightarrow> operation" where
  "binop fn rm ftz x y r \<equiv> Plain (RawBinaryArithmetic fn rm ftz) [(''lhs'', OVar x), (''rhs'', OVar y)] [r]"

text \<open>The results of the products that go.\<close>

definition gone :: "replacement \<Rightarrow> var set" where
  "gone rp = {p. \<exists>rm ftz x y. binop ''mul'' rm ftz x y p \<in> set (snd rp)}"

text \<open>
  The four ways to fuse a product \<open>x * y\<close> with result \<open>p\<close> into the operation with result
  \<open>r\<close>; the types are those after the pass, and the new variable \<open>w\<close> is none of the program.
\<close>

definition fused_as ::
  "(var \<rightharpoonup> ir_type) \<Rightarrow> var set \<Rightarrow> PyRoundingMode option \<Rightarrow> bool \<Rightarrow> var \<Rightarrow> var \<Rightarrow> var \<Rightarrow> var \<Rightarrow> var \<Rightarrow> var
   \<Rightarrow> operation \<Rightarrow> operation list \<Rightarrow> bool" where
  "fused_as T N rm ftz x y p z r w op news \<longleftrightarrow>
     op = binop ''add'' rm ftz p z r \<and> news = [fma (effective_rounding rm) ftz x y z r]
     \<or> op = binop ''add'' rm ftz z p r \<and> news = [fma (effective_rounding rm) ftz x y z r]
     \<or> w \<notin> N \<and> T w = T r \<and> op = binop ''sub'' rm ftz p z r \<and> news = [Plain (Unary ''neg'' None False) [(''operand'', OVar z)] [w],
                                                 fma (effective_rounding rm) ftz x y w r]
     \<or> w \<notin> N \<and> T w = T r \<and> op = binop ''sub'' rm ftz z p r \<and> news = [Plain (Unary ''neg'' None False) [(''operand'', OVar x)] [w],
                                                 fma (effective_rounding rm) ftz w y z r]"

text \<open>A fusion with a product that goes, of operands that stay.\<close>

definition fusion :: "(var \<rightharpoonup> ir_type) \<Rightarrow> var set \<Rightarrow> replacement \<Rightarrow> operation \<Rightarrow> operation list \<Rightarrow> bool" where
  "fusion T N rp op news \<longleftrightarrow>
     (\<exists>rm rm2 ftz x y p z r w. binop ''mul'' rm2 ftz x y p \<in> set (snd rp)
        \<and> effective_rounding rm = effective_rounding rm2 \<and> float_type (T r)
        \<and> T x = T r \<and> T p = T r \<and> T z = T r \<and> z \<notin> gone rp \<and> r \<notin> gone rp \<and>
        fused_as T N rm ftz x y p z r w op news)"

text \<open>The variables an operation defines outside its nested blocks.\<close>

fun op_defs :: "operation \<Rightarrow> var list" where
  "op_defs (Loop i rng inits params body rs) = params @ rs"
| "op_defs (Reduction i k xs params body rs) = params @ rs"
| "op_defs op = result_vars op"

definition fits_rewrite :: "(var \<rightharpoonup> ir_type) \<Rightarrow> var set \<Rightarrow> replacement \<Rightarrow> operation \<Rightarrow> bool" where
  "fits_rewrite T N rp op \<longleftrightarrow>
     (case map_of (fst rp) op of
        Some news \<Rightarrow> fusion T N rp op news
      | None \<Rightarrow>
          if op \<in> set (snd rp)
          then \<exists>rm ftz x y p. op = binop ''mul'' rm ftz x y p \<and> float_type (T p) \<and> {x, y} \<inter> gone rp = {}
          else (set (all_inputs op) \<union> set (op_defs op)) \<inter> gone rp = {})"

section \<open>Environments\<close>

text \<open>
  Both environments agree except on the products that are gone, and such a product still is
  the product of its operands.
\<close>

definition contracted ::
  "('v, 'm) machine \<Rightarrow> (var \<rightharpoonup> ir_type) \<Rightarrow> replacement \<Rightarrow> var set \<Rightarrow> (var \<rightharpoonup> 'v) \<Rightarrow> (var \<rightharpoonup> 'v) \<Rightarrow> bool" where
  "contracted M T rp S env env' \<longleftrightarrow> S \<subseteq> dom env \<and> (\<forall>v \<in> S - gone rp. env' v = env v)
     \<and> (\<forall>rm ftz x y p. binop ''mul'' rm ftz x y p \<in> set (snd rp) \<longrightarrow> p \<in> S \<longrightarrow>
          x \<in> S - gone rp \<and> y \<in> S - gone rp
          \<and> (\<exists>vx vy vp. env x = Some vx \<and> env y = Some vy \<and> env p = Some vp \<and> product M rm ftz (T p) vx vy vp))"

lemma contracted_fact:
  assumes "contracted M T rp S env env'" and "binop ''mul'' rm ftz x y p \<in> set (snd rp)" and "p \<in> S"
  shows "\<exists>vx vy vp. x \<in> S - gone rp \<and> y \<in> S - gone rp \<and> env x = Some vx \<and> env y = Some vy \<and> env p = Some vp
    \<and> env' x = Some vx \<and> env' y = Some vy \<and> product M rm ftz (T p) vx vy vp"
proof -
  have "x \<in> S - gone rp \<and> y \<in> S - gone rp
      \<and> (\<exists>vx vy vp. env x = Some vx \<and> env y = Some vy \<and> env p = Some vp \<and> product M rm ftz (T p) vx vy vp)"
    using assms unfolding contracted_def by blast
  moreover have "\<forall>v \<in> S - gone rp. env' v = env v" using assms(1) unfolding contracted_def by blast
  ultimately show ?thesis by auto
qed

lemma contracted_value: "contracted M T rp S env env' \<Longrightarrow> v \<in> S \<Longrightarrow> v \<notin> gone rp \<Longrightarrow> env' v = env v \<and> env v \<noteq> None"
  by (auto simp: contracted_def)

lemma contracted_values: "contracted M T rp S env env' \<Longrightarrow> set vs \<subseteq> S \<Longrightarrow> set vs \<inter> gone rp = {} \<Longrightarrow> map env' vs = map env vs"
  using contracted_value by (fastforce intro: map_cong)

lemma contracted_operands:
  assumes "contracted M T rp S env env'" and "set (operands_vars opnds) \<subseteq> S" and "set (operands_vars opnds) \<inter> gone rp = {}"
  shows "eval_operands env' opnds = eval_operands env opnds"
proof -
  have "eval_operand env' x = eval_operand env x" if "(n, x) \<in> set opnds" for n x
  proof -
    have "set (operand_vars x) \<subseteq> set (operands_vars opnds)" using that by (force simp: operands_vars_def)
    then have s: "set (operand_vars x) \<subseteq> S" "set (operand_vars x) \<inter> gone rp = {}" using assms(2,3) by blast+
    from contracted_values [OF assms(1) s] show ?thesis
      by (cases x) (simp_all only: eval_operand.simps operand_vars.simps list.map list.inject refl simp_thms)
  qed
  then show ?thesis unfolding eval_operands_def by (intro arg_cong [where f = those]) auto
qed

lemma contracted_update:
  assumes c: "contracted M T rp S env env'" and fresh: "v \<notin> S" "v \<notin> gone rp" and e: "e = env(v \<mapsto> a)" "e' v = Some a" "\<forall>u \<in> S. e' u = env' u"
  shows "contracted M T rp (insert v S) e e'"
proof -
  have "binop ''mul'' rm ftz x y p \<in> set (snd rp) \<Longrightarrow> p \<in> insert v S \<Longrightarrow>
      x \<in> insert v S - gone rp \<and> y \<in> insert v S - gone rp
      \<and> (\<exists>vx vy vp. e x = Some vx \<and> e y = Some vy \<and> e p = Some vp \<and> product M rm ftz (T p) vx vy vp)" for rm ftz x y p
  proof -
    assume m: "binop ''mul'' rm ftz x y p \<in> set (snd rp)" "p \<in> insert v S"
    then have "p \<in> gone rp" by (auto simp: gone_def)
    then have "p \<in> S" using m(2) fresh(2) by auto
    from contracted_fact [OF c m(1) this] show ?thesis using fresh \<open>p \<in> S\<close> by (auto simp: e(1))
  qed
  moreover have "insert v S \<subseteq> dom e" using c by (auto simp: contracted_def e(1))
  moreover have "\<forall>u \<in> insert v S - gone rp. e' u = e u" using c e fresh(1) by (auto simp: contracted_def)
  ultimately show ?thesis unfolding contracted_def by blast
qed

lemma contracted_bind:
  assumes "contracted M T rp S env env'" and "bind_vars env rs vs = Some e" and "S \<inter> set rs = {}" and "set rs \<inter> gone rp = {}" and "distinct rs"
  shows "\<exists>e'. bind_vars env' rs vs = Some e' \<and> contracted M T rp (S \<union> set rs) e e'"
proof -
  have l: "length rs = length vs" and e: "e = env ++ map_of (zip rs vs)"
    using assms(2) by (auto simp: bind_vars_def split: if_splits)
  let ?e' = "env' ++ map_of (zip rs vs)"
  have out: "map_of (zip rs vs) v = None" if "v \<in> S" for v
    using that l assms(3) by (auto simp: map_of_zip_is_None)
  have inside: "\<exists>y. map_of (zip rs vs) v = Some y" if "v \<in> set rs" for v
    using that l by (simp add: map_of_zip_is_Some)
  have old: "e v = env v" "?e' v = env' v" if "v \<in> S" for v using out [OF that] by (simp_all add: e map_add_def)
  have new: "e v = ?e' v \<and> e v \<noteq> None" if "v \<in> set rs" for v using inside [OF that] by (auto simp: e map_add_def)
  have "contracted M T rp (S \<union> set rs) e ?e'"
    unfolding contracted_def
  proof (intro conjI allI impI)
    show "S \<union> set rs \<subseteq> dom e"
    proof
      fix v assume "v \<in> S \<union> set rs"
      then show "v \<in> dom e" using assms(1) old(1) [of v] new [of v] by (auto simp: contracted_def)
    qed
    show "\<forall>v \<in> S \<union> set rs - gone rp. ?e' v = e v"
    proof
      fix v assume v: "v \<in> S \<union> set rs - gone rp"
      show "?e' v = e v"
      proof (cases "v \<in> set rs")
        case True
        then show ?thesis using new by simp
      next
        case False
        then have "v \<in> S" "v \<notin> gone rp" using v by auto
        then show ?thesis using old contracted_value [OF assms(1)] by simp
      qed
    qed
    fix rm ftz x y p assume m: "binop ''mul'' rm ftz x y p \<in> set (snd rp)" "p \<in> S \<union> set rs"
    have "p \<in> gone rp" using m(1) unfolding gone_def by blast
    then have "p \<in> S" using assms(4) m(2) by blast
    from contracted_fact [OF assms(1) m(1) this] obtain vx vy vp where f: "x \<in> S - gone rp" "y \<in> S - gone rp"
      "env x = Some vx" "env y = Some vy" "env p = Some vp" "product M rm ftz (T p) vx vy vp" by blast
    show "x \<in> S \<union> set rs - gone rp" "y \<in> S \<union> set rs - gone rp" using f(1,2) by auto
    show "\<exists>vx vy vp. e x = Some vx \<and> e y = Some vy \<and> e p = Some vp \<and> product M rm ftz (T p) vx vy vp"
      using f old(1) \<open>p \<in> S\<close> by auto
  qed
  then show ?thesis using l by (simp add: bind_vars_def)
qed

section \<open>The simulation\<close>

lemma contracts_sum:
  assumes "contracts M" and "float_type ty" and "effective_rounding rm = effective_rounding rm2" and "product M rm2 ftz ty x y p"
  shows "run_op M (RawBinaryArithmetic ''add'' rm ftz) [ty] (binary_args p z) m =
      run_op M (FusedMulAdd (effective_rounding rm) ftz) [ty] (fma_args x y z) m"
    and "run_op M (RawBinaryArithmetic ''add'' rm ftz) [ty] (binary_args z p) m =
      run_op M (FusedMulAdd (effective_rounding rm) ftz) [ty] (fma_args x y z) m"
    and "\<exists>z'. negation M ty z z' \<and> (\<forall>m. run_op M (RawBinaryArithmetic ''sub'' rm ftz) [ty] (binary_args p z) m =
      run_op M (FusedMulAdd (effective_rounding rm) ftz) [ty] (fma_args x y z') m)"
    and "\<exists>x'. negation M ty x x' \<and> (\<forall>m. run_op M (RawBinaryArithmetic ''sub'' rm ftz) [ty] (binary_args z p) m =
      run_op M (FusedMulAdd (effective_rounding rm) ftz) [ty] (fma_args x' y z) m)"
proof -
  have one: "p' = p" if "product M rm2 ftz ty x y p'" for p'
    using that assms(4) by (simp add: product_def)
  obtain p' where p': "product M rm2 ftz ty x y p'"
    "\<forall>m. run_op M (RawBinaryArithmetic ''add'' rm ftz) [ty] (binary_args p' z) m =
       run_op M (FusedMulAdd (effective_rounding rm) ftz) [ty] (fma_args x y z) m"
    "\<forall>m. run_op M (RawBinaryArithmetic ''add'' rm ftz) [ty] (binary_args z p') m =
       run_op M (FusedMulAdd (effective_rounding rm) ftz) [ty] (fma_args x y z) m"
    "\<exists>z'. negation M ty z z' \<and> (\<forall>m. run_op M (RawBinaryArithmetic ''sub'' rm ftz) [ty] (binary_args p' z) m =
       run_op M (FusedMulAdd (effective_rounding rm) ftz) [ty] (fma_args x y z') m)"
    "\<exists>x'. negation M ty x x' \<and> (\<forall>m. run_op M (RawBinaryArithmetic ''sub'' rm ftz) [ty] (binary_args z p') m =
       run_op M (FusedMulAdd (effective_rounding rm) ftz) [ty] (fma_args x' y z) m)"
    using assms(1-3) unfolding contracts_def by meson
  note p'(2-5) [unfolded one [OF p'(1)]]
  then show "run_op M (RawBinaryArithmetic ''add'' rm ftz) [ty] (binary_args p z) m =
      run_op M (FusedMulAdd (effective_rounding rm) ftz) [ty] (fma_args x y z) m"
    and "run_op M (RawBinaryArithmetic ''add'' rm ftz) [ty] (binary_args z p) m =
      run_op M (FusedMulAdd (effective_rounding rm) ftz) [ty] (fma_args x y z) m"
    and "\<exists>z'. negation M ty z z' \<and> (\<forall>m. run_op M (RawBinaryArithmetic ''sub'' rm ftz) [ty] (binary_args p z) m =
      run_op M (FusedMulAdd (effective_rounding rm) ftz) [ty] (fma_args x y z') m)"
    and "\<exists>x'. negation M ty x x' \<and> (\<forall>m. run_op M (RawBinaryArithmetic ''sub'' rm ftz) [ty] (binary_args z p) m =
      run_op M (FusedMulAdd (effective_rounding rm) ftz) [ty] (fma_args x' y z) m)"
    by blast+
qed

lemma exec_binop:
  "env x = Some vx \<Longrightarrow> env y = Some vy \<Longrightarrow>
   exec M n (binop fn rm ftz x y r # ops) env m =
     (case run_op M (RawBinaryArithmetic fn rm ftz) [types M r] (binary_args vx vy) m of (outs, m') \<Rightarrow>
        Option.bind (bind_vars env [r] outs) (\<lambda>e. exec M n ops e m'))"
  by (simp add: eval_operands_def)

lemma exec_fma:
  "env x = Some vx \<Longrightarrow> env y = Some vy \<Longrightarrow> env z = Some vz \<Longrightarrow>
   exec M n (fma rm ftz x y z r # ops) env m =
     (case run_op M (FusedMulAdd rm ftz) [types M r] (fma_args vx vy vz) m of (outs, m') \<Rightarrow>
        Option.bind (bind_vars env [r] outs) (\<lambda>e. exec M n ops e m'))"
  by (simp add: eval_operands_def fma_def)

lemma exec_neg:
  "env x = Some vx \<Longrightarrow> negation M (types M w) vx y \<Longrightarrow>
   exec M n (Plain (Unary ''neg'' None False) [(''operand'', OVar x)] [w] # ops) env m = exec M n ops (env(w \<mapsto> y)) m"
  by (simp add: eval_operands_def negation_def bind_vars_def)

lemma contracted_new:
  assumes "contracted M T rp S env env'" and "w \<notin> S"
  shows "contracted M T rp S env (env'(w \<mapsto> y))"
  using assms unfolding contracted_def by auto

text \<open>The fused operations run like the operation that they replace.\<close>

lemma fused_runs:
  assumes M: "contracts M" "M' = M\<lparr>types := T\<rparr>" "\<forall>v \<in> N. types M v = T v"
    and fu: "fusion T N rp op news" and S: "S \<subseteq> N" and sc: "scoped S (op # ops)" and r: "set (op_defs op) \<subseteq> N"
    and c: "contracted M T rp S env env'"
  shows "\<exists>outs m1 e1. exec M n (op # ops) env m = Option.bind (bind_vars env (op_defs op) outs) (\<lambda>e. exec M n ops e m1)
    \<and> exec M' n (news @ ops') env' m = Option.bind (bind_vars e1 (op_defs op) outs) (\<lambda>e. exec M' n ops' e m1)
    \<and> contracted M T rp S env e1 \<and> length (op_defs op) = 1 \<and> set (op_defs op) \<inter> gone rp = {}"
proof -
  obtain rm rm2 ftz x y p z r w where f: "binop ''mul'' rm2 ftz x y p \<in> set (snd rp)"
      "effective_rounding rm = effective_rounding rm2" "float_type (T r)"
      "T x = T r" "T p = T r" "T z = T r" "z \<notin> gone rp" "r \<notin> gone rp"
    and alt: "fused_as T N rm ftz x y p z r w op news"
    using fu unfolding fusion_def by blast
  note alt = alt [unfolded fused_as_def]
  have pz: "p \<in> S" "z \<in> S" using sc alt by (auto simp: operands_vars_def)
  have defs: "op_defs op = [r]" using alt by auto
  have rN: "r \<in> N" using r defs by simp
  obtain vx vy vp where v: "x \<in> S" "y \<in> S" "env x = Some vx" "env y = Some vy" "env p = Some vp" "env' x = Some vx" "env' y = Some vy"
    "product M rm2 ftz (T p) vx vy vp" using contracted_fact [OF c f(1) pz(1)] by auto
  obtain vz where z: "env z = Some vz" "env' z = Some vz" using contracted_value [OF c pz(2) f(7)] by auto
  have ty: "types M r = T r" using M(3) rN by blast
  have w: "w \<notin> N \<Longrightarrow> w \<notin> S" "w \<notin> N \<Longrightarrow> w \<noteq> x" "w \<notin> N \<Longrightarrow> w \<noteq> y" "w \<notin> N \<Longrightarrow> w \<noteq> z" using S v(1,2) pz(2) by auto
  note law = contracts_sum [OF M(1) f(3,2) v(8) [unfolded f(5)]]
  have run': "run_op M' = run_op M" "types M' = T" by (simp_all add: M(2))
  have neg': "negation M' ty a b = negation M ty a b" for ty a b by (simp add: negation_def run')
  let ?fma = "\<lambda>x z. run_op M (FusedMulAdd (effective_rounding rm) ftz) [T r] (fma_args x vy z) m"
  have result: "\<exists>outs m1 e1. exec M n (op # ops) env m = Option.bind (bind_vars env [r] outs) (\<lambda>e. exec M n ops e m1)
      \<and> exec M' n (news @ ops') env' m = Option.bind (bind_vars e1 [r] outs) (\<lambda>e. exec M' n ops' e m1)
      \<and> contracted M T rp S env e1"
    if "exec M n (op # ops) env m = (case ?fma a b of (outs, m') \<Rightarrow> Option.bind (bind_vars env [r] outs) (\<lambda>e. exec M n ops e m'))"
      "exec M' n (news @ ops') env' m = (case ?fma a b of (outs, m') \<Rightarrow> Option.bind (bind_vars e1 [r] outs) (\<lambda>e. exec M' n ops' e m'))"
      "contracted M T rp S env e1" for a b e1
    using that by (cases "?fma a b") auto
  from alt have "\<exists>outs m1 e1. exec M n (op # ops) env m = Option.bind (bind_vars env [r] outs) (\<lambda>e. exec M n ops e m1)
      \<and> exec M' n (news @ ops') env' m = Option.bind (bind_vars e1 [r] outs) (\<lambda>e. exec M' n ops' e m1)
      \<and> contracted M T rp S env e1"
  proof (elim disjE conjE)
    assume op: "op = binop ''add'' rm ftz p z r" "news = [fma (effective_rounding rm) ftz x y z r]"
    show ?thesis
      by (rule result [of vx vz env'])
        (simp_all only: op append_Cons append_Nil exec_binop [where env = env and x = p and y = z, OF v(5) z(1)] exec_fma [where env = env' and x = x and y = y and z = z, OF v(6,7) z(2)] ty law(1) run' c)
  next
    assume op: "op = binop ''add'' rm ftz z p r" "news = [fma (effective_rounding rm) ftz x y z r]"
    show ?thesis
      by (rule result [of vx vz env'])
        (simp_all only: op append_Cons append_Nil exec_binop [where env = env and x = z and y = p, OF z(1) v(5)] exec_fma [where env = env' and x = x and y = y and z = z, OF v(6,7) z(2)] ty law(2) run' c)
  next
    assume wN: "w \<notin> N" "T w = T r" and op: "op = binop ''sub'' rm ftz p z r" "news = [Plain (Unary ''neg'' None False) [(''operand'', OVar z)] [w],
      fma (effective_rounding rm) ftz x y w r]"
    obtain z' where z': "negation M (T r) vz z'" "\<forall>m. run_op M (RawBinaryArithmetic ''sub'' rm ftz) [T r] (binary_args vp vz) m =
      run_op M (FusedMulAdd (effective_rounding rm) ftz) [T r] (fma_args vx vy z') m" using law(3) by blast
    have n: "negation M' (types M' w) vz z'" using z'(1) by (simp add: neg' run' wN(2))
    let ?e = "env'(w \<mapsto> z')"
    have e: "?e x = Some vx" "?e y = Some vy" "?e w = Some z'" using v w [OF wN(1)] by simp_all
    show ?thesis
      by (rule result [of vx z' ?e])
        (simp_all only: op append_Cons append_Nil exec_binop [where env = env and x = p and y = z, OF v(5) z(1)] exec_neg [where M = M' and w = w and env = env' and x = z, OF z(2) n] exec_fma [where env = ?e and x = x and y = y and z = w, OF e] ty z'(2) run'
          contracted_new [OF c w(1) [OF wN(1)]])
  next
    assume wN: "w \<notin> N" "T w = T r" and op: "op = binop ''sub'' rm ftz z p r" "news = [Plain (Unary ''neg'' None False) [(''operand'', OVar x)] [w],
      fma (effective_rounding rm) ftz w y z r]"
    obtain x' where x': "negation M (T r) vx x'" "\<forall>m. run_op M (RawBinaryArithmetic ''sub'' rm ftz) [T r] (binary_args vz vp) m =
      run_op M (FusedMulAdd (effective_rounding rm) ftz) [T r] (fma_args x' vy vz) m" using law(4) by blast
    have n: "negation M' (types M' w) vx x'" using x'(1) by (simp add: neg' run' wN(2))
    let ?e = "env'(w \<mapsto> x')"
    have e: "?e w = Some x'" "?e y = Some vy" "?e z = Some vz" using v z w [OF wN(1)] by simp_all
    show ?thesis
      by (rule result [of x' vz ?e])
        (simp_all only: op append_Cons append_Nil exec_binop [where env = env and x = z and y = p, OF z(1) v(5)] exec_neg [where M = M' and w = w and env = env' and x = x, OF v(6) n] exec_fma [where env = ?e and x = w and y = y and z = z, OF e] ty x'(2) run'
          contracted_new [OF c w(1) [OF wN(1)]])
  qed
  then show ?thesis using f(8) by (simp add: defs)
qed

lemma fusion_plain: "fusion T N rp op news \<Longrightarrow> \<exists>cl opnds rs. op = Plain cl opnds rs"
  unfolding fusion_def fused_as_def by blast

text \<open>Only operations without nested blocks are rewritten, and jumps are not.\<close>

lemma fits_control:
  assumes "fits_rewrite T N rp op" and "\<And>cl opnds rs. op \<noteq> Plain cl opnds rs"
  shows "rewrite_op rp op x = [x]" and "set (all_inputs op) \<inter> gone rp = {}" and "set (op_defs op) \<inter> gone rp = {}"
proof -
  have n: "map_of (fst rp) op = None"
  proof (cases "map_of (fst rp) op")
    case (Some news)
    then have "fusion T N rp op news" using assms(1) by (simp add: fits_rewrite_def)
    from fusion_plain [OF this] show ?thesis using assms(2) by blast
  qed
  moreover have out: "op \<notin> set (snd rp)" using assms n by (auto simp: fits_rewrite_def split: if_splits)
  ultimately show "rewrite_op rp op x = [x]" by (simp add: rewrite_op_def)
  show "set (all_inputs op) \<inter> gone rp = {}" "set (op_defs op) \<inter> gone rp = {}"
    using assms(1) n out by (auto simp: fits_rewrite_def)
qed

lemma contracted_continue:
  assumes "contracted M T rp S env env'" and "S \<inter> set xs = {}" and "set xs \<inter> gone rp = {}" and "distinct xs"
    and "\<And>e e'. contracted M T rp (S \<union> set xs) e e' \<Longrightarrow> forget (g e') = forget (h e)"
  shows "forget (Option.bind (bind_vars env' xs vs) g) = forget (Option.bind (bind_vars env xs vs) h)"
proof (cases "bind_vars env xs vs")
  case None
  then show ?thesis using bind_vars_None [of env xs vs env'] by simp
next
  case (Some e)
  from contracted_bind [OF assms(1) Some assms(2-4)] assms(5) show ?thesis by (auto simp: Some)
qed

lemma contracted_loop:
  assumes c: "contracted M T rp S env env'" and ins: "set (range_vars rng) \<subseteq> S" "set inits \<subseteq> S"
    "(set (range_vars rng) \<union> set inits) \<inter> gone rp = {}"
    and ps: "S \<inter> set params = {}" "set params \<inter> gone rp = {}" "distinct params"
    and body: "\<And>e e' m. contracted M T rp (S \<union> set params) e e' \<Longrightarrow> forget (body' e' m) = forget (body e m)"
    and M': "range_values M' = range_values M"
  shows "run_loop M' n rng inits params body' env' m = run_loop M n rng inits params body env m"
proof -
  define b where "b = (\<lambda>vs m. Option.bind (bind_vars env params vs) (\<lambda>e. body e m))"
  define b' where "b' = (\<lambda>vs m. Option.bind (bind_vars env' params vs) (\<lambda>e. body' e m))"
  have "forget (b' vs m) = forget (b vs m)" for vs m
    unfolding b_def b'_def by (rule contracted_continue [OF c ps body])
  then have w: "while_iterations b' k vs m = while_iterations b k vs m"
    and fo: "for_iterations b' is vs m = for_iterations b is vs m" for k vs m "is"
    by (rule while_cong, rule for_cong)
  have "map env' inits = map env inits" using ins by (intro contracted_values [OF c]) auto
  then have "those (map env' inits) = those (map env inits)" by (rule arg_cong)
  moreover have "env' v = env v" if "v \<in> set (range_vars rng)" for v
    using contracted_value [OF c] that ins by blast
  ultimately show ?thesis
    unfolding run_loop_def b_def [symmetric] b'_def [symmetric]
    by (cases rng) (auto simp: range_vars_def w fo Let_def M')
qed

lemma rewrite_sim:
  assumes M: "contracts M" "M' = M\<lparr>types := T\<rparr>" "\<forall>v \<in> N. types M v = T v"
    and one: "\<And>rm ftz x y rm' ftz' x' y' p. binop ''mul'' rm ftz x y p \<in> set (snd rp) \<Longrightarrow>
      binop ''mul'' rm' ftz' x' y' p \<in> set (snd rp) \<Longrightarrow> rm' = rm \<and> ftz' = ftz \<and> x' = x \<and> y' = y"
  shows "scoped S ops \<Longrightarrow> distinct (all_defs ops) \<Longrightarrow> S \<inter> set (all_defs ops) = {} \<Longrightarrow> S \<union> set (all_defs ops) \<subseteq> N
    \<Longrightarrow> \<forall>op \<in> set (traverse ops). fits_rewrite T N rp op \<Longrightarrow> contracted M T rp S env env'
    \<Longrightarrow> forget (exec M' n (apply_rewrites rp ops) env' m) = forget (exec M n ops env m)"
proof (induction S ops arbitrary: env env' m rule: scoped.induct)
  case (1 S)
  then show ?case by (simp add: forget_def)
next
  case (2 S cl opnds rs ops)
  let ?op = "Plain cl opnds rs"
  have fit: "fits_rewrite T N rp ?op" using "2.prems"(5) by simp
  have rest: "forget (exec M' n (apply_rewrites rp ops) e' m) = forget (exec M n ops e m)"
    if "contracted M T rp (S \<union> set rs) e e'" for e e' m
    using that "2.prems" by (intro "2.IH") auto
  have rs: "S \<inter> set rs = {}" "distinct rs" "set rs \<subseteq> N" using "2.prems" by auto
  show ?case
  proof (cases "map_of (fst rp) ?op")
    case (Some news)
    then have fu: "fusion T N rp ?op news" using fit by (simp add: fits_rewrite_def)
    have S: "S \<subseteq> N" using "2.prems"(4) by auto
    obtain outs m1 e1 where f: "exec M n (?op # ops) env m = Option.bind (bind_vars env rs outs) (\<lambda>e. exec M n ops e m1)"
      "exec M' n (news @ apply_rewrites rp ops) env' m = Option.bind (bind_vars e1 rs outs) (\<lambda>e. exec M' n (apply_rewrites rp ops) e m1)"
      "contracted M T rp S env e1" "set rs \<inter> gone rp = {}"
      using fused_runs [OF M fu S "2.prems"(1) _ "2.prems"(6), of n m "apply_rewrites rp ops"] rs(3) by auto
    have "forget (Option.bind (bind_vars e1 rs outs) (\<lambda>e. exec M' n (apply_rewrites rp ops) e m1))
        = forget (Option.bind (bind_vars env rs outs) (\<lambda>e. exec M n ops e m1))"
      by (rule contracted_continue [OF f(3) rs(1) f(4) rs(2)]) (rule rest)
    then show ?thesis by (simp only: apply_rewrites.simps rewrite_op_def Some option.case f(1,2))
  next
    case None
    show ?thesis
    proof (cases "?op \<in> set (snd rp)")
      case True
      then obtain rm ftz x y p where op: "?op = binop ''mul'' rm ftz x y p" "float_type (T p)" "x \<notin> gone rp" "y \<notin> gone rp"
        using fit None by (auto simp: fits_rewrite_def)
      then have d: "cl = RawBinaryArithmetic ''mul'' rm ftz" "opnds = [(''lhs'', OVar x), (''rhs'', OVar y)]" "rs = [p]" by auto
      have xy: "x \<in> S" "y \<in> S" using "2.prems"(1) by (auto simp: d operands_vars_def)
      then obtain vx vy where v: "env x = Some vx" "env y = Some vy" using contracted_value [OF "2.prems"(6)] op(3,4) by blast
      obtain vp where vp: "product M rm ftz (T p) vx vy vp"
        using M(1) op(2) unfolding contracts_def by blast
      have p: "p \<in> gone rp" "p \<notin> S" "types M p = T p" using True rs M(3) op(1) by (auto simp: gone_def d)
      let ?e = "env(p \<mapsto> vp)"
      have "contracted M T rp (S \<union> set rs) ?e env'"
        unfolding contracted_def
      proof (intro conjI allI impI)
        show "S \<union> set rs \<subseteq> dom ?e" using "2.prems"(6) by (auto simp: contracted_def d)
        show "\<forall>v \<in> S \<union> set rs - gone rp. env' v = ?e v" using "2.prems"(6) p by (auto simp: contracted_def d)
        fix rm2 ftz2 x2 y2 p2 assume b: "binop ''mul'' rm2 ftz2 x2 y2 p2 \<in> set (snd rp)" "p2 \<in> S \<union> set rs"
        have fact: "x2 \<in> S - gone rp \<and> y2 \<in> S - gone rp
            \<and> (\<exists>vx vy vp. ?e x2 = Some vx \<and> ?e y2 = Some vy \<and> ?e p2 = Some vp \<and> product M rm2 ftz2 (T p2) vx vy vp)"
        proof (cases "p2 = p")
          case same: True
          have "rm2 = rm \<and> ftz2 = ftz \<and> x2 = x \<and> y2 = y" using one [of rm ftz x y p] b(1) True op(1) same by simp
          then show ?thesis using xy op v vp p(2) by (auto simp: d same)
        next
          case False
          then have "p2 \<in> S" using b(2) by (simp add: d)
          from contracted_fact [OF "2.prems"(6) b(1) this] show ?thesis using p(2) False by auto
        qed
        then show "x2 \<in> S \<union> set rs - gone rp" "y2 \<in> S \<union> set rs - gone rp"
          "\<exists>vx vy vp. ?e x2 = Some vx \<and> ?e y2 = Some vy \<and> ?e p2 = Some vp \<and> product M rm2 ftz2 (T p2) vx vy vp" by auto
      qed
      then have "forget (exec M' n (apply_rewrites rp ops) env' m) = forget (exec M n ops ?e m)" by (rule rest)
      moreover have "exec M n (?op # ops) env m = exec M n ops ?e m"
        using vp by (simp add: d eval_operands_def v p(3) product_def bind_vars_def)
      ultimately show ?thesis by (simp only: apply_rewrites.simps rewrite_op_def None True option.case if_True append_Nil)
    next
      case False
      have ins: "set (operands_vars opnds) \<inter> gone rp = {}" "set rs \<inter> gone rp = {}" using fit None False by (auto simp: fits_rewrite_def)
      have ev: "eval_operands env' opnds = eval_operands env opnds"
        using "2.prems"(1) by (intro contracted_operands [OF "2.prems"(6) _ ins(1)]) simp
      have "forget (Option.bind (bind_vars env' rs outs) (\<lambda>e. exec M' n (apply_rewrites rp ops) e m'))
          = forget (Option.bind (bind_vars env rs outs) (\<lambda>e. exec M n ops e m'))" for outs m'
        by (rule contracted_continue [OF "2.prems"(6) rs(1) ins(2) rs(2)]) (rule rest)
      moreover have "map T rs = map (types M) rs" using rs(3) M(3) by auto
      moreover have "rewrite_op rp ?op ?op = [?op]" using None False by (simp add: rewrite_op_def)
      ultimately show ?thesis by (simp add: ev forget_bind case_prod_beta M(2) del: map_eq_conv)
    qed
  qed
next
  case (3 S i rng inits params body rs ops)
  let ?op = "Loop i rng inits params body rs"
  have fit: "fits_rewrite T N rp ?op" using "3.prems"(5) by simp
  note ctl = fits_control [OF fit]
  have ins: "(set (range_vars rng) \<union> set inits) \<inter> gone rp = {}" "set params \<inter> gone rp = {}" "set rs \<inter> gone rp = {}"
    using ctl(2,3) by auto
  have "forget (exec M' n (apply_rewrites rp body) e' m) = forget (exec M n body e m)"
    if "contracted M T rp (S \<union> set params) e e'" for e e' m
    using that "3.prems" by (intro "3.IH"(1)) auto
  then have loop: "run_loop M' n rng inits params (exec M' n (apply_rewrites rp body)) env' m
      = run_loop M n rng inits params (exec M n body) env m"
    using "3.prems" ins by (intro contracted_loop) (auto simp: M(2))
  have "forget (Option.bind (bind_vars env' rs vs) (\<lambda>e. exec M' n (apply_rewrites rp ops) e m'))
        = forget (Option.bind (bind_vars env rs vs) (\<lambda>e. exec M n ops e m'))" for vs m'
    using "3.prems" ins by (intro contracted_continue "3.IH"(2)) auto
  then have "forget (case p of (r, m') \<Rightarrow> case r of LoopReturned \<Rightarrow> Some (Returned, m')
       | Finished vs \<Rightarrow> Option.bind (bind_vars env' rs vs) (\<lambda>env'. exec M' n (apply_rewrites rp ops) env' m'))
     = forget (case p of (r, m') \<Rightarrow> case r of LoopReturned \<Rightarrow> Some (Returned, m')
       | Finished vs \<Rightarrow> Option.bind (bind_vars env rs vs) (\<lambda>env'. exec M n ops env' m'))" for p
    by (cases p) (simp split: loop_end.split)
  then show ?case using ctl(1) by (simp add: loop forget_bind)
next
  case (4 S i c t e rs ops)
  let ?op = "IfElse i c t e rs"
  have fit: "fits_rewrite T N rp ?op" using "4.prems"(5) by simp
  note ctl = fits_control [OF fit]
  have ins: "c \<notin> gone rp" "set rs \<inter> gone rp = {}" using ctl(2,3) by auto
  have t: "forget (exec M' n (apply_rewrites rp t) env' m) = forget (exec M n t env m)"
    and e: "forget (exec M' n (apply_rewrites rp e) env' m) = forget (exec M n e env m)"
    using "4.prems" by (intro "4.IH"(1) "4.IH"(2); auto)+
  have "forget (Option.bind (bind_vars env' rs vs) (\<lambda>e. exec M' n (apply_rewrites rp ops) e m'))
        = forget (Option.bind (bind_vars env rs vs) (\<lambda>e. exec M n ops e m'))" for vs m'
    using "4.prems" ins by (intro contracted_continue "4.IH"(3)) auto
  then have "forget (branch_step (if b then exec M' n (apply_rewrites rp t) env' m
          else exec M' n (apply_rewrites rp e) env' m)
        (\<lambda>vs m'. Option.bind (bind_vars env' rs vs) (\<lambda>e. exec M' n (apply_rewrites rp ops) e m')))
      = forget (branch_step (if b then exec M n t env m else exec M n e env m)
        (\<lambda>vs m'. Option.bind (bind_vars env rs vs) (\<lambda>e. exec M n ops e m')))" for b
    using t e by (intro branch_step_cong) auto
  moreover have "env' c = env c" using contracted_value [OF "4.prems"(6)] "4.prems"(1) ins(1) by auto
  moreover have "truth M' = truth M" by (simp add: M(2))
  ultimately show ?case using ctl(1) by (simp add: forget_bind)
next
  case (5 S i k xs params body rs ops)
  have fit: "fits_rewrite T N rp (Reduction i k xs params body rs)" using "5.prems"(5) by simp
  show ?case using fits_control(1) [OF fit] by simp
next
  case (6 S vs ops)
  have fit: "fits_rewrite T N rp (Continue vs)" using "6.prems"(5) by simp
  show ?case using fits_control [OF fit] contracted_values [OF "6.prems"(6), of vs] "6.prems"(1) by (simp del: map_eq_conv)
next
  case (7 S vs ops)
  have fit: "fits_rewrite T N rp (Break vs)" using "7.prems"(5) by simp
  show ?case using fits_control [OF fit] contracted_values [OF "7.prems"(6), of vs] "7.prems"(1) by (simp del: map_eq_conv)
next
  case (8 S vs ops)
  have fit: "fits_rewrite T N rp (EndBranch vs)" using "8.prems"(5) by simp
  show ?case using fits_control [OF fit] contracted_values [OF "8.prems"(6), of vs] "8.prems"(1) by (simp del: map_eq_conv)
next
  case (9 S ops)
  have fit: "fits_rewrite T N rp Return" using "9.prems"(5) by simp
  show ?case using fits_control(1) [OF fit] by simp
qed

end
