(* ===== verification/RewriteSound.thy ===== *)
theory RewriteSound
  imports RewriteSim "HOL-Library.Multiset"
begin

text \<open>
  The pass never fails on typed kernels in single assignment form, and what it selects are
  fusions of products that nothing else uses, so it keeps the runs of the kernel.
\<close>

section \<open>Operations of a kernel\<close>

lemma defs_of_traverse: "mset (all_defs ops) = mset (concat (map op_defs (traverse ops)))"
  by (induction ops rule: traverse.induct) simp_all

lemma distinct_concat_same: "distinct (concat (map f xs)) \<Longrightarrow> x \<in> set xs \<Longrightarrow> y \<in> set xs \<Longrightarrow> v \<in> set (f x) \<Longrightarrow> v \<in> set (f y) \<Longrightarrow> x = y"
  by (induction xs) auto

lemma same_op:
  assumes "distinct (all_defs ops)" and "op \<in> set (traverse ops)" and "op' \<in> set (traverse ops)" and "v \<in> set (op_defs op)" and "v \<in> set (op_defs op')"
  shows "op = op'"
proof -
  have "distinct (concat (map op_defs (traverse ops)))"
    using assms(1) defs_of_traverse [of ops] by (metis mset_eq_imp_distinct_iff)
  from distinct_concat_same [OF this assms(2-5)] show ?thesis .
qed

lemma op_defs_subset: "op \<in> set (traverse ops) \<Longrightarrow> set (op_defs op) \<subseteq> set (all_defs ops)"
proof -
  assume "op \<in> set (traverse ops)"
  then have "set (op_defs op) \<subseteq> set (concat (map op_defs (traverse ops)))" by auto
  then show ?thesis using defs_of_traverse [of ops] by (metis mset_eq_setD)
qed

lemma inputs_subset: "scoped S ops \<Longrightarrow> op \<in> set (traverse ops) \<Longrightarrow> set (all_inputs op) \<subseteq> S \<union> set (all_defs ops)"
proof (induction S ops rule: scoped.induct)
  case (2 S cl opnds rs ops)
  then show ?case by (cases "op = Plain cl opnds rs") auto
next
  case (3 S i rng inits params body rs ops)
  then show ?case by (cases "op = Loop i rng inits params body rs") auto
next
  case (4 S i c t e rs ops)
  then show ?case by (cases "op = IfElse i c t e rs") auto
next
  case (5 S i k xs params body rs ops)
  then show ?case by (cases "op = Reduction i k xs params body rs") auto
qed auto

section \<open>Types\<close>

text \<open>The operands and the result of a binary operation have one type.\<close>

definition is_tile :: "ir_type option \<Rightarrow> bool" where
  "is_tile ty \<longleftrightarrow> (case ty of Some (TileTy t shape) \<Rightarrow> True | _ \<Rightarrow> False)"

definition binary_typed :: "(var \<rightharpoonup> ir_type) \<Rightarrow> operation \<Rightarrow> bool" where
  "binary_typed T op \<longleftrightarrow>
     (case op of
        Plain (RawBinaryArithmetic fn rm ftz) opnds rs \<Rightarrow>
          (let vs = operands_vars opnds in
             opnds = [(''lhs'', OVar (hd vs)), (''rhs'', OVar (last vs))] \<and> length rs = 1
             \<and> is_tile (T (hd rs)) \<and> (\<forall>v \<in> set vs. T v = T (hd rs)))
      | _ \<Rightarrow> True)"

lemma binary_typedD:
  assumes "binary_typed T (Plain (RawBinaryArithmetic fn rm ftz) opnds rs)"
  shows "\<exists>x y r t shape. opnds = [(''lhs'', OVar x), (''rhs'', OVar y)] \<and> rs = [r] \<and> T r = Some (TileTy t shape) \<and> T x = T r \<and> T y = T r"
proof -
  obtain x y where o: "opnds = [(''lhs'', OVar x), (''rhs'', OVar y)]" using assms by (auto simp: binary_typed_def Let_def)
  then have "set (operands_vars opnds) = {x, y}" by (simp add: operands_vars_def)
  moreover obtain r where "rs = [r]" using assms by (auto simp: binary_typed_def Let_def length_Suc_conv)
  ultimately show ?thesis using assms o by (auto simp: binary_typed_def Let_def is_tile_def split: option.splits ir_type.splits)
qed

section \<open>Matching\<close>

text \<open>The fusions without regard to the products that others remove.\<close>

definition fusion_of ::
  "(var \<rightharpoonup> ir_type) \<Rightarrow> var set \<Rightarrow> operation \<Rightarrow> operation \<Rightarrow> operation list \<Rightarrow> bool" where
  "fusion_of T N mul_op op news \<longleftrightarrow>
     (\<exists>rm rm2 ftz x y p z r w. mul_op = binop ''mul'' rm2 ftz x y p
        \<and> effective_rounding rm = effective_rounding rm2 \<and> float_type (T r)
        \<and> T x = T r \<and> T p = T r \<and> T z = T r \<and> fused_as T N rm ftz x y p z r w op news)"

lemma fusion_ofI:
  assumes "mul_op = binop ''mul'' rm2 ftz x y p" and "effective_rounding rm = effective_rounding rm2" and "float_type (T p)"
    and "T x = T p" "T r = T p" "T z = T p" and "fused_as T N rm ftz x y p z r w op news"
  shows "fusion_of T N mul_op op news"
proof -
  have "float_type (T r)" "T x = T r" "T p = T r" "T z = T r" using assms(3-6) by simp_all
  then show ?thesis unfolding fusion_of_def using assms(1,2,7) by blast
qed

lemma float_type_le: "float_type (T v) \<Longrightarrow> T \<subseteq>\<^sub>m T' \<Longrightarrow> T u = T v \<Longrightarrow> T' u = T v"
proof -
  assume "float_type (T v)" and le: "T \<subseteq>\<^sub>m T'" and u: "T u = T v"
  then obtain ty where "T v = Some ty" by (auto simp: float_type_def)
  with u have "u \<in> dom T" by auto
  with le u show "T' u = T v" by (simp add: map_le_def)
qed

lemma fused_as_types: "fused_as T N rm ftz x y p z r w op news \<Longrightarrow> (T w = T r \<Longrightarrow> T' w = T' r) \<Longrightarrow> fused_as T' N rm ftz x y p z r w op news"
  unfolding fused_as_def by blast

lemma fusion_of_le:
  assumes "fusion_of T N mul_op op news" and le: "T \<subseteq>\<^sub>m T'"
  shows "fusion_of T' N mul_op op news"
proof -
  from assms(1) obtain rm rm2 ftz x y p z r w where f: "mul_op = binop ''mul'' rm2 ftz x y p"
      "effective_rounding rm = effective_rounding rm2" "float_type (T r)" "T x = T r" "T p = T r" "T z = T r"
    and alt: "fused_as T N rm ftz x y p z r w op news"
    unfolding fusion_of_def by blast
  note up = float_type_le [OF f(3) le]
  have t: "T' r = T r" "T' x = T' r" "T' p = T' r" "T' z = T' r" using up f(4-6) by simp_all
  have "float_type (T' r)" using f(3) t(1) by simp
  moreover have "fused_as T' N rm ftz x y p z r w op news" using fused_as_types [OF alt, of T'] up t(1) by simp
  ultimately show ?thesis unfolding fusion_of_def using f(1,2) t(2-4) by blast
qed

text \<open>What holds of the matches after some operations of the kernel.\<close>

definition matching :: "(var \<rightharpoonup> ir_type) \<Rightarrow> var set \<Rightarrow> operation set \<Rightarrow> match_context \<Rightarrow> bool" where
  "matching T N P ctx \<longleftrightarrow>
     (\<forall>v op. float_muls ctx v = Some op \<longrightarrow> op \<in> P \<and> (\<exists>rm ftz x y. op = binop ''mul'' rm ftz x y v \<and> float_type (T v)))
     \<and> (\<forall>r \<in> set (rewrite_list ctx). \<exists>mul_op \<in> P. \<exists>op \<in> P. to_remove r = [mul_op, op]
          \<and> fusion_of (typemap (ir_ctx ctx)) N mul_op op (to_add r))
     \<and> (\<forall>v \<in> N. typemap (ir_ctx ctx) v = T v) \<and> typed_ctx N (ir_ctx ctx)"

lemma negate_ok:
  assumes "typed_ctx N c" and "typemap c target = Some ty"
  shows "\<exists>w c'. negate target c = Inr (w, Plain (Unary ''neg'' None False) [(''operand'', OVar target)] [w], c')
    \<and> w \<notin> N \<and> typemap c' w = Some ty \<and> typemap c \<subseteq>\<^sub>m typemap c' \<and> (\<forall>v \<in> N. typemap c' v = typemap c v) \<and> typed_ctx N c'"
proof -
  obtain w c1 where w: "make_temp c = (w, c1)" by fastforce
  let ?c = "c\<lparr>temp_counter := Suc (temp_counter c)\<rparr>"
  note mv = make_var_fresh_aux [OF w [unfolded make_temp_def]]
  have names: "w \<notin> var_names c" "var_names c1 = insert w (var_names c)" and tm: "typemap c1 = typemap c"
    using mv(1,2,5) by (simp_all add: var_names_def)
  have none: "typemap c w = None" using assms(1) names(1) by (auto simp: typed_ctx_def)
  have wN: "w \<notin> N" using assms(1) names(1) by (auto simp: typed_ctx_def)
  let ?c' = "c1\<lparr>typemap := (typemap c1)(w \<mapsto> ty)\<rparr>"
  have "negate target c = Inr (w, Plain (Unary ''neg'' None False) [(''operand'', OVar target)] [w], ?c')"
    using assms(2) none tm by (simp add: negate_def w get_type_def set_type_def py_assert_def)
  moreover have "typemap c \<subseteq>\<^sub>m typemap ?c'" using none tm by (auto simp: map_le_def)
  moreover have "typed_ctx N ?c'" using assms(1) names(2) tm by (auto simp: typed_ctx_def var_names_def)
  ultimately show ?thesis using wN tm by (intro exI [of _ w] exI [of _ ?c']) auto
qed

lemma matching_grow:
  assumes "matching T N P ctx" and "typemap (ir_ctx ctx) \<subseteq>\<^sub>m typemap c'" and "\<forall>v \<in> N. typemap c' v = typemap (ir_ctx ctx) v" and "typed_ctx N c'"
    and "mul_op \<in> P" "op \<in> P" "fusion_of (typemap c') N mul_op op news"
  shows "matching T N P (ctx\<lparr>rewrite_list := rewrite_list ctx @ [\<lparr>to_remove = [mul_op, op], to_add = news\<rparr>], ir_ctx := c'\<rparr>)"
proof -
  have "\<exists>mul_op \<in> P. \<exists>op \<in> P. to_remove r = [mul_op, op] \<and> fusion_of (typemap c') N mul_op op (to_add r)"
    if "r \<in> set (rewrite_list ctx)" for r
  proof -
    obtain m q where "m \<in> P" "q \<in> P" "to_remove r = [m, q]" "fusion_of (typemap (ir_ctx ctx)) N m q (to_add r)"
      using assms(1) \<open>r \<in> set (rewrite_list ctx)\<close> unfolding matching_def by blast
    then show ?thesis using fusion_of_le [OF _ assms(2)] by blast
  qed
  moreover have "\<exists>m \<in> P. \<exists>q \<in> P. [mul_op, op] = [m, q] \<and> fusion_of (typemap c') N m q news" using assms(5-7) by blast
  ultimately show ?thesis using assms(1,3,4) unfolding matching_def by auto
qed

lemma match_op_ok:
  assumes inv: "matching T N P ctx" and op: "op \<in> P"
    and P: "\<And>op. op \<in> P \<Longrightarrow> set (all_inputs op) \<union> set (op_defs op) \<subseteq> N \<and> binary_typed T op"
  shows "\<exists>ctx'. match_op op ctx = Inr ctx' \<and> matching T N P ctx'"
proof (cases "\<exists>fn rm ftz opnds rs. op = Plain (RawBinaryArithmetic fn rm ftz) opnds rs")
  case False
  then have "match_float_mul op (ir_ctx ctx) = Inr None" "fuse_mul_addsub op ctx = Inr None"
    by (auto simp: match_float_mul_def fuse_mul_addsub_def split: operation.splits op_class.splits)
  then show ?thesis using inv by (simp add: match_op_def)
next
  case True
  then obtain fn rm ftz opnds rs where "op = Plain (RawBinaryArithmetic fn rm ftz) opnds rs" by blast
  with P [OF op] obtain a b r t shape where b: "op = binop fn rm ftz a b r" "T r = Some (TileTy t shape)" "T a = T r" "T b = T r"
    using binary_typedD by blast
  have N: "a \<in> N" "b \<in> N" "r \<in> N" using P [OF op] by (auto simp: b(1) operands_vars_def)
  have same: "\<forall>v \<in> N. typemap (ir_ctx ctx) v = T v" "typed_ctx N (ir_ctx ctx)" using inv by (auto simp: matching_def)
  show ?thesis
  proof (cases "fn = ''mul''")
    case True
    have m: "match_float_mul op (ir_ctx ctx) = Inr (if is_unrestricted_float t then Some op else None)"
      using same(1) N by (simp add: match_float_mul_def b True result_var_def get_type_def get_dtype_def)
    let ?ctx = "ctx\<lparr>float_muls := (float_muls ctx)(r \<mapsto> op)\<rparr>"
    have "fuse_mul_addsub op ctx' = Inr None" for ctx' by (simp add: fuse_mul_addsub_def b(1) True)
    then have "match_op op ctx = Inr (if is_unrestricted_float t then ?ctx else ctx)"
      using m by (simp add: match_op_def b(1))
    moreover have "is_unrestricted_float t \<Longrightarrow> matching T N P ?ctx"
      using inv op b True unfolding matching_def by (auto simp: float_type_def)
    ultimately show ?thesis using inv by auto
  next
    case False
    then have m: "match_op op ctx = and_then (fuse_mul_addsub op ctx) (\<lambda>r. Inr (case r of None \<Rightarrow> ctx | Some ctx \<Rightarrow> ctx))"
      by (simp add: match_op_def match_float_mul_def b(1))
    show ?thesis
    proof (cases "fn = ''add'' \<or> fn = ''sub''")
      case False
      then have "fuse_mul_addsub op ctx = Inr None" by (simp add: fuse_mul_addsub_def b(1))
      with m inv show ?thesis by simp
    next
      case as: True
      have args: "var_operand ''lhs'' [(''lhs'', OVar x), (''rhs'', OVar y)] = Inr x"
        "var_operand ''rhs'' [(''lhs'', OVar x), (''rhs'', OVar y)] = Inr y" for x y
        by (simp_all add: var_operand_def operand_of_def)
      have fuse: "fuse_mul_addsub op ctx =
          (case product_operand (float_muls ctx) a b of
                Some (mul_op, acc, rhs_is_mul) \<Rightarrow>
                  (case mul_op of
                     Plain (RawBinaryArithmetic fn2 rm2 ftz2) opnds2 rs2 \<Rightarrow>
                       if effective_rounding rm \<noteq> effective_rounding rm2 then Inr None
                       else if ftz \<noteq> ftz2 then Inr None
                       else
                         and_then (var_operand ''lhs'' opnds2) (\<lambda>mul_lhs.
                         and_then (var_operand ''rhs'' opnds2) (\<lambda>mul_rhs.
                         and_then (fused_ops fn rhs_is_mul (effective_rounding rm) ftz mul_lhs mul_rhs acc [r] (ir_ctx ctx)) (\<lambda>(new_ops, c).
                           Inr (Some (ctx\<lparr>rewrite_list := rewrite_list ctx @ [\<lparr>to_remove = [mul_op, op], to_add = new_ops\<rparr>],
                                          ir_ctx := c\<rparr>)))))
                   | _ \<Rightarrow> Inr None)
              | None \<Rightarrow> Inr None)"
        using as by (simp only: fuse_mul_addsub_def b(1) operation.case op_class.case args and_then_simps) auto
      show ?thesis
      proof (cases "product_operand (float_muls ctx) a b")
        case None
        with m fuse inv show ?thesis by simp
      next
        case (Some pr)
        obtain mul_op z right where pr: "pr = (mul_op, z, right)" by (metis prod_cases3)
        define p where "p = (if right then b else a)"
        have fm: "float_muls ctx p = Some mul_op" "z = (if right then a else b)"
          using Some by (auto simp: product_operand_def pr p_def split: option.splits)
        obtain rm2 ftz2 x y where mo: "mul_op \<in> P" "mul_op = binop ''mul'' rm2 ftz2 x y p" "float_type (T p)"
          using inv fm(1) unfolding matching_def by blast
        show ?thesis
        proof (cases "effective_rounding rm = effective_rounding rm2 \<and> ftz = ftz2")
          case False
          with m fuse inv show ?thesis by (auto simp: Some pr mo(2))
        next
          case ok: True
          have "T x = T p" "x \<in> N" using P [OF mo(1)] binary_typedD [of T "''mul''" rm2 ftz2] by (fastforce simp: mo(2) operands_vars_def)+
          moreover have "T p = T r" "T z = T r" "z \<in> N" using b(3,4) N fm(2) by (auto simp: p_def)
          ultimately have ty: "T x = T p" "T r = T p" "T z = T p" "x \<in> N" "z \<in> N" "r \<in> N" using N(3) by auto
          have tgt: "typemap (ir_ctx ctx) (if right then x else z) = Some (TileTy t shape)"
            using same(1) ty b(2) by (cases right) auto
          have pN: "typemap c' p = T p" if "\<forall>v \<in> N. typemap c' v = typemap (ir_ctx ctx) v" for c'
            using that same(1) N fm(2) by (auto simp: p_def)
          have opf: "op = (if right then binop fn rm ftz z p r else binop fn rm ftz p z r)"
            by (simp add: b(1) p_def fm(2))
          have step: ?thesis if f: "fused_ops fn right (effective_rounding rm) ftz x y z [r] (ir_ctx ctx) = Inr (news, c')"
            and g: "typemap (ir_ctx ctx) \<subseteq>\<^sub>m typemap c'" "\<forall>v \<in> N. typemap c' v = typemap (ir_ctx ctx) v" "typed_ctx N c'"
            and fo: "fusion_of (typemap c') N mul_op op news" for news c'
          proof -
            have "match_op op ctx = Inr (ctx\<lparr>rewrite_list := rewrite_list ctx @ [\<lparr>to_remove = [mul_op, op], to_add = news\<rparr>], ir_ctx := c'\<rparr>)"
              unfolding m fuse Some pr using ok f by (simp add: mo(2) args)
            then show ?thesis using matching_grow [OF inv g mo(1) op fo] by blast
          qed
          have T': "typemap c' v = T v" if "\<forall>v \<in> N. typemap c' v = typemap (ir_ctx ctx) v" "v \<in> N" for c' v
            using that same(1) by simp
          show ?thesis
          proof (cases "fn = ''sub''")
            case False
            then have add: "fn = ''add''" using as by simp
            have r: "result_var [r] = Inr r" by (simp add: result_var_def)
            let ?news = "[fma (effective_rounding rm) ftz x y z r]"
            have "fused_as (typemap (ir_ctx ctx)) N rm ftz x y p z r p op ?news"
              by (cases right) (simp_all add: fused_as_def opf add)
            moreover have "typemap (ir_ctx ctx) p = T p" using pN [of "ir_ctx ctx"] by simp
            ultimately have "fusion_of (typemap (ir_ctx ctx)) N mul_op op ?news"
              using mo(2,3) ok ty same(1) by (intro fusion_ofI [where rm = rm and ftz = ftz and w = p]) auto
            then show ?thesis by (intro step) (simp_all add: fused_ops_def add r same(2))
          next
            case sub: True
            obtain w c' where n: "negate (if right then x else z) (ir_ctx ctx) =
                Inr (w, Plain (Unary ''neg'' None False) [(''operand'', OVar (if right then x else z))] [w], c')"
              "w \<notin> N" "typemap c' w = Some (TileTy t shape)" "typemap (ir_ctx ctx) \<subseteq>\<^sub>m typemap c'"
              "\<forall>v \<in> N. typemap c' v = typemap (ir_ctx ctx) v" "typed_ctx N c'"
              using negate_ok [OF same(2) tgt] by blast
            have r: "result_var [r] = Inr r" by (simp add: result_var_def)
            let ?news = "[Plain (Unary ''neg'' None False) [(''operand'', OVar (if right then x else z))] [w],
              if right then fma (effective_rounding rm) ftz w y z r else fma (effective_rounding rm) ftz x y w r]"
            have T'': "typemap c' x = T p" "typemap c' r = T p" "typemap c' z = T p" "typemap c' p = T p" "typemap c' w = T p"
              using T' [OF n(5)] ty pN [OF n(5)] n(3) b(2) by simp_all
            have "fused_as (typemap c') N rm ftz x y p z r w op ?news"
              using n(2) T'' by (cases right) (simp_all add: fused_as_def opf sub)
            then have "fusion_of (typemap c') N mul_op op ?news"
              using mo(2,3) ok T'' by (intro fusion_ofI [where rm = rm and ftz = ftz and w = w]) auto
            moreover have "fused_ops fn right (effective_rounding rm) ftz x y z [r] (ir_ctx ctx) = Inr (?news, c')"
              by (simp add: fused_ops_def sub n(1) r)
            ultimately show ?thesis using n by (intro step)
          qed
        qed
      qed
    qed
  qed
qed

lemma match_ops_ok:
  assumes P: "\<And>op. op \<in> P \<Longrightarrow> set (all_inputs op) \<union> set (op_defs op) \<subseteq> N \<and> binary_typed T op"
  shows "set ops \<subseteq> P \<Longrightarrow> matching T N P ctx \<Longrightarrow> \<exists>ctx'. fold_res match_op ops ctx = Inr ctx' \<and> matching T N P ctx'"
proof (induction ops arbitrary: ctx)
  case (Cons op ops)
  then have "op \<in> P" by simp
  from match_op_ok [OF Cons.prems(2) this P] obtain ctx' where "match_op op ctx = Inr ctx'" "matching T N P ctx'" by blast
  with Cons show ?case by simp
qed simp

section \<open>Selection\<close>

text \<open>The rewrites that were selected, and what they were checked for.\<close>

definition unused :: "operation list \<Rightarrow> Rewrite \<Rightarrow> bool" where
  "unused ops r \<longleftrightarrow>
     (\<forall>v \<in> set (deleted_results r). \<forall>op \<in> set (uses_of ops v). op \<in> set (to_remove r))
     \<and> (\<forall>op \<in> set (to_add r). \<forall>v \<in> set (all_inputs op). v \<notin> set (deleted_results r))"

definition selected :: "operation list \<Rightarrow> Rewrite list \<Rightarrow> replacement \<Rightarrow> bool" where
  "selected ops A rp \<longleftrightarrow>
     fst rp = map (\<lambda>r. (last (to_remove r), to_add r)) A \<and> set (snd rp) = \<Union> (set ` to_remove ` set A)
     \<and> (\<forall>r \<in> set A. unused ops r \<and> to_remove r \<noteq> []) \<and> distinct (map (\<lambda>r. last (to_remove r)) A)"

lemma select_ok:
  assumes "selected ops A rp" and "to_remove r \<noteq> []"
  shows "\<exists>A'. set A' \<subseteq> insert r (set A) \<and> selected ops A' (select_rewrite ops r rp)"
proof (cases "can_rewrite ops (snd rp) r")
  case True
  have "last (to_remove r) \<notin> set (snd rp)" using True assms(2) by (simp add: can_rewrite_def)
  moreover have "last (to_remove q) \<in> set (snd rp)" if "q \<in> set A" for q
  proof -
    have "last (to_remove q) \<in> set (to_remove q)" using assms(1) that by (simp add: selected_def)
    moreover have "set (snd rp) = \<Union> (set ` to_remove ` set A)" using assms(1) by (simp add: selected_def)
    ultimately show ?thesis using that by blast
  qed
  ultimately have "last (to_remove r) \<notin> (\<lambda>r. last (to_remove r)) ` set A" by auto
  then have "distinct (map (\<lambda>r. last (to_remove r)) (r # A))" using assms(1) by (simp add: selected_def)
  moreover have "unused ops r" using True by (simp add: can_rewrite_def unused_def)
  ultimately have "selected ops (r # A) (select_rewrite ops r rp)"
    using assms True by (cases rp) (simp add: selected_def select_rewrite_def)
  then show ?thesis by (intro exI [of _ "r # A"]) auto
next
  case False
  then have "select_rewrite ops r rp = rp" by (cases rp) (simp add: select_rewrite_def)
  with assms(1) show ?thesis by auto
qed

lemma select_all_ok:
  "\<forall>r \<in> set rs. to_remove r \<noteq> [] \<Longrightarrow> selected ops A rp \<Longrightarrow>
   \<exists>A'. set A' \<subseteq> set rs \<union> set A \<and> selected ops A' (fold (select_rewrite ops) rs rp)"
proof (induction rs arbitrary: A rp)
  case (Cons r rs)
  have "to_remove r \<noteq> []" using Cons.prems(1) by simp
  from select_ok [OF Cons.prems(2) this] obtain A1 where
    A1: "set A1 \<subseteq> insert r (set A)" "selected ops A1 (select_rewrite ops r rp)" by blast
  obtain A2 where "set A2 \<subseteq> set rs \<union> set A1" "selected ops A2 (fold (select_rewrite ops) rs (select_rewrite ops r rp))"
    using Cons.IH [OF _ A1(2)] Cons.prems(1) by auto
  with A1(1) show ?case by (intro exI [of _ A2]) auto
qed auto

text \<open>The rewrites of a kernel that the pass may select.\<close>

definition kernel_rewrite :: "(var \<rightharpoonup> ir_type) \<Rightarrow> var set \<Rightarrow> operation list \<Rightarrow> Rewrite \<Rightarrow> bool" where
  "kernel_rewrite T N ops r \<longleftrightarrow>
     (\<exists>mul_op \<in> set (traverse ops). \<exists>op \<in> set (traverse ops). to_remove r = [mul_op, op] \<and> fusion_of T N mul_op op (to_add r))"

text \<open>
  The product of a selected rewrite has no use but in the operation that is replaced, and the
  fused operations do not use it.
\<close>

lemma kernel_rewriteE:
  assumes r: "kernel_rewrite T N ops r" and u: "unused ops r" and dist: "distinct (all_defs ops)" and N: "set (all_defs ops) \<subseteq> N"
  obtains rm rm2 ftz x y p z q w op where "to_remove r = [binop ''mul'' rm2 ftz x y p, op]"
    "effective_rounding rm = effective_rounding rm2" "float_type (T q)" "T x = T q" "T p = T q" "T z = T q"
    "fused_as T N rm ftz x y p z q w op (to_add r)"
    "binop ''mul'' rm2 ftz x y p \<in> set (traverse ops)" "op \<in> set (traverse ops)" "p \<noteq> q" "op_defs op = [q]"
    "\<And>rm ftz x y v. op \<noteq> binop ''mul'' rm ftz x y v" "z \<in> set (all_inputs op)"
    "\<And>op'. op' \<in> set (traverse ops) \<Longrightarrow> p \<in> set (all_inputs op') \<Longrightarrow> op' \<in> set (to_remove r)"
    "x \<noteq> p" "y \<noteq> p" "z \<noteq> p"
proof -
  obtain mul_op op where mo: "mul_op \<in> set (traverse ops)" "op \<in> set (traverse ops)" "to_remove r = [mul_op, op]"
    and fo: "fusion_of T N mul_op op (to_add r)" using r unfolding kernel_rewrite_def by blast
  obtain rm rm2 ftz x y p z q w where f: "mul_op = binop ''mul'' rm2 ftz x y p"
      "effective_rounding rm = effective_rounding rm2" "float_type (T q)" "T x = T q" "T p = T q" "T z = T q"
      "fused_as T N rm ftz x y p z q w op (to_add r)"
    using fo unfolding fusion_of_def by blast
  have d: "op_defs op = [q]" "z \<in> set (all_inputs op)" "op \<noteq> binop ''mul'' rm' ftz' x' y' v" for rm' ftz' x' y' v
    using f(7) by (auto simp: fused_as_def operands_vars_def)
  have pq: "p \<noteq> q"
  proof
    assume "p = q"
    then have "mul_op = op" using same_op [OF dist mo(1,2), of p] d(1) by (simp add: f(1))
    then show False using d(3) [of rm2 ftz x y p] by (simp add: f(1))
  qed
  have "p \<in> N" using op_defs_subset [OF mo(1)] N by (auto simp: f(1))
  then have "p \<notin> set (results_of (to_add r))"
    using f(7) pq by (auto simp: fused_as_def results_of_def fma_def)
  moreover have "p \<in> set (results_of (to_remove r))" by (simp add: mo(3) f(1) results_of_def)
  ultimately have p: "p \<in> set (deleted_results r)" by (simp add: deleted_results_def)
  have uses: "op' \<in> set (to_remove r)" if "op' \<in> set (traverse ops)" "p \<in> set (all_inputs op')" for op'
    using u p that by (auto simp: unused_def uses_of_def)
  have "\<forall>op' \<in> set (to_add r). p \<notin> set (all_inputs op')" using u p unfolding unused_def by blast
  then have "x \<noteq> p" "y \<noteq> p" "z \<noteq> p" using f(7) by (auto simp: fused_as_def fma_def operands_vars_def)
  with that [OF mo(3) [unfolded f(1)] f(2-7) mo(1) [unfolded f(1)] mo(2) pq d(1) d(3,2) uses] show thesis by blast
qed

lemma selected_fits:
  assumes sel: "selected ops A rp" and A: "\<forall>r \<in> set A. kernel_rewrite T N ops r"
    and dist: "distinct (all_defs ops)" and N: "set (all_defs ops) \<subseteq> N" and op: "op \<in> set (traverse ops)"
  shows "fits_rewrite T N rp op"
proof -
  have fst: "fst rp = map (\<lambda>r. (last (to_remove r), to_add r)) A" and snd: "set (snd rp) = \<Union> (set ` to_remove ` set A)"
    and un: "\<And>r. r \<in> set A \<Longrightarrow> unused ops r" and dl: "distinct (map (\<lambda>r. last (to_remove r)) A)"
    using sel by (auto simp: selected_def)
  note E = kernel_rewriteE [OF A [rule_format] un dist N]
  have gone: "\<exists>r \<in> set A. \<exists>rm ftz x y op. to_remove r = [binop ''mul'' rm ftz x y p, op] \<and> binop ''mul'' rm ftz x y p \<in> set (traverse ops)
      \<and> (\<forall>op' \<in> set (traverse ops). p \<in> set (all_inputs op') \<longrightarrow> op' \<in> set (to_remove r)) \<and> x \<noteq> p \<and> y \<noteq> p
      \<and> (\<forall>rm ftz x y v. op \<noteq> binop ''mul'' rm ftz x y v)"
    if "p \<in> gone rp" for p
  proof -
    from that obtain rm ftz x y r where r: "r \<in> set A" "binop ''mul'' rm ftz x y p \<in> set (to_remove r)"
      by (auto simp: gone_def snd)
    show ?thesis
    proof (rule E [OF r(1) r(1)])
      fix rm1 rm2 ftz' x' y' p' z q w op'
      assume 1: "to_remove r = [binop ''mul'' rm2 ftz' x' y' p', op']" "binop ''mul'' rm2 ftz' x' y' p' \<in> set (traverse ops)"
        "\<And>rm ftz x y v. op' \<noteq> binop ''mul'' rm ftz x y v" "x' \<noteq> p'" "y' \<noteq> p'"
        "\<And>op'. op' \<in> set (traverse ops) \<Longrightarrow> p' \<in> set (all_inputs op') \<Longrightarrow> op' \<in> set (to_remove r)"
      have "p' = p" using r(2) 1(3) [of rm ftz x y p] by (auto simp: 1(1))
      with 1 r(1) show ?thesis by blast
    qed
  qed
  have last_key: "map_of (fst rp) (last (to_remove r)) \<noteq> None" if "r \<in> set A" for r
  proof -
    have "fst ` set (fst rp) = (\<lambda>r. last (to_remove r)) ` set A" by (force simp: fst)
    then show ?thesis using that by (simp add: map_of_eq_None_iff)
  qed
  have same_key: "r = r'" if "r \<in> set A" "r' \<in> set A" "last (to_remove r) = last (to_remove r')" for r r'
    using dl that by (auto simp: distinct_map dest: inj_onD)
  show ?thesis
  proof (cases "map_of (fst rp) op")
    case (Some news)
    then have "(op, news) \<in> set (fst rp)" by (rule map_of_SomeD)
    then obtain r where r: "r \<in> set A" "last (to_remove r) = op" "to_add r = news" by (auto simp: fst)
    show ?thesis
    proof (rule E [OF r(1) r(1)])
      fix rm rm2 ftz x y p z q w op'
      assume e: "to_remove r = [binop ''mul'' rm2 ftz x y p, op']" "effective_rounding rm = effective_rounding rm2"
        "float_type (T q)" "T x = T q" "T p = T q" "T z = T q" "fused_as T N rm ftz x y p z q w op' (to_add r)"
        "op_defs op' = [q]" "\<And>rm ftz x y v. op' \<noteq> binop ''mul'' rm ftz x y v" "z \<in> set (all_inputs op')" "z \<noteq> p"
      have o: "op' = op" using r(2) e(1) by simp
      have "z \<notin> gone rp"
      proof
        assume "z \<in> gone rp"
        from gone [OF this] obtain r' rm' ftz' x' y' op2 where r': "r' \<in> set A" "to_remove r' = [binop ''mul'' rm' ftz' x' y' z, op2]"
          "\<forall>op' \<in> set (traverse ops). z \<in> set (all_inputs op') \<longrightarrow> op' \<in> set (to_remove r')" by blast
        then have "op \<in> set (to_remove r')" using op e(10) o by blast
        then have "op2 = op" using r'(2) e(9) [of rm' ftz' x' y' z] o by auto
        then have "r' = r" using same_key [OF r'(1) r(1)] r'(2) r(2) by simp
        then show False using r'(2) e(1,11) by simp
      qed
      moreover have "q \<notin> gone rp"
      proof
        assume "q \<in> gone rp"
        from gone [OF this] obtain rm' ftz' x' y' where m: "binop ''mul'' rm' ftz' x' y' q \<in> set (traverse ops)" by blast
        have "op = binop ''mul'' rm' ftz' x' y' q" by (rule same_op [OF dist op m, of q]) (use e(8) o in simp_all)
        then show False using e(9) o by blast
      qed
      moreover have "binop ''mul'' rm2 ftz x y p \<in> set (snd rp)" using r(1) e(1) by (force simp: snd)
      ultimately have "fusion T N rp op news"
        unfolding fusion_def using e(2-7) o r(3) by blast
      then show ?thesis by (simp add: fits_rewrite_def Some)
    qed
  next
    case None
    show ?thesis
    proof (cases "op \<in> set (snd rp)")
      case True
      then obtain r where r: "r \<in> set A" "op \<in> set (to_remove r)" by (auto simp: snd)
      show ?thesis
      proof (rule E [OF r(1) r(1)])
        fix rm rm2 ftz x y p z q w op'
        assume e: "to_remove r = [binop ''mul'' rm2 ftz x y p, op']" "float_type (T q)" "T p = T q" "x \<noteq> p" "y \<noteq> p"
        have "op \<noteq> op'" using last_key [OF r(1)] None e(1) by auto
        then have o: "op = binop ''mul'' rm2 ftz x y p" using r(2) e(1) by simp
        have "v \<notin> gone rp" if v: "v = x \<or> v = y" for v
        proof
          assume "v \<in> gone rp"
          from gone [OF this] obtain r' rm' ftz' x' y' op2 where r': "r' \<in> set A" "to_remove r' = [binop ''mul'' rm' ftz' x' y' v, op2]"
            "\<forall>op' \<in> set (traverse ops). v \<in> set (all_inputs op') \<longrightarrow> op' \<in> set (to_remove r')" by blast
          moreover have "v \<in> set (all_inputs op)" using v by (auto simp: o operands_vars_def)
          ultimately have "op \<in> set (to_remove r')" using op by blast
          moreover have "op \<noteq> op2" using last_key [OF r'(1)] None r'(2) by auto
          ultimately have "v = p" using r'(2) o by simp
          then show False using v e(4,5) by blast
        qed
        then have "{x, y} \<inter> gone rp = {}" by blast
        moreover have "float_type (T p)" using e(2,3) by simp
        ultimately show ?thesis using None True o unfolding fits_rewrite_def by simp
      qed
    next
      case False
      have "v \<notin> gone rp" if "v \<in> set (all_inputs op) \<union> set (op_defs op)" for v
      proof
        assume "v \<in> gone rp"
        from gone [OF this] obtain r rm ftz x y op2 where r: "r \<in> set A" "to_remove r = [binop ''mul'' rm ftz x y v, op2]"
          "binop ''mul'' rm ftz x y v \<in> set (traverse ops)"
          "\<forall>op' \<in> set (traverse ops). v \<in> set (all_inputs op') \<longrightarrow> op' \<in> set (to_remove r)" by blast
        have "op \<in> set (to_remove r)"
        proof (cases "v \<in> set (all_inputs op)")
          case True
          then show ?thesis using r(4) op by blast
        next
          case out: False
          then have "op = binop ''mul'' rm ftz x y v" using that by (intro same_op [OF dist op r(3), of v]) auto
          then show ?thesis by (simp add: r(2))
        qed
        then show False using False r(1) by (auto simp: snd)
      qed
      then show ?thesis using None False unfolding fits_rewrite_def by auto
    qed
  qed
qed

section \<open>Properties\<close>

text \<open>
  C7. Fusing products with sums never fails on a typed kernel in single assignment form, and
  the kernel runs as before, with the same memory and the same values, on every machine whose
  fused operation computes what the product and the sum compute one after the other. So the
  only thing that the pass changes is the contraction itself: no product that something else
  uses is removed, and every fused operation finds its operands.
\<close>

theorem rewrite_patterns_sound:
  assumes M: "contracts M" "types M = typemap c"
    and wf: "scoped (set params) ops" "distinct (params @ all_defs ops)" "typed_ctx (set (params @ all_defs ops)) c"
    and typed: "list_all (binary_typed (typemap c)) (traverse ops)" and env: "set params \<subseteq> dom env"
  shows "\<exists>ops' c'. rewrite_patterns ops c = Inr (ops', c')
    \<and> forget (exec (M\<lparr>types := typemap c'\<rparr>) n ops' env m) = forget (exec M n ops env m)"
proof -
  let ?N = "set (params @ all_defs ops)" and ?P = "set (traverse ops)"
  have P: "set (all_inputs op) \<union> set (op_defs op) \<subseteq> ?N \<and> binary_typed (typemap c) op" if "op \<in> ?P" for op
    using inputs_subset [OF wf(1) that] op_defs_subset [OF that] typed that by (auto simp: list_all_iff)
  have "matching (typemap c) ?N ?P \<lparr>float_muls = Map.empty, rewrite_list = [], ir_ctx = c\<rparr>"
    using wf(3) by (simp add: matching_def)
  from match_ops_ok [OF P subset_refl this] obtain ctx where
    ctx: "fold_res match_op (traverse ops) \<lparr>float_muls = Map.empty, rewrite_list = [], ir_ctx = c\<rparr> = Inr ctx"
    and mt: "matching (typemap c) ?N ?P ctx" by blast
  let ?T = "typemap (ir_ctx ctx)"
  have rw: "\<forall>r \<in> set (rewrite_list ctx). kernel_rewrite ?T ?N ops r"
    using mt unfolding matching_def kernel_rewrite_def by blast
  have "selected ops [] ([], [])" by (simp add: selected_def)
  moreover have "\<forall>r \<in> set (rewrite_list ctx). to_remove r \<noteq> []" using rw by (auto simp: kernel_rewrite_def)
  ultimately obtain A where A: "set A \<subseteq> set (rewrite_list ctx)" "selected ops A (fold (select_rewrite ops) (rewrite_list ctx) ([], []))"
    using select_all_ok [of "rewrite_list ctx" ops "[]" "([], [])"] by auto
  define rp where "rp = fold (select_rewrite ops) (rewrite_list ctx) ([], [])"
  have dist: "distinct (all_defs ops)" using wf(2) by simp
  have N: "set (all_defs ops) \<subseteq> ?N" by simp
  have sel: "selected ops A rp" "\<forall>r \<in> set A. kernel_rewrite ?T ?N ops r" using A rw by (auto simp: rp_def)
  have fits: "\<forall>op \<in> set (traverse ops). fits_rewrite ?T ?N rp op"
    using selected_fits [OF sel dist N] by blast
  have inP: "op \<in> ?P" if "op \<in> set (snd rp)" for op
    using that sel by (auto simp: selected_def kernel_rewrite_def)
  have one: "rm' = rm \<and> ftz' = ftz \<and> x' = x \<and> y' = y"
    if "binop ''mul'' rm ftz x y p \<in> set (snd rp)" "binop ''mul'' rm' ftz' x' y' p \<in> set (snd rp)" for rm ftz x y rm' ftz' x' y' p
    using same_op [OF dist inP [OF that(1)] inP [OF that(2)], of p] by simp
  have out: "p \<notin> set params" if "p \<in> gone rp" for p
    using that inP op_defs_subset wf(2) by (fastforce simp: gone_def)
  have "contracted M ?T rp (set params) env env"
    using env out unfolding contracted_def gone_def by blast
  moreover have "\<forall>v \<in> ?N. types M v = ?T v" using mt M(2) by (simp add: matching_def)
  ultimately have "forget (exec (M\<lparr>types := ?T\<rparr>) n (apply_rewrites rp ops) env m) = forget (exec M n ops env m)"
    using wf(1,2) fits by (intro rewrite_sim [OF M(1) refl _ one]) auto
  moreover have "rewrite_patterns ops c = Inr (apply_rewrites rp ops, ir_ctx ctx)"
    by (simp add: rewrite_patterns_def ctx rp_def)
  ultimately show ?thesis by blast
qed

text \<open>A machine whose float operations are exact, on integers; it records what is stored.\<close>

definition arg_value :: "(string \<times> int operand_val) list \<Rightarrow> string \<Rightarrow> int" where
  "arg_value args n = (case map_of args n of Some (Val x) \<Rightarrow> x | _ \<Rightarrow> 0)"

definition exact_result :: "op_class \<Rightarrow> (string \<times> int operand_val) list \<Rightarrow> int" where
  "exact_result cl args =
     (case cl of
        RawBinaryArithmetic fn rm ftz \<Rightarrow>
          (if fn = ''add'' then arg_value args ''lhs'' + arg_value args ''rhs''
           else if fn = ''sub'' then arg_value args ''lhs'' - arg_value args ''rhs''
           else arg_value args ''lhs'' * arg_value args ''rhs'')
      | Unary fn rm ftz \<Rightarrow> - arg_value args ''operand''
      | FusedMulAdd rm ftz \<Rightarrow> arg_value args ''lhs'' * arg_value args ''rhs'' + arg_value args ''acc''
      | _ \<Rightarrow> 0)"

definition exact_machine :: "(var \<rightharpoonup> ir_type) \<Rightarrow> (int, int list) machine" where
  "exact_machine T =
     \<lparr>run_op = (\<lambda>cl tys args m. if cl = StorePointer then ([], m @ [arg_value args ''value'']) else (map (\<lambda>_. exact_result cl args) tys, m)),
      types = T, truth = (\<lambda>v. v \<noteq> 0), range_values = (\<lambda>a b s. [a .. b - 1])\<rparr>"

lemma exact_machine_contracts: "contracts (exact_machine T)"
  unfolding contracts_def
proof (intro allI impI)
  fix ty rm rm2 ftz x y z
  have "product (exact_machine T) rm2 ftz ty x y (x * y)" "negation (exact_machine T) ty z (- z)" "negation (exact_machine T) ty x (- x)"
    by (simp_all add: product_def negation_def exact_machine_def exact_result_def arg_value_def)
  then show "\<exists>p. product (exact_machine T) rm2 ftz ty x y p
      \<and> (\<forall>m. run_op (exact_machine T) (RawBinaryArithmetic ''add'' rm ftz) [ty] (binary_args p z) m =
              run_op (exact_machine T) (FusedMulAdd (effective_rounding rm) ftz) [ty] (fma_args x y z) m)
      \<and> (\<forall>m. run_op (exact_machine T) (RawBinaryArithmetic ''add'' rm ftz) [ty] (binary_args z p) m =
              run_op (exact_machine T) (FusedMulAdd (effective_rounding rm) ftz) [ty] (fma_args x y z) m)
      \<and> (\<exists>z'. negation (exact_machine T) ty z z' \<and> (\<forall>m. run_op (exact_machine T) (RawBinaryArithmetic ''sub'' rm ftz) [ty] (binary_args p z) m =
              run_op (exact_machine T) (FusedMulAdd (effective_rounding rm) ftz) [ty] (fma_args x y z') m))
      \<and> (\<exists>x'. negation (exact_machine T) ty x x' \<and> (\<forall>m. run_op (exact_machine T) (RawBinaryArithmetic ''sub'' rm ftz) [ty] (binary_args z p) m =
              run_op (exact_machine T) (FusedMulAdd (effective_rounding rm) ftz) [ty] (fma_args x' y z) m))"
    by (intro exI [of _ "x * y"] conjI exI [of _ "- z"] exI [of _ "- x"])
      (simp_all add: exact_machine_def exact_result_def arg_value_def)
qed

text \<open>
  One product is used in a branch, one on the right of a difference, and one twice, so it stays.
\<close>

definition fusion_program :: "operation list" where
  "fusion_program =
     [binop ''mul'' None False ''a'' ''b'' ''t'', binop ''mul'' (Some Rnd_RN) False ''a'' ''c'' ''u'',
      binop ''mul'' None False ''b'' ''c'' ''w'',
      IfElse 1 ''c'' [binop ''add'' (Some Rnd_RN) False ''c'' ''t'' ''s'', EndBranch [''s'']] [EndBranch [''c'']] [''z''],
      binop ''sub'' None False ''z'' ''u'' ''v'', binop ''add'' None False ''w'' ''w'' ''x'',
      Plain StorePointer [(''value'', OVar ''v'')] [], Plain StorePointer [(''value'', OVar ''x'')] [], Return]"

definition fusion_params :: "var list" where
  "fusion_params = [''a'', ''b'', ''c'']"

definition fusion_context :: ir_context where
  "fusion_context = sample_context\<lparr>all_vars := map (\<lambda>v. (v, v)) (fusion_params @ all_defs fusion_program),
     typemap := map_of (map (\<lambda>v. (v, TileTy float32 [])) (fusion_params @ all_defs fusion_program))\<rparr>"

definition fusion_args :: "var \<rightharpoonup> int" where
  "fusion_args = map_of [(''a'', 2), (''b'', 3), (''c'', 5)]"

lemma fusion_rewritten:
  "map_sum id fst (rewrite_patterns fusion_program fusion_context) = Inr
     [binop ''mul'' None False ''b'' ''c'' ''w'',
      IfElse 1 ''c'' [fma Rnd_RN False ''a'' ''b'' ''c'' ''s'', EndBranch [''s'']] [EndBranch [''c'']] [''z''],
      Plain (Unary ''neg'' None False) [(''operand'', OVar ''a'')] [''$0''], fma Rnd_RN False ''$0'' ''c'' ''z'' ''v'',
      binop ''add'' None False ''w'' ''w'' ''x'',
      Plain StorePointer [(''value'', OVar ''v'')] [], Plain StorePointer [(''value'', OVar ''x'')] [], Return]"
  by code_simp

lemma returned_case: "(case q of Returned \<Rightarrow> P | _ \<Rightarrow> False) \<longleftrightarrow> q = Returned \<and> P"
  by (cases q) auto

theorem rewrite_patterns_sound_witness:
  "\<exists>ops' c'. rewrite_patterns fusion_program fusion_context = Inr (ops', c')
    \<and> forget (exec (exact_machine (typemap fusion_context)\<lparr>types := typemap c'\<rparr>) 0 ops' fusion_args []) = Some (Returned, [1, 30])"
proof -
  have run: "forget (exec (exact_machine (typemap fusion_context)) 0 fusion_program fusion_args []) = Some (Returned, [1, 30])"
  proof -
    have "(case exec (exact_machine (typemap fusion_context)) 0 fusion_program fusion_args [] of
        Some (q, m) \<Rightarrow> (case q of Returned \<Rightarrow> m = [1, 30] | _ \<Rightarrow> False) | None \<Rightarrow> False)" by code_simp
    then show ?thesis by (auto simp: forget_def returned_case split: option.splits)
  qed
  have "dom (typemap fusion_context) = set (fusion_params @ all_defs fusion_program)" "var_names fusion_context = set (fusion_params @ all_defs fusion_program)"
    by (simp_all add: fusion_context_def dom_map_of_conv_image_fst image_image image_Un var_names_def)
  then have ctx: "typed_ctx (set (fusion_params @ all_defs fusion_program)) fusion_context" by (simp add: typed_ctx_def)
  have typed: "list_all (binary_typed (typemap fusion_context)) (traverse fusion_program)" by code_simp
  have scope: "scoped (set fusion_params) fusion_program" by (simp add: fusion_params_def fusion_program_def operands_vars_def)
  have dist: "distinct (fusion_params @ all_defs fusion_program)" by (simp add: fusion_params_def fusion_program_def)
  show ?thesis unfolding run [symmetric]
    by (rule rewrite_patterns_sound [OF exact_machine_contracts _ scope dist ctx typed])
      (simp_all add: exact_machine_def fusion_args_def fusion_params_def dom_map_of_conv_image_fst)
qed

end
