(* ===== verification/NameMangling.thy ===== *)
theory NameMangling
  imports Signature TileIR
begin

text \<open>
  \<^verbatim>\<open>compilation/_name_mangling.py\<close>: the symbol of an exported kernel spells out its signature.
  All errors that the cursor makes are ValueErrors; their messages, and with them the offsets
  in the symbol, are left out. The calling convention does not change the format, so the
  functions on constraints do not take it.
\<close>

section \<open>Numbers\<close>

definition hex_digit :: "nat \<Rightarrow> char" where
  "hex_digit d = char_of (if d < 10 then 48 + d else 87 + d)"

fun hexadecimal :: "nat \<Rightarrow> string" where
  "hexadecimal n = (if n < 16 then [hex_digit n] else hexadecimal (n div 16) @ [hex_digit (n mod 16)])"

declare hexadecimal.simps [simp del]

definition digit_value :: "char \<Rightarrow> nat" where
  "digit_value c = (if of_char c < (97 :: nat) then of_char c - 48 else of_char c - 87)"

text \<open>\<^verbatim>\<open>int(s, base)\<close> of a string of digits.\<close>

definition parse_digits :: "nat \<Rightarrow> string \<Rightarrow> nat" where
  "parse_digits base s = foldl (\<lambda>a c. a * base + digit_value c) 0 s"

definition mangle_signed_int :: "int \<Rightarrow> string" where
  "mangle_signed_int val = (if val < 0 then ''_'' @ decimal (nat (- val)) else decimal (nat val))"

text \<open>\<^verbatim>\<open>f"{i:016x}"\<close>.\<close>

definition hex16 :: "64 word \<Rightarrow> string" where
  "hex16 w = (let h = hexadecimal (unat w) in replicate (16 - length h) CHR ''0'' @ h)"

section \<open>The cursor\<close>

text \<open>
  \<^verbatim>\<open>_Cursor\<close>, with the id of the group that was read last (\<^verbatim>\<open>_AliasGroupDemangler\<close>). The regular
  expressions of the source are single characters, one or more characters of a class, or a
  fixed number of them.
\<close>

record cursor =
  remaining :: string
  last_seen_id :: int

definition is_digit :: "char \<Rightarrow> bool" where
  "is_digit c \<longleftrightarrow> 48 \<le> (of_char c :: nat) \<and> (of_char c :: nat) \<le> 57"

definition is_lower :: "char \<Rightarrow> bool" where
  "is_lower c \<longleftrightarrow> 97 \<le> (of_char c :: nat) \<and> (of_char c :: nat) \<le> 122"

definition is_upper :: "char \<Rightarrow> bool" where
  "is_upper c \<longleftrightarrow> 65 \<le> (of_char c :: nat) \<and> (of_char c :: nat) \<le> 90"

definition is_hex :: "char \<Rightarrow> bool" where
  "is_hex c \<longleftrightarrow> is_digit c \<or> 97 \<le> (of_char c :: nat) \<and> (of_char c :: nat) \<le> 102"

definition read_char :: "char \<Rightarrow> cursor \<Rightarrow> cursor option" where
  "read_char c cur =
     (case remaining cur of [] \<Rightarrow> None | x # xs \<Rightarrow> if x = c then Some (cur\<lparr>remaining := xs\<rparr>) else None)"

definition expect_char :: "char \<Rightarrow> cursor \<Rightarrow> cursor res" where
  "expect_char c cur = (case read_char c cur of None \<Rightarrow> Inl ValueError | Some cur \<Rightarrow> Inr cur)"

definition read_while :: "(char \<Rightarrow> bool) \<Rightarrow> cursor \<Rightarrow> (string \<times> cursor) option" where
  "read_while P cur =
     (let s = takeWhile P (remaining cur) in
      if s = [] then None else Some (s, cur\<lparr>remaining := dropWhile P (remaining cur)\<rparr>))"

definition expect_while :: "(char \<Rightarrow> bool) \<Rightarrow> cursor \<Rightarrow> (string \<times> cursor) res" where
  "expect_while P cur = (case read_while P cur of None \<Rightarrow> Inl ValueError | Some r \<Rightarrow> Inr r)"

definition expect_exactly :: "nat \<Rightarrow> (char \<Rightarrow> bool) \<Rightarrow> cursor \<Rightarrow> (string \<times> cursor) res" where
  "expect_exactly n P cur =
     (if n \<le> length (remaining cur) \<and> list_all P (take n (remaining cur))
      then Inr (take n (remaining cur), cur\<lparr>remaining := drop n (remaining cur)\<rparr>) else Inl ValueError)"

definition expect_nat :: "cursor \<Rightarrow> (nat \<times> cursor) res" where
  "expect_nat cur = and_then (expect_while is_digit cur) (\<lambda>(s, cur). Inr (parse_digits 10 s, cur))"

definition demangle_signed_int :: "cursor \<Rightarrow> (int \<times> cursor) res" where
  "demangle_signed_int cur =
     (let (sign, cur) = (case read_char CHR ''_'' cur of None \<Rightarrow> (1, cur) | Some cur \<Rightarrow> (- 1, cur)) in
      and_then (expect_nat cur) (\<lambda>(n, cur). Inr (sign * int n, cur)))"

definition demangle_divisibility :: "cursor \<Rightarrow> (int \<times> cursor) res" where
  "demangle_divisibility cur =
     and_then (demangle_signed_int cur) (\<lambda>(x, cur). if x \<le> 1 then Inl ValueError else Inr (x, cur))"

section \<open>Data types\<close>

definition mangled_dtype :: "(DType \<times> string) list" where
  "mangled_dtype =
     [(boolean, ''b8''), (uint8, ''u8''), (uint16, ''u16''), (uint32, ''u32''), (uint64, ''u64''),
      (int8, ''i8''), (int16, ''i16''), (int32, ''i32''), (int64, ''i64''),
      (float16, ''f16''), (float32, ''f32''), (float64, ''f64''), (bfloat16, ''bf16''), (tfloat32, ''tf32''),
      (float8_e4m3fn, ''f8m3fn''), (float8_e5m2, ''f8m2''), (float8_e8m0fnu, ''f8m0fnu'')]"

definition mangle_dtype :: "DType \<Rightarrow> string res" where
  "mangle_dtype t = (case map_of mangled_dtype t of None \<Rightarrow> Inl ValueError | Some s \<Rightarrow> Inr s)"

definition demangle_dtype :: "cursor \<Rightarrow> (DType \<times> cursor) res" where
  "demangle_dtype cur =
     and_then (expect_while (\<lambda>c. is_lower c \<or> is_digit c) cur) (\<lambda>(s, cur).
       case find (\<lambda>(d, n). n = s) mangled_dtype of None \<Rightarrow> Inl ValueError | Some (d, n) \<Rightarrow> Inr (d, cur))"

section \<open>Alias groups\<close>

text \<open>The ids of the groups, in the order of their first use; the names by their ids.\<close>

definition add_group :: "string \<Rightarrow> (string \<times> nat) list \<times> string list \<Rightarrow> (string \<times> nat) list \<times> string list" where
  "add_group ag = (\<lambda>(name2idx, idx2name).
     if ag \<in> fst ` set name2idx then (name2idx, idx2name)
     else (name2idx @ [(ag, length name2idx)], idx2name @ [ag]))"

definition map_alias_group_names :: "ParameterConstraint list \<Rightarrow> (string \<times> nat) list \<times> string list" where
  "map_alias_group_names params =
     fold (\<lambda>(kind, groups). fold add_group groups) (collect_alias_groups params) ([], [])"

definition group_ids :: "(string \<times> nat) list \<Rightarrow> string list \<Rightarrow> nat list res" where
  "group_ids m groups =
     and_then (map_res (\<lambda>ag. case map_of m ag of None \<Rightarrow> Inl KeyError | Some i \<Rightarrow> Inr i) groups) (\<lambda>ids. Inr (sort ids))"

definition mangle_group_ids :: "nat list \<Rightarrow> string" where
  "mangle_group_ids ids = concat (map (\<lambda>i. CHR ''g'' # hexadecimal i) ids)"

definition group_name :: "string list option \<Rightarrow> nat \<Rightarrow> string res" where
  "group_name names i =
     (case names of
        None \<Rightarrow> Inr (''group'' @ decimal i)
      | Some ns \<Rightarrow> if i < length ns then Inr (ns ! i) else Inl IndexError)"

text \<open>The loop of \<^verbatim>\<open>demangle_group_ids\<close>; every round reads a character, so the length is enough fuel.\<close>

fun demangle_groups :: "nat \<Rightarrow> string list option \<Rightarrow> nat option \<Rightarrow> cursor \<Rightarrow> (string list \<times> cursor) res" where
  "demangle_groups 0 names prev cur = Inl RuntimeError"
| "demangle_groups (Suc n) names prev cur =
     (case read_char CHR ''g'' cur of
        None \<Rightarrow> Inr ([], cur)
      | Some cur \<Rightarrow>
          and_then (expect_while is_hex cur) (\<lambda>(s, cur).
            if length s > 1 \<and> hd s = CHR ''0'' then Inl ValueError
            else let i = parse_digits 16 s in
              if int i > last_seen_id cur + 1 then Inl ValueError
              else if prev \<noteq> None \<and> i \<le> the prev then Inl ValueError
              else
                and_then (group_name names i) (\<lambda>name.
                and_then (demangle_groups n names (Some i) (cur\<lparr>last_seen_id := int i\<rparr>)) (\<lambda>(rest, cur).
                  Inr (name # rest, cur)))))"

definition demangle_group_ids :: "string list option \<Rightarrow> cursor \<Rightarrow> (string list \<times> cursor) res" where
  "demangle_group_ids names cur = demangle_groups (Suc (length (remaining cur))) names None cur"

section \<open>Arrays\<close>

text \<open>
  The predicates of the axes, with the mask of the axes that have them, in an ordered
  dictionary; a value that is the default of its list is None here.
\<close>

definition axis_pred :: "char \<Rightarrow> int \<Rightarrow> string" where
  "axis_pred letter v = letter # mangle_signed_int v"

definition add_axis :: "string \<Rightarrow> nat \<Rightarrow> (string \<times> nat) list \<Rightarrow> (string \<times> nat) list" where
  "add_axis pred i preds =
     (if pred \<in> fst ` set preds then map (\<lambda>(p, m). (p, if p = pred then m OR 2 ^ i else m)) preds
      else preds @ [(pred, 2 ^ i)])"

definition collect_axis_predicate ::
  "int option list \<Rightarrow> char \<Rightarrow> (string \<times> nat) list \<Rightarrow> (string \<times> nat) list" where
  "collect_axis_predicate values letter preds =
     fold (\<lambda>(i, v) preds. case v of None \<Rightarrow> preds | Some v \<Rightarrow> add_axis (axis_pred letter v) i preds)
       (List.enumerate 0 values) preds"

definition not_one :: "int \<Rightarrow> int option" where
  "not_one v = (if v = 1 then None else Some v)"

definition axis_predicates :: "array_constraint \<Rightarrow> (string \<times> nat) list" where
  "axis_predicates a =
     collect_axis_predicate (stride_lower_bound_incl a) CHR ''l''
     (collect_axis_predicate (map not_one (stride_divisible_by a)) CHR ''v''
     (collect_axis_predicate (stride_constant a) CHR ''t''
     (collect_axis_predicate (map not_one (shape_divisible_by a)) CHR ''i''
     (collect_axis_predicate (shape_constant a) CHR ''s'' []))))"

definition by_mask :: "(string \<times> nat) list \<Rightarrow> (nat \<times> string) list" where
  "by_mask preds =
     fold (\<lambda>(p, m) d. if m \<in> fst ` set d then map (\<lambda>(m', s). (m', if m' = m then s @ p else s)) d else d @ [(m, p)])
       preds []"

definition mask_text :: "(nat \<times> string) list \<Rightarrow> nat \<Rightarrow> string" where
  "mask_text d m = ''_'' @ hexadecimal m @ (case map_of d m of None \<Rightarrow> [] | Some s \<Rightarrow> s)"

definition array_extras :: "array_constraint \<Rightarrow> nat list \<Rightarrow> string res" where
  "array_extras a ids =
     (let extras = (if base_addr_divisible_by a \<noteq> 1 then ''p'' @ mangle_signed_int (base_addr_divisible_by a) else [])
                   @ mangle_group_ids ids @ (if may_alias_internally a then ''i'' else [])
      in if ac_index_dtype a = uint32 then Inr (extras @ ''u'')
         else if ac_index_dtype a = int64 then Inr (extras @ ''w'')
         else and_then (py_assert (ac_index_dtype a = int32)) (\<lambda>_. Inr extras))"

definition mangle_array_constraint :: "(string \<times> nat) list \<Rightarrow> array_constraint \<Rightarrow> string res" where
  "mangle_array_constraint m a =
     and_then (mangle_dtype (ac_dtype a)) (\<lambda>t.
     let d = by_mask (axis_predicates a);
         ret = decimal (ac_ndim a) @ t @ concat (map (mask_text d) (sort (map fst d))) in
     and_then (group_ids m (ac_alias_groups a)) (\<lambda>ids.
     and_then (array_extras a ids) (\<lambda>extras.
       Inr (if extras \<noteq> [] then ret @ ''_'' @ extras else ret))))"

record axis_lists =
  axis_shapes :: "int option list"
  axis_shape_divs :: "int list"
  axis_strides :: "int option list"
  axis_stride_divs :: "int list"
  axis_lower_bounds :: "int option list"

definition read_optional :: "char \<Rightarrow> (cursor \<Rightarrow> ('a \<times> cursor) res) \<Rightarrow> 'a \<Rightarrow> cursor \<Rightarrow> ('a \<times> cursor) res" where
  "read_optional c parse default_value cur =
     (case read_char c cur of None \<Rightarrow> Inr (default_value, cur) | Some cur \<Rightarrow> parse cur)"

definition demangle_optional :: "cursor \<Rightarrow> (int option \<times> cursor) res" where
  "demangle_optional cur = and_then (demangle_signed_int cur) (\<lambda>(v, cur). Inr (Some v, cur))"

text \<open>The predicates after one mask, as lists of one element each.\<close>

definition demangle_predicates :: "cursor \<Rightarrow> (axis_lists \<times> cursor) res" where
  "demangle_predicates cur =
     and_then (read_optional CHR ''s'' demangle_optional None cur) (\<lambda>(s, cur).
     and_then (read_optional CHR ''i'' demangle_divisibility 1 cur) (\<lambda>(i, cur).
     and_then (read_optional CHR ''t'' demangle_optional None cur) (\<lambda>(t, cur).
     and_then (read_optional CHR ''v'' demangle_divisibility 1 cur) (\<lambda>(v, cur).
     and_then (read_optional CHR ''l'' demangle_optional None cur) (\<lambda>(l, cur).
       Inr (\<lparr>axis_shapes = [s], axis_shape_divs = [i], axis_strides = [t], axis_stride_divs = [v],
             axis_lower_bounds = [l]\<rparr>, cur))))))"

text \<open>An axis that has no value yet gets one, unless it is the default.\<close>

definition put_once :: "'a \<Rightarrow> 'a \<Rightarrow> nat \<Rightarrow> 'a list \<Rightarrow> 'a list res" where
  "put_once default_value v i xs =
     (if v = default_value then Inr xs
      else if xs ! i \<noteq> default_value then Inl ValueError else Inr (xs[i := v]))"

definition set_axis :: "axis_lists \<Rightarrow> nat \<Rightarrow> axis_lists \<Rightarrow> axis_lists res" where
  "set_axis p i xs =
     and_then (put_once None (hd (axis_shapes p)) i (axis_shapes xs)) (\<lambda>s.
     and_then (put_once 1 (hd (axis_shape_divs p)) i (axis_shape_divs xs)) (\<lambda>d.
     and_then (put_once None (hd (axis_strides p)) i (axis_strides xs)) (\<lambda>t.
     and_then (put_once 1 (hd (axis_stride_divs p)) i (axis_stride_divs xs)) (\<lambda>v.
     and_then (put_once None (hd (axis_lower_bounds p)) i (axis_lower_bounds xs)) (\<lambda>l.
       Inr \<lparr>axis_shapes = s, axis_shape_divs = d, axis_strides = t, axis_stride_divs = v, axis_lower_bounds = l\<rparr>)))))"

text \<open>The axes of a mask, from the last to the first.\<close>

definition mask_axes :: "nat \<Rightarrow> nat \<Rightarrow> nat list" where
  "mask_axes ndim m = rev (filter (bit m) [0..<ndim])"

text \<open>\<^verbatim>\<open>cursor.read("_[0-9a-f]+")\<close>.\<close>

definition read_mask :: "cursor \<Rightarrow> (nat \<times> cursor) option" where
  "read_mask cur =
     (case read_char CHR ''_'' cur of
        None \<Rightarrow> None
      | Some cur \<Rightarrow> (case read_while is_hex cur of None \<Rightarrow> None | Some (s, cur) \<Rightarrow> Some (parse_digits 16 s, cur)))"

fun demangle_axes :: "nat \<Rightarrow> nat \<Rightarrow> axis_lists \<Rightarrow> cursor \<Rightarrow> (axis_lists \<times> cursor) res" where
  "demangle_axes 0 ndim xs cur = Inl RuntimeError"
| "demangle_axes (Suc n) ndim xs cur =
     (case read_mask cur of
        None \<Rightarrow> Inr (xs, cur)
      | Some (m, cur) \<Rightarrow>
          if m = 0 then Inl ValueError
          else if m \<ge> 2 ^ ndim then Inl ValueError
          else
            and_then (demangle_predicates cur) (\<lambda>(p, cur).
            and_then (fold_res (set_axis p) (mask_axes ndim m) xs) (\<lambda>xs. demangle_axes n ndim xs cur)))"

definition static_stride_alone :: "axis_lists \<Rightarrow> bool" where
  "static_stride_alone xs \<longleftrightarrow>
     (\<forall>(t, v, l) \<in> set (zip (axis_strides xs) (zip (axis_stride_divs xs) (axis_lower_bounds xs))).
        t \<noteq> None \<longrightarrow> v = 1 \<and> l = None)"

text \<open>The part of an array constraint after the axes: the extras, when one follows.\<close>

definition demangle_extras ::
  "string list option \<Rightarrow> cursor \<Rightarrow> ((int \<times> string list \<times> bool \<times> DType) \<times> cursor) res" where
  "demangle_extras names cur =
     (case remaining cur of
        x # y # zs \<Rightarrow>
          if x = CHR ''_'' \<and> is_lower y then
            and_then (expect_char CHR ''_'' cur) (\<lambda>cur.
            and_then (read_optional CHR ''p'' demangle_divisibility 1 cur) (\<lambda>(base, cur).
            and_then (demangle_group_ids names cur) (\<lambda>(groups, cur).
            let (i, cur) = (case read_char CHR ''i'' cur of None \<Rightarrow> (False, cur) | Some cur \<Rightarrow> (True, cur));
                (t, cur) =
                  (case read_char CHR ''u'' cur of
                     Some cur \<Rightarrow> (uint32, cur)
                   | None \<Rightarrow> (case read_char CHR ''w'' cur of Some cur \<Rightarrow> (int64, cur) | None \<Rightarrow> (int32, cur)))
            in Inr ((base, groups, i, t), cur))))
          else Inr ((1, [], False, int32), cur)
      | _ \<Rightarrow> Inr ((1, [], False, int32), cur))"

definition demangle_array_constraint ::
  "string list option \<Rightarrow> cursor \<Rightarrow> (array_constraint \<times> cursor) res" where
  "demangle_array_constraint names cur =
     and_then (expect_nat cur) (\<lambda>(ndim, cur).
     and_then (demangle_dtype cur) (\<lambda>(t, cur).
     and_then (demangle_axes (Suc (length (remaining cur))) ndim
         \<lparr>axis_shapes = replicate ndim None, axis_shape_divs = replicate ndim 1, axis_strides = replicate ndim None,
          axis_stride_divs = replicate ndim 1, axis_lower_bounds = replicate ndim None\<rparr> cur) (\<lambda>(xs, cur).
     if \<not> static_stride_alone xs then Inl ValueError
     else
       and_then (demangle_extras names cur) (\<lambda>((base, groups, may_alias, index), cur).
       and_then (ArrayConstraint_init t (int ndim) index (Each (axis_lower_bounds xs)) groups may_alias
           (Each (axis_strides xs)) (Each (axis_shapes xs)) (Each (axis_stride_divs xs)) (Each (axis_shape_divs xs)) base)
         (\<lambda>a. Inr (a, cur))))))"

section \<open>Constraints\<close>

definition mangle_constant :: "constant_scalar \<Rightarrow> string" where
  "mangle_constant c =
     (case c of
        BoolConstant b \<Rightarrow> ''B'' @ (if b then ''1'' else ''0'')
      | IntConstant i \<Rightarrow> ''I'' @ mangle_signed_int i
      | FloatConstant w \<Rightarrow> ''F'' @ hex16 w)"

fun mangle_constraint :: "(string \<times> nat) list \<Rightarrow> ParameterConstraint \<Rightarrow> string res" where
  "mangle_constraint m (ArrayConstraint a) = and_then (mangle_array_constraint m a) (\<lambda>s. Inr (''A'' @ s))"
| "mangle_constraint m (ListConstraint a groups may_alias) =
     and_then (group_ids m groups) (\<lambda>ids.
     and_then (mangle_array_constraint m a) (\<lambda>s.
       Inr (''L'' @ mangle_group_ids ids @ (if may_alias then ''i'' else []) @ ''A'' @ s)))"
| "mangle_constraint m (TupleConstraint items) =
     and_then (map_res (mangle_constraint m) items) (\<lambda>ss. Inr (''T'' @ decimal (length items) @ concat ss))"
| "mangle_constraint m (ScalarConstraint t) = and_then (mangle_dtype t) (\<lambda>s. Inr (''S'' @ s))"
| "mangle_constraint m (ConstantConstraint c) = Inr (mangle_constant c)"

fun demangle_items ::
  "(cursor \<Rightarrow> (ParameterConstraint \<times> cursor) res) \<Rightarrow> nat \<Rightarrow> cursor \<Rightarrow> (ParameterConstraint list \<times> cursor) res" where
  "demangle_items f 0 cur = Inr ([], cur)"
| "demangle_items f (Suc k) cur =
     and_then (f cur) (\<lambda>(p, cur). and_then (demangle_items f k cur) (\<lambda>(ps, cur). Inr (p # ps, cur)))"

text \<open>Every nested constraint starts with a character of its own, so the length is enough fuel.\<close>

fun demangle_constraint :: "nat \<Rightarrow> string list option \<Rightarrow> cursor \<Rightarrow> (ParameterConstraint \<times> cursor) res" where
  "demangle_constraint 0 names cur = Inl RuntimeError"
| "demangle_constraint (Suc n) names cur =
     (case remaining cur of
        [] \<Rightarrow> Inl ValueError
      | c # rest \<Rightarrow>
          let cur = cur\<lparr>remaining := rest\<rparr> in
          if c = CHR ''A'' then
            and_then (demangle_array_constraint names cur) (\<lambda>(a, cur). Inr (ArrayConstraint a, cur))
          else if c = CHR ''L'' then
            and_then (demangle_group_ids names cur) (\<lambda>(groups, cur).
            let (may_alias, cur) = (case read_char CHR ''i'' cur of None \<Rightarrow> (False, cur) | Some cur \<Rightarrow> (True, cur)) in
            and_then (demangle_constraint n names cur) (\<lambda>(e, cur).
              case e of ArrayConstraint a \<Rightarrow> Inr (ListConstraint a groups may_alias, cur) | _ \<Rightarrow> Inl ValueError))
          else if c = CHR ''T'' then
            and_then (expect_nat cur) (\<lambda>(count, cur).
            and_then (demangle_items (demangle_constraint n names) count cur) (\<lambda>(items, cur).
              Inr (TupleConstraint items, cur)))
          else if c = CHR ''S'' then
            and_then (demangle_dtype cur) (\<lambda>(t, cur). Inr (ScalarConstraint t, cur))
          else if c = CHR ''B'' then
            (case read_char CHR ''0'' cur of
               Some cur \<Rightarrow> Inr (ConstantConstraint (BoolConstant False), cur)
             | None \<Rightarrow>
                 and_then (expect_char CHR ''1'' cur) (\<lambda>cur. Inr (ConstantConstraint (BoolConstant True), cur)))
          else if c = CHR ''I'' then
            and_then (demangle_signed_int cur) (\<lambda>(i, cur). Inr (ConstantConstraint (IntConstant i), cur))
          else if c = CHR ''F'' then
            and_then (expect_exactly 16 is_hex cur) (\<lambda>(s, cur).
              Inr (ConstantConstraint (FloatConstant (word_of_nat (parse_digits 16 s))), cur))
          else Inl ValueError)"

section \<open>Kernels\<close>

text \<open>\<^verbatim>\<open>symbol.rfind("_K")\<close>: the text before and after the last occurrence.\<close>

fun split_kernel :: "string \<Rightarrow> (string \<times> string) option" where
  "split_kernel [] = None"
| "split_kernel (c # cs) =
     (case split_kernel cs of
        Some (before_K, after_K) \<Rightarrow> Some (c # before_K, after_K)
      | None \<Rightarrow> if c = CHR ''_'' \<and> cs \<noteq> [] \<and> hd cs = CHR ''K'' then Some ([], tl cs) else None)"

definition demangle_calling_convention :: "cursor \<Rightarrow> (CallingConvention \<times> cursor) res" where
  "demangle_calling_convention cur =
     and_then (expect_while (\<lambda>c. c \<noteq> CHR ''_'') cur) (\<lambda>(s, cur).
     and_then (cconv_from_code s) (\<lambda>cc. Inr (cc, cur)))"

fun demangle_params :: "nat \<Rightarrow> string list option \<Rightarrow> cursor \<Rightarrow> ParameterConstraint list res" where
  "demangle_params 0 names cur = Inl RuntimeError"
| "demangle_params (Suc n) names cur =
     (if remaining cur = [] then Inr []
      else
        and_then (expect_char CHR ''_'' cur) (\<lambda>cur.
        and_then (demangle_constraint (Suc (length (remaining cur))) names cur) (\<lambda>(p, cur).
        and_then (demangle_params n names cur) (\<lambda>ps. Inr (p # ps)))))"

definition demangle_kernel_name_with ::
  "string \<Rightarrow> string list option \<Rightarrow> (string \<times> kernel_signature) res" where
  "demangle_kernel_name_with name names =
     (case split_kernel name of
        None \<Rightarrow> Inl ValueError
      | Some (function_name, rest) \<Rightarrow>
          and_then (demangle_calling_convention \<lparr>remaining = rest, last_seen_id = - 1\<rparr>) (\<lambda>(cconv, cur).
          and_then (demangle_params (Suc (length (remaining cur))) names cur) (\<lambda>params.
          and_then (KernelSignature_init params cconv (Some name)) (\<lambda>sig. Inr (function_name, sig)))))"

definition demangle_kernel_name :: "string \<Rightarrow> (string \<times> kernel_signature) res" where
  "demangle_kernel_name name = demangle_kernel_name_with name None"

definition mangle_kernel_name :: "string \<Rightarrow> kernel_signature \<Rightarrow> string res" where
  "mangle_kernel_name function_name sig =
     (let (m, names) = map_alias_group_names (parameters sig) in
      and_then (map_res (mangle_constraint m) (parameters sig)) (\<lambda>ss.
      let ret = function_name @ ''_K'' @ cconv_code (calling_convention sig) @ concat (map (\<lambda>s. ''_'' @ s) ss) in
      and_then (demangle_kernel_name_with ret (Some names)) (\<lambda>(parsed_name, parsed_sig).
      and_then (py_assert (function_name = parsed_name)) (\<lambda>_.
      and_then (py_assert (parameters sig = parameters parsed_sig)) (\<lambda>_. Inr ret)))))"

text \<open>\<^verbatim>\<open>KernelSignature.with_mangled_symbol\<close>.\<close>

definition with_mangled_symbol :: "string \<Rightarrow> kernel_signature \<Rightarrow> kernel_signature res" where
  "with_mangled_symbol function_name sig =
     and_then (mangle_kernel_name function_name sig) (\<lambda>s. with_symbol sig (Some s))"

end
