(* ===== verification/MangleRead.thy ===== *)
theory MangleRead
  imports NameMangling
begin

text \<open>
  What the readers of a mangled name make of the text that the writers put there: numbers,
  data types, lists of groups and the predicates of axes, each with any text after it that
  they stop at.
\<close>

abbreviation at :: "string \<Rightarrow> int \<Rightarrow> cursor" where
  "at s l \<equiv> \<lparr>remaining = s, last_seen_id = l\<rparr>"

definition stops :: "(char \<Rightarrow> bool) \<Rightarrow> string \<Rightarrow> bool" where
  "stops P rest \<longleftrightarrow> (case rest of [] \<Rightarrow> True | c # cs \<Rightarrow> \<not> P c)"

lemma stops_simps [simp]: "stops P []" "stops P (c # cs) \<longleftrightarrow> \<not> P c"
  by (simp_all add: stops_def)

section \<open>Digits\<close>

lemma digit_of_nat: "d < 16 \<Longrightarrow> is_hex (hex_digit d) \<and> digit_value (hex_digit d) = d"
  by (auto simp: is_hex_def is_digit_def hex_digit_def digit_value_def of_char_of)

lemma decimal_digit_value: "d < 10 \<Longrightarrow> is_digit (decimal_digit d) \<and> digit_value (decimal_digit d) = d"
  by (auto simp: is_digit_def decimal_digit_def digit_value_def of_char_of)

lemma parse_digits_snoc: "parse_digits b (s @ [c]) = parse_digits b s * b + digit_value c"
  by (simp add: parse_digits_def)

lemma decimal_read: "list_all is_digit (decimal n) \<and> parse_digits 10 (decimal n) = n"
proof (induction n rule: decimal.induct)
  case (1 n)
  show ?case
  proof (cases "n < 10")
    case True
    then show ?thesis using decimal_digit_value [of n] by (simp add: decimal.simps [of n] parse_digits_def)
  next
    case False
    have "n div 10 * 10 + n mod 10 = n" by simp
    with False "1.IH" decimal_digit_value [of "n mod 10"] show ?thesis
      by (simp add: decimal.simps [of n] parse_digits_snoc)
  qed
qed

lemma hexadecimal_read: "list_all is_hex (hexadecimal n) \<and> parse_digits 16 (hexadecimal n) = n"
proof (induction n rule: hexadecimal.induct)
  case (1 n)
  show ?case
  proof (cases "n < 16")
    case True
    then show ?thesis using digit_of_nat [of n] by (simp add: hexadecimal.simps [of n] parse_digits_def)
  next
    case False
    have "n div 16 * 16 + n mod 16 = n" by simp
    with False "1.IH" digit_of_nat [of "n mod 16"] show ?thesis
      by (simp add: hexadecimal.simps [of n] parse_digits_snoc)
  qed
qed

lemma hexadecimal_not_Nil [simp]: "hexadecimal n \<noteq> []"
  by (subst hexadecimal.simps) simp

lemma hexadecimal_leading: "length (hexadecimal n) > 1 \<Longrightarrow> hd (hexadecimal n) \<noteq> CHR ''0''"
proof (induction n rule: hexadecimal.induct)
  case (1 n)
  show ?case
  proof (cases "n < 16")
    case True
    with "1.prems" show ?thesis by (simp add: hexadecimal.simps [of n])
  next
    case False
    have "hd (hexadecimal (n div 16)) \<noteq> CHR ''0''"
    proof (cases "n div 16 < 16")
      case True
      then have "hexadecimal (n div 16) = [hex_digit (n div 16)]" by (simp add: hexadecimal.simps [of "n div 16"])
      moreover have "digit_value (hex_digit (n div 16)) = n div 16" using digit_of_nat True by blast
      moreover have "digit_value CHR ''0'' = 0" by (simp add: digit_value_def)
      moreover have "n div 16 \<noteq> 0" using False by simp
      ultimately show ?thesis by (metis list.sel(1))
    next
      case long: False
      then have "length (hexadecimal (n div 16)) > 1" by (subst hexadecimal.simps) simp
      with "1.IH" False show ?thesis by blast
    qed
    then show ?thesis using False by (simp add: hexadecimal.simps [of n])
  qed
qed

lemma hexadecimal_length: "n < 16 ^ Suc k \<Longrightarrow> length (hexadecimal n) \<le> Suc k"
proof (induction k arbitrary: n)
  case 0
  then show ?case by (simp add: hexadecimal.simps [of n])
next
  case (Suc k)
  show ?case
  proof (cases "n < 16")
    case False
    have "n div 16 < 16 ^ Suc k" using Suc.prems by (simp add: less_mult_imp_div_less mult.commute)
    from Suc.IH [OF this] False show ?thesis by (simp add: hexadecimal.simps [of n])
  qed (simp add: hexadecimal.simps [of n])
qed

section \<open>Reading characters\<close>

lemma read_char_at [simp]:
  "read_char c (at [] l) = None"
  "read_char c (at (x # xs) l) = (if x = c then Some (at xs l) else None)"
  by (simp_all add: read_char_def)

lemma expect_char_at [simp]: "expect_char c (at (c # xs) l) = Inr (at xs l)"
  by (simp add: expect_char_def)

lemma read_while_at:
  assumes "s \<noteq> []" and "list_all P s" and "stops P rest"
  shows "read_while P (at (s @ rest) l) = Some (s, at rest l)"
proof -
  have "takeWhile P rest = []" "dropWhile P rest = rest" using assms(3) by (cases rest; simp)+
  moreover have "takeWhile P (s @ rest) = s @ takeWhile P rest" "dropWhile P (s @ rest) = dropWhile P rest"
    using assms(2) by (simp_all add: takeWhile_append2 dropWhile_append2 list_all_iff)
  ultimately show ?thesis using assms(1) by (simp add: read_while_def)
qed

lemma expect_nat_at: "stops is_digit rest \<Longrightarrow> expect_nat (at (decimal n @ rest) l) = Inr (n, at rest l)"
  using decimal_read [of n] by (simp add: expect_nat_def expect_while_def read_while_at)

lemma decimal_hd: "\<exists>c cs. decimal n = c # cs \<and> is_digit c"
  using decimal_read [of n] decimal_not_Nil [of n] by (cases "decimal n") auto

lemma hexadecimal_hd: "\<exists>c cs. hexadecimal n = c # cs \<and> is_hex c"
  using hexadecimal_read [of n] hexadecimal_not_Nil [of n] by (cases "hexadecimal n") auto

lemma is_digit_simps [simp]: "\<not> is_digit CHR ''_''"
  by (simp add: is_digit_def)

lemma demangle_signed_int_at:
  "stops is_digit rest \<Longrightarrow> demangle_signed_int (at (mangle_signed_int v @ rest) l) = Inr (v, at rest l)"
proof (cases "v < 0")
  case False
  assume s: "stops is_digit rest"
  obtain c cs where c: "decimal (nat v) = c # cs" "is_digit c" using decimal_hd by blast
  then have "c \<noteq> CHR ''_''" by auto
  then have "read_char CHR ''_'' (at (decimal (nat v) @ rest) l) = None" by (simp add: c)
  then show ?thesis using expect_nat_at [OF s] False by (simp add: demangle_signed_int_def mangle_signed_int_def)
qed (simp add: demangle_signed_int_def mangle_signed_int_def expect_nat_at)

lemma demangle_divisibility_at:
  "stops is_digit rest \<Longrightarrow> 1 < v \<Longrightarrow> demangle_divisibility (at (mangle_signed_int v @ rest) l) = Inr (v, at rest l)"
  by (simp add: demangle_divisibility_def demangle_signed_int_at)

lemma demangle_dtype_at:
  assumes "mangle_dtype t = Inr s" and "stops (\<lambda>c. is_lower c \<or> is_digit c) rest"
  shows "demangle_dtype (at (s @ rest) l) = Inr (t, at rest l)"
proof -
  have m: "map_of mangled_dtype t = Some s" using assms(1) by (simp add: mangle_dtype_def split: option.splits)
  then have "(t, s) \<in> set mangled_dtype" by (rule map_of_SomeD)
  moreover have "\<forall>(t, s) \<in> set mangled_dtype. s \<noteq> [] \<and> list_all (\<lambda>c. is_lower c \<or> is_digit c) s
      \<and> find (\<lambda>(d, n). n = s) mangled_dtype = Some (t, s)"
    unfolding mangled_dtype_def by (simp add: is_lower_def is_digit_def)
  ultimately have "s \<noteq> []" "list_all (\<lambda>c. is_lower c \<or> is_digit c) s" "find (\<lambda>(d, n). n = s) mangled_dtype = Some (t, s)"
    by auto
  then show ?thesis using assms(2) by (simp add: demangle_dtype_def expect_while_def read_while_at)
qed

lemma mangle_dtype_hd: "mangle_dtype t = Inr s \<Longrightarrow> \<exists>c cs. s = c # cs \<and> is_lower c"
proof -
  assume "mangle_dtype t = Inr s"
  then have "(t, s) \<in> set mangled_dtype" by (auto simp: mangle_dtype_def dest: map_of_SomeD split: option.splits)
  moreover have "\<forall>(t, s) \<in> set mangled_dtype. \<exists>c cs. s = c # cs \<and> is_lower c"
    unfolding mangled_dtype_def by (simp add: is_lower_def)
  ultimately show ?thesis by blast
qed

lemma hex16_at:
  "expect_exactly 16 is_hex (at (hex16 w @ rest) l) = Inr (hex16 w, at rest l)"
  "word_of_nat (parse_digits 16 (hex16 w)) = w"
proof -
  let ?h = "hexadecimal (unat w)"
  have "unat w < 16 ^ Suc 15" using unsigned_less [of w] by simp
  from hexadecimal_length [OF this] have len: "length (hex16 w) = 16" by (simp add: hex16_def Let_def)
  have "is_hex CHR ''0''" by (simp add: is_hex_def is_digit_def)
  then have all: "list_all is_hex (hex16 w)"
    using hexadecimal_read [of "unat w"] by (auto simp: hex16_def Let_def list_all_iff)
  show "expect_exactly 16 is_hex (at (hex16 w @ rest) l) = Inr (hex16 w, at rest l)"
    using len all by (simp add: expect_exactly_def)
  have zeros: "parse_digits 16 (replicate k CHR ''0'' @ s) = parse_digits 16 s" for k s
    by (induction k) (simp_all add: parse_digits_def digit_value_def)
  have "parse_digits 16 (hex16 w) = unat w"
    using hexadecimal_read [of "unat w"] by (simp add: hex16_def Let_def zeros)
  then show "word_of_nat (parse_digits 16 (hex16 w)) = w" by simp
qed

section \<open>Groups\<close>

text \<open>The id that was seen last after these ids, if they can be read at all.\<close>

fun readable_ids :: "nat option \<Rightarrow> int \<Rightarrow> nat list \<Rightarrow> int option" where
  "readable_ids prev l [] = Some l"
| "readable_ids prev l (i # ids) =
     (if int i > l + 1 \<or> (case prev of None \<Rightarrow> False | Some j \<Rightarrow> i \<le> j) then None
      else readable_ids (Some i) (int i) ids)"

lemma readable_ids_sorted: "readable_ids prev l ids \<noteq> None \<Longrightarrow> sorted ids \<and> (case prev of None \<Rightarrow> True | Some j \<Rightarrow> \<forall>i \<in> set ids. j < i)"
  by (induction prev l ids rule: readable_ids.induct) (fastforce split: if_splits option.splits)+

lemma demangle_groups_at:
  "readable_ids prev l ids = Some l' \<Longrightarrow> \<forall>i \<in> set ids. group_name names i = Inr (nm i) \<Longrightarrow>
   stops (\<lambda>c. c = CHR ''g'' \<or> is_hex c) rest \<Longrightarrow> length ids < n \<Longrightarrow>
   demangle_groups n names prev (at (mangle_group_ids ids @ rest) l) = Inr (map nm ids, at rest l')"
proof (induction prev l ids arbitrary: n rule: readable_ids.induct)
  case (1 prev l)
  then have "read_char CHR ''g'' (at rest l) = None" by (cases rest) auto
  with 1 show ?case by (cases n) (auto simp: mangle_group_ids_def)
next
  case (2 prev l i ids)
  obtain k where n: "n = Suc k" using "2.prems"(4) by (cases n) auto
  have ok: "int i \<le> l + 1" "case prev of None \<Rightarrow> True | Some j \<Rightarrow> j < i" and r: "readable_ids (Some i) (int i) ids = Some l'"
    using "2.prems"(1) by (auto split: if_splits option.splits)
  let ?rest = "mangle_group_ids ids @ rest"
  have "stops is_hex ?rest"
  proof (cases ids)
    case Nil
    then show ?thesis using "2.prems"(3) by (cases rest) (auto simp: mangle_group_ids_def)
  qed (simp add: mangle_group_ids_def is_hex_def is_digit_def)
  with hexadecimal_read [of i] have "expect_while is_hex (at (hexadecimal i @ ?rest) l) = Inr (hexadecimal i, at ?rest l)"
    by (simp add: expect_while_def read_while_at)
  moreover have "demangle_groups k names (Some i) (at ?rest (int i)) = Inr (map nm ids, at rest l')"
    using "2.IH" "2.prems"(1-4) r n by (auto split: if_splits)
  moreover have "mangle_group_ids (i # ids) @ rest = CHR ''g'' # hexadecimal i @ ?rest" by (simp add: mangle_group_ids_def)
  ultimately show ?case
    using ok "2.prems"(2) hexadecimal_leading [of i] hexadecimal_read [of i]
    by (auto simp: n split: option.splits)
qed

lemma mangle_group_ids_length: "length ids \<le> length (mangle_group_ids ids)"
  by (induction ids) (auto simp: mangle_group_ids_def)

lemma demangle_group_ids_at:
  assumes "readable_ids None l ids = Some l'" and "\<forall>i \<in> set ids. group_name names i = Inr (nm i)"
    and "stops (\<lambda>c. c = CHR ''g'' \<or> is_hex c) rest"
  shows "demangle_group_ids names (at (mangle_group_ids ids @ rest) l) = Inr (map nm ids, at rest l')"
  unfolding demangle_group_ids_def
  by (rule demangle_groups_at [OF assms]) (use mangle_group_ids_length [of ids] in simp)

section \<open>Predicates of the axes\<close>

definition axis_mask :: "int option list \<Rightarrow> int \<Rightarrow> nat" where
  "axis_mask vs v = horner_sum of_bool 2 (map (\<lambda>x. x = Some v) vs)"

lemma bit_axis_mask: "bit (axis_mask vs v) i \<longleftrightarrow> i < length vs \<and> vs ! i = Some v"
  by (auto simp: axis_mask_def bit_horner_sum_bit_iff)

lemma axis_mask_snoc:
  "axis_mask (vs @ [x]) v = (if x = Some v then axis_mask vs v OR 2 ^ length vs else axis_mask vs v)"
  by (rule bit_eqI) (auto simp: bit_axis_mask bit_simps nth_append less_Suc_eq)

lemma collect_snoc:
  "collect_axis_predicate (vs @ [x]) c preds =
     (case x of None \<Rightarrow> collect_axis_predicate vs c preds
      | Some v \<Rightarrow> add_axis (axis_pred c v) (length vs) (collect_axis_predicate vs c preds))"
  by (cases x) (simp_all add: collect_axis_predicate_def enumerate_append_eq)

lemma signed_inj: "mangle_signed_int v = mangle_signed_int w \<Longrightarrow> v = w"
  using demangle_signed_int_at [of "[]" v 0] demangle_signed_int_at [of "[]" w 0] by simp

lemma axis_pred_inj: "axis_pred c v = axis_pred c w \<longleftrightarrow> v = w"
  by (auto simp: axis_pred_def dest: signed_inj)

lemma axis_mask_absent: "Some v \<notin> set vs \<Longrightarrow> axis_mask vs v = 0"
  by (rule bit_eqI) (auto simp: bit_axis_mask in_set_conv_nth)

lemma collect_result:
  "distinct (map fst (collect_axis_predicate vs c []))
   \<and> set (collect_axis_predicate vs c []) = {(axis_pred c v, axis_mask vs v) | v. Some v \<in> set vs}"
proof (induction vs rule: rev_induct)
  case Nil
  then show ?case by (simp add: collect_axis_predicate_def)
next
  case (snoc x vs)
  let ?d = "collect_axis_predicate vs c []"
  show ?case
  proof (cases x)
    case None
    then show ?thesis using snoc by (simp add: collect_snoc axis_mask_snoc)
  next
    case (Some v)
    have dist: "distinct (map fst ?d)" and set_d: "set ?d = {(axis_pred c v, axis_mask vs v) | v. Some v \<in> set vs}"
      using snoc by auto
    have keys: "axis_pred c v \<in> fst ` set ?d \<longleftrightarrow> Some v \<in> set vs" unfolding set_d by (force simp: axis_pred_inj)
    show ?thesis
    proof (cases "Some v \<in> set vs")
      case True
      have "map fst (add_axis (axis_pred c v) (length vs) ?d) = map fst ?d"
        using keys True by (auto simp: add_axis_def)
      moreover have "set (add_axis (axis_pred c v) (length vs) ?d) =
          (\<lambda>(p, m). (p, if p = axis_pred c v then m OR 2 ^ length vs else m)) ` set ?d"
        using keys True by (simp add: add_axis_def)
      moreover have "\<dots> = {(axis_pred c w, axis_mask (vs @ [x]) w) | w. Some w \<in> set (vs @ [x])}"
        unfolding set_d using True Some by (force simp: axis_mask_snoc axis_pred_inj image_iff)
      ultimately show ?thesis using dist by (simp add: collect_snoc Some)
    next
      case False
      then have "add_axis (axis_pred c v) (length vs) ?d = ?d @ [(axis_pred c v, 2 ^ length vs)]"
        using keys by (simp add: add_axis_def)
      moreover have "axis_mask (vs @ [Some v]) v = 2 ^ length vs" using False by (simp add: axis_mask_snoc axis_mask_absent)
      moreover have "axis_mask (vs @ [Some v]) w = axis_mask vs w" if "Some w \<in> set vs" for w
        using that False by (auto simp: axis_mask_snoc)
      ultimately show ?thesis using dist keys False set_d by (auto simp: collect_snoc Some)
    qed
  qed
qed

end
