(* ===== verification/MangleArray.thy ===== *)
theory MangleArray
  imports MangleRead
begin

text \<open>
  An array constraint is read back from its text: the masks of the axes partition the axes
  of each list by value, so that every value that is not the default is read exactly once.
\<close>

section \<open>The text of a mask\<close>

lemma add_axis_append: "p \<notin> fst ` set acc \<Longrightarrow> add_axis p i (acc @ d) = acc @ add_axis p i d"
proof -
  assume p: "p \<notin> fst ` set acc"
  then have "map (\<lambda>(q, m). (q, if q = p then m OR 2 ^ i else m)) acc = acc"
    by (intro map_idI) force
  with p show ?thesis by (auto simp: add_axis_def)
qed

lemma collect_append:
  "(\<And>v. axis_pred c v \<notin> fst ` set acc) \<Longrightarrow> collect_axis_predicate vs c acc = acc @ collect_axis_predicate vs c []"
proof (induction vs rule: rev_induct)
  case Nil
  then show ?case by (simp add: collect_axis_predicate_def)
next
  case (snoc x vs)
  then show ?case by (auto simp: collect_snoc add_axis_append split: option.splits)
qed

lemma collect_keys: "p \<in> fst ` set (collect_axis_predicate vs c []) \<Longrightarrow> \<exists>v. p = axis_pred c v"
  using collect_result [of vs c] by auto

abbreviation collected :: "char \<Rightarrow> int option list \<Rightarrow> (string \<times> nat) list" where
  "collected c vs \<equiv> collect_axis_predicate vs c []"

lemma axis_predicates_eq:
  "axis_predicates a =
     collected CHR ''s'' (shape_constant a) @ collected CHR ''i'' (map not_one (shape_divisible_by a))
     @ collected CHR ''t'' (stride_constant a) @ collected CHR ''v'' (map not_one (stride_divisible_by a))
     @ collected CHR ''l'' (stride_lower_bound_incl a)"
proof -
  have key: "axis_pred c v \<notin> fst ` set (collected c' vs)" if "c \<noteq> c'" for c c' v vs
    using that collect_keys [of "axis_pred c v" vs c'] by (auto simp: axis_pred_def)
  let ?s = "collected CHR ''s'' (shape_constant a)" and ?i = "collected CHR ''i'' (map not_one (shape_divisible_by a))"
    and ?t = "collected CHR ''t'' (stride_constant a)" and ?v = "collected CHR ''v'' (map not_one (stride_divisible_by a))"
  have "collect_axis_predicate (map not_one (shape_divisible_by a)) CHR ''i'' ?s = ?s @ ?i"
    by (rule collect_append) (rule key, simp)
  moreover have "collect_axis_predicate (stride_constant a) CHR ''t'' (?s @ ?i) = (?s @ ?i) @ ?t"
    by (rule collect_append) (simp only: set_append image_Un Un_iff de_Morgan_disj, intro conjI key, simp_all)
  moreover have "collect_axis_predicate (map not_one (stride_divisible_by a)) CHR ''v'' ((?s @ ?i) @ ?t) = ((?s @ ?i) @ ?t) @ ?v"
    by (rule collect_append) (simp only: set_append image_Un Un_iff de_Morgan_disj, intro conjI key, simp_all)
  moreover have "collect_axis_predicate (stride_lower_bound_incl a) CHR ''l'' (((?s @ ?i) @ ?t) @ ?v)
      = (((?s @ ?i) @ ?t) @ ?v) @ collected CHR ''l'' (stride_lower_bound_incl a)"
    by (rule collect_append) (simp only: set_append image_Un Un_iff de_Morgan_disj, intro conjI key, simp_all)
  ultimately show ?thesis by (simp add: axis_predicates_def)
qed

definition axis_value :: "int option list \<Rightarrow> nat \<Rightarrow> int option" where
  "axis_value vs m =
     (case filter (\<lambda>x. case x of None \<Rightarrow> False | Some v \<Rightarrow> axis_mask vs v = m) vs of [] \<Rightarrow> None | x # xs \<Rightarrow> x)"

lemma axis_mask_inj:
  assumes "Some v \<in> set vs" and "axis_mask vs v = axis_mask vs w"
  shows "v = w"
proof -
    from assms(1) obtain i where "i < length vs" "vs ! i = Some v" by (auto simp: in_set_conv_nth)
    then have "bit (axis_mask vs v) i" by (simp add: bit_axis_mask)
    then have "vs ! i = Some w" using assms(2) by (simp add: bit_axis_mask)
    with \<open>vs ! i = Some v\<close> show ?thesis by simp
qed

lemma axis_value_Some: "axis_value vs m = Some v \<longleftrightarrow> Some v \<in> set vs \<and> axis_mask vs v = m"
proof -
  let ?P = "\<lambda>x. case x of None \<Rightarrow> False | Some v \<Rightarrow> axis_mask vs v = m"
  show ?thesis
  proof (cases "filter ?P vs")
    case Nil
    then have "\<forall>x \<in> set vs. \<not> ?P x" by (simp add: filter_empty_conv)
    then show ?thesis using Nil by (auto simp: axis_value_def)
  next
    case (Cons x xs)
    then have "x \<in> set (filter ?P vs)" by simp
    then obtain w where w: "x = Some w" "Some w \<in> set vs" "axis_mask vs w = m" by (auto split: option.splits)
    have "axis_value vs m = Some w" by (simp add: axis_value_def Cons w(1))
    moreover have "v = w" if "axis_mask vs v = m" "Some v \<in> set vs" using axis_mask_inj [OF that(2)] that(1) w(3) by simp
    ultimately show ?thesis using w by auto
  qed
qed

lemma axis_value_None: "axis_value vs m = None \<longleftrightarrow> (\<forall>v. Some v \<in> set vs \<longrightarrow> axis_mask vs v \<noteq> m)"
  using axis_value_Some [of vs m] by (cases "axis_value vs m") auto

definition pred_text :: "char \<Rightarrow> int option \<Rightarrow> string" where
  "pred_text c x = (case x of None \<Rightarrow> [] | Some v \<Rightarrow> axis_pred c v)"

lemma pred_text_simps [simp]: "pred_text c None = []" "pred_text c (Some v) = c # mangle_signed_int v"
  by (simp_all add: pred_text_def axis_pred_def)

lemma singleton_list: "distinct xs \<Longrightarrow> set xs = {x} \<Longrightarrow> xs = [x]"
  by (cases xs) (auto simp: subset_singleton_iff)

lemma collected_filter: "concat (map fst (filter (\<lambda>(p, m'). m' = m) (collected c vs))) = pred_text c (axis_value vs m)"
proof (cases "axis_value vs m")
  case None
  have "\<forall>x \<in> set (collected c vs). \<not> (case x of (p, m') \<Rightarrow> m' = m)"
    using collect_result [of vs c] None by (auto simp: axis_value_None)
  then have "filter (\<lambda>(p, m'). m' = m) (collected c vs) = []" by (simp add: filter_empty_conv)
  with None show ?thesis by simp
next
  case (Some v)
  have all: "set (collected c vs) = {(axis_pred c w, axis_mask vs w) | w. Some w \<in> set vs}" using collect_result by blast
  have "set (filter (\<lambda>(p, m'). m' = m) (collected c vs)) = {(axis_pred c w, axis_mask vs w) | w. Some w \<in> set vs \<and> axis_mask vs w = m}"
    unfolding set_filter all by auto
  also have "\<dots> = {(axis_pred c v, m)}"
  proof -
    have v: "Some v \<in> set vs" "axis_mask vs v = m" using Some axis_value_Some by blast+
    have "w = v" if "Some w \<in> set vs" "axis_mask vs w = m" for w using axis_mask_inj [OF that(1)] that(2) v(2) by simp
    then have "x \<in> {(axis_pred c v, m)}" if "x \<in> {(axis_pred c w, axis_mask vs w) | w. Some w \<in> set vs \<and> axis_mask vs w = m}" for x
      using that by blast
    moreover have "(axis_pred c v, m) \<in> {(axis_pred c w, axis_mask vs w) | w. Some w \<in> set vs \<and> axis_mask vs w = m}"
      using v by blast
    ultimately show ?thesis by blast
  qed
  finally have "set (filter (\<lambda>(p, m'). m' = m) (collected c vs)) = {(axis_pred c v, m)}" .
  moreover have "distinct (filter (\<lambda>(p, m'). m' = m) (collected c vs))"
  proof -
    have "distinct (map fst (collected c vs))" using collect_result by blast
    then show ?thesis by (intro distinct_filter) (simp add: distinct_map)
  qed
  ultimately have "filter (\<lambda>(p, m'). m' = m) (collected c vs) = [(axis_pred c v, m)]" by (intro singleton_list)
  with Some show ?thesis by (simp add: axis_pred_def)
qed

lemma by_mask_snoc:
  "by_mask (ps @ [(p, m)]) =
     (if m \<in> fst ` set (by_mask ps) then map (\<lambda>(m', s). (m', if m' = m then s @ p else s)) (by_mask ps)
      else by_mask ps @ [(m, p)])"
  by (simp add: by_mask_def)

lemma by_mask_result:
  "distinct (map fst (by_mask ps)) \<and> fst ` set (by_mask ps) = snd ` set ps
   \<and> (\<forall>m \<in> snd ` set ps. map_of (by_mask ps) m = Some (concat (map fst (filter (\<lambda>(p, m'). m' = m) ps))))"
proof (induction ps rule: rev_induct)
  case Nil
  then show ?case by (simp add: by_mask_def)
next
  case (snoc x ps)
  obtain p m where x: "x = (p, m)" by fastforce
  let ?d = "by_mask ps"
  have keys: "fst ` set ?d = snd ` set ps" and dist: "distinct (map fst ?d)"
    and entry: "\<And>m. m \<in> snd ` set ps \<Longrightarrow> map_of ?d m = Some (concat (map fst (filter (\<lambda>(p, m'). m' = m) ps)))"
    using snoc by auto
  have none: "filter (\<lambda>(p, m'). m' = k) ps = []" if "k \<notin> snd ` set ps" for k
    using that by (force simp: filter_empty_conv)
  show ?case
  proof (cases "m \<in> snd ` set ps")
    case True
    let ?u = "map (\<lambda>(m', s). (m', if m' = m then s @ p else s)) ?d"
    have upd: "map_of (map (\<lambda>(m', s). (m', if m' = m then s @ p else s)) d) k =
        (case map_of d k of None \<Rightarrow> None | Some s \<Rightarrow> Some (if k = m then s @ p else s))" for k d
      by (induction d) (auto split: option.splits)
    have mf: "map fst ?u = map fst ?d" by auto
    have "distinct (map fst ?u)" unfolding mf by (rule dist)
    moreover have "fst ` set ?u = fst ` set ?d" unfolding set_map [symmetric] mf ..
    moreover have "by_mask (ps @ [x]) = ?u" using True keys by (simp add: x by_mask_snoc)
    ultimately show ?thesis using True keys entry by (auto simp: x upd)
  next
    case False
    then have d: "by_mask (ps @ [x]) = ?d @ [(m, p)]" using keys by (simp add: x by_mask_snoc)
    have "map_of ?d m = None" using False keys by (simp add: map_of_eq_None_iff)
    then have "map_of (?d @ [(m, p)]) k = (if k = m then Some p else map_of ?d k)" for k
      by (simp add: map_add_def split: option.splits)
    then have "map_of (?d @ [(m, p)]) k = Some (concat (map fst (filter (\<lambda>(p, m'). m' = k) (ps @ [x]))))"
      if "k \<in> snd ` set (ps @ [x])" for k
      using that entry [of k] none [OF False] by (cases "k = m") (auto simp: x simp del: map_of_append)
    moreover have "distinct (map fst (?d @ [(m, p)]))" using dist keys False by simp
    moreover have "fst ` set (?d @ [(m, p)]) = snd ` set (ps @ [x])" using keys by (simp add: x)
    ultimately show ?thesis unfolding d by blast
  qed
qed

text \<open>The text of the predicates of a mask, and the masks of an array.\<close>

definition group_text :: "array_constraint \<Rightarrow> nat \<Rightarrow> string" where
  "group_text a m =
     pred_text CHR ''s'' (axis_value (shape_constant a) m)
     @ pred_text CHR ''i'' (axis_value (map not_one (shape_divisible_by a)) m)
     @ pred_text CHR ''t'' (axis_value (stride_constant a) m)
     @ pred_text CHR ''v'' (axis_value (map not_one (stride_divisible_by a)) m)
     @ pred_text CHR ''l'' (axis_value (stride_lower_bound_incl a) m)"

definition array_masks :: "array_constraint \<Rightarrow> nat list" where
  "array_masks a = sort (map fst (by_mask (axis_predicates a)))"

lemma array_masks_result:
  "distinct (array_masks a)" "set (array_masks a) = snd ` set (axis_predicates a)"
  "m \<in> set (array_masks a) \<Longrightarrow> mask_text (by_mask (axis_predicates a)) m = ''_'' @ hexadecimal m @ group_text a m"
proof -
  note r = by_mask_result [of "axis_predicates a"]
  show "distinct (array_masks a)" using r by (simp add: array_masks_def)
  show s: "set (array_masks a) = snd ` set (axis_predicates a)" using r by (simp add: array_masks_def)
  assume "m \<in> set (array_masks a)"
  then have "m \<in> snd ` set (axis_predicates a)" unfolding s .
  then have "map_of (by_mask (axis_predicates a)) m = Some (concat (map fst (filter (\<lambda>(p, m'). m' = m) (axis_predicates a))))"
    using r by (elim conjE) (rule bspec)
  moreover have "concat (map fst (filter (\<lambda>(p, m'). m' = m) (axis_predicates a))) = group_text a m"
    unfolding axis_predicates_eq filter_append map_append concat_append collected_filter group_text_def ..
  ultimately show "mask_text (by_mask (axis_predicates a)) m = ''_'' @ hexadecimal m @ group_text a m"
    by (simp add: mask_text_def)
qed

end
