(* ===== verification/MangleAxes.thy ===== *)
theory MangleAxes
  imports MangleArray
begin

text \<open>
  Reading the predicates of the masks of an array, and the array with its extras.
\<close>

section \<open>Arrays that their constructor made\<close>

text \<open>The constructor gives the array back when it is called with the fields of the array.\<close>

definition array_ok :: "array_constraint \<Rightarrow> bool" where
  "array_ok a \<longleftrightarrow>
     ArrayConstraint_init (ac_dtype a) (int (ac_ndim a)) (ac_index_dtype a) (Each (stride_lower_bound_incl a))
       (ac_alias_groups a) (may_alias_internally a) (Each (stride_constant a)) (Each (shape_constant a))
       (Each (stride_divisible_by a)) (Each (shape_divisible_by a)) (base_addr_divisible_by a) = Inr a"

lemma parse_each: "parse_assumption_tuple (Each xs) n d f = Inr ys \<longleftrightarrow> ys = xs \<and> length xs = n \<and> (\<exists>us. map_res f xs = Inr us)"
  by (auto simp: parse_assumption_tuple_def and_then_Inr_iff)

lemma check_divisibility_all: "map_res check_divisibility xs = Inr us \<Longrightarrow> \<forall>x \<in> set xs. 0 < x"
  by (induction xs arbitrary: us) (auto simp: and_then_Inr_iff check_divisibility_def split: if_splits)

lemma redundant_lower_bounds_fixed:
  "remove_redundant_lower_bounds ss ls = Inr ls \<Longrightarrow> \<forall>(s, l) \<in> set (zip ss ls). s \<noteq> None \<longrightarrow> l = None"
  by (induction ss ls rule: remove_redundant_lower_bounds.induct) (auto simp: and_then_Inr_iff split: if_splits)

lemma redundant_divisors_fixed:
  "remove_redundant_divisibility_constraints ss ds = Inr ds \<Longrightarrow> \<forall>(s, d) \<in> set (zip ss ds). s \<noteq> None \<longrightarrow> d = 1"
  by (induction ss ds rule: remove_redundant_divisibility_constraints.induct) (auto simp: and_then_Inr_iff split: if_splits)

lemma array_ok_facts:
  assumes "array_ok a"
  shows "length (shape_constant a) = ac_ndim a" "length (stride_constant a) = ac_ndim a"
    "length (shape_divisible_by a) = ac_ndim a" "length (stride_divisible_by a) = ac_ndim a"
    "length (stride_lower_bound_incl a) = ac_ndim a"
    "\<forall>d \<in> set (shape_divisible_by a). 0 < d" "\<forall>d \<in> set (stride_divisible_by a). 0 < d" "0 < base_addr_divisible_by a"
    "ac_index_dtype a \<in> {int32, uint32, int64}"
    "\<forall>(s, l) \<in> set (zip (stride_constant a) (stride_lower_bound_incl a)). s \<noteq> None \<longrightarrow> l = None"
    "\<forall>(s, d) \<in> set (zip (stride_constant a) (stride_divisible_by a)). s \<noteq> None \<longrightarrow> d = 1"
proof -
  obtain lb sd shd us us' where p: "ac_index_dtype a \<in> {int32, uint32, int64}"
      "length (stride_constant a) = ac_ndim a" "length (shape_constant a) = ac_ndim a"
      "length (stride_lower_bound_incl a) = ac_ndim a"
      "remove_redundant_lower_bounds (stride_constant a) (stride_lower_bound_incl a) = Inr lb"
      "length (stride_divisible_by a) = ac_ndim a" "map_res check_divisibility (stride_divisible_by a) = Inr us"
      "remove_redundant_divisibility_constraints (stride_constant a) (stride_divisible_by a) = Inr sd"
      "length (shape_divisible_by a) = ac_ndim a" "map_res check_divisibility (shape_divisible_by a) = Inr us'"
      "remove_redundant_divisibility_constraints (shape_constant a) (shape_divisible_by a) = Inr shd"
      "0 < base_addr_divisible_by a"
    and a: "a = \<lparr>ac_dtype = ac_dtype a, ac_ndim = ac_ndim a, ac_index_dtype = ac_index_dtype a,
                    stride_lower_bound_incl = lb, ac_alias_groups = ac_alias_groups a,
                    may_alias_internally = may_alias_internally a, stride_constant = stride_constant a,
                    shape_constant = shape_constant a, stride_divisible_by = sd,
                    shape_divisible_by = shd, base_addr_divisible_by = base_addr_divisible_by a\<rparr>"
    using assms unfolding array_ok_def ArrayConstraint_init_def
    by (auto simp: parse_each and_then_Inr_iff Let_def not_le split: if_splits)
  have "lb = stride_lower_bound_incl a" "sd = stride_divisible_by a" using a by (metis array_constraint.select_convs)+
  with p show "length (shape_constant a) = ac_ndim a" "length (stride_constant a) = ac_ndim a"
    "length (shape_divisible_by a) = ac_ndim a" "length (stride_divisible_by a) = ac_ndim a"
    "length (stride_lower_bound_incl a) = ac_ndim a"
    "\<forall>d \<in> set (shape_divisible_by a). 0 < d" "\<forall>d \<in> set (stride_divisible_by a). 0 < d" "0 < base_addr_divisible_by a"
    "ac_index_dtype a \<in> {int32, uint32, int64}"
    "\<forall>(s, l) \<in> set (zip (stride_constant a) (stride_lower_bound_incl a)). s \<noteq> None \<longrightarrow> l = None"
    "\<forall>(s, d) \<in> set (zip (stride_constant a) (stride_divisible_by a)). s \<noteq> None \<longrightarrow> d = 1"
    using check_divisibility_all redundant_lower_bounds_fixed redundant_divisors_fixed by auto
qed

section \<open>The predicates of a mask\<close>

definition divisor_value :: "int option \<Rightarrow> int" where
  "divisor_value x = (case x of None \<Rightarrow> 1 | Some v \<Rightarrow> v)"

definition group_values :: "array_constraint \<Rightarrow> nat \<Rightarrow> axis_lists" where
  "group_values a m =
     \<lparr>axis_shapes = [axis_value (shape_constant a) m],
      axis_shape_divs = [divisor_value (axis_value (map not_one (shape_divisible_by a)) m)],
      axis_strides = [axis_value (stride_constant a) m],
      axis_stride_divs = [divisor_value (axis_value (map not_one (stride_divisible_by a)) m)],
      axis_lower_bounds = [axis_value (stride_lower_bound_incl a) m]\<rparr>"

lemma stops_pred_text [simp]:
  "stops P (pred_text c x @ rest) \<longleftrightarrow> (case x of None \<Rightarrow> stops P rest | Some v \<Rightarrow> \<not> P c)"
  by (cases x) simp_all

lemma read_optional_pred:
  assumes "\<And>v. x = Some v \<Longrightarrow> parse (at (mangle_signed_int v @ rest) l) = Inr (f v, at rest l)"
    and "x = None \<Longrightarrow> stops (\<lambda>d. d = c) rest"
  shows "read_optional c parse d (at (pred_text c x @ rest) l) = Inr (case x of None \<Rightarrow> d | Some v \<Rightarrow> f v, at rest l)"
proof (cases x)
  case None
  with assms(2) show ?thesis by (cases rest) (auto simp: read_optional_def)
qed (simp add: read_optional_def assms(1))

lemma read_value:
  assumes "stops is_digit rest" and "x = None \<Longrightarrow> stops (\<lambda>d. d = c) rest"
  shows "read_optional c demangle_optional None (at (pred_text c x @ rest) l) = Inr (x, at rest l)"
proof -
  have "read_optional c demangle_optional None (at (pred_text c x @ rest) l)
      = Inr (case x of None \<Rightarrow> None | Some v \<Rightarrow> Some v, at rest l)"
    by (rule read_optional_pred) (use assms in \<open>simp_all add: demangle_optional_def demangle_signed_int_at\<close>)
  then show ?thesis by (simp split: option.splits)
qed

lemma read_divisor:
  assumes "stops is_digit rest" and "x = None \<Longrightarrow> stops (\<lambda>d. d = c) rest" and "\<And>v. x = Some v \<Longrightarrow> 1 < v"
  shows "read_optional c demangle_divisibility 1 (at (pred_text c x @ rest) l) = Inr (divisor_value x, at rest l)"
  unfolding divisor_value_def
  by (rule read_optional_pred) (use assms in \<open>simp_all add: demangle_divisibility_at\<close>)

lemma axis_divisor: "\<forall>d \<in> set ds. 0 < d \<Longrightarrow> axis_value (map not_one ds) m = Some v \<Longrightarrow> 1 < v"
  by (fastforce simp: axis_value_Some not_one_def split: if_splits)

lemma digits_letters: "\<not> is_digit CHR ''s''" "\<not> is_digit CHR ''i''" "\<not> is_digit CHR ''t''" "\<not> is_digit CHR ''v''" "\<not> is_digit CHR ''l''"
  by (simp_all add: is_digit_def)

lemma stops_weaken: "stops P rest \<Longrightarrow> (\<And>c. Q c \<Longrightarrow> P c) \<Longrightarrow> stops Q rest"
  by (cases rest) auto

lemma demangle_predicates_at:
  assumes a: "array_ok a" and rest: "stops (\<lambda>c. is_digit c \<or> c \<in> {CHR ''s'', CHR ''i'', CHR ''t'', CHR ''v'', CHR ''l''}) rest"
  shows "demangle_predicates (at (group_text a m @ rest) l) = Inr (group_values a m, at rest l)"
proof -
  note digits = stops_weaken [OF rest, of is_digit] and letter = stops_weaken [OF rest, of "\<lambda>d. d = c" for c]
  have letters: "stops (\<lambda>d. d = CHR ''s'') rest" "stops (\<lambda>d. d = CHR ''i'') rest" "stops (\<lambda>d. d = CHR ''t'') rest"
    "stops (\<lambda>d. d = CHR ''v'') rest" "stops (\<lambda>d. d = CHR ''l'') rest" "stops is_digit rest"
    using letter digits by auto
  let ?l = "pred_text CHR ''l'' (axis_value (stride_lower_bound_incl a) m) @ rest"
  let ?v = "pred_text CHR ''v'' (axis_value (map not_one (stride_divisible_by a)) m) @ ?l"
  let ?t = "pred_text CHR ''t'' (axis_value (stride_constant a) m) @ ?v"
  let ?i = "pred_text CHR ''i'' (axis_value (map not_one (shape_divisible_by a)) m) @ ?t"
  let ?s = "pred_text CHR ''s'' (axis_value (shape_constant a) m) @ ?i"
  have "read_optional CHR ''s'' demangle_optional None (at ?s l) = Inr (axis_value (shape_constant a) m, at ?i l)"
    by (rule read_value) (simp_all add: digits_letters letters split: option.splits)
  moreover have "read_optional CHR ''i'' demangle_divisibility 1 (at ?i l)
      = Inr (divisor_value (axis_value (map not_one (shape_divisible_by a)) m), at ?t l)"
    by (rule read_divisor) (use array_ok_facts(6) [OF a] axis_divisor in \<open>simp_all add: digits_letters letters split: option.splits\<close>)
  moreover have "read_optional CHR ''t'' demangle_optional None (at ?t l) = Inr (axis_value (stride_constant a) m, at ?v l)"
    by (rule read_value) (simp_all add: digits_letters letters split: option.splits)
  moreover have "read_optional CHR ''v'' demangle_divisibility 1 (at ?v l)
      = Inr (divisor_value (axis_value (map not_one (stride_divisible_by a)) m), at ?l l)"
    by (rule read_divisor) (use array_ok_facts(7) [OF a] axis_divisor in \<open>simp_all add: digits_letters letters split: option.splits\<close>)
  moreover have "read_optional CHR ''l'' demangle_optional None (at ?l l) = Inr (axis_value (stride_lower_bound_incl a) m, at rest l)"
    by (rule read_value) (simp_all add: letters)
  ultimately show ?thesis by (simp add: demangle_predicates_def group_text_def group_values_def)
qed

section \<open>The axes\<close>

text \<open>
  The list of one field after some pairs of a mask and an axis of it have been read: an axis
  has its value when a mask that has one for it was read.
\<close>

definition filled :: "'a \<Rightarrow> 'a list \<Rightarrow> (nat \<Rightarrow> 'a) \<Rightarrow> (nat \<times> nat) set \<Rightarrow> 'a list" where
  "filled d xs val D = map (\<lambda>i. if \<exists>m. (m, i) \<in> D \<and> val m \<noteq> d then xs ! i else d) [0..<length xs]"

definition axes_read :: "(nat \<times> nat) set \<Rightarrow> bool" where
  "axes_read D \<longleftrightarrow> (\<forall>(m, i) \<in> D. bit m i)"

text \<open>One field of an array: what a mask says of its axes, and that only one mask does.\<close>

locale axis_field =
  fixes d :: 'a and xs :: "'a list" and val :: "nat \<Rightarrow> 'a"
  assumes says: "bit m i \<Longrightarrow> val m \<noteq> d \<Longrightarrow> i < length xs \<and> xs ! i = val m"
    and once: "bit m i \<Longrightarrow> bit m' i \<Longrightarrow> val m \<noteq> d \<Longrightarrow> val m' \<noteq> d \<Longrightarrow> m = m'"
begin

lemma put_filled:
  assumes "axes_read D" and "bit m i" and "(m, i) \<notin> D"
  shows "put_once d (val m) i (filled d xs val D) = Inr (filled d xs val (insert (m, i) D))"
proof (cases "val m = d")
  case True
  then have "filled d xs val (insert (m, i) D) = filled d xs val D" by (auto simp: filled_def)
  with True show ?thesis by (simp add: put_once_def)
next
  case False
  have i: "i < length xs" "xs ! i = val m" using says [OF assms(2) False] by auto
  have "\<not> (\<exists>m'. (m', i) \<in> D \<and> val m' \<noteq> d)" using assms once [OF assms(2) _ False] by (auto simp: axes_read_def)
  then have "filled d xs val D ! i = d" using i(1) unfolding filled_def by (simp only: nth_map_upt diff_zero add_0 if_False)
  moreover have "(filled d xs val D)[i := val m] = filled d xs val (insert (m, i) D)"
    using i False by (auto simp: filled_def nth_list_update intro!: nth_equalityI)
  ultimately show ?thesis using False by (simp add: put_once_def)
qed

lemma filled_all:
  assumes "\<And>i. i < length xs \<Longrightarrow> xs ! i \<noteq> d \<Longrightarrow> \<exists>m. (m, i) \<in> D \<and> val m \<noteq> d"
  shows "filled d xs val D = xs"
proof (rule nth_equalityI)
  fix i assume "i < length (filled d xs val D)"
  then have "i < length xs" by (simp add: filled_def)
  then show "filled d xs val D ! i = xs ! i"
    using assms [of i] unfolding filled_def by (cases "xs ! i = d") (simp_all only: nth_map_upt diff_zero add_0 if_True if_cancel simp_thms)
qed (simp add: filled_def)

lemma filled_none: "filled d xs val {} = replicate (length xs) d"
  by (auto simp: filled_def intro!: nth_equalityI)

end

lemma value_field: "axis_field None xs (axis_value xs)"
proof
  fix m i assume m: "bit m i" "axis_value xs m \<noteq> None"
  then obtain v where v: "axis_value xs m = Some v" by blast
  then have "axis_mask xs v = m" by (simp add: axis_value_Some)
  with m(1) have "bit (axis_mask xs v) i" by simp
  then show "i < length xs \<and> xs ! i = axis_value xs m" by (simp add: bit_axis_mask v)
next
  fix m i m' assume "bit m i" "bit m' i" "axis_value xs m \<noteq> None" "axis_value xs m' \<noteq> None"
  then obtain v w where v: "axis_value xs m = Some v" and w: "axis_value xs m' = Some w" and b: "bit m i" "bit m' i" by blast
  then have "axis_mask xs v = m" "axis_mask xs w = m'" by (simp_all add: axis_value_Some)
  with b show "m = m'" by (metis bit_axis_mask option.inject)
qed

lemma divisor_value_not_one: "axis_value (map not_one ds) m \<noteq> Some 1"
  by (auto simp: axis_value_Some not_one_def split: if_splits)

lemma divisor_default: "divisor_value (axis_value (map not_one ds) m) = 1 \<longleftrightarrow> axis_value (map not_one ds) m = None"
  using divisor_value_not_one [of ds m] by (auto simp: divisor_value_def split: option.splits)

lemma divisor_field: "axis_field 1 ds (\<lambda>m. divisor_value (axis_value (map not_one ds) m))"
proof
  fix m i assume m: "bit m i" "divisor_value (axis_value (map not_one ds) m) \<noteq> 1"
  then have n: "axis_value (map not_one ds) m \<noteq> None" by (simp add: divisor_default)
  then obtain v where v: "axis_value (map not_one ds) m = Some v" by blast
  have i: "i < length (map not_one ds)" "map not_one ds ! i = Some v" using axis_field.says [OF value_field m(1) n] by (simp_all only: v)
  then have "not_one (ds ! i) = Some v" by simp
  then have "ds ! i = v" by (simp add: not_one_def split: if_splits)
  with i(1) show "i < length ds \<and> ds ! i = divisor_value (axis_value (map not_one ds) m)" by (simp add: v divisor_value_def)
next
  fix m i m' assume "bit m i" "bit m' i" "divisor_value (axis_value (map not_one ds) m) \<noteq> 1"
    "divisor_value (axis_value (map not_one ds) m') \<noteq> 1"
  then show "m = m'" using axis_field.once [OF value_field] by (simp add: divisor_default)
qed

interpretation value_axes: axis_field None xs "axis_value xs" for xs
  by (rule value_field)

interpretation divisor_axes: axis_field 1 ds "\<lambda>m. divisor_value (axis_value (map not_one ds) m)" for ds
  by (rule divisor_field)

definition axes_after :: "array_constraint \<Rightarrow> (nat \<times> nat) set \<Rightarrow> axis_lists" where
  "axes_after a D =
     \<lparr>axis_shapes = filled None (shape_constant a) (axis_value (shape_constant a)) D,
      axis_shape_divs = filled 1 (shape_divisible_by a) (\<lambda>m. divisor_value (axis_value (map not_one (shape_divisible_by a)) m)) D,
      axis_strides = filled None (stride_constant a) (axis_value (stride_constant a)) D,
      axis_stride_divs = filled 1 (stride_divisible_by a) (\<lambda>m. divisor_value (axis_value (map not_one (stride_divisible_by a)) m)) D,
      axis_lower_bounds = filled None (stride_lower_bound_incl a) (axis_value (stride_lower_bound_incl a)) D\<rparr>"

lemma set_axis_after:
  "axes_read D \<Longrightarrow> bit m i \<Longrightarrow> (m, i) \<notin> D \<Longrightarrow> set_axis (group_values a m) i (axes_after a D) = Inr (axes_after a (insert (m, i) D))"
  by (simp add: set_axis_def axes_after_def group_values_def value_axes.put_filled divisor_axes.put_filled)

lemma set_axes_after:
  "axes_read D \<Longrightarrow> \<forall>i \<in> set is. bit m i \<and> (m, i) \<notin> D \<Longrightarrow> distinct is \<Longrightarrow>
   fold_res (set_axis (group_values a m)) is (axes_after a D) = Inr (axes_after a (D \<union> Pair m ` set is))"
proof (induction "is" arbitrary: D)
  case (Cons i "is")
  have r: "axes_read (insert (m, i) D)" using Cons.prems(1,2) by (auto simp: axes_read_def)
  have "fold_res (set_axis (group_values a m)) is (axes_after a (insert (m, i) D)) = Inr (axes_after a (insert (m, i) D \<union> Pair m ` set is))"
    by (rule Cons.IH [OF r]) (use Cons.prems(2,3) in auto)
  then show ?case using Cons.prems(1,2) by (simp add: set_axis_after)
qed simp

definition pairs_of :: "nat \<Rightarrow> nat list \<Rightarrow> (nat \<times> nat) set" where
  "pairs_of n ms = {(m, i). m \<in> set ms \<and> i < n \<and> bit m i}"

lemma read_mask_at:
  "stops is_hex rest \<Longrightarrow> read_mask (at (CHR ''_'' # hexadecimal m @ rest) l) = Some (m, at rest l)"
  using hexadecimal_read [of m] by (simp add: read_mask_def read_while_at)

lemma group_text_stops:
  "stops is_hex rest \<Longrightarrow> stops is_hex (group_text a m @ rest)"
  by (simp add: group_text_def is_hex_def is_digit_def split: option.splits)

lemma demangle_axes_at:
  assumes a: "array_ok a"
  shows "distinct ms \<Longrightarrow> \<forall>m \<in> set ms. 0 < m \<and> m < 2 ^ ac_ndim a \<Longrightarrow> axes_read D \<Longrightarrow> \<forall>(m, i) \<in> D. m \<notin> set ms \<Longrightarrow>
    read_mask (at rest l) = None \<Longrightarrow>
    stops (\<lambda>c. is_hex c \<or> c \<in> {CHR ''s'', CHR ''i'', CHR ''t'', CHR ''v'', CHR ''l''}) rest \<Longrightarrow> length ms < n \<Longrightarrow>
    demangle_axes n (ac_ndim a) (axes_after a D)
      (at (concat (map (\<lambda>m. CHR ''_'' # hexadecimal m @ group_text a m) ms) @ rest) l)
    = Inr (axes_after a (D \<union> pairs_of (ac_ndim a) ms), at rest l)"
proof (induction ms arbitrary: D n)
  case Nil
  then show ?case by (cases n) (auto simp: pairs_of_def)
next
  case (Cons m ms)
  obtain k where n: "n = Suc k" using Cons.prems(7) by (cases n) auto
  let ?rest = "concat (map (\<lambda>m. CHR ''_'' # hexadecimal m @ group_text a m) ms) @ rest"
  let ?D = "D \<union> pairs_of (ac_ndim a) [m]"
  have stop: "stops (\<lambda>c. is_hex c \<or> c \<in> {CHR ''s'', CHR ''i'', CHR ''t'', CHR ''v'', CHR ''l''}) ?rest"
    using Cons.prems(6) by (cases ms) (auto simp: is_hex_def is_digit_def)
  have stop1: "stops is_hex (group_text a m @ ?rest)"
    by (rule group_text_stops, rule stops_weaken [OF stop]) simp
  have stop2: "stops (\<lambda>c. is_digit c \<or> c \<in> {CHR ''s'', CHR ''i'', CHR ''t'', CHR ''v'', CHR ''l''}) ?rest"
    by (rule stops_weaken [OF stop]) (auto simp: is_hex_def)
  have axes: "set (mask_axes (ac_ndim a) m) = {i. i < ac_ndim a \<and> bit m i}" "distinct (mask_axes (ac_ndim a) m)"
    by (auto simp: mask_axes_def)
  have "fold_res (set_axis (group_values a m)) (mask_axes (ac_ndim a) m) (axes_after a D) = Inr (axes_after a ?D)"
  proof -
    have "D \<union> Pair m ` set (mask_axes (ac_ndim a) m) = ?D" by (auto simp: axes pairs_of_def)
    moreover have "\<forall>i \<in> set (mask_axes (ac_ndim a) m). bit m i \<and> (m, i) \<notin> D" using Cons.prems(4) by (auto simp: axes)
    ultimately show ?thesis using set_axes_after [OF Cons.prems(3) _ axes(2)] by metis
  qed
  moreover have "demangle_axes k (ac_ndim a) (axes_after a ?D) (at ?rest l)
      = Inr (axes_after a (?D \<union> pairs_of (ac_ndim a) ms), at rest l)"
  proof (rule Cons.IH)
    show "axes_read ?D" using Cons.prems(3) by (auto simp: axes_read_def pairs_of_def)
    show "\<forall>(m', i) \<in> ?D. m' \<notin> set ms" using Cons.prems(1,4) by (auto simp: pairs_of_def)
  qed (use Cons.prems n in auto)
  moreover have "?D \<union> pairs_of (ac_ndim a) ms = D \<union> pairs_of (ac_ndim a) (m # ms)" by (auto simp: pairs_of_def)
  ultimately show ?case
    using Cons.prems(2) read_mask_at [OF stop1] demangle_predicates_at [OF a stop2] by (simp add: n not_le)
qed

section \<open>Array constraints\<close>

definition read_axes :: "array_constraint \<Rightarrow> axis_lists" where
  "read_axes a =
     \<lparr>axis_shapes = shape_constant a, axis_shape_divs = shape_divisible_by a, axis_strides = stride_constant a,
      axis_stride_divs = stride_divisible_by a, axis_lower_bounds = stride_lower_bound_incl a\<rparr>"

lemma collected_masks: "snd ` set (collected c vs) = {axis_mask vs v | v. Some v \<in> set vs}"
  using collect_result [of vs c] by force

lemma array_masks_set:
  "set (array_masks a) = (\<Union>vs \<in> {shape_constant a, map not_one (shape_divisible_by a), stride_constant a,
      map not_one (stride_divisible_by a), stride_lower_bound_incl a}. {axis_mask vs v | v. Some v \<in> set vs})"
  unfolding array_masks_result(2) axis_predicates_eq set_append image_Un collected_masks by auto

lemma array_masks_bounds:
  assumes "array_ok a" and "m \<in> set (array_masks a)"
  shows "0 < m \<and> m < 2 ^ ac_ndim a"
proof -
  obtain vs v where vs: "length vs = ac_ndim a" "Some v \<in> set vs" "m = axis_mask vs v"
  proof -
    from assms(2) obtain vs where vs: "vs \<in> {shape_constant a, map not_one (shape_divisible_by a), stride_constant a,
        map not_one (stride_divisible_by a), stride_lower_bound_incl a}" "m \<in> {axis_mask vs v | v. Some v \<in> set vs}"
      unfolding array_masks_set by (rule UN_E)
    from vs(1) have "length vs = ac_ndim a" by (elim insertE emptyE) (simp_all add: array_ok_facts(1-5) [OF assms(1)])
    with that vs(2) show thesis by blast
  qed
  then obtain i where "i < length vs" "vs ! i = Some v" by (auto simp: in_set_conv_nth)
  then have "bit m i" by (simp add: vs(3) bit_axis_mask)
  then have "0 < m" by (cases "m = 0") auto
  moreover have "take_bit (ac_ndim a) m = m"
    by (rule bit_eqI) (auto simp: bit_take_bit_iff vs bit_axis_mask)
  ultimately show ?thesis by (simp add: take_bit_nat_eq_self_iff)
qed

lemma axes_after_all:
  assumes a: "array_ok a"
  shows "axes_after a (pairs_of (ac_ndim a) (array_masks a)) = read_axes a"
proof -
  note len = array_ok_facts(1-5) [OF a]
  have has_value: "\<exists>m. (m, i) \<in> pairs_of (ac_ndim a) (array_masks a) \<and> axis_value vs m \<noteq> None"
    if "vs \<in> {shape_constant a, map not_one (shape_divisible_by a), stride_constant a,
      map not_one (stride_divisible_by a), stride_lower_bound_incl a}" "i < length vs" "vs ! i \<noteq> None" "length vs = ac_ndim a" for vs i
  proof -
    from that(3) obtain v where v: "vs ! i = Some v" by blast
    with that(2) have mem: "Some v \<in> set vs" by (metis nth_mem)
    with that(1) have "axis_mask vs v \<in> set (array_masks a)" unfolding array_masks_set by blast
    moreover have "bit (axis_mask vs v) i" using that(2) v by (simp add: bit_axis_mask)
    moreover have "axis_value vs (axis_mask vs v) = Some v" using mem by (simp add: axis_value_Some)
    ultimately show ?thesis using that(2,4) by (auto simp: pairs_of_def)
  qed
  have divisor: "\<exists>m. (m, i) \<in> pairs_of (ac_ndim a) (array_masks a) \<and> divisor_value (axis_value (map not_one ds) m) \<noteq> 1"
    if "ds \<in> {shape_divisible_by a, stride_divisible_by a}" "i < length ds" "ds ! i \<noteq> 1" for ds i
    using has_value [of "map not_one ds" i] that len unfolding divisor_default by (auto simp: not_one_def)
  have fields: "filled None (shape_constant a) (axis_value (shape_constant a)) (pairs_of (ac_ndim a) (array_masks a)) = shape_constant a"
    "filled None (stride_constant a) (axis_value (stride_constant a)) (pairs_of (ac_ndim a) (array_masks a)) = stride_constant a"
    "filled None (stride_lower_bound_incl a) (axis_value (stride_lower_bound_incl a)) (pairs_of (ac_ndim a) (array_masks a)) = stride_lower_bound_incl a"
    by (rule value_axes.filled_all, rule has_value; simp add: len)+
  have divs: "filled 1 (shape_divisible_by a) (\<lambda>m. divisor_value (axis_value (map not_one (shape_divisible_by a)) m))
      (pairs_of (ac_ndim a) (array_masks a)) = shape_divisible_by a"
    "filled 1 (stride_divisible_by a) (\<lambda>m. divisor_value (axis_value (map not_one (stride_divisible_by a)) m))
      (pairs_of (ac_ndim a) (array_masks a)) = stride_divisible_by a"
    by (rule divisor_axes.filled_all, rule divisor; simp)+
  show ?thesis unfolding axes_after_def read_axes_def
    by (simp only: fields divs)
qed

end
