(* ===== verification/MangleExtras.thy ===== *)
theory MangleExtras
  imports MangleAxes
begin

text \<open>
  An array constraint is read back from its text, whatever constraint follows it.
\<close>

section \<open>Arrays\<close>

text \<open>What may follow a constraint: nothing, the constraint of the next item, or that of the next parameter.\<close>

definition ends :: "string \<Rightarrow> bool" where
  "ends rest \<longleftrightarrow>
     (case rest of [] \<Rightarrow> True | c # cs \<Rightarrow> is_upper c \<or> c = CHR ''_'' \<and> (case cs of [] \<Rightarrow> False | d # ds \<Rightarrow> is_upper d))"

lemma is_upper_not: "is_upper c \<Longrightarrow> \<not> is_lower c" "is_upper c \<Longrightarrow> \<not> is_digit c" "is_upper c \<Longrightarrow> \<not> is_hex c" "\<not> is_upper CHR ''_''"
  by (auto simp: is_upper_def is_lower_def is_digit_def is_hex_def)

lemma ends_stops: "ends rest \<Longrightarrow> (\<And>c. is_upper c \<Longrightarrow> \<not> P c) \<Longrightarrow> \<not> P CHR ''_'' \<Longrightarrow> stops P rest"
  by (cases rest) (auto simp: ends_def)

lemma ends_read_mask: "ends rest \<Longrightarrow> read_mask (at rest l) = None"
  by (cases rest) (auto simp: ends_def read_mask_def read_while_def is_upper_not split: list.splits)

lemma ends_no_extras: "ends rest \<Longrightarrow> demangle_extras names (at rest l) = Inr ((1, [], False, int32), at rest l)"
  by (cases rest) (auto simp: ends_def demangle_extras_def is_upper_not split: list.splits)

definition rename_array :: "(string \<Rightarrow> string) \<Rightarrow> array_constraint \<Rightarrow> array_constraint" where
  "rename_array f a = a\<lparr>ac_alias_groups := map f (ac_alias_groups a)\<rparr>"

lemma init_groups:
  "ArrayConstraint_init t n i lb gs ma st sh sd shd b = Inr a \<Longrightarrow>
   ArrayConstraint_init t n i lb gs' ma st sh sd shd b = Inr (a\<lparr>ac_alias_groups := gs'\<rparr>)"
  by (auto simp: ArrayConstraint_init_def and_then_Inr_iff Let_def split: if_splits)

definition index_text :: "DType \<Rightarrow> string" where
  "index_text t = (if t = uint32 then ''u'' else if t = int64 then ''w'' else [])"

definition extras_text :: "array_constraint \<Rightarrow> nat list \<Rightarrow> string" where
  "extras_text a ids =
     pred_text CHR ''p'' (not_one (base_addr_divisible_by a)) @ mangle_group_ids ids
     @ (if may_alias_internally a then ''i'' else []) @ index_text (ac_index_dtype a)"

lemma array_extras_text: "array_ok a \<Longrightarrow> array_extras a ids = Inr (extras_text a ids)"
  using array_ok_facts(9) [of a]
  by (auto simp: array_extras_def extras_text_def index_text_def not_one_def py_assert_def)

lemma mangle_group_ids_hd: "mangle_group_ids ids = [] \<and> ids = [] \<or> (\<exists>cs. mangle_group_ids ids = CHR ''g'' # cs \<and> ids \<noteq> [])"
  by (cases ids) (auto simp: mangle_group_ids_def)

lemma extras_text_hd:
  "extras_text a ids = [] \<and> base_addr_divisible_by a = 1 \<and> ids = [] \<and> \<not> may_alias_internally a
      \<and> ac_index_dtype a \<noteq> uint32 \<and> ac_index_dtype a \<noteq> int64
   \<or> (\<exists>c cs. extras_text a ids = c # cs \<and> is_lower c \<and> \<not> is_hex c)"
  using mangle_group_ids_hd [of ids]
  by (auto simp: extras_text_def not_one_def index_text_def is_lower_def is_hex_def is_digit_def)

lemma divisor_not_one: "divisor_value (not_one d) = d"
  by (simp add: not_one_def divisor_value_def)

lemma demangle_extras_at:
  assumes a: "array_ok a" and ids: "readable_ids None l ids = Some l'" "\<forall>i \<in> set ids. group_name names i = Inr (nm i)"
    and rest: "ends rest"
  shows "demangle_extras names (at ((if extras_text a ids = [] then [] else CHR ''_'' # extras_text a ids) @ rest) l)
    = Inr ((base_addr_divisible_by a, map nm ids, may_alias_internally a, ac_index_dtype a), at rest l')"
proof (cases "extras_text a ids = []")
  case True
  with extras_text_hd [of a ids] have f: "base_addr_divisible_by a = 1" "ids = []" "\<not> may_alias_internally a"
    "ac_index_dtype a \<noteq> uint32" "ac_index_dtype a \<noteq> int64" by auto
  moreover have "ac_index_dtype a = int32" using array_ok_facts(9) [OF a] f by blast
  ultimately show ?thesis using True ids(1) ends_no_extras [OF rest] by simp
next
  case False
  then obtain c cs where c: "extras_text a ids = c # cs" "is_lower c" using extras_text_hd [of a ids] by auto
  let ?w = "index_text (ac_index_dtype a) @ rest"
  let ?i = "(if may_alias_internally a then ''i'' else []) @ ?w"
  let ?g = "mangle_group_ids ids @ ?i"
  let ?p = "pred_text CHR ''p'' (not_one (base_addr_divisible_by a)) @ ?g"
  have p: "extras_text a ids @ rest = ?p" by (simp add: extras_text_def)
  note stop = ends_stops [OF rest]
  have w: "stops P ?w" if "\<not> P CHR ''u''" "\<not> P CHR ''w''" "\<And>c. is_upper c \<Longrightarrow> \<not> P c" "\<not> P CHR ''_''" for P
    using that stop [of P] by (simp add: index_text_def)
  then have i: "stops P ?i" if "\<not> P CHR ''i''" "\<not> P CHR ''u''" "\<not> P CHR ''w''" "\<And>c. is_upper c \<Longrightarrow> \<not> P c" "\<not> P CHR ''_''" for P
    using that by simp
  have g: "stops P ?g" if "\<not> P CHR ''g''" "\<not> P CHR ''i''" "\<not> P CHR ''u''" "\<not> P CHR ''w''" "\<And>c. is_upper c \<Longrightarrow> \<not> P c" "\<not> P CHR ''_''" for P
    using i [of P] that mangle_group_ids_hd [of ids] by auto
  have "0 < base_addr_divisible_by a" using array_ok_facts(8) [OF a] .
  then have "read_optional CHR ''p'' demangle_divisibility 1 (at ?p l) = Inr (divisor_value (not_one (base_addr_divisible_by a)), at ?g l)"
    by (intro read_divisor g) (auto simp: not_one_def is_digit_def is_upper_def split: if_splits)
  moreover have "demangle_group_ids names (at ?g l) = Inr (map nm ids, at ?i l')"
    by (intro demangle_group_ids_at ids i) (auto simp: is_hex_def is_digit_def is_upper_def)
  moreover have "read_char CHR ''i'' (at ?w l') = None"
  proof -
    have "stops (\<lambda>c. c = CHR ''i'') ?w" by (rule w) (auto simp: is_upper_def)
    then show ?thesis by (cases "?w") auto
  qed
  moreover have "read_char CHR ''u'' (at rest l') = None" "read_char CHR ''w'' (at rest l') = None"
  proof -
    have "stops (\<lambda>c. c = CHR ''u'') rest" "stops (\<lambda>c. c = CHR ''w'') rest" by (rule stop; force simp: is_upper_def)+
    then show "read_char CHR ''u'' (at rest l') = None" "read_char CHR ''w'' (at rest l') = None" by (cases rest; simp)+
  qed
  moreover have "demangle_extras names (at (CHR ''_'' # extras_text a ids @ rest) l) =
      and_then (read_optional CHR ''p'' demangle_divisibility 1 (at (extras_text a ids @ rest) l)) (\<lambda>(base, cur).
      and_then (demangle_group_ids names cur) (\<lambda>(groups, cur).
        let (i, cur) = (case read_char CHR ''i'' cur of None \<Rightarrow> (False, cur) | Some cur \<Rightarrow> (True, cur));
            (t, cur) =
              (case read_char CHR ''u'' cur of
                 Some cur \<Rightarrow> (uint32, cur)
               | None \<Rightarrow> (case read_char CHR ''w'' cur of Some cur \<Rightarrow> (int64, cur) | None \<Rightarrow> (int32, cur)))
        in Inr ((base, groups, i, t), cur)))"
    using c(2) unfolding c(1) by (simp add: demangle_extras_def)
  ultimately show ?thesis
    using array_ok_facts(9) [OF a] False p
    by (simp only: if_False append_Cons p) (auto simp: divisor_not_one index_text_def Let_def)
qed

definition masks_text :: "array_constraint \<Rightarrow> string" where
  "masks_text a = concat (map (\<lambda>m. CHR ''_'' # hexadecimal m @ group_text a m) (array_masks a))"

lemma masks_text_length: "length (array_masks a) \<le> length (masks_text a)"
proof -
  have "length ms \<le> length (concat (map (\<lambda>m. CHR ''_'' # hexadecimal m @ group_text a m) ms))" for ms
    by (induction ms) auto
  then show ?thesis by (simp add: masks_text_def)
qed

lemma masks_text_eq: "concat (map (mask_text (by_mask (axis_predicates a))) (sort (map fst (by_mask (axis_predicates a))))) = masks_text a"
proof -
  have "map (mask_text (by_mask (axis_predicates a))) (array_masks a) = map (\<lambda>m. CHR ''_'' # hexadecimal m @ group_text a m) (array_masks a)"
    by (rule map_cong [OF refl]) (simp add: array_masks_result(3))
  then show ?thesis unfolding masks_text_def array_masks_def by (rule arg_cong)
qed

lemma array_text:
  assumes "array_ok a" and "mangle_array_constraint m a = Inr s"
  shows "\<exists>t ids. mangle_dtype (ac_dtype a) = Inr t \<and> group_ids m (ac_alias_groups a) = Inr ids
    \<and> s = decimal (ac_ndim a) @ t @ masks_text a @ (if extras_text a ids = [] then [] else CHR ''_'' # extras_text a ids)"
  using assms(2) array_extras_text [OF assms(1)] masks_text_eq [of a]
  by (auto simp: mangle_array_constraint_def and_then_Inr_iff Let_def split: if_splits)

lemma static_stride_read: "array_ok a \<Longrightarrow> static_stride_alone (read_axes a)"
proof -
  assume a: "array_ok a"
  have "v = 1 \<and> l = None" if "(t, v, l) \<in> set (zip (stride_constant a) (zip (stride_divisible_by a) (stride_lower_bound_incl a)))" "t \<noteq> None" for t v l
  proof -
    from that(1) obtain i where "i < length (stride_constant a)" "i < length (stride_divisible_by a)" "i < length (stride_lower_bound_incl a)"
      "t = stride_constant a ! i" "v = stride_divisible_by a ! i" "l = stride_lower_bound_incl a ! i"
      by (auto simp: in_set_zip)
    then have "(t, v) \<in> set (zip (stride_constant a) (stride_divisible_by a))" "(t, l) \<in> set (zip (stride_constant a) (stride_lower_bound_incl a))"
      by (auto simp: in_set_zip)
    with array_ok_facts(10,11) [OF a] that(2) show ?thesis by auto
  qed
  then show ?thesis by (auto simp: static_stride_alone_def read_axes_def)
qed

lemma axes_after_none:
  "array_ok a \<Longrightarrow> axes_after a {} =
     \<lparr>axis_shapes = replicate (ac_ndim a) None, axis_shape_divs = replicate (ac_ndim a) 1, axis_strides = replicate (ac_ndim a) None,
      axis_stride_divs = replicate (ac_ndim a) 1, axis_lower_bounds = replicate (ac_ndim a) None\<rparr>"
  using value_axes.filled_none divisor_axes.filled_none
  by (simp add: axes_after_def array_ok_facts(1-5))

lemma demangle_array_at:
  assumes a: "array_ok a" and s: "mangle_array_constraint m a = Inr s" and ids: "group_ids m (ac_alias_groups a) = Inr ids"
    "readable_ids None l ids = Some l'" "\<forall>i \<in> set ids. group_name names i = Inr (nm i)"
    and rest: "ends rest"
  shows "demangle_array_constraint names (at (s @ rest) l) = Inr (a\<lparr>ac_alias_groups := map nm ids\<rparr>, at rest l')"
proof -
  obtain t where t: "mangle_dtype (ac_dtype a) = Inr t"
    and st: "s = decimal (ac_ndim a) @ t @ masks_text a @ (if extras_text a ids = [] then [] else CHR ''_'' # extras_text a ids)"
    using array_text [OF a s] ids(1) by auto
  define e where "e = (if extras_text a ids = [] then [] else CHR ''_'' # extras_text a ids) @ rest"
  define ms where "ms = masks_text a @ e"
  have estop: "stops P e" if "\<And>c. is_upper c \<Longrightarrow> \<not> P c" "\<not> P CHR ''_''" for P
    using ends_stops [OF rest, of P] that by (auto simp: e_def)
  have mstop: "stops P ms" if "\<And>c. is_upper c \<Longrightarrow> \<not> P c" "\<not> P CHR ''_''" for P
  proof (cases "array_masks a")
    case Nil
    then show ?thesis using estop [of P] that by (simp add: ms_def masks_text_def)
  qed (simp add: ms_def masks_text_def that)
  have "stops is_digit (t @ ms)" using mangle_dtype_hd [OF t] by (auto simp: is_lower_def is_digit_def)
  then have "expect_nat (at (s @ rest) l) = Inr (ac_ndim a, at (t @ ms) l)"
    using expect_nat_at [of "t @ ms" "ac_ndim a" l] by (simp only: st append_assoc ms_def e_def)
  moreover have "demangle_dtype (at (t @ ms) l) = Inr (ac_dtype a, at ms l)"
    by (rule demangle_dtype_at [OF t]) (rule mstop; auto simp: is_upper_def is_lower_def is_digit_def)
  moreover have "demangle_axes (Suc (length ms)) (ac_ndim a) (axes_after a {}) (at ms l) = Inr (read_axes a, at e l)"
  proof -
    have "read_mask (at e l) = None"
    proof (cases "extras_text a ids = []")
      case False
      then obtain c cs where "extras_text a ids = c # cs" "\<not> is_hex c" using extras_text_hd [of a ids] by auto
      then show ?thesis by (simp add: e_def read_mask_def read_while_def)
    qed (simp add: e_def ends_read_mask [OF rest])
    moreover have "stops (\<lambda>c. is_hex c \<or> c \<in> {CHR ''s'', CHR ''i'', CHR ''t'', CHR ''v'', CHR ''l''}) e"
      by (rule estop) (auto simp: is_upper_def is_hex_def is_digit_def)
    moreover have "axes_read {}" by (simp add: axes_read_def)
    ultimately have "demangle_axes (Suc (length ms)) (ac_ndim a) (axes_after a {}) (at ms l)
        = Inr (axes_after a ({} \<union> pairs_of (ac_ndim a) (array_masks a)), at e l)"
      unfolding ms_def masks_text_def
      using array_masks_bounds [OF a] masks_text_length [of a]
      by (intro demangle_axes_at [OF a] array_masks_result(1)) (auto simp: masks_text_def)
    then show ?thesis using axes_after_all [OF a] by simp
  qed
  moreover have "demangle_extras names (at e l)
      = Inr ((base_addr_divisible_by a, map nm ids, may_alias_internally a, ac_index_dtype a), at rest l')"
    unfolding e_def by (rule demangle_extras_at [OF a ids(2,3) rest])
  moreover have "ArrayConstraint_init (ac_dtype a) (int (ac_ndim a)) (ac_index_dtype a) (Each (stride_lower_bound_incl a))
       (map nm ids) (may_alias_internally a) (Each (stride_constant a)) (Each (shape_constant a))
       (Each (stride_divisible_by a)) (Each (shape_divisible_by a)) (base_addr_divisible_by a) = Inr (a\<lparr>ac_alias_groups := map nm ids\<rparr>)"
    by (rule init_groups) (use a in \<open>simp only: array_ok_def\<close>)
  moreover have "axis_shapes (read_axes a) = shape_constant a" "axis_shape_divs (read_axes a) = shape_divisible_by a"
    "axis_strides (read_axes a) = stride_constant a" "axis_stride_divs (read_axes a) = stride_divisible_by a"
    "axis_lower_bounds (read_axes a) = stride_lower_bound_incl a" by (simp_all add: read_axes_def)
  ultimately show ?thesis using static_stride_read [OF a] axes_after_none [OF a]
    by (simp add: demangle_array_constraint_def del: demangle_axes.simps)
qed

end
