(* ===== verification/MangleConstraint.thy ===== *)
theory MangleConstraint
  imports MangleExtras
begin

text \<open>
  A constraint is read back from its text, with the groups renamed the way the reader names
  their ids; the text has no capital K after its first character.
\<close>

section \<open>Constraints\<close>

fun rename_groups :: "(string \<Rightarrow> string) \<Rightarrow> ParameterConstraint \<Rightarrow> ParameterConstraint" where
  "rename_groups f (ArrayConstraint a) = ArrayConstraint (rename_array f a)"
| "rename_groups f (ListConstraint a groups b) = ListConstraint (rename_array f a) (map f groups) b"
| "rename_groups f (TupleConstraint items) = TupleConstraint (map (rename_groups f) items)"
| "rename_groups f p = p"

text \<open>
  Constraints that can be mangled: the arrays are what their constructor makes, and the table
  of data types has theirs.
\<close>

definition array_mangleable :: "array_constraint \<Rightarrow> bool" where
  "array_mangleable a \<longleftrightarrow> array_ok a \<and> ac_dtype a \<in> fst ` set mangled_dtype"

fun mangleable :: "ParameterConstraint \<Rightarrow> bool" where
  "mangleable (ArrayConstraint a) = array_mangleable a"
| "mangleable (ListConstraint a groups b) = array_mangleable a"
| "mangleable (TupleConstraint items) = list_all mangleable items"
| "mangleable (ScalarConstraint t) = (t \<in> fst ` set mangled_dtype)"
| "mangleable (ConstantConstraint c) = True"

definition listed_ids :: "(string \<times> nat) list \<Rightarrow> string list \<Rightarrow> nat list" where
  "listed_ids m groups = map (\<lambda>g. the (map_of m g)) groups"

text \<open>The id that was read last after the groups of some constraints, if they can be read.\<close>

fun read_ids :: "(string \<times> nat) list \<Rightarrow> int \<Rightarrow> (constraint_kind \<times> string list) list \<Rightarrow> int option" where
  "read_ids m l [] = Some l"
| "read_ids m l ((kind, groups) # rest) =
     (case readable_ids None l (listed_ids m groups) of None \<Rightarrow> None | Some l' \<Rightarrow> read_ids m l' rest)"

definition all_groups :: "ParameterConstraint list \<Rightarrow> string set" where
  "all_groups params = \<Union> (set ` snd ` set (collect_alias_groups params))"

lemma collect_cons: "collect_alias_groups (p # ps) = collect_alias_groups [p] @ collect_alias_groups ps"
  by (cases p) simp_all

lemma read_ids_append: "read_ids m l (xs @ ys) = (case read_ids m l xs of None \<Rightarrow> None | Some l \<Rightarrow> read_ids m l ys)"
  by (induction m l xs rule: read_ids.induct) (auto split: option.splits)

lemma group_ids_listed:
  assumes "set groups \<subseteq> fst ` set m" and "readable_ids None l (listed_ids m groups) = Some l'"
  shows "group_ids m groups = Inr (listed_ids m groups)"
proof -
  have "map_res (\<lambda>ag. case map_of m ag of None \<Rightarrow> Inl KeyError | Some i \<Rightarrow> Inr i) groups = Inr (listed_ids m groups)"
    using assms(1) by (induction groups) (auto simp: listed_ids_def map_of_eq_None_iff split: option.splits)
  moreover have "sorted (listed_ids m groups)" using readable_ids_sorted [of None l "listed_ids m groups"] assms(2) by simp
  ultimately show ?thesis by (simp add: group_ids_def sort_key_id_if_sorted)
qed

lemma mangle_dtype_table: "t \<in> fst ` set mangled_dtype \<Longrightarrow> \<exists>s. mangle_dtype t = Inr s"
  by (cases "map_of mangled_dtype t") (auto simp: mangle_dtype_def map_of_eq_None_iff)

text \<open>The characters of a constraint after its first one.\<close>

definition plain :: "char \<Rightarrow> bool" where
  "plain c \<longleftrightarrow> is_lower c \<or> is_digit c \<or> c = CHR ''_''"

definition plain_tail :: "string \<Rightarrow> bool" where
  "plain_tail s \<longleftrightarrow> (\<exists>c cs. s = c # cs \<and> is_upper c) \<and> CHR ''K'' \<notin> set s"

lemma plain_hex: "is_hex c \<Longrightarrow> plain c"
  by (auto simp: is_hex_def plain_def is_lower_def)

lemma plain_numbers [simp]: "list_all plain (decimal n)" "list_all plain (hexadecimal n)" "list_all plain (mangle_signed_int v)"
proof -
  show d: "list_all plain (decimal n)" for n using decimal_read [of n] by (auto simp: list_all_iff plain_def)
  show "list_all plain (hexadecimal n)" using hexadecimal_read [of n] plain_hex by (auto simp: list_all_iff)
  show "list_all plain (mangle_signed_int v)" using d by (simp add: mangle_signed_int_def plain_def)
qed

lemma plain_dtype: "mangle_dtype t = Inr s \<Longrightarrow> list_all plain s"
proof -
  assume "mangle_dtype t = Inr s"
  then have "(t, s) \<in> set mangled_dtype" by (auto simp: mangle_dtype_def dest: map_of_SomeD split: option.splits)
  moreover have "\<forall>(t, s) \<in> set mangled_dtype. list_all plain s"
    unfolding mangled_dtype_def by (simp add: plain_def is_lower_def is_digit_def)
  ultimately show ?thesis by blast
qed

lemma plain_pred: "is_lower c \<Longrightarrow> list_all plain (pred_text c x)"
  by (cases x) (simp_all add: plain_def)

lemma plain_groups: "list_all plain (mangle_group_ids ids)"
  by (induction ids) (simp_all add: mangle_group_ids_def, simp add: plain_def is_lower_def)

lemma plain_array: "array_ok a \<Longrightarrow> mangle_array_constraint m a = Inr s \<Longrightarrow> list_all plain s"
proof -
  assume a: "array_ok a" and s: "mangle_array_constraint m a = Inr s"
  have letters: "is_lower CHR ''s''" "is_lower CHR ''i''" "is_lower CHR ''t''" "is_lower CHR ''v''" "is_lower CHR ''l''"
    "is_lower CHR ''p''" "is_lower CHR ''u''" "is_lower CHR ''w''" by (simp_all add: is_lower_def)
  have "list_all plain (group_text a k)" for k by (simp add: group_text_def plain_pred letters)
  moreover have "plain CHR ''_''" by (simp add: plain_def)
  ultimately have "list_all plain (concat (map (\<lambda>m. CHR ''_'' # hexadecimal m @ group_text a m) ms))" for ms
    by (induction ms) simp_all
  then have "list_all plain (masks_text a)" by (simp add: masks_text_def)
  moreover have "list_all plain (extras_text a ids)" for ids
    by (auto simp: extras_text_def plain_pred letters plain_groups index_text_def) (simp_all add: plain_def letters)
  ultimately show ?thesis using array_text [OF a s] plain_dtype by (auto simp: plain_def)
qed

lemma plain_tail_intro: "is_upper c \<Longrightarrow> c \<noteq> CHR ''K'' \<Longrightarrow> list_all plain s \<Longrightarrow> plain_tail (c # s)"
  by (auto simp: plain_tail_def list_all_iff plain_def is_lower_def is_digit_def)

section \<open>Reading a constraint\<close>

definition reads :: "string list option \<Rightarrow> string \<Rightarrow> ParameterConstraint \<Rightarrow> int \<Rightarrow> int \<Rightarrow> bool" where
  "reads names s p l l' \<longleftrightarrow>
     (\<forall>rest n. ends rest \<longrightarrow> length s \<le> n \<longrightarrow> demangle_constraint n names (at (s @ rest) l) = Inr (p, at rest l'))"

text \<open>How the groups are named when they are read, for the groups of the table.\<close>

definition names_groups :: "(string \<times> nat) list \<Rightarrow> string list option \<Rightarrow> (string \<Rightarrow> string) \<Rightarrow> bool" where
  "names_groups m names f \<longleftrightarrow> (\<forall>g \<in> fst ` set m. group_name names (the (map_of m g)) = Inr (f g))"

lemma readsI:
  assumes "\<And>rest n. ends rest \<Longrightarrow> length cs \<le> n \<Longrightarrow> demangle_constraint (Suc n) names (at (c # cs @ rest) l) = Inr (p, at rest l')"
  shows "reads names (c # cs) p l l'"
  unfolding reads_def
proof (intro allI impI)
  fix rest n assume "ends rest" "length (c # cs) \<le> n"
  then show "demangle_constraint n names (at ((c # cs) @ rest) l) = Inr (p, at rest l')" using assms by (cases n) auto
qed

lemma listed_names:
  assumes "names_groups m names f" and "set groups \<subseteq> fst ` set m"
  shows "\<exists>nm. (\<forall>i \<in> set (listed_ids m groups). group_name names i = Inr (nm i)) \<and> map nm (listed_ids m groups) = map f groups"
proof (intro exI conjI)
  let ?nm = "\<lambda>i. case group_name names i of Inr s \<Rightarrow> s | Inl e \<Rightarrow> []"
  have "group_name names (the (map_of m g)) = Inr (f g)" if "g \<in> set groups" for g
    using assms that by (auto simp: names_groups_def)
  then show "\<forall>i \<in> set (listed_ids m groups). group_name names i = Inr (?nm i)" "map ?nm (listed_ids m groups) = map f groups"
    by (auto simp: listed_ids_def)
qed

lemma array_reads:
  assumes a: "array_mangleable a" and m: "set (ac_alias_groups a) \<subseteq> fst ` set m" and f: "names_groups m names f"
    and ids: "readable_ids None l (listed_ids m (ac_alias_groups a)) = Some l'"
  shows "\<exists>s. mangle_array_constraint m a = Inr s \<and> list_all plain s
    \<and> (\<forall>rest. ends rest \<longrightarrow> demangle_array_constraint names (at (s @ rest) l) = Inr (rename_array f a, at rest l'))"
proof -
  have ok: "array_ok a" and t: "ac_dtype a \<in> fst ` set mangled_dtype" using a by (simp_all add: array_mangleable_def)
  have g: "group_ids m (ac_alias_groups a) = Inr (listed_ids m (ac_alias_groups a))" by (rule group_ids_listed [OF m ids])
  obtain ts where "mangle_dtype (ac_dtype a) = Inr ts" using mangle_dtype_table [OF t] by blast
  then obtain s where s: "mangle_array_constraint m a = Inr s"
    using g array_extras_text [OF ok] by (simp add: mangle_array_constraint_def Let_def)
  obtain nm where nm: "\<forall>i \<in> set (listed_ids m (ac_alias_groups a)). group_name names i = Inr (nm i)"
    "map nm (listed_ids m (ac_alias_groups a)) = map f (ac_alias_groups a)" using listed_names [OF f m] by blast
  show ?thesis
  proof (intro exI conjI allI impI)
    show "mangle_array_constraint m a = Inr s" by (rule s)
    show "list_all plain s" by (rule plain_array [OF ok s])
    fix rest assume "ends rest"
    from demangle_array_at [OF ok s g ids nm(1) this] nm(2)
    show "demangle_array_constraint names (at (s @ rest) l) = Inr (rename_array f a, at rest l')" by (simp add: rename_array_def)
  qed
qed

definition mangles :: "(string \<times> nat) list \<Rightarrow> string list option \<Rightarrow> (string \<Rightarrow> string) \<Rightarrow> ParameterConstraint \<Rightarrow> int \<Rightarrow> int \<Rightarrow> bool" where
  "mangles m names f p l l' \<longleftrightarrow> (\<exists>s. mangle_constraint m p = Inr s \<and> plain_tail s \<and> reads names s (rename_groups f p) l l')"

lemma mangles_array:
  assumes "mangleable (ArrayConstraint a)" and "all_groups [ArrayConstraint a] \<subseteq> fst ` set m" and "names_groups m names f"
    and "read_ids m l (collect_alias_groups [ArrayConstraint a]) = Some l'"
  shows "mangles m names f (ArrayConstraint a) l l'"
proof -
  have "readable_ids None l (listed_ids m (ac_alias_groups a)) = Some l'" using assms(4) by (simp split: option.splits)
  then obtain s where s: "mangle_array_constraint m a = Inr s" "list_all plain s"
    "\<And>rest. ends rest \<Longrightarrow> demangle_array_constraint names (at (s @ rest) l) = Inr (rename_array f a, at rest l')"
    using array_reads [of a m names f l l'] assms(1-3) by (auto simp: all_groups_def)
  have "reads names (CHR ''A'' # s) (rename_groups f (ArrayConstraint a)) l l'"
    by (rule readsI) (simp add: s(3))
  with s(1) plain_tail_intro [OF _ _ s(2), of "CHR ''A''"] show ?thesis by (simp add: mangles_def is_upper_def)
qed

lemma mangles_list:
  assumes "mangleable (ListConstraint a groups b)" and "all_groups [ListConstraint a groups b] \<subseteq> fst ` set m" and f: "names_groups m names f"
    and "read_ids m l (collect_alias_groups [ListConstraint a groups b]) = Some l'"
  shows "mangles m names f (ListConstraint a groups b) l l'"
proof -
  obtain k where k: "readable_ids None l (listed_ids m groups) = Some k" "readable_ids None k (listed_ids m (ac_alias_groups a)) = Some l'"
    using assms(4) by (auto split: option.splits)
  have sub: "set groups \<subseteq> fst ` set m" "set (ac_alias_groups a) \<subseteq> fst ` set m" using assms(2) by (auto simp: all_groups_def)
  obtain s where s: "mangle_array_constraint m a = Inr s" "list_all plain s"
    "\<And>rest. ends rest \<Longrightarrow> demangle_array_constraint names (at (s @ rest) k) = Inr (rename_array f a, at rest l')"
    using array_reads [of a m names f k l'] assms(1) sub(2) f k(2) by auto
  have g: "group_ids m groups = Inr (listed_ids m groups)" by (rule group_ids_listed [OF sub(1) k(1)])
  obtain nm where nm: "\<forall>i \<in> set (listed_ids m groups). group_name names i = Inr (nm i)"
    "map nm (listed_ids m groups) = map f groups" using listed_names [OF f sub(1)] by blast
  let ?i = "if b then ''i'' else []"
  let ?t = "mangle_group_ids (listed_ids m groups) @ ?i @ CHR ''A'' # s"
  have "reads names (CHR ''L'' # ?t) (rename_groups f (ListConstraint a groups b)) l l'"
  proof (rule readsI)
    fix rest n assume rest: "ends rest" and n: "length ?t \<le> n"
    obtain j where j: "n = Suc j" using n by (cases n) auto
    have "stops (\<lambda>c. c = CHR ''g'' \<or> is_hex c) (?i @ CHR ''A'' # s @ rest)" by (simp add: is_hex_def is_digit_def)
    from demangle_group_ids_at [OF k(1) nm(1) this] nm(2)
    have "demangle_group_ids names (at (?t @ rest) l) = Inr (map f groups, at (?i @ CHR ''A'' # s @ rest) k)" by simp
    moreover have "demangle_constraint n names (at (CHR ''A'' # s @ rest) k) = Inr (ArrayConstraint (rename_array f a), at rest l')"
      by (simp add: j s(3) [OF rest])
    ultimately show "demangle_constraint (Suc n) names (at (CHR ''L'' # ?t @ rest) l) = Inr (rename_groups f (ListConstraint a groups b), at rest l')"
      by (cases b) simp_all
  qed
  moreover have "plain_tail (CHR ''L'' # ?t)"
  proof -
    have "CHR ''K'' \<notin> set (mangle_group_ids (listed_ids m groups))" "CHR ''K'' \<notin> set s"
      using plain_groups [of "listed_ids m groups"] s(2) by (auto simp: list_all_iff plain_def is_lower_def is_digit_def)
    then show ?thesis by (simp add: plain_tail_def is_upper_def)
  qed
  ultimately show ?thesis by (simp add: mangles_def g s(1))
qed

lemma mangles_scalar:
  assumes "mangleable (ScalarConstraint t)"
  shows "mangles m names f (ScalarConstraint t) l l"
proof -
  obtain s where s: "mangle_dtype t = Inr s" using assms mangle_dtype_table by auto
  have "reads names (CHR ''S'' # s) (ScalarConstraint t) l l"
  proof (rule readsI)
    fix rest n assume "ends rest"
    then have "stops (\<lambda>c. is_lower c \<or> is_digit c) rest" by (rule ends_stops) (auto simp: is_upper_def is_lower_def is_digit_def)
    from demangle_dtype_at [OF s this]
    show "demangle_constraint (Suc n) names (at (CHR ''S'' # s @ rest) l) = Inr (ScalarConstraint t, at rest l)" by simp
  qed
  with plain_tail_intro [OF _ _ plain_dtype [OF s], of "CHR ''S''"] show ?thesis by (simp add: mangles_def s is_upper_def)
qed

lemma ends_digits: "ends rest \<Longrightarrow> stops is_digit rest"
  by (rule ends_stops) (simp_all add: is_upper_not)

lemma plain_hex16: "list_all plain (hex16 w)"
proof -
  have "plain CHR ''0''" by (simp add: plain_def is_digit_def)
  then show ?thesis using plain_numbers(2) [of "unat w"] by (auto simp: hex16_def Let_def list_all_iff)
qed

lemma mangles_constant: "mangles m names f (ConstantConstraint c) l l"
proof (cases c)
  case (BoolConstant b)
  have d: "list_all plain (if b then ''1'' else ''0'')" by (simp add: plain_def is_digit_def)
  have "reads names (CHR ''B'' # (if b then ''1'' else ''0'')) (ConstantConstraint (BoolConstant b)) l l"
    by (rule readsI) simp
  with plain_tail_intro [OF _ _ d, of "CHR ''B''"] show ?thesis
    by (simp add: mangles_def BoolConstant mangle_constant_def is_upper_def)
next
  case (IntConstant i)
  have "reads names (CHR ''I'' # mangle_signed_int i) (ConstantConstraint (IntConstant i)) l l"
    by (rule readsI) (simp add: demangle_signed_int_at [OF ends_digits])
  with plain_tail_intro [OF _ _ plain_numbers(3), of "CHR ''I''" i] show ?thesis
    by (simp add: mangles_def IntConstant mangle_constant_def is_upper_def)
next
  case (FloatConstant w)
  have "reads names (CHR ''F'' # hex16 w) (ConstantConstraint (FloatConstant w)) l l"
    by (rule readsI) (simp add: hex16_at)
  with plain_tail_intro [OF _ _ plain_hex16, of "CHR ''F''" w] show ?thesis
    by (simp add: mangles_def FloatConstant mangle_constant_def is_upper_def)
qed

lemma plain_tail_ends: "plain_tail s \<Longrightarrow> ends (s @ rest)"
  by (auto simp: plain_tail_def ends_def)

lemma items_ends: "\<forall>s \<in> set ss. plain_tail s \<Longrightarrow> ends rest \<Longrightarrow> ends (concat ss @ rest)"
  by (cases ss) (simp_all add: plain_tail_ends)

lemma all_groups_cons: "all_groups (p # ps) = all_groups [p] \<union> all_groups ps"
  by (simp add: all_groups_def collect_cons [of p ps] image_Un)

lemma mangles_items:
  assumes "\<And>p l l'. p \<in> set items \<Longrightarrow> read_ids m l (collect_alias_groups [p]) = Some l' \<Longrightarrow> mangles m names f p l l'"
  shows "read_ids m l (collect_alias_groups items) = Some l' \<Longrightarrow>
    \<exists>ss. map_res (mangle_constraint m) items = Inr ss \<and> (\<forall>s \<in> set ss. plain_tail s) \<and>
      (\<forall>rest n. ends rest \<longrightarrow> length (concat ss) \<le> n \<longrightarrow>
        demangle_items (demangle_constraint n names) (length items) (at (concat ss @ rest) l) = Inr (map (rename_groups f) items, at rest l'))"
  using assms
proof (induction items arbitrary: l)
  case (Cons p ps)
  obtain k where k: "read_ids m l (collect_alias_groups [p]) = Some k" "read_ids m k (collect_alias_groups ps) = Some l'"
    using Cons.prems(1) unfolding collect_cons [of p ps] read_ids_append by (auto split: option.splits)
  obtain s where s: "mangle_constraint m p = Inr s" "plain_tail s" "reads names s (rename_groups f p) l k"
    using Cons.prems(2) [OF _ k(1)] by (auto simp: mangles_def)
  obtain ss where ss: "map_res (mangle_constraint m) ps = Inr ss" "\<forall>s \<in> set ss. plain_tail s"
    "\<And>rest n. ends rest \<Longrightarrow> length (concat ss) \<le> n \<Longrightarrow>
      demangle_items (demangle_constraint n names) (length ps) (at (concat ss @ rest) k) = Inr (map (rename_groups f) ps, at rest l')"
    using Cons.IH [OF k(2)] Cons.prems(2) by (metis list.set_intros(2))
  have "demangle_items (demangle_constraint n names) (length (p # ps)) (at (concat (s # ss) @ rest) l)
      = Inr (map (rename_groups f) (p # ps), at rest l')" if "ends rest" "length (concat (s # ss)) \<le> n" for rest n
  proof -
    have "demangle_constraint n names (at (s @ concat ss @ rest) l) = Inr (rename_groups f p, at (concat ss @ rest) k)"
      using s(3) items_ends [OF ss(2) that(1)] that(2) by (simp add: reads_def)
    with ss(3) [OF that(1), of n] that(2) show ?thesis by simp
  qed
  then show ?case using s(1,2) ss(1,2) by (intro exI [of _ "s # ss"]) simp
qed (simp add: exI [of _ "[]"])

lemma mangles_tuple:
  assumes "\<And>p l l'. p \<in> set items \<Longrightarrow> read_ids m l (collect_alias_groups [p]) = Some l' \<Longrightarrow> mangles m names f p l l'"
    and "read_ids m l (collect_alias_groups [TupleConstraint items]) = Some l'"
  shows "mangles m names f (TupleConstraint items) l l'"
proof -
  have "read_ids m l (collect_alias_groups items) = Some l'" using assms(2) by simp
  from mangles_items [OF assms(1) this] obtain ss where ss: "map_res (mangle_constraint m) items = Inr ss" "\<forall>s \<in> set ss. plain_tail s"
    "\<And>rest n. ends rest \<Longrightarrow> length (concat ss) \<le> n \<Longrightarrow> demangle_items (demangle_constraint n names) (length items)
       (at (concat ss @ rest) l) = Inr (map (rename_groups f) items, at rest l')"
    by blast
  let ?t = "decimal (length items) @ concat ss"
  have "reads names (CHR ''T'' # ?t) (rename_groups f (TupleConstraint items)) l l'"
  proof (rule readsI)
    fix rest n assume rest: "ends rest" and n: "length ?t \<le> n"
    have "expect_nat (at (decimal (length items) @ concat ss @ rest) l) = Inr (length items, at (concat ss @ rest) l)"
      by (rule expect_nat_at [OF ends_digits [OF items_ends [OF ss(2) rest]]])
    with ss(3) [OF rest, of n] n
    show "demangle_constraint (Suc n) names (at (CHR ''T'' # ?t @ rest) l) = Inr (rename_groups f (TupleConstraint items), at rest l')"
      by simp
  qed
  moreover have "plain_tail (CHR ''T'' # ?t)"
  proof -
    have "CHR ''K'' \<notin> set (decimal (length items))" using plain_numbers(1) [of "length items"]
      by (auto simp: list_all_iff plain_def is_lower_def is_digit_def)
    moreover have "CHR ''K'' \<notin> set (concat ss)" using ss(2) by (auto simp: plain_tail_def)
    ultimately show ?thesis by (simp add: plain_tail_def is_upper_def)
  qed
  ultimately show ?thesis by (simp add: mangles_def ss(1))
qed

theorem mangles_constraint:
  assumes "names_groups m names f"
  shows "mangleable p \<Longrightarrow> all_groups [p] \<subseteq> fst ` set m \<Longrightarrow> read_ids m l (collect_alias_groups [p]) = Some l' \<Longrightarrow> mangles m names f p l l'"
proof (induction p arbitrary: l l')
  case (ArrayConstraint a)
  then show ?case using mangles_array assms by blast
next
  case (ListConstraint a groups b)
  then show ?case using mangles_list assms by blast
next
  case (TupleConstraint items)
  have "all_groups [p] \<subseteq> fst ` set m" if "p \<in> set items" for p
  proof -
    have "all_groups [p] \<subseteq> all_groups items" using that
    proof (induction items)
      case (Cons q qs)
      then show ?case unfolding all_groups_cons [of q qs] by auto
    qed simp
    moreover have "all_groups items = all_groups [TupleConstraint items]" by (simp add: all_groups_def)
    ultimately show ?thesis using TupleConstraint.prems(2) by blast
  qed
  then show ?case using TupleConstraint by (intro mangles_tuple) (auto simp: list_all_iff)
next
  case (ScalarConstraint t)
  then have "l = l'" by simp
  then show ?case using mangles_scalar [OF ScalarConstraint.prems(1)] by simp
next
  case (ConstantConstraint c)
  then have "l = l'" by simp
  then show ?case using mangles_constant by simp
qed

end
