(* ===== verification/MangleSound.thy ===== *)
theory MangleSound
  imports MangleConstraint
begin

text \<open>
  The symbol that \<^verbatim>\<open>mangle_kernel_name\<close> makes is read back as the function name and the signature
  it was made of, with the alias groups named by their ids.
\<close>

section \<open>The groups of a signature\<close>

lemma add_group_result:
  assumes "st = (zip ns [0..<length ns], ns)" and "distinct ns"
  shows "\<exists>ns'. add_group g st = (zip ns' [0..<length ns'], ns') \<and> distinct ns' \<and> set ns' = insert g (set ns)"
proof (cases "g \<in> set ns")
  case True
  have "fst ` set (zip ns [0..<length ns]) = set ns" by (simp flip: set_map)
  with True assms show ?thesis by (auto simp: add_group_def insert_absorb)
next
  case False
  have "fst ` set (zip ns [0..<length ns]) = set ns" by (simp flip: set_map)
  with False assms show ?thesis by (intro exI [of _ "ns @ [g]"]) (auto simp: add_group_def)
qed

lemma add_groups_result:
  "st = (zip ns [0..<length ns], ns) \<Longrightarrow> distinct ns \<Longrightarrow>
   \<exists>ns'. fold add_group gs st = (zip ns' [0..<length ns'], ns') \<and> distinct ns' \<and> set ns' = set gs \<union> set ns"
proof (induction gs arbitrary: st ns)
  case (Cons g gs)
  from add_group_result [OF Cons.prems, of g] obtain ks where
    ks: "add_group g st = (zip ks [0..<length ks], ks)" "distinct ks" "set ks = insert g (set ns)" by blast
  from Cons.IH [OF ks(1,2)] ks(3) show ?case by auto
qed auto

lemma map_alias_group_names_result:
  "\<exists>ns. map_alias_group_names params = (zip ns [0..<length ns], ns) \<and> distinct ns \<and> set ns = all_groups params"
proof -
  have "\<exists>ns'. fold (\<lambda>(kind, groups). fold add_group groups) cs (zip ns [0..<length ns], ns) = (zip ns' [0..<length ns'], ns')
      \<and> distinct ns' \<and> set ns' = \<Union> (set ` snd ` set cs) \<union> set ns" if "distinct ns" for cs ns
    using that
  proof (induction cs arbitrary: ns)
    case (Cons c cs)
    obtain k gs where c: "c = (k, gs)" by fastforce
    from add_groups_result [OF refl Cons.prems, of gs] obtain ks where
      ks: "fold add_group gs (zip ns [0..<length ns], ns) = (zip ks [0..<length ks], ks)" "distinct ks" "set ks = set gs \<union> set ns" by blast
    from Cons.IH [OF ks(2)] ks(1,3) show ?case by (auto simp: c)
  qed auto
  from this [of "[]"] show ?thesis by (simp add: map_alias_group_names_def all_groups_def)
qed

lemma index_of_name:
  assumes "distinct ns" and "g \<in> set ns"
  shows "\<exists>i < length ns. map_of (zip ns [0..<length ns]) g = Some i \<and> ns ! i = g"
proof -
  from assms(2) obtain i where "i < length ns" "ns ! i = g" by (auto simp: in_set_conv_nth)
  with assms(1) show ?thesis using map_of_zip_nth [of ns "[0..<length ns]" i] by (intro exI [of _ i]) simp
qed

text \<open>The reader's name of a group, and the groups that the reader accepts.\<close>

definition id_name :: "ParameterConstraint list \<Rightarrow> string \<Rightarrow> string" where
  "id_name params g = ''group'' @ decimal (the (map_of (fst (map_alias_group_names params)) g))"

definition groups_in_order :: "ParameterConstraint list \<Rightarrow> bool" where
  "groups_in_order params \<longleftrightarrow> read_ids (fst (map_alias_group_names params)) (- 1) (collect_alias_groups params) \<noteq> None"

lemma group_names:
  assumes "map_alias_group_names params = (m, ns)"
  shows "fst ` set m = all_groups params" "names_groups m (Some ns) (\<lambda>g. g)" "names_groups m None (id_name params)"
    "inj_on (id_name params) (all_groups params)"
proof -
  obtain ns' where r: "map_alias_group_names params = (zip ns' [0..<length ns'], ns')" "distinct ns'" "set ns' = all_groups params"
    using map_alias_group_names_result by blast
  with assms have m: "m = zip ns [0..<length ns]" "distinct ns" "set ns = all_groups params" by auto
  show keys: "fst ` set m = all_groups params" using m by (simp flip: set_map)
  show "names_groups m (Some ns) (\<lambda>g. g)" using index_of_name [OF m(2)] m(1,3) keys
    by (fastforce simp: names_groups_def group_name_def)
  show "names_groups m None (id_name params)" by (simp add: names_groups_def group_name_def id_name_def assms)
  show "inj_on (id_name params) (all_groups params)"
  proof (rule inj_onI)
    fix g h assume g: "g \<in> all_groups params" and h: "h \<in> all_groups params" and eq: "id_name params g = id_name params h"
    have "decimal i = decimal j \<Longrightarrow> i = j" for i j using decimal_read by metis
    then have "the (map_of m g) = the (map_of m h)" using eq by (auto simp: id_name_def assms)
    then show "g = h" using index_of_name [OF m(2), of g] index_of_name [OF m(2), of h] g h m(1,3) by force
  qed
qed

section \<open>Renaming the groups\<close>

lemma rename_groups_id: "rename_groups (\<lambda>g. g) p = p"
  by (induction p) (simp_all add: rename_array_def map_idI)

lemma collect_rename:
  "collect_alias_groups (map (rename_groups f) ps) = map (\<lambda>(k, gs). (k, map f gs)) (collect_alias_groups ps)"
  by (induction ps rule: collect_alias_groups.induct) (simp_all add: rename_array_def)

lemma fold_res_sim:
  assumes "\<And>x s t s'. x \<in> set xs \<Longrightarrow> R s t \<Longrightarrow> step x s = Inr s' \<Longrightarrow> \<exists>t'. step' (g x) t = Inr t' \<and> R s' t'"
  shows "fold_res step xs s = Inr s' \<Longrightarrow> R s t \<Longrightarrow> \<exists>t'. fold_res step' (map g xs) t = Inr t' \<and> R s' t'"
  using assms
proof (induction xs arbitrary: s t)
  case (Cons x xs)
  from Cons.prems(1) obtain s1 where s1: "step x s = Inr s1" "fold_res step xs s1 = Inr s'" by (auto simp: and_then_Inr_iff)
  obtain t1 where t1: "step' (g x) t = Inr t1" "R s1 t1" using Cons.prems(3) [OF _ Cons.prems(2) s1(1)] by auto
  obtain t' where "fold_res step' (map g xs) t1 = Inr t' \<and> R s' t'" using Cons.IH [OF s1(2) t1(2)] Cons.prems(3) by (metis list.set_intros(2))
  then show ?case by (auto simp: t1(1))
qed simp

text \<open>The state of the validation of the groups, with their names and with new ones.\<close>

definition renamed_counts ::
  "(string \<Rightarrow> string) \<Rightarrow> string set \<Rightarrow> (string \<times> nat) list \<times> (string \<rightharpoonup> constraint_kind)
   \<Rightarrow> (string \<times> nat) list \<times> (string \<rightharpoonup> constraint_kind) \<Rightarrow> bool" where
  "renamed_counts f G = (\<lambda>(uc, ko) (uc', ko').
     fst ` set uc \<subseteq> G \<and> uc' = map (\<lambda>(g, n). (f g, n)) uc \<and> (\<forall>g \<in> G. ko' (f g) = ko g))"

lemma count_group_rename:
  assumes f: "inj_on f G" and ag: "ag \<in> G" and seen: "set seen \<subseteq> G" and R: "renamed_counts f G (uc, ko) (uc', ko')"
    and step: "count_group kind gs ag (seen, uc, ko) = Inr (seen2, uc2, ko2)"
  shows "\<exists>uc2' ko2'. count_group kind gs' (f ag) (map f seen, uc', ko') = Inr (map f seen2, uc2', ko2')
    \<and> renamed_counts f G (uc2, ko2) (uc2', ko2') \<and> set seen2 \<subseteq> G"
proof -
  have r: "fst ` set uc \<subseteq> G" "uc' = map (\<lambda>(g, n). (f g, n)) uc" "\<And>g. g \<in> G \<Longrightarrow> ko' (f g) = ko g"
    using R by (auto simp: renamed_counts_def)
  have st: "ag \<notin> set seen" "ko ag = None \<or> ko ag = Some kind" "seen2 = ag # seen" "ko2 = ko(ag \<mapsto> kind)"
    "uc2 = (if ag \<in> fst ` set uc then map (\<lambda>(g, n). (g, if g = ag then n + 1 else n)) uc else uc @ [(ag, 1)])"
    using step by (auto simp: count_group_def split: if_splits)
  have mem: "f ag \<in> f ` A \<longleftrightarrow> ag \<in> A" if "A \<subseteq> G" for A using inj_on_image_mem_iff [OF f ag that] .
  have eq: "f g = f ag \<longleftrightarrow> g = ag" if "g \<in> G" for g using inj_on_eq_iff [OF f that ag] .
  have keys: "fst ` set uc' = f ` fst ` set uc" by (force simp: r(2) image_iff)
  have upd: "map (\<lambda>(g, n). (g, if g = f ag then n + 1 else n)) uc' = map (\<lambda>(g, n). (f g, n)) (map (\<lambda>(g, n). (g, if g = ag then n + 1 else n)) uc)"
    using r(1) eq by (auto simp: r(2))
  let ?uc2' = "if f ag \<in> fst ` set uc' then map (\<lambda>(g, n). (g, if g = f ag then n + 1 else n)) uc' else uc' @ [(f ag, 1)]"
  have "?uc2' = map (\<lambda>(g, n). (f g, n)) uc2" unfolding keys mem [OF r(1)] st(5) upd by (simp add: r(2))
  moreover have "count_group kind gs' (f ag) (map f seen, uc', ko') = Inr (map f seen2, ?uc2', ko'(f ag \<mapsto> kind))"
    using mem [OF seen] st(1-3) r(3) [OF ag] by (auto simp: count_group_def)
  moreover have "fst ` set uc2 \<subseteq> G" using r(1) ag by (auto simp: st(5))
  moreover have "\<forall>g \<in> G. (ko'(f ag \<mapsto> kind)) (f g) = ko2 g" using eq r(3) by (simp add: st(4))
  moreover have "set seen2 \<subseteq> G" using seen ag by (simp add: st(3))
  ultimately show ?thesis by (auto simp: renamed_counts_def)
qed

lemma validate_rename:
  assumes f: "inj_on f (all_groups ps)" and ok: "validate_alias_groups ps = Inr ()"
  shows "validate_alias_groups (map (rename_groups f) ps) = Inr ()"
proof -
  let ?G = "all_groups ps"
  let ?step = "\<lambda>(kind, groups) (uc, ko). and_then (fold_res (count_group kind groups) groups ([], uc, ko)) (\<lambda>(seen, uc, ko). Inr (uc, ko))"
  obtain uc ko where u: "fold_res ?step (collect_alias_groups ps) ([], Map.empty) = Inr (uc, ko)" "\<not> (\<exists>(ag, n) \<in> set uc. n = 1)"
    using ok by (auto simp: validate_alias_groups_def and_then_Inr_iff split: if_splits)
  have step: "\<exists>t'. ?step (case x of (k, gs) \<Rightarrow> (k, map f gs)) t = Inr t' \<and> renamed_counts f ?G s' t'"
    if x: "x \<in> set (collect_alias_groups ps)" and R: "renamed_counts f ?G s t" and s': "?step x s = Inr s'" for x s t s'
  proof -
    obtain k gs where kg: "x = (k, gs)" by fastforce
    obtain uc1 ko1 uc2 ko2 where st: "s = (uc1, ko1)" "t = (uc2, ko2)" by fastforce
    have sub: "set gs \<subseteq> ?G" using x kg by (force simp: all_groups_def)
    obtain seen uc3 ko3 where f3: "fold_res (count_group k gs) gs ([], uc1, ko1) = Inr (seen, uc3, ko3)" "s' = (uc3, ko3)"
      using s' by (auto simp: kg st and_then_Inr_iff)
    let ?R = "\<lambda>(seen, uc, ko) (seen', uc', ko'). renamed_counts f ?G (uc, ko) (uc', ko') \<and> seen' = map f seen \<and> set seen \<subseteq> ?G"
    have "\<exists>t'. fold_res (count_group k (map f gs)) (map f gs) ([], uc2, ko2) = Inr t' \<and> ?R (seen, uc3, ko3) t'"
    proof (rule fold_res_sim [where R = ?R, OF _ f3(1)])
      show "?R ([], uc1, ko1) ([], uc2, ko2)" using R by (simp add: st)
      fix g s t s' assume g: "g \<in> set gs" and r: "?R s t" and c: "count_group k gs g s = Inr s'"
      obtain sn u1 o1 where s: "s = (sn, u1, o1)" by (metis prod_cases3)
      obtain sn' u2 o2 where t: "t = (sn', u2, o2)" by (metis prod_cases3)
      obtain sn3 u3 o3 where s3: "s' = (sn3, u3, o3)" by (metis prod_cases3)
      have "\<exists>uc2' ko2'. count_group k (map f gs) (f g) (map f sn, u2, o2) = Inr (map f sn3, uc2', ko2')
          \<and> renamed_counts f ?G (u3, o3) (uc2', ko2') \<and> set sn3 \<subseteq> ?G"
        by (rule count_group_rename [OF f]) (use g sub r c s t s3 in auto)
      then show "\<exists>t'. count_group k (map f gs) (f g) t = Inr t' \<and> ?R s' t'" using r by (auto simp: s t s3)
    qed
    then show ?thesis by (auto simp: kg st f3(2))
  qed
  have "renamed_counts f ?G ([], Map.empty) ([], Map.empty)" by (simp add: renamed_counts_def)
  from fold_res_sim [where R = "renamed_counts f ?G" and step' = ?step and g = "\<lambda>(k, gs). (k, map f gs)", OF step u(1) this]
  obtain uc' ko' where u': "fold_res ?step (collect_alias_groups (map (rename_groups f) ps)) ([], Map.empty) = Inr (uc', ko')"
    "renamed_counts f ?G (uc, ko) (uc', ko')" unfolding collect_rename by fastforce
  then have "\<not> (\<exists>(ag, n) \<in> set uc'. n = 1)" using u(2) by (auto simp: renamed_counts_def)
  with u'(1) show ?thesis by (simp add: validate_alias_groups_def)
qed

lemma support_rename: "validate_constraint_support cconv (rename_groups f p) = validate_constraint_support cconv p"
proof (induction p)
  case (TupleConstraint items)
  then have "map_res (validate_constraint_support cconv) (map (rename_groups f) items) = map_res (validate_constraint_support cconv) items"
    by (induction items) simp_all
  then show ?case by simp
qed (simp_all add: rename_array_def)

lemma init_rename:
  assumes "inj_on f (all_groups ps)" and "KernelSignature_init ps cconv sym1 = Inr sig"
  shows "KernelSignature_init (map (rename_groups f) ps) cconv name
    = Inr \<lparr>parameters = map (rename_groups f) ps, calling_convention = cconv, symbol = name\<rparr>"
proof -
  obtain us where ok: "validate_alias_groups ps = Inr ()" "map_res (validate_constraint_support cconv) ps = Inr us"
    using assms(2) by (auto simp: KernelSignature_init_def and_then_Inr_iff)
  have "map_res (validate_constraint_support cconv) (map (rename_groups f) ps) = map_res (validate_constraint_support cconv) ps"
    by (induction ps) (simp_all add: support_rename)
  with ok validate_rename [OF assms(1)] show ?thesis by (simp add: KernelSignature_init_def)
qed

section \<open>Kernels\<close>

lemma split_kernel_none: "CHR ''K'' \<notin> set s \<Longrightarrow> split_kernel s = None"
  by (induction s) (auto dest: hd_in_set)

lemma split_kernel_append: "CHR ''K'' \<notin> set s \<Longrightarrow> split_kernel (f @ CHR ''_'' # CHR ''K'' # s) = Some (f, s)"
proof (induction f)
  case Nil
  then have "split_kernel s = None" by (rule split_kernel_none)
  then show ?case by simp
qed simp

definition params_text :: "string list \<Rightarrow> string" where
  "params_text ss = concat (map (\<lambda>s. ''_'' @ s) ss)"

lemma params_ends: "\<forall>s \<in> set ss. plain_tail s \<Longrightarrow> ends (params_text ss)"
  by (cases ss) (auto simp: params_text_def ends_def plain_tail_def)

lemma mangles_params:
  assumes "names_groups m names f"
  shows "list_all mangleable ps \<Longrightarrow> all_groups ps \<subseteq> fst ` set m \<Longrightarrow> read_ids m l (collect_alias_groups ps) \<noteq> None \<Longrightarrow>
    \<exists>ss. map_res (mangle_constraint m) ps = Inr ss \<and> (\<forall>s \<in> set ss. plain_tail s) \<and>
      (\<forall>n > length ps. demangle_params n names (at (params_text ss) l) = Inr (map (rename_groups f) ps))"
proof (induction ps arbitrary: l)
  case Nil
  have "demangle_params n names (at (params_text []) l) = Inr []" if "0 < n" for n
    using that by (cases n) (simp_all add: params_text_def)
  then show ?case by (intro exI [of _ "[]"]) simp
next
  case (Cons p ps)
  obtain k where k: "read_ids m l (collect_alias_groups [p]) = Some k" "read_ids m k (collect_alias_groups ps) \<noteq> None"
    using Cons.prems(3) unfolding collect_cons [of p ps] read_ids_append by (auto split: option.splits)
  have sub: "all_groups [p] \<subseteq> fst ` set m" "all_groups ps \<subseteq> fst ` set m" using Cons.prems(2) unfolding all_groups_cons [of p ps] by auto
  have "mangles m names f p l k" by (rule mangles_constraint [OF assms _ sub(1) k(1)]) (use Cons.prems(1) in simp)
  then obtain s where s: "mangle_constraint m p = Inr s" "plain_tail s" "reads names s (rename_groups f p) l k" by (auto simp: mangles_def)
  obtain ss where ss: "map_res (mangle_constraint m) ps = Inr ss" "\<forall>s \<in> set ss. plain_tail s"
    "\<And>n. n > length ps \<Longrightarrow> demangle_params n names (at (params_text ss) k) = Inr (map (rename_groups f) ps)"
    using Cons.IH [OF _ sub(2) k(2)] Cons.prems(1) by auto
  have "demangle_params n names (at (params_text (s # ss)) l) = Inr (map (rename_groups f) (p # ps))" if n: "n > length (p # ps)" for n
  proof -
    obtain j where j: "n = Suc j" "j > length ps" using n by (cases n) auto
    have t: "params_text (s # ss) = CHR ''_'' # s @ params_text ss" by (simp add: params_text_def)
    have "demangle_constraint (Suc (length (s @ params_text ss))) names (at (s @ params_text ss) l)
        = Inr (rename_groups f p, at (params_text ss) k)"
      using s(3) params_ends [OF ss(2)] unfolding reads_def by (metis le_SucI length_append le_add1)
    then show ?thesis using ss(3) [OF j(2)] by (simp add: t j(1) del: demangle_constraint.simps)
  qed
  then show ?case using s(1,2) ss(1,2) by (intro exI [of _ "s # ss"]) simp
qed

lemma demangle_cconv_at:
  assumes "rest = [] \<or> hd rest = CHR ''_''"
  shows "demangle_calling_convention (at (cconv_code c @ rest) l) = Inr (c, at rest l)"
proof -
  have "expect_while (\<lambda>c. c \<noteq> CHR ''_'') (at (cconv_code c @ rest) l) = Inr (cconv_code c, at rest l)"
    using assms by (cases c; cases rest) (auto simp: expect_while_def read_while_def)
  then show ?thesis by (cases c) (simp_all add: demangle_calling_convention_def cconv_from_code_def)
qed

lemma params_text_length: "length ss \<le> length (params_text ss)"
  by (induction ss) (auto simp: params_text_def)

definition kernel_text :: "string \<Rightarrow> CallingConvention \<Rightarrow> string list \<Rightarrow> string" where
  "kernel_text f c ss = f @ ''_K'' @ cconv_code c @ params_text ss"

lemma demangle_kernel_at:
  assumes "\<forall>s \<in> set ss. plain_tail s" and "\<forall>n > length ss. demangle_params n names (at (params_text ss) (- 1)) = Inr ps"
    and "KernelSignature_init ps c (Some (kernel_text f c ss)) = Inr sig"
  shows "demangle_kernel_name_with (kernel_text f c ss) names = Inr (f, sig)"
proof -
  have "CHR ''K'' \<notin> set (cconv_code c @ params_text ss)"
    using assms(1) by (cases c) (auto simp: params_text_def plain_tail_def)
  from split_kernel_append [OF this] have "split_kernel (kernel_text f c ss) = Some (f, cconv_code c @ params_text ss)"
    by (simp add: kernel_text_def)
  moreover have "demangle_calling_convention (at (cconv_code c @ params_text ss) (- 1)) = Inr (c, at (params_text ss) (- 1))"
    by (rule demangle_cconv_at) (cases ss; simp add: params_text_def)
  moreover have "demangle_params (Suc (length (params_text ss))) names (at (params_text ss) (- 1)) = Inr ps"
    by (rule assms(2) [rule_format]) (simp add: params_text_length le_imp_less_Suc)
  ultimately show ?thesis using assms(3) by (simp add: demangle_kernel_name_with_def del: demangle_params.simps demangle_constraint.simps)
qed

text \<open>What the constructor of an array makes is an array that it gives back.\<close>

lemma lower_bounds_idem:
  "remove_redundant_lower_bounds ss ls = Inr ls' \<Longrightarrow> remove_redundant_lower_bounds ss ls' = Inr ls' \<and> length ls' = length ls"
  by (induction ss ls arbitrary: ls' rule: remove_redundant_lower_bounds.induct) (auto simp: and_then_Inr_iff split: if_splits)

lemma divisors_idem:
  "remove_redundant_divisibility_constraints ss ds = Inr ds' \<Longrightarrow>
   remove_redundant_divisibility_constraints ss ds' = Inr ds' \<and> length ds' = length ds \<and> set ds' \<subseteq> insert 1 (set ds)"
  by (induction ss ds arbitrary: ds' rule: remove_redundant_divisibility_constraints.induct) (auto simp: and_then_Inr_iff split: if_splits)

lemma check_divisibility_iff: "(\<exists>us. map_res check_divisibility xs = Inr us) \<longleftrightarrow> (\<forall>x \<in> set xs. 0 < x)"
  by (induction xs) (auto simp: and_then_Inr_iff check_divisibility_def)

lemma ArrayConstraint_init_ok:
  assumes "ArrayConstraint_init t n i (Each lb) gs ma (Each st) (Each sh) (Each sd) (Each shd) b = Inr a"
  shows "array_ok a"
proof -
  obtain lb' sd' shd' where r: "remove_redundant_lower_bounds st lb = Inr lb'"
      "remove_redundant_divisibility_constraints st sd = Inr sd'" "remove_redundant_divisibility_constraints sh shd = Inr shd'"
    and p: "i \<in> {int32, uint32, int64}" "length st = nat n" "length sh = nat n" "length lb = nat n" "length sd = nat n" "length shd = nat n"
      "\<forall>x \<in> set sd. 0 < x" "\<forall>x \<in> set shd. 0 < x" "0 < b" "\<exists>us. map_res check_optional_nonnegative_int sh = Inr us"
      "\<exists>us. map_res check_optional_int st = Inr us"
    and a: "a = \<lparr>ac_dtype = t, ac_ndim = nat n, ac_index_dtype = i, stride_lower_bound_incl = lb', ac_alias_groups = gs,
      may_alias_internally = ma, stride_constant = st, shape_constant = sh, stride_divisible_by = sd', shape_divisible_by = shd',
      base_addr_divisible_by = b\<rparr>"
    using assms unfolding ArrayConstraint_init_def
    by (auto simp: parse_each and_then_Inr_iff Let_def not_le check_divisibility_iff split: if_splits)
  note idem = lower_bounds_idem [OF r(1)] divisors_idem [OF r(2)] divisors_idem [OF r(3)]
  have parse: "parse_assumption_tuple (Each xs) k d f = Inr xs" if "length xs = k" "\<exists>us. map_res f xs = Inr us" for xs :: "'b list" and k d f
    using that by (simp add: parse_each)
  have "\<exists>us. map_res check_divisibility sd' = Inr us" "\<exists>us. map_res check_divisibility shd' = Inr us"
    unfolding check_divisibility_iff using idem p(7,8) by auto
  moreover have "\<exists>us. map_res check_optional_int lb' = Inr us" by (induction lb') (auto simp: check_optional_int_def)
  ultimately show ?thesis using p idem by (simp add: array_ok_def ArrayConstraint_init_def a parse)
qed

text \<open>
  C4. A signature that its constructor accepts, whose data types the table has and whose groups
  the reader accepts in the order in which they are listed, has a mangled name: the assertion
  of \<^verbatim>\<open>mangle_kernel_name\<close> that the name can be read back never fails. And
  \<^verbatim>\<open>demangle_kernel_name\<close> of that name is the name of the function, whatever it is, and the
  signature with its alias groups named by their ids.
\<close>

theorem mangle_roundtrip:
  assumes "KernelSignature_init (parameters sig) (calling_convention sig) (symbol sig) = Inr sig"
    and "list_all mangleable (parameters sig)" and "groups_in_order (parameters sig)"
  shows "\<exists>s. mangle_kernel_name f sig = Inr s \<and>
    demangle_kernel_name s = Inr (f, sig\<lparr>parameters := map (rename_groups (id_name (parameters sig))) (parameters sig), symbol := Some s\<rparr>)"
proof -
  let ?ps = "parameters sig" and ?c = "calling_convention sig"
  obtain m ns where m: "map_alias_group_names ?ps = (m, ns)" by fastforce
  note g = group_names [OF m]
  have r: "read_ids m (- 1) (collect_alias_groups ?ps) \<noteq> None" using assms(3) by (simp add: groups_in_order_def m)
  obtain ss where ss: "map_res (mangle_constraint m) ?ps = Inr ss" "\<forall>s \<in> set ss. plain_tail s"
      "\<forall>n > length ?ps. demangle_params n None (at (params_text ss) (- 1)) = Inr (map (rename_groups (id_name ?ps)) ?ps)"
    using mangles_params [OF g(3) assms(2) _ r] g(1) by auto
  have ss': "\<forall>n > length ?ps. demangle_params n (Some ns) (at (params_text ss) (- 1)) = Inr ?ps"
    using mangles_params [OF g(2) assms(2) _ r] g(1) ss(1) by (auto simp: rename_groups_id map_idI)
  have len: "length ss = length ?ps" by (rule map_res_length [OF ss(1)])
  let ?s = "kernel_text f ?c ss"
  have "KernelSignature_init ?ps ?c (Some ?s) = Inr (sig\<lparr>symbol := Some ?s\<rparr>)"
    using assms(1) by (auto simp: KernelSignature_init_def and_then_Inr_iff)
  with demangle_kernel_at [OF ss(2)] ss' len have "demangle_kernel_name_with ?s (Some ns) = Inr (f, sig\<lparr>symbol := Some ?s\<rparr>)"
    by simp
  then have "mangle_kernel_name f sig = Inr ?s"
    using ss(1) by (simp add: mangle_kernel_name_def m py_assert_def kernel_text_def params_text_def)
  moreover have "demangle_kernel_name ?s = Inr (f, sig\<lparr>parameters := map (rename_groups (id_name ?ps)) ?ps, symbol := Some ?s\<rparr>)"
    unfolding demangle_kernel_name_def
    by (rule demangle_kernel_at [OF ss(2)]) (use ss(3) len init_rename [OF g(4) assms(1)] in auto)
  ultimately show ?thesis by blast
qed

text \<open>
  An array of two axes, a list of arrays and a tuple: the group of the arrays is used by the
  element of the list again, that of the lists twice.
\<close>

definition example_array :: "string list \<Rightarrow> array_constraint" where
  "example_array groups =
     \<lparr>ac_dtype = float32, ac_ndim = 2, ac_index_dtype = int64, stride_lower_bound_incl = [Some 0, None], ac_alias_groups = groups,
      may_alias_internally = True, stride_constant = [None, Some (- 1)], shape_constant = [Some 8, Some 8],
      stride_divisible_by = [16, 1], shape_divisible_by = [1, 1], base_addr_divisible_by = 16\<rparr>"

definition example_signature :: kernel_signature where
  "example_signature =
     \<lparr>parameters =
        [ArrayConstraint (example_array [''in'', ''out'']), ListConstraint (example_array [''out'']) [''ls''] True,
         ListConstraint (example_array []) [''ls''] False,
         TupleConstraint [ScalarConstraint int32, ConstantConstraint (IntConstant (- 3)), ArrayConstraint (example_array [''in''])]],
      calling_convention = CutilePython_V2, symbol = None\<rparr>"

lemma mangle_roundtrip_witness:
  "\<exists>s. mangle_kernel_name ''f_K_t2'' example_signature = Inr s \<and>
    demangle_kernel_name s = Inr (''f_K_t2'', example_signature
      \<lparr>parameters := map (rename_groups (id_name (parameters example_signature))) (parameters example_signature), symbol := Some s\<rparr>)"
proof (rule mangle_roundtrip)
  show "KernelSignature_init (parameters example_signature) (calling_convention example_signature) (symbol example_signature) = Inr example_signature"
    by code_simp
  show "list_all mangleable (parameters example_signature)" by code_simp
  show "groups_in_order (parameters example_signature)" by code_simp
qed

text \<open>
  The groups of this signature are not in the order that the reader accepts: its assertion
  fails although the constructor accepts the signature.
\<close>

lemma mangle_rejects_group_order:
  "let ps = [ArrayConstraint (example_array [''a'', ''b'']), ArrayConstraint (example_array [''b'', ''a''])];
       sig = \<lparr>parameters = ps, calling_convention = CutilePython_V2, symbol = None\<rparr>
   in KernelSignature_init ps CutilePython_V2 None = Inr sig \<and> mangle_kernel_name ''f'' sig = Inl AssertionError"
  by code_simp

text \<open>
  A group that was used before comes between a group and the next new one: the reader rejects
  the name with an error, and no name can be made.
\<close>

lemma mangle_rejects_new_group:
  "let ps = [ArrayConstraint (example_array [''a'', ''b'']), ArrayConstraint (example_array [''a'']),
             ArrayConstraint (example_array [''c'']), ArrayConstraint (example_array [''b'', ''c''])];
       sig = \<lparr>parameters = ps, calling_convention = CutilePython_V2, symbol = None\<rparr>
   in KernelSignature_init ps CutilePython_V2 None = Inr sig \<and> mangle_kernel_name ''f'' sig = Inl ValueError"
  by code_simp

text \<open>One divisor for all axes is not checked, and the name of an array with a negative one cannot be read.\<close>

lemma mangle_rejects_unchecked_divisor:
  "case ArrayConstraint_init float32 1 int32 Unset [] False Unset Unset (Same (- 4)) Unset 1 of
     Inl e \<Rightarrow> False
   | Inr a \<Rightarrow> ArrayConstraint_init float32 1 int32 Unset [] False Unset Unset (Each [- 4]) Unset 1 = Inl TypeError \<and>
       mangle_kernel_name ''f'' \<lparr>parameters = [ArrayConstraint a], calling_convention = CutilePython_V1, symbol = None\<rparr> = Inl ValueError"
  by code_simp

end
