(* ===== verification/MangleTotal.thy ===== *)
theory MangleTotal
  imports MangleSound
begin

text \<open>
  Every reader of a mangled name leaves less text than it was given, so the fuel of the model
  is enough on every string, and the loops and the recursion of the source end.
\<close>

text \<open>The result is not the one of exhausted fuel, and less than \<open>k\<close> characters are left.\<close>

definition leaves :: "nat \<Rightarrow> ('a \<times> cursor) res \<Rightarrow> bool" where
  "leaves k r \<longleftrightarrow> r \<noteq> Inl RuntimeError \<and> (\<forall>x cur. r = Inr (x, cur) \<longrightarrow> length (remaining cur) < k)"

lemma leaves_simps [simp]:
  "leaves k (Inl e) \<longleftrightarrow> e \<noteq> RuntimeError"
  "leaves k (Inr (x, cur)) \<longleftrightarrow> length (remaining cur) < k"
  by (auto simp: leaves_def)

lemma leaves_then:
  assumes "leaves j r" and "\<And>x cur. length (remaining cur) < j \<Longrightarrow> leaves k (f (x, cur))"
  shows "leaves k (and_then r f)"
  using assms by (cases r) (auto simp: leaves_def)

lemma leaves_mono: "leaves j r \<Longrightarrow> j \<le> k \<Longrightarrow> leaves k r"
  by (auto simp: leaves_def)

lemma read_char_shorter: "read_char c cur = Some cur' \<Longrightarrow> length (remaining cur') < length (remaining cur)"
  by (auto simp: read_char_def split: list.splits if_splits)

lemma read_while_shorter: "read_while P cur = Some (s, cur') \<Longrightarrow> length (remaining cur') < length (remaining cur)"
proof -
  have "takeWhile P xs \<noteq> [] \<Longrightarrow> length (dropWhile P xs) < length xs" for xs
    by (cases xs) (auto simp: le_imp_less_Suc length_dropWhile_le split: if_splits)
  then show "read_while P cur = Some (s, cur') \<Longrightarrow> ?thesis" by (auto simp: read_while_def Let_def split: if_splits)
qed

lemma expect_while_leaves: "leaves (length (remaining cur)) (expect_while P cur)"
  by (auto simp: expect_while_def read_while_shorter split: option.splits)

lemma expect_exactly_leaves: "0 < n \<Longrightarrow> leaves (length (remaining cur)) (expect_exactly n P cur)"
  by (auto simp: expect_exactly_def)

lemma expect_nat_leaves: "leaves (length (remaining cur)) (expect_nat cur)"
  unfolding expect_nat_def by (rule leaves_then [OF expect_while_leaves]) simp

lemma demangle_signed_int_leaves: "leaves (length (remaining cur)) (demangle_signed_int cur)"
proof (cases "read_char CHR ''_'' cur")
  case None
  show ?thesis unfolding demangle_signed_int_def None
    by (simp, rule leaves_then [OF expect_nat_leaves]) simp
next
  case (Some cur')
  show ?thesis unfolding demangle_signed_int_def Some
    by (simp, rule leaves_then [OF expect_nat_leaves]) (use read_char_shorter [OF Some] in simp)
qed

lemma demangle_divisibility_leaves: "leaves (length (remaining cur)) (demangle_divisibility cur)"
  unfolding demangle_divisibility_def by (rule leaves_then [OF demangle_signed_int_leaves]) simp

lemma demangle_optional_leaves: "leaves (length (remaining cur)) (demangle_optional cur)"
  unfolding demangle_optional_def by (rule leaves_then [OF demangle_signed_int_leaves]) simp

lemma demangle_dtype_leaves: "leaves (length (remaining cur)) (demangle_dtype cur)"
  unfolding demangle_dtype_def by (rule leaves_then [OF expect_while_leaves]) (auto split: option.splits)

lemma group_name_error: "group_name names i \<noteq> Inl RuntimeError"
  by (simp add: group_name_def split: option.splits)

lemma demangle_groups_leaves:
  "length (remaining cur) < n \<Longrightarrow> leaves (Suc (length (remaining cur))) (demangle_groups n names prev cur)"
proof (induction n arbitrary: prev cur)
  case (Suc n)
  show ?case
  proof (cases "read_char CHR ''g'' cur")
    case (Some cur1)
    note less = read_char_shorter [OF Some]
    have "leaves (Suc (length (remaining cur)))
        (and_then (group_name names i) (\<lambda>name. and_then (demangle_groups n names (Some i) (cur2\<lparr>last_seen_id := int i\<rparr>))
          (\<lambda>(rest, cur). Inr (name # rest, cur))))" if "length (remaining cur2) < length (remaining cur1)" for i cur2
    proof (cases "group_name names i")
      case (Inr name)
      have "leaves (Suc (length (remaining cur2))) (demangle_groups n names (Some i) (cur2\<lparr>last_seen_id := int i\<rparr>))"
        using Suc.IH [of "cur2\<lparr>last_seen_id := int i\<rparr>"] Suc.prems that less by simp
      then show ?thesis unfolding Inr and_then_simps by (rule leaves_then) (use that less in simp)
    qed (use group_name_error [of names i] in auto)
    then show ?thesis by (auto simp: Some Let_def intro!: leaves_then [OF expect_while_leaves])
  qed simp
qed simp

lemma demangle_group_ids_leaves: "leaves (Suc (length (remaining cur))) (demangle_group_ids names cur)"
  unfolding demangle_group_ids_def by (rule demangle_groups_leaves) simp

lemma read_optional_leaves:
  assumes "\<And>cur. leaves (length (remaining cur)) (parse cur)"
  shows "length (remaining cur) < k \<Longrightarrow> leaves k (read_optional c parse d cur)"
  using assms leaves_mono [OF assms] read_char_shorter by (fastforce simp: read_optional_def split: option.splits)

lemmas optional_leaves = read_optional_leaves [OF demangle_optional_leaves] read_optional_leaves [OF demangle_divisibility_leaves]

lemma demangle_predicates_leaves: "length (remaining cur) < k \<Longrightarrow> leaves k (demangle_predicates cur)"
  unfolding demangle_predicates_def
  by (auto intro!: leaves_then [where j = k] optional_leaves)

lemma put_once_error: "put_once d v i xs \<noteq> Inl RuntimeError"
  by (simp add: put_once_def)

lemma and_then_error: "and_then r f = Inl e \<longleftrightarrow> r = Inl e \<or> (\<exists>x. r = Inr x \<and> f x = Inl e)"
  by (cases r) auto

lemma set_axes_error: "fold_res (set_axis p) is xs \<noteq> Inl RuntimeError"
  by (induction "is" arbitrary: xs) (auto simp: and_then_error set_axis_def put_once_error)

lemma read_mask_shorter: "read_mask cur = Some (m, cur') \<Longrightarrow> length (remaining cur') < length (remaining cur)"
  using read_char_shorter read_while_shorter
  by (fastforce simp: read_mask_def split: option.splits)

lemma demangle_axes_leaves:
  "length (remaining cur) < n \<Longrightarrow> leaves (Suc (length (remaining cur))) (demangle_axes n ndim xs cur)"
proof (induction n arbitrary: xs cur)
  case (Suc n)
  show ?case
  proof (cases "read_mask cur")
    case (Some mc)
    obtain m cur1 where mc: "mc = (m, cur1)" by fastforce
    note less = read_mask_shorter [OF Some [unfolded mc]]
    have rest: "leaves (Suc (length (remaining cur))) (and_then (fold_res (set_axis p) (mask_axes ndim m) xs) (\<lambda>xs. demangle_axes n ndim xs cur2))"
      if "length (remaining cur2) < length (remaining cur)" for p cur2
    proof (cases "fold_res (set_axis p) (mask_axes ndim m) xs")
      case (Inr xs')
      have "leaves (Suc (length (remaining cur2))) (demangle_axes n ndim xs' cur2)" using Suc.IH Suc.prems that by simp
      then show ?thesis unfolding Inr and_then_simps by (rule leaves_mono) (use that in simp)
    qed (use set_axes_error [of p "mask_axes ndim m" xs] in auto)
    have "leaves (Suc (length (remaining cur))) (and_then (demangle_predicates cur1)
        (\<lambda>(p, cur). and_then (fold_res (set_axis p) (mask_axes ndim m) xs) (\<lambda>xs. demangle_axes n ndim xs cur)))"
      by (rule leaves_then [OF demangle_predicates_leaves [OF less]]) (use rest in simp)
    then show ?thesis by (simp add: Some mc)
  qed simp
qed simp

lemma array_init_error: "ArrayConstraint_init t n i lb gs ma st sh sd shd b \<noteq> Inl RuntimeError"
proof -
  have maps: "map_res check_optional_int xs \<noteq> Inl RuntimeError" for xs
    by (induction xs) (auto simp: check_optional_int_def and_then_error)
  have maps2: "map_res check_optional_nonnegative_int xs \<noteq> Inl RuntimeError" for xs
    by (induction xs) (auto simp: check_optional_nonnegative_int_def and_then_error split: option.splits)
  have maps3: "map_res check_divisibility xs \<noteq> Inl RuntimeError" for xs
    by (induction xs) (auto simp: check_divisibility_def and_then_error)
  have "parse_assumption_tuple xs k d f \<noteq> Inl RuntimeError" if "\<And>ys. map_res f ys \<noteq> Inl RuntimeError" for xs :: "'b per_dim" and k d f
    using that by (auto simp: parse_assumption_tuple_def and_then_error split: per_dim.splits)
  note parse = this [OF maps] this [OF maps2] this [OF maps3]
  have "remove_redundant_lower_bounds xs ys \<noteq> Inl RuntimeError" for xs ys
    by (induction xs ys rule: remove_redundant_lower_bounds.induct) (auto simp: and_then_error)
  moreover have "remove_redundant_divisibility_constraints xs ys \<noteq> Inl RuntimeError" for xs ys
    by (induction xs ys rule: remove_redundant_divisibility_constraints.induct) (auto simp: and_then_error)
  ultimately show ?thesis using parse by (auto simp: ArrayConstraint_init_def and_then_error Let_def split: if_splits)
qed

lemma demangle_extras_leaves: "length (remaining cur) < k \<Longrightarrow> leaves k (demangle_extras names cur)"
proof -
  assume k: "length (remaining cur) < k"
  have tail: "leaves k (let (i, cur) = (case read_char CHR ''i'' cur of None \<Rightarrow> (False, cur) | Some cur \<Rightarrow> (True, cur));
            (t, cur) =
              (case read_char CHR ''u'' cur of
                 Some cur \<Rightarrow> (uint32, cur)
               | None \<Rightarrow> (case read_char CHR ''w'' cur of Some cur \<Rightarrow> (int64, cur) | None \<Rightarrow> (int32, cur)))
        in Inr ((base, groups, i, t), cur))" if "length (remaining cur) < k" for base :: int and groups :: "string list" and cur
    using that by (auto split: option.splits dest!: read_char_shorter)
  have groups: "leaves k (demangle_group_ids names cur)" if "length (remaining cur) < k" for cur
    by (rule leaves_mono [OF demangle_group_ids_leaves]) (use that in simp)
  have "leaves k (and_then (read_optional CHR ''p'' demangle_divisibility 1 cur) (\<lambda>(base, cur).
      and_then (demangle_group_ids names cur) (\<lambda>(groups, cur).
        let (i, cur) = (case read_char CHR ''i'' cur of None \<Rightarrow> (False, cur) | Some cur \<Rightarrow> (True, cur));
            (t, cur) =
              (case read_char CHR ''u'' cur of
                 Some cur \<Rightarrow> (uint32, cur)
               | None \<Rightarrow> (case read_char CHR ''w'' cur of Some cur \<Rightarrow> (int64, cur) | None \<Rightarrow> (int32, cur)))
        in Inr ((base, groups, i, t), cur))))" if "length (remaining cur) < k" for cur
    by (rule leaves_then [OF optional_leaves(2) [OF that]], simp only: prod.case, rule leaves_then [OF groups], assumption,
        simp only: prod.case, rule tail)
  then show ?thesis using k
    by (auto simp: demangle_extras_def expect_char_def split: list.splits option.splits dest!: read_char_shorter)
qed

lemma demangle_array_leaves: "leaves (length (remaining cur)) (demangle_array_constraint names cur)"
proof -
  let ?k = "length (remaining cur)"
  have init: "leaves ?k (and_then (ArrayConstraint_init t n i lb gs ma st sh sd shd b) (\<lambda>a. Inr (a, cur)))" if "length (remaining cur) < ?k"
    for t n i lb gs ma st sh sd shd b and cur :: cursor
    using that array_init_error [of t n i lb gs ma st sh sd shd b]
    by (cases "ArrayConstraint_init t n i lb gs ma st sh sd shd b") auto
  have axes: "leaves ?k (demangle_axes (Suc (length (remaining cur))) n xs cur)" if "length (remaining cur) < ?k" for n xs cur
    by (rule leaves_mono [OF demangle_axes_leaves]) (use that in simp_all)
  have dtype: "leaves ?k (demangle_dtype cur)" if "length (remaining cur) < ?k" for cur
    by (rule leaves_mono [OF demangle_dtype_leaves]) (use that in simp)
  show ?thesis unfolding demangle_array_constraint_def
    by (rule leaves_then [OF expect_nat_leaves], simp only: prod.case, rule leaves_then [OF dtype], assumption, simp only: prod.case,
        rule leaves_then [OF axes], assumption)
      (auto intro!: leaves_then [OF demangle_extras_leaves] init)
qed

lemma demangle_items_leaves:
  assumes "\<And>cur. length (remaining cur) < k \<Longrightarrow> leaves k (f cur)"
  shows "length (remaining cur) < k \<Longrightarrow> leaves k (demangle_items f j cur)"
proof (induction j arbitrary: cur)
  case (Suc j)
  have "leaves k (and_then (demangle_items f j cur) (\<lambda>(ps, cur). Inr (p # ps, cur)))" if "length (remaining cur) < k" for p cur
    by (rule leaves_then [OF Suc.IH [OF that]]) simp
  with assms [OF Suc.prems] show ?case by (auto intro: leaves_then)
qed simp

lemma demangle_constraint_leaves:
  "length (remaining cur) < n \<Longrightarrow> leaves (length (remaining cur)) (demangle_constraint n names cur)"
proof (induction n arbitrary: cur)
  case (Suc n)
  show ?case
  proof (cases "remaining cur")
    case (Cons c rest)
    let ?k = "Suc (length rest)" and ?cur = "cur\<lparr>remaining := rest\<rparr>"
    have step: "leaves ?k r" if "leaves (length (remaining ?cur)) r" for r :: "(ParameterConstraint \<times> cursor) res"
      by (rule leaves_mono [OF that]) simp
    have nested: "leaves ?k (demangle_constraint n names cur)" if "length (remaining cur) < ?k" for cur
      by (rule leaves_mono [OF Suc.IH]) (use that Suc.prems Cons in simp_all)
    have groups: "leaves ?k (demangle_group_ids names ?cur)"
      by (rule leaves_mono [OF demangle_group_ids_leaves]) simp
    have elem: "leaves ?k (let (may_alias, cur) = (case read_char CHR ''i'' cur of None \<Rightarrow> (False, cur) | Some cur \<Rightarrow> (True, cur)) in
            and_then (demangle_constraint n names cur) (\<lambda>(e, cur).
              case e of ArrayConstraint a \<Rightarrow> Inr (ListConstraint a groups may_alias, cur) | _ \<Rightarrow> Inl ValueError))"
      if "length (remaining cur) < ?k" for groups cur
    proof -
      have "leaves ?k (and_then (demangle_constraint n names cur) (\<lambda>(e, cur).
              case e of ArrayConstraint a \<Rightarrow> Inr (ListConstraint a groups b, cur) | _ \<Rightarrow> Inl ValueError))"
        if "length (remaining cur) < ?k" for b cur
        by (rule leaves_then [OF nested [OF that]]) (simp split: ParameterConstraint.splits)
      then show ?thesis using that read_char_shorter by (fastforce split: option.splits)
    qed
    have count: "leaves ?k (and_then (demangle_items (demangle_constraint n names) count cur) (\<lambda>(items, cur). Inr (TupleConstraint items, cur)))"
      if "length (remaining cur) < ?k" for count cur
      by (rule leaves_then [OF demangle_items_leaves [OF nested that]]) simp_all
    have digit: "leaves ?k (case read_char CHR ''0'' ?cur of
               Some cur \<Rightarrow> Inr (ConstantConstraint (BoolConstant False), cur)
             | None \<Rightarrow> and_then (expect_char CHR ''1'' ?cur) (\<lambda>cur. Inr (ConstantConstraint (BoolConstant True), cur)))"
      by (auto simp: expect_char_def split: option.splits dest!: read_char_shorter)
    have nat: "leaves ?k (expect_nat ?cur)" by (rule leaves_mono [OF expect_nat_leaves]) simp
    show ?thesis unfolding demangle_constraint.simps Cons list.case Let_def
      by (simp only: list.size add_0_right add_Suc_right digit if_split leaves_simps simp_thms)
        (intro conjI impI; (rule leaves_then [OF groups] leaves_then [OF nat] leaves_then [OF leaves_mono [OF demangle_array_leaves]]
          leaves_then [OF leaves_mono [OF demangle_dtype_leaves]] leaves_then [OF leaves_mono [OF demangle_signed_int_leaves]]
          leaves_then [OF leaves_mono [OF expect_exactly_leaves]])?; (simp add: count elem [unfolded Let_def] del: demangle_constraint.simps)?)
  qed simp
qed simp

lemma demangle_params_total: "length (remaining cur) < n \<Longrightarrow> demangle_params n names cur \<noteq> Inl RuntimeError"
proof (induction n arbitrary: cur)
  case (Suc n)
  show ?case
  proof (cases "expect_char CHR ''_'' cur")
    case (Inr cur1)
    then have less: "length (remaining cur1) < length (remaining cur)"
      by (auto simp: expect_char_def read_char_shorter split: option.splits)
    have "and_then (demangle_constraint (Suc (length (remaining cur1))) names cur1)
        (\<lambda>(p, cur). and_then (demangle_params n names cur) (\<lambda>ps. Inr (p # ps))) \<noteq> Inl RuntimeError"
    proof (cases "demangle_constraint (Suc (length (remaining cur1))) names cur1")
      case r: (Inr x)
      obtain p cur2 where x: "x = (p, cur2)" by fastforce
      have "length (remaining cur2) < length (remaining cur1)"
        using demangle_constraint_leaves [of cur1 "Suc (length (remaining cur1))" names] by (simp add: r x del: demangle_constraint.simps)
      then have "demangle_params n names cur2 \<noteq> Inl RuntimeError" using Suc less by simp
      then show ?thesis by (simp add: r x and_then_error del: demangle_constraint.simps)
    next
      case (Inl e)
      then show ?thesis using demangle_constraint_leaves [of cur1 "Suc (length (remaining cur1))" names]
        by (simp del: demangle_constraint.simps)
    qed
    then show ?thesis by (simp add: Inr del: demangle_constraint.simps)
  qed (auto simp: expect_char_def split: option.splits)
qed simp

lemma signature_init_error: "KernelSignature_init ps cconv name \<noteq> Inl RuntimeError"
proof -
  have group: "count_group k gs g st \<noteq> Inl RuntimeError" for k gs g st
    by (cases st) (simp add: count_group_def)
  have groups: "fold_res (count_group k gs) hs st \<noteq> Inl RuntimeError" for k gs hs st
    by (induction hs arbitrary: st) (auto simp: and_then_error group)
  have "fold_res (\<lambda>(kind, groups) (uc, ko). and_then (fold_res (count_group kind groups) groups ([], uc, ko)) (\<lambda>(seen, uc, ko). Inr (uc, ko))) cs st
      \<noteq> Inl RuntimeError" for cs st
    by (induction cs arbitrary: st) (auto simp: and_then_error groups)
  then have "validate_alias_groups ps \<noteq> Inl RuntimeError" by (auto simp: validate_alias_groups_def and_then_error)
  moreover have support: "validate_constraint_support cconv p \<noteq> Inl RuntimeError" for p
  proof (induction p)
    case (TupleConstraint items)
    then have "map_res (validate_constraint_support cconv) items \<noteq> Inl RuntimeError" by (induction items) (auto simp: and_then_error)
    then show ?case by (simp add: and_then_error)
  qed auto
  moreover have "map_res (validate_constraint_support cconv) qs \<noteq> Inl RuntimeError" for qs
    by (induction qs) (auto simp: and_then_error support)
  ultimately show ?thesis by (auto simp: KernelSignature_init_def and_then_error)
qed

text \<open>
  C23. Reading a name as the symbol of a kernel ends on every string: none of the loops over the
  masks, the groups, the items and the parameters, and none of the nested constraints, takes
  more rounds than there are characters left, so the model never runs out of fuel.
\<close>

theorem demangle_kernel_name_ends: "demangle_kernel_name_with name names \<noteq> Inl RuntimeError"
proof (cases "split_kernel name")
  case None
  then show ?thesis by (simp add: demangle_kernel_name_with_def)
next
  case (Some fr)
  obtain f rest where fr: "fr = (f, rest)" by fastforce
  have "demangle_calling_convention cur \<noteq> Inl RuntimeError" for cur
    using expect_while_leaves [of cur "\<lambda>c. c \<noteq> CHR ''_''"]
    by (auto simp: demangle_calling_convention_def and_then_error cconv_from_code_def split: if_splits)
  moreover have "demangle_params (Suc (length (remaining cur))) names cur \<noteq> Inl RuntimeError" for cur
    by (rule demangle_params_total) simp
  ultimately show ?thesis
    by (auto simp: demangle_kernel_name_with_def Some fr and_then_error signature_init_error simp del: demangle_params.simps)
qed

end
