(* ===== verification/Spec2Isabelle.thy ===== *)
theory Spec2Isabelle
  imports BcFile DceSound CodeMotionScope DataflowTerm DataflowAlias DivbySound TokenSound RewriteSound MangleTotal
begin

text \<open>
  A verification development for the cuTile Python compiler, \<^verbatim>\<open>src/src/cuda/tile\<close>.

  The program compiles a Python kernel in stages: the syntax tree becomes a tree of calls
  (\<^verbatim>\<open>_passes/ast2hir.py\<close>), which is executed symbolically into the tile IR, blocks of
  operations over typed variables (\<^verbatim>\<open>_passes/hir2ir.py\<close>, \<^verbatim>\<open>_ir\<close>); passes rewrite the IR
  (\<^verbatim>\<open>_passes\<close>, in the order of \<^verbatim>\<open>_transform_ir\<close> of \<^verbatim>\<open>_compile.py\<close>); \<^verbatim>\<open>_ir2bytecode.py\<close> walks
  the result and drives the bytecode writer (\<^verbatim>\<open>_bytecode\<close>), whose file goes to the external
  assembler. The development models the typing rules the symbolic execution applies, the
  IR with its passes, and the bytecode writer. File names below are relative to
  \<^verbatim>\<open>src/src/cuda/tile\<close>.

  \<^bold>\<open>Conventions.\<close> An exception is the left side of a sum (\<^verbatim>\<open>res\<close> of Prelude), so every raise is a
  branch. A Python object that is mutated is a record passed through; a Python dict is a
  partial function, or an association list where its order is visible; Python integers are
  unbounded, and the widths of the target are written out where the code relies on them.

  \<^bold>\<open>Bytecode writer.\<close>
  Prelude: results, bytes, and the Python primitives \<^verbatim>\<open>bit_length\<close> and \<^verbatim>\<open>to_bytes\<close>.
  BcBasic (\<^verbatim>\<open>_bytecode/basic.py\<close>): interning tables and variable-length integers.
  BcType (\<^verbatim>\<open>version.py\<close>, \<^verbatim>\<open>type_base.py\<close>, \<^verbatim>\<open>type.py\<close>): the type table.
  BcFloat (\<^verbatim>\<open>float.py\<close>): float bit patterns, on IEEE bit patterns of Python floats.
  BcAttr (\<^verbatim>\<open>constant.py\<close>, \<^verbatim>\<open>debug_info.py\<close>, \<^verbatim>\<open>attribute.py\<close>) and BcDebug: constants, debug
  attributes, tagged attributes, with decoders.
  BcCode (\<^verbatim>\<open>code_builder.py\<close>): the builder of one function and its nested blocks.
  BcOps1, BcOps2 (\<^verbatim>\<open>encodings.py\<close>): every operation encoder; BcSteps: runs of them as
  inductive relations.
  BcWriter, BcFile (\<^verbatim>\<open>writer.py\<close>): sections, tables and the file, with a reader of files.
  The lemmas show that integers, types, attributes, debug attributes, tables and sections
  are read back by decoders that are written against the format, that interning is canonical
  and tables only grow, that every operation encoder, with nested blocks or without, has the
  same effect on the builder, that in every well-nested run the operation counts, value
  numbers and debug attributes agree, and that any finished file parses back into the tables
  of the writer. Operation records themselves have no decoder.

  \<^bold>\<open>Typing rules.\<close>
  Datatypes (\<^verbatim>\<open>_datatype.py\<close>, \<^verbatim>\<open>_ir/typing_support.py\<close>): data types, promotion, matrix
  multiplication. Shapes (\<^verbatim>\<open>_ir/ops_utils.py\<close>, \<^verbatim>\<open>_ir/arithmetic_ops.py\<close>): broadcasting,
  reshaping, constants. TileArith: constant folding, rounding modes, memory orders, and the
  corrections applied to target instructions on words of any width.
  The lemmas relate the promotion table to the documented order, show that promotion keeps
  values, that accepted matrix multiplications, scaled ones included, have fitting types, that
  broadcasting is a least upper bound, that reshape accepts exactly the shapes with the same
  size, that an accepted rounding mode is one the operation has on the target version, and what
  the folded operations compute.

  \<^bold>\<open>IR and passes.\<close>
  TileIR (\<^verbatim>\<open>_ir/ir.py\<close>, \<^verbatim>\<open>_ir/control_flow_ops.py\<close>, classes of \<^verbatim>\<open>_ir/ops.py\<close>): variables and
  fresh names, operations, traversal, cloning. TileSem: scoping and an execution of blocks
  (not code of the repository) that the passes are measured against. It is parametric in a
  machine, the values and memory of the target; while loops run at most \<^verbatim>\<open>n\<close> iterations,
  for any \<^verbatim>\<open>n\<close>, and every property that speaks of runs holds for all \<^verbatim>\<open>n\<close>; reductions belong
  to the target and are not executed.
  PassAssign (\<^verbatim>\<open>_passes/eliminate_assign_ops.py\<close>): the result has no assignment and the same
  executions. Dce, DceSim, DceGraph, DceSound (\<^verbatim>\<open>_passes/dce.py\<close>): the data-flow graph, the
  closure of the used variables, pruning; the pass accepts every well-formed kernel and
  keeps its terminating executions. DceSim is the simulation for any set of variables
  consistent with the program, DceGraph shows that the pass computes such a set.
  CodeMotion, CodeMotionScope (\<^verbatim>\<open>_passes/code_motion.py\<close>): hoisting keeps the operations with
  effects in order, and keeps scoping for kernels whose nested constructs are flat or have
  an effect; three kernels show that it does not in general.
  Signature (\<^verbatim>\<open>compilation/_signature.py\<close>): the constraints on kernel parameters.
  NameMangling (\<^verbatim>\<open>compilation/_name_mangling.py\<close>): symbols of exported kernels that spell out
  the signature. MangleRead, MangleArray, MangleAxes, MangleExtras, MangleConstraint,
  MangleSound: each piece of a symbol is read back, with any text after it that may follow, so
  the signature is; three signatures show what the constructor accepts and the mangling does
  not. MangleTotal: reading ends on every string; the fuel is the length of the text left.
  Dataflow (\<^verbatim>\<open>_passes/dataflow_analysis.py\<close>): alias sets and divisors of the variables, from the
  constraints of the parameters. DataflowTerm: its rounds end. DataflowAlias: alias sets
  intersect exactly when alias groups do. DataflowSound: what a state in which a round changes
  nothing says of the values of a run. DivbyPass (\<^verbatim>\<open>_passes/propagate_divby.py\<close>), DivbyState,
  DivbySim, DivbySound: the divisors become assumptions, which hold in every run. There a
  machine is one whose pointer and index arithmetic keeps powers of two (\<^verbatim>\<open>keeps_powers\<close>), a
  false assumption ends the run, and a run has no lists of arrays.
  TokenOrder (\<^verbatim>\<open>_passes/token_order.py\<close>): memory operations take and give tokens, and control
  flow carries them. TokenPaths: the paths through a kernel with tokens, where a token is the
  set of the operations its holder waits for. TokenJoin, TokenStep, TokenBlock, TokenPlain,
  TokenSound: the token map holds every earlier operation under its keys, so every operation
  waits for those it must follow; a kernel shows what a parallel store does not wait for.

  RewritePatterns (\<^verbatim>\<open>_passes/rewrite_patterns.py\<close>): a float product that only one sum or
  difference uses is fused with it. RewriteSim, RewriteSound: the pass never fails, and keeps
  the runs on machines whose fused operation computes the product and then the sum
  (\<^verbatim>\<open>contracts\<close>), so contraction is all it changes.

  \<^bold>\<open>Not modelled.\<close> The front end (Python syntax trees, coroutines, dynamic dispatch), the type
  classes beyond what the passes inspect, printing and error messages, the drivers and
  caches around the external assembler, the C++ extension, and the experimental
  \<^verbatim>\<open>cuda-lang\<close> tree. Of the passes, loop splitting,
  the copying of partition views and the dtype checks are not modelled; neither is
  \<^verbatim>\<open>_ir2bytecode.py\<close>.
\<close>

end
